(* ===== verification/Prelude.thy ===== *)
theory Prelude
  imports Complex_Main "HOL-Library.AList"
begin

text \<open>
  Shared vocabulary of the development: Python's banker's rounding on exact
  rationals, decimal rendering of numbers with zero padding, bounded deques and
  insertion-ordered dictionaries, with the lemmas about them that every
  component uses.

  Prices, rates and charges are Python floats in the program and exact
  rationals here, so the theorems state what the formulas compute and not the
  last bit of IEEE arithmetic.  Python's unbounded integers are \<^typ>\<open>int\<close>.
\<close>

named_theorems py_simps "evaluation of rounding, rendering and containers"
named_theorems py_bounds "bounds of rounded values"

type_synonym money = rat

section \<open>Rounding\<close>

text \<open>Python's round: to the nearest integer, ties to the even one.\<close>

definition round_int :: "rat \<Rightarrow> int" where
  "round_int x =
     (let f = \<lfloor>x\<rfloor>; d = x - of_int f in
      if d < 1 / 2 then f
      else if 1 / 2 < d then f + 1
      else if even f then f else f + 1)"

text \<open>The call round(x, n): to n decimal places.\<close>

definition py_round :: "nat \<Rightarrow> rat \<Rightarrow> rat" where
  "py_round n x = of_int (round_int (x * 10 ^ n)) / 10 ^ n"

lemma round_int_near: "\<bar>of_int (round_int x) - x\<bar> \<le> 1 / 2"
proof -
  have "of_int \<lfloor>x\<rfloor> \<le> x" "x < of_int \<lfloor>x\<rfloor> + 1" by linarith+
  then show ?thesis by (simp add: round_int_def Let_def abs_le_iff)
qed

lemma round_int_of_int [simp, py_simps]: "round_int (of_int k) = k"
  by (simp add: round_int_def)

lemma round_int_numeral [simp, py_simps]:
  "round_int 0 = 0" "round_int 1 = 1" "round_int (numeral k) = numeral k"
  using round_int_of_int [of 0] round_int_of_int [of 1] round_int_of_int [of "numeral k"]
  by simp_all

lemma round_int_floor_or_succ: "round_int x = \<lfloor>x\<rfloor> \<or> round_int x = \<lfloor>x\<rfloor> + 1"
  by (simp add: round_int_def Let_def)

lemma round_int_mono: "x \<le> y \<Longrightarrow> round_int x \<le> round_int y"
proof -
  assume le: "x \<le> y"
  then have fl: "\<lfloor>x\<rfloor> \<le> \<lfloor>y\<rfloor>" by (rule floor_mono)
  show ?thesis
  proof (cases "\<lfloor>x\<rfloor> = \<lfloor>y\<rfloor>")
    case True
    with le show ?thesis by (auto simp: round_int_def Let_def)
  next
    case False
    with fl show ?thesis
      using round_int_floor_or_succ [of x] round_int_floor_or_succ [of y] by linarith
  qed
qed

lemma round_int_nonneg [py_bounds]: "0 \<le> x \<Longrightarrow> 0 \<le> round_int x"
  using round_int_mono [of 0 x] by simp

lemma py_round_mono: "x \<le> y \<Longrightarrow> py_round n x \<le> py_round n y"
  by (simp add: py_round_def divide_right_mono round_int_mono mult_right_mono)

lemma py_round_0 [simp, py_simps]: "py_round n 0 = 0"
  by (simp add: py_round_def)

lemma py_round_nonneg [py_bounds]: "0 \<le> x \<Longrightarrow> 0 \<le> py_round n x"
  using py_round_mono [of 0 x n] by simp

lemma py_round_grid: "x * 10 ^ n = of_int k \<Longrightarrow> py_round n x = x"
  by (simp add: py_round_def field_simps)

lemma py_round_near: "\<bar>py_round n x - x\<bar> \<le> 1 / (2 * 10 ^ n)"
proof -
  have "py_round n x - x = (of_int (round_int (x * 10 ^ n)) - x * 10 ^ n) / 10 ^ n"
    by (simp add: py_round_def diff_divide_distrib)
  then have "\<bar>py_round n x - x\<bar> = \<bar>of_int (round_int (x * 10 ^ n)) - x * 10 ^ n\<bar> / 10 ^ n"
    by (simp add: abs_divide)
  also have "\<dots> \<le> (1 / 2) / 10 ^ n"
    by (intro divide_right_mono round_int_near) simp
  finally show ?thesis by simp
qed

lemma py_round_idem: "py_round n (py_round n x) = py_round n x"
  by (rule py_round_grid [where k = "round_int (x * 10 ^ n)"]) (simp add: py_round_def)

section \<open>Decimal rendering\<close>

text \<open>
  The digits of a natural number and the format directive that pads it with
  zeros to a width, as in a format string ending in 04d or 06d: a number
  longer than the width is printed in full.
\<close>

definition digit_char :: "nat \<Rightarrow> char" where
  "digit_char d = char_of (48 + d)"

fun nat_digits :: "nat \<Rightarrow> string" where
  "nat_digits n = (if n < 10 then [digit_char n] else nat_digits (n div 10) @ [digit_char (n mod 10)])"

declare nat_digits.simps [simp del]

definition pad_nat :: "nat \<Rightarrow> nat \<Rightarrow> string" where
  "pad_nat w n = (let s = nat_digits n in replicate (w - length s) CHR ''0'' @ s)"

definition is_digit :: "char \<Rightarrow> bool" where
  "is_digit c = (48 \<le> (of_char c :: nat) \<and> (of_char c :: nat) \<le> 57)"

definition digit_val :: "char \<Rightarrow> nat" where
  "digit_val c = (of_char c :: nat) - 48"

definition parse_nat :: "string \<Rightarrow> nat" where
  "parse_nat s = fold (\<lambda>c a. 10 * a + digit_val c) s 0"

lemma digit_char_code: "d < 10 \<Longrightarrow> (of_char (digit_char d) :: nat) = 48 + d"
  by (simp add: digit_char_def take_bit_nat_eq_self)

lemma digit_char_is_digit [simp]: "d < 10 \<Longrightarrow> is_digit (digit_char d)"
  by (simp add: is_digit_def digit_char_code)

lemma digit_char_val [simp]: "d < 10 \<Longrightarrow> digit_val (digit_char d) = d"
  by (simp add: digit_val_def digit_char_code)

lemma nat_digits_all: "list_all is_digit (nat_digits n)"
proof (induction n rule: nat_digits.induct)
  case (1 n)
  then show ?case by (subst nat_digits.simps) auto
qed

lemma nat_digits_ne [simp]: "nat_digits n \<noteq> []"
  by (subst nat_digits.simps) simp

lemma parse_nat_snoc: "parse_nat (s @ [c]) = 10 * parse_nat s + digit_val c"
  by (simp add: parse_nat_def)

lemma parse_nat_digits [simp]: "parse_nat (nat_digits n) = n"
proof (induction n rule: nat_digits.induct)
  case (1 n)
  show ?case
  proof (cases "n < 10")
    case True
    then show ?thesis by (subst nat_digits.simps) (simp add: parse_nat_def)
  next
    case False
    then have "parse_nat (nat_digits n) = 10 * (n div 10) + n mod 10"
      using 1 by (subst nat_digits.simps) (simp add: parse_nat_snoc)
    then show ?thesis by simp
  qed
qed

lemma parse_nat_zeros [simp]: "parse_nat (replicate k CHR ''0'' @ s) = parse_nat s"
  by (induction k) (simp_all add: parse_nat_def digit_val_def)

lemma parse_pad_nat [simp]: "parse_nat (pad_nat w n) = n"
  by (simp add: pad_nat_def Let_def)

lemma pad_nat_inj: "pad_nat w m = pad_nat w n \<Longrightarrow> m = n"
  using parse_pad_nat by metis

lemma pad_nat_all: "list_all is_digit (pad_nat w n)"
  using nat_digits_all [of n]
  by (auto simp: pad_nat_def Let_def list_all_iff is_digit_def set_replicate_conv_if split: if_splits)

lemma pad_nat_ne [simp]: "pad_nat w n \<noteq> []"
  by (simp add: pad_nat_def Let_def)

lemma length_nat_digits: "0 < w \<Longrightarrow> n < 10 ^ w \<Longrightarrow> length (nat_digits n) \<le> w"
proof (induction n arbitrary: w rule: nat_digits.induct)
  case (1 n)
  show ?case
  proof (cases "n < 10")
    case True
    with 1 show ?thesis by (subst nat_digits.simps) simp
  next
    case False
    with 1 have w: "1 < w" by (cases w) (auto simp: less_Suc_eq_0_disj, case_tac nat, auto)
    then obtain v where v: "w = Suc v" "0 < v" by (cases w) auto
    with 1(3) have "n div 10 < 10 ^ v" by auto
    with 1(1) [OF False, of v] v False show ?thesis by (subst nat_digits.simps) simp
  qed
qed

lemma length_pad_nat: "0 < w \<Longrightarrow> n < 10 ^ w \<Longrightarrow> length (pad_nat w n) = w"
  using length_nat_digits [of w n] by (simp add: pad_nat_def Let_def)

section \<open>Case of ASCII letters\<close>

definition lower_char :: "char \<Rightarrow> char" where
  "lower_char c =
     (if 65 \<le> (of_char c :: nat) \<and> (of_char c :: nat) \<le> 90
      then char_of ((of_char c :: nat) + 32) else c)"

definition upper_char :: "char \<Rightarrow> char" where
  "upper_char c =
     (if 97 \<le> (of_char c :: nat) \<and> (of_char c :: nat) \<le> 122
      then char_of ((of_char c :: nat) - 32) else c)"

definition upper :: "string \<Rightarrow> string" where "upper s = map upper_char s"
definition lower :: "string \<Rightarrow> string" where "lower s = map lower_char s"

section \<open>Insertion-ordered dictionaries and bounded deques\<close>

text \<open>
  A Python dict is an association list in insertion order: assigning to a
  present key keeps its place, assigning to a new one appends it.
\<close>

type_synonym ('k, 'v) dict = "('k \<times> 'v) list"

abbreviation dict_get :: "('k, 'v) dict \<Rightarrow> 'k \<Rightarrow> 'v option" where
  "dict_get \<equiv> map_of"

abbreviation dict_set :: "'k \<Rightarrow> 'v \<Rightarrow> ('k, 'v) dict \<Rightarrow> ('k, 'v) dict" where
  "dict_set \<equiv> AList.update"

abbreviation dict_pop :: "'k \<Rightarrow> ('k, 'v) dict \<Rightarrow> ('k, 'v) dict" where
  "dict_pop \<equiv> AList.delete"

lemma dict_get_set [simp, py_simps]:
  "dict_get (dict_set k v d) k' = (if k' = k then Some v else dict_get d k')"
  by (simp add: update_conv')

lemma dict_get_pop [simp, py_simps]:
  "dict_get (dict_pop k d) k' = (if k' = k then None else dict_get d k')"
  by (simp add: delete_conv')

lemma distinct_dict_set [simp]: "distinct (map fst d) \<Longrightarrow> distinct (map fst (dict_set k v d))"
  by (rule distinct_update)

lemma distinct_dict_pop [simp]: "distinct (map fst d) \<Longrightarrow> distinct (map fst (dict_pop k d))"
  by (rule distinct_delete)

lemma dict_set_values: "snd ` set (dict_set k v d) \<subseteq> insert v (snd ` set d)"
  by (induction d) auto

text \<open>Appending to a deque with a maxlen drops from the left.\<close>

definition deque_append :: "nat \<Rightarrow> 'a list \<Rightarrow> 'a \<Rightarrow> 'a list" where
  "deque_append n xs x = drop (Suc (length xs) - n) (xs @ [x])"

lemma length_deque_append [simp]: "length xs \<le> n \<Longrightarrow> length (deque_append n xs x) \<le> n"
  by (simp add: deque_append_def)

lemma deque_append_last: "0 < n \<Longrightarrow> deque_append n xs x \<noteq> [] \<and> last (deque_append n xs x) = x"
  by (cases n) (auto simp: deque_append_def last_drop)

lemma set_deque_append: "set (deque_append n xs x) \<subseteq> insert x (set xs)"
  using set_drop_subset [of "Suc (length xs) - n" "xs @ [x]"] by (simp add: deque_append_def)

section \<open>Lists and options\<close>

lemma find_SomeD: "find P xs = Some x \<Longrightarrow> P x \<and> x \<in> set xs"
  by (induction xs) (auto split: if_splits)

lemma find_NoneD: "find P xs = None \<Longrightarrow> x \<in> set xs \<Longrightarrow> \<not> P x"
  by (induction xs) (auto split: if_splits)

text \<open>Optional comparison that Python writes as a guard on None.\<close>

definition opt_holds :: "('a \<Rightarrow> bool) \<Rightarrow> 'a option \<Rightarrow> bool" where
  "opt_holds P m = (case m of None \<Rightarrow> False | Some x \<Rightarrow> P x)"

lemma opt_holds_simps [simp, py_simps]:
  "opt_holds P None = False" "opt_holds P (Some x) = P x"
  by (simp_all add: opt_holds_def)

lemma sum_list_nonneg_rat: "(\<And>x. x \<in> set xs \<Longrightarrow> (0::rat) \<le> f x) \<Longrightarrow> 0 \<le> (\<Sum>x\<leftarrow>xs. f x)"
  by (induction xs) auto

end
