(* ===== verification/Errors.thy ===== *)
theory Errors
  imports Prelude
begin

text \<open>
  The exceptions the modelled code raises, as values, and the result type of an
  operation that may raise.  Messages are abstracted: an exception is its class
  and, for a simulator rejection, its code.
\<close>

text \<open>PaperRejectionCode of common/broker/paper.py.\<close>

datatype rejection_code =
    INVALID_INSTRUMENT | INVALID_QUANTITY | INVALID_TICK_PRICE | STALE_QUOTE
  | NO_DEPTH | MARKET_CLOSED | RISK_BLOCKED | DUPLICATE_CORRELATION_ID | INJECTED_FAILURE

datatype exn =
    ValueError
  | TypeError
  | AttributeError
  | RuntimeError
  | KeyError
  | ZeroDivisionError
  | IndexError
  | ScripMasterError
  | AssertionError
  | IntegrityError
  | NaiveDatetimeError
  | CorrelationIdError
  | PaperRejection rejection_code
  | GatewayExecutionError
  | ContractNotListed
  | UnsupportedStateVersion
  | InvalidWarmupConfig
  | LiveExecutionBlocked
  | FeedUnavailableError
  | DuplicateProcessError
  | ConfigError
  | MissingCredentialsError
  | TokenGenerationError
  | InvalidCredentialsError
  | TokenRateLimitedError
  | TokenRejectedRecentlyError
  | TokenStoreError
  | MigrationError
  | OptionChainError
  | DhanFeedError
  | HistoricalDataError
  | HistoricalDataTransientError
  | HistoricalDataRejectedError
  | DatabaseError
  | BrokerError
  | ProjectRootError
  | QueueFull
  | QueueEmpty
  | OSError
  | OverflowError

type_synonym 'a result = "exn + 'a"

named_theorems result_simps "sequencing of operations that may raise"

definition bindE :: "'a result \<Rightarrow> ('a \<Rightarrow> 'b result) \<Rightarrow> 'b result" where
  "bindE r f = (case r of Inl e \<Rightarrow> Inl e | Inr x \<Rightarrow> f x)"

text \<open>The guard statement: raise the exception unless the condition holds.\<close>

definition check :: "bool \<Rightarrow> exn \<Rightarrow> unit result" where
  "check b e = (if b then Inr () else Inl e)"

lemma bindE_simps [simp, result_simps]:
  "bindE (Inl e) f = Inl e" "bindE (Inr x) f = f x"
  by (simp_all add: bindE_def)

lemma bindE_Inr: "bindE r f = Inr y \<longleftrightarrow> (\<exists>x. r = Inr x \<and> f x = Inr y)"
  by (cases r) auto

lemma check_simps [simp, result_simps]:
  "check True e = Inr ()" "check False e = Inl e"
  by (simp_all add: check_def)

lemma check_Inr [simp]: "check b e = Inr u \<longleftrightarrow> b"
  by (simp add: check_def)

lemma check_Inl [simp]: "check b e = Inl e' \<longleftrightarrow> \<not> b \<and> e' = e"
  by (auto simp: check_def)

lemma bindE_check_Inr [simp]: "bindE (check b e) f = Inr y \<longleftrightarrow> b \<and> f () = Inr y"
  by (auto simp: check_def)

definition returned :: "'a result \<Rightarrow> bool" where
  "returned r = (case r of Inl _ \<Rightarrow> False | Inr _ \<Rightarrow> True)"

lemma returned_simps [simp, result_simps]: "\<not> returned (Inl e)" "returned (Inr x)"
  by (simp_all add: returned_def)

lemma returned_iff: "returned r \<longleftrightarrow> (\<exists>x. r = Inr x)"
  by (cases r) auto

end
