(* ===== verification/Timeutils.thy ===== *)
theory Timeutils
  imports Errors
begin

text \<open>
  Dates, times and instants: common/utils/timeutils.py and the parts of
  Python's datetime the modelled code uses.

  A datetime is its wall clock, in microseconds since 1970-01-01 00:00, and its
  UTC offset in microseconds, None for a naive one.  A time zone is a fixed
  offset: the one zone the program is configured with, Asia/Kolkata, has had a
  single offset since 1945.  A date is a day number counted from 1970-01-01, a
  time of day the microseconds since midnight, a timedelta microseconds.
\<close>

datatype datetime = DT (wall: int) (utcoffset: "int option")

type_synonym tz = int
type_synonym day = int
type_synonym tod = int

definition second :: int where "second = 1000000"
definition minute :: int where "minute = 60000000"
definition hour :: int where "hour = 3600000000"
definition day_us :: int where "day_us = 86400000000"

lemmas time_units [py_simps] = second_def minute_def hour_def day_us_def

definition ist :: tz where "ist = 5 * hour + 30 * minute"
definition utc :: tz where "utc = 0"

definition aware :: "datetime \<Rightarrow> bool" where
  "aware d = (utcoffset d \<noteq> None)"

text \<open>The absolute instant; comparison and subtraction of aware datetimes are by it.\<close>

definition instant :: "datetime \<Rightarrow> int" where
  "instant d = wall d - (case utcoffset d of None \<Rightarrow> 0 | Some z \<Rightarrow> z)"

instantiation datetime :: preorder
begin

definition less_eq_datetime :: "datetime \<Rightarrow> datetime \<Rightarrow> bool" where
  "less_eq_datetime a b = (instant a \<le> instant b)"

definition less_datetime :: "datetime \<Rightarrow> datetime \<Rightarrow> bool" where
  "less_datetime a b = (instant a < instant b)"

instance
  by standard (auto simp: less_eq_datetime_def less_datetime_def)

end

lemmas datetime_order = less_eq_datetime_def less_datetime_def

definition dt_add :: "datetime \<Rightarrow> int \<Rightarrow> datetime" where
  "dt_add d us = DT (wall d + us) (utcoffset d)"

definition dt_diff :: "datetime \<Rightarrow> datetime \<Rightarrow> int" where
  "dt_diff a b = instant a - instant b"

definition astimezone :: "tz \<Rightarrow> datetime \<Rightarrow> datetime" where
  "astimezone z d = DT (instant d + z) (Some z)"

definition dt_time :: "datetime \<Rightarrow> tod" where
  "dt_time d = wall d mod day_us"

definition dt_date :: "datetime \<Rightarrow> day" where
  "dt_date d = wall d div day_us"

definition combine :: "day \<Rightarrow> tod \<Rightarrow> tz \<Rightarrow> datetime" where
  "combine d t z = DT (d * day_us + t) (Some z)"

definition local_time_in :: "datetime \<Rightarrow> tz \<Rightarrow> tod result" where
  "local_time_in moment z =
     (if \<not> aware moment then Inl NaiveDatetimeError
      else Inr (dt_time (astimezone z moment)))"

definition local_date_in :: "datetime \<Rightarrow> tz \<Rightarrow> day result" where
  "local_date_in moment z =
     (if \<not> aware moment then Inl NaiveDatetimeError
      else Inr (dt_date (astimezone z moment)))"

text \<open>date.weekday(): Monday is 0; day 0 was a Thursday.\<close>

definition weekday :: "day \<Rightarrow> int" where
  "weekday d = (d + 3) mod 7"

lemma instant_dt_add [simp]: "instant (dt_add d us) = instant d + us"
  by (simp add: instant_def dt_add_def)

lemma aware_dt_add [simp]: "aware (dt_add d us) = aware d"
  by (simp add: aware_def dt_add_def)

lemma utcoffset_dt_add [simp]: "utcoffset (dt_add d us) = utcoffset d"
  by (simp add: dt_add_def)

lemma instant_astimezone [simp]: "instant (astimezone z d) = instant d"
  by (simp add: instant_def astimezone_def)

lemma aware_astimezone [simp]: "aware (astimezone z d)"
  by (simp add: aware_def astimezone_def)

lemma astimezone_idem [simp]: "astimezone z (astimezone y d) = astimezone z d"
  by (simp add: astimezone_def instant_def)

lemma dt_time_bounds: "0 \<le> dt_time d" "dt_time d < day_us"
  by (simp_all add: dt_time_def day_us_def)

lemma wall_date_time: "wall d = dt_date d * day_us + dt_time d"
  by (simp add: dt_date_def dt_time_def)

lemma combine_date_time:
  "0 \<le> t \<Longrightarrow> t < day_us \<Longrightarrow> dt_date (combine d t z) = d \<and> dt_time (combine d t z) = t"
  by (simp add: combine_def dt_date_def dt_time_def)

lemma weekday_bounds: "0 \<le> weekday d" "weekday d < 7"
  by (simp_all add: weekday_def)

section \<open>Calendar dates\<close>

text \<open>
  The proleptic Gregorian calendar of datetime.date: the number of a civil
  date, the civil date of a number and the ISO text of a date.
\<close>

definition leap_year :: "int \<Rightarrow> bool" where
  "leap_year y = (y mod 4 = 0 \<and> (y mod 100 \<noteq> 0 \<or> y mod 400 = 0))"

definition days_in_month :: "int \<Rightarrow> int \<Rightarrow> int" where
  "days_in_month y m =
     (if m = 2 then (if leap_year y then 29 else 28)
      else if m \<in> {4, 6, 9, 11} then 30 else 31)"

definition valid_civil :: "int \<Rightarrow> int \<Rightarrow> int \<Rightarrow> bool" where
  "valid_civil y m d =
     (1 \<le> y \<and> y \<le> 9999 \<and> 1 \<le> m \<and> m \<le> 12 \<and> 1 \<le> d \<and> d \<le> days_in_month y m)"

text \<open>Ordinal arithmetic as in datetime: days before a year, days before a month.\<close>

definition days_before_year :: "int \<Rightarrow> int" where
  "days_before_year y = (let p = y - 1 in p * 365 + p div 4 - p div 100 + p div 400)"

definition days_before_month :: "int \<Rightarrow> int \<Rightarrow> int" where
  "days_before_month y m =
     [0, 0, 31, 59, 90, 120, 151, 181, 212, 243, 273, 304, 334] ! nat m
       + (if 2 < m \<and> leap_year y then 1 else 0)"

definition day_of_civil :: "int \<Rightarrow> int \<Rightarrow> int \<Rightarrow> day" where
  "day_of_civil y m d = days_before_year y + days_before_month y m + d - 719163"

text \<open>ISO text of a civil date: year to four digits, month and day to two.\<close>

definition iso_civil :: "int \<Rightarrow> int \<Rightarrow> int \<Rightarrow> string" where
  "iso_civil y m d =
     pad_nat 4 (nat y) @ ''-'' @ pad_nat 2 (nat m) @ ''-'' @ pad_nat 2 (nat d)"

lemma iso_civil_length: "valid_civil y m d \<Longrightarrow> length (iso_civil y m d) = 10"
proof -
  assume v: "valid_civil y m d"
  then have "nat y < 10 ^ 4" "nat m < 10 ^ 2" "nat d < 10 ^ 2"
    by (auto simp: valid_civil_def days_in_month_def split: if_splits)
  then show ?thesis by (simp add: iso_civil_def length_pad_nat)
qed

end
