(* ===== verification/Models.thy ===== *)
theory Models
  imports Timeutils
begin

text \<open>
  The value types of common/models/trading.py and common/models/market.py:
  enumerations, ticks, candles, signals, order intents, fills, orders and net
  positions, with the checks their constructors make.
\<close>

section \<open>Enumerations\<close>

datatype side = BUY | SELL

definition opposite :: "side \<Rightarrow> side" where
  "opposite s = (if s = BUY then SELL else BUY)"

definition side_sign :: "side \<Rightarrow> int" where
  "side_sign s = (if s = BUY then 1 else -1)"

datatype option_type = CE | PE

datatype exit_reason =
    STOP_LOSS | TRAILING_STOP | TARGET_PROFIT | OPPOSITE_SIGNAL | STRATEGY_EXIT
  | SQUARE_OFF | MANUAL | DAILY_LOSS_LIMIT | ADJUSTMENT | MOMENTUM_LOW | MOMENTUM_HIGH
  | HIGHEST_CLOSE_TRAIL | LOWEST_CLOSE_TRAIL | MOMENTUM_AND_TRAIL

datatype order_type = MARKET | LIMIT

datatype order_status =
    PENDING | SUBMITTED | ACKNOWLEDGED | PARTIALLY_FILLED | FILLED | REJECTED
  | CANCELLED | UNKNOWN

definition is_terminal :: "order_status \<Rightarrow> bool" where
  "is_terminal s = (s \<in> {FILLED, REJECTED, CANCELLED})"

datatype position_status = OPEN | CLOSED

datatype risk_decision = ALLOWED | BLOCKED

datatype execution_mode = PAPER | LIVE

definition current_state_version :: int where
  "current_state_version = 1"

section \<open>Market data\<close>

record tick =
  tk_security_id :: string
  tk_instrument :: string
  tk_last_price :: money
  tk_exchange_time :: datetime
  tk_received_at :: datetime
  tk_last_quantity :: int
  tk_bid_price :: "money option"
  tk_ask_price :: "money option"
  tk_sequence :: "int option"

definition tick_ok :: "tick \<Rightarrow> bool" where
  "tick_ok t = (0 < tk_last_price t \<and> aware (tk_exchange_time t) \<and> aware (tk_received_at t))"

definition new_tick :: "tick \<Rightarrow> tick result" where
  "new_tick t =
     bindE (check (0 < tk_last_price t) ValueError) (\<lambda>_.
     bindE (check (aware (tk_exchange_time t) \<and> aware (tk_received_at t)) ValueError) (\<lambda>_.
     Inr t))"

record candle =
  cd_security_id :: string
  cd_instrument :: string
  cd_open :: money
  cd_high :: money
  cd_low :: money
  cd_close :: money
  cd_volume :: int
  cd_start_at :: datetime
  cd_end_at :: datetime
  cd_tick_count :: int
  cd_last_tick_at :: "datetime option"
  cd_spans_gap :: bool

definition candle_ok :: "candle \<Rightarrow> bool" where
  "candle_ok c =
     (instant (cd_start_at c) < instant (cd_end_at c)
      \<and> aware (cd_start_at c) \<and> aware (cd_end_at c)
      \<and> cd_low c \<le> cd_open c \<and> cd_open c \<le> cd_high c
      \<and> cd_low c \<le> cd_close c \<and> cd_close c \<le> cd_high c)"

definition new_candle :: "candle \<Rightarrow> candle result" where
  "new_candle c =
     bindE (check (\<not> cd_end_at c \<le> cd_start_at c) ValueError) (\<lambda>_.
     bindE (check (aware (cd_start_at c) \<and> aware (cd_end_at c)) ValueError) (\<lambda>_.
     bindE (check (\<not> cd_high c < cd_low c) ValueError) (\<lambda>_.
     bindE (check (cd_low c \<le> cd_open c \<and> cd_open c \<le> cd_high c) ValueError) (\<lambda>_.
     bindE (check (cd_low c \<le> cd_close c \<and> cd_close c \<le> cd_high c) ValueError) (\<lambda>_.
     Inr c)))))"

lemma new_tick_Inr: "new_tick t = Inr t' \<longleftrightarrow> t' = t \<and> tick_ok t"
  by (auto simp: new_tick_def tick_ok_def)

lemma new_candle_Inr: "new_candle c = Inr c' \<longleftrightarrow> c' = c \<and> candle_ok c"
  by (auto simp: new_candle_def candle_ok_def datetime_order)

section \<open>Signals, intents, fills, orders and positions\<close>

record signal =
  sg_strategy_id :: string
  sg_execution_mode :: execution_mode
  sg_instrument :: string
  sg_security_id :: string
  sg_side :: side
  sg_quantity :: int
  sg_candle :: candle
  sg_reference_price :: money
  sg_evaluated_at :: datetime
  sg_reason :: string

definition new_signal :: "signal \<Rightarrow> signal result" where
  "new_signal s = bindE (check (0 < sg_quantity s) ValueError) (\<lambda>_. Inr s)"

record order_intent =
  oi_correlation_id :: string
  oi_strategy_id :: string
  oi_runtime_id :: string
  oi_execution_mode :: execution_mode
  oi_trading_date :: string
  oi_sequence_number :: int
  oi_instrument :: string
  oi_security_id :: string
  oi_side :: side
  oi_quantity :: int
  oi_order_type :: order_type
  oi_product_type :: string
  oi_created_at :: datetime
  oi_limit_price :: "money option"
  oi_trigger_price :: "money option"
  oi_signal_id :: "nat option"
  oi_basket_id :: "string option"
  oi_leg_id :: "string option"
  oi_config_fingerprint :: "string option"
  oi_risk_decision :: risk_decision
  oi_risk_reason :: "string option"

record fill =
  fl_correlation_id :: string
  fl_broker_fill_id :: string
  fl_strategy_id :: string
  fl_execution_mode :: execution_mode
  fl_quantity :: int
  fl_price :: money
  fl_filled_at :: datetime
  fl_reference_price :: "money option"
  fl_slippage_amount :: "money option"
  fl_latency_ms :: "int option"
  fl_fill_method :: "string option"
  fl_charges :: money
  fl_latency_applied :: "bool option"
  fl_quote_bid :: "money option"
  fl_quote_ask :: "money option"
  fl_quote_age_ms :: "rat option"

definition fill_ok :: "fill \<Rightarrow> bool" where
  "fill_ok f = (0 < fl_quantity f \<and> 0 < fl_price f)"

definition new_fill :: "fill \<Rightarrow> fill result" where
  "new_fill f =
     bindE (check (0 < fl_quantity f) ValueError) (\<lambda>_.
     bindE (check (0 < fl_price f) ValueError) (\<lambda>_. Inr f))"

lemma new_fill_Inr: "new_fill f = Inr f' \<longleftrightarrow> f' = f \<and> fill_ok f"
  by (auto simp: new_fill_def fill_ok_def)

record order =
  od_correlation_id :: string
  od_strategy_id :: string
  od_execution_mode :: execution_mode
  od_status :: order_status
  od_updated_at :: datetime
  od_broker_order_id :: "string option"
  od_filled_quantity :: int
  od_average_fill_price :: "money option"
  od_rejection_reason :: "string option"
  od_fills :: "fill list"

record position =
  ps_strategy_id :: string
  ps_execution_mode :: execution_mode
  ps_trading_date :: string
  ps_instrument :: string
  ps_security_id :: string
  ps_quantity :: int
  ps_average_price :: money
  ps_status :: position_status
  ps_opened_at :: datetime
  ps_updated_at :: datetime
  ps_entry_correlation_id :: "string option"
  ps_stop_price :: "money option"
  ps_target_price :: "money option"
  ps_highest_favourable :: "money option"
  ps_lowest_favourable :: "money option"
  ps_realised_pnl :: money
  ps_charges :: money
  ps_closed_at :: "datetime option"

definition position_is_open :: "position \<Rightarrow> bool" where
  "position_is_open p = (ps_status p = OPEN \<and> ps_quantity p \<noteq> 0)"

lemma opposite_simps [simp]: "opposite BUY = SELL" "opposite SELL = BUY" "opposite (opposite s) = s"
  by (cases s, simp_all add: opposite_def)+

lemma side_sign_simps [simp]:
  "side_sign BUY = 1" "side_sign SELL = -1" "side_sign (opposite s) = - side_sign s"
  by (simp_all add: side_sign_def opposite_def)

lemma side_sign_sq [simp]: "side_sign s * side_sign s = 1" "\<bar>side_sign s\<bar> = 1" "side_sign s \<noteq> 0"
  by (simp_all add: side_sign_def)

end
