(* ===== verification/Correlation.thy ===== *)
theory Correlation
  imports Models
begin

text \<open>
  common/execution/correlation.py: the correlation identifier that names one
  order intent to the broker, at most 25 characters, built from the execution
  mode, the runtime, the strategy, the trading date and a sequence number, and
  parsed back.  The regular expressions are written out as the functions on
  characters they denote; identifiers are ASCII strings.
\<close>

definition max_length :: nat where "max_length = 25"

definition strategy_token_length :: nat where "strategy_token_length = 4"

definition namespace_by_mode :: "execution_mode \<Rightarrow> char" where
  "namespace_by_mode m = (case m of PAPER \<Rightarrow> CHR ''p'' | LIVE \<Rightarrow> CHR ''l'')"

definition mode_by_namespace :: "char \<Rightarrow> execution_mode option" where
  "mode_by_namespace c =
     (if c = CHR ''p'' then Some PAPER else if c = CHR ''l'' then Some LIVE else None)"

definition alnum :: "char \<Rightarrow> bool" where
  "alnum c = (is_digit c \<or> (97 \<le> (of_char c :: nat) \<and> (of_char c :: nat) \<le> 122))"

text \<open>Maximal runs of characters in a class, the empty ones dropped.\<close>

fun runs_aux :: "string \<Rightarrow> string \<Rightarrow> string list" where
  "runs_aux acc [] = (if acc = [] then [] else [acc])"
| "runs_aux acc (c # cs) =
     (if alnum c then runs_aux (acc @ [c]) cs
      else (if acc = [] then [] else [acc]) @ runs_aux [] cs)"

definition tokenise :: "string \<Rightarrow> nat \<Rightarrow> string result" where
  "tokenise value limit =
     (let cleaned = filter alnum (map lower_char value) in
      if cleaned = [] then Inl CorrelationIdError else Inr (take limit cleaned))"

definition strategy_token :: "string \<Rightarrow> string result" where
  "strategy_token strategy_id = tokenise strategy_id strategy_token_length"

definition initials :: "string \<Rightarrow> nat \<Rightarrow> string result" where
  "initials value limit =
     (let parts = runs_aux [] (map lower_char value) in
      if parts = [] then Inl CorrelationIdError
      else if length parts = 1 then Inr (take limit (hd parts))
      else Inr (take limit (map hd parts)))"

text \<open>strptime with the format of eight digits, on eight digits.\<close>

definition compact_date_ok :: "string \<Rightarrow> bool" where
  "compact_date_ok s =
     (length s = 8 \<and> list_all is_digit s
      \<and> valid_civil (int (parse_nat (take 4 s))) (int (parse_nat (take 2 (drop 4 s))))
                    (int (parse_nat (drop 6 s))))"

definition compact_date :: "string \<Rightarrow> string" where
  "compact_date = filter (\<lambda>c. c \<noteq> CHR ''-'')"

definition build_correlation_id ::
  "execution_mode \<Rightarrow> string \<Rightarrow> string \<Rightarrow> string \<Rightarrow> int \<Rightarrow> string result" where
  "build_correlation_id mode runtime_id strategy_id trading_date sequence_number =
     bindE (check (0 \<le> sequence_number) CorrelationIdError) (\<lambda>_.
     let compact = compact_date trading_date in
     bindE (check (compact_date_ok compact) CorrelationIdError) (\<lambda>_.
     bindE (initials runtime_id 3) (\<lambda>runtime_token.
     bindE (tokenise strategy_id strategy_token_length) (\<lambda>strategy_id_token.
     let candidate = [namespace_by_mode mode] @ ''_'' @ runtime_token @ ''_'' @ strategy_id_token
                       @ ''_'' @ compact @ ''_'' @ pad_nat 4 (nat sequence_number) in
     bindE (check (length candidate \<le> max_length) CorrelationIdError) (\<lambda>_.
     Inr candidate)))))"

record parsed_id =
  pc_execution_mode :: execution_mode
  pc_runtime_token :: string
  pc_strategy_token :: string
  pc_trading_date :: string
  pc_sequence_number :: int

fun split_us :: "string \<Rightarrow> string \<Rightarrow> string list" where
  "split_us acc [] = [acc]"
| "split_us acc (c # cs) =
     (if c = CHR ''_'' then acc # split_us [] cs else split_us (acc @ [c]) cs)"

text \<open>
  The pattern's groups contain no underscore, so a match is the split at the
  underscores; its final dollar sign also accepts one newline at the end.
\<close>

definition strip_newline :: "string \<Rightarrow> string" where
  "strip_newline s = (if s \<noteq> [] \<and> of_char (last s) = (10::nat) then butlast s else s)"

definition nonempty_alnum :: "string \<Rightarrow> bool" where
  "nonempty_alnum s = (s \<noteq> [] \<and> list_all alnum s)"

definition parse_correlation_id :: "string \<Rightarrow> parsed_id result" where
  "parse_correlation_id cid =
     (case split_us [] (strip_newline cid) of
        [ns, runtime, strategy, date, seq] \<Rightarrow>
          (case (if length ns = 1 then mode_by_namespace (hd ns) else None) of
             None \<Rightarrow> Inl CorrelationIdError
           | Some mode \<Rightarrow>
               if nonempty_alnum runtime \<and> nonempty_alnum strategy
                  \<and> length date = 8 \<and> list_all is_digit date
                  \<and> 4 \<le> length seq \<and> list_all is_digit seq
               then Inr \<lparr>pc_execution_mode = mode, pc_runtime_token = runtime,
                         pc_strategy_token = strategy, pc_trading_date = date,
                         pc_sequence_number = int (parse_nat seq)\<rparr>
               else Inl CorrelationIdError)
      | _ \<Rightarrow> Inl CorrelationIdError)"

definition is_paper :: "string \<Rightarrow> bool" where
  "is_paper cid = (take 2 cid = ''p_'')"

section \<open>Tokens\<close>

lemma is_digit_alnum: "is_digit c \<Longrightarrow> alnum c"
  by (simp add: alnum_def)

lemma alnum_not_us [simp]: "alnum c \<Longrightarrow> c \<noteq> CHR ''_''"
  by (auto simp: alnum_def is_digit_def)

lemma alnum_not_nl [simp]: "alnum c \<Longrightarrow> (of_char c :: nat) \<noteq> 10"
  by (auto simp: alnum_def is_digit_def)

lemma tokenise_Inr:
  "tokenise v n = Inr t \<Longrightarrow> 0 < n \<Longrightarrow> nonempty_alnum t \<and> length t \<le> n"
  by (auto simp: tokenise_def nonempty_alnum_def Let_def list_all_iff dest!: in_set_takeD
      split: if_splits)

lemma runs_aux_alnum:
  "list_all alnum acc \<Longrightarrow> p \<in> set (runs_aux acc s) \<Longrightarrow> nonempty_alnum p"
  by (induction acc s rule: runs_aux.induct) (auto simp: nonempty_alnum_def split: if_splits)

lemma initials_Inr:
  assumes "initials v n = Inr t" "0 < n"
  shows "nonempty_alnum t \<and> length t \<le> n"
proof -
  let ?ps = "runs_aux [] (map lower_char v)"
  have parts: "nonempty_alnum p" if "p \<in> set ?ps" for p
    using runs_aux_alnum [OF _ that] by simp
  have hds: "list_all alnum (map hd ?ps)"
    using parts by (force simp: list_all_iff nonempty_alnum_def)
  have ne: "?ps \<noteq> []" using assms by (auto simp: initials_def Let_def)
  show ?thesis
  proof (cases "length ?ps = 1")
    case True
    with assms ne have "t = take n (hd ?ps)" by (simp add: initials_def Let_def)
    moreover have "nonempty_alnum (hd ?ps)" using parts ne by simp
    ultimately show ?thesis using assms(2)
      by (auto simp: nonempty_alnum_def list_all_iff dest: in_set_takeD)
  next
    case False
    with assms ne have "t = take n (map hd ?ps)" by (simp add: initials_def Let_def)
    then show ?thesis using assms(2) hds ne
      by (auto simp: nonempty_alnum_def list_all_iff take_map dest: in_set_takeD)
  qed
qed

section \<open>Splitting\<close>

lemma split_us_part:
  "CHR ''_'' \<notin> set p \<Longrightarrow> split_us acc (p @ CHR ''_'' # s) = (acc @ p) # split_us [] s"
  by (induction p arbitrary: acc) auto

lemma split_us_last: "CHR ''_'' \<notin> set p \<Longrightarrow> split_us acc p = [acc @ p]"
  by (induction p arbitrary: acc) auto

lemma alnum_no_us: "list_all alnum p \<Longrightarrow> CHR ''_'' \<notin> set p"
  by (auto simp: list_all_iff dest: alnum_not_us)

lemma digits_alnum: "list_all is_digit p \<Longrightarrow> list_all alnum p"
  by (auto simp: list_all_iff is_digit_alnum)

definition render_id :: "char \<Rightarrow> string \<Rightarrow> string \<Rightarrow> string \<Rightarrow> string \<Rightarrow> string" where
  "render_id ns r s d q = [ns] @ ''_'' @ r @ ''_'' @ s @ ''_'' @ d @ ''_'' @ q"

lemma split_render:
  assumes "alnum ns" "list_all alnum r" "list_all alnum s" "list_all alnum d" "list_all alnum q"
  shows "split_us [] (render_id ns r s d q) = [[ns], r, s, d, q]"
  using assms split_us_part [of "[ns]" "[]"]
  by (simp add: render_id_def alnum_no_us split_us_part split_us_last)

lemma strip_render:
  assumes "list_all alnum q" "q \<noteq> []"
  shows "strip_newline (render_id ns r s d q) = render_id ns r s d q"
proof -
  have "last (render_id ns r s d q) = last q" using assms by (simp add: render_id_def)
  moreover have "alnum (last q)" using assms by (simp add: list_all_iff)
  ultimately show ?thesis by (simp add: strip_newline_def)
qed

lemma namespace_alnum [simp]: "alnum (namespace_by_mode m)"
  by (cases m) (simp_all add: namespace_by_mode_def alnum_def)

lemma mode_of_namespace [simp]: "mode_by_namespace (namespace_by_mode m) = Some m"
  by (cases m) (simp_all add: namespace_by_mode_def mode_by_namespace_def)

lemma build_Inr:
  assumes "build_correlation_id m r s d q = Inr cid"
  shows "\<exists>rt st. initials r 3 = Inr rt \<and> tokenise s 4 = Inr st \<and> 0 \<le> q
          \<and> compact_date_ok (compact_date d) \<and> length cid \<le> 25
          \<and> cid = render_id (namespace_by_mode m) rt st (compact_date d) (pad_nat 4 (nat q))"
  using assms
  by (auto simp: build_correlation_id_def bindE_Inr Let_def render_id_def max_length_def
      strategy_token_length_def)

lemma length_pad_ge: "w \<le> length (pad_nat w n)"
  by (simp add: pad_nat_def Let_def)

lemma build_parse:
  assumes b: "build_correlation_id m r s d q = Inr cid"
  shows "\<exists>rt st. initials r 3 = Inr rt \<and> strategy_token s = Inr st
          \<and> parse_correlation_id cid =
              Inr \<lparr>pc_execution_mode = m, pc_runtime_token = rt, pc_strategy_token = st,
                   pc_trading_date = compact_date d, pc_sequence_number = q\<rparr>"
proof -
  obtain rt st where t: "initials r 3 = Inr rt" "tokenise s 4 = Inr st" "0 \<le> q"
    "compact_date_ok (compact_date d)"
    and cid: "cid = render_id (namespace_by_mode m) rt st (compact_date d) (pad_nat 4 (nat q))"
    using build_Inr [OF b] by blast
  have rt: "nonempty_alnum rt" using initials_Inr [OF t(1)] by simp
  have st: "nonempty_alnum st" using tokenise_Inr [OF t(2)] by simp
  have dd: "length (compact_date d) = 8" "list_all is_digit (compact_date d)"
    using t(4) by (simp_all add: compact_date_ok_def)
  note q = pad_nat_all [of 4 "nat q"]
  have "split_us [] (strip_newline cid)
          = [[namespace_by_mode m], rt, st, compact_date d, pad_nat 4 (nat q)]"
    unfolding cid
    by (subst strip_render, insert rt st dd q)
      (auto simp: nonempty_alnum_def digits_alnum intro: split_render)
  then show ?thesis using t rt st dd q length_pad_ge [of 4 "nat q"]
    by (simp add: parse_correlation_id_def strategy_token_def strategy_token_length_def)
qed

text \<open>C1: an identifier the builder returns is within the broker's 25 characters and
  parses back to the mode, the runtime and strategy tokens, the date and the
  sequence number it was built from.\<close>

theorem correlation_id_roundtrip:
  assumes "build_correlation_id m r s d q = Inr cid"
  shows "length cid \<le> 25
    \<and> (\<exists>rt st. initials r 3 = Inr rt \<and> strategy_token s = Inr st
          \<and> parse_correlation_id cid =
              Inr \<lparr>pc_execution_mode = m, pc_runtime_token = rt, pc_strategy_token = st,
                   pc_trading_date = compact_date d, pc_sequence_number = q\<rparr>)
    \<and> is_paper cid = (m = PAPER)"
proof -
  have "is_paper cid = (m = PAPER)"
    using build_Inr [OF assms] by (cases m) (auto simp: is_paper_def render_id_def namespace_by_mode_def)
  then show ?thesis using build_parse [OF assms] build_Inr [OF assms] by blast
qed

lemma build_example:
  "build_correlation_id PAPER ''intraday_options'' ''EMA-cross'' ''2026-08-03'' 7
     = Inr ''p_io_emac_20260803_0007''"
  by code_simp

theorem correlation_id_roundtrip_witness:
  "length ''p_io_emac_20260803_0007'' \<le> 25 \<and> is_paper ''p_io_emac_20260803_0007'' = (PAPER = PAPER)"
  using correlation_id_roundtrip [OF build_example] by blast

text \<open>Within one runtime and strategy, two intents with different mode, date or
  sequence number never get the same identifier.\<close>

theorem correlation_id_injective:
  assumes "build_correlation_id m r s d q = Inr cid"
    and "build_correlation_id m' r s d' q' = Inr cid"
  shows "m = m' \<and> compact_date d = compact_date d' \<and> q = q'"
  using build_parse [OF assms(1)] build_parse [OF assms(2)] by auto

end
