(* ===== verification/Tables.thy ===== *)
theory Tables
  imports Models
begin

text \<open>
  The SQLite tables under common/persistence: rows with an AUTOINCREMENT
  integer key.  A statement that violates a constraint raises IntegrityError
  and leaves the table as it was; a transaction that raises leaves the whole
  database as it was.  The decoded shape of a JSON column is here as well.
\<close>

record 'r table =
  tb_rows :: "(nat \<times> 'r) list"
  tb_seq :: nat

definition empty_table :: "'r table" where
  "empty_table = \<lparr>tb_rows = [], tb_seq = 0\<rparr>"

definition insert_row :: "'r \<Rightarrow> 'r table \<Rightarrow> 'r table" where
  "insert_row r t = \<lparr>tb_rows = tb_rows t @ [(tb_seq t + 1, r)], tb_seq = tb_seq t + 1\<rparr>"

definition next_id :: "'r table \<Rightarrow> nat" where
  "next_id t = tb_seq t + 1"

definition row_exists :: "('r \<Rightarrow> bool) \<Rightarrow> 'r table \<Rightarrow> bool" where
  "row_exists P t = list_ex (\<lambda>(i, r). P r) (tb_rows t)"

definition id_exists :: "nat \<Rightarrow> 'r table \<Rightarrow> bool" where
  "id_exists k t = list_ex (\<lambda>(i, r). i = k) (tb_rows t)"

definition select_rows :: "('r \<Rightarrow> bool) \<Rightarrow> 'r table \<Rightarrow> 'r list" where
  "select_rows P t = map snd (filter (\<lambda>(i, r). P r) (tb_rows t))"

definition select_one :: "('r \<Rightarrow> bool) \<Rightarrow> 'r table \<Rightarrow> 'r option" where
  "select_one P t = map_option snd (find (\<lambda>(i, r). P r) (tb_rows t))"

definition select_id :: "('r \<Rightarrow> bool) \<Rightarrow> 'r table \<Rightarrow> nat option" where
  "select_id P t = map_option fst (find (\<lambda>(i, r). P r) (tb_rows t))"

definition update_rows :: "(nat \<Rightarrow> 'r \<Rightarrow> bool) \<Rightarrow> ('r \<Rightarrow> 'r) \<Rightarrow> 'r table \<Rightarrow> 'r table" where
  "update_rows P f t = t\<lparr>tb_rows := map (\<lambda>(i, r). (i, if P i r then f r else r)) (tb_rows t)\<rparr>"

definition row_list :: "'r table \<Rightarrow> 'r list" where
  "row_list t = map snd (tb_rows t)"

text \<open>Keys are distinct and were issued by the counter; a UNIQUE key.\<close>

definition ids_ok :: "'r table \<Rightarrow> bool" where
  "ids_ok t = (distinct (map fst (tb_rows t)) \<and> (\<forall>i \<in> fst ` set (tb_rows t). i \<le> tb_seq t))"

definition unique_key :: "('r \<Rightarrow> 'k) \<Rightarrow> 'r table \<Rightarrow> bool" where
  "unique_key k t = distinct (map k (row_list t))"

named_theorems table_simps "row lists and lookups after inserts and updates"

lemma row_list_simps [simp, table_simps]:
  "row_list empty_table = []"
  "row_list (insert_row r t) = row_list t @ [r]"
  by (simp_all add: row_list_def empty_table_def insert_row_def)

lemma row_list_update [table_simps]:
  "row_list (update_rows (\<lambda>_. P) f t) = map (\<lambda>r. if P r then f r else r) (row_list t)"
  by (simp add: row_list_def update_rows_def case_prod_unfold)

lemma row_exists_list: "row_exists P t \<longleftrightarrow> (\<exists>r \<in> set (row_list t). P r)"
  by (force simp: row_exists_def row_list_def list_ex_iff)

lemma select_rows_list: "select_rows P t = filter P (row_list t)"
  by (simp add: select_rows_def row_list_def filter_map comp_def case_prod_unfold)

lemma select_one_list: "select_one P t = find P (row_list t)"
proof -
  have "map_option snd (find (\<lambda>(i, r). P r) xs) = find P (map snd xs)" for xs
    by (induction xs) auto
  then show ?thesis by (simp add: select_one_def row_list_def)
qed

lemma ids_ok_simps [simp]:
  "ids_ok empty_table"
  "ids_ok t \<Longrightarrow> ids_ok (insert_row r t)"
  "ids_ok (update_rows P f t) = ids_ok t"
  by (force simp: ids_ok_def empty_table_def insert_row_def update_rows_def case_prod_unfold comp_def)+

lemma id_exists_simps [simp]:
  "id_exists k (insert_row r t) \<longleftrightarrow> id_exists k t \<or> k = next_id t"
  "id_exists k (update_rows P f t) = id_exists k t"
  "\<not> id_exists k empty_table"
  by (auto simp: id_exists_def insert_row_def next_id_def update_rows_def empty_table_def
      list_ex_iff split: prod.splits)

lemma id_exists_iff: "id_exists k t \<longleftrightarrow> k \<in> fst ` set (tb_rows t)"
  by (force simp: id_exists_def list_ex_iff)

lemma unique_key_simps [simp]:
  "unique_key k empty_table"
  "unique_key k (insert_row r t) \<longleftrightarrow> unique_key k t \<and> \<not> row_exists (\<lambda>r'. k r' = k r) t"
  by (auto simp: unique_key_def row_exists_list image_iff)

lemma unique_key_update:
  assumes "\<And>r. k (f r) = k r"
  shows "unique_key k (update_rows P f t) = unique_key k t"
proof -
  have "map k (row_list (update_rows P f t)) = map k (row_list t)"
    by (auto simp: row_list_def update_rows_def assms)
  then show ?thesis by (simp add: unique_key_def)
qed

lemma unique_select_one:
  assumes "unique_key k t" "r \<in> set (row_list t)"
  shows "select_one (\<lambda>r'. k r' = k r) t = Some r"
proof -
  have "find (\<lambda>r'. k r' = k r) xs = Some r" if "distinct (map k xs)" "r \<in> set xs" for xs
    using that by (induction xs) (auto simp: rev_image_eqI)
  then show ?thesis using assms by (simp add: select_one_list unique_key_def)
qed

lemma select_one_None: "select_one P t = None \<longleftrightarrow> \<not> row_exists P t"
  by (auto simp: select_one_list row_exists_list find_None_iff)

lemma select_one_Some: "select_one P t = Some r \<Longrightarrow> P r \<and> r \<in> set (row_list t)"
  by (auto simp: select_one_list dest: find_SomeD)

lemma find_map_same:
  "(\<And>r. P (f r) = P r) \<Longrightarrow> find P (map f xs) = map_option f (find P xs)"
  by (induction xs) auto

lemma select_one_insert:
  "\<not> row_exists P t \<Longrightarrow> select_one P (insert_row r t) = (if P r then Some r else None)"
proof -
  assume "\<not> row_exists P t"
  then have "find P (xs @ [r]) = (if P r then Some r else None)" if "set xs \<subseteq> set (row_list t)" for xs
    using that by (induction xs) (auto simp: row_exists_list)
  then show ?thesis by (simp add: select_one_list)
qed

lemma select_one_insert_other: "\<not> P r \<Longrightarrow> select_one P (insert_row r t) = select_one P t"
proof -
  assume p: "\<not> P r"
  have "find P (xs @ [r]) = find P xs" for xs using p by (induction xs) auto
  then show ?thesis by (simp add: select_one_list)
qed

lemma select_one_update:
  assumes "\<And>r. P (f r) = P r"
  shows "select_one P (update_rows (\<lambda>_. Q) f t)
           = map_option (\<lambda>r. if Q r then f r else r) (select_one P t)"
  by (simp add: select_one_list row_list_update find_map_same assms)

text \<open>Sums over the rows of a table.\<close>

definition sum_rows :: "('r \<Rightarrow> bool) \<Rightarrow> ('r \<Rightarrow> rat) \<Rightarrow> 'r table \<Rightarrow> rat" where
  "sum_rows P v t = (\<Sum>r\<leftarrow>select_rows P t. v r)"

lemma sum_rows_simps [simp]:
  "sum_rows P v empty_table = 0"
  "sum_rows P v (insert_row r t) = sum_rows P v t + (if P r then v r else 0)"
  by (simp_all add: sum_rows_def select_rows_list)

lemma sum_rows_update_one:
  assumes u: "unique_key k t" and s: "select_one (\<lambda>r. k r = key) t = Some r"
    and k: "\<And>r. P (f r) = P r"
  shows "sum_rows P v (update_rows (\<lambda>_ r. k r = key) f t)
           = sum_rows P v t + (if P r then v (f r) - v r else 0)"
proof -
  have "(\<Sum>r\<leftarrow>filter P (map (\<lambda>r. if k r = key then f r else r) xs). v r)
      = (\<Sum>r\<leftarrow>filter P xs. v r) + (if P r then v (f r) - v r else 0)"
    if "distinct (map k xs)" "find (\<lambda>r. k r = key) xs = Some r" for xs
    using that
  proof (induction xs)
    case (Cons x xs)
    show ?case
    proof (cases "k x = key")
      case True
      then have "r = x" using Cons by simp
      have "map (\<lambda>r. if k r = key then f r else r) xs = xs"
        using Cons True by (auto intro!: map_idI simp: rev_image_eqI)
      then show ?thesis using True \<open>r = x\<close> k by simp
    next
      case False
      with Cons show ?thesis by simp
    qed
  qed simp
  then show ?thesis using u s
    by (simp add: sum_rows_def select_rows_list row_list_update unique_key_def select_one_list)
qed

lemma sum_rows_update_none:
  assumes "\<And>r. P (f r) = P r" "\<And>r. v (f r) = v r"
  shows "sum_rows P v (update_rows (\<lambda>_. Q) f t) = sum_rows P v t"
proof -
  have "(\<Sum>r\<leftarrow>filter P (map (\<lambda>r. if Q r then f r else r) xs). v r) = (\<Sum>r\<leftarrow>filter P xs. v r)" for xs
    by (induction xs) (auto simp: assms)
  then show ?thesis by (simp add: sum_rows_def select_rows_list row_list_update)
qed

section \<open>JSON columns\<close>

text \<open>A JSON value; JTime d stands for the text d.isoformat().\<close>

datatype json =
    JNull | JBool bool | JNum rat | JStr string | JTime datetime
  | JArr "json list" | JObj "(string \<times> json) list"

text \<open>The text of a JSON column: what json.loads gives for it, or not JSON.\<close>

datatype json_text = Json json | Garbage

end
