(* ===== verification/Repository.thy ===== *)
theory Repository
  imports Tables
begin

text \<open>
  common/execution/repository.py: every operational write of one runtime
  group's database, each in one transaction, and the reads recovery uses.  A
  row is a record of the columns the migration scripts declare.  The database
  includes the connection's last inserted row number, which a cursor reports
  after an upsert that updated.  The argument now is the reading of the clock.
\<close>

section \<open>Rows\<close>

record session_row =
  ss_runtime_id :: string
  ss_strategy_id :: "string option"
  ss_execution_mode :: execution_mode
  ss_process_role :: string
  ss_pid :: int
  ss_config_fingerprint :: "string option"
  ss_started_at :: datetime
  ss_ended_at :: "datetime option"
  ss_shutdown_reason :: "string option"

record heartbeat_row =
  hb_session_id :: nat
  hb_runtime_id :: string
  hb_strategy_id :: "string option"
  hb_health_state :: string
  hb_last_tick_at :: "datetime option"
  hb_queue_depth :: "int option"
  hb_dropped_events :: int
  hb_beat_at :: datetime

record signal_row =
  si_session_id :: nat
  si_runtime_id :: string
  si_signal :: signal
  si_trading_date :: string
  si_config_fingerprint :: "string option"

record intent_row =
  it_session_id :: nat
  it_intent :: order_intent
  it_namespace :: execution_mode
  it_submission_reserved :: bool

record order_row =
  or_intent_id :: nat
  or_correlation_id :: string
  or_runtime_id :: string
  or_strategy_id :: string
  or_execution_mode :: execution_mode
  or_broker_order_id :: "string option"
  or_status :: order_status
  or_filled_quantity :: int
  or_average_fill_price :: "money option"
  or_rejection_reason :: "string option"
  or_submitted_at :: datetime
  or_updated_at :: datetime

record fill_row =
  fr_order_id :: nat
  fr_correlation_id :: string
  fr_runtime_id :: string
  fr_strategy_id :: string
  fr_execution_mode :: execution_mode
  fr_broker_fill_id :: string
  fr_quantity :: int
  fr_price :: money
  fr_reference_price :: "money option"
  fr_slippage_amount :: "money option"
  fr_latency_ms :: "int option"
  fr_fill_method :: "string option"
  fr_charges :: money
  fr_filled_at :: datetime

record fill_quote_row =
  fq_order_id :: nat
  fq_broker_fill_id :: string
  fq_quote_bid :: "money option"
  fq_quote_ask :: "money option"
  fq_quote_age_ms :: "rat option"
  fq_latency_applied :: "bool option"
  fq_fill_method :: "string option"

record position_row =
  pr_runtime_id :: string
  pr_position :: position

record state_row =
  st_runtime_id :: string
  st_strategy_id :: string
  st_execution_mode :: execution_mode
  st_trading_date :: string
  st_state_version :: int
  st_last_candle_end_at :: "datetime option"
  st_daily_realised_pnl :: money
  st_entries_blocked :: bool
  st_square_off_state :: string
  st_square_off_attempts :: int
  st_payload :: "json_text option"
  st_updated_at :: datetime

record error_row =
  er_runtime_id :: string
  er_strategy_id :: "string option"
  er_execution_mode :: "execution_mode option"
  er_severity :: string
  er_component :: string
  er_message :: string
  er_context :: "string option"
  er_occurred_at :: datetime

record notification_row =
  nt_runtime_id :: string
  nt_strategy_id :: "string option"
  nt_execution_mode :: "execution_mode option"
  nt_channel :: string
  nt_event_type :: string
  nt_message :: string
  nt_delivered :: bool
  nt_failure_reason :: "string option"
  nt_created_at :: datetime

record audit_row =
  au_runtime_id :: string
  au_strategy_id :: "string option"
  au_execution_mode :: "execution_mode option"
  au_action :: string
  au_actor :: string
  au_detail :: "string option"
  au_occurred_at :: datetime

record db =
  db_sessions :: "session_row table"
  db_heartbeats :: "heartbeat_row table"
  db_signals :: "signal_row table"
  db_intents :: "intent_row table"
  db_orders :: "order_row table"
  db_fills :: "fill_row table"
  db_fill_quotes :: "fill_quote_row table"
  db_positions :: "position_row table"
  db_states :: "state_row table"
  db_errors :: "error_row table"
  db_notifications :: "notification_row table"
  db_audits :: "audit_row table"
  db_last_rowid :: nat

definition empty_db :: db where
  "empty_db = \<lparr>db_sessions = empty_table, db_heartbeats = empty_table, db_signals = empty_table,
     db_intents = empty_table, db_orders = empty_table, db_fills = empty_table,
     db_fill_quotes = empty_table, db_positions = empty_table, db_states = empty_table,
     db_errors = empty_table, db_notifications = empty_table, db_audits = empty_table,
     db_last_rowid = 0\<rparr>"

text \<open>Keys of the UNIQUE constraints.\<close>

type_synonym day_key = "string \<times> execution_mode \<times> string"

definition signal_key :: "signal_row \<Rightarrow> string \<times> execution_mode \<times> string \<times> datetime" where
  "signal_key r = (sg_strategy_id (si_signal r), sg_execution_mode (si_signal r),
     sg_instrument (si_signal r), cd_end_at (sg_candle (si_signal r)))"

definition intent_day :: "intent_row \<Rightarrow> day_key" where
  "intent_day r = (oi_strategy_id (it_intent r), oi_execution_mode (it_intent r),
     oi_trading_date (it_intent r))"

definition intent_seq_key :: "intent_row \<Rightarrow> day_key \<times> int" where
  "intent_seq_key r = (intent_day r, oi_sequence_number (it_intent r))"

definition intent_cid :: "intent_row \<Rightarrow> string" where
  "intent_cid r = oi_correlation_id (it_intent r)"

definition fill_key :: "fill_row \<Rightarrow> nat \<times> string" where
  "fill_key r = (fr_order_id r, fr_broker_fill_id r)"

definition fill_quote_key :: "fill_quote_row \<Rightarrow> nat \<times> string" where
  "fill_quote_key r = (fq_order_id r, fq_broker_fill_id r)"

definition position_day :: "position_row \<Rightarrow> day_key" where
  "position_day r = (ps_strategy_id (pr_position r), ps_execution_mode (pr_position r),
     ps_trading_date (pr_position r))"

definition position_key :: "position_row \<Rightarrow> day_key \<times> string" where
  "position_key r = (position_day r, ps_security_id (pr_position r))"

definition state_key :: "state_row \<Rightarrow> day_key" where
  "state_key r = (st_strategy_id r, st_execution_mode r, st_trading_date r)"

section \<open>Sessions\<close>

definition open_session ::
  "string \<Rightarrow> string option \<Rightarrow> execution_mode \<Rightarrow> string \<Rightarrow> int \<Rightarrow> string option \<Rightarrow> datetime \<Rightarrow> db
    \<Rightarrow> nat result \<times> db" where
  "open_session runtime_id strategy_id mode role pid fingerprint now d =
     (if role \<notin> {''supervisor'', ''worker''} then (Inl IntegrityError, d)
      else
        let row = \<lparr>ss_runtime_id = runtime_id, ss_strategy_id = strategy_id,
              ss_execution_mode = mode, ss_process_role = role, ss_pid = pid,
              ss_config_fingerprint = fingerprint, ss_started_at = now, ss_ended_at = None,
              ss_shutdown_reason = None\<rparr>;
            k = next_id (db_sessions d)
        in (Inr k, d\<lparr>db_sessions := insert_row row (db_sessions d), db_last_rowid := k\<rparr>))"

definition close_session :: "nat \<Rightarrow> string \<Rightarrow> datetime \<Rightarrow> db \<Rightarrow> db" where
  "close_session session_id reason now d =
     d\<lparr>db_sessions := update_rows (\<lambda>i _. i = session_id)
         (\<lambda>r. r\<lparr>ss_ended_at := Some now, ss_shutdown_reason := Some reason\<rparr>) (db_sessions d)\<rparr>"

text \<open>ORDER BY id DESC LIMIT 1: rows are kept in the order of their ids.\<close>

definition previous_incomplete_session ::
  "string \<Rightarrow> string \<Rightarrow> nat option \<Rightarrow> db \<Rightarrow> (nat \<times> session_row) option" where
  "previous_incomplete_session runtime_id strategy_id exclude d =
     find (\<lambda>(i, r). ss_runtime_id r = runtime_id \<and> ss_strategy_id r = Some strategy_id
             \<and> ss_ended_at r = None \<and> exclude \<noteq> Some i)
       (rev (tb_rows (db_sessions d)))"

definition record_heartbeat ::
  "nat \<Rightarrow> string \<Rightarrow> string option \<Rightarrow> string \<Rightarrow> datetime option \<Rightarrow> int option \<Rightarrow> int \<Rightarrow> datetime \<Rightarrow> db
    \<Rightarrow> unit result \<times> db" where
  "record_heartbeat session_id runtime_id strategy_id health last_tick depth dropped now d =
     (if \<not> id_exists session_id (db_sessions d) then (Inl IntegrityError, d)
      else (Inr (), d\<lparr>db_heartbeats := insert_row
              \<lparr>hb_session_id = session_id, hb_runtime_id = runtime_id, hb_strategy_id = strategy_id,
               hb_health_state = health, hb_last_tick_at = last_tick, hb_queue_depth = depth,
               hb_dropped_events = dropped, hb_beat_at = now\<rparr> (db_heartbeats d),
            db_last_rowid := next_id (db_heartbeats d)\<rparr>))"

section \<open>Signals and intents\<close>

text \<open>IntegrityError, whether from the UNIQUE key or from the session's foreign key, is None.\<close>

definition record_signal ::
  "nat \<Rightarrow> string \<Rightarrow> signal \<Rightarrow> string \<Rightarrow> string option \<Rightarrow> db \<Rightarrow> nat option \<times> db" where
  "record_signal session_id runtime_id sig trading_date fingerprint d =
     (let row = \<lparr>si_session_id = session_id, si_runtime_id = runtime_id, si_signal = sig,
                 si_trading_date = trading_date, si_config_fingerprint = fingerprint\<rparr>;
          k = next_id (db_signals d)
      in if \<not> id_exists session_id (db_sessions d)
            \<or> row_exists (\<lambda>r. signal_key r = signal_key row) (db_signals d)
         then (None, d)
         else (Some k, d\<lparr>db_signals := insert_row row (db_signals d), db_last_rowid := k\<rparr>))"

definition reserve_intent :: "nat \<Rightarrow> order_intent \<Rightarrow> db \<Rightarrow> nat result \<times> db" where
  "reserve_intent session_id intent d =
     (let row = \<lparr>it_session_id = session_id, it_intent = intent,
                 it_namespace = oi_execution_mode intent, it_submission_reserved = True\<rparr>;
          k = next_id (db_intents d)
      in if \<not> id_exists session_id (db_sessions d)
            \<or> \<not> (case oi_signal_id intent of None \<Rightarrow> True | Some s \<Rightarrow> id_exists s (db_signals d))
            \<or> row_exists (\<lambda>r. intent_cid r = intent_cid row) (db_intents d)
            \<or> row_exists (\<lambda>r. intent_seq_key r = intent_seq_key row) (db_intents d)
            \<or> oi_quantity intent \<le> 0
         then (Inl IntegrityError, d)
         else (Inr k, d\<lparr>db_intents := insert_row row (db_intents d), db_last_rowid := k\<rparr>))"

definition next_sequence_number :: "string \<Rightarrow> execution_mode \<Rightarrow> string \<Rightarrow> db \<Rightarrow> int" where
  "next_sequence_number strategy_id mode trading_date d =
     (case map (\<lambda>r. oi_sequence_number (it_intent r))
             (select_rows (\<lambda>r. intent_day r = (strategy_id, mode, trading_date)) (db_intents d)) of
        [] \<Rightarrow> 0
      | n # ns \<Rightarrow> fold max ns n) + 1"

section \<open>Orders\<close>

definition record_submission :: "nat \<Rightarrow> order \<Rightarrow> string \<Rightarrow> datetime \<Rightarrow> db \<Rightarrow> nat result \<times> db" where
  "record_submission intent_id ord runtime_id now d =
     (if row_exists (\<lambda>r. or_intent_id r = intent_id) (db_orders d) then
        let d' = d\<lparr>db_orders := update_rows (\<lambda>_ r. or_intent_id r = intent_id)
              (\<lambda>r. r\<lparr>or_status := od_status ord, or_broker_order_id := od_broker_order_id ord,
                      or_filled_quantity := od_filled_quantity ord,
                      or_average_fill_price := od_average_fill_price ord,
                      or_rejection_reason := od_rejection_reason ord, or_updated_at := now\<rparr>)
              (db_orders d)\<rparr>
        in if db_last_rowid d \<noteq> 0 then (Inr (db_last_rowid d), d')
           else case select_id (\<lambda>r. or_intent_id r = intent_id) (db_orders d') of
                  None \<Rightarrow> (Inl RuntimeError, d)
                | Some k \<Rightarrow> (Inr k, d')
      else if \<not> id_exists intent_id (db_intents d)
            \<or> row_exists (\<lambda>r. or_correlation_id r = od_correlation_id ord) (db_orders d)
      then (Inl IntegrityError, d)
      else
        let k = next_id (db_orders d) in
        (Inr k, d\<lparr>db_orders := insert_row
             \<lparr>or_intent_id = intent_id, or_correlation_id = od_correlation_id ord,
              or_runtime_id = runtime_id, or_strategy_id = od_strategy_id ord,
              or_execution_mode = od_execution_mode ord, or_broker_order_id = od_broker_order_id ord,
              or_status = od_status ord, or_filled_quantity = od_filled_quantity ord,
              or_average_fill_price = od_average_fill_price ord,
              or_rejection_reason = od_rejection_reason ord, or_submitted_at = od_updated_at ord,
              or_updated_at = now\<rparr> (db_orders d),
           db_last_rowid := k\<rparr>))"

section \<open>Fills and positions\<close>

definition read_position :: "string \<Rightarrow> execution_mode \<Rightarrow> string \<Rightarrow> string \<Rightarrow> db \<Rightarrow> position option" where
  "read_position strategy_id mode trading_date sid d =
     map_option pr_position
       (select_one (\<lambda>r. position_key r = ((strategy_id, mode, trading_date), sid)) (db_positions d))"

definition record_fill_quote :: "nat \<Rightarrow> fill \<Rightarrow> db \<Rightarrow> db" where
  "record_fill_quote order_id f d =
     (if fl_quote_bid f = None \<and> fl_quote_ask f = None \<and> fl_latency_applied f = None then d
      else
        let row = \<lparr>fq_order_id = order_id, fq_broker_fill_id = fl_broker_fill_id f,
              fq_quote_bid = fl_quote_bid f, fq_quote_ask = fl_quote_ask f,
              fq_quote_age_ms = fl_quote_age_ms f, fq_latency_applied = fl_latency_applied f,
              fq_fill_method = fl_fill_method f\<rparr>
        in if row_exists (\<lambda>r. fill_quote_key r = fill_quote_key row) (db_fill_quotes d) then d
           else d\<lparr>db_fill_quotes := insert_row row (db_fill_quotes d),
                  db_last_rowid := next_id (db_fill_quotes d)\<rparr>)"

text \<open>The arithmetic of one fill on a position: quantity, average and realised profit.\<close>

definition fill_arith :: "int \<Rightarrow> money \<Rightarrow> money \<Rightarrow> int \<Rightarrow> money \<Rightarrow> int \<times> money \<times> money" where
  "fill_arith quantity average realised signed price =
     (let new_quantity = quantity + signed in
      if quantity \<noteq> 0 \<and> (0 < quantity) \<noteq> (0 < signed) then
        let closed = min \<bar>signed\<bar> \<bar>quantity\<bar>;
            direction = (if 0 < quantity then 1 else -1)
        in (new_quantity, average, realised + direction * of_int closed * (price - average))
      else if new_quantity \<noteq> 0 then
        (new_quantity,
         (average * of_int \<bar>quantity\<bar> + price * of_int \<bar>signed\<bar>) / of_int (\<bar>quantity\<bar> + \<bar>signed\<bar>),
         realised)
      else (new_quantity, average, realised))"

definition new_position ::
  "fill \<Rightarrow> string \<Rightarrow> string \<Rightarrow> side \<Rightarrow> string \<Rightarrow> money option \<Rightarrow> money option \<Rightarrow> datetime \<Rightarrow> position" where
  "new_position f instrument sid s trading_date stop target now =
     \<lparr>ps_strategy_id = fl_strategy_id f, ps_execution_mode = fl_execution_mode f,
      ps_trading_date = trading_date, ps_instrument = instrument, ps_security_id = sid,
      ps_quantity = side_sign s * fl_quantity f, ps_average_price = fl_price f, ps_status = OPEN,
      ps_opened_at = fl_filled_at f, ps_updated_at = now,
      ps_entry_correlation_id = Some (fl_correlation_id f), ps_stop_price = stop,
      ps_target_price = target, ps_highest_favourable = None, ps_lowest_favourable = None,
      ps_realised_pnl = 0, ps_charges = fl_charges f, ps_closed_at = None\<rparr>"

definition coalesce :: "'a option \<Rightarrow> 'a option \<Rightarrow> 'a option" where
  "coalesce a b = (case a of None \<Rightarrow> b | Some x \<Rightarrow> Some x)"

definition moved_position ::
  "fill \<Rightarrow> side \<Rightarrow> money option \<Rightarrow> money option \<Rightarrow> datetime \<Rightarrow> position \<Rightarrow> position" where
  "moved_position f s stop target now p =
     (let (q, average, realised) =
            fill_arith (ps_quantity p) (ps_average_price p) (ps_realised_pnl p)
              (side_sign s * fl_quantity f) (fl_price f)
      in p\<lparr>ps_quantity := q, ps_average_price := average, ps_realised_pnl := realised,
           ps_charges := ps_charges p + fl_charges f, ps_stop_price := coalesce stop (ps_stop_price p),
           ps_target_price := coalesce target (ps_target_price p),
           ps_status := (if q = 0 then CLOSED else OPEN),
           ps_closed_at := (if q = 0 then Some now else None), ps_updated_at := now\<rparr>)"

text \<open>The columns the UPDATE statement sets, the others being the row's own.\<close>

definition set_columns :: "position \<Rightarrow> money option \<Rightarrow> money option \<Rightarrow> position_row \<Rightarrow> position_row" where
  "set_columns m stop target r =
     r\<lparr>pr_position := (pr_position r)
         \<lparr>ps_quantity := ps_quantity m, ps_average_price := ps_average_price m,
          ps_realised_pnl := ps_realised_pnl m, ps_charges := ps_charges m,
          ps_stop_price := coalesce stop (ps_stop_price (pr_position r)),
          ps_target_price := coalesce target (ps_target_price (pr_position r)),
          ps_status := ps_status m, ps_closed_at := ps_closed_at m,
          ps_updated_at := ps_updated_at m\<rparr>\<rparr>"

definition upsert_position ::
  "string \<Rightarrow> fill \<Rightarrow> string \<Rightarrow> string \<Rightarrow> side \<Rightarrow> string \<Rightarrow> money option \<Rightarrow> money option \<Rightarrow> datetime \<Rightarrow> db
    \<Rightarrow> (position \<times> money) result \<times> db" where
  "upsert_position runtime_id f instrument sid s trading_date stop target now d =
     (let key = ((fl_strategy_id f, fl_execution_mode f, trading_date), sid);
          reread = (\<lambda>d' delta.
            case read_position (fl_strategy_id f) (fl_execution_mode f) trading_date sid d' of
              None \<Rightarrow> (Inl AssertionError, d')
            | Some p \<Rightarrow> (Inr (p, delta), d'))
      in case read_position (fl_strategy_id f) (fl_execution_mode f) trading_date sid d of
           None \<Rightarrow>
             reread (d\<lparr>db_positions := insert_row
                  \<lparr>pr_runtime_id = runtime_id,
                   pr_position = new_position f instrument sid s trading_date stop target now\<rparr>
                  (db_positions d),
                db_last_rowid := next_id (db_positions d)\<rparr>) 0
         | Some current \<Rightarrow>
             let m = moved_position f s stop target now current in
             reread (d\<lparr>db_positions := update_rows (\<lambda>_ r. position_key r = key)
                  (set_columns m stop target) (db_positions d)\<rparr>)
               (ps_realised_pnl m - ps_realised_pnl current))"

definition touch_strategy_state ::
  "string \<Rightarrow> string \<Rightarrow> execution_mode \<Rightarrow> string \<Rightarrow> datetime option \<Rightarrow> money \<Rightarrow> datetime \<Rightarrow> db \<Rightarrow> db" where
  "touch_strategy_state runtime_id strategy_id mode trading_date last_candle delta now d =
     (let key = (strategy_id, mode, trading_date) in
      if row_exists (\<lambda>r. state_key r = key) (db_states d) then
        d\<lparr>db_states := update_rows (\<lambda>_ r. state_key r = key)
            (\<lambda>r. r\<lparr>st_last_candle_end_at := coalesce last_candle (st_last_candle_end_at r),
                    st_daily_realised_pnl := st_daily_realised_pnl r + delta,
                    st_updated_at := now\<rparr>) (db_states d)\<rparr>
      else
        d\<lparr>db_states := insert_row
            \<lparr>st_runtime_id = runtime_id, st_strategy_id = strategy_id, st_execution_mode = mode,
             st_trading_date = trading_date, st_state_version = 1,
             st_last_candle_end_at = last_candle, st_daily_realised_pnl = delta,
             st_entries_blocked = False, st_square_off_state = ''PENDING'',
             st_square_off_attempts = 0, st_payload = None, st_updated_at = now\<rparr> (db_states d),
          db_last_rowid := next_id (db_states d)\<rparr>)"

definition fill_row_of :: "nat \<Rightarrow> string \<Rightarrow> fill \<Rightarrow> fill_row" where
  "fill_row_of order_id runtime_id f =
     \<lparr>fr_order_id = order_id, fr_correlation_id = fl_correlation_id f, fr_runtime_id = runtime_id,
      fr_strategy_id = fl_strategy_id f, fr_execution_mode = fl_execution_mode f,
      fr_broker_fill_id = fl_broker_fill_id f, fr_quantity = fl_quantity f, fr_price = fl_price f,
      fr_reference_price = fl_reference_price f, fr_slippage_amount = fl_slippage_amount f,
      fr_latency_ms = fl_latency_ms f, fr_fill_method = fl_fill_method f,
      fr_charges = fl_charges f, fr_filled_at = fl_filled_at f\<rparr>"

definition order_totals :: "nat \<Rightarrow> db \<Rightarrow> int \<times> money option" where
  "order_totals order_id d =
     (let rows = select_rows (\<lambda>r. fr_order_id r = order_id) (db_fills d);
          filled = (\<Sum>r\<leftarrow>rows. fr_quantity r);
          notional = (\<Sum>r\<leftarrow>rows. fr_price r * of_int (fr_quantity r))
      in (filled, if filled \<noteq> 0 then Some (notional / of_int filled) else None))"

definition apply_fill ::
  "nat \<Rightarrow> string \<Rightarrow> fill \<Rightarrow> order_status \<Rightarrow> string \<Rightarrow> string \<Rightarrow> side \<Rightarrow> string \<Rightarrow> money option \<Rightarrow> money option
    \<Rightarrow> datetime option \<Rightarrow> datetime \<Rightarrow> db \<Rightarrow> position result \<times> db" where
  "apply_fill order_id runtime_id f status instrument sid s trading_date stop target last_candle now d =
     (if row_exists (\<lambda>r. fill_key r = (order_id, fl_broker_fill_id f)) (db_fills d) then
        (case read_position (fl_strategy_id f) (fl_execution_mode f) trading_date sid d of
           None \<Rightarrow> (Inl RuntimeError, d)
         | Some p \<Rightarrow> (Inr p, d))
      else if \<not> id_exists order_id (db_orders d) \<or> fl_quantity f \<le> 0 then (Inl IntegrityError, d)
      else
        let d1 = d\<lparr>db_fills := insert_row (fill_row_of order_id runtime_id f) (db_fills d),
                   db_last_rowid := next_id (db_fills d)\<rparr>;
            (filled, average) = order_totals order_id d1;
            d2 = d1\<lparr>db_orders := update_rows (\<lambda>i _. i = order_id)
                     (\<lambda>r. r\<lparr>or_status := status, or_filled_quantity := filled,
                             or_average_fill_price := average, or_updated_at := now\<rparr>) (db_orders d1)\<rparr>;
            d3 = record_fill_quote order_id f d2
        in case upsert_position runtime_id f instrument sid s trading_date stop target now d3 of
             (Inl e, d4) \<Rightarrow> (Inl e, d)
           | (Inr (p, delta), d4) \<Rightarrow>
               (Inr p, touch_strategy_state runtime_id (fl_strategy_id f) (fl_execution_mode f)
                         trading_date last_candle delta now d4))"

section \<open>Recovery reads and state writes\<close>

definition open_positions :: "string \<Rightarrow> execution_mode \<Rightarrow> string \<Rightarrow> db \<Rightarrow> position list" where
  "open_positions strategy_id mode trading_date d =
     map pr_position (select_rows (\<lambda>r. position_day r = (strategy_id, mode, trading_date)
        \<and> ps_status (pr_position r) = OPEN \<and> ps_quantity (pr_position r) \<noteq> 0) (db_positions d))"

definition closed_position_count :: "string \<Rightarrow> execution_mode \<Rightarrow> string \<Rightarrow> db \<Rightarrow> nat" where
  "closed_position_count strategy_id mode trading_date d =
     length (select_rows (\<lambda>r. position_day r = (strategy_id, mode, trading_date)
        \<and> ps_status (pr_position r) = CLOSED) (db_positions d))"

definition open_orders :: "string \<Rightarrow> execution_mode \<Rightarrow> db \<Rightarrow> order_row list" where
  "open_orders strategy_id mode d =
     select_rows (\<lambda>r. or_strategy_id r = strategy_id \<and> or_execution_mode r = mode
        \<and> \<not> is_terminal (or_status r)) (db_orders d)"

definition load_strategy_state :: "string \<Rightarrow> execution_mode \<Rightarrow> string \<Rightarrow> db \<Rightarrow> state_row option" where
  "load_strategy_state strategy_id mode trading_date d =
     select_one (\<lambda>r. state_key r = (strategy_id, mode, trading_date)) (db_states d)"

definition save_strategy_state ::
  "string \<Rightarrow> string \<Rightarrow> execution_mode \<Rightarrow> string \<Rightarrow> datetime option \<Rightarrow> string option \<Rightarrow> bool option
    \<Rightarrow> json option \<Rightarrow> bool \<Rightarrow> datetime \<Rightarrow> db \<Rightarrow> db" where
  "save_strategy_state runtime_id strategy_id mode trading_date last_candle square_off blocked payload
     increment now d =
     (let key = (strategy_id, mode, trading_date);
          inc = (if increment then 1 else 0)
      in if row_exists (\<lambda>r. state_key r = key) (db_states d) then
           d\<lparr>db_states := update_rows (\<lambda>_ r. state_key r = key)
               (\<lambda>r. r\<lparr>st_last_candle_end_at := coalesce last_candle (st_last_candle_end_at r),
                  st_square_off_state := (case square_off of None \<Rightarrow> st_square_off_state r | Some x \<Rightarrow> x),
                  st_entries_blocked := (case blocked of None \<Rightarrow> st_entries_blocked r | Some b \<Rightarrow> b),
                  st_payload := coalesce (map_option Json payload) (st_payload r),
                  st_state_version := current_state_version,
                  st_square_off_attempts := st_square_off_attempts r + inc,
                  st_updated_at := now\<rparr>) (db_states d)\<rparr>
         else
           d\<lparr>db_states := insert_row
               \<lparr>st_runtime_id = runtime_id, st_strategy_id = strategy_id, st_execution_mode = mode,
                st_trading_date = trading_date, st_state_version = current_state_version,
                st_last_candle_end_at = last_candle, st_daily_realised_pnl = 0,
                st_entries_blocked = (case blocked of None \<Rightarrow> False | Some b \<Rightarrow> b),
                st_square_off_state = (case square_off of None \<Rightarrow> ''PENDING'' | Some x \<Rightarrow> x),
                st_square_off_attempts = inc, st_payload = map_option Json payload,
                st_updated_at = now\<rparr> (db_states d),
             db_last_rowid := next_id (db_states d)\<rparr>)"

definition update_position_marks ::
  "string \<Rightarrow> execution_mode \<Rightarrow> string \<Rightarrow> string \<Rightarrow> money \<Rightarrow> money \<Rightarrow> db \<Rightarrow> db" where
  "update_position_marks strategy_id mode trading_date sid high low d =
     d\<lparr>db_positions := update_rows
         (\<lambda>_ r. position_key r = ((strategy_id, mode, trading_date), sid) \<and> ps_status (pr_position r) = OPEN)
         (\<lambda>r. r\<lparr>pr_position := (pr_position r)
                  \<lparr>ps_highest_favourable := Some high, ps_lowest_favourable := Some low\<rparr>\<rparr>) (db_positions d)\<rparr>"

section \<open>Errors, notifications and audit\<close>

definition record_error ::
  "string \<Rightarrow> string option \<Rightarrow> execution_mode option \<Rightarrow> string \<Rightarrow> string \<Rightarrow> string \<Rightarrow> string option
    \<Rightarrow> datetime \<Rightarrow> db \<Rightarrow> db" where
  "record_error runtime_id strategy_id mode severity component_name message context now d =
     d\<lparr>db_errors := insert_row
         \<lparr>er_runtime_id = runtime_id, er_strategy_id = strategy_id, er_execution_mode = mode,
          er_severity = severity, er_component = component_name, er_message = message,
          er_context = context, er_occurred_at = now\<rparr> (db_errors d),
       db_last_rowid := next_id (db_errors d)\<rparr>"

definition record_notification ::
  "string \<Rightarrow> string option \<Rightarrow> execution_mode option \<Rightarrow> string \<Rightarrow> string \<Rightarrow> string \<Rightarrow> bool
    \<Rightarrow> string option \<Rightarrow> datetime \<Rightarrow> db \<Rightarrow> db" where
  "record_notification runtime_id strategy_id mode channel event_type message delivered failure now d =
     d\<lparr>db_notifications := insert_row
         \<lparr>nt_runtime_id = runtime_id, nt_strategy_id = strategy_id, nt_execution_mode = mode,
          nt_channel = channel, nt_event_type = event_type, nt_message = message,
          nt_delivered = delivered, nt_failure_reason = failure, nt_created_at = now\<rparr> (db_notifications d),
       db_last_rowid := next_id (db_notifications d)\<rparr>"

definition audit_actions :: "string list" where
  "audit_actions = [''stop_runtime'', ''stop_strategy'', ''square_off_requested'', ''square_off_completed'']"

definition record_audit_event ::
  "string \<Rightarrow> string \<Rightarrow> string \<Rightarrow> string option \<Rightarrow> execution_mode option \<Rightarrow> string option \<Rightarrow> datetime \<Rightarrow> db
    \<Rightarrow> unit result \<times> db" where
  "record_audit_event runtime_id action actor strategy_id mode detail now d =
     (if action \<notin> set audit_actions then (Inl ValueError, d)
      else (Inr (), d\<lparr>db_audits := insert_row
              \<lparr>au_runtime_id = runtime_id, au_strategy_id = strategy_id, au_execution_mode = mode,
               au_action = action, au_actor = actor, au_detail = detail, au_occurred_at = now\<rparr> (db_audits d),
            db_last_rowid := next_id (db_audits d)\<rparr>))"

section \<open>The database invariant\<close>

definition fk :: "('r \<Rightarrow> nat) \<Rightarrow> 'r table \<Rightarrow> 's table \<Rightarrow> bool" where
  "fk k t t' = (\<forall>r \<in> set (row_list t). id_exists (k r) t')"

definition keys_ok :: "db \<Rightarrow> bool" where
  "keys_ok d =
     (unique_key signal_key (db_signals d) \<and> unique_key intent_cid (db_intents d)
      \<and> unique_key intent_seq_key (db_intents d) \<and> unique_key or_intent_id (db_orders d)
      \<and> unique_key or_correlation_id (db_orders d) \<and> unique_key fill_key (db_fills d)
      \<and> unique_key fill_quote_key (db_fill_quotes d) \<and> unique_key position_key (db_positions d)
      \<and> unique_key state_key (db_states d) \<and> ids_ok (db_intents d) \<and> ids_ok (db_orders d))"

definition refs_ok :: "db \<Rightarrow> bool" where
  "refs_ok d =
     (fk hb_session_id (db_heartbeats d) (db_sessions d) \<and> fk si_session_id (db_signals d) (db_sessions d)
      \<and> fk it_session_id (db_intents d) (db_sessions d) \<and> fk or_intent_id (db_orders d) (db_intents d)
      \<and> fk fr_order_id (db_fills d) (db_orders d) \<and> fk fq_order_id (db_fill_quotes d) (db_orders d)
      \<and> (\<forall>r \<in> set (row_list (db_intents d)). \<forall>k.
           oi_signal_id (it_intent r) = Some k \<longrightarrow> id_exists k (db_signals d)))"

definition day_realised :: "day_key \<Rightarrow> db \<Rightarrow> money" where
  "day_realised key d =
     sum_rows (\<lambda>r. position_day r = key) (\<lambda>r. ps_realised_pnl (pr_position r)) (db_positions d)"

definition day_recorded :: "day_key \<Rightarrow> db \<Rightarrow> money" where
  "day_recorded key d =
     (case select_one (\<lambda>r. state_key r = key) (db_states d) of
        None \<Rightarrow> 0 | Some r \<Rightarrow> st_daily_realised_pnl r)"

definition rows_ok :: "db \<Rightarrow> bool" where
  "rows_ok d =
     ((\<forall>r \<in> set (row_list (db_intents d)). 0 < oi_quantity (it_intent r))
      \<and> (\<forall>r \<in> set (row_list (db_fills d)). 0 < fr_quantity r)
      \<and> (\<forall>r \<in> set (row_list (db_positions d)).
           ps_status (pr_position r) = CLOSED \<longleftrightarrow> ps_quantity (pr_position r) = 0))"

definition pnl_ok :: "db \<Rightarrow> bool" where
  "pnl_ok d = (\<forall>key. day_recorded key d = day_realised key d)"

definition db_inv :: "db \<Rightarrow> bool" where
  "db_inv d = (keys_ok d \<and> refs_ok d \<and> rows_ok d \<and> pnl_ok d)"

lemmas db_inv_defs = db_inv_def keys_ok_def refs_ok_def rows_ok_def pnl_ok_def fk_def
  day_recorded_def day_realised_def

lemma empty_db_inv [simp]: "db_inv empty_db"
  by (simp add: db_inv_defs empty_db_def select_one_list)

lemma pnl_ok_cong:
  "db_positions d' = db_positions d \<Longrightarrow> db_states d' = db_states d \<Longrightarrow> pnl_ok d' = pnl_ok d"
  by (simp add: pnl_ok_def day_recorded_def day_realised_def)

lemma db_invI: "keys_ok d \<Longrightarrow> refs_ok d \<Longrightarrow> rows_ok d \<Longrightarrow> pnl_ok d \<Longrightarrow> db_inv d"
  by (simp add: db_inv_def)

lemma close_session_inv: "db_inv d \<Longrightarrow> db_inv (close_session k r now d)"
  by (simp add: db_inv_defs close_session_def)

lemma record_error_inv: "db_inv d \<Longrightarrow> db_inv (record_error a b m s c g e now d)"
  by (simp add: db_inv_defs record_error_def)

lemma record_notification_inv: "db_inv d \<Longrightarrow> db_inv (record_notification a b m s c g e f now d)"
  by (simp add: db_inv_defs record_notification_def)

lemma open_session_inv:
  assumes "db_inv d" "open_session a b m r p f now d = (x, d')"
  shows "db_inv d'"
proof (rule db_invI)
  show "pnl_ok d'" using assms pnl_ok_cong [of d' d]
    by (auto simp: db_inv_def open_session_def Let_def split: if_splits option.splits)
  have old: "keys_ok d" "refs_ok d" "rows_ok d" using assms(1) by (simp_all add: db_inv_def)
  show "keys_ok d'" using old(1) assms(2)
    by (auto simp: keys_ok_def open_session_def Let_def split: if_splits option.splits)
  show "refs_ok d'" using old(2) assms(2)
    by (auto simp: refs_ok_def fk_def open_session_def Let_def split: if_splits option.splits)
  show "rows_ok d'" using old(3) assms(2)
    by (auto simp: rows_ok_def open_session_def Let_def split: if_splits option.splits)
qed

lemma record_heartbeat_inv:
  assumes "db_inv d" "record_heartbeat a b c e f g h now d = (x, d')"
  shows "db_inv d'"
proof (rule db_invI)
  show "pnl_ok d'" using assms pnl_ok_cong [of d' d]
    by (auto simp: db_inv_def record_heartbeat_def Let_def split: if_splits option.splits)
  have old: "keys_ok d" "refs_ok d" "rows_ok d" using assms(1) by (simp_all add: db_inv_def)
  show "keys_ok d'" using old(1) assms(2)
    by (auto simp: keys_ok_def record_heartbeat_def Let_def split: if_splits option.splits)
  show "refs_ok d'" using old(2) assms(2)
    by (auto simp: refs_ok_def fk_def record_heartbeat_def Let_def split: if_splits option.splits)
  show "rows_ok d'" using old(3) assms(2)
    by (auto simp: rows_ok_def record_heartbeat_def Let_def split: if_splits option.splits)
qed

lemma record_signal_inv:
  assumes "db_inv d" "record_signal a b sg t f d = (x, d')"
  shows "db_inv d'"
proof (rule db_invI)
  show "pnl_ok d'" using assms pnl_ok_cong [of d' d]
    by (auto simp: db_inv_def record_signal_def Let_def split: if_splits option.splits)
  have old: "keys_ok d" "refs_ok d" "rows_ok d" using assms(1) by (simp_all add: db_inv_def)
  show "keys_ok d'" using old(1) assms(2)
    by (auto simp: keys_ok_def record_signal_def Let_def split: if_splits option.splits)
  show "refs_ok d'" using old(2) assms(2)
    by (auto simp: refs_ok_def fk_def record_signal_def Let_def split: if_splits option.splits)
  show "rows_ok d'" using old(3) assms(2)
    by (auto simp: rows_ok_def record_signal_def Let_def split: if_splits option.splits)
qed

lemma reserve_intent_inv:
  assumes "db_inv d" "reserve_intent a i d = (x, d')"
  shows "db_inv d'"
proof (rule db_invI)
  show "pnl_ok d'" using assms pnl_ok_cong [of d' d]
    by (auto simp: db_inv_def reserve_intent_def Let_def not_le split: if_splits option.splits)
  have old: "keys_ok d" "refs_ok d" "rows_ok d" using assms(1) by (simp_all add: db_inv_def)
  show "keys_ok d'" using old(1) assms(2)
    by (auto simp: keys_ok_def reserve_intent_def Let_def not_le split: if_splits option.splits)
  show "refs_ok d'" using old(2) assms(2)
    by (auto simp: refs_ok_def fk_def reserve_intent_def Let_def not_le split: if_splits option.splits)
  show "rows_ok d'" using old(3) assms(2)
    by (auto simp: rows_ok_def reserve_intent_def Let_def not_le split: if_splits option.splits)
qed

lemma record_submission_inv:
  assumes "db_inv d" "record_submission k ord a now d = (x, d')"
  shows "db_inv d'"
proof (rule db_invI)
  show "pnl_ok d'" using assms pnl_ok_cong [of d' d]
    by (auto simp: db_inv_def record_submission_def Let_def unique_key_update row_list_update split: if_splits option.splits)
  have old: "keys_ok d" "refs_ok d" "rows_ok d" using assms(1) by (simp_all add: db_inv_def)
  show "keys_ok d'" using old(1) assms(2)
    by (auto simp: keys_ok_def record_submission_def Let_def unique_key_update row_list_update split: if_splits option.splits)
  show "refs_ok d'" using old(2) assms(2)
    by (auto simp: refs_ok_def fk_def record_submission_def Let_def unique_key_update row_list_update split: if_splits option.splits)
  show "rows_ok d'" using old(3) assms(2)
    by (auto simp: rows_ok_def record_submission_def Let_def unique_key_update row_list_update split: if_splits option.splits)
qed

lemma record_audit_event_inv:
  assumes "db_inv d" "record_audit_event a b m s c g now d = (x, d')"
  shows "db_inv d'"
proof (rule db_invI)
  show "pnl_ok d'" using assms pnl_ok_cong [of d' d]
    by (auto simp: db_inv_def record_audit_event_def split: if_splits option.splits)
  have old: "keys_ok d" "refs_ok d" "rows_ok d" using assms(1) by (simp_all add: db_inv_def)
  show "keys_ok d'" using old(1) assms(2)
    by (auto simp: keys_ok_def record_audit_event_def split: if_splits option.splits)
  show "refs_ok d'" using old(2) assms(2)
    by (auto simp: refs_ok_def fk_def record_audit_event_def split: if_splits option.splits)
  show "rows_ok d'" using old(3) assms(2)
    by (auto simp: rows_ok_def record_audit_event_def split: if_splits option.splits)
qed

section \<open>Positions and the running total\<close>

lemma position_key_set_columns [simp]:
  "position_key (set_columns m stop target r) = position_key r"
  "position_day (set_columns m stop target r) = position_day r"
  by (simp_all add: position_key_def position_day_def set_columns_def)

lemma moved_position_ident [simp]:
  "ps_strategy_id (moved_position f s stop target now p) = ps_strategy_id p"
  "ps_execution_mode (moved_position f s stop target now p) = ps_execution_mode p"
  "ps_trading_date (moved_position f s stop target now p) = ps_trading_date p"
  "ps_security_id (moved_position f s stop target now p) = ps_security_id p"
  "ps_instrument (moved_position f s stop target now p) = ps_instrument p"
  by (simp_all add: moved_position_def Let_def split_def)

lemma set_columns_moved:
  "pr_position r = p \<Longrightarrow>
   set_columns (moved_position f s stop target now p) stop target r
     = r\<lparr>pr_position := moved_position f s stop target now p\<rparr>"
  by (simp add: set_columns_def moved_position_def Let_def split_def)

lemma moved_position_status:
  "ps_status (moved_position f s stop target now p) = CLOSED
     \<longleftrightarrow> ps_quantity (moved_position f s stop target now p) = 0"
  by (simp add: moved_position_def Let_def split_def)

text \<open>What one fill does to the position table.\<close>

lemma upsert_new:
  assumes "read_position (fl_strategy_id f) (fl_execution_mode f) td sid d = None"
  shows "upsert_position rt f ins sid s td stop target now d =
    (Inr (new_position f ins sid s td stop target now, 0),
     d\<lparr>db_positions := insert_row \<lparr>pr_runtime_id = rt,
           pr_position = new_position f ins sid s td stop target now\<rparr> (db_positions d),
        db_last_rowid := next_id (db_positions d)\<rparr>)"
proof -
  have key: "position_key \<lparr>pr_runtime_id = rt, pr_position = new_position f ins sid s td stop target now\<rparr>
      = ((fl_strategy_id f, fl_execution_mode f, td), sid)"
    by (simp add: position_key_def position_day_def new_position_def)
  have "\<not> row_exists (\<lambda>r. position_key r = ((fl_strategy_id f, fl_execution_mode f, td), sid)) (db_positions d)"
    using assms by (simp add: read_position_def select_one_None)
  from select_one_insert [OF this] key assms show ?thesis
    by (simp add: upsert_position_def read_position_def Let_def)
qed

lemma upsert_moved:
  assumes k: "unique_key position_key (db_positions d)"
    and r: "read_position (fl_strategy_id f) (fl_execution_mode f) td sid d = Some cur"
  shows "upsert_position rt f ins sid s td stop target now d =
    (let m = moved_position f s stop target now cur in
     (Inr (m, ps_realised_pnl m - ps_realised_pnl cur),
      d\<lparr>db_positions := update_rows
           (\<lambda>_ r. position_key r = ((fl_strategy_id f, fl_execution_mode f, td), sid))
           (set_columns m stop target) (db_positions d)\<rparr>))"
proof -
  let ?key = "((fl_strategy_id f, fl_execution_mode f, td), sid)"
  let ?m = "moved_position f s stop target now cur"
  obtain row where row: "select_one (\<lambda>r. position_key r = ?key) (db_positions d) = Some row"
    "pr_position row = cur"
    using r by (auto simp: read_position_def)
  have "position_key row = ?key" using select_one_Some [OF row(1)] by simp
  then have "select_one (\<lambda>r. position_key r = ?key)
      (update_rows (\<lambda>_ r. position_key r = ?key) (set_columns ?m stop target) (db_positions d))
    = Some (row\<lparr>pr_position := ?m\<rparr>)"
    using row by (simp add: select_one_update set_columns_moved)
  then have "read_position (fl_strategy_id f) (fl_execution_mode f) td sid
      (d\<lparr>db_positions := update_rows (\<lambda>_ r. position_key r = ?key) (set_columns ?m stop target)
          (db_positions d)\<rparr>) = Some ?m"
    by (simp add: read_position_def)
  then show ?thesis using r by (simp add: upsert_position_def Let_def)
qed

definition day_of_fill :: "fill \<Rightarrow> string \<Rightarrow> day_key" where
  "day_of_fill f td = (fl_strategy_id f, fl_execution_mode f, td)"

lemma upsert_position_spec:
  assumes k: "unique_key position_key (db_positions d)"
  shows "\<exists>p delta ps. upsert_position rt f ins sid s td stop target now d = (Inr (p, delta), ps)
    \<and> read_position (fl_strategy_id f) (fl_execution_mode f) td sid ps = Some p
    \<and> unique_key position_key (db_positions ps)
    \<and> (\<forall>key. day_realised key ps = day_realised key d + (if key = day_of_fill f td then delta else 0))
    \<and> (0 < fl_quantity f \<longrightarrow> (\<forall>r \<in> set (row_list (db_positions d)).
           ps_status (pr_position r) = CLOSED \<longleftrightarrow> ps_quantity (pr_position r) = 0) \<longrightarrow>
         (\<forall>r \<in> set (row_list (db_positions ps)).
           ps_status (pr_position r) = CLOSED \<longleftrightarrow> ps_quantity (pr_position r) = 0))
    \<and> ps = d\<lparr>db_positions := db_positions ps, db_last_rowid := db_last_rowid ps\<rparr>"
proof (cases "read_position (fl_strategy_id f) (fl_execution_mode f) td sid d")
  case None
  let ?row = "\<lparr>pr_runtime_id = rt, pr_position = new_position f ins sid s td stop target now\<rparr>"
  have key: "position_key ?row = ((fl_strategy_id f, fl_execution_mode f, td), sid)"
    "position_day ?row = day_of_fill f td"
    by (simp_all add: position_key_def position_day_def new_position_def day_of_fill_def)
  have fresh: "\<not> row_exists (\<lambda>r. position_key r = ((fl_strategy_id f, fl_execution_mode f, td), sid)) (db_positions d)"
    using None by (simp add: read_position_def select_one_None)
  let ?ps = "d\<lparr>db_positions := insert_row ?row (db_positions d), db_last_rowid := next_id (db_positions d)\<rparr>"
  have rd: "read_position (fl_strategy_id f) (fl_execution_mode f) td sid ?ps
      = Some (new_position f ins sid s td stop target now)"
    using fresh key by (simp add: read_position_def select_one_insert)
  have uk: "unique_key position_key (db_positions ?ps)" using k key fresh by simp
  have dr: "day_realised key ?ps = day_realised key d + (if key = day_of_fill f td then 0 else 0)" for key
    using key by (simp add: day_realised_def new_position_def)
  have q: "ps_status (pr_position ?row) = OPEN" "ps_quantity (pr_position ?row) = side_sign s * fl_quantity f"
    by (simp_all add: new_position_def)
  show ?thesis
    by (intro exI [of _ "new_position f ins sid s td stop target now"] exI [of _ 0] exI [of _ ?ps] conjI
        upsert_new [OF None] rd uk allI dr)
      (use q in \<open>auto simp: new_position_def\<close>)
next
  case (Some cur)
  let ?key = "((fl_strategy_id f, fl_execution_mode f, td), sid)"
  let ?m = "moved_position f s stop target now cur"
  let ?ps = "d\<lparr>db_positions := update_rows (\<lambda>_ r. position_key r = ?key)
           (set_columns ?m stop target) (db_positions d)\<rparr>"
  obtain row where row: "select_one (\<lambda>r. position_key r = ?key) (db_positions d) = Some row"
    "pr_position row = cur"
    using Some by (auto simp: read_position_def)
  have rk: "position_key row = ?key" using select_one_Some [OF row(1)] by simp
  then have day: "position_day row = day_of_fill f td" by (simp add: position_key_def day_of_fill_def)
  have up: "upsert_position rt f ins sid s td stop target now d
      = (Inr (?m, ps_realised_pnl ?m - ps_realised_pnl cur), ?ps)"
    using upsert_moved [OF k Some] by (simp add: Let_def)
  have rd: "read_position (fl_strategy_id f) (fl_execution_mode f) td sid ?ps = Some ?m"
    using row rk by (simp add: read_position_def select_one_update set_columns_moved)
  have uk: "unique_key position_key (db_positions ?ps)" using k by (simp add: unique_key_update)
  have dr: "day_realised key ?ps = day_realised key d
      + (if key = day_of_fill f td then ps_realised_pnl ?m - ps_realised_pnl cur else 0)" for key
  proof -
    have p: "(position_day (set_columns ?m stop target r) = key) = (position_day r = key)" for r by simp
    have v: "ps_realised_pnl (pr_position (set_columns ?m stop target r)) = ps_realised_pnl ?m" for r
      by (simp add: set_columns_def)
    show ?thesis
      using sum_rows_update_one [OF k row(1), of "\<lambda>r. position_day r = key" "set_columns ?m stop target", OF p, of "\<lambda>r. ps_realised_pnl (pr_position r)"] day row(2)
      by (auto simp: day_realised_def v)
  qed
  have stt: "\<forall>r \<in> set (row_list (db_positions ?ps)). ps_status (pr_position r) = CLOSED
        \<longleftrightarrow> ps_quantity (pr_position r) = 0"
    if "\<forall>r \<in> set (row_list (db_positions d)). ps_status (pr_position r) = CLOSED
        \<longleftrightarrow> ps_quantity (pr_position r) = 0"
    using that moved_position_status [of f s stop target now cur]
    by (auto simp: row_list_update set_columns_def)
  show ?thesis
    by (intro exI [of _ ?m] exI [of _ "ps_realised_pnl ?m - ps_realised_pnl cur"] exI [of _ ?ps] conjI
        up rd uk allI dr) (use stt in auto)
qed

lemma touch_recorded:
  "day_recorded key (touch_strategy_state rt sid m td lc delta now d)
     = day_recorded key d + (if key = (sid, m, td) then delta else 0)"
proof (cases "row_exists (\<lambda>r. state_key r = (sid, m, td)) (db_states d)")
  case True
  then obtain r0 where r0: "select_one (\<lambda>r. state_key r = (sid, m, td)) (db_states d) = Some r0"
    using select_one_None not_None_eq by metis
  let ?f = "\<lambda>r. r\<lparr>st_last_candle_end_at := coalesce lc (st_last_candle_end_at r),
                  st_daily_realised_pnl := st_daily_realised_pnl r + delta, st_updated_at := now\<rparr>"
  have k: "state_key (?f r) = state_key r" for r by (simp add: state_key_def)
  have e: "select_one (\<lambda>r. state_key r = key) (update_rows (\<lambda>_ r. state_key r = (sid, m, td)) ?f (db_states d))
     = map_option (\<lambda>r. if state_key r = (sid, m, td) then ?f r else r)
         (select_one (\<lambda>r. state_key r = key) (db_states d))"
    by (rule select_one_update) (simp add: k)
  show ?thesis
  proof (cases "select_one (\<lambda>r. state_key r = key) (db_states d)")
    case None
    then have "key \<noteq> (sid, m, td)" using r0 by auto
    then show ?thesis using True e None
      by (simp add: touch_strategy_state_def day_recorded_def Let_def)
  next
    case (Some r)
    then have "state_key r = key" using select_one_Some by fastforce
    then show ?thesis using True e Some
      by (auto simp: touch_strategy_state_def day_recorded_def Let_def)
  qed
next
  case False
  let ?row = "\<lparr>st_runtime_id = rt, st_strategy_id = sid, st_execution_mode = m,
             st_trading_date = td, st_state_version = 1,
             st_last_candle_end_at = lc, st_daily_realised_pnl = delta,
             st_entries_blocked = False, st_square_off_state = ''PENDING'',
             st_square_off_attempts = 0, st_payload = None, st_updated_at = now\<rparr>"
  have k: "state_key ?row = (sid, m, td)" by (simp add: state_key_def)
  show ?thesis
  proof (cases "key = (sid, m, td)")
    case True
    with False k select_one_insert [OF False, of ?row] show ?thesis
      by (simp add: touch_strategy_state_def day_recorded_def Let_def select_one_None [THEN iffD2, OF False])
  next
    case ne: False
    then have "state_key ?row \<noteq> key" using k by simp
    from select_one_insert_other [of "\<lambda>r. state_key r = key" ?row, OF this] False ne show ?thesis
      by (simp add: touch_strategy_state_def day_recorded_def Let_def)
  qed
qed

lemma touch_frame:
  "touch_strategy_state rt sid m td lc delta now d
     = d\<lparr>db_states := db_states (touch_strategy_state rt sid m td lc delta now d),
          db_last_rowid := db_last_rowid (touch_strategy_state rt sid m td lc delta now d)\<rparr>"
  by (simp add: touch_strategy_state_def Let_def)

lemma touch_unique:
  "unique_key state_key (db_states d)
     \<Longrightarrow> unique_key state_key (db_states (touch_strategy_state rt sid m td lc delta now d))"
  by (auto simp: touch_strategy_state_def Let_def unique_key_update state_key_def)

lemma fill_quote_frame:
  "record_fill_quote k f d = d\<lparr>db_fill_quotes := db_fill_quotes (record_fill_quote k f d),
       db_last_rowid := db_last_rowid (record_fill_quote k f d)\<rparr>"
  by (simp add: record_fill_quote_def Let_def)

lemma fill_quote_ok:
  assumes "unique_key fill_quote_key (db_fill_quotes d)" "fk fq_order_id (db_fill_quotes d) (db_orders d)"
    and "id_exists k (db_orders d)"
  shows "unique_key fill_quote_key (db_fill_quotes (record_fill_quote k f d))
    \<and> fk fq_order_id (db_fill_quotes (record_fill_quote k f d)) (db_orders d)"
  using assms by (auto simp: record_fill_quote_def Let_def fk_def)

text \<open>The states apply\_fill goes through before the position moves.\<close>

definition fill_inserted :: "nat \<Rightarrow> string \<Rightarrow> fill \<Rightarrow> db \<Rightarrow> db" where
  "fill_inserted k rt f d =
     d\<lparr>db_fills := insert_row (fill_row_of k rt f) (db_fills d), db_last_rowid := next_id (db_fills d)\<rparr>"

definition order_totalled :: "nat \<Rightarrow> order_status \<Rightarrow> datetime \<Rightarrow> db \<Rightarrow> db" where
  "order_totalled k status now d =
     d\<lparr>db_orders := update_rows (\<lambda>i _. i = k)
         (\<lambda>r. r\<lparr>or_status := status, or_filled_quantity := fst (order_totals k d),
                 or_average_fill_price := snd (order_totals k d), or_updated_at := now\<rparr>) (db_orders d)\<rparr>"

definition before_position :: "nat \<Rightarrow> string \<Rightarrow> fill \<Rightarrow> order_status \<Rightarrow> datetime \<Rightarrow> db \<Rightarrow> db" where
  "before_position k rt f status now d =
     record_fill_quote k f (order_totalled k status now (fill_inserted k rt f d))"

lemma apply_fill_alt:
  "apply_fill k rt f status ins sid s td stop target lc now d =
     (if row_exists (\<lambda>r. fill_key r = (k, fl_broker_fill_id f)) (db_fills d) then
        (case read_position (fl_strategy_id f) (fl_execution_mode f) td sid d of
           None \<Rightarrow> (Inl RuntimeError, d) | Some p \<Rightarrow> (Inr p, d))
      else if \<not> id_exists k (db_orders d) \<or> fl_quantity f \<le> 0 then (Inl IntegrityError, d)
      else case upsert_position rt f ins sid s td stop target now (before_position k rt f status now d) of
             (Inl e, d4) \<Rightarrow> (Inl e, d)
           | (Inr (p, delta), d4) \<Rightarrow>
               (Inr p, touch_strategy_state rt (fl_strategy_id f) (fl_execution_mode f) td lc delta now d4))"
  by (cases "order_totals k (fill_inserted k rt f d)")
    (simp add: apply_fill_def before_position_def order_totalled_def fill_inserted_def Let_def)

lemma before_position_frame:
  "db_positions (before_position k rt f status now d) = db_positions d"
  "db_states (before_position k rt f status now d) = db_states d"
  "db_fills (before_position k rt f status now d) = insert_row (fill_row_of k rt f) (db_fills d)"
  "db_sessions (before_position k rt f status now d) = db_sessions d"
  "db_heartbeats (before_position k rt f status now d) = db_heartbeats d"
  "db_signals (before_position k rt f status now d) = db_signals d"
  "db_intents (before_position k rt f status now d) = db_intents d"
  "db_orders (before_position k rt f status now d)
     = db_orders (order_totalled k status now (fill_inserted k rt f d))"
  unfolding before_position_def
  by (subst fill_quote_frame, simp add: order_totalled_def fill_inserted_def)+

lemma row_list_update_id:
  "(\<And>r. k (f r) = k r) \<Longrightarrow> map k (row_list (update_rows P f t)) = map k (row_list t)"
  by (auto simp: row_list_def update_rows_def)

lemma order_rows_keep:
  assumes "\<And>r. k (f r) = k r"
  shows "k ` set (row_list (update_rows P f t)) = k ` set (row_list t)"
  using row_list_update_id [of k f P t, OF assms] by (metis image_set)

lemma before_position_keys:
  assumes inv: "db_inv d" and k: "id_exists k (db_orders d)" and q: "0 < fl_quantity f"
    and fresh: "\<not> row_exists (\<lambda>r. fill_key r = (k, fl_broker_fill_id f)) (db_fills d)"
  shows "keys_ok (before_position k rt f status now d) \<and> refs_ok (before_position k rt f status now d)
    \<and> rows_ok (before_position k rt f status now d)"
proof -
  let ?d2 = "order_totalled k status now (fill_inserted k rt f d)"
  let ?d3 = "before_position k rt f status now d"
  have key: "fill_key (fill_row_of k rt f) = (k, fl_broker_fill_id f)"
    by (simp add: fill_key_def fill_row_of_def)
  have ids: "id_exists j (db_orders ?d2) = id_exists j (db_orders d)" for j
    by (simp add: order_totalled_def fill_inserted_def)
  have ord: "unique_key or_intent_id (db_orders ?d2)" "unique_key or_correlation_id (db_orders ?d2)"
    "ids_ok (db_orders ?d2)"
    using inv by (auto simp: db_inv_def keys_ok_def order_totalled_def fill_inserted_def unique_key_update)
  have ordfk: "fk or_intent_id (db_orders ?d2) (db_intents d)"
  proof -
    have "or_intent_id ` set (row_list (db_orders ?d2)) = or_intent_id ` set (row_list (db_orders d))"
      unfolding order_totalled_def fill_inserted_def by (simp add: order_rows_keep)
    moreover have "\<forall>j \<in> or_intent_id ` set (row_list (db_orders d)). id_exists j (db_intents d)"
      using inv by (auto simp: db_inv_def refs_ok_def fk_def)
    ultimately show ?thesis unfolding fk_def by (metis image_eqI)
  qed
  have d2: "db_fill_quotes ?d2 = db_fill_quotes d" by (simp add: order_totalled_def fill_inserted_def)
  have fq: "unique_key fill_quote_key (db_fill_quotes ?d3) \<and> fk fq_order_id (db_fill_quotes ?d3) (db_orders ?d2)"
    unfolding before_position_def
    by (rule fill_quote_ok, insert inv k)
      (auto simp: d2 ids db_inv_def keys_ok_def refs_ok_def fk_def)
  have qty: "fr_quantity (fill_row_of k rt f) = fl_quantity f" "fr_order_id (fill_row_of k rt f) = k"
    by (simp_all add: fill_row_of_def)
  show ?thesis
    using inv ord ordfk fq fresh key q qty k ids
    by (auto simp: db_inv_def keys_ok_def refs_ok_def rows_ok_def before_position_frame fk_def)
qed

lemma apply_fill_inv:
  assumes inv: "db_inv d" and a: "apply_fill k rt f status ins sid s td stop target lc now d = (x, d')"
  shows "db_inv d'"
proof (cases "row_exists (\<lambda>r. fill_key r = (k, fl_broker_fill_id f)) (db_fills d)
    \<or> \<not> id_exists k (db_orders d) \<or> fl_quantity f \<le> 0")
  case True
  with a inv show ?thesis by (auto simp: apply_fill_alt split: if_splits option.splits)
next
  case False
  let ?d3 = "before_position k rt f status now d"
  have ok: "keys_ok ?d3" "refs_ok ?d3" "rows_ok ?d3"
    using before_position_keys [OF inv] False by auto
  then have "unique_key position_key (db_positions ?d3)" by (simp add: keys_ok_def)
  from upsert_position_spec [OF this, of rt f ins sid s td stop target now]
  obtain p delta ps where u: "upsert_position rt f ins sid s td stop target now ?d3 = (Inr (p, delta), ps)"
    "unique_key position_key (db_positions ps)"
    "\<forall>key. day_realised key ps = day_realised key ?d3 + (if key = day_of_fill f td then delta else 0)"
    "0 < fl_quantity f \<longrightarrow> (\<forall>r \<in> set (row_list (db_positions ?d3)).
           ps_status (pr_position r) = CLOSED \<longleftrightarrow> ps_quantity (pr_position r) = 0) \<longrightarrow>
         (\<forall>r \<in> set (row_list (db_positions ps)).
           ps_status (pr_position r) = CLOSED \<longleftrightarrow> ps_quantity (pr_position r) = 0)"
    "ps = ?d3\<lparr>db_positions := db_positions ps, db_last_rowid := db_last_rowid ps\<rparr>" by blast
  have d': "d' = touch_strategy_state rt (fl_strategy_id f) (fl_execution_mode f) td lc delta now ps"
    using a False u(1) by (auto simp: apply_fill_alt split: if_splits)
  have ps_eq: "db_sessions ps = db_sessions ?d3" "db_heartbeats ps = db_heartbeats ?d3"
    "db_signals ps = db_signals ?d3" "db_intents ps = db_intents ?d3" "db_orders ps = db_orders ?d3"
    "db_fills ps = db_fills ?d3" "db_fill_quotes ps = db_fill_quotes ?d3" "db_states ps = db_states ?d3"
    by (subst u(5), simp)+
  have t_eq: "db_sessions d' = db_sessions ps" "db_heartbeats d' = db_heartbeats ps"
    "db_signals d' = db_signals ps" "db_intents d' = db_intents ps" "db_orders d' = db_orders ps"
    "db_fills d' = db_fills ps" "db_fill_quotes d' = db_fill_quotes ps" "db_positions d' = db_positions ps"
    unfolding d' by (subst touch_frame, simp)+
  have st: "unique_key state_key (db_states d')"
    unfolding d' using ok(1) by (intro touch_unique) (simp add: ps_eq keys_ok_def)
  have pos: "\<forall>r \<in> set (row_list (db_positions ps)).
           ps_status (pr_position r) = CLOSED \<longleftrightarrow> ps_quantity (pr_position r) = 0"
    using u(4) ok(3) False by (auto simp: rows_ok_def)
  show ?thesis
  proof (rule db_invI)
    show "keys_ok d'" using ok(1) st u(2) by (simp add: keys_ok_def t_eq ps_eq)
    show "refs_ok d'" using ok(2) by (simp add: refs_ok_def t_eq ps_eq)
    show "rows_ok d'" using ok(3) pos by (simp add: rows_ok_def t_eq ps_eq)
    show "pnl_ok d'" unfolding pnl_ok_def
    proof
      fix key
      have "day_recorded key d' = day_recorded key ps + (if key = day_of_fill f td then delta else 0)"
        unfolding d' by (simp add: touch_recorded day_of_fill_def)
      also have "day_recorded key ps = day_recorded key d"
        by (simp add: day_recorded_def ps_eq before_position_frame)
      also have "\<dots> = day_realised key d" using inv unfolding db_inv_def pnl_ok_def by blast
      also have "\<dots> = day_realised key ?d3" by (simp add: day_realised_def before_position_frame)
      finally have "day_recorded key d' = day_realised key ps" using spec [OF u(3), of key] by simp
      also have "\<dots> = day_realised key d'" by (simp add: day_realised_def t_eq)
      finally show "day_recorded key d' = day_realised key d'" .
    qed
  qed
qed

lemma recorded_update:
  assumes "\<And>r. state_key (f r) = state_key r" "\<And>r. st_daily_realised_pnl (f r) = st_daily_realised_pnl r"
  shows "(case select_one (\<lambda>r. state_key r = key) (update_rows (\<lambda>_. P) f t) of
            None \<Rightarrow> 0 | Some r \<Rightarrow> st_daily_realised_pnl r)
       = (case select_one (\<lambda>r. state_key r = key) t of None \<Rightarrow> 0 | Some r \<Rightarrow> st_daily_realised_pnl r)"
  using assms select_one_update [of "\<lambda>r. state_key r = key" f P t]
  by (simp split: option.split)

lemma recorded_insert:
  assumes "\<not> row_exists (\<lambda>r. state_key r = state_key row) t" "st_daily_realised_pnl row = 0"
  shows "(case select_one (\<lambda>r. state_key r = key) (insert_row row t) of
            None \<Rightarrow> 0 | Some r \<Rightarrow> st_daily_realised_pnl r)
       = (case select_one (\<lambda>r. state_key r = key) t of None \<Rightarrow> 0 | Some r \<Rightarrow> st_daily_realised_pnl r)"
proof (cases "state_key row = key")
  case True
  with assms show ?thesis
    using select_one_insert [OF assms(1), of row] select_one_None [THEN iffD2, OF assms(1)] by simp
next
  case False
  then show ?thesis using select_one_insert_other [of "\<lambda>r. state_key r = key" row t] by simp
qed

lemma save_strategy_state_inv:
  assumes "db_inv d"
  shows "db_inv (save_strategy_state rt sid m td lc so bl pl inc now d)"
proof -
  let ?d' = "save_strategy_state rt sid m td lc so bl pl inc now d"
  have eq: "?d' = d\<lparr>db_states := db_states ?d', db_last_rowid := db_last_rowid ?d'\<rparr>"
    by (simp add: save_strategy_state_def Let_def)
  have t_eq: "db_sessions ?d' = db_sessions d" "db_heartbeats ?d' = db_heartbeats d"
    "db_signals ?d' = db_signals d" "db_intents ?d' = db_intents d" "db_orders ?d' = db_orders d"
    "db_fills ?d' = db_fills d" "db_fill_quotes ?d' = db_fill_quotes d" "db_positions ?d' = db_positions d"
    by (subst eq, simp)+
  have u: "unique_key state_key (db_states ?d')"
    using assms by (auto simp: save_strategy_state_def Let_def unique_key_update state_key_def
        db_inv_def keys_ok_def)
  have r: "day_recorded key ?d' = day_recorded key d" for key
  proof (cases "row_exists (\<lambda>r. state_key r = (sid, m, td)) (db_states d)")
    case True
    then show ?thesis
      by (simp add: save_strategy_state_def Let_def day_recorded_def)
        (intro conjI impI; rule recorded_update; simp add: state_key_def)
  next
    case False
    then show ?thesis
      by (simp add: save_strategy_state_def Let_def day_recorded_def)
        (intro conjI impI; rule recorded_insert; simp add: state_key_def)
  qed
  show ?thesis
  proof (rule db_invI)
    show "keys_ok ?d'" "refs_ok ?d'" "rows_ok ?d'"
      using assms u by (simp_all add: db_inv_def keys_ok_def refs_ok_def rows_ok_def t_eq)
    show "pnl_ok ?d'"
      using assms unfolding pnl_ok_def r db_inv_def by (simp add: day_realised_def t_eq)
  qed
qed

lemma update_position_marks_inv:
  assumes "db_inv d"
  shows "db_inv (update_position_marks sid m td sec hi lo d)"
proof (rule db_invI)
  let ?d' = "update_position_marks sid m td sec hi lo d"
  let ?f = "\<lambda>r. r\<lparr>pr_position := (pr_position r)\<lparr>ps_highest_favourable := Some hi,
                                             ps_lowest_favourable := Some lo\<rparr>\<rparr>"
  have k: "position_key (?f r) = position_key r" "position_day (?f r) = position_day r" for r
    by (simp_all add: position_key_def position_day_def)
  show "keys_ok ?d'" "refs_ok ?d'" "rows_ok ?d'"
    using assms by (auto simp: db_inv_def keys_ok_def refs_ok_def rows_ok_def update_position_marks_def
        unique_key_update k row_list_update)
  have "day_realised key ?d' = day_realised key d" for key
    unfolding day_realised_def update_position_marks_def
    using sum_rows_update_none [of "\<lambda>r. position_day r = key" ?f "\<lambda>r. ps_realised_pnl (pr_position r)"] k
    by simp
  then show "pnl_ok ?d'"
    using assms unfolding pnl_ok_def db_inv_def by (simp add: day_recorded_def update_position_marks_def)
qed

section \<open>Reachable databases\<close>

text \<open>One repository operation, with whatever arguments; a failed one included.\<close>

inductive repo_step :: "db \<Rightarrow> db \<Rightarrow> bool" where
  rs_open: "open_session a b m r p f now d = (x1, d') \<Longrightarrow> repo_step d d'"
| rs_close: "repo_step d (close_session k reason now d)"
| rs_heartbeat: "record_heartbeat k a b c e f g now d = (x2, d') \<Longrightarrow> repo_step d d'"
| rs_signal: "record_signal k a sg t f' d = (x3, d') \<Longrightarrow> repo_step d d'"
| rs_reserve: "reserve_intent k i d = (x4, d') \<Longrightarrow> repo_step d d'"
| rs_submission: "record_submission k ord a now d = (x5, d') \<Longrightarrow> repo_step d d'"
| rs_fill: "apply_fill k a fl status ins sid s td stop target lc now d = (x6, d') \<Longrightarrow> repo_step d d'"
| rs_save: "repo_step d (save_strategy_state a b' m td lc so bl pl inc now d)"
| rs_marks: "repo_step d (update_position_marks a m td sid hi lo d)"
| rs_error: "repo_step d (record_error a b m' sev component_name msg ctx now d)"
| rs_notify: "repo_step d (record_notification a b m' ch ev msg dv b2 now d)"
| rs_audit: "record_audit_event a ac actr b m' dt now d = (x7, d') \<Longrightarrow> repo_step d d'"

inductive_cases repo_stepE: "repo_step d d'"

inductive repo_reach :: "db \<Rightarrow> bool" where
  reach_empty: "repo_reach empty_db"
| reach_step: "repo_reach d \<Longrightarrow> repo_step d d' \<Longrightarrow> repo_reach d'"

lemma repo_step_inv: "repo_step d d' \<Longrightarrow> db_inv d \<Longrightarrow> db_inv d'"
  by (induction rule: repo_step.induct)
    ((rule open_session_inv; assumption) | (rule close_session_inv; assumption)
      | (rule record_heartbeat_inv; assumption) | (rule record_signal_inv; assumption)
      | (rule reserve_intent_inv; assumption) | (rule record_submission_inv; assumption)
      | (rule apply_fill_inv; assumption) | (rule save_strategy_state_inv; assumption)
      | (rule update_position_marks_inv; assumption) | (rule record_error_inv; assumption)
      | (rule record_notification_inv; assumption) | (rule record_audit_event_inv; assumption))+

lemma repo_reach_inv: "repo_reach d \<Longrightarrow> db_inv d"
  by (induction rule: repo_reach.induct) (auto intro: repo_step_inv)

section \<open>Cash accounting of a position\<close>

text \<open>A fill that adds to a position, opens it, or reduces it without crossing zero.\<close>

definition no_flip :: "int \<Rightarrow> int \<Rightarrow> bool" where
  "no_flip quantity signed = (quantity = 0 \<or> (0 < quantity) = (0 < signed) \<or> \<bar>signed\<bar> \<le> \<bar>quantity\<bar>)"

fun fills_no_flip :: "int \<Rightarrow> (int \<times> money) list \<Rightarrow> bool" where
  "fills_no_flip q [] = True"
| "fills_no_flip q ((s, p) # fs) = (s \<noteq> 0 \<and> no_flip q s \<and> fills_no_flip (q + s) fs)"

fun fold_fills :: "int \<times> money \<times> money \<Rightarrow> (int \<times> money) list \<Rightarrow> int \<times> money \<times> money" where
  "fold_fills (q, a, r) [] = (q, a, r)"
| "fold_fills (q, a, r) ((s, p) # fs) = fold_fills (fill_arith q a r s p) fs"

lemma fill_arith_quantity: "fst (fill_arith q a r s p) = q + s"
  by (simp add: fill_arith_def Let_def)

lemma fill_arith_cash:
  assumes "no_flip q s" "s \<noteq> 0" "fill_arith q a r s p = (q', a', r')"
  shows "r' - of_int q' * a' = r - of_int q * a - of_int s * p"
proof -
  consider (flat) "q = 0" | (add) "q \<noteq> 0" "(0 < q) = (0 < s)"
    | (long) "0 < q" "s < 0" "- s \<le> q" | (short) "q < 0" "0 < s" "s \<le> - q"
    using assms(1,2) by (cases "0 < q"; cases "0 < s"; cases "q = 0"; fastforce simp: no_flip_def)
  then show ?thesis
  proof cases
    case flat
    with assms(2,3) show ?thesis
      by (auto simp: fill_arith_def Let_def abs_if split: if_splits)
  next
    case add
    then have nz: "q + s \<noteq> 0" using assms(2) by linarith
    have a': "a' = (a * of_int \<bar>q\<bar> + p * of_int \<bar>s\<bar>) / of_int (\<bar>q\<bar> + \<bar>s\<bar>)" "r' = r" "q' = q + s"
      using add nz assms(3) by (auto simp: fill_arith_def Let_def split: if_splits)
    have sg: "\<bar>q\<bar> + \<bar>s\<bar> = (if 0 < q then q + s else - (q + s))"
      "\<bar>q\<bar> = (if 0 < q then q else - q)" "\<bar>s\<bar> = (if 0 < q then s else - s)"
      using add assms(2) by auto
    have ne: "(of_int q + of_int s :: rat) \<noteq> 0" using nz by (metis of_int_add of_int_eq_0_iff)
    have "of_int (q + s) * a' = a * of_int q + p * of_int s"
    proof (cases "0 < q")
      case True
      then show ?thesis unfolding a'(1) sg using ne by simp
    next
      case False
      have "- of_int q - of_int s \<noteq> (0::rat)" using ne by (simp add: algebra_simps)
      then show ?thesis unfolding a'(1) sg using False ne by (simp add: field_simps)
    qed
    then show ?thesis using a'(2,3) by (simp add: algebra_simps)
  next
    case long
    then have "fill_arith q a r s p = (q + s, a, r + of_int (- s) * (p - a))"
      by (simp add: fill_arith_def Let_def)
    with assms(3) show ?thesis by (auto simp: algebra_simps)
  next
    case short
    then have "fill_arith q a r s p = (q + s, a, r + (-1) * of_int s * (p - a))"
      by (simp add: fill_arith_def Let_def)
    with assms(3) show ?thesis by (auto simp: algebra_simps)
  qed
qed

lemma fold_fills_cash:
  "fills_no_flip q fs \<Longrightarrow> fold_fills (q, a, r) fs = (q', a', r') \<Longrightarrow>
     q' = q + (\<Sum>(s, p)\<leftarrow>fs. s)
     \<and> r' - of_int q' * a' = r - of_int q * a - (\<Sum>(s, p)\<leftarrow>fs. of_int s * p)"
proof (induction fs arbitrary: q a r)
  case (Cons f fs)
  obtain s p where f: "f = (s, p)" by fastforce
  obtain q1 a1 r1 where st: "fill_arith q a r s p = (q1, a1, r1)" by (metis prod_cases3)
  have q1: "q1 = q + s" using fill_arith_quantity [of q a r s p] st by simp
  have nf: "no_flip q s" "s \<noteq> 0" "fills_no_flip q1 fs" using Cons(2) f q1 by auto
  have "fold_fills (q1, a1, r1) fs = (q', a', r')" using Cons(3) f st by simp
  note ih = Cons(1) [OF nf(3) this]
  have "r' - of_int q' * a' = r - of_int q * a - of_int s * p - (\<Sum>(s, p)\<leftarrow>fs. of_int s * p)"
    using conjunct2 [OF ih] fill_arith_cash [OF nf(1,2) st] by linarith
  then show ?case using conjunct1 [OF ih] f q1 by (intro conjI) (simp_all only: list.map sum_list.Cons, simp_all)
qed simp

section \<open>A worked day\<close>

definition day_time :: "int \<Rightarrow> datetime" where
  "day_time s = DT (s * second) (Some ist)"

definition day_intent :: "int \<Rightarrow> side \<Rightarrow> order_intent" where
  "day_intent n s =
     \<lparr>oi_correlation_id = ''p_io_ema_'' @ pad_nat 4 (nat n), oi_strategy_id = ''ema'', oi_runtime_id = ''io'',
      oi_execution_mode = PAPER, oi_trading_date = ''2026-08-03'', oi_sequence_number = n,
      oi_instrument = ''CE'', oi_security_id = ''42'', oi_side = s, oi_quantity = 75,
      oi_order_type = MARKET, oi_product_type = ''INTRADAY'', oi_created_at = day_time n,
      oi_limit_price = None, oi_trigger_price = None, oi_signal_id = None, oi_basket_id = None,
      oi_leg_id = None, oi_config_fingerprint = None, oi_risk_decision = ALLOWED, oi_risk_reason = None\<rparr>"

definition day_order :: "int \<Rightarrow> order" where
  "day_order n =
     \<lparr>od_correlation_id = ''p_io_ema_'' @ pad_nat 4 (nat n), od_strategy_id = ''ema'',
      od_execution_mode = PAPER, od_status = FILLED, od_updated_at = day_time n,
      od_broker_order_id = None, od_filled_quantity = 75, od_average_fill_price = Some 100,
      od_rejection_reason = None, od_fills = []\<rparr>"

definition day_fill :: "int \<Rightarrow> money \<Rightarrow> fill" where
  "day_fill n price =
     \<lparr>fl_correlation_id = ''p_io_ema_'' @ pad_nat 4 (nat n), fl_broker_fill_id = ''f'' @ pad_nat 6 (nat n),
      fl_strategy_id = ''ema'', fl_execution_mode = PAPER, fl_quantity = 75, fl_price = price,
      fl_filled_at = day_time n, fl_reference_price = None, fl_slippage_amount = None,
      fl_latency_ms = None, fl_fill_method = None, fl_charges = 20, fl_latency_applied = Some False,
      fl_quote_bid = None, fl_quote_ask = None, fl_quote_age_ms = None\<rparr>"

definition day_apply :: "nat \<Rightarrow> side \<Rightarrow> money \<Rightarrow> db \<Rightarrow> position result \<times> db" where
  "day_apply k s price d =
     apply_fill k ''io'' (day_fill (int k) price) FILLED ''CE'' ''42'' s ''2026-08-03'' None None None
       (day_time (int k)) d"

definition day_submitted :: "nat \<Rightarrow> side \<Rightarrow> db \<Rightarrow> db" where
  "day_submitted k s d =
     snd (record_submission k (day_order (int k)) ''io'' (day_time (int k))
       (snd (reserve_intent 1 (day_intent (int k) s) d)))"

definition day_start :: db where
  "day_start = snd (open_session ''io'' (Some ''ema'') PAPER ''worker'' 1 None (day_time 0) empty_db)"

fun day_trades :: "nat \<Rightarrow> (side \<times> money) list \<Rightarrow> db \<Rightarrow> db" where
  "day_trades k [] d = d"
| "day_trades k ((s, price) # ts) d = day_trades (k + 1) ts (snd (day_apply k s price (day_submitted k s d)))"

lemma reach_session: "repo_reach d \<Longrightarrow> repo_reach (snd (open_session a b m r p f now d))"
  by (rule reach_step, assumption, rule rs_open, rule prod.collapse [symmetric])

lemma reach_reserve: "repo_reach d \<Longrightarrow> repo_reach (snd (reserve_intent k i d))"
  by (rule reach_step, assumption, rule rs_reserve, rule prod.collapse [symmetric])

lemma reach_submission: "repo_reach d \<Longrightarrow> repo_reach (snd (record_submission k ord a now d))"
  by (rule reach_step, assumption, rule rs_submission, rule prod.collapse [symmetric])

lemma reach_fill:
  "repo_reach d \<Longrightarrow> repo_reach (snd (apply_fill k a fl status ins sid s td stop target lc now d))"
  by (rule reach_step, assumption, rule rs_fill, rule prod.collapse [symmetric])

lemma day_start_reach: "repo_reach day_start"
  unfolding day_start_def by (intro reach_session reach_empty)

lemma day_submitted_reach: "repo_reach d \<Longrightarrow> repo_reach (day_submitted k s d)"
  unfolding day_submitted_def by (intro reach_submission reach_reserve)

lemma day_apply_reach: "repo_reach d \<Longrightarrow> repo_reach (snd (day_apply k s price d))"
  unfolding day_apply_def by (rule reach_fill)

lemma day_trades_reach: "repo_reach d \<Longrightarrow> repo_reach (day_trades k ts d)"
  by (induction k ts d rule: day_trades.induct) (simp_all add: day_apply_reach day_submitted_reach)

definition day_one :: "position result \<times> db" where
  "day_one = day_apply 1 BUY 100 (day_submitted 1 BUY day_start)"

lemma day_one_ok: "\<not> isl (fst day_one)"
  by code_simp

lemma day_one_run:
  "apply_fill 1 ''io'' (day_fill 1 100) FILLED ''CE'' ''42'' BUY ''2026-08-03'' None None None
     (day_time 1) (day_submitted 1 BUY day_start) = (Inr (projr (fst day_one)), snd day_one)"
  using day_one_ok by (cases day_one; cases "fst day_one") (auto simp: day_one_def day_apply_def)

lemma day_round_trips_reach: "repo_reach (day_trades 1 ts day_start)"
  by (rule day_trades_reach [OF day_start_reach])

section \<open>Properties\<close>

text \<open>C4: in every database the repository's operations can produce, in any order and with
  failures among them, the day's running realised profit of a strategy is the
  sum of the realised profits of its positions of that day.\<close>

theorem daily_pnl_is_sum_of_positions:
  assumes "repo_reach d" "load_strategy_state strategy_id mode trading_date d = Some row"
  shows "st_daily_realised_pnl row =
    (\<Sum>r\<leftarrow>select_rows (\<lambda>r. position_day r = (strategy_id, mode, trading_date)) (db_positions d).
        ps_realised_pnl (pr_position r))"
proof -
  have "day_recorded (strategy_id, mode, trading_date) d = day_realised (strategy_id, mode, trading_date) d"
    using repo_reach_inv [OF assms(1)] unfolding db_inv_def pnl_ok_def by blast
  with assms(2) show ?thesis
    by (simp add: day_recorded_def load_strategy_state_def day_realised_def sum_rows_def)
qed

theorem daily_pnl_is_sum_of_positions_witness:
  "\<exists>row. load_strategy_state ''ema'' PAPER ''2026-08-03'' (day_trades 1 [(BUY, 100), (SELL, 110)] day_start)
       = Some row
     \<and> st_daily_realised_pnl row =
        (\<Sum>r\<leftarrow>select_rows (\<lambda>r. position_day r = (''ema'', PAPER, ''2026-08-03''))
               (db_positions (day_trades 1 [(BUY, 100), (SELL, 110)] day_start)).
            ps_realised_pnl (pr_position r))"
proof -
  have "load_strategy_state ''ema'' PAPER ''2026-08-03'' (day_trades 1 [(BUY, 100), (SELL, 110)] day_start)
      \<noteq> None" by code_simp
  with daily_pnl_is_sum_of_positions [OF day_round_trips_reach] show ?thesis by blast
qed

lemma apply_fill_position:
  assumes inv: "db_inv d"
    and a: "apply_fill k rt f status ins sid s td stop target lc now d = (Inr p, d')"
  shows "row_exists (\<lambda>r. fill_key r = (k, fl_broker_fill_id f)) (db_fills d')
    \<and> read_position (fl_strategy_id f) (fl_execution_mode f) td sid d' = Some p"
proof (cases "row_exists (\<lambda>r. fill_key r = (k, fl_broker_fill_id f)) (db_fills d)")
  case True
  with a show ?thesis by (auto simp: apply_fill_alt split: option.splits)
next
  case False
  let ?d3 = "before_position k rt f status now d"
  have g: "id_exists k (db_orders d)" "0 < fl_quantity f"
    using a False by (auto simp: apply_fill_alt split: if_splits)
  have "unique_key position_key (db_positions ?d3)"
    using before_position_keys [OF inv g False] by (simp add: keys_ok_def)
  from upsert_position_spec [OF this, of rt f ins sid s td stop target now]
  obtain p' delta ps where u: "upsert_position rt f ins sid s td stop target now ?d3 = (Inr (p', delta), ps)"
    "read_position (fl_strategy_id f) (fl_execution_mode f) td sid ps = Some p'"
    "ps = ?d3\<lparr>db_positions := db_positions ps, db_last_rowid := db_last_rowid ps\<rparr>" by blast
  have d': "p' = p" "d' = touch_strategy_state rt (fl_strategy_id f) (fl_execution_mode f) td lc delta now ps"
    using a False g u(1) by (auto simp: apply_fill_alt)
  have fr: "db_positions d' = db_positions ps" "db_fills d' = db_fills ps"
    unfolding d'(2) by (subst touch_frame, simp)+
  have "db_fills ps = insert_row (fill_row_of k rt f) (db_fills d)"
    by (subst u(3)) (simp add: before_position_frame)
  moreover have "fill_key (fill_row_of k rt f) = (k, fl_broker_fill_id f)"
    by (simp add: fill_key_def fill_row_of_def)
  ultimately show ?thesis using fr u(2) d'(1) by (simp add: read_position_def row_exists_list)
qed

text \<open>Replaying a fill that was applied returns the same position and changes nothing,
  whatever status, prices and clock the replay carries.\<close>

theorem apply_fill_idempotent:
  assumes "repo_reach d"
    and "apply_fill k rt f status ins sid s td stop target lc now d = (Inr p, d')"
  shows "apply_fill k rt' f status' ins' sid s' td stop' target' lc' now' d' = (Inr p, d')"
  using apply_fill_position [OF repo_reach_inv [OF assms(1)] assms(2)] by (simp add: apply_fill_alt)

theorem apply_fill_idempotent_witness:
  "apply_fill 1 ''io'' (day_fill 1 100) PARTIALLY_FILLED ''CE'' ''42'' SELL ''2026-08-03'' (Some 5) None None
     (day_time 9) (snd day_one) = (Inr (projr (fst day_one)), snd day_one)"
  by (rule apply_fill_idempotent [OF day_submitted_reach [OF day_start_reach] day_one_run])

text \<open>A first application of a fill leaves the order's row with exactly the sum of its
  recorded fills and their quantity-weighted mean price, the new fill included,
  and the status the broker reported.\<close>

theorem apply_fill_order_totals:
  assumes "repo_reach d"
    and "apply_fill k rt f status ins sid s td stop target lc now d = (Inr p, d')"
    and "\<not> row_exists (\<lambda>r. fill_key r = (k, fl_broker_fill_id f)) (db_fills d)"
    and "(k, row) \<in> set (tb_rows (db_orders d'))"
  shows "(or_filled_quantity row, or_average_fill_price row) = order_totals k d'
    \<and> fst (order_totals k d') = fst (order_totals k d) + fl_quantity f \<and> or_status row = status"
proof -
  let ?d3 = "before_position k rt f status now d"
  have inv: "db_inv d" using repo_reach_inv [OF assms(1)] .
  have g: "id_exists k (db_orders d)" "0 < fl_quantity f"
    using assms(2,3) by (auto simp: apply_fill_alt split: if_splits)
  have "unique_key position_key (db_positions ?d3)"
    using before_position_keys [OF inv g assms(3)] by (simp add: keys_ok_def)
  from upsert_position_spec [OF this, of rt f ins sid s td stop target now]
  obtain p' delta ps where u: "upsert_position rt f ins sid s td stop target now ?d3 = (Inr (p', delta), ps)"
    "ps = ?d3\<lparr>db_positions := db_positions ps, db_last_rowid := db_last_rowid ps\<rparr>" by blast
  have d': "d' = touch_strategy_state rt (fl_strategy_id f) (fl_execution_mode f) td lc delta now ps"
    using assms(2,3) g u(1) by (auto simp: apply_fill_alt)
  have fr: "db_orders d' = db_orders ?d3" "db_fills d' = db_fills ?d3"
    unfolding d' by (subst touch_frame, simp, subst u(2), simp)+
  have tot: "order_totals k d' = order_totals k (fill_inserted k rt f d)"
    by (simp add: order_totals_def fr before_position_frame fill_inserted_def)
  have "(or_filled_quantity row, or_average_fill_price row) = order_totals k (fill_inserted k rt f d)
      \<and> or_status row = status"
    using assms(4) by (auto simp: fr before_position_frame order_totalled_def update_rows_def)
  moreover have "fst (order_totals k (fill_inserted k rt f d)) = fst (order_totals k d) + fl_quantity f"
    by (simp add: order_totals_def fill_inserted_def select_rows_list Let_def fill_row_of_def)
  ultimately show ?thesis using tot by simp
qed

theorem apply_fill_order_totals_witness:
  "\<exists>row. (1, row) \<in> set (tb_rows (db_orders (snd day_one)))
     \<and> (or_filled_quantity row, or_average_fill_price row) = order_totals 1 (snd day_one)"
proof -
  have f: "\<not> row_exists (\<lambda>r. fill_key r = (1, fl_broker_fill_id (day_fill 1 100)))
      (db_fills (day_submitted 1 BUY day_start))" by code_simp
  have "fst (hd (tb_rows (db_orders (snd day_one)))) = 1" "tb_rows (db_orders (snd day_one)) \<noteq> []"
    by code_simp+
  then have m: "(1, snd (hd (tb_rows (db_orders (snd day_one))))) \<in> set (tb_rows (db_orders (snd day_one)))"
    by (metis list.set_sel(1) prod.collapse)
  from apply_fill_order_totals [OF day_submitted_reach [OF day_start_reach] day_one_run f m] m
  show ?thesis by blast
qed

text \<open>C5: over any sequence of fills of one position none of which crosses through zero, the
  realised profit minus quantity times average price is the cash received minus
  the cash paid; when the position is flat, its realised profit is exactly that
  net cash.\<close>

theorem realised_pnl_is_cash:
  assumes "fills_no_flip s0 fs" "fold_fills (s0, p0, 0) fs = (q, average, realised)"
  shows "q = s0 + (\<Sum>(s, p)\<leftarrow>fs. s)
    \<and> realised = of_int q * average - of_int s0 * p0 - (\<Sum>(s, p)\<leftarrow>fs. of_int s * p)"
  using fold_fills_cash [OF assms] by (auto simp: algebra_simps)

theorem realised_pnl_is_cash_witness:
  "(10500::rat) - 10000 = of_int 0 * 100 - of_int 100 * 100 - ((-50) * 104 + (-50) * 106)"
  using realised_pnl_is_cash [of 100 "[(-50, 104), (-50, 106)]" 100 0 100 500]
  by (simp add: no_flip_def fill_arith_def Let_def)

text \<open>
  A fill that crosses through zero realises the closed part but keeps the old
  average for the part it opens: buying back that part then books a loss that
  never happened, 10 of cash against 0 of realised profit.
\<close>

theorem flip_keeps_old_average:
  "fold_fills (1, 100, 0) [(-2, 110), (1, 110)] = (0, 100, 0)
   \<and> - (1 * 100 + (-2) * 110 + 1 * 110) = (10 :: rat)"
  by (simp add: fill_arith_def Let_def)

lemma fold_max_ge: "\<forall>x \<in> insert m (set xs). x \<le> fold max xs (m :: int)"
proof (induction xs arbitrary: m)
  case (Cons x xs)
  from Cons [of "max x m"] show ?case by fastforce
qed simp

lemma next_sequence_above:
  assumes "r \<in> set (row_list (db_intents d))" "intent_day r = (strategy_id, mode, trading_date)"
  shows "oi_sequence_number (it_intent r) < next_sequence_number strategy_id mode trading_date d"
proof -
  let ?ns = "map (\<lambda>r. oi_sequence_number (it_intent r))
       (select_rows (\<lambda>r. intent_day r = (strategy_id, mode, trading_date)) (db_intents d))"
  have "oi_sequence_number (it_intent r) \<in> set ?ns" using assms by (auto simp: select_rows_list)
  then show ?thesis
    using fold_max_ge by (cases ?ns) (force simp: next_sequence_number_def)+
qed

text \<open>The sequence number the repository proposes for a strategy and day is free: an
  intent carrying it, of a positive quantity, with a new correlation identifier
  and valid references, is always reserved.\<close>

theorem next_sequence_reservable:
  assumes "id_exists session_id (db_sessions d)"
    and "case oi_signal_id intent of None \<Rightarrow> True | Some k \<Rightarrow> id_exists k (db_signals d)"
    and "\<not> row_exists (\<lambda>r. intent_cid r = oi_correlation_id intent) (db_intents d)"
    and "0 < oi_quantity intent"
    and "oi_sequence_number intent
           = next_sequence_number (oi_strategy_id intent) (oi_execution_mode intent) (oi_trading_date intent) d"
  shows "fst (reserve_intent session_id intent d) = Inr (next_id (db_intents d))"
proof -
  have "\<not> row_exists (\<lambda>r. intent_seq_key r = intent_seq_key
      \<lparr>it_session_id = session_id, it_intent = intent, it_namespace = oi_execution_mode intent,
       it_submission_reserved = True\<rparr>) (db_intents d)"
    using next_sequence_above [of _ d] assms(5)
    by (fastforce simp: row_exists_list intent_seq_key_def intent_day_def)
  then show ?thesis using assms(1-4) by (simp add: reserve_intent_def Let_def intent_cid_def)
qed

theorem next_sequence_reservable_witness:
  "fst (reserve_intent 1 (day_intent 2 SELL) (snd day_one)) = Inr (next_id (db_intents (snd day_one)))"
proof (rule next_sequence_reservable)
  show "id_exists 1 (db_sessions (snd day_one))" by code_simp
  show "case oi_signal_id (day_intent 2 SELL) of None \<Rightarrow> True
      | Some k \<Rightarrow> id_exists k (db_signals (snd day_one))" by code_simp
  show "\<not> row_exists (\<lambda>r. intent_cid r = oi_correlation_id (day_intent 2 SELL)) (db_intents (snd day_one))"
    by code_simp
  show "0 < oi_quantity (day_intent 2 SELL)" by code_simp
  show "oi_sequence_number (day_intent 2 SELL)
      = next_sequence_number (oi_strategy_id (day_intent 2 SELL)) (oi_execution_mode (day_intent 2 SELL))
          (oi_trading_date (day_intent 2 SELL)) (snd day_one)" by code_simp
qed

text \<open>
  Two round trips of one contract on one day are one position row: the count of
  closed positions the daily trade limit is restored from is 1.
\<close>

theorem reentry_counts_once:
  "repo_reach (day_trades 1 [(BUY, 100), (SELL, 110), (BUY, 100), (SELL, 90)] day_start)
   \<and> closed_position_count ''ema'' PAPER ''2026-08-03''
       (day_trades 1 [(BUY, 100), (SELL, 110), (BUY, 100), (SELL, 90)] day_start) = 1"
  by (rule conjI, rule day_round_trips_reach, code_simp)

text \<open>
  A re-entered position keeps the charges, the opening time and the entry
  identifier of the earlier round trip: its charges are three legs', not one.
\<close>

theorem reentry_keeps_old_entry:
  "repo_reach (day_trades 1 [(BUY, 100), (SELL, 110), (BUY, 100)] day_start)
   \<and> map (\<lambda>p. (ps_quantity p, ps_charges p, ps_entry_correlation_id p, ps_opened_at p))
       (open_positions ''ema'' PAPER ''2026-08-03''
         (day_trades 1 [(BUY, 100), (SELL, 110), (BUY, 100)] day_start))
       = [(75, 60, Some ''p_io_ema_0001'', day_time 1)]"
  by (rule conjI, rule day_round_trips_reach, code_simp)

text \<open>
  Recording a second answer for one intent reports the connection's last
  inserted row, here the second row of another table, and not the order's.
\<close>

theorem resubmission_reports_other_row:
  "repo_reach (snd day_one)
   \<and> fst (record_submission 1 (day_order 1) ''io'' (day_time 9)
        (record_error ''io'' None None ''ERROR'' ''c'' ''m'' None (day_time 8)
          (record_error ''io'' None None ''ERROR'' ''c'' ''m'' None (day_time 8) (snd day_one)))) = Inr 2
   \<and> map fst (tb_rows (db_orders (snd day_one))) = [1]"
  by (intro conjI, simp only: day_one_def, rule day_apply_reach, rule day_submitted_reach,
      rule day_start_reach, code_simp, code_simp)

end
