(* ===== verification/Costs.thy ===== *)
theory Costs
  imports Models
begin

text \<open>
  common/broker/costs.py: the itemised charges of one leg, from configured
  rates.
\<close>

record cost_rates =
  cr_brokerage_per_order :: money
  cr_exchange_charge_rate :: money
  cr_stt_rate_on_sell :: money
  cr_sebi_charge_rate :: money
  cr_gst_rate :: money
  cr_stamp_duty_rate_on_buy :: money

definition default_cost_rates :: cost_rates where
  "default_cost_rates =
     \<lparr>cr_brokerage_per_order = 20, cr_exchange_charge_rate = 3503 / 10000000,
      cr_stt_rate_on_sell = 625 / 1000000, cr_sebi_charge_rate = 1 / 1000000,
      cr_gst_rate = 18 / 100, cr_stamp_duty_rate_on_buy = 3 / 100000\<rparr>"

record cost_breakdown =
  cb_brokerage :: money
  cb_exchange_charges :: money
  cb_stt :: money
  cb_sebi_charges :: money
  cb_gst :: money
  cb_stamp_duty :: money

definition cost_total :: "cost_breakdown \<Rightarrow> money" where
  "cost_total b =
     py_round 4 (cb_brokerage b + cb_exchange_charges b + cb_stt b + cb_sebi_charges b
                  + cb_gst b + cb_stamp_duty b)"

definition for_leg :: "cost_rates \<Rightarrow> side \<Rightarrow> money \<Rightarrow> int \<Rightarrow> cost_breakdown result" where
  "for_leg r side price quantity =
     (if price \<le> 0 \<or> quantity \<le> 0 then Inl ValueError
      else
        let turnover = price * of_int quantity;
            brokerage = min (cr_brokerage_per_order r) turnover;
            exchange = turnover * cr_exchange_charge_rate r;
            sebi = turnover * cr_sebi_charge_rate r;
            stt = (if side = SELL then turnover * cr_stt_rate_on_sell r else 0);
            stamp = (if side = BUY then turnover * cr_stamp_duty_rate_on_buy r else 0);
            gst = (brokerage + exchange + sebi) * cr_gst_rate r
        in Inr \<lparr>cb_brokerage = py_round 4 brokerage, cb_exchange_charges = py_round 4 exchange,
                cb_stt = py_round 4 stt, cb_sebi_charges = py_round 4 sebi,
                cb_gst = py_round 4 gst, cb_stamp_duty = py_round 4 stamp\<rparr>)"

definition total_for_leg :: "cost_rates \<Rightarrow> side \<Rightarrow> money \<Rightarrow> int \<Rightarrow> money result" where
  "total_for_leg r side price quantity =
     bindE (for_leg r side price quantity) (\<lambda>b. Inr (cost_total b))"

definition rates_ok :: "cost_rates \<Rightarrow> bool" where
  "rates_ok r =
     (0 \<le> cr_brokerage_per_order r \<and> 0 \<le> cr_exchange_charge_rate r \<and> 0 \<le> cr_stt_rate_on_sell r
      \<and> 0 \<le> cr_sebi_charge_rate r \<and> 0 \<le> cr_gst_rate r \<and> 0 \<le> cr_stamp_duty_rate_on_buy r)"

lemma default_rates_ok [simp]: "rates_ok default_cost_rates"
  by (simp add: rates_ok_def default_cost_rates_def)

lemma for_leg_Inl_iff: "for_leg r s p q = Inl e \<longleftrightarrow> (p \<le> 0 \<or> q \<le> 0) \<and> e = ValueError"
  by (auto simp: for_leg_def Let_def)

lemma total_for_leg_Inl_iff: "total_for_leg r s p q = Inl e \<longleftrightarrow> (p \<le> 0 \<or> q \<le> 0) \<and> e = ValueError"
  by (cases "for_leg r s p q") (auto simp: total_for_leg_def for_leg_Inl_iff, auto simp: for_leg_def Let_def)

lemma total_for_leg_returns: "0 < p \<Longrightarrow> 0 < q \<Longrightarrow> \<exists>c. total_for_leg r s p q = Inr c"
  by (cases "total_for_leg r s p q") (auto simp: total_for_leg_Inl_iff)

lemma for_leg_parts_mono:
  assumes "rates_ok r" "0 < p" "p \<le> p'" "0 < q" "q \<le> q'"
    and "for_leg r s p q = Inr b" "for_leg r s p' q' = Inr b'"
  shows "cb_brokerage b \<le> cb_brokerage b'" "cb_exchange_charges b \<le> cb_exchange_charges b'"
    "cb_stt b \<le> cb_stt b'" "cb_sebi_charges b \<le> cb_sebi_charges b'"
    "cb_gst b \<le> cb_gst b'" "cb_stamp_duty b \<le> cb_stamp_duty b'"
proof -
  have t: "p * of_int q \<le> p' * of_int q'" "0 \<le> p * of_int q"
    using assms by (auto intro: mult_mono)
  have m: "p * of_int q * k \<le> p' * of_int q' * k" if "0 \<le> k" for k :: rat
    using t(1) that by (rule mult_right_mono)
  note b = assms(6,7) [unfolded for_leg_def Let_def]
  note r = assms(1) [unfolded rates_ok_def]
  show "cb_brokerage b \<le> cb_brokerage b'"
    using b assms t by (auto intro!: py_round_mono split: if_splits)
  show "cb_exchange_charges b \<le> cb_exchange_charges b'" "cb_sebi_charges b \<le> cb_sebi_charges b'"
    "cb_stt b \<le> cb_stt b'" "cb_stamp_duty b \<le> cb_stamp_duty b'"
    using b assms r m by (auto intro!: py_round_mono split: if_splits)
  have "(min (cr_brokerage_per_order r) (p * of_int q) + p * of_int q * cr_exchange_charge_rate r
            + p * of_int q * cr_sebi_charge_rate r) * cr_gst_rate r
        \<le> (min (cr_brokerage_per_order r) (p' * of_int q') + p' * of_int q' * cr_exchange_charge_rate r
            + p' * of_int q' * cr_sebi_charge_rate r) * cr_gst_rate r"
    using t r m by (intro mult_right_mono add_mono min.mono) auto
  then show "cb_gst b \<le> cb_gst b'"
    using b assms by (auto intro!: py_round_mono split: if_splits)
qed

lemma total_for_leg_nonneg:
  assumes "rates_ok r" "total_for_leg r s p q = Inr c"
  shows "0 \<le> c"
proof -
  obtain b where b: "for_leg r s p q = Inr b" "c = cost_total b"
    using assms(2) by (auto simp: total_for_leg_def bindE_Inr)
  have pos: "0 < p" "0 < q" using b(1) by (auto simp: for_leg_def split: if_splits)
  have "0 \<le> cb_brokerage b" "0 \<le> cb_exchange_charges b" "0 \<le> cb_stt b" "0 \<le> cb_sebi_charges b"
    "0 \<le> cb_gst b" "0 \<le> cb_stamp_duty b"
    using b(1) assms(1) pos by (auto simp: for_leg_def Let_def rates_ok_def intro!: py_round_nonneg)
  then show ?thesis by (simp add: b(2) cost_total_def py_round_nonneg)
qed

text \<open>With non-negative rates the charge of a leg is defined for every positive
  price and quantity, is never negative, and never falls when the price or the
  quantity grows, rounding included.\<close>

theorem charges_monotone:
  assumes "rates_ok r" "0 < p" "p \<le> p'" "0 < q" "q \<le> q'"
  shows "\<exists>c c'. total_for_leg r s p q = Inr c \<and> total_for_leg r s p' q' = Inr c' \<and> 0 \<le> c \<and> c \<le> c'"
proof -
  obtain c where c: "total_for_leg r s p q = Inr c" using total_for_leg_returns assms by blast
  obtain c' where c': "total_for_leg r s p' q' = Inr c'"
    using total_for_leg_returns [of p' q'] assms by auto
  obtain b b' where b: "for_leg r s p q = Inr b" "for_leg r s p' q' = Inr b'"
    "c = cost_total b" "c' = cost_total b'"
    using c c' by (auto simp: total_for_leg_def bindE_Inr)
  note m = for_leg_parts_mono [OF assms b(1,2)]
  have "c \<le> c'" unfolding b(3,4) cost_total_def
    by (intro py_round_mono add_mono m)
  with c c' total_for_leg_nonneg [OF assms(1) c] show ?thesis by blast
qed

theorem charges_monotone_witness:
  "\<exists>c c'. total_for_leg default_cost_rates SELL 100 75 = Inr c
     \<and> total_for_leg default_cost_rates SELL 120 150 = Inr c' \<and> 0 \<le> c \<and> c \<le> c'"
  using charges_monotone [of default_cost_rates 100 120 75 150 SELL] by simp

end
