(* ===== verification/Quotes.thy ===== *)
theory Quotes
  imports Models
begin

text \<open>
  common/broker/base.py (Quote) and common/broker/quotes.py (QuoteBook): the
  recent quotes of each instrument, oldest first, in a deque bounded by the
  book's depth.
\<close>

record quote =
  qt_security_id :: string
  qt_last_price :: money
  qt_quoted_at :: datetime
  qt_bid :: "money option"
  qt_ask :: "money option"

definition has_depth :: "quote \<Rightarrow> bool" where
  "has_depth q = (qt_bid q \<noteq> None \<and> qt_ask q \<noteq> None)"

definition default_depth :: nat where "default_depth = 64"

record quote_book =
  qb_depth :: nat
  qb_quotes :: "(string, quote list) dict"
  qb_recorded :: nat

definition new_quote_book :: "int \<Rightarrow> quote_book result" where
  "new_quote_book depth =
     (if depth < 1 then Inl ValueError
      else Inr \<lparr>qb_depth = nat depth, qb_quotes = [], qb_recorded = 0\<rparr>)"

definition quote_from_tick :: "tick \<Rightarrow> quote" where
  "quote_from_tick t =
     \<lparr>qt_security_id = tk_security_id t, qt_last_price = tk_last_price t,
      qt_quoted_at = tk_exchange_time t, qt_bid = tk_bid_price t, qt_ask = tk_ask_price t\<rparr>"

definition record_tick :: "tick \<Rightarrow> quote_book \<Rightarrow> quote_book" where
  "record_tick t b =
     (let sid = tk_security_id t;
          quotes = (case dict_get (qb_quotes b) sid of None \<Rightarrow> [] | Some qs \<Rightarrow> qs)
      in b\<lparr>qb_quotes := dict_set sid (deque_append (qb_depth b) quotes (quote_from_tick t)) (qb_quotes b),
           qb_recorded := qb_recorded b + 1\<rparr>)"

definition latest :: "quote_book \<Rightarrow> string \<Rightarrow> quote option" where
  "latest b sid =
     (case dict_get (qb_quotes b) sid of
        None \<Rightarrow> None
      | Some qs \<Rightarrow> if qs = [] then None else Some (last qs))"

definition quote_after :: "quote_book \<Rightarrow> string \<Rightarrow> datetime \<Rightarrow> quote option" where
  "quote_after b sid deadline =
     (case dict_get (qb_quotes b) sid of
        None \<Rightarrow> None
      | Some qs \<Rightarrow> find (\<lambda>q. deadline \<le> qt_quoted_at q) qs)"

definition instruments :: "quote_book \<Rightarrow> string set" where
  "instruments b = fst ` set (filter (\<lambda>(sid, qs). qs \<noteq> []) (qb_quotes b))"

section \<open>Invariant\<close>

definition book_inv :: "quote_book \<Rightarrow> bool" where
  "book_inv b =
     (1 \<le> qb_depth b
      \<and> (\<forall>sid qs. dict_get (qb_quotes b) sid = Some qs \<longrightarrow>
           qs \<noteq> [] \<and> length qs \<le> qb_depth b \<and> (\<forall>q \<in> set qs. qt_security_id q = sid)))"

lemma new_quote_book_inv: "new_quote_book d = Inr b \<Longrightarrow> book_inv b"
  by (auto simp: new_quote_book_def book_inv_def split: if_splits)

lemma quote_from_tick_sid [simp]: "qt_security_id (quote_from_tick t) = tk_security_id t"
  by (simp add: quote_from_tick_def)

lemma record_tick_get:
  "dict_get (qb_quotes (record_tick t b)) sid =
     (if sid = tk_security_id t
      then Some (deque_append (qb_depth b)
             (case dict_get (qb_quotes b) sid of None \<Rightarrow> [] | Some qs \<Rightarrow> qs) (quote_from_tick t))
      else dict_get (qb_quotes b) sid)"
  by (auto simp: record_tick_def Let_def)

lemma record_tick_depth [simp]: "qb_depth (record_tick t b) = qb_depth b"
  by (simp add: record_tick_def Let_def)

lemma deque_step:
  assumes "0 < n" "length xs \<le> n" "\<forall>y \<in> set xs. P y" "P x"
  shows "deque_append n xs x \<noteq> [] \<and> length (deque_append n xs x) \<le> n
    \<and> (\<forall>y \<in> set (deque_append n xs x). P y)"
  using assms deque_append_last [of n xs x] set_deque_append [of n xs x]
    length_deque_append [of xs n x] by blast

lemma record_tick_inv:
  assumes "book_inv b"
  shows "book_inv (record_tick t b)"
proof -
  define old where
    "old = (case dict_get (qb_quotes b) (tk_security_id t) of None \<Rightarrow> [] | Some qs \<Rightarrow> qs)"
  have old: "length old \<le> qb_depth b" "\<forall>q \<in> set old. qt_security_id q = tk_security_id t"
    using assms
    by (cases "dict_get (qb_quotes b) (tk_security_id t)"; simp add: old_def book_inv_def)+
  have "0 < qb_depth b" using assms by (simp add: book_inv_def)
  from deque_step [OF this old, of "quote_from_tick t"] assms show ?thesis
    unfolding book_inv_def by (auto simp: record_tick_get old_def)
qed

lemma latest_record:
  "1 \<le> qb_depth b \<Longrightarrow>
   latest (record_tick t b) sid =
     (if sid = tk_security_id t then Some (quote_from_tick t) else latest b sid)"
  using deque_append_last [of "qb_depth b" "_ :: quote list"] by (auto simp: latest_def record_tick_get)

lemma quote_after_Some:
  "quote_after b sid d = Some q \<Longrightarrow>
     d \<le> qt_quoted_at q \<and> (\<exists>qs. dict_get (qb_quotes b) sid = Some qs \<and> q \<in> set qs)"
  by (auto simp: quote_after_def split: option.splits dest: find_SomeD)

lemma quote_after_sid: "book_inv b \<Longrightarrow> quote_after b sid d = Some q \<Longrightarrow> qt_security_id q = sid"
  by (auto simp: book_inv_def dest!: quote_after_Some)

text \<open>The book after a stream of ticks.\<close>

definition record_ticks :: "tick list \<Rightarrow> quote_book \<Rightarrow> quote_book" where
  "record_ticks ts b = fold record_tick ts b"

lemma record_ticks_inv: "book_inv b \<Longrightarrow> book_inv (record_ticks ts b)"
  by (induction ts arbitrary: b) (simp_all add: record_ticks_def record_tick_inv)

lemma record_ticks_snoc: "record_ticks (ts @ [t]) b = record_tick t (record_ticks ts b)"
  by (simp add: record_ticks_def)

lemma record_ticks_depth [simp]: "qb_depth (record_ticks ts b) = qb_depth b"
  by (induction ts rule: rev_induct) (simp_all add: record_ticks_snoc, simp add: record_ticks_def)

definition last_n :: "nat \<Rightarrow> 'a list \<Rightarrow> 'a list" where
  "last_n n xs = drop (length xs - n) xs"

lemma deque_append_last_n: "deque_append n (last_n n xs) x = last_n n (xs @ [x])"
proof (cases "length xs < n")
  case True
  then show ?thesis by (simp add: deque_append_def last_n_def)
next
  case False
  then have "Suc (length xs) - n = Suc (length xs - n)" by simp
  then show ?thesis using False by (cases n) (simp_all add: deque_append_def last_n_def)
qed

text \<open>What the book is: the last depth quotes of each instrument, in arrival order.\<close>

lemma record_ticks_contents:
  assumes "new_quote_book d = Inr b"
  shows "dict_get (qb_quotes (record_ticks ts b)) sid =
    (let mine = filter (\<lambda>t. tk_security_id t = sid) ts
     in if mine = [] then None else Some (last_n (nat d) (map quote_from_tick mine)))"
proof (induction ts rule: rev_induct)
  case Nil
  then show ?case using assms by (auto simp: record_ticks_def new_quote_book_def split: if_splits)
next
  case (snoc t ts)
  have depth: "qb_depth b = nat d" using assms by (auto simp: new_quote_book_def split: if_splits)
  have e: "last_n (nat d) ([] :: quote list) = []" by (simp add: last_n_def)
  show ?case
    using snoc deque_append_last_n [of "nat d" "[] :: quote list" "quote_from_tick t"]
    by (auto simp: record_ticks_snoc record_tick_get depth Let_def deque_append_last_n e)
qed

lemma last_n_suffix: "\<exists>ys. xs = ys @ last_n n xs"
  by (metis append_take_drop_id last_n_def)

lemma find_sorted_least:
  assumes "sorted_wrt (\<lambda>a b. f a \<le> f b) xs" "find (\<lambda>x. d \<le> f x) xs = Some y"
    and "x \<in> set xs" "d \<le> f x"
  shows "f y \<le> (f x :: 'b :: preorder)"
  using assms by (induction xs) (auto split: if_splits)

text \<open>Fed any stream of ticks, the book holds for each instrument exactly its
  newest quotes up to the depth, oldest first; and when the exchange times of
  the stream never go back, the quote it offers after a deadline is at or after
  the deadline and no retained quote that qualifies is earlier: the latency
  model never looks past the first tradable price.\<close>

theorem quote_after_first:
  assumes "new_quote_book d = Inr b"
    and "sorted_wrt (\<lambda>s t. tk_exchange_time s \<le> tk_exchange_time t) ts"
    and "quote_after (record_ticks ts b) sid deadline = Some q"
  shows "q \<in> set (last_n (nat d) (map quote_from_tick (filter (\<lambda>t. tk_security_id t = sid) ts)))
    \<and> deadline \<le> qt_quoted_at q \<and> qt_security_id q = sid
    \<and> (\<forall>q' \<in> set (last_n (nat d) (map quote_from_tick (filter (\<lambda>t. tk_security_id t = sid) ts))).
          deadline \<le> qt_quoted_at q' \<longrightarrow> qt_quoted_at q \<le> qt_quoted_at q')"
proof -
  let ?qs = "last_n (nat d) (map quote_from_tick (filter (\<lambda>t. tk_security_id t = sid) ts))"
  have get: "dict_get (qb_quotes (record_ticks ts b)) sid = Some ?qs"
    and f: "find (\<lambda>q. deadline \<le> qt_quoted_at q) ?qs = Some q"
    using assms(3) record_ticks_contents [OF assms(1), of ts sid]
    by (auto simp: quote_after_def Let_def split: option.splits if_splits)
  have "sorted_wrt (\<lambda>a b. qt_quoted_at a \<le> qt_quoted_at b)
          (map quote_from_tick (filter (\<lambda>t. tk_security_id t = sid) ts))"
    using assms(2) by (simp add: sorted_wrt_map quote_from_tick_def sorted_wrt_filter)
  then have s: "sorted_wrt (\<lambda>a b. qt_quoted_at a \<le> qt_quoted_at b) ?qs"
    by (simp add: last_n_def sorted_wrt_drop)
  show ?thesis
    using find_SomeD [OF f] find_sorted_least [OF s f]
      quote_after_sid [OF record_ticks_inv [OF new_quote_book_inv [OF assms(1)]] assms(3)] by blast
qed

definition example_tick :: "money \<Rightarrow> int \<Rightarrow> tick" where
  "example_tick p s =
     \<lparr>tk_security_id = ''42'', tk_instrument = ''NIFTY'', tk_last_price = p,
      tk_exchange_time = DT (s * second) (Some ist), tk_received_at = DT (s * second) (Some ist),
      tk_last_quantity = 0, tk_bid_price = None, tk_ask_price = None, tk_sequence = None\<rparr>"

definition example_book :: quote_book where
  "example_book = \<lparr>qb_depth = 2, qb_quotes = [], qb_recorded = 0\<rparr>"

definition example_ticks :: "tick list" where
  "example_ticks = [example_tick 100 1, example_tick 101 2, example_tick 102 3]"

lemma example_book_new: "new_quote_book 2 = Inr example_book"
  by (simp add: new_quote_book_def example_book_def)

lemma example_ticks_sorted: "sorted_wrt (\<lambda>s t. tk_exchange_time s \<le> tk_exchange_time t) example_ticks"
  by code_simp

lemma example_after:
  "quote_after (record_ticks example_ticks example_book) ''42'' (DT (2 * second) (Some ist))
     = Some (quote_from_tick (example_tick 101 2))"
  by code_simp

theorem quote_after_first_witness:
  "DT (2 * second) (Some ist) \<le> qt_quoted_at (quote_from_tick (example_tick 101 2))
   \<and> qt_security_id (quote_from_tick (example_tick 101 2)) = ''42''"
  using quote_after_first [OF example_book_new example_ticks_sorted example_after] by blast

end
