(* ===== verification/Broker_Contract.thy ===== *)
theory Broker_Contract
  imports Quotes
begin

text \<open>
  The Broker protocol of common/broker/base.py as an interface: submission
  that is idempotent on the correlation identifier and lookup by it.  The laws
  are the ones its documentation promises and execution code relies on; the
  paper broker is an instance.
\<close>

locale broker =
  fixes submit :: "order_intent \<Rightarrow> quote \<Rightarrow> 's \<Rightarrow> order result \<times> 's"
    and lookup :: "'s \<Rightarrow> string \<Rightarrow> order option"
    and inv :: "'s \<Rightarrow> bool"
  assumes submit_inv: "inv s \<Longrightarrow> submit i q s = (r, s') \<Longrightarrow> inv s'"
    and submit_accepted: "inv s \<Longrightarrow> submit i q s = (Inr ord, s') \<Longrightarrow>
        lookup s (oi_correlation_id i) = None
        \<and> lookup s' (oi_correlation_id i) = Some ord
        \<and> od_correlation_id ord = oi_correlation_id i
        \<and> (\<forall>cid. cid \<noteq> oi_correlation_id i \<longrightarrow> lookup s' cid = lookup s cid)"
    and submit_refused: "inv s \<Longrightarrow> submit i q s = (Inl e, s') \<Longrightarrow> lookup s' = lookup s"
begin

text \<open>Known orders stay known, and no later submission changes them.\<close>

lemma lookup_stable:
  assumes "inv s" "submit i q s = (r, s')" "lookup s cid = Some ord"
  shows "lookup s' cid = Some ord"
proof (cases r)
  case (Inl e)
  with assms submit_refused show ?thesis by metis
next
  case (Inr o')
  with assms submit_accepted [of s i q o' s'] show ?thesis by (cases "cid = oi_correlation_id i") auto
qed

lemma duplicate_refused:
  assumes "inv s" "lookup s (oi_correlation_id i) = Some ord"
  shows "\<exists>e s'. submit i q s = (Inl e, s') \<and> lookup s' = lookup s"
proof (cases "submit i q s")
  case (Pair r s')
  then show ?thesis
    using assms submit_accepted [of s i q _ s'] submit_refused [of s i q _ s'] by (cases r) auto
qed

text \<open>A retry loop: submitting a list of intents one after the other.\<close>

fun submit_all :: "(order_intent \<times> quote) list \<Rightarrow> 's \<Rightarrow> (string \<times> order) list \<times> 's" where
  "submit_all [] s = ([], s)"
| "submit_all ((i, q) # rest) s =
     (case submit i q s of
        (Inl e, s1) \<Rightarrow> submit_all rest s1
      | (Inr ord, s1) \<Rightarrow> (let (os, s2) = submit_all rest s1 in ((oi_correlation_id i, ord) # os, s2)))"

lemma submit_all_spec:
  assumes "inv s" "submit_all iqs s = (os, s')"
  shows "inv s' \<and> distinct (map fst os)
    \<and> (\<forall>(cid, ord) \<in> set os. lookup s cid = None \<and> lookup s' cid = Some ord)
    \<and> (\<forall>cid ord. lookup s cid = Some ord \<longrightarrow> lookup s' cid = Some ord)"
  using assms
proof (induction iqs arbitrary: s os)
  case Nil
  then show ?case by auto
next
  case (Cons iq iqs)
  obtain i q where iq: "iq = (i, q)" by fastforce
  obtain r s1 where sub: "submit i q s = (r, s1)" by fastforce
  have inv1: "inv s1" using submit_inv [OF Cons(2) sub] .
  show ?case
  proof (cases r)
    case (Inl e)
    with Cons(3) iq sub have "submit_all iqs s1 = (os, s')" by simp
    from Cons(1) [OF inv1 this] submit_refused [OF Cons(2) sub [unfolded Inl]] show ?thesis by simp
  next
    case (Inr ord)
    note acc = submit_accepted [OF Cons(2) sub [unfolded Inr]]
    obtain os1 where l: "submit_all iqs s1 = (os1, s')" "os = (oi_correlation_id i, ord) # os1"
      using Cons(3) iq sub Inr by (auto split: prod.splits)
    note ih = Cons(1) [OF inv1 l(1)]
    have "oi_correlation_id i \<notin> fst ` set os1" using ih acc by fastforce
    moreover have "lookup s cid = None" if "(cid, o') \<in> set os1" for cid o'
      using ih acc that by (cases "cid = oi_correlation_id i") auto
    moreover have "lookup s' cid = Some o'" if "lookup s cid = Some o'" for cid o'
      using ih that lookup_stable [OF Cons(2) sub that] by blast
    ultimately show ?thesis using ih acc l(2) by auto
  qed
qed

text \<open>However often an identifier is retried, at most one order comes of it.\<close>

lemma one_order_per_id:
  assumes "inv s" "submit_all iqs s = (os, s')" "(cid, o1) \<in> set os" "(cid, o2) \<in> set os"
  shows "o1 = o2"
  using submit_all_spec [OF assms(1,2)] assms(3,4) eq_key_imp_eq_value by fast

end

end
