(* ===== verification/Paper_Broker.thy ===== *)
theory Paper_Broker
  imports Costs Broker_Contract
begin

text \<open>
  common/broker/paper.py: the deterministic order simulator.  The quote book is
  shared with the order lifecycle, so the operations take it as an argument;
  the clock reading of an operation is its argument now, one instant for all
  the readings inside one call.  An operation that may raise returns a result
  together with the broker it leaves behind, because the counters move before
  the raise.
\<close>

section \<open>Configuration\<close>

definition tick_epsilon :: rat where "tick_epsilon = 1 / 10 ^ 9"

record instrument_rules =
  ir_lot_size :: "int option"
  ir_tick_size :: "money option"
  ir_max_quantity :: "int option"

definition no_rules :: instrument_rules where
  "no_rules = \<lparr>ir_lot_size = None, ir_tick_size = None, ir_max_quantity = None\<rparr>"

record slippage_config =
  sl_mode :: string
  sl_market_order_ticks :: rat
  sl_market_order_points :: rat
  sl_market_order_bps :: rat

definition default_slippage :: slippage_config where
  "default_slippage =
     \<lparr>sl_mode = ''ticks'', sl_market_order_ticks = 1, sl_market_order_points = 5 / 100,
      sl_market_order_bps = 2\<rparr>"

definition new_slippage_config :: "slippage_config \<Rightarrow> slippage_config result" where
  "new_slippage_config c =
     bindE (check (sl_mode c \<in> {''ticks'', ''points'', ''basis_points''}) ValueError) (\<lambda>_.
     bindE (check (0 \<le> sl_market_order_ticks c \<and> 0 \<le> sl_market_order_points c
                    \<and> 0 \<le> sl_market_order_bps c) ValueError) (\<lambda>_. Inr c))"

definition slippage_amount :: "slippage_config \<Rightarrow> money \<Rightarrow> money option \<Rightarrow> money result" where
  "slippage_amount c base_price tick_size =
     (if sl_mode c = ''points'' then Inr (sl_market_order_points c)
      else if sl_mode c = ''basis_points'' then Inr (base_price * sl_market_order_bps c / 10000)
      else case tick_size of
             None \<Rightarrow> Inl (PaperRejection INVALID_TICK_PRICE)
           | Some t \<Rightarrow> Inr (sl_market_order_ticks c * t))"

record paper_fill_config =
  pf_slippage :: slippage_config
  pf_submission_latency_ms :: int
  pf_max_quote_age_ms :: "int option"
  pf_tick_size :: "money option"
  pf_allow_ltp_fallback :: bool
  pf_ltp_fallback_extra_ticks :: rat
  pf_reject_when_market_closed :: bool
  pf_reject_correlation_ids :: "string list"

definition default_fill_config :: paper_fill_config where
  "default_fill_config =
     \<lparr>pf_slippage = default_slippage, pf_submission_latency_ms = 250, pf_max_quote_age_ms = None,
      pf_tick_size = Some (5 / 100), pf_allow_ltp_fallback = True, pf_ltp_fallback_extra_ticks = 1,
      pf_reject_when_market_closed = False, pf_reject_correlation_ids = []\<rparr>"

definition new_paper_fill_config :: "paper_fill_config \<Rightarrow> paper_fill_config result" where
  "new_paper_fill_config c =
     bindE (check (\<not> pf_submission_latency_ms c < 0) ValueError) (\<lambda>_.
     bindE (check (\<not> opt_holds (\<lambda>a. a \<le> 0) (pf_max_quote_age_ms c)) ValueError) (\<lambda>_.
     bindE (check (\<not> opt_holds (\<lambda>t. t \<le> 0) (pf_tick_size c)) ValueError) (\<lambda>_.
     bindE (check (\<not> pf_ltp_fallback_extra_ticks c < 0) ValueError) (\<lambda>_. Inr c))))"

section \<open>The broker\<close>

record working_order =
  wo_intent :: order_intent
  wo_submitted_at :: datetime
  wo_eligible_at :: datetime

record paper_broker =
  pb_config :: paper_fill_config
  pb_charges :: cost_rates
  pb_instrument_rules :: "(string \<Rightarrow> instrument_rules option) option"
  pb_is_market_open :: "(datetime \<Rightarrow> bool) option"
  pb_fill_quantity_policy :: "order_intent \<Rightarrow> quote \<Rightarrow> int list"
  pb_orders :: "(string, order) dict"
  pb_working :: "(string, working_order) dict"
  pb_fill_sequence :: nat
  pb_latency_not_applied :: nat
  pb_rejections :: "(rejection_code, nat) dict"

definition whole_quantity :: "order_intent \<Rightarrow> quote \<Rightarrow> int list" where
  "whole_quantity intent q = [oi_quantity intent]"

definition new_paper_broker ::
  "paper_fill_config \<Rightarrow> cost_rates \<Rightarrow> (string \<Rightarrow> instrument_rules option) option
    \<Rightarrow> (datetime \<Rightarrow> bool) option \<Rightarrow> (order_intent \<Rightarrow> quote \<Rightarrow> int list) \<Rightarrow> paper_broker" where
  "new_paper_broker config charges rules is_open policy =
     \<lparr>pb_config = config, pb_charges = charges, pb_instrument_rules = rules,
      pb_is_market_open = is_open, pb_fill_quantity_policy = policy, pb_orders = [],
      pb_working = [], pb_fill_sequence = 1, pb_latency_not_applied = 0, pb_rejections = []\<rparr>"

definition order_by_correlation_id :: "paper_broker \<Rightarrow> string \<Rightarrow> order option" where
  "order_by_correlation_id b cid = dict_get (pb_orders b) cid"

definition working_orders :: "paper_broker \<Rightarrow> string list" where
  "working_orders b = map fst (pb_working b)"

definition refuse :: "rejection_code \<Rightarrow> paper_broker \<Rightarrow> 'a result \<times> paper_broker" where
  "refuse code b =
     (Inl (PaperRejection code),
      b\<lparr>pb_rejections := dict_set code
           (case dict_get (pb_rejections b) code of None \<Rightarrow> 1 | Some n \<Rightarrow> n + 1) (pb_rejections b)\<rparr>)"

section \<open>Validation\<close>

definition age_ms :: "datetime \<Rightarrow> quote \<Rightarrow> rat option" where
  "age_ms now q =
     (let age = of_int (dt_diff now (qt_quoted_at q)) / 1000 in if 0 \<le> age then Some age else None)"

definition rules_for :: "paper_broker \<Rightarrow> string \<Rightarrow> instrument_rules result" where
  "rules_for b sid =
     (case pb_instrument_rules b of
        None \<Rightarrow> Inr no_rules
      | Some lookup \<Rightarrow>
          (case lookup sid of
             None \<Rightarrow> Inl (PaperRejection INVALID_INSTRUMENT)
           | Some rules \<Rightarrow> Inr rules))"

definition tick_for :: "paper_broker \<Rightarrow> instrument_rules \<Rightarrow> money option" where
  "tick_for b rules =
     (case ir_tick_size rules of None \<Rightarrow> pf_tick_size (pb_config b) | Some t \<Rightarrow> Some t)"

definition check_quantity :: "order_intent \<Rightarrow> instrument_rules \<Rightarrow> unit result" where
  "check_quantity intent rules =
     bindE (check (\<not> oi_quantity intent \<le> 0) (PaperRejection INVALID_QUANTITY)) (\<lambda>_.
     bindE (case ir_lot_size rules of
              None \<Rightarrow> Inr ()
            | Some lot \<Rightarrow>
                if lot = 0 then Inl ZeroDivisionError
                else check (oi_quantity intent mod lot = 0) (PaperRejection INVALID_QUANTITY)) (\<lambda>_.
     check (\<not> opt_holds (\<lambda>m. m < oi_quantity intent) (ir_max_quantity rules))
       (PaperRejection INVALID_QUANTITY)))"

definition check_limit_price :: "order_intent \<Rightarrow> money option \<Rightarrow> unit result" where
  "check_limit_price intent tick =
     (if oi_order_type intent \<noteq> LIMIT then Inr ()
      else case oi_limit_price intent of
        None \<Rightarrow> Inl (PaperRejection INVALID_TICK_PRICE)
      | Some limit \<Rightarrow>
          if limit \<le> 0 then Inl (PaperRejection INVALID_TICK_PRICE)
          else case tick of
            None \<Rightarrow> Inr ()
          | Some t \<Rightarrow>
              if t = 0 then Inl ZeroDivisionError
              else let steps = limit / t in
                check (\<not> tick_epsilon * max 1 \<bar>steps\<bar> < \<bar>steps - of_int (round_int steps)\<bar>)
                  (PaperRejection INVALID_TICK_PRICE))"

definition check_freshness :: "paper_broker \<Rightarrow> datetime \<Rightarrow> quote \<Rightarrow> unit result" where
  "check_freshness b now q =
     (case pf_max_quote_age_ms (pb_config b) of
        None \<Rightarrow> Inr ()
      | Some max_age \<Rightarrow>
          check (\<not> opt_holds (\<lambda>a. of_int max_age < a) (age_ms now q)) (PaperRejection STALE_QUOTE))"

definition check_session :: "paper_broker \<Rightarrow> quote \<Rightarrow> unit result" where
  "check_session b q =
     (if \<not> pf_reject_when_market_closed (pb_config b) then Inr ()
      else case pb_is_market_open b of
             None \<Rightarrow> Inr ()
           | Some is_market_open \<Rightarrow>
               check (is_market_open (qt_quoted_at q)) (PaperRejection MARKET_CLOSED))"

definition validate_checks ::
  "datetime \<Rightarrow> order_intent \<Rightarrow> quote \<Rightarrow> paper_broker \<Rightarrow> instrument_rules result" where
  "validate_checks now intent q b =
     bindE (check (dict_get (pb_orders b) (oi_correlation_id intent) = None)
              (PaperRejection DUPLICATE_CORRELATION_ID)) (\<lambda>_.
     bindE (check (oi_correlation_id intent \<notin> set (pf_reject_correlation_ids (pb_config b)))
              (PaperRejection INJECTED_FAILURE)) (\<lambda>_.
     bindE (check (oi_risk_decision intent = ALLOWED) (PaperRejection RISK_BLOCKED)) (\<lambda>_.
     bindE (check (qt_security_id q = oi_security_id intent)
              (PaperRejection INVALID_INSTRUMENT)) (\<lambda>_.
     bindE (rules_for b (oi_security_id intent)) (\<lambda>rules.
     bindE (check_quantity intent rules) (\<lambda>_.
     bindE (check_limit_price intent (tick_for b rules)) (\<lambda>_.
     bindE (check_freshness b now q) (\<lambda>_.
     bindE (check_session b q) (\<lambda>_.
     bindE (check (has_depth q \<or> pf_allow_ltp_fallback (pb_config b)) (PaperRejection NO_DEPTH)) (\<lambda>_.
     Inr rules))))))))))"

text \<open>Every rejection of the validation goes through the counting helper.\<close>

definition validate ::
  "datetime \<Rightarrow> order_intent \<Rightarrow> quote \<Rightarrow> paper_broker \<Rightarrow> instrument_rules result \<times> paper_broker" where
  "validate now intent q b =
     (case validate_checks now intent q b of
        Inl (PaperRejection code) \<Rightarrow> refuse code b
      | Inl e \<Rightarrow> (Inl e, b)
      | Inr rules \<Rightarrow> (Inr rules, b))"

section \<open>Pricing\<close>

definition select_quote :: "quote_book option \<Rightarrow> paper_broker \<Rightarrow> quote \<Rightarrow> quote \<times> bool" where
  "select_quote qb b submission =
     (let latency_ms = pf_submission_latency_ms (pb_config b) in
      case qb of
        None \<Rightarrow> (submission, False)
      | Some book \<Rightarrow>
          if latency_ms \<le> 0 then (submission, False)
          else case quote_after book (qt_security_id submission)
                      (dt_add (qt_quoted_at submission) (latency_ms * 1000)) of
                 None \<Rightarrow> (submission, False)
               | Some later \<Rightarrow> (later, True))"

definition round_to_tick :: "money \<Rightarrow> money \<Rightarrow> side \<Rightarrow> money" where
  "round_to_tick price tick s =
     (let steps = price / tick;
          whole = (if s = BUY then \<lceil>steps - tick_epsilon\<rceil> else \<lfloor>steps + tick_epsilon\<rfloor>)
      in py_round 6 (of_int whole * tick))"

definition market_price ::
  "side \<Rightarrow> quote \<Rightarrow> instrument_rules \<Rightarrow> paper_broker \<Rightarrow> (money \<times> string) result \<times> paper_broker" where
  "market_price s q rules b =
     (let tick = tick_for b rules;
          priced = (\<lambda>base method extra.
            case slippage_amount (pf_slippage (pb_config b)) base tick of
              Inl e \<Rightarrow> (Inl e, b)
            | Inr amount \<Rightarrow>
                let slippage = amount + extra;
                    price = (if s = BUY then base + slippage else base - slippage)
                in (case tick of
                      Some t \<Rightarrow>
                        if t = 0 then (Inl ZeroDivisionError, b)
                        else let p = round_to_tick price t s in
                          if p \<le> 0 then refuse INVALID_TICK_PRICE b else (Inr (py_round 4 p, method), b)
                    | None \<Rightarrow>
                        if price \<le> 0 then refuse INVALID_TICK_PRICE b
                        else (Inr (py_round 4 price, method), b)))
      in case (qt_bid q, qt_ask q) of
           (Some bid, Some ask) \<Rightarrow> priced (if s = BUY then ask else bid) ''bid_ask'' 0
         | _ \<Rightarrow>
             if \<not> pf_allow_ltp_fallback (pb_config b) then refuse NO_DEPTH b
             else priced (qt_last_price q) ''ltp_fallback''
                    (pf_ltp_fallback_extra_ticks (pb_config b) * (case tick of None \<Rightarrow> 0 | Some t \<Rightarrow> t)))"

section \<open>Fills\<close>

definition fill_id :: "nat \<Rightarrow> string" where
  "fill_id n = ''paper-fill-'' @ pad_nat 6 n"

definition fill_quantities :: "paper_broker \<Rightarrow> order_intent \<Rightarrow> quote \<Rightarrow> int list result" where
  "fill_quantities b intent q =
     (let quantities = pb_fill_quantity_policy b intent q in
      if quantities = [] \<or> list_ex (\<lambda>n. n \<le> 0) quantities then Inl ValueError
      else if oi_quantity intent < sum_list quantities then Inl ValueError
      else Inr quantities)"

definition one_fill ::
  "paper_broker \<Rightarrow> datetime \<Rightarrow> order_intent \<Rightarrow> quote \<Rightarrow> money \<Rightarrow> string \<Rightarrow> bool \<Rightarrow> money \<Rightarrow> nat \<Rightarrow> int
    \<Rightarrow> fill result" where
  "one_fill b now intent q price method latency_applied reference_price n quantity =
     bindE (total_for_leg (pb_charges b) (oi_side intent) price quantity) (\<lambda>charges.
     new_fill
       \<lparr>fl_correlation_id = oi_correlation_id intent, fl_broker_fill_id = fill_id n,
        fl_strategy_id = oi_strategy_id intent, fl_execution_mode = oi_execution_mode intent,
        fl_quantity = quantity, fl_price = price, fl_filled_at = now,
        fl_reference_price = Some reference_price,
        fl_slippage_amount = Some (py_round 6 \<bar>price - reference_price\<bar>),
        fl_latency_ms = Some (pf_submission_latency_ms (pb_config b)), fl_fill_method = Some method,
        fl_charges = charges, fl_latency_applied = Some latency_applied, fl_quote_bid = qt_bid q,
        fl_quote_ask = qt_ask q, fl_quote_age_ms = age_ms now q\<rparr>)"

text \<open>The generator draws a fill number before it can raise on that fill.\<close>

fun fills_from :: "(nat \<Rightarrow> int \<Rightarrow> fill result) \<Rightarrow> nat \<Rightarrow> int list \<Rightarrow> fill list result \<times> nat" where
  "fills_from mk n [] = (Inr [], n)"
| "fills_from mk n (q # qs) =
     (case mk n q of
        Inl e \<Rightarrow> (Inl e, n + 1)
      | Inr f \<Rightarrow>
          (case fills_from mk (n + 1) qs of
             (Inl e, m) \<Rightarrow> (Inl e, m)
           | (Inr fs, m) \<Rightarrow> (Inr (f # fs), m)))"

definition make_fills ::
  "datetime \<Rightarrow> order_intent \<Rightarrow> quote \<Rightarrow> money \<Rightarrow> string \<Rightarrow> bool \<Rightarrow> money \<Rightarrow> paper_broker
    \<Rightarrow> fill list result \<times> paper_broker" where
  "make_fills now intent q price method latency_applied reference_price b =
     (case fill_quantities b intent q of
        Inl e \<Rightarrow> (Inl e, b)
      | Inr quantities \<Rightarrow>
          (case fills_from (one_fill b now intent q price method latency_applied reference_price)
                  (pb_fill_sequence b) quantities of
             (r, n) \<Rightarrow> (r, b\<lparr>pb_fill_sequence := n\<rparr>)))"

definition build_order :: "order_intent \<Rightarrow> fill list \<Rightarrow> order" where
  "build_order intent fills =
     (let filled = (\<Sum>f\<leftarrow>fills. fl_quantity f);
          average = (\<Sum>f\<leftarrow>fills. fl_price f * of_int (fl_quantity f)) / of_int filled
      in \<lparr>od_correlation_id = oi_correlation_id intent, od_strategy_id = oi_strategy_id intent,
          od_execution_mode = oi_execution_mode intent,
          od_status = (if oi_quantity intent \<le> filled then FILLED else PARTIALLY_FILLED),
          od_updated_at = fl_filled_at (hd fills),
          od_broker_order_id = Some (''paper-'' @ oi_correlation_id intent),
          od_filled_quantity = filled, od_average_fill_price = Some (py_round 4 average),
          od_rejection_reason = None, od_fills = fills\<rparr>)"

section \<open>Submission and settlement\<close>

definition fill_now ::
  "quote_book option \<Rightarrow> datetime \<Rightarrow> order_intent \<Rightarrow> quote \<Rightarrow> instrument_rules \<Rightarrow> paper_broker
    \<Rightarrow> order result \<times> paper_broker" where
  "fill_now qb now intent q rules b =
     (let (selected, latency_applied) = select_quote qb b q;
          b1 = (if latency_applied then b
                else b\<lparr>pb_latency_not_applied := pb_latency_not_applied b + 1\<rparr>)
      in case market_price (oi_side intent) selected rules b1 of
           (Inl e, b2) \<Rightarrow> (Inl e, b2)
         | (Inr (price, method), b2) \<Rightarrow>
             (case make_fills now intent selected price method latency_applied (qt_last_price q) b2 of
                (Inl e, b3) \<Rightarrow> (Inl e, b3)
              | (Inr fills, b3) \<Rightarrow>
                  let order = build_order intent fills
                  in (Inr order, b3\<lparr>pb_orders := dict_set (oi_correlation_id intent) order (pb_orders b3)\<rparr>)))"

definition resting_order :: "datetime \<Rightarrow> order_intent \<Rightarrow> order" where
  "resting_order now intent =
     \<lparr>od_correlation_id = oi_correlation_id intent, od_strategy_id = oi_strategy_id intent,
      od_execution_mode = oi_execution_mode intent, od_status = SUBMITTED, od_updated_at = now,
      od_broker_order_id = Some (''paper-'' @ oi_correlation_id intent), od_filled_quantity = 0,
      od_average_fill_price = None, od_rejection_reason = None, od_fills = []\<rparr>"

definition working_entry :: "paper_broker \<Rightarrow> order_intent \<Rightarrow> quote \<Rightarrow> working_order" where
  "working_entry b intent q =
     \<lparr>wo_intent = intent, wo_submitted_at = qt_quoted_at q,
      wo_eligible_at = dt_add (qt_quoted_at q) (pf_submission_latency_ms (pb_config b) * 1000)\<rparr>"

definition rest :: "datetime \<Rightarrow> order_intent \<Rightarrow> quote \<Rightarrow> paper_broker \<Rightarrow> order result \<times> paper_broker" where
  "rest now intent q b =
     (let cid = oi_correlation_id intent;
          working = working_entry b intent q;
          order = resting_order now intent
      in (Inr order, b\<lparr>pb_working := dict_set cid working (pb_working b),
                       pb_orders := dict_set cid order (pb_orders b)\<rparr>))"

definition submit ::
  "quote_book option \<Rightarrow> datetime \<Rightarrow> order_intent \<Rightarrow> quote \<Rightarrow> paper_broker
    \<Rightarrow> order result \<times> paper_broker" where
  "submit qb now intent q b =
     (case validate now intent q b of
        (Inl e, b1) \<Rightarrow> (Inl e, b1)
      | (Inr rules, b1) \<Rightarrow>
          if oi_order_type intent = LIMIT then rest now intent q b1
          else fill_now qb now intent q rules b1)"

definition fallback_price :: "paper_broker \<Rightarrow> quote \<Rightarrow> money option" where
  "fallback_price b q = (if pf_allow_ltp_fallback (pb_config b) then Some (qt_last_price q) else None)"

definition limit_eligible :: "paper_broker \<Rightarrow> order_intent \<Rightarrow> money \<Rightarrow> quote \<Rightarrow> bool" where
  "limit_eligible b intent limit q =
     (if oi_side intent = BUY
      then opt_holds (\<lambda>c. c \<le> limit) (case qt_ask q of None \<Rightarrow> fallback_price b q | Some a \<Rightarrow> Some a)
      else opt_holds (\<lambda>c. limit \<le> c) (case qt_bid q of None \<Rightarrow> fallback_price b q | Some a \<Rightarrow> Some a))"

definition settle ::
  "datetime \<Rightarrow> working_order \<Rightarrow> quote \<Rightarrow> paper_broker \<Rightarrow> order option result \<times> paper_broker" where
  "settle now working q b =
     (let intent = wo_intent working in
      case oi_limit_price intent of
        None \<Rightarrow> (Inr None, b)
      | Some limit \<Rightarrow>
          if \<not> limit_eligible b intent limit q then (Inr None, b)
          else case make_fills now intent q limit ''limit'' True (qt_last_price q) b of
                 (Inl e, b1) \<Rightarrow> (Inl e, b1)
               | (Inr fills, b1) \<Rightarrow> (Inr (Some (build_order intent fills)), b1))"

text \<open>One iteration of the loop, and the loop over a snapshot of the working identifiers.\<close>

definition quote_step ::
  "datetime \<Rightarrow> quote \<Rightarrow> string \<Rightarrow> paper_broker \<Rightarrow> order option result \<times> paper_broker" where
  "quote_step now q cid b =
     (case dict_get (pb_working b) cid of
        None \<Rightarrow> (Inl KeyError, b)
      | Some working \<Rightarrow>
          if oi_security_id (wo_intent working) \<noteq> qt_security_id q then (Inr None, b)
          else if qt_quoted_at q < wo_eligible_at working then (Inr None, b)
          else case settle now working q b of
                 (Inl e, b1) \<Rightarrow> (Inl e, b1)
               | (Inr None, b1) \<Rightarrow> (Inr None, b1)
               | (Inr (Some order), b1) \<Rightarrow>
                   (Inr (Some order),
                    b1\<lparr>pb_working := dict_pop cid (pb_working b1),
                       pb_orders := dict_set cid order (pb_orders b1)\<rparr>))"

fun on_quote_loop ::
  "datetime \<Rightarrow> quote \<Rightarrow> string list \<Rightarrow> paper_broker \<Rightarrow> order list result \<times> paper_broker" where
  "on_quote_loop now q [] b = (Inr [], b)"
| "on_quote_loop now q (cid # cids) b =
     (case quote_step now q cid b of
        (Inl e, b1) \<Rightarrow> (Inl e, b1)
      | (Inr filled, b1) \<Rightarrow>
          (case on_quote_loop now q cids b1 of
             (Inl e, b2) \<Rightarrow> (Inl e, b2)
           | (Inr orders, b2) \<Rightarrow>
               (Inr (case filled of None \<Rightarrow> orders | Some order \<Rightarrow> order # orders), b2)))"

definition on_quote :: "datetime \<Rightarrow> quote \<Rightarrow> paper_broker \<Rightarrow> order list result \<times> paper_broker" where
  "on_quote now q b = on_quote_loop now q (map fst (pb_working b)) b"

section \<open>Frames\<close>

text \<open>What no operation of the broker changes.\<close>

definition static :: "paper_broker \<Rightarrow> _" where
  "static b = (pb_config b, pb_charges b, pb_instrument_rules b, pb_is_market_open b,
     pb_fill_quantity_policy b)"

text \<open>What a failing step keeps: the orders and the working book.\<close>

definition kept :: "paper_broker \<Rightarrow> paper_broker \<Rightarrow> bool" where
  "kept b b' = (static b' = static b \<and> pb_orders b' = pb_orders b \<and> pb_working b' = pb_working b
     \<and> pb_fill_sequence b \<le> pb_fill_sequence b')"

lemma kept_refl [simp]: "kept b b"
  by (simp add: kept_def)

lemma kept_trans: "kept a b \<Longrightarrow> kept b c \<Longrightarrow> kept a c"
  by (auto simp: kept_def)

lemma refuse_kept: "refuse c b = (r, b') \<Longrightarrow> kept b b' \<and> r = Inl (PaperRejection c)
    \<and> pb_fill_sequence b' = pb_fill_sequence b"
  by (auto simp: refuse_def kept_def static_def)

lemma validate_kept:
  "validate now i q b = (r, b') \<Longrightarrow> kept b b' \<and> pb_fill_sequence b' = pb_fill_sequence b"
  by (auto simp: validate_def dest: refuse_kept split: sum.splits exn.splits)

lemma validate_Inr:
  "validate now i q b = (Inr r, b') \<Longrightarrow> validate_checks now i q b = Inr r \<and> b' = b"
  by (auto simp: validate_def refuse_def split: sum.splits exn.splits)

lemma validate_checks_Inr:
  assumes "validate_checks now i q b = Inr r"
  shows "dict_get (pb_orders b) (oi_correlation_id i) = None"
    "oi_correlation_id i \<notin> set (pf_reject_correlation_ids (pb_config b))"
    "oi_risk_decision i = ALLOWED" "qt_security_id q = oi_security_id i"
    "rules_for b (oi_security_id i) = Inr r" "0 < oi_quantity i"
    "check_limit_price i (tick_for b r) = Inr ()" "check_freshness b now q = Inr ()"
    "check_session b q = Inr ()" "has_depth q \<or> pf_allow_ltp_fallback (pb_config b)"
  using assms by (auto simp: validate_checks_def bindE_Inr check_quantity_def)

lemma market_price_kept:
  "market_price s q r b = (x, b') \<Longrightarrow> kept b b' \<and> pb_fill_sequence b' = pb_fill_sequence b"
  by (auto simp: market_price_def Let_def dest: refuse_kept split: option.splits sum.splits if_splits)

section \<open>Fills\<close>

lemma fill_id_inj [simp]: "fill_id m = fill_id n \<longleftrightarrow> m = n"
  by (auto simp: fill_id_def dest: pad_nat_inj)

lemma fills_from_seq: "fills_from mk n qs = (r, m) \<Longrightarrow> n \<le> m"
  by (induction mk n qs arbitrary: r m rule: fills_from.induct)
    (force split: sum.splits prod.splits)+

lemma fills_from_Inr:
  "fills_from mk n qs = (Inr fs, m) \<Longrightarrow>
     m = n + length qs \<and> length fs = length qs
     \<and> (\<forall>k < length qs. mk (n + k) (qs ! k) = Inr (fs ! k))"
proof (induction mk n qs arbitrary: fs m rule: fills_from.induct)
  case (2 mk n q qs)
  then obtain f fs' where s: "mk n q = Inr f" "fills_from mk (n + 1) qs = (Inr fs', m)" "fs = f # fs'"
    by (auto split: sum.splits prod.splits)
  from 2(1) [OF s(1,2)] s show ?case by (auto simp: nth_Cons split: nat.splits)
qed auto

lemma one_fill_Inr:
  "one_fill b now i q p mth lat ref n k = Inr f \<Longrightarrow>
     fill_ok f \<and> fl_broker_fill_id f = fill_id n \<and> fl_quantity f = k \<and> fl_price f = p
     \<and> fl_correlation_id f = oi_correlation_id i \<and> fl_strategy_id f = oi_strategy_id i
     \<and> fl_execution_mode f = oi_execution_mode i \<and> fl_filled_at f = now
     \<and> fl_quote_bid f = qt_bid q \<and> fl_quote_ask f = qt_ask q \<and> fl_latency_applied f = Some lat
     \<and> fl_fill_method f = Some mth \<and> fl_reference_price f = Some ref
     \<and> total_for_leg (pb_charges b) (oi_side i) p k = Inr (fl_charges f)"
  by (auto simp: one_fill_def bindE_Inr new_fill_Inr)

lemma fill_quantities_Inr:
  "fill_quantities b i q = Inr ks \<Longrightarrow>
     ks = pb_fill_quantity_policy b i q \<and> ks \<noteq> [] \<and> (\<forall>k \<in> set ks. 0 < k) \<and> sum_list ks \<le> oi_quantity i"
  by (auto simp: fill_quantities_def Let_def list_ex_iff not_le split: if_splits)

text \<open>What the fills of one order are.\<close>

definition fills_spec ::
  "paper_broker \<Rightarrow> datetime \<Rightarrow> order_intent \<Rightarrow> quote \<Rightarrow> money \<Rightarrow> string \<Rightarrow> bool \<Rightarrow> fill list \<Rightarrow> bool" where
  "fills_spec b now i q p mth lat fs =
     (fs \<noteq> []
      \<and> map fl_broker_fill_id fs
          = map fill_id [pb_fill_sequence b ..< pb_fill_sequence b + length fs]
      \<and> map fl_quantity fs = pb_fill_quantity_policy b i q
      \<and> (\<Sum>f\<leftarrow>fs. fl_quantity f) \<le> oi_quantity i
      \<and> (\<forall>f \<in> set fs. fill_ok f \<and> fl_price f = p \<and> fl_correlation_id f = oi_correlation_id i
           \<and> fl_strategy_id f = oi_strategy_id i \<and> fl_execution_mode f = oi_execution_mode i
           \<and> fl_filled_at f = now \<and> fl_quote_bid f = qt_bid q \<and> fl_quote_ask f = qt_ask q
           \<and> fl_latency_applied f = Some lat \<and> fl_fill_method f = Some mth
           \<and> total_for_leg (pb_charges b) (oi_side i) p (fl_quantity f) = Inr (fl_charges f)))"

lemma make_fills_Inr:
  assumes "make_fills now i q p mth lat ref b = (Inr fs, b')"
  shows "fills_spec b now i q p mth lat fs
    \<and> b' = b\<lparr>pb_fill_sequence := pb_fill_sequence b + length fs\<rparr>"
proof -
  let ?mk = "one_fill b now i q p mth lat ref"
  obtain ks n where ks: "fill_quantities b i q = Inr ks"
    and ff: "fills_from ?mk (pb_fill_sequence b) ks = (Inr fs, n)"
    and b': "b' = b\<lparr>pb_fill_sequence := n\<rparr>"
    using assms by (auto simp: make_fills_def split: sum.splits prod.splits)
  note k = fill_quantities_Inr [OF ks]
  note f = fills_from_Inr [OF ff]
  have nth: "one_fill b now i q p mth lat ref (pb_fill_sequence b + j) (ks ! j) = Inr (fs ! j)"
    if "j < length fs" for j using f that by auto
  have ids: "map fl_broker_fill_id fs
      = map fill_id [pb_fill_sequence b ..< pb_fill_sequence b + length fs]"
    by (rule nth_equalityI) (auto dest: one_fill_Inr [OF nth])
  have qs: "map fl_quantity fs = ks"
    using f one_fill_Inr [OF nth] by (intro nth_equalityI) auto
  have ne: "fs \<noteq> []" using k f by auto
  have sum: "(\<Sum>f\<leftarrow>fs. fl_quantity f) = sum_list ks" using qs by simp
  have all: "fill_ok f \<and> fl_price f = p \<and> fl_correlation_id f = oi_correlation_id i
           \<and> fl_strategy_id f = oi_strategy_id i \<and> fl_execution_mode f = oi_execution_mode i
           \<and> fl_filled_at f = now \<and> fl_quote_bid f = qt_bid q \<and> fl_quote_ask f = qt_ask q
           \<and> fl_latency_applied f = Some lat \<and> fl_fill_method f = Some mth
           \<and> total_for_leg (pb_charges b) (oi_side i) p (fl_quantity f) = Inr (fl_charges f)"
    if m: "f \<in> set fs" for f
    using m by (auto simp: in_set_conv_nth dest: one_fill_Inr [OF nth])
  show ?thesis using ids qs ne sum all k f b' by (auto simp: fills_spec_def)
qed

lemma make_fills_kept: "make_fills now i q p mth lat ref b = (r, b') \<Longrightarrow> kept b b'"
  by (auto simp: make_fills_def kept_def static_def split: sum.splits prod.splits
      dest: fills_from_seq)

section \<open>Outcomes of submission and settlement\<close>

lemma select_quote_static: "static b' = static b \<Longrightarrow> select_quote qb b' q = select_quote qb b q"
  by (simp add: select_quote_def static_def)

lemma fill_now_Inl: "fill_now qb now i q r b = (Inl e, b') \<Longrightarrow> kept b b'"
  by (auto simp: fill_now_def Let_def split: prod.splits sum.splits if_splits
      dest!: market_price_kept make_fills_kept intro: kept_trans; auto simp: kept_def static_def)

lemma fill_now_Inr:
  assumes "fill_now qb now i q r b = (Inr ord, b')"
  shows "\<exists>sel lat b1 p mth fs.
     select_quote qb b q = (sel, lat) \<and> kept b b1 \<and> pb_fill_sequence b1 = pb_fill_sequence b
     \<and> market_price (oi_side i) sel r b1 = (Inr (p, mth), b1)
     \<and> fills_spec b1 now i sel p mth lat fs \<and> ord = build_order i fs
     \<and> b' = b1\<lparr>pb_fill_sequence := pb_fill_sequence b1 + length fs,
               pb_orders := dict_set (oi_correlation_id i) ord (pb_orders b1)\<rparr>"
proof -
  obtain sel lat where sel: "select_quote qb b q = (sel, lat)" by fastforce
  define b1 where "b1 = (if lat then b else b\<lparr>pb_latency_not_applied := pb_latency_not_applied b + 1\<rparr>)"
  have b1: "kept b b1" "pb_fill_sequence b1 = pb_fill_sequence b"
    by (auto simp: b1_def kept_def static_def)
  obtain p mth b2 fs b3 where mp: "market_price (oi_side i) sel r b1 = (Inr (p, mth), b2)"
    and mf: "make_fills now i sel p mth lat (qt_last_price q) b2 = (Inr fs, b3)"
    and o: "ord = build_order i fs"
      "b' = b3\<lparr>pb_orders := dict_set (oi_correlation_id i) ord (pb_orders b3)\<rparr>"
    using assms sel by (auto simp: fill_now_def Let_def b1_def [symmetric] split: prod.splits sum.splits)
  have "b2 = b1" using mp
    by (auto simp: market_price_def Let_def refuse_def split: option.splits sum.splits if_splits)
  with make_fills_Inr [OF mf] have "fills_spec b1 now i sel p mth lat fs"
    "b3 = b1\<lparr>pb_fill_sequence := pb_fill_sequence b1 + length fs\<rparr>" by auto
  with mp sel b1 o \<open>b2 = b1\<close> show ?thesis
    by (intro exI [of _ sel] exI [of _ lat] exI [of _ b1] exI [of _ p] exI [of _ mth] exI [of _ fs]) simp
qed

lemma submit_Inl: "submit qb now i q b = (Inl e, b') \<Longrightarrow> kept b b'"
  by (auto simp: submit_def rest_def Let_def split: prod.splits sum.splits if_splits
      dest!: validate_kept fill_now_Inl intro: kept_trans)

lemma submit_Inr:
  assumes "submit qb now i q b = (Inr ord, b')"
  obtains r where "validate_checks now i q b = Inr r"
    "if oi_order_type i = LIMIT then rest now i q b = (Inr ord, b')
     else fill_now qb now i q r b = (Inr ord, b')"
  using assms
  by (auto simp: submit_def split: prod.splits sum.splits if_splits dest!: validate_Inr)

lemma settle_None: "settle now w q b = (Inr None, b') \<Longrightarrow> b' = b"
  by (auto simp: settle_def Let_def split: option.splits if_splits sum.splits prod.splits)

lemma settle_Inl: "settle now w q b = (Inl e, b') \<Longrightarrow> kept b b'"
  by (auto simp: settle_def Let_def split: option.splits if_splits sum.splits prod.splits
      dest: make_fills_kept)

lemma settle_Some:
  assumes "settle now w q b = (Inr (Some ord), b')"
  shows "\<exists>limit fs. oi_limit_price (wo_intent w) = Some limit
     \<and> limit_eligible b (wo_intent w) limit q
     \<and> fills_spec b now (wo_intent w) q limit ''limit'' True fs
     \<and> ord = build_order (wo_intent w) fs
     \<and> b' = b\<lparr>pb_fill_sequence := pb_fill_sequence b + length fs\<rparr>"
  using assms
  by (auto simp: settle_def Let_def split: option.splits if_splits sum.splits prod.splits
      dest: make_fills_Inr)

section \<open>The book of orders\<close>

text \<open>An order of the book: resting without fills, or filled in part or whole.\<close>

definition order_ok :: "string \<Rightarrow> order \<Rightarrow> bool" where
  "order_ok cid ord =
     (od_correlation_id ord = cid
      \<and> od_filled_quantity ord = (\<Sum>f\<leftarrow>od_fills ord. fl_quantity f)
      \<and> (\<forall>f \<in> set (od_fills ord). fill_ok f \<and> fl_correlation_id f = cid)
      \<and> (if od_fills ord = [] then od_status ord = SUBMITTED \<and> od_average_fill_price ord = None
         else od_status ord \<in> {FILLED, PARTIALLY_FILLED}
           \<and> od_average_fill_price ord =
               Some (py_round 4 ((\<Sum>f\<leftarrow>od_fills ord. fl_price f * of_int (fl_quantity f))
                                  / of_int (od_filled_quantity ord)))))"

definition order_fill_ids :: "order \<Rightarrow> string list" where
  "order_fill_ids ord = map fl_broker_fill_id (od_fills ord)"

definition orders_inv :: "(string, order) dict \<Rightarrow> nat \<Rightarrow> bool" where
  "orders_inv os n =
     ((\<forall>cid ord. dict_get os cid = Some ord \<longrightarrow>
         order_ok cid ord \<and> distinct (order_fill_ids ord)
         \<and> set (order_fill_ids ord) \<subseteq> fill_id ` {1..<n})
      \<and> (\<forall>cid cid' ord ord'. dict_get os cid = Some ord \<longrightarrow> dict_get os cid' = Some ord' \<longrightarrow>
           cid \<noteq> cid' \<longrightarrow> set (order_fill_ids ord) \<inter> set (order_fill_ids ord') = {}))"

definition working_ok :: "(string, order) dict \<Rightarrow> string \<Rightarrow> working_order \<Rightarrow> bool" where
  "working_ok os cid w =
     (oi_correlation_id (wo_intent w) = cid \<and> oi_order_type (wo_intent w) = LIMIT
      \<and> 0 < oi_quantity (wo_intent w) \<and> opt_holds (\<lambda>l. 0 < l) (oi_limit_price (wo_intent w))
      \<and> (\<exists>ord. dict_get os cid = Some ord \<and> od_status ord = SUBMITTED \<and> od_fills ord = []))"

definition broker_inv :: "paper_broker \<Rightarrow> bool" where
  "broker_inv b =
     (1 \<le> pb_fill_sequence b \<and> orders_inv (pb_orders b) (pb_fill_sequence b)
      \<and> distinct (map fst (pb_orders b)) \<and> distinct (map fst (pb_working b))
      \<and> (\<forall>cid w. dict_get (pb_working b) cid = Some w \<longrightarrow> working_ok (pb_orders b) cid w))"

lemma new_paper_broker_inv [simp]: "broker_inv (new_paper_broker c r rules m p)"
  by (simp add: new_paper_broker_def broker_inv_def orders_inv_def)

lemma orders_inv_mono: "orders_inv os n \<Longrightarrow> n \<le> m \<Longrightarrow> orders_inv os m"
  unfolding orders_inv_def by (meson atLeastLessThan_iff image_mono order_trans subsetI less_le_trans)

lemma orders_inv_set:
  assumes inv: "orders_inv os n" and ok: "order_ok cid ord" and n: "1 \<le> n" "n \<le> m"
    and ids: "order_fill_ids ord = map fill_id [n..<m]"
  shows "orders_inv (dict_set cid ord os) m"
proof -
  have new: "distinct (order_fill_ids ord)" "set (order_fill_ids ord) = fill_id ` {n..<m}"
    by (simp_all add: ids distinct_map inj_on_def)
  have old: "set (order_fill_ids ord') \<subseteq> fill_id ` {1..<n}" if "dict_get os c = Some ord'" for c ord'
    using inv that unfolding orders_inv_def by blast
  have disj: "set (order_fill_ids ord') \<inter> fill_id ` {n..<m} = {}"
    if "dict_get os c = Some ord'" for c ord'
    using old [OF that] by auto
  have sub: "fill_id ` {n..<m} \<subseteq> fill_id ` {1..<m}" "fill_id ` {1..<n} \<subseteq> fill_id ` {1..<m}"
    using n by auto
  have one: "order_ok c o' \<and> distinct (order_fill_ids o') \<and> set (order_fill_ids o') \<subseteq> fill_id ` {1..<m}"
    if "dict_get (dict_set cid ord os) c = Some o'" for c o'
  proof (cases "c = cid")
    case True
    with that have "o' = ord" by simp
    with True ok new sub show ?thesis by auto
  next
    case False
    with that have g: "dict_get os c = Some o'" by simp
    with inv have "order_ok c o' \<and> distinct (order_fill_ids o')" unfolding orders_inv_def by blast
    then show ?thesis using old [OF g] sub by blast
  qed
  have two: "set (order_fill_ids o') \<inter> set (order_fill_ids o'') = {}"
    if "dict_get (dict_set cid ord os) c = Some o'" "dict_get (dict_set cid ord os) c' = Some o''"
      "c \<noteq> c'" for c c' o' o''
    using that disj new(2) inv unfolding orders_inv_def by (auto split: if_splits)
  show ?thesis unfolding orders_inv_def using one two by blast
qed

lemma kept_inv: "broker_inv b \<Longrightarrow> kept b b' \<Longrightarrow> broker_inv b'"
  unfolding broker_inv_def kept_def using orders_inv_mono by fastforce

lemma fills_spec_sum_pos:
  assumes "fills_spec b now i q p mth lat fs"
  shows "0 < (\<Sum>f\<leftarrow>fs. fl_quantity f)"
proof -
  have "\<forall>f \<in> set fs. 0 < fl_quantity f" "fs \<noteq> []" using assms by (auto simp: fills_spec_def fill_ok_def)
  then show ?thesis by (induction fs) (auto intro!: add_pos_nonneg sum_list_nonneg simp: less_imp_le)
qed

lemma build_order_ok:
  assumes "fills_spec b now i q p mth lat fs"
  shows "order_ok (oi_correlation_id i) (build_order i fs)"
    "order_fill_ids (build_order i fs) = map fill_id [pb_fill_sequence b ..< pb_fill_sequence b + length fs]"
  using assms by (auto simp: order_ok_def build_order_def Let_def order_fill_ids_def fills_spec_def)

lemma build_order_spec:
  assumes "fills_spec b now i q p mth lat fs"
  shows "od_fills (build_order i fs) = fs" "od_filled_quantity (build_order i fs) \<le> oi_quantity i"
    "0 < od_filled_quantity (build_order i fs)"
    "od_status (build_order i fs) = FILLED \<longleftrightarrow> od_filled_quantity (build_order i fs) = oi_quantity i"
  using assms fills_spec_sum_pos [OF assms]
  by (auto simp: build_order_def Let_def fills_spec_def)

text \<open>Every fill of one order has one price, so the average is that price rounded.\<close>

lemma build_order_average:
  assumes "fills_spec b now i q p mth lat fs"
  shows "od_average_fill_price (build_order i fs) = Some (py_round 4 p)"
proof -
  have "\<forall>f \<in> set fs. fl_price f = p" using assms by (simp add: fills_spec_def)
  then have "(\<Sum>f\<leftarrow>fs. fl_price f * of_int (fl_quantity f)) = p * of_int (\<Sum>f\<leftarrow>fs. fl_quantity f)"
    by (induction fs) (auto simp: algebra_simps)
  moreover have "(\<Sum>f\<leftarrow>fs. fl_quantity f) \<noteq> 0" using fills_spec_sum_pos [OF assms] by simp
  ultimately show ?thesis by (simp add: build_order_def Let_def)
qed

lemma working_fresh:
  assumes "broker_inv b" "dict_get (pb_orders b) cid = None"
  shows "dict_get (pb_working b) cid = None"
  using assms unfolding broker_inv_def working_ok_def by (metis not_Some_eq option.distinct(1))

text \<open>Storing an order with freshly numbered fills.\<close>

lemma store_inv:
  assumes "broker_inv b" "fills_spec b now i q p mth lat fs"
    and "cid = oi_correlation_id i"
  shows "broker_inv (b\<lparr>pb_fill_sequence := pb_fill_sequence b + length fs,
            pb_working := dict_pop cid (pb_working b),
            pb_orders := dict_set cid (build_order i fs) (pb_orders b)\<rparr>)"
proof -
  have "orders_inv (dict_set cid (build_order i fs) (pb_orders b)) (pb_fill_sequence b + length fs)"
    using assms build_order_ok [OF assms(2)] by (intro orders_inv_set) (auto simp: broker_inv_def)
  then show ?thesis using assms(1) by (auto simp: broker_inv_def working_ok_def distinct_delete distinct_update)
qed

lemma fills_spec_cong:
  "fills_spec b now i q p mth lat fs \<Longrightarrow> static b' = static b
    \<Longrightarrow> pb_fill_sequence b' = pb_fill_sequence b \<Longrightarrow> fills_spec b' now i q p mth lat fs"
  unfolding fills_spec_def static_def by auto

lemma submit_inv:
  assumes inv: "broker_inv b" and s: "submit qb now i q b = (r, b')"
  shows "broker_inv b'"
proof (cases r)
  case (Inl e)
  with s inv show ?thesis using submit_Inl kept_inv by blast
next
  case (Inr ord)
  with s obtain rules where v: "validate_checks now i q b = Inr rules"
    and c: "if oi_order_type i = LIMIT then rest now i q b = (Inr ord, b')
     else fill_now qb now i q rules b = (Inr ord, b')" using submit_Inr by metis
  note v = validate_checks_Inr [OF v]
  have fresh: "dict_get (pb_working b) (oi_correlation_id i) = None"
    using working_fresh [OF inv v(1)] .
  show ?thesis
  proof (cases "oi_order_type i = LIMIT")
    case True
    let ?o = "resting_order now i"
    have lim: "opt_holds (\<lambda>l. 0 < l) (oi_limit_price i)"
      using v(7) True by (cases "oi_limit_price i") (auto simp: check_limit_price_def split: if_splits)
    have "orders_inv (dict_set (oi_correlation_id i) ?o (pb_orders b)) (pb_fill_sequence b)"
      using inv by (intro orders_inv_set [where n = "pb_fill_sequence b"])
        (auto simp: broker_inv_def order_ok_def resting_order_def order_fill_ids_def)
    note os = this
    have wk: "working_ok (dict_set (oi_correlation_id i) ?o (pb_orders b)) cid w"
      if w: "dict_get (dict_set (oi_correlation_id i) w0 (pb_working b)) cid = Some w"
        "wo_intent w0 = i" for cid w w0
    proof (cases "cid = oi_correlation_id i")
      case c: True
      with w lim v True show ?thesis by (simp add: working_ok_def resting_order_def)
    next
      case False
      with w(1) have "dict_get (pb_working b) cid = Some w" by simp
      with inv have "working_ok (pb_orders b) cid w" by (simp add: broker_inv_def)
      with False show ?thesis by (simp add: working_ok_def)
    qed
    obtain w0 where b': "wo_intent w0 = i"
      "b' = b\<lparr>pb_working := dict_set (oi_correlation_id i) w0 (pb_working b),
               pb_orders := dict_set (oi_correlation_id i) ?o (pb_orders b)\<rparr>"
      using c True that [of "working_entry b i q"] by (auto simp: rest_def Let_def working_entry_def)
    show ?thesis unfolding broker_inv_def
    proof (intro conjI allI impI)
      fix cid w assume "dict_get (pb_working b') cid = Some w"
      then show "working_ok (pb_orders b') cid w" using wk [OF _ b'(1)] b'(2) by simp
    qed (use os inv b'(2) in \<open>simp_all add: broker_inv_def distinct_update\<close>)
  next
    case False
    with c have "fill_now qb now i q rules b = (Inr ord, b')" by simp
    from fill_now_Inr [OF this] obtain sel lat b1 p mth fs where f: "kept b b1" "fills_spec b1 now i sel p mth lat fs"
      "ord = build_order i fs"
      "b' = b1\<lparr>pb_fill_sequence := pb_fill_sequence b1 + length fs,
               pb_orders := dict_set (oi_correlation_id i) ord (pb_orders b1)\<rparr>"
      by blast
    have inv1: "broker_inv b1" using kept_inv [OF inv f(1)] .
    have pop: "dict_pop (oi_correlation_id i) (pb_working b1) = pb_working b1"
      using fresh f(1) by (simp add: kept_def delete_idem map_of_eq_None_iff)
    show ?thesis using store_inv [OF inv1 f(2) refl] f(3,4) by (simp add: pop)
  qed
qed

section \<open>Settlement of resting orders\<close>

lemma limit_eligible_static: "static b' = static b \<Longrightarrow> limit_eligible b' = limit_eligible b"
proof -
  assume "static b' = static b"
  then have "fallback_price b' = fallback_price b"
    by (simp add: fallback_price_def static_def fun_eq_iff)
  then show ?thesis by (intro ext) (simp only: limit_eligible_def)
qed

text \<open>What on_quote settled one resting order into.\<close>

definition settled :: "datetime \<Rightarrow> quote \<Rightarrow> paper_broker \<Rightarrow> order \<Rightarrow> bool" where
  "settled now q b ord =
     (\<exists>w limit. dict_get (pb_working b) (od_correlation_id ord) = Some w
       \<and> oi_security_id (wo_intent w) = qt_security_id q
       \<and> \<not> qt_quoted_at q < wo_eligible_at w
       \<and> oi_limit_price (wo_intent w) = Some limit
       \<and> limit_eligible b (wo_intent w) limit q
       \<and> od_fills ord \<noteq> []
       \<and> (\<forall>f \<in> set (od_fills ord). fl_price f = limit)
       \<and> od_average_fill_price ord = Some (py_round 4 limit)
       \<and> od_filled_quantity ord \<le> oi_quantity (wo_intent w)
       \<and> (od_status ord = FILLED \<longleftrightarrow> od_filled_quantity ord = oi_quantity (wo_intent w)))"

lemma settled_mono:
  assumes "settled now q b' ord" "static b' = static b"
    and "\<And>cid w. dict_get (pb_working b') cid = Some w \<Longrightarrow> dict_get (pb_working b) cid = Some w"
  shows "settled now q b ord"
  using assms limit_eligible_static [OF assms(2)] unfolding settled_def by metis

text \<open>How one iteration moves the broker; carries down: nothing rests that did not rest before.\<close>

definition quote_moves :: "paper_broker \<Rightarrow> paper_broker \<Rightarrow> bool" where
  "quote_moves b b' =
     (broker_inv b' \<and> static b' = static b
      \<and> (\<forall>cid w. dict_get (pb_working b') cid = Some w \<longrightarrow> dict_get (pb_working b) cid = Some w)
      \<and> (\<forall>cid. dict_get (pb_orders b) cid \<noteq> None \<longrightarrow> dict_get (pb_orders b') cid \<noteq> None))"

lemma quote_moves_refl: "broker_inv b \<Longrightarrow> quote_moves b b"
  by (simp add: quote_moves_def)

lemma quote_moves_trans: "quote_moves a b \<Longrightarrow> quote_moves b c \<Longrightarrow> quote_moves a c"
  by (auto simp: quote_moves_def)

lemma quote_moves_kept: "broker_inv b \<Longrightarrow> kept b b' \<Longrightarrow> quote_moves b b'"
  using kept_inv by (auto simp: quote_moves_def kept_def)

lemma quote_step_spec:
  assumes inv: "broker_inv b" and q: "quote_step now q cid b = (r, b')"
  shows "quote_moves b b' \<and> (\<forall>ord. r = Inr (Some ord) \<longrightarrow> settled now q b ord)"
proof (cases "dict_get (pb_working b) cid")
  case None
  with inv q show ?thesis by (auto simp: quote_step_def quote_moves_refl)
next
  case w: (Some w)
  have cid: "cid = oi_correlation_id (wo_intent w)"
    using inv w by (auto simp: broker_inv_def working_ok_def)
  show ?thesis
  proof (cases "\<exists>ord. r = Inr (Some ord)")
    case False
    then have "quote_moves b b'"
      using q w inv
      by (auto simp: quote_step_def quote_moves_refl dest: settle_Inl settle_None
          split: if_splits prod.splits sum.splits option.splits intro: quote_moves_kept)
    with False show ?thesis by blast
  next
    case True
    then obtain ord where r: "r = Inr (Some ord)" by blast
    with q w obtain b1 where s: "settle now w q b = (Inr (Some ord), b1)"
      and g: "oi_security_id (wo_intent w) = qt_security_id q" "\<not> qt_quoted_at q < wo_eligible_at w"
      and b': "b' = b1\<lparr>pb_working := dict_pop cid (pb_working b1),
                       pb_orders := dict_set cid ord (pb_orders b1)\<rparr>"
      by (auto simp: quote_step_def split: if_splits prod.splits sum.splits option.splits)
    from settle_Some [OF s] obtain limit fs where f: "oi_limit_price (wo_intent w) = Some limit"
      "limit_eligible b (wo_intent w) limit q"
      "fills_spec b now (wo_intent w) q limit ''limit'' True fs"
      "ord = build_order (wo_intent w) fs"
      "b1 = b\<lparr>pb_fill_sequence := pb_fill_sequence b + length fs\<rparr>" by blast
    have "broker_inv b'" using store_inv [OF inv f(3) cid] f(4,5) b' by simp
    then have "quote_moves b b'"
      unfolding quote_moves_def using f(5) b' by (simp add: static_def split: if_splits)
    moreover have "od_correlation_id ord = cid" using cid f(4) by (simp add: build_order_def Let_def)
    then have "settled now q b ord"
      unfolding settled_def using w g f build_order_spec [OF f(3)] build_order_average [OF f(3)] f(3)
      by (auto simp: fills_spec_def)
    ultimately show ?thesis using r by simp
  qed
qed

lemma on_quote_loop_spec:
  assumes "broker_inv b" "on_quote_loop now q cids b = (r, b')"
  shows "quote_moves b b' \<and> (\<forall>os. r = Inr os \<longrightarrow> (\<forall>ord \<in> set os. settled now q b ord))"
  using assms
proof (induction now q cids b arbitrary: r b' rule: on_quote_loop.induct)
  case (1 now q b)
  then show ?case by (auto intro: quote_moves_refl)
next
  case (2 now q cid cids b)
  obtain r1 b1 where s: "quote_step now q cid b = (r1, b1)" by fastforce
  note m1 = quote_step_spec [OF 2(2) s]
  show ?case
  proof (cases r1)
    case (Inl e)
    with 2(3) s m1 show ?thesis by auto
  next
    case (Inr filled)
    obtain r2 b2 where l: "on_quote_loop now q cids b1 = (r2, b2)" by fastforce
    have "broker_inv b1" using m1 by (simp add: quote_moves_def)
    note ih = 2(1) [OF s [symmetric] Inr this l]
    have b2: "b' = b2" using 2(3) s Inr l by (auto split: sum.splits)
    have moves: "quote_moves b b2" using m1 ih quote_moves_trans by blast
    have earlier: "settled now q b ord" if "settled now q b1 ord" for ord
      using settled_mono [OF that] m1 by (simp add: quote_moves_def)
    have "settled now q b ord" if "r = Inr os" "ord \<in> set os" for os ord
    proof -
      from 2(3) s Inr l that(1) obtain os2 where o: "r2 = Inr os2"
        "os = (case filled of None \<Rightarrow> os2 | Some x \<Rightarrow> x # os2)" by (auto split: sum.splits)
      with that(2) have "ord \<in> set os2 \<or> filled = Some ord" by (auto split: option.splits)
      with ih o(1) earlier m1 Inr show ?thesis by blast
    qed
    with moves b2 show ?thesis by blast
  qed
qed

section \<open>The broker interface\<close>

lemma fill_now_orders:
  assumes "fill_now qb now i q r b = (Inr ord, b')"
  shows "pb_orders b' = dict_set (oi_correlation_id i) ord (pb_orders b)
    \<and> pb_working b' = pb_working b \<and> od_correlation_id ord = oi_correlation_id i"
proof -
  from fill_now_Inr [OF assms] obtain sel lat b1 p mth fs where
    "kept b b1" "ord = build_order i fs"
    "b' = b1\<lparr>pb_fill_sequence := pb_fill_sequence b1 + length fs,
               pb_orders := dict_set (oi_correlation_id i) ord (pb_orders b1)\<rparr>" by blast
  then show ?thesis by (simp add: kept_def build_order_def Let_def)
qed

lemma submit_orders:
  assumes "submit qb now i q b = (Inr ord, b')"
  shows "pb_orders b' = dict_set (oi_correlation_id i) ord (pb_orders b)
    \<and> od_correlation_id ord = oi_correlation_id i
    \<and> dict_get (pb_orders b) (oi_correlation_id i) = None"
proof -
  from submit_Inr [OF assms] obtain r where v: "validate_checks now i q b = Inr r"
    and c: "if oi_order_type i = LIMIT then rest now i q b = (Inr ord, b')
     else fill_now qb now i q r b = (Inr ord, b')" by blast
  show ?thesis using c fill_now_orders [of qb now i q r b ord b'] validate_checks_Inr(1) [OF v]
    by (auto simp: rest_def Let_def resting_order_def split: if_splits)
qed

interpretation paper: broker "submit qb now" order_by_correlation_id broker_inv
proof
  show "broker_inv s'" if "broker_inv s" "submit qb now i q s = (r, s')" for s i q r s'
    using submit_inv that by blast
  show "order_by_correlation_id s (oi_correlation_id i) = None
        \<and> order_by_correlation_id s' (oi_correlation_id i) = Some ord
        \<and> od_correlation_id ord = oi_correlation_id i
        \<and> (\<forall>cid. cid \<noteq> oi_correlation_id i \<longrightarrow>
              order_by_correlation_id s' cid = order_by_correlation_id s cid)"
    if "broker_inv s" "submit qb now i q s = (Inr ord, s')" for s i q ord s'
    using submit_orders [OF that(2)] by (simp add: order_by_correlation_id_def)
  show "order_by_correlation_id s' = order_by_correlation_id s"
    if "broker_inv s" "submit qb now i q s = (Inl e, s')" for s i q e s'
    using submit_Inl [OF that(2)] by (simp add: order_by_correlation_id_def kept_def fun_eq_iff)
qed

section \<open>Adverse pricing\<close>

text \<open>The price a market order is priced from: the touch, or the last trade without depth.\<close>

definition pricing_base :: "side \<Rightarrow> quote \<Rightarrow> money" where
  "pricing_base s q =
     (case (qt_bid q, qt_ask q) of
        (Some bid, Some ask) \<Rightarrow> if s = BUY then ask else bid
      | _ \<Rightarrow> qt_last_price q)"

text \<open>A positive price with at most four decimals, on the tick grid when there is one.\<close>

definition on_grid :: "money option \<Rightarrow> money \<Rightarrow> bool" where
  "on_grid tick x =
     (0 < x \<and> (\<exists>k::int. x * 10 ^ 4 = of_int k)
      \<and> (case tick of None \<Rightarrow> True | Some t \<Rightarrow> 0 < t \<and> (\<exists>k::int. x = of_int k * t)))"

lemma on_gridI:
  "0 < x \<Longrightarrow> x * 10 ^ 4 = of_int k \<Longrightarrow> 0 < t \<Longrightarrow> x = of_int j * t \<Longrightarrow> on_grid (Some t) x"
  unfolding on_grid_def option.case by blast

definition adverse :: "side \<Rightarrow> money \<Rightarrow> money \<Rightarrow> bool" where
  "adverse s base price = (if s = BUY then base \<le> price else price \<le> base)"

lemma grid_round: "on_grid tick x \<Longrightarrow> py_round 4 (py_round 6 x) = x \<and> py_round 4 x = x"
proof -
  assume "on_grid tick x"
  then obtain k :: int where k: "x * 10 ^ 4 = of_int k" by (auto simp: on_grid_def)
  then have "x * 10 ^ 6 = of_int (k * 100)" by (simp add: algebra_simps)
  then show ?thesis using k by (simp add: py_round_grid [of x 4 k] py_round_grid [of x 6 "k * 100"])
qed

lemma round_to_tick_buy:
  assumes "0 < t" "of_int k * t \<le> price"
  shows "py_round 6 (of_int k * t) \<le> round_to_tick price t BUY"
proof -
  have "of_int k \<le> price / t" using assms by (simp add: pos_le_divide_eq)
  then have "k \<le> \<lceil>price / t - tick_epsilon\<rceil>"
    by (simp add: tick_epsilon_def le_ceiling_iff)
  then show ?thesis using assms(1)
    by (auto simp: round_to_tick_def Let_def intro!: py_round_mono mult_right_mono)
qed

lemma round_to_tick_sell:
  assumes "0 < t" "price \<le> of_int k * t"
  shows "round_to_tick price t SELL \<le> py_round 6 (of_int k * t)"
proof -
  have "price / t \<le> of_int k" using assms by (simp add: pos_divide_le_eq)
  then have "\<lfloor>price / t + tick_epsilon\<rfloor> \<le> k"
    by (simp add: tick_epsilon_def floor_le_iff)
  then show ?thesis using assms(1)
    by (auto simp: round_to_tick_def Let_def intro!: py_round_mono mult_right_mono)
qed

definition slippage_ok :: "slippage_config \<Rightarrow> bool" where
  "slippage_ok c = (new_slippage_config c = Inr c)"

lemma slippage_nonneg:
  assumes "slippage_ok c" "slippage_amount c base tick = Inr a" "0 \<le> base"
    and "opt_holds (\<lambda>t. 0 < t) tick \<or> tick = None"
  shows "0 \<le> a"
proof -
  have c: "0 \<le> sl_market_order_ticks c" "0 \<le> sl_market_order_points c" "0 \<le> sl_market_order_bps c"
    using assms(1) by (auto simp: slippage_ok_def new_slippage_config_def)
  then have "0 \<le> base * sl_market_order_bps c / 10000" using assms(3) by simp
  with c assms(2,4) show ?thesis by (auto simp: slippage_amount_def split: if_splits option.splits)
qed

text \<open>The price owed before rounding: the base moved against the order by the slippage.\<close>

definition owed_price :: "side \<Rightarrow> money \<Rightarrow> money \<Rightarrow> money" where
  "owed_price s base slip = (if s = BUY then base + slip else base - slip)"

text \<open>The surcharge for pricing from the last trade.\<close>

definition fallback_slippage :: "paper_broker \<Rightarrow> quote \<Rightarrow> money option \<Rightarrow> money" where
  "fallback_slippage b q tick =
     (if has_depth q then 0
      else pf_ltp_fallback_extra_ticks (pb_config b) * (case tick of None \<Rightarrow> 0 | Some t \<Rightarrow> t))"

text \<open>
  Rounded to the next tick against the order, with the billionth of a tick the
  code allows for a price that is a whole number of ticks already; then the two
  decimal roundings.
\<close>

definition rounded_against :: "side \<Rightarrow> money option \<Rightarrow> money \<Rightarrow> money \<Rightarrow> bool" where
  "rounded_against s tick x p =
     (case tick of
        None \<Rightarrow> p = py_round 4 x
      | Some t \<Rightarrow>
          (\<exists>k::int. p = py_round 4 (py_round 6 (of_int k * t))
             \<and> (if s = BUY
                then of_int (k - 1) * t < x - tick_epsilon * t \<and> x - tick_epsilon * t \<le> of_int k * t
                else of_int k * t \<le> x + tick_epsilon * t \<and> x + tick_epsilon * t < of_int (k + 1) * t)))"

lemma round_to_tick_against:
  assumes "0 < t"
  shows "rounded_against s (Some t) x (py_round 4 (round_to_tick x t s))"
proof -
  define k where "k = (if s = BUY then \<lceil>x / t - tick_epsilon\<rceil> else \<lfloor>x / t + tick_epsilon\<rfloor>)"
  have p: "py_round 4 (round_to_tick x t s) = py_round 4 (py_round 6 (of_int k * t))"
    by (simp add: round_to_tick_def Let_def k_def)
  have e: "(x / t - tick_epsilon) * t = x - tick_epsilon * t" "(x / t + tick_epsilon) * t = x + tick_epsilon * t"
    using assms by (simp_all add: algebra_simps)
  show ?thesis
  proof (cases "s = BUY")
    case True
    have "of_int (k - 1) < x / t - tick_epsilon" "x / t - tick_epsilon \<le> of_int k"
      using True by (simp_all add: k_def) linarith
    from mult_strict_right_mono [OF this(1) assms] mult_right_mono [OF this(2), of t] assms
    have "of_int (k - 1) * t < x - tick_epsilon * t \<and> x - tick_epsilon * t \<le> of_int k * t"
      unfolding e by simp
    then show ?thesis using p True unfolding rounded_against_def option.case by auto
  next
    case False
    have "x / t + tick_epsilon < of_int (k + 1)" "of_int k \<le> x / t + tick_epsilon"
      using False by (simp_all add: k_def) linarith
    from mult_strict_right_mono [OF this(1) assms] mult_right_mono [OF this(2), of t] assms
    have "of_int k * t \<le> x + tick_epsilon * t \<and> x + tick_epsilon * t < of_int (k + 1) * t"
      unfolding e by simp
    then show ?thesis using p False unfolding rounded_against_def option.case by auto
  qed
qed

lemma market_price_form:
  assumes "market_price s q r b = (Inr (p, mth), b')"
  shows "\<exists>a. slippage_amount (pf_slippage (pb_config b)) (pricing_base s q) (tick_for b r) = Inr a
    \<and> p = py_round 4 (case tick_for b r of
              Some t \<Rightarrow> round_to_tick (owed_price s (pricing_base s q) (a + fallback_slippage b q (tick_for b r))) t s
            | None \<Rightarrow> owed_price s (pricing_base s q) (a + fallback_slippage b q (tick_for b r)))"
  using assms
  by (auto simp: market_price_def pricing_base_def fallback_slippage_def owed_price_def has_depth_def Let_def
      refuse_def split: option.splits sum.splits if_splits)

text \<open>No tick size, or a positive one, as the configuration's constructor checks.\<close>

definition tick_positive :: "money option \<Rightarrow> bool" where
  "tick_positive tick = (case tick of None \<Rightarrow> True | Some t \<Rightarrow> 0 < t)"

lemma rounded_against_grid:
  assumes "on_grid tick base" "0 \<le> slip"
    and p: "p = py_round 4 (case tick of Some t \<Rightarrow> round_to_tick (owed_price s base slip) t s
            | None \<Rightarrow> owed_price s base slip)"
  shows "adverse s base p"
proof (cases tick)
  case None
  have "py_round 4 base = base" using grid_round [OF assms(1)] by simp
  then show ?thesis using None assms(2)
      py_round_mono [of base "base + slip" 4] py_round_mono [of "base - slip" base 4]
    by (auto simp: adverse_def owed_price_def p)
next
  case (Some t)
  with assms(1) obtain k :: int where k: "0 < t" "base = of_int k * t" by (auto simp: on_grid_def)
  have r: "py_round 4 (py_round 6 (of_int k * t)) = base" using grid_round [OF assms(1)] k by simp
  have "if s = BUY then py_round 6 (of_int k * t) \<le> round_to_tick (base + slip) t BUY
        else round_to_tick (base - slip) t SELL \<le> py_round 6 (of_int k * t)"
    using k assms(2) round_to_tick_buy [of t k "base + slip"] round_to_tick_sell [of t "base - slip" k] by simp
  then show ?thesis using r Some
      py_round_mono [of "py_round 6 (of_int k * t)" "round_to_tick (base + slip) t BUY" 4]
      py_round_mono [of "round_to_tick (base - slip) t SELL" "py_round 6 (of_int k * t)" 4]
    by (cases s) (auto simp: adverse_def owed_price_def p)
qed

lemma market_price_adverse:
  assumes m: "market_price s q r b = (Inr (p, mth), b')"
    and ok: "slippage_ok (pf_slippage (pb_config b))" "0 \<le> pf_ltp_fallback_extra_ticks (pb_config b)"
    and base: "0 \<le> pricing_base s q" and t: "tick_positive (tick_for b r)"
  shows "\<exists>a. slippage_amount (pf_slippage (pb_config b)) (pricing_base s q) (tick_for b r) = Inr a
    \<and> adverse s (pricing_base s q)
        (owed_price s (pricing_base s q) (a + fallback_slippage b q (tick_for b r)))
    \<and> rounded_against s (tick_for b r)
        (owed_price s (pricing_base s q) (a + fallback_slippage b q (tick_for b r))) p
    \<and> (on_grid (tick_for b r) (pricing_base s q) \<longrightarrow> adverse s (pricing_base s q) p)"
proof -
  let ?base = "pricing_base s q" and ?tick = "tick_for b r"
  let ?x = "fallback_slippage b q ?tick"
  obtain a where a: "slippage_amount (pf_slippage (pb_config b)) ?base ?tick = Inr a"
    and p: "p = py_round 4 (case ?tick of Some t \<Rightarrow> round_to_tick (owed_price s ?base (a + ?x)) t s
            | None \<Rightarrow> owed_price s ?base (a + ?x))"
    using market_price_form [OF m] by blast
  have "0 \<le> ?x" using ok(2) t by (auto simp: fallback_slippage_def tick_positive_def split: option.splits)
  moreover have "0 \<le> a"
    using slippage_nonneg [OF ok(1) a base] t by (auto simp: tick_positive_def split: option.splits)
  ultimately have s: "0 \<le> a + ?x" by simp
  have "rounded_against s ?tick (owed_price s ?base (a + ?x)) p"
  proof (cases ?tick)
    case None
    then show ?thesis using p by (simp add: rounded_against_def)
  next
    case (Some u)
    then show ?thesis using p t round_to_tick_against [of u s] by (simp add: tick_positive_def)
  qed
  moreover have "adverse s ?base (owed_price s ?base (a + ?x))"
    using s by (simp add: adverse_def owed_price_def)
  moreover have "on_grid ?tick ?base \<longrightarrow> adverse s ?base p"
    using rounded_against_grid [OF _ s p] by blast
  ultimately show ?thesis using a by blast
qed

section \<open>Reachable brokers\<close>

inductive broker_reach :: "paper_broker \<Rightarrow> bool" where
  broker_new: "broker_reach (new_paper_broker config charges rules is_market_open policy)"
| broker_submit: "broker_reach b \<Longrightarrow> submit qb now i q b = (r, b') \<Longrightarrow> broker_reach b'"
| broker_quote: "broker_reach b \<Longrightarrow> on_quote now q b = (r', b') \<Longrightarrow> broker_reach b'"

inductive_cases broker_reachE: "broker_reach b"

lemma on_quote_spec:
  assumes "broker_inv b" "on_quote now q b = (r, b')"
  shows "quote_moves b b' \<and> (\<forall>os. r = Inr os \<longrightarrow> (\<forall>ord \<in> set os. settled now q b ord))"
  using on_quote_loop_spec [OF assms(1), of now q "map fst (pb_working b)" r b'] assms(2)
  by (simp add: on_quote_def)

lemma reach_inv: "broker_reach b \<Longrightarrow> broker_inv b"
proof (induction rule: broker_reach.induct)
  case (broker_new config charges rules is_market_open policy)
  then show ?case by simp
next
  case (broker_submit b qb now i q r b')
  then show ?case using submit_inv by blast
next
  case (broker_quote b now q r b')
  then show ?case using on_quote_spec unfolding quote_moves_def by blast
qed

lemma working_implies_order: "broker_inv b \<Longrightarrow> dict_get (pb_working b) cid = Some w \<Longrightarrow>
    \<exists>ord. dict_get (pb_orders b) cid = Some ord \<and> od_status ord = SUBMITTED \<and> od_fills ord = []"
  unfolding broker_inv_def working_ok_def by blast

section \<open>Worked examples\<close>

definition ex_time :: "int \<Rightarrow> datetime" where
  "ex_time ms = DT (ms * 1000) (Some ist)"

definition ex_quote :: "int \<Rightarrow> money option \<Rightarrow> money option \<Rightarrow> quote" where
  "ex_quote ms bid ask =
     \<lparr>qt_security_id = ''42'', qt_last_price = 100, qt_quoted_at = ex_time ms, qt_bid = bid, qt_ask = ask\<rparr>"

definition ex_intent :: "order_type \<Rightarrow> money option \<Rightarrow> order_intent" where
  "ex_intent ty limit =
     \<lparr>oi_correlation_id = ''p_io_emac_20260803_0001'', oi_strategy_id = ''ema'', oi_runtime_id = ''io'',
      oi_execution_mode = PAPER, oi_trading_date = ''2026-08-03'', oi_sequence_number = 1,
      oi_instrument = ''NIFTY CE'', oi_security_id = ''42'', oi_side = BUY, oi_quantity = 75,
      oi_order_type = ty, oi_product_type = ''INTRADAY'', oi_created_at = ex_time 0,
      oi_limit_price = limit, oi_trigger_price = None, oi_signal_id = None, oi_basket_id = None,
      oi_leg_id = None, oi_config_fingerprint = None, oi_risk_decision = ALLOWED, oi_risk_reason = None\<rparr>"

definition ex_broker :: paper_broker where
  "ex_broker = new_paper_broker default_fill_config default_cost_rates None None whole_quantity"

definition ex_market :: "order result \<times> paper_broker" where
  "ex_market = submit None (ex_time 5) (ex_intent MARKET None) (ex_quote 0 (Some 100) (Some 101)) ex_broker"

definition ex_limit :: "order result \<times> paper_broker" where
  "ex_limit = submit None (ex_time 5) (ex_intent LIMIT (Some 101)) (ex_quote 0 None None) ex_broker"

definition ex_settled :: "order list result \<times> paper_broker" where
  "ex_settled = on_quote (ex_time 400) (ex_quote 300 (Some 100) (Some 100)) (snd ex_limit)"

lemma inr_pair: "\<not> isl (fst p) \<Longrightarrow> p = (Inr (projr (fst p)), snd p)"
  by (cases p; cases "fst p") auto

lemma ex_market_ok: "\<not> isl (fst ex_market)"
  by code_simp
lemma ex_limit_ok: "\<not> isl (fst ex_limit)" 
  by code_simp
lemma ex_settled_facts:
  "(\<lambda>(r, b). \<not> isl r \<and> length (projr r) = 1
      \<and> order_by_correlation_id b ''p_io_emac_20260803_0001'' = Some (hd (projr r)) \<and> od_fills (hd (projr r)) \<noteq> []) ex_settled"
  by code_simp
lemma ex_settled_ok: "\<not> isl (fst ex_settled)" "length (projr (fst ex_settled)) = 1"
  using ex_settled_facts by (simp_all add: split_beta)
lemmas ex_market_run = inr_pair [OF ex_market_ok, unfolded ex_market_def]
lemmas ex_limit_run = inr_pair [OF ex_limit_ok, unfolded ex_limit_def]
lemmas ex_settled_run = inr_pair [OF ex_settled_ok(1), unfolded ex_settled_def]

lemma ex_broker_reach [simp]: "broker_reach ex_broker"
  unfolding ex_broker_def by (rule broker_new)

lemma ex_market_reach: "broker_reach (snd ex_market)"
  using broker_submit [OF ex_broker_reach ex_market_run] by (simp add: ex_market_def)

lemma ex_limit_reach: "broker_reach (snd ex_limit)"
  using broker_submit [OF ex_broker_reach ex_limit_run] by (simp add: ex_limit_def)

lemma ex_settled_reach: "broker_reach (snd ex_settled)"
  using broker_quote [OF ex_limit_reach ex_settled_run] by (simp add: ex_settled_def)

section \<open>Properties\<close>

text \<open>In every broker state reachable by submissions and quotes, successful or not, two
  fills with the same fill identifier are the same fill of the same order: the
  key that makes fill replay idempotent is never issued twice.\<close>

theorem fill_ids_unique:
  assumes "broker_reach b"
    and "order_by_correlation_id b cid = Some ord" "f \<in> set (od_fills ord)"
    and "order_by_correlation_id b cid' = Some ord'" "f' \<in> set (od_fills ord')"
    and "fl_broker_fill_id f = fl_broker_fill_id f'"
  shows "cid = cid' \<and> f = f'"
proof -
  have inv: "orders_inv (pb_orders b) (pb_fill_sequence b)"
    using reach_inv [OF assms(1)] by (simp add: broker_inv_def)
  have in_ids: "fl_broker_fill_id f \<in> set (order_fill_ids ord)" "fl_broker_fill_id f \<in> set (order_fill_ids ord')"
    using assms(3,5,6) by (simp_all add: order_fill_ids_def) (metis image_eqI)
  have eq: "cid = cid'"
    using inv in_ids assms(2,4) unfolding orders_inv_def order_by_correlation_id_def by blast
  moreover have "distinct (order_fill_ids ord)" "ord' = ord"
    using inv eq assms(2,4) by (auto simp: orders_inv_def order_by_correlation_id_def)
  ultimately show ?thesis using assms(3,5,6) by (auto simp: order_fill_ids_def distinct_map inj_on_def)
qed

lemma ex_settled_lookup:
  "order_by_correlation_id (snd ex_settled) ''p_io_emac_20260803_0001'' = Some (hd (projr (fst ex_settled)))"
  "od_fills (hd (projr (fst ex_settled))) \<noteq> []"
  using ex_settled_facts by (simp_all add: split_beta)

theorem fill_ids_unique_witness:
  "''p_io_emac_20260803_0001'' = ''p_io_emac_20260803_0001''
   \<and> hd (od_fills (hd (projr (fst ex_settled)))) = hd (od_fills (hd (projr (fst ex_settled))))"
  by (rule fill_ids_unique [OF ex_settled_reach ex_settled_lookup(1) _ ex_settled_lookup(1)])
    (simp_all add: ex_settled_lookup(2))

text \<open>C2: how a market order the simulator fills is priced, for a configuration whose
  slippage and surcharge are not negative and whose tick, if any, is positive
  (what its constructors check) and a base price that is not negative.  The base
  is the ask for a buy and the bid for a sale of the quote selected, or the last
  trade when there is no depth.  The owed price is the base moved against the
  order by the configured slippage and, without depth, the surcharge; it is never
  better than the base.  Every fill has the owed price rounded to four decimals
  or, with a tick, to the first tick at or beyond it against the order, up to a
  billionth of a tick.  So when the base itself is a price on the tick grid, no
  fill is better than it.
\<close>

theorem market_fill_adverse:
  assumes "submit qb now i q b = (Inr ord, b')" "oi_order_type i = MARKET"
    and "rules_for b (oi_security_id i) = Inr rules"
    and "slippage_ok (pf_slippage (pb_config b))" "0 \<le> pf_ltp_fallback_extra_ticks (pb_config b)"
    and "tick_positive (tick_for b rules)"
    and "sel = fst (select_quote qb b q)" "base = pricing_base (oi_side i) sel" "0 \<le> base"
  shows "\<exists>a owed. slippage_amount (pf_slippage (pb_config b)) base (tick_for b rules) = Inr a
    \<and> owed = owed_price (oi_side i) base (a + fallback_slippage b sel (tick_for b rules))
    \<and> adverse (oi_side i) base owed
    \<and> od_fills ord \<noteq> []
    \<and> (\<forall>f \<in> set (od_fills ord). rounded_against (oi_side i) (tick_for b rules) owed (fl_price f)
         \<and> (on_grid (tick_for b rules) base \<longrightarrow> adverse (oi_side i) base (fl_price f)))"
proof -
  from submit_Inr [OF assms(1)] obtain r where v: "validate_checks now i q b = Inr r"
    and c: "if oi_order_type i = LIMIT then rest now i q b = (Inr ord, b')
     else fill_now qb now i q r b = (Inr ord, b')" by blast
  have r: "r = rules" using validate_checks_Inr(5) [OF v] assms(3) by simp
  have "fill_now qb now i q rules b = (Inr ord, b')" using c assms(2) r by simp
  from fill_now_Inr [OF this] obtain sel' lat b1 p mth fs where
    f: "select_quote qb b q = (sel', lat)" "kept b b1"
    "market_price (oi_side i) sel' rules b1 = (Inr (p, mth), b1)"
    "fills_spec b1 now i sel' p mth lat fs" "ord = build_order i fs" by blast
  have sel: "sel' = sel" using f(1) assms(7) by simp
  have st: "pb_config b1 = pb_config b" "tick_for b1 rules = tick_for b rules"
    "fallback_slippage b1 sel = fallback_slippage b sel"
    using f(2) by (simp_all add: kept_def static_def tick_for_def fallback_slippage_def fun_eq_iff split: option.split)
  have fills: "od_fills ord \<noteq> []" "\<forall>f \<in> set (od_fills ord). fl_price f = p"
    using f build_order_spec(1) [OF f(4)] by (simp_all add: fills_spec_def fill_ok_def)
  show ?thesis
    using market_price_adverse [OF f(3) [unfolded sel]] assms(4-6,9) fills
    unfolding st assms(8) by auto
qed

theorem market_fill_adverse_witness:
  "od_fills (projr (fst ex_market)) \<noteq> []
   \<and> list_all (\<lambda>f. adverse BUY 101 (fl_price f) \<and> rounded_against BUY (Some (5 / 100)) (101 + 5 / 100) (fl_price f))
       (od_fills (projr (fst ex_market)))"
proof -
  have g: "on_grid (Some (5 / 100)) 101"
    by (rule on_gridI [where k = 1010000 and j = 2020]) simp_all
  have e: "rules_for ex_broker ''42'' = Inr no_rules" "tick_for ex_broker no_rules = Some (5 / 100)"
    by (simp_all add: rules_for_def ex_broker_def new_paper_broker_def tick_for_def no_rules_def
        default_fill_config_def)
  have o: "slippage_ok (pf_slippage (pb_config ex_broker))"
    "0 \<le> pf_ltp_fallback_extra_ticks (pb_config ex_broker)"
    "pf_slippage (pb_config ex_broker) = default_slippage"
    by (simp_all add: ex_broker_def new_paper_broker_def default_fill_config_def slippage_ok_def
        new_slippage_config_def default_slippage_def)
  let ?q = "ex_quote 0 (Some 100) (Some 101)"
  have s: "fst (select_quote None ex_broker ?q) = ?q" "pricing_base BUY ?q = 101" "has_depth ?q"
    by (simp_all add: select_quote_def pricing_base_def ex_quote_def has_depth_def)
  have t: "tick_positive (tick_for ex_broker no_rules)" by (simp add: e tick_positive_def)
  have i: "oi_order_type (ex_intent MARKET None) = MARKET" "oi_side (ex_intent MARKET None) = BUY"
    "oi_security_id (ex_intent MARKET None) = ''42''" by (simp_all add: ex_intent_def)
  obtain a where a: "slippage_amount default_slippage 101 (Some (5 / 100)) = Inr a"
    and f: "od_fills (projr (fst ex_market)) \<noteq> []"
      "\<forall>f \<in> set (od_fills (projr (fst ex_market))). rounded_against BUY (Some (5 / 100)) (101 + a) (fl_price f)
        \<and> adverse BUY 101 (fl_price f)"
    using market_fill_adverse [OF ex_market_run, of no_rules ?q 101, folded ex_market_def] g e(1) o(1,2) s t i
    unfolding e(2) i o(3) by (auto simp: owed_price_def fallback_slippage_def)
  have "a = 5 / 100" using a by (simp add: slippage_amount_def default_slippage_def)
  with f have "\<forall>f \<in> set (od_fills (projr (fst ex_market))). rounded_against BUY (Some (5 / 100)) (101 + 5 / 100) (fl_price f)"
    by blast
  with f show ?thesis unfolding list_all_iff by blast
qed

text \<open>An accepted order never fills more than its intent asks: a market order fills at
  once, in whole exactly when it is reported FILLED and otherwise in part, at
  an average that is the fill price; a limit order is only accepted, without
  fills.\<close>

theorem accepted_never_overfilled:
  assumes "submit qb now i q b = (Inr ord, b')"
  shows "0 < oi_quantity i
    \<and> od_filled_quantity ord = (\<Sum>f\<leftarrow>od_fills ord. fl_quantity f)
    \<and> od_filled_quantity ord \<le> oi_quantity i
    \<and> (if oi_order_type i = LIMIT
       then od_status ord = SUBMITTED \<and> od_fills ord = [] \<and> oi_correlation_id i \<in> set (working_orders b')
       else 0 < od_filled_quantity ord
         \<and> od_status ord = (if od_filled_quantity ord = oi_quantity i then FILLED else PARTIALLY_FILLED)
         \<and> (\<forall>f \<in> set (od_fills ord). 0 < fl_price f \<and> od_average_fill_price ord = Some (py_round 4 (fl_price f))))"
proof -
  from submit_Inr [OF assms(1)] obtain r where v: "validate_checks now i q b = Inr r"
    and c: "if oi_order_type i = LIMIT then rest now i q b = (Inr ord, b')
     else fill_now qb now i q r b = (Inr ord, b')" by blast
  note q = validate_checks_Inr(6) [OF v]
  show ?thesis
  proof (cases "oi_order_type i = LIMIT")
    case True
    with c q show ?thesis
      by (auto simp: rest_def Let_def resting_order_def working_orders_def dom_map_of_conv_image_fst [symmetric] update_conv')
  next
    case False
    with c have "fill_now qb now i q r b = (Inr ord, b')" by simp
    from fill_now_Inr [OF this] obtain sel lat b1 p mth fs where
      f: "fills_spec b1 now i sel p mth lat fs" "ord = build_order i fs" by blast
    note s = build_order_spec [OF f(1)] build_order_average [OF f(1)]
    have st: "od_status ord \<in> {FILLED, PARTIALLY_FILLED}" using f(2) by (simp add: build_order_def Let_def)
    have sum: "od_filled_quantity ord = (\<Sum>f\<leftarrow>od_fills ord. fl_quantity f)"
      using f(2) by (simp add: build_order_def Let_def)
    have px: "0 < fl_price f \<and> fl_price f = p" if "f \<in> set (od_fills ord)" for f
      using that f s(1) by (auto simp: fills_spec_def fill_ok_def)
    show ?thesis using False q s st sum px f(2) by auto
  qed
qed

theorem accepted_never_overfilled_witness:
  "od_filled_quantity (projr (fst ex_market)) \<le> 75 \<and> 0 < od_filled_quantity (projr (fst ex_market))"
  using accepted_never_overfilled [OF ex_market_run] by (simp add: ex_intent_def ex_market_def)

text \<open>A sequence of submissions, each refused or accepted.\<close>

fun submit_each ::
  "quote_book option \<Rightarrow> datetime \<Rightarrow> (order_intent \<times> quote) list \<Rightarrow> paper_broker
    \<Rightarrow> (string \<times> order) list \<times> paper_broker" where
  "submit_each qb now [] b = ([], b)"
| "submit_each qb now ((i, q) # iqs) b =
     (case submit qb now i q b of
        (Inl e, b1) \<Rightarrow> submit_each qb now iqs b1
      | (Inr ord, b1) \<Rightarrow>
          (let (os, b2) = submit_each qb now iqs b1 in ((oi_correlation_id i, ord) # os, b2)))"

lemma submit_each_all: "submit_each qb now iqs b = paper.submit_all qb now iqs b"
  by (induction qb now iqs b rule: submit_each.induct) (auto split: prod.splits sum.splits)

text \<open>C3: however often submissions are retried, at most one order exists for a correlation
  identifier: over any sequence of submissions the accepted orders have
  distinct identifiers, each is what a later lookup returns, and an order known
  before is still known unchanged after.\<close>

theorem paper_broker_idempotent:
  assumes "broker_reach b" "submit_each qb now iqs b = (accepted, b')"
  shows "distinct (map fst accepted)
    \<and> (\<forall>(cid, ord) \<in> set accepted.
          order_by_correlation_id b cid = None \<and> order_by_correlation_id b' cid = Some ord)
    \<and> (\<forall>cid ord. order_by_correlation_id b cid = Some ord \<longrightarrow> order_by_correlation_id b' cid = Some ord)"
  using paper.submit_all_spec [OF reach_inv [OF assms(1)] assms(2) [unfolded submit_each_all]] by blast

definition ex_retry :: "(string \<times> order) list \<times> paper_broker" where
  "ex_retry = submit_each None (ex_time 5)
     (replicate 3 (ex_intent MARKET None, ex_quote 0 (Some 100) (Some 101))) ex_broker"

theorem paper_broker_idempotent_witness: "distinct (map fst (fst ex_retry))"
  using paper_broker_idempotent [OF ex_broker_reach, of None "ex_time 5"
      "replicate 3 (ex_intent MARKET None, ex_quote 0 (Some 100) (Some 101))" "fst ex_retry" "snd ex_retry"]
  by (simp add: ex_retry_def)

text \<open>A resting limit order fills only from a quote of its own instrument at or after
  its latency deadline whose price reaches the limit, at exactly the limit
  price, and never beyond its quantity.\<close>

theorem limit_order_fills_at_limit:
  assumes "broker_reach b" "on_quote now q b = (Inr os, b')" "ord \<in> set os"
  shows "\<exists>w limit. dict_get (pb_working b) (od_correlation_id ord) = Some w
    \<and> oi_security_id (wo_intent w) = qt_security_id q
    \<and> wo_eligible_at w \<le> qt_quoted_at q
    \<and> oi_limit_price (wo_intent w) = Some limit \<and> 0 < limit
    \<and> (oi_side (wo_intent w) = BUY \<longrightarrow> (case qt_ask q of Some a \<Rightarrow> a \<le> limit | None \<Rightarrow> qt_last_price q \<le> limit))
    \<and> (oi_side (wo_intent w) = SELL \<longrightarrow> (case qt_bid q of Some a \<Rightarrow> limit \<le> a | None \<Rightarrow> limit \<le> qt_last_price q))
    \<and> od_fills ord \<noteq> [] \<and> (\<forall>f \<in> set (od_fills ord). fl_price f = limit)
    \<and> od_filled_quantity ord \<le> oi_quantity (wo_intent w)"
proof -
  from on_quote_spec [OF reach_inv [OF assms(1)] assms(2)] assms(3)
  obtain w limit where s: "dict_get (pb_working b) (od_correlation_id ord) = Some w"
       "oi_security_id (wo_intent w) = qt_security_id q"
       "\<not> qt_quoted_at q < wo_eligible_at w"
       "oi_limit_price (wo_intent w) = Some limit"
       "limit_eligible b (wo_intent w) limit q"
       "od_fills ord \<noteq> []"
       "\<forall>f \<in> set (od_fills ord). fl_price f = limit"
       "od_filled_quantity ord \<le> oi_quantity (wo_intent w)"
    unfolding settled_def by blast
  have "opt_holds (\<lambda>l. 0 < l) (oi_limit_price (wo_intent w))"
    using reach_inv [OF assms(1)] s(1) unfolding broker_inv_def working_ok_def by blast
  with s show ?thesis
    by (intro exI [of _ w] exI [of _ limit])
      (auto simp: limit_eligible_def fallback_price_def datetime_order not_less
        split: option.splits if_splits)
qed

theorem limit_order_fills_at_limit_witness:
  "\<exists>w limit. dict_get (pb_working (snd ex_limit)) (od_correlation_id (hd (projr (fst ex_settled)))) = Some w
     \<and> oi_limit_price (wo_intent w) = Some limit
     \<and> list_all (\<lambda>f. fl_price f = limit) (od_fills (hd (projr (fst ex_settled))))"
proof -
  have "hd (projr (fst ex_settled)) \<in> set (projr (fst ex_settled))"
    using ex_settled_ok(2) by (cases "projr (fst ex_settled)") auto
  from limit_order_fills_at_limit [OF ex_limit_reach ex_settled_run this [unfolded ex_settled_def]]
  show ?thesis unfolding ex_settled_def list_all_iff by blast
qed

text \<open>A submission under a known correlation identifier is refused as a duplicate, and
  nothing of the broker moves but the counter of that refusal.\<close>

theorem submit_duplicate_refused:
  assumes "order_by_correlation_id b (oi_correlation_id i) = Some ord"
  shows "submit qb now i q b =
    (Inl (PaperRejection DUPLICATE_CORRELATION_ID),
     b\<lparr>pb_rejections := dict_set DUPLICATE_CORRELATION_ID
          (case dict_get (pb_rejections b) DUPLICATE_CORRELATION_ID of None \<Rightarrow> 1 | Some n \<Rightarrow> n + 1)
          (pb_rejections b)\<rparr>)"
  using assms
  by (simp add: submit_def validate_def validate_checks_def order_by_correlation_id_def refuse_def)

text \<open>
  The depth check of the validation looks at the submission quote, the pricing
  at the quote the latency model selects: with the fallback disabled, a
  validated market order is refused for lack of depth in the pricing step.
\<close>

definition ex_thin_config :: paper_fill_config where
  "ex_thin_config = default_fill_config\<lparr>pf_allow_ltp_fallback := False\<rparr>"

definition ex_thin_book :: quote_book where
  "ex_thin_book = \<lparr>qb_depth = 64, qb_quotes = [(''42'', [ex_quote 300 None None])], qb_recorded = 1\<rparr>"

theorem depth_lost_after_validation:
  "\<exists>b. broker_reach b
     \<and> returned (validate_checks (ex_time 5) (ex_intent MARKET None) (ex_quote 0 (Some 100) (Some 101)) b)
     \<and> fst (submit (Some ex_thin_book) (ex_time 5) (ex_intent MARKET None) (ex_quote 0 (Some 100) (Some 101)) b)
         = Inl (PaperRejection NO_DEPTH)"
proof (intro exI conjI)
  let ?b = "new_paper_broker ex_thin_config default_cost_rates None None whole_quantity"
  show "broker_reach ?b" by (rule broker_new)
  show "returned (validate_checks (ex_time 5) (ex_intent MARKET None) (ex_quote 0 (Some 100) (Some 101)) ?b)"
    by code_simp
  show "fst (submit (Some ex_thin_book) (ex_time 5) (ex_intent MARKET None)
      (ex_quote 0 (Some 100) (Some 101)) ?b) = Inl (PaperRejection NO_DEPTH)"
    by code_simp
qed

text \<open>The refusal of a ticks slippage without a tick size is not counted as a rejection.\<close>

theorem slippage_refusal_uncounted:
  "\<exists>b. broker_reach b
     \<and> submit None (ex_time 5) (ex_intent MARKET None) (ex_quote 0 (Some 100) (Some 101)) b
         = (Inl (PaperRejection INVALID_TICK_PRICE), b\<lparr>pb_latency_not_applied := 1\<rparr>)
     \<and> pb_rejections b = []"
proof (intro exI conjI)
  let ?b = "new_paper_broker (default_fill_config\<lparr>pf_tick_size := None\<rparr>) default_cost_rates None None whole_quantity"
  show "broker_reach ?b" by (rule broker_new)
  show "submit None (ex_time 5) (ex_intent MARKET None) (ex_quote 0 (Some 100) (Some 101)) ?b
      = (Inl (PaperRejection INVALID_TICK_PRICE), ?b\<lparr>pb_latency_not_applied := 1\<rparr>)"
    by (simp add: submit_def validate_def validate_checks_def new_paper_broker_def ex_intent_def
        ex_quote_def default_fill_config_def rules_for_def no_rules_def check_quantity_def
        check_limit_price_def check_freshness_def check_session_def has_depth_def fill_now_def
        select_quote_def market_price_def tick_for_def slippage_amount_def default_slippage_def)
  show "pb_rejections ?b = []" by (simp add: new_paper_broker_def)
qed

end
