(* ===== verification/Lifecycle.thy ===== *)
theory Lifecycle
  imports Correlation Repository Paper_Broker
begin

text \<open>
  common/execution/lifecycle.py: one signal taken through to a persisted
  position.  The broker is a parameter, the submit operation of the Broker
  protocol over an abstract broker state; the database and the broker are the
  state.  An operation that raises leaves both as they are at that point, which
  is also what a crash there leaves.
\<close>

record lifecycle =
  lc_runtime_id :: string
  lc_strategy_id :: string
  lc_execution_mode :: execution_mode
  lc_session_id :: nat
  lc_product_type :: string
  lc_config_fingerprint :: "string option"

record execution_result =
  xr_correlation_id :: "string option"
  xr_order :: "order option"
  xr_position :: "position option"
  xr_skipped_reason :: "string option"

definition traded :: "execution_result \<Rightarrow> bool" where
  "traded r = (xr_order r \<noteq> None)"

definition quote_for :: "quote_book option \<Rightarrow> signal \<Rightarrow> quote" where
  "quote_for book sig =
     (let synthesised = \<lparr>qt_security_id = sg_security_id sig, qt_last_price = sg_reference_price sig,
            qt_quoted_at = sg_evaluated_at sig, qt_bid = None, qt_ask = None\<rparr>
      in case book of
           None \<Rightarrow> synthesised
         | Some b \<Rightarrow> (case latest b (sg_security_id sig) of None \<Rightarrow> synthesised | Some live \<Rightarrow> live))"

text \<open>Only a BrokerError is handled; its text is abstracted to the rejection's code.\<close>

definition is_broker_error :: "exn \<Rightarrow> bool" where
  "is_broker_error e = (case e of PaperRejection _ \<Rightarrow> True | _ \<Rightarrow> False)"

definition code_text :: "rejection_code \<Rightarrow> string" where
  "code_text c = (case c of INVALID_INSTRUMENT \<Rightarrow> ''INVALID_INSTRUMENT'' | INVALID_QUANTITY \<Rightarrow> ''INVALID_QUANTITY''
     | INVALID_TICK_PRICE \<Rightarrow> ''INVALID_TICK_PRICE'' | STALE_QUOTE \<Rightarrow> ''STALE_QUOTE'' | NO_DEPTH \<Rightarrow> ''NO_DEPTH''
     | MARKET_CLOSED \<Rightarrow> ''MARKET_CLOSED'' | RISK_BLOCKED \<Rightarrow> ''RISK_BLOCKED''
     | DUPLICATE_CORRELATION_ID \<Rightarrow> ''DUPLICATE_CORRELATION_ID'' | INJECTED_FAILURE \<Rightarrow> ''INJECTED_FAILURE'')"

definition exn_text :: "exn \<Rightarrow> string" where
  "exn_text e = (case e of PaperRejection c \<Rightarrow> code_text c | _ \<Rightarrow> [])"

definition intent_of :: "lifecycle \<Rightarrow> signal \<Rightarrow> string \<Rightarrow> string \<Rightarrow> int \<Rightarrow> nat \<Rightarrow> datetime \<Rightarrow> order_intent" where
  "intent_of lc sig trading_date cid sequence signal_id now =
     \<lparr>oi_correlation_id = cid, oi_strategy_id = lc_strategy_id lc, oi_runtime_id = lc_runtime_id lc,
      oi_execution_mode = lc_execution_mode lc, oi_trading_date = trading_date,
      oi_sequence_number = sequence, oi_instrument = sg_instrument sig,
      oi_security_id = sg_security_id sig, oi_side = sg_side sig, oi_quantity = sg_quantity sig,
      oi_order_type = MARKET, oi_product_type = lc_product_type lc, oi_created_at = now,
      oi_limit_price = None, oi_trigger_price = None, oi_signal_id = Some signal_id,
      oi_basket_id = None, oi_leg_id = None, oi_config_fingerprint = lc_config_fingerprint lc,
      oi_risk_decision = ALLOWED, oi_risk_reason = None\<rparr>"

definition rejected_order :: "lifecycle \<Rightarrow> string \<Rightarrow> exn \<Rightarrow> datetime \<Rightarrow> order" where
  "rejected_order lc cid e now =
     \<lparr>od_correlation_id = cid, od_strategy_id = lc_strategy_id lc,
      od_execution_mode = lc_execution_mode lc, od_status = REJECTED, od_updated_at = now,
      od_broker_order_id = None, od_filled_quantity = 0, od_average_fill_price = None,
      od_rejection_reason = Some (exn_text e), od_fills = []\<rparr>"

definition apply_signal_fill ::
  "lifecycle \<Rightarrow> signal \<Rightarrow> string \<Rightarrow> money option \<Rightarrow> money option \<Rightarrow> datetime \<Rightarrow> nat \<Rightarrow> order_status \<Rightarrow> fill \<Rightarrow> db
    \<Rightarrow> position result \<times> db" where
  "apply_signal_fill lc sig trading_date stop target now order_id status f d =
     apply_fill order_id (lc_runtime_id lc) f status (sg_instrument sig) (sg_security_id sig)
       (sg_side sig) trading_date stop target (Some (cd_end_at (sg_candle sig))) now d"

fun apply_fills ::
  "(fill \<Rightarrow> db \<Rightarrow> position result \<times> db) \<Rightarrow> fill list \<Rightarrow> position option \<Rightarrow> db
    \<Rightarrow> position option result \<times> db" where
  "apply_fills ap [] p d = (Inr p, d)"
| "apply_fills ap (f # fs) p d =
     (case ap f d of
        (Inl e, d1) \<Rightarrow> (Inl e, d1)
      | (Inr p1, d1) \<Rightarrow> apply_fills ap fs (Some p1) d1)"

text \<open>Before the broker: the signal, the correlation identifier and the reserved intent.\<close>

definition reserve_signal ::
  "lifecycle \<Rightarrow> datetime \<Rightarrow> signal \<Rightarrow> string \<Rightarrow> nat \<Rightarrow> db \<Rightarrow> (nat \<times> order_intent) result \<times> db" where
  "reserve_signal lc now sig trading_date signal_id d =
     (let sequence = next_sequence_number (lc_strategy_id lc) (lc_execution_mode lc) trading_date d
      in case build_correlation_id (lc_execution_mode lc) (lc_runtime_id lc) (lc_strategy_id lc)
                trading_date sequence of
           Inl e \<Rightarrow> (Inl e, d)
         | Inr cid \<Rightarrow>
             let intent = intent_of lc sig trading_date cid sequence signal_id now in
             (case reserve_intent (lc_session_id lc) intent d of
                (Inl e, d1) \<Rightarrow> (Inl e, d1)
              | (Inr intent_id, d1) \<Rightarrow> (Inr (intent_id, intent), d1)))"

text \<open>After the broker: the response and its fills, or the rejection.\<close>

definition persist_rejection ::
  "lifecycle \<Rightarrow> datetime \<Rightarrow> nat \<Rightarrow> string \<Rightarrow> exn \<Rightarrow> db \<Rightarrow> execution_result result \<times> db" where
  "persist_rejection lc now intent_id cid e d =
     (let d1 = record_error (lc_runtime_id lc) (Some (lc_strategy_id lc)) (Some (lc_execution_mode lc))
                 ''ERROR'' ''broker.submit'' (exn_text e) (Some cid) now d;
          rejected = rejected_order lc cid e now
      in case record_submission intent_id rejected (lc_runtime_id lc) now d1 of
           (Inl e', d2) \<Rightarrow> (Inl e', d2)
         | (Inr order_id, d2) \<Rightarrow>
             (Inr \<lparr>xr_correlation_id = Some cid, xr_order = Some rejected, xr_position = None,
                   xr_skipped_reason = Some (''broker rejected: '' @ exn_text e)\<rparr>, d2))"

definition persist_order ::
  "lifecycle \<Rightarrow> datetime \<Rightarrow> signal \<Rightarrow> string \<Rightarrow> money option \<Rightarrow> money option \<Rightarrow> nat \<Rightarrow> string \<Rightarrow> order \<Rightarrow> db
    \<Rightarrow> execution_result result \<times> db" where
  "persist_order lc now sig trading_date stop target intent_id cid ord d =
     (case record_submission intent_id ord (lc_runtime_id lc) now d of
        (Inl e, d1) \<Rightarrow> (Inl e, d1)
      | (Inr order_id, d1) \<Rightarrow>
          (case apply_fills (apply_signal_fill lc sig trading_date stop target now order_id (od_status ord))
                  (od_fills ord) None d1 of
             (Inl e, d2) \<Rightarrow> (Inl e, d2)
           | (Inr p, d2) \<Rightarrow>
               (Inr \<lparr>xr_correlation_id = Some cid, xr_order = Some ord, xr_position = p,
                     xr_skipped_reason = None\<rparr>, d2)))"

definition handle_signal ::
  "(order_intent \<Rightarrow> quote \<Rightarrow> 'b \<Rightarrow> order result \<times> 'b) \<Rightarrow> lifecycle \<Rightarrow> quote_book option \<Rightarrow> datetime
    \<Rightarrow> signal \<Rightarrow> string \<Rightarrow> money option \<Rightarrow> money option \<Rightarrow> db \<times> 'b
    \<Rightarrow> execution_result result \<times> (db \<times> 'b)" where
  "handle_signal submit_op lc book now sig trading_date stop target st =
     (case st of (d, b) \<Rightarrow>
      case record_signal (lc_session_id lc) (lc_runtime_id lc) sig trading_date (lc_config_fingerprint lc) d of
        (None, d1) \<Rightarrow>
          (Inr \<lparr>xr_correlation_id = None, xr_order = None, xr_position = None,
                xr_skipped_reason = Some ''duplicate signal for this candle''\<rparr>, (d1, b))
      | (Some signal_id, d1) \<Rightarrow>
          (case reserve_signal lc now sig trading_date signal_id d1 of
             (Inl e, d2) \<Rightarrow> (Inl e, (d2, b))
           | (Inr (intent_id, intent), d2) \<Rightarrow>
               (case submit_op intent (quote_for book sig) b of
                  (Inl e, b1) \<Rightarrow>
                    if is_broker_error e
                    then (case persist_rejection lc now intent_id (oi_correlation_id intent) e d2 of
                            (r, d3) \<Rightarrow> (r, (d3, b1)))
                    else (Inl e, (d2, b1))
                | (Inr ord, b1) \<Rightarrow>
                    (case persist_order lc now sig trading_date stop target intent_id
                            (oi_correlation_id intent) ord d2 of
                       (r, d3) \<Rightarrow> (r, (d3, b1))))))"

section \<open>Commit points\<close>

text \<open>
  The same method as a sequence of steps, one per committed transaction or
  broker call: each rule is one call the method makes on the repository or the
  broker, with its arguments, and the phase is the point of the method a
  process has reached, with the locals it still needs.  A call that raises ends
  the method.  A crash can follow any step: the database and the broker stay,
  the phase is lost.  The answer of the broker depends on the quotes and the
  clock at the call, so the steps are over the set of submit operations those
  give; the clock may differ from step to step.
\<close>

datatype phase =
    Idle
  | Recorded signal string nat
  | Reserved signal string nat order_intent
  | Refused nat string exn
  | Rejecting nat string exn
  | Answered signal string nat string order
  | Filling signal string nat order_status "fill list"

inductive life_step ::
  "(order_intent \<Rightarrow> quote \<Rightarrow> 'b \<Rightarrow> order result \<times> 'b) set \<Rightarrow> lifecycle
    \<Rightarrow> db \<times> 'b \<times> phase \<Rightarrow> db \<times> 'b \<times> phase \<Rightarrow> bool"
  for asks :: "(order_intent \<Rightarrow> quote \<Rightarrow> 'b \<Rightarrow> order result \<times> 'b) set" and lc :: lifecycle where
  ls_record: "record_signal (lc_session_id lc) (lc_runtime_id lc) sig td (lc_config_fingerprint lc) d = (Some k, d1)
     \<Longrightarrow> life_step asks lc (d, b, Idle) (d1, b, Recorded sig td k)"
| ls_duplicate: "record_signal (lc_session_id lc) (lc_runtime_id lc) sig td (lc_config_fingerprint lc) d = (None, d1)
     \<Longrightarrow> life_step asks lc (d, b, Idle) (d1, b, Idle)"
| ls_reserve: "sequence = next_sequence_number (lc_strategy_id lc) (lc_execution_mode lc) td d
     \<Longrightarrow> build_correlation_id (lc_execution_mode lc) (lc_runtime_id lc) (lc_strategy_id lc) td sequence = Inr cid
     \<Longrightarrow> intent = intent_of lc sig td cid sequence k now
     \<Longrightarrow> reserve_intent (lc_session_id lc) intent d = (Inr iid, d1)
     \<Longrightarrow> life_step asks lc (d, b, Recorded sig td k) (d1, b, Reserved sig td iid intent)"
| ls_unnamed: "build_correlation_id (lc_execution_mode lc) (lc_runtime_id lc) (lc_strategy_id lc) td
       (next_sequence_number (lc_strategy_id lc) (lc_execution_mode lc) td d) = Inl e
     \<Longrightarrow> life_step asks lc (d, b, Recorded sig td k) (d, b, Idle)"
| ls_unreserved: "sequence = next_sequence_number (lc_strategy_id lc) (lc_execution_mode lc) td d
     \<Longrightarrow> build_correlation_id (lc_execution_mode lc) (lc_runtime_id lc) (lc_strategy_id lc) td sequence = Inr cid
     \<Longrightarrow> reserve_intent (lc_session_id lc) (intent_of lc sig td cid sequence k now) d = (Inl e, d1)
     \<Longrightarrow> life_step asks lc (d, b, Recorded sig td k) (d1, b, Idle)"
| ls_submit: "ask \<in> asks \<Longrightarrow> ask intent (quote_for book sig) b = (Inr ord, b1)
     \<Longrightarrow> life_step asks lc (d, b, Reserved sig td iid intent)
          (d, b1, Answered sig td iid (oi_correlation_id intent) ord)"
| ls_refuse: "ask \<in> asks \<Longrightarrow> ask intent (quote_for book sig) b = (Inl e, b1)
     \<Longrightarrow> life_step asks lc (d, b, Reserved sig td iid intent)
          (d, b1, if is_broker_error e then Refused iid (oi_correlation_id intent) e else Idle)"
| ls_error: "d1 = record_error (lc_runtime_id lc) (Some (lc_strategy_id lc)) (Some (lc_execution_mode lc))
                 ''ERROR'' ''broker.submit'' (exn_text e) (Some cid) now d
     \<Longrightarrow> life_step asks lc (d, b, Refused iid cid e) (d1, b, Rejecting iid cid e)"
| ls_reject: "record_submission iid (rejected_order lc cid e now) (lc_runtime_id lc) now' d = (r, d1)
     \<Longrightarrow> life_step asks lc (d, b, Rejecting iid cid e) (d1, b, Idle)"
| ls_persist: "record_submission iid ord (lc_runtime_id lc) now d = (Inr oid, d1)
     \<Longrightarrow> life_step asks lc (d, b, Answered sig td iid cid ord)
          (d1, b, Filling sig td oid (od_status ord) (od_fills ord))"
| ls_unpersisted: "record_submission iid ord (lc_runtime_id lc) now d = (Inl e, d1)
     \<Longrightarrow> life_step asks lc (d, b, Answered sig td iid cid ord) (d1, b, Idle)"
| ls_fill: "apply_fill oid (lc_runtime_id lc) f status (sg_instrument sig) (sg_security_id sig) (sg_side sig) td
       stop target (Some (cd_end_at (sg_candle sig))) now d = (Inr p, d1)
     \<Longrightarrow> life_step asks lc (d, b, Filling sig td oid status (f # fs)) (d1, b, Filling sig td oid status fs)"
| ls_unfilled: "apply_fill oid (lc_runtime_id lc) f status (sg_instrument sig) (sg_security_id sig) (sg_side sig) td
       stop target (Some (cd_end_at (sg_candle sig))) now d = (Inl e, d1)
     \<Longrightarrow> life_step asks lc (d, b, Filling sig td oid status (f # fs)) (d1, b, Idle)"
| ls_done: "life_step asks lc (d, b, Filling sig td oid status []) (d, b, Idle)"
| ls_crash: "life_step asks lc (d, b, ph) (d, b, Idle)"

inductive_cases life_stepE: "life_step asks lc s s'"

abbreviation life_steps ::
  "(order_intent \<Rightarrow> quote \<Rightarrow> 'b \<Rightarrow> order result \<times> 'b) set \<Rightarrow> lifecycle
    \<Rightarrow> db \<times> 'b \<times> phase \<Rightarrow> db \<times> 'b \<times> phase \<Rightarrow> bool" where
  "life_steps asks lc \<equiv> (life_step asks lc)\<^sup>*\<^sup>*"

section \<open>The handler runs the steps\<close>

lemmas step_then = converse_rtranclp_into_rtranclp

lemma step_last: "life_step asks lc s s' \<Longrightarrow> life_steps asks lc s s'"
  by (rule r_into_rtranclp)

lemma apply_fills_steps:
  assumes "apply_fills (apply_signal_fill lc sig td stop target now oid status) fs p d = (r, d')"
  shows "life_steps asks lc (d, b, Filling sig td oid status fs) (d', b, Idle)"
  using assms
proof (induction fs arbitrary: p d)
  case Nil
  then show ?case by (auto intro!: r_into_rtranclp ls_done)
next
  case (Cons f fs)
  obtain r1 d1 where a: "apply_signal_fill lc sig td stop target now oid status f d = (r1, d1)" by fastforce
  show ?case
  proof (cases r1)
    case (Inl e)
    with a Cons(2) have "d' = d1" by simp
    with a Inl show ?thesis unfolding apply_signal_fill_def by (auto intro!: r_into_rtranclp ls_unfilled)
  next
    case (Inr p1)
    with a Cons(2) have "apply_fills (apply_signal_fill lc sig td stop target now oid status) fs (Some p1) d1 = (r, d')"
      by simp
    from Cons(1) [OF this] have "life_steps asks lc (d1, b, Filling sig td oid status fs) (d', b, Idle)" .
    from step_then [OF ls_fill this] a Inr show ?thesis unfolding apply_signal_fill_def by simp
  qed
qed

lemma persist_order_steps:
  assumes "persist_order lc now sig td stop target iid cid ord d = (r, d')"
  shows "life_steps asks lc (d, b, Answered sig td iid cid ord) (d', b, Idle)"
proof (cases "record_submission iid ord (lc_runtime_id lc) now d")
  case (Pair x d1)
  show ?thesis
  proof (cases x)
    case (Inl e)
    then have "d' = d1" using assms Pair by (simp add: persist_order_def)
    with Pair Inl show ?thesis by (auto intro!: r_into_rtranclp ls_unpersisted)
  next
    case (Inr oid)
    obtain r2 d2 where l: "apply_fills (apply_signal_fill lc sig td stop target now oid (od_status ord))
        (od_fills ord) None d1 = (r2, d2)" by fastforce
    have "d' = d2" using assms Pair Inr l by (auto simp: persist_order_def split: sum.splits)
    show ?thesis unfolding \<open>d' = d2\<close>
      by (rule step_then [OF ls_persist apply_fills_steps [OF l]]) (use Pair Inr in simp)
  qed
qed

lemma reserve_signal_steps:
  assumes "reserve_signal lc now sig td k d = (x, d')"
  shows "case x of Inl e \<Rightarrow> life_step asks lc (d, b, Recorded sig td k) (d', b, Idle)
    | Inr (iid, i) \<Rightarrow> life_step asks lc (d, b, Recorded sig td k) (d', b, Reserved sig td iid i)"
  using assms
  by (auto simp: reserve_signal_def Let_def split: sum.splits prod.splits
      intro: ls_unnamed ls_unreserved [OF refl] ls_reserve [OF refl _ refl])

lemma persist_rejection_steps:
  assumes "persist_rejection lc now iid cid e d = (r, d')"
  shows "life_steps asks lc (d, b, Refused iid cid e) (d', b, Idle)"
proof -
  let ?d1 = "record_error (lc_runtime_id lc) (Some (lc_strategy_id lc)) (Some (lc_execution_mode lc))
                 ''ERROR'' ''broker.submit'' (exn_text e) (Some cid) now d"
  obtain x where "record_submission iid (rejected_order lc cid e now) (lc_runtime_id lc) now ?d1 = (x, d')"
    using assms by (auto simp: persist_rejection_def Let_def split: sum.splits prod.splits)
  from step_then [OF ls_error [OF refl] step_last [OF ls_reject [OF this]]] show ?thesis .
qed

lemma handle_signal_steps:
  assumes "submit_op \<in> asks" "handle_signal submit_op lc book now sig td stop target (d, b) = (r, (d', b'))"
  shows "life_steps asks lc (d, b, Idle) (d', b', Idle)"
proof (cases "record_signal (lc_session_id lc) (lc_runtime_id lc) sig td (lc_config_fingerprint lc) d")
  case rs: (Pair k d1)
  show ?thesis
  proof (cases k)
    case None
    with assms(2) rs have "d' = d1 \<and> b' = b" by (simp add: handle_signal_def)
    with rs None show ?thesis by (auto intro!: r_into_rtranclp ls_duplicate)
  next
    case (Some sid)
    have s1: "life_step asks lc (d, b, Idle) (d1, b, Recorded sig td sid)"
      by (rule ls_record) (use rs Some in simp)
    obtain x d2 where rv: "reserve_signal lc now sig td sid d1 = (x, d2)" by fastforce
    show ?thesis
    proof (cases x)
      case (Inl e)
      with assms(2) rs Some rv have "d' = d2 \<and> b' = b" by (simp add: handle_signal_def)
      moreover have "life_steps asks lc (d, b, Idle) (d2, b, Idle)"
        by (rule step_then [OF s1 step_last])
          (use reserve_signal_steps [OF rv, of asks b] Inl in simp)
      ultimately show ?thesis by simp
    next
      case (Inr ii)
      obtain iid intent where ii: "ii = (iid, intent)" by fastforce
      have s2: "life_step asks lc (d1, b, Recorded sig td sid) (d2, b, Reserved sig td iid intent)"
        using reserve_signal_steps [OF rv, of asks b] Inr ii by simp
      obtain y b1 where sb: "submit_op intent (quote_for book sig) b = (y, b1)" by fastforce
      have "life_steps asks lc (d2, b, Reserved sig td iid intent) (d', b', Idle)"
      proof (cases y)
        case y: (Inl e)
        have s3: "life_step asks lc (d2, b, Reserved sig td iid intent)
            (d2, b1, if is_broker_error e then Refused iid (oi_correlation_id intent) e else Idle)"
          by (rule ls_refuse [OF assms(1)]) (use sb y in simp)
        show ?thesis
        proof (cases "is_broker_error e")
          case True
          then obtain r3 d3 where pr: "persist_rejection lc now iid (oi_correlation_id intent) e d2 = (r3, d3)"
            by fastforce
          have "d' = d3 \<and> b' = b1" using assms(2) rs Some rv Inr ii sb y True pr
            by (simp add: handle_signal_def)
          moreover have "life_steps asks lc (d2, b, Reserved sig td iid intent) (d3, b1, Idle)"
            by (rule step_then [OF s3 [unfolded if_P [OF True]] persist_rejection_steps [OF pr]])
          ultimately show ?thesis by simp
        next
          case False
          then have "d' = d2 \<and> b' = b1" using assms(2) rs Some rv Inr ii sb y by (simp add: handle_signal_def)
          with s3 False show ?thesis by auto
        qed
      next
        case y: (Inr ord)
        obtain r3 d3 where po: "persist_order lc now sig td stop target iid (oi_correlation_id intent) ord d2 = (r3, d3)"
          by fastforce
        have "d' = d3 \<and> b' = b1" using assms(2) rs Some rv Inr ii sb y po by (simp add: handle_signal_def)
        moreover have "life_steps asks lc (d2, b, Reserved sig td iid intent) (d3, b1, Idle)"
          by (rule step_then [OF ls_submit [OF assms(1)] persist_order_steps [OF po]]) (use sb y in simp)
        ultimately show ?thesis by simp
      qed
      from step_then [OF s1 step_then [OF s2 this]] show ?thesis .
    qed
  qed
qed

section \<open>Reserved before submitted\<close>

definition reserved :: "db \<Rightarrow> string \<Rightarrow> bool" where
  "reserved d cid = row_exists (\<lambda>r. intent_cid r = cid) (db_intents d)"

lemma record_signal_intents: "record_signal a b sg t f d = (x, d') \<Longrightarrow> db_intents d' = db_intents d"
  by (auto simp: record_signal_def Let_def split: if_splits)

lemma record_submission_intents: "record_submission k ord a now d = (x, d') \<Longrightarrow> db_intents d' = db_intents d"
  by (auto simp: record_submission_def Let_def split: if_splits option.splits)

lemma record_error_intents: "db_intents (record_error a b m s c g e now d) = db_intents d"
  by (simp add: record_error_def)

lemma persist_rejection_intents:
  "persist_rejection lc now iid cid e d = (r, d') \<Longrightarrow> db_intents d' = db_intents d"
  by (auto simp: persist_rejection_def record_error_def Let_def dest!: record_submission_intents
      split: sum.splits prod.splits)

lemma upsert_position_intents:
  "upsert_position rt f ins sid s td stop target now d = (x, d') \<Longrightarrow> db_intents d' = db_intents d"
  by (auto simp: upsert_position_def Let_def split: option.splits)

lemma apply_fill_intents:
  "apply_fill k rt f status ins sid s td stop target lc now d = (x, d') \<Longrightarrow> db_intents d' = db_intents d"
  by (auto simp: apply_fill_alt touch_strategy_state_def Let_def before_position_frame
      dest!: upsert_position_intents split: if_splits option.splits prod.splits sum.splits)

lemma reserve_intent_reserved:
  "reserve_intent k i d = (x, d') \<Longrightarrow>
     (\<forall>cid. reserved d cid \<longrightarrow> reserved d' cid) \<and> (\<forall>n. x = Inr n \<longrightarrow> reserved d' (oi_correlation_id i))"
  by (auto simp: reserve_intent_def reserved_def row_exists_list intent_cid_def Let_def split: if_splits)

lemma reserve_signal_reserved:
  "reserve_signal lc now sig td k d = (x, d') \<Longrightarrow>
     (\<forall>cid. reserved d cid \<longrightarrow> reserved d' cid)
     \<and> (\<forall>n i. x = Inr (n, i) \<longrightarrow> reserved d' (oi_correlation_id i))"
  by (auto simp: reserve_signal_def Let_def dest!: reserve_intent_reserved split: sum.splits prod.splits)

lemma reserved_same: "db_intents d' = db_intents d \<Longrightarrow> reserved d' = reserved d"
  by (simp add: reserved_def fun_eq_iff)

lemma reserved_record_error [simp]: "reserved (record_error a b m s c g e now d) = reserved d"
  by (rule reserved_same) (rule record_error_intents)

definition phase_reserved :: "db \<Rightarrow> phase \<Rightarrow> bool" where
  "phase_reserved d ph = (case ph of Reserved sig td iid i \<Rightarrow> reserved d (oi_correlation_id i) | _ \<Rightarrow> True)"

context broker
begin

text \<open>No order is known to the broker without a reserved intent.\<close>

definition covered :: "db \<Rightarrow> 's \<Rightarrow> bool" where
  "covered d s = (inv s \<and> (\<forall>cid. lookup s cid \<noteq> None \<longrightarrow> reserved d cid))"

lemma submit_covered:
  assumes "covered d s" "reserved d (oi_correlation_id i)" "submit i q s = (r, s')"
  shows "covered d s'"
proof (cases r)
  case (Inl e)
  with assms submit_refused [of s i q e s'] submit_inv [of s i q r s'] show ?thesis
    by (auto simp: covered_def)
next
  case (Inr ord)
  note acc = submit_accepted [of s i q ord s'] submit_inv [of s i q r s']
  have "reserved d cid" if "lookup s' cid \<noteq> None" for cid
    using that acc assms Inr by (cases "cid = oi_correlation_id i") (auto simp: covered_def)
  with acc assms Inr show ?thesis by (auto simp: covered_def)
qed

end

text \<open>The submit operations of the paper broker, whatever the quotes and the clock.\<close>

definition paper_asks :: "(order_intent \<Rightarrow> quote \<Rightarrow> paper_broker \<Rightarrow> order result \<times> paper_broker) set" where
  "paper_asks = {submit qb now | qb now. True}"

definition paper_covered :: "db \<Rightarrow> paper_broker \<Rightarrow> bool" where
  "paper_covered d b = (broker_inv b \<and> (\<forall>cid. order_by_correlation_id b cid \<noteq> None \<longrightarrow> reserved d cid))"

lemma paper_ask_covered:
  assumes "ask \<in> paper_asks" "paper_covered d b" "reserved d (oi_correlation_id i)" "ask i q b = (r, b')"
  shows "paper_covered d b'"
proof -
  obtain qb now where a: "ask = submit qb now" using assms(1) by (auto simp: paper_asks_def)
  show ?thesis
    using paper.submit_covered [of d b i qb now q r b'] assms(2-4)
    by (simp add: paper_covered_def paper.covered_def a)
qed

lemma life_step_covered:
  assumes "life_step paper_asks lc s s'" "s = (d, b, ph)" "s' = (d', b', ph')"
    and "paper_covered d b" "phase_reserved d ph"
  shows "paper_covered d' b' \<and> phase_reserved d' ph'"
proof -
  have mono: "paper_covered d1 b" if "\<forall>cid. reserved d cid \<longrightarrow> reserved d1 cid" for d1
    using that assms(4) by (auto simp: paper_covered_def)
  show ?thesis
    using assms
  proof (cases rule: life_step.cases)
    case (ls_submit ask intent book sig b ord b1 d td iid)
    with assms paper_ask_covered show ?thesis by (force simp: phase_reserved_def)
  next
    case (ls_refuse ask intent book sig b e b1 d td iid)
    with assms paper_ask_covered show ?thesis by (force simp: phase_reserved_def)
  qed (use assms mono in \<open>auto simp: phase_reserved_def
        dest!: reserve_intent_reserved record_signal_intents record_submission_intents
          apply_fill_intents reserved_same\<close>)
qed

section \<open>What a handled signal leaves\<close>

lemma apply_fill_fills_mono:
  "apply_fill k rt f status ins sid s td stop target lc now d = (x, d') \<Longrightarrow>
     row_exists P (db_fills d) \<Longrightarrow> row_exists P (db_fills d')"
proof -
  assume a: "apply_fill k rt f status ins sid s td stop target lc now d = (x, d')"
    and r: "row_exists P (db_fills d)"
  have up: "db_fills d2 = db_fills d1"
    if "upsert_position rt f ins sid s td stop target now d1 = (y, d2)" for y d1 d2
    using that by (auto simp: upsert_position_def Let_def split: option.splits)
  show ?thesis using a r
    by (auto simp: apply_fill_alt touch_strategy_state_def Let_def before_position_frame row_exists_list
        dest!: up split: if_splits option.splits prod.splits sum.splits)
qed

lemma apply_fills_recorded:
  assumes "db_inv d"
    and "apply_fills (apply_signal_fill lc sig td stop target now oid status) fs p0 d = (Inr p, d')"
    and "\<forall>f \<in> set fs. fl_strategy_id f = st \<and> fl_execution_mode f = m"
  shows "db_inv d'
    \<and> (\<forall>f \<in> set fs. row_exists (\<lambda>r. fill_key r = (oid, fl_broker_fill_id f)) (db_fills d'))
    \<and> (\<forall>P. row_exists P (db_fills d) \<longrightarrow> row_exists P (db_fills d'))
    \<and> p = (if fs = [] then p0 else read_position st m td (sg_security_id sig) d')
    \<and> (p0 \<noteq> None \<or> fs \<noteq> [] \<longrightarrow> p \<noteq> None)"
  using assms
proof (induction fs arbitrary: p0 d)
  case (Cons f fs)
  obtain p1 d1 where a: "apply_signal_fill lc sig td stop target now oid status f d = (Inr p1, d1)"
    and l: "apply_fills (apply_signal_fill lc sig td stop target now oid status) fs (Some p1) d1 = (Inr p, d')"
    using Cons(3) by (auto split: prod.splits sum.splits)
  note af = a [unfolded apply_signal_fill_def]
  have inv1: "db_inv d1" using apply_fill_inv [OF Cons(2) af] .
  note rec = apply_fill_position [OF Cons(2) af]
  have fs: "\<forall>f \<in> set fs. fl_strategy_id f = st \<and> fl_execution_mode f = m" using Cons(4) by simp
  note ih = Cons(1) [OF inv1 l fs]
  have mono: "row_exists P (db_fills d1)" if "row_exists P (db_fills d)" for P
    using apply_fill_fills_mono [OF af that] .
  have p: "p = read_position st m td (sg_security_id sig) d'"
  proof (cases "fs = []")
    case True
    with l rec Cons(4) show ?thesis by simp
  next
    case False
    with ih show ?thesis by simp
  qed
  show ?case using ih rec mono p by (intro conjI) auto
qed simp

lemma reserve_signal_Inr:
  "reserve_signal lc now sig td k d = (Inr (iid, i), d') \<Longrightarrow>
     oi_order_type i = MARKET \<and> oi_strategy_id i = lc_strategy_id lc
     \<and> oi_execution_mode i = lc_execution_mode lc \<and> oi_quantity i = sg_quantity sig
     \<and> oi_side i = sg_side sig"
  by (auto simp: reserve_signal_def Let_def intent_of_def split: sum.splits prod.splits)

lemma reserve_signal_inv:
  "db_inv d \<Longrightarrow> reserve_signal lc now sig td k d = (x, d') \<Longrightarrow> db_inv d'"
  by (auto simp: reserve_signal_def Let_def dest: reserve_intent_inv split: sum.splits prod.splits)

section \<open>A worked signal\<close>

definition life_candle :: candle where
  "life_candle =
     \<lparr>cd_security_id = ''13'', cd_instrument = ''NIFTY'', cd_open = 100, cd_high = 105, cd_low = 99,
      cd_close = 104, cd_volume = 0, cd_start_at = day_time 0, cd_end_at = day_time 300,
      cd_tick_count = 9, cd_last_tick_at = None, cd_spans_gap = False\<rparr>"

definition life_signal :: signal where
  "life_signal =
     \<lparr>sg_strategy_id = ''ema_cross'', sg_execution_mode = PAPER, sg_instrument = ''CE'',
      sg_security_id = ''42'', sg_side = BUY, sg_quantity = 75, sg_candle = life_candle,
      sg_reference_price = 100, sg_evaluated_at = day_time 301, sg_reason = ''cross''\<rparr>"

definition life_config :: lifecycle where
  "life_config =
     \<lparr>lc_runtime_id = ''intraday_options'', lc_strategy_id = ''ema_cross'', lc_execution_mode = PAPER,
      lc_session_id = 1, lc_product_type = ''INTRADAY'', lc_config_fingerprint = None\<rparr>"

definition life_run :: "execution_result result \<times> (db \<times> paper_broker)" where
  "life_run = handle_signal (submit None (day_time 301)) life_config None (day_time 301) life_signal
     ''2026-08-03'' None None (day_start, ex_broker)"

text \<open>The run is evaluated once, with all the facts the examples take from it.\<close>

lemma life_run_facts:
  "(\<lambda>(r, (d, b)). \<not> isl r \<and> xr_skipped_reason (projr r) = None
      \<and> order_by_correlation_id b ''p_io_emac_20260803_0001'' = Some (the (xr_order (projr r)))) life_run"
  by code_simp

lemma life_run_ok: "\<not> isl (fst life_run)"
  using life_run_facts by (simp add: split_beta)

lemma life_run_traded: "xr_skipped_reason (projr (fst life_run)) = None"
  using life_run_facts by (simp add: split_beta)

lemma life_run_eq:
  "handle_signal (submit None (day_time 301)) life_config None (day_time 301) life_signal
     ''2026-08-03'' None None (day_start, ex_broker)
   = (Inr (projr (fst life_run)), (fst (snd life_run), snd (snd life_run)))"
  using life_run_ok by (cases life_run; cases "fst life_run") (auto simp: life_run_def)

section \<open>Properties\<close>

text \<open>C6: however a process crashes between the transactions and the broker call, and however
  often it starts over, the paper broker never knows an order for which the
  database holds no reserved intent.\<close>

theorem broker_never_ahead_of_database:
  assumes "life_steps paper_asks lc (d0, new_paper_broker config charges rules market policy, Idle) (d, b, ph)"
    and "order_by_correlation_id b cid = Some ord"
  shows "row_exists (\<lambda>r. intent_cid r = cid) (db_intents d)"
proof -
  have "(case s of (d, b, ph) \<Rightarrow> paper_covered d b \<and> phase_reserved d ph)"
    if "life_steps paper_asks lc (d0, new_paper_broker config charges rules market policy, Idle) s" for s
    using that
  proof (induction rule: rtranclp_induct)
    case base
    have "pb_orders (new_paper_broker config charges rules market policy) = []"
      by (simp add: new_paper_broker_def)
    then show ?case by (simp add: paper_covered_def phase_reserved_def order_by_correlation_id_def)
  next
    case (step s s')
    obtain d1 b1 ph1 d2 b2 ph2 where "s = (d1, b1, ph1)" "s' = (d2, b2, ph2)" by (metis prod_cases3)
    with step life_step_covered show ?case by fastforce
  qed
  from this [OF assms(1)] assms(2) show ?thesis by (simp add: paper_covered_def reserved_def)
qed

lemma life_run_steps:
  "life_steps paper_asks life_config
     (day_start, new_paper_broker default_fill_config default_cost_rates None None whole_quantity, Idle)
     (fst (snd life_run), snd (snd life_run), Idle)"
  unfolding ex_broker_def [symmetric]
  by (rule handle_signal_steps [OF _ life_run_eq]) (auto simp: paper_asks_def)

lemma life_run_order:
  "order_by_correlation_id (snd (snd life_run)) ''p_io_emac_20260803_0001''
     = Some (the (xr_order (projr (fst life_run))))"
  using life_run_facts by (simp add: split_beta)

theorem broker_never_ahead_of_database_witness:
  "row_exists (\<lambda>r. intent_cid r = ''p_io_emac_20260803_0001'') (db_intents (fst (snd life_run)))"
  by (rule broker_never_ahead_of_database [OF life_run_steps life_run_order])

lemma apply_fill_frame:
  "apply_fill k rt f status ins sid s td stop target lc now d = (x, d') \<Longrightarrow>
     db_signals d' = db_signals d \<and> db_sessions d' = db_sessions d"
proof -
  assume a: "apply_fill k rt f status ins sid s td stop target lc now d = (x, d')"
  have up: "db_signals d2 = db_signals d1 \<and> db_sessions d2 = db_sessions d1"
    if "upsert_position rt f ins sid s td stop target now d1 = (y, d2)" for y d1 d2
    using that by (auto simp: upsert_position_def Let_def split: option.splits)
  show ?thesis using a
    by (auto simp: apply_fill_alt touch_strategy_state_def Let_def before_position_frame
        dest!: up split: if_splits option.splits prod.splits sum.splits)
qed

lemma apply_fills_frame:
  "apply_fills (apply_signal_fill lc sig td stop target now oid status) fs p d = (r, d') \<Longrightarrow>
     db_signals d' = db_signals d \<and> db_sessions d' = db_sessions d"
proof (induction fs arbitrary: p d)
  case (Cons f fs)
  obtain x d1 where a: "apply_signal_fill lc sig td stop target now oid status f d = (x, d1)" by fastforce
  with Cons apply_fill_frame [OF a [unfolded apply_signal_fill_def]] show ?case
    by (cases x) auto
qed simp

lemma apply_fills_intents:
  "apply_fills (apply_signal_fill lc sig td stop target now oid status) fs p d = (r, d') \<Longrightarrow>
     db_intents d' = db_intents d"
proof (induction fs arbitrary: p d)
  case (Cons f fs)
  obtain x d1 where a: "apply_signal_fill lc sig td stop target now oid status f d = (x, d1)" by fastforce
  with Cons apply_fill_intents [OF a [unfolded apply_signal_fill_def]] show ?case
    by (cases x) auto
qed simp

lemma record_submission_frame:
  "record_submission k ord a now d = (x, d') \<Longrightarrow> db_signals d' = db_signals d \<and> db_sessions d' = db_sessions d"
  by (auto simp: record_submission_def Let_def split: if_splits option.splits)

lemma persist_frame:
  "persist_order lc now sig td stop target iid cid ord d = (r, d')
     \<Longrightarrow> db_signals d' = db_signals d \<and> db_sessions d' = db_sessions d"
  "persist_rejection lc now iid cid e d = (r, d')
     \<Longrightarrow> db_signals d' = db_signals d \<and> db_sessions d' = db_sessions d"
  by (auto simp: persist_order_def persist_rejection_def record_error_def Let_def
      dest!: record_submission_frame apply_fills_frame split: sum.splits prod.splits)

lemma reserve_signal_frame:
  "reserve_signal lc now sig td k d = (x, d') \<Longrightarrow> db_signals d' = db_signals d \<and> db_sessions d' = db_sessions d"
  by (auto simp: reserve_signal_def reserve_intent_def Let_def split: sum.splits prod.splits if_splits)

definition candle_key :: "signal \<Rightarrow> string \<times> execution_mode \<times> string \<times> datetime" where
  "candle_key sig = (sg_strategy_id sig, sg_execution_mode sig, sg_instrument sig, cd_end_at (sg_candle sig))"

definition suppressed :: "lifecycle \<Rightarrow> signal \<Rightarrow> db \<Rightarrow> bool" where
  "suppressed lc sig d = (\<not> id_exists (lc_session_id lc) (db_sessions d)
     \<or> row_exists (\<lambda>r. signal_key r = candle_key sig) (db_signals d))"

lemma record_signal_suppressed:
  "record_signal (lc_session_id lc) rt sig td f d = (x, d') \<Longrightarrow>
     (x = None \<longleftrightarrow> suppressed lc sig d) \<and> (x = None \<longrightarrow> d' = d) \<and> suppressed lc sig d'"
  by (auto simp: record_signal_def suppressed_def signal_key_def candle_key_def Let_def row_exists_list
      split: if_splits)

lemma handle_signal_recorded:
  assumes "handle_signal submit_op lc book now sig td stop target (d, b) = (r, (d', b'))"
  shows "suppressed lc sig d'"
proof -
  obtain k d1 where rs: "record_signal (lc_session_id lc) (lc_runtime_id lc) sig td
      (lc_config_fingerprint lc) d = (k, d1)" by fastforce
  have "db_signals d' = db_signals d1 \<and> db_sessions d' = db_sessions d1"
    using assms rs
    by (auto simp: handle_signal_def dest!: reserve_signal_frame persist_frame
        split: option.splits sum.splits prod.splits if_splits)
  then show ?thesis using record_signal_suppressed [OF rs] by (simp add: suppressed_def)
qed

text \<open>A second signal for the same strategy, mode, instrument and candle end is
  suppressed without touching the database or the broker, whatever became of
  the first one, even when it raised.\<close>

theorem duplicate_signal_suppressed:
  assumes "handle_signal submit_op lc book now sig td stop target (d, b) = (r, (d', b'))"
    and "candle_key sig2 = candle_key sig"
  shows "handle_signal submit_op2 lc book2 now2 sig2 td2 stop2 target2 (d', b2)
    = (Inr \<lparr>xr_correlation_id = None, xr_order = None, xr_position = None,
            xr_skipped_reason = Some ''duplicate signal for this candle''\<rparr>, (d', b2))"
proof -
  have "suppressed lc sig2 d'" using handle_signal_recorded [OF assms(1)] assms(2) by (simp add: suppressed_def)
  moreover obtain k d1 where rs: "record_signal (lc_session_id lc) (lc_runtime_id lc) sig2 td2
      (lc_config_fingerprint lc) d' = (k, d1)" by fastforce
  ultimately have "k = None \<and> d1 = d'" using record_signal_suppressed [OF rs] by blast
  with rs show ?thesis by (simp add: handle_signal_def)
qed

theorem duplicate_signal_suppressed_witness:
  "fst (handle_signal (submit None (day_time 400)) life_config None (day_time 400) life_signal
      ''2026-08-03'' None None (fst (snd life_run), snd (snd life_run)))
   = Inr \<lparr>xr_correlation_id = None, xr_order = None, xr_position = None,
            xr_skipped_reason = Some ''duplicate signal for this candle''\<rparr>"
  by (subst duplicate_signal_suppressed [OF life_run_eq refl]) simp

section \<open>What a traded signal is\<close>

text \<open>The order of a signal that traded: priced once, charged leg by leg, at most as large as asked.\<close>

definition order_of_signal :: "paper_broker \<Rightarrow> signal \<Rightarrow> order \<Rightarrow> bool" where
  "order_of_signal b sig ord =
     (\<exists>p. od_fills ord \<noteq> [] \<and> od_average_fill_price ord = Some (py_round 4 p) \<and> 0 < p
        \<and> od_filled_quantity ord = (\<Sum>f\<leftarrow>od_fills ord. fl_quantity f)
        \<and> 0 < od_filled_quantity ord \<and> od_filled_quantity ord \<le> sg_quantity sig
        \<and> od_status ord \<in> {FILLED, PARTIALLY_FILLED}
        \<and> (od_status ord = FILLED \<longleftrightarrow> od_filled_quantity ord = sg_quantity sig)
        \<and> (\<forall>f \<in> set (od_fills ord). fl_price f = p \<and> 0 < fl_quantity f
             \<and> total_for_leg (pb_charges b) (sg_side sig) p (fl_quantity f) = Inr (fl_charges f)))"

lemma submit_market_order:
  assumes "submit qb now i q b = (Inr ord, b')" "oi_order_type i = MARKET"
    and "oi_quantity i = sg_quantity sig" "oi_side i = sg_side sig"
  shows "order_of_signal b sig ord
    \<and> (\<forall>f \<in> set (od_fills ord). fl_strategy_id f = oi_strategy_id i \<and> fl_execution_mode f = oi_execution_mode i)"
proof -
  from submit_Inr [OF assms(1)] obtain r where
    c: "if oi_order_type i = LIMIT then rest now i q b = (Inr ord, b')
     else fill_now qb now i q r b = (Inr ord, b')" by blast
  with assms(2) have "fill_now qb now i q r b = (Inr ord, b')" by simp
  from fill_now_Inr [OF this] obtain sel lat b1 p mth fs where
    f: "fills_spec b1 now i sel p mth lat fs" "ord = build_order i fs" and k: "kept b b1" by blast
  have ch: "pb_charges b1 = pb_charges b" using k by (simp add: kept_def static_def)
  note fs = f(1) [unfolded fills_spec_def]
  note bo = build_order_spec [OF f(1)] build_order_average [OF f(1)]
  have "0 < p" using fs by (cases fs) (auto simp: fill_ok_def)
  moreover have "od_filled_quantity ord = (\<Sum>f\<leftarrow>od_fills ord. fl_quantity f)"
    "od_status ord \<in> {FILLED, PARTIALLY_FILLED}"
    using f(2) by (simp_all add: build_order_def Let_def)
  ultimately have "order_of_signal b sig ord"
    using fs bo f(2) ch assms(3,4) unfolding order_of_signal_def
    by (intro exI [of _ p]) (auto simp: fill_ok_def)
  then show ?thesis using fs bo(1) f(2) by simp
qed

lemma handled_signal_spec:
  assumes "db_inv d" "broker_inv b"
    and "handle_signal (submit qb now) lc book now' sig td stop target (d, b) = (Inr res, (d', b'))"
    and "xr_skipped_reason res = None"
  shows "\<exists>ord oid cid. xr_order res = Some ord \<and> xr_correlation_id res = Some cid
    \<and> order_by_correlation_id b' cid = Some ord \<and> reserved d' cid
    \<and> order_of_signal b sig ord
    \<and> (\<forall>f \<in> set (od_fills ord). row_exists (\<lambda>r. fill_key r = (oid, fl_broker_fill_id f)) (db_fills d'))
    \<and> xr_position res
        = read_position (lc_strategy_id lc) (lc_execution_mode lc) td (sg_security_id sig) d'
    \<and> xr_position res \<noteq> None"
proof -
  from assms(3,4) obtain k d1 iid i d2 ord oid d3 p where
    rs: "record_signal (lc_session_id lc) (lc_runtime_id lc) sig td (lc_config_fingerprint lc) d = (Some k, d1)"
    and rv: "reserve_signal lc now' sig td k d1 = (Inr (iid, i), d2)"
    and sb: "submit qb now i (quote_for book sig) b = (Inr ord, b')"
    and sm: "record_submission iid ord (lc_runtime_id lc) now' d2 = (Inr oid, d3)"
    and af: "apply_fills (apply_signal_fill lc sig td stop target now' oid (od_status ord)) (od_fills ord) None d3
        = (Inr p, d')"
    and res: "res = \<lparr>xr_correlation_id = Some (oi_correlation_id i), xr_order = Some ord, xr_position = p,
                     xr_skipped_reason = None\<rparr>"
    by (auto simp: handle_signal_def persist_rejection_def persist_order_def Let_def
        split: option.splits sum.splits prod.splits if_splits)
  have inv3: "db_inv d3"
    using assms(1) record_signal_inv [OF _ rs] reserve_signal_inv [OF _ rv]
      record_submission_inv [OF _ sm] by blast
  note i = reserve_signal_Inr [OF rv]
  have sg: "order_of_signal b sig ord"
    and fl: "\<forall>f \<in> set (od_fills ord). fl_strategy_id f = lc_strategy_id lc \<and> fl_execution_mode f = lc_execution_mode lc"
    using submit_market_order [OF sb] i by auto
  then have ne: "od_fills ord \<noteq> []" by (auto simp: order_of_signal_def)
  note rec = apply_fills_recorded [OF inv3 af fl]
  have "reserved d2 (oi_correlation_id i)" using reserve_signal_reserved [OF rv] by simp
  moreover have "db_intents d' = db_intents d2"
    using apply_fills_intents [OF af] record_submission_intents [OF sm] by simp
  ultimately have "reserved d' (oi_correlation_id i)" by (simp add: reserved_def)
  moreover have "order_by_correlation_id b' (oi_correlation_id i) = Some ord"
    using paper.submit_accepted [OF assms(2) sb] by simp
  ultimately show ?thesis using rec res ne sg
    by (intro exI [of _ ord] exI [of _ oid] exI [of _ "oi_correlation_id i"]) auto
qed

lemma apply_fills_inv:
  "apply_fills (apply_signal_fill lc sig td stop target now oid status) fs p d = (r, d') \<Longrightarrow> db_inv d \<Longrightarrow> db_inv d'"
proof (induction fs arbitrary: p d)
  case (Cons f fs)
  obtain x d1 where a: "apply_signal_fill lc sig td stop target now oid status f d = (x, d1)" by fastforce
  have "db_inv d1" using apply_fill_inv [OF Cons(3) a [unfolded apply_signal_fill_def]] .
  then show ?case using Cons a by (cases x) auto
qed simp

lemma persist_inv:
  "persist_rejection lc now iid cid e d = (r, d') \<Longrightarrow> db_inv d \<Longrightarrow> db_inv d'"
  "persist_order lc now sig td stop target iid cid ord d = (r, d') \<Longrightarrow> db_inv d \<Longrightarrow> db_inv d'"
  by (auto simp: persist_rejection_def persist_order_def Let_def split: sum.splits prod.splits
      dest: record_submission_inv record_submission_inv [OF record_error_inv] apply_fills_inv)

lemma handle_signal_db_inv:
  assumes "db_inv d" "handle_signal submit_op lc book now sig td stop target (d, b) = (r, (d', b'))"
  shows "db_inv d'"
  using assms
  by (auto simp: handle_signal_def split: option.splits sum.splits prod.splits if_splits
      dest: record_signal_inv reserve_signal_inv persist_inv)

text \<open>A signal that trades through the paper broker leaves its order known to the broker
  under a reserved intent, every one of its fills recorded against one order
  row, and returns the position as it now stands in the database.\<close>

theorem handled_signal_recorded:
  assumes "repo_reach d" "broker_reach b"
    and "handle_signal (submit qb now) lc book now' sig td stop target (d, b) = (Inr res, (d', b'))"
    and "xr_skipped_reason res = None"
  shows "\<exists>ord oid cid. xr_order res = Some ord \<and> xr_correlation_id res = Some cid
    \<and> order_by_correlation_id b' cid = Some ord \<and> reserved d' cid
    \<and> od_fills ord \<noteq> []
    \<and> (\<forall>f \<in> set (od_fills ord). row_exists (\<lambda>r. fill_key r = (oid, fl_broker_fill_id f)) (db_fills d'))
    \<and> xr_position res
        = read_position (lc_strategy_id lc) (lc_execution_mode lc) td (sg_security_id sig) d'
    \<and> xr_position res \<noteq> None"
  using handled_signal_spec [OF repo_reach_inv [OF assms(1)] reach_inv [OF assms(2)] assms(3,4)]
  unfolding order_of_signal_def by blast

theorem handled_signal_recorded_witness:
  "xr_position (projr (fst life_run)) \<noteq> None
   \<and> xr_position (projr (fst life_run)) = read_position ''ema_cross'' PAPER ''2026-08-03'' ''42'' (fst (snd life_run))"
  using handled_signal_recorded [OF day_start_reach ex_broker_reach life_run_eq life_run_traded]
  by (auto simp: life_config_def life_signal_def)

end
