(* ===== verification/Engine_Models.thy ===== *)
theory Engine_Models
  imports Models
begin

text \<open>
  The engine's value types, common/engine/models.py: strategy signals, option
  contracts, open and adopted positions and completed trades.
\<close>

datatype moneyness = ITM | ATM | OTM

datatype signal_action = ENTER | EXIT

record option_selection =
  os_moneyness :: moneyness
  os_steps :: int

record strategy_signal =
  sgl_action :: signal_action
  sgl_timestamp :: datetime
  sgl_option_type :: "option_type option"
  sgl_side :: side
  sgl_option_selection :: "option_selection option"
  sgl_reason :: string
  sgl_exit_reason :: "exit_reason option"

record option_contract =
  oc_symbol :: string
  oc_security_id :: string
  oc_strike :: rat
  oc_option_type :: option_type
  oc_expiry :: string
  oc_lot_size :: int

record open_position =
  op_contract :: option_contract
  op_side :: side
  op_lots :: int
  op_entry_price :: money
  op_entry_time :: datetime
  op_quantity :: int
  op_last_price :: money
  op_max_favorable_pnl :: money
  op_max_adverse_pnl :: money

definition new_open_position ::
  "option_contract \<Rightarrow> side \<Rightarrow> int \<Rightarrow> money \<Rightarrow> datetime \<Rightarrow> open_position" where
  "new_open_position contract s lots entry_price entry_time =
     \<lparr>op_contract = contract, op_side = s, op_lots = lots, op_entry_price = entry_price,
      op_entry_time = entry_time, op_quantity = lots * oc_lot_size contract,
      op_last_price = entry_price, op_max_favorable_pnl = 0, op_max_adverse_pnl = 0\<rparr>"

definition unrealised_pnl :: "open_position \<Rightarrow> money" where
  "unrealised_pnl p =
     (if op_side p = BUY then (op_last_price p - op_entry_price p) * of_int (op_quantity p)
      else (op_entry_price p - op_last_price p) * of_int (op_quantity p))"

definition update_price :: "money \<Rightarrow> open_position \<Rightarrow> open_position" where
  "update_price price p =
     (let p1 = p\<lparr>op_last_price := price\<rparr>;
          pnl = unrealised_pnl p1;
          p2 = (if op_max_favorable_pnl p1 < pnl then p1\<lparr>op_max_favorable_pnl := pnl\<rparr> else p1)
      in if pnl < op_max_adverse_pnl p2 then p2\<lparr>op_max_adverse_pnl := pnl\<rparr> else p2)"

record adopted_position =
  ap_contract :: option_contract
  ap_side :: side
  ap_lots :: int
  ap_entry_price :: money
  ap_entry_time :: datetime
  ap_entry_charges :: money
  ap_last_price :: "money option"
  ap_max_favorable_pnl :: money
  ap_max_adverse_pnl :: money
  ap_last_candle_end_at :: "datetime option"

record trade =
  tr_contract :: option_contract
  tr_side :: side
  tr_lots :: int
  tr_quantity :: int
  tr_entry_price :: money
  tr_exit_price :: money
  tr_entry_time :: datetime
  tr_exit_time :: datetime
  tr_exit_reason :: exit_reason
  tr_gross_pnl :: money
  tr_charges :: money
  tr_charges_breakdown :: "(string, money) dict"
  tr_mfe :: money
  tr_mae :: money
  tr_entry_regime :: "string option"
  tr_exit_regime :: "string option"
  tr_session_tags :: string
  tr_entry_regime_features :: string

definition net_pnl :: "trade \<Rightarrow> money" where
  "net_pnl t = tr_gross_pnl t - tr_charges t"

definition capital_used :: "trade \<Rightarrow> money" where
  "capital_used t = tr_entry_price t * of_int (tr_quantity t)"

section \<open>Excursions\<close>

text \<open>The running extremes bracket the unrealised profit and zero.\<close>

definition excursion_ok :: "open_position \<Rightarrow> bool" where
  "excursion_ok p =
     (op_max_adverse_pnl p \<le> 0 \<and> 0 \<le> op_max_favorable_pnl p
      \<and> op_max_adverse_pnl p \<le> unrealised_pnl p \<and> unrealised_pnl p \<le> op_max_favorable_pnl p
      \<and> op_quantity p = op_lots p * oc_lot_size (op_contract p))"

lemma new_position_excursion [simp]: "excursion_ok (new_open_position c s l e t)"
  by (simp add: excursion_ok_def new_open_position_def unrealised_pnl_def)

lemma update_price_simps [simp]:
  "op_contract (update_price x p) = op_contract p"
  "op_side (update_price x p) = op_side p"
  "op_lots (update_price x p) = op_lots p"
  "op_quantity (update_price x p) = op_quantity p"
  "op_entry_price (update_price x p) = op_entry_price p"
  "op_entry_time (update_price x p) = op_entry_time p"
  "op_last_price (update_price x p) = x"
  by (simp_all add: update_price_def Let_def)

lemma unrealised_update_price:
  "unrealised_pnl (update_price x p)
     = of_int (side_sign (op_side p)) * (x - op_entry_price p) * of_int (op_quantity p)"
  by (cases "op_side p") (simp_all add: unrealised_pnl_def algebra_simps)

lemma update_price_mfe:
  "op_max_favorable_pnl (update_price x p) = max (op_max_favorable_pnl p) (unrealised_pnl (update_price x p))"
  "op_max_adverse_pnl (update_price x p) = min (op_max_adverse_pnl p) (unrealised_pnl (update_price x p))"
  by (auto simp: update_price_def Let_def unrealised_pnl_def)

text \<open>
  The bracket needs only the extremes' signs before: an adopted position may
  carry any restored extremes around zero.
\<close>

lemma update_price_excursion:
  assumes "op_max_adverse_pnl p \<le> 0" "0 \<le> op_max_favorable_pnl p"
    and "op_quantity p = op_lots p * oc_lot_size (op_contract p)"
  shows "excursion_ok (update_price x p)"
  using assms by (auto simp: excursion_ok_def update_price_mfe)

end
