(* ===== verification/Positions.thy ===== *)
theory Positions
  imports Engine_Models Costs "HOL-Library.List_Lexorder" "HOL-Library.Char_ord"
begin

text \<open>
  common/engine/positions.py: the execution gateway protocol, the in-memory
  gateway and the position manager that owns the open positions and the day's
  trades.  The gateway is a pair of operations over its own state; the
  operations of the manager return the manager and the gateway state they
  leave, raising or not.
\<close>

record fill_outcome =
  fo_fill_price :: money
  fo_charges :: money
  fo_charges_breakdown :: "(string, money) dict"

type_synonym 'g leg =
  "option_contract \<Rightarrow> int \<Rightarrow> money \<Rightarrow> datetime \<Rightarrow> money option \<Rightarrow> money option \<Rightarrow> 'g
    \<Rightarrow> fill_outcome result \<times> 'g"

record 'g gateway =
  gw_buy :: "'g leg"
  gw_sell :: "'g leg"

section \<open>The in-memory gateway\<close>

record in_memory_gateway =
  im_slippage :: money
  im_rates :: cost_rates

definition new_in_memory_gateway :: "money \<Rightarrow> cost_rates \<Rightarrow> in_memory_gateway result" where
  "new_in_memory_gateway slippage_points rates =
     (if slippage_points < 0 then Inl ValueError
      else Inr \<lparr>im_slippage = slippage_points, im_rates = rates\<rparr>)"

definition in_memory_fill :: "in_memory_gateway \<Rightarrow> side \<Rightarrow> money \<Rightarrow> int \<Rightarrow> fill_outcome result" where
  "in_memory_fill g s price quantity =
     bindE (for_leg (im_rates g) s price quantity) (\<lambda>b.
     Inr \<lparr>fo_fill_price = price, fo_charges = cost_total b,
          fo_charges_breakdown =
            [(''brokerage'', cb_brokerage b), (''exchange_charges'', cb_exchange_charges b),
             (''stt'', cb_stt b), (''sebi_charges'', cb_sebi_charges b), (''gst'', cb_gst b),
             (''stamp_duty'', cb_stamp_duty b)]\<rparr>)"

definition in_memory_buy :: "in_memory_gateway leg" where
  "in_memory_buy contract lots ref_price ts stop target g =
     (in_memory_fill g BUY (ref_price + im_slippage g) (lots * oc_lot_size contract), g)"

definition in_memory_sell :: "in_memory_gateway leg" where
  "in_memory_sell contract lots ref_price ts stop target g =
     (in_memory_fill g SELL (max (ref_price - im_slippage g) 0) (lots * oc_lot_size contract), g)"

definition in_memory :: "in_memory_gateway gateway" where
  "in_memory = \<lparr>gw_buy = in_memory_buy, gw_sell = in_memory_sell\<rparr>"

section \<open>The position manager\<close>

record position_manager =
  pm_lots :: int
  pm_positions :: "(string, open_position) dict"
  pm_entry_charges :: "(string, money) dict"
  pm_entry_breakdown :: "(string, (string, money) dict) dict"
  pm_entry_regime :: "(string, string option) dict"
  pm_entry_regime_features :: "(string, string) dict"
  pm_trades :: "trade list"

definition new_position_manager :: "int \<Rightarrow> position_manager" where
  "new_position_manager lots =
     \<lparr>pm_lots = lots, pm_positions = [], pm_entry_charges = [], pm_entry_breakdown = [],
      pm_entry_regime = [], pm_entry_regime_features = [], pm_trades = []\<rparr>"

definition positions_of :: "position_manager \<Rightarrow> open_position list" where
  "positions_of pm = map snd (pm_positions pm)"

definition get_position :: "position_manager \<Rightarrow> string \<Rightarrow> open_position option" where
  "get_position pm pid = dict_get (pm_positions pm) pid"

definition has_position :: "position_manager \<Rightarrow> string option \<Rightarrow> bool" where
  "has_position pm pid =
     (case pid of
        None \<Rightarrow> pm_positions pm \<noteq> []
      | Some k \<Rightarrow> dict_get (pm_positions pm) k \<noteq> None)"

definition install_position ::
  "string \<Rightarrow> open_position \<Rightarrow> money \<Rightarrow> (string, money) dict \<Rightarrow> string option \<Rightarrow> string
    \<Rightarrow> position_manager \<Rightarrow> position_manager" where
  "install_position pid p charges breakdown regime features pm =
     pm\<lparr>pm_positions := dict_set pid p (pm_positions pm),
        pm_entry_charges := dict_set pid charges (pm_entry_charges pm),
        pm_entry_breakdown := dict_set pid breakdown (pm_entry_breakdown pm),
        pm_entry_regime := dict_set pid regime (pm_entry_regime pm),
        pm_entry_regime_features := dict_set pid features (pm_entry_regime_features pm)\<rparr>"

definition open_leg ::
  "'g gateway \<Rightarrow> option_contract \<Rightarrow> side \<Rightarrow> money \<Rightarrow> datetime \<Rightarrow> string option \<Rightarrow> string
    \<Rightarrow> money option \<Rightarrow> money option \<Rightarrow> position_manager \<times> 'g
    \<Rightarrow> open_position result \<times> (position_manager \<times> 'g)" where
  "open_leg gw contract s ref_price ts regime features stop target st =
     (case st of (pm, g) \<Rightarrow>
      let pid = oc_security_id contract in
      if dict_get (pm_positions pm) pid \<noteq> None then (Inl RuntimeError, (pm, g))
      else
        (case (if s = BUY then gw_buy gw contract (pm_lots pm) ref_price ts stop target g
               else gw_sell gw contract (pm_lots pm) ref_price ts stop target g) of
           (Inl e, g1) \<Rightarrow> (Inl e, (pm, g1))
         | (Inr result, g1) \<Rightarrow>
             let p = new_open_position contract s (pm_lots pm) (fo_fill_price result) ts
             in (Inr p, (install_position pid p (fo_charges result) (fo_charges_breakdown result)
                           regime features pm, g1))))"

definition adopt ::
  "adopted_position \<Rightarrow> position_manager \<Rightarrow> open_position result \<times> position_manager" where
  "adopt a pm =
     (let contract = ap_contract a; pid = oc_security_id contract in
      if dict_get (pm_positions pm) pid \<noteq> None then (Inl RuntimeError, pm)
      else
        let p0 = (new_open_position contract (ap_side a) (ap_lots a) (ap_entry_price a) (ap_entry_time a))
                   \<lparr>op_max_favorable_pnl := ap_max_favorable_pnl a,
                    op_max_adverse_pnl := ap_max_adverse_pnl a\<rparr>;
            p = (case ap_last_price a of None \<Rightarrow> p0 | Some x \<Rightarrow> update_price x p0)
        in (Inr p, install_position pid p (ap_entry_charges a) [] None ''{}'' pm))"

definition merge_breakdowns ::
  "(string, money) dict \<Rightarrow> (string, money) dict \<Rightarrow> (string, money) dict" where
  "merge_breakdowns a b =
     map (\<lambda>k. (k, py_round 4 ((case dict_get a k of None \<Rightarrow> 0 | Some x \<Rightarrow> x)
                               + (case dict_get b k of None \<Rightarrow> 0 | Some x \<Rightarrow> x))))
       (sort (remdups (map fst a @ map fst b)))"

definition closed_trade ::
  "open_position \<Rightarrow> fill_outcome \<Rightarrow> datetime \<Rightarrow> exit_reason \<Rightarrow> string option \<Rightarrow> string \<Rightarrow> string
    \<Rightarrow> position_manager \<Rightarrow> trade" where
  "closed_trade pos result ts reason exit_regime session_tags pid pm =
     (let gross = (if op_side pos = BUY
                   then (fo_fill_price result - op_entry_price pos) * of_int (op_quantity pos)
                   else (op_entry_price pos - fo_fill_price result) * of_int (op_quantity pos));
          pos1 = update_price (fo_fill_price result) pos;
          or_else = (\<lambda>d m. case m of None \<Rightarrow> d | Some x \<Rightarrow> x)
      in \<lparr>tr_contract = op_contract pos, tr_side = op_side pos, tr_lots = op_lots pos,
          tr_quantity = op_quantity pos, tr_entry_price = op_entry_price pos,
          tr_exit_price = fo_fill_price result, tr_entry_time = op_entry_time pos, tr_exit_time = ts,
          tr_exit_reason = reason, tr_gross_pnl = gross,
          tr_charges = or_else 0 (dict_get (pm_entry_charges pm) pid) + fo_charges result,
          tr_charges_breakdown =
            merge_breakdowns (case dict_get (pm_entry_breakdown pm) pid of None \<Rightarrow> [] | Some b \<Rightarrow> b)
              (fo_charges_breakdown result),
          tr_mfe = op_max_favorable_pnl pos1, tr_mae = op_max_adverse_pnl pos1,
          tr_entry_regime = (case dict_get (pm_entry_regime pm) pid of None \<Rightarrow> None | Some r \<Rightarrow> r),
          tr_exit_regime = exit_regime, tr_session_tags = session_tags,
          tr_entry_regime_features =
            (case dict_get (pm_entry_regime_features pm) pid of None \<Rightarrow> ''{}'' | Some f \<Rightarrow> f)\<rparr>)"

definition close_leg ::
  "'g gateway \<Rightarrow> string \<Rightarrow> money \<Rightarrow> datetime \<Rightarrow> exit_reason \<Rightarrow> string option \<Rightarrow> string
    \<Rightarrow> position_manager \<times> 'g \<Rightarrow> trade result \<times> (position_manager \<times> 'g)" where
  "close_leg gw pid ref_price ts reason exit_regime session_tags st =
     (case st of (pm, g) \<Rightarrow>
      case dict_get (pm_positions pm) pid of
        None \<Rightarrow> (Inl RuntimeError, (pm, g))
      | Some pos \<Rightarrow>
          (case (if op_side pos = BUY then gw_sell gw (op_contract pos) (op_lots pos) ref_price ts None None g
                 else gw_buy gw (op_contract pos) (op_lots pos) ref_price ts None None g) of
             (Inl e, g1) \<Rightarrow> (Inl e, (pm, g1))
           | (Inr result, g1) \<Rightarrow>
               let t = closed_trade pos result ts reason exit_regime session_tags pid pm
               in (Inr t,
                   (pm\<lparr>pm_positions := dict_pop pid (pm_positions pm),
                       pm_entry_charges := dict_pop pid (pm_entry_charges pm),
                       pm_entry_breakdown := dict_pop pid (pm_entry_breakdown pm),
                       pm_entry_regime := dict_pop pid (pm_entry_regime pm),
                       pm_entry_regime_features := dict_pop pid (pm_entry_regime_features pm),
                       pm_trades := pm_trades pm @ [t]\<rparr>, g1))))"

text \<open>The loop of close\_all over a snapshot of the position identifiers.\<close>

fun close_each ::
  "'g gateway \<Rightarrow> (string, money) dict \<Rightarrow> datetime \<Rightarrow> exit_reason \<Rightarrow> string list \<Rightarrow> position_manager \<times> 'g
    \<Rightarrow> trade list result \<times> (position_manager \<times> 'g)" where
  "close_each gw refs ts reason [] st = (Inr [], st)"
| "close_each gw refs ts reason (pid # pids) st =
     (case dict_get (pm_positions (fst st)) pid of
        None \<Rightarrow> (Inl KeyError, st)
      | Some pos \<Rightarrow>
          let ref_price = (case dict_get refs pid of None \<Rightarrow> op_last_price pos | Some x \<Rightarrow> x) in
          (case close_leg gw pid ref_price ts reason None [] st of
             (Inl e, st1) \<Rightarrow> (Inl e, st1)
           | (Inr t, st1) \<Rightarrow>
               (case close_each gw refs ts reason pids st1 of
                  (Inl e, st2) \<Rightarrow> (Inl e, st2)
                | (Inr ts', st2) \<Rightarrow> (Inr (t # ts'), st2))))"

definition close_all ::
  "'g gateway \<Rightarrow> (string, money) dict \<Rightarrow> datetime \<Rightarrow> exit_reason \<Rightarrow> position_manager \<times> 'g
    \<Rightarrow> trade list result \<times> (position_manager \<times> 'g)" where
  "close_all gw refs ts reason st = close_each gw refs ts reason (map fst (pm_positions (fst st))) st"

text \<open>A tick marks the position of its contract, as the engine does through the manager's object.\<close>

definition mark_position :: "string \<Rightarrow> money \<Rightarrow> position_manager \<Rightarrow> position_manager" where
  "mark_position pid price pm =
     (case dict_get (pm_positions pm) pid of
        None \<Rightarrow> pm
      | Some p \<Rightarrow> pm\<lparr>pm_positions := dict_set pid (update_price price p) (pm_positions pm)\<rparr>)"

section \<open>The gateway interface\<close>

text \<open>
  The ExecutionGateway protocol: an executed leg has a price and
  charges that are not negative, and the gateway's own state stays valid.
\<close>

locale execution_gateway =
  fixes buy sell :: "'g leg"
    and inv :: "'g \<Rightarrow> bool"
  assumes buy_ok: "inv g \<Longrightarrow> buy c l ref ts stop target g = (r, g') \<Longrightarrow>
        inv g' \<and> (\<forall>f. r = Inr f \<longrightarrow> 0 \<le> fo_fill_price f \<and> 0 \<le> fo_charges f)"
    and sell_ok: "inv g \<Longrightarrow> sell c l ref ts stop target g = (r, g') \<Longrightarrow>
        inv g' \<and> (\<forall>f. r = Inr f \<longrightarrow> 0 \<le> fo_fill_price f \<and> 0 \<le> fo_charges f)"
begin

definition gw :: "'g gateway" where
  "gw = \<lparr>gw_buy = buy, gw_sell = sell\<rparr>"

text \<open>Open positions were paid for, and no trade nets more than its gross.\<close>

definition charged :: "position_manager \<Rightarrow> bool" where
  "charged pm =
     ((\<forall>pid c. dict_get (pm_entry_charges pm) pid = Some c \<longrightarrow> 0 \<le> c)
      \<and> (\<forall>t \<in> set (pm_trades pm). 0 \<le> tr_charges t \<and> net_pnl t \<le> tr_gross_pnl t \<and> 0 \<le> tr_exit_price t))"

lemma open_charged:
  assumes "inv g" "charged pm" "open_leg gw c s ref ts rg fs stop target (pm, g) = (r, (pm', g'))"
  shows "inv g' \<and> charged pm'"
proof -
  obtain x g1 where x: "(if s = BUY then buy c (pm_lots pm) ref ts stop target g
      else sell c (pm_lots pm) ref ts stop target g) = (x, g1)" by fastforce
  then have ok: "inv g1 \<and> (\<forall>f. x = Inr f \<longrightarrow> 0 \<le> fo_charges f)"
    using buy_ok [OF assms(1)] sell_ok [OF assms(1)] by (cases s) auto
  show ?thesis using assms x ok
    by (auto simp: open_leg_def gw_def Let_def charged_def install_position_def split: if_splits sum.splits)
qed

lemma close_charged:
  assumes "inv g" "charged pm" "close_leg gw pid ref ts why er tags (pm, g) = (r, (pm', g'))"
  shows "inv g' \<and> charged pm'"
proof (cases "dict_get (pm_positions pm) pid")
  case None
  with assms show ?thesis by (simp add: close_leg_def)
next
  case (Some pos)
  obtain x g1 where x: "(if op_side pos = BUY then sell (op_contract pos) (op_lots pos) ref ts None None g
      else buy (op_contract pos) (op_lots pos) ref ts None None g) = (x, g1)" by fastforce
  then have ok: "inv g1 \<and> (\<forall>f. x = Inr f \<longrightarrow> 0 \<le> fo_fill_price f \<and> 0 \<le> fo_charges f)"
    using buy_ok [OF assms(1)] sell_ok [OF assms(1)] by (cases "op_side pos") auto
  have "0 \<le> (case dict_get (pm_entry_charges pm) pid of None \<Rightarrow> 0 | Some x \<Rightarrow> x)"
    using assms(2) by (auto simp: charged_def split: option.split)
  then have tc: "0 \<le> tr_charges (closed_trade pos f ts why er tags pid pm)" if "0 \<le> fo_charges f" for f
    using that by (simp add: closed_trade_def Let_def)
  have ex: "tr_exit_price (closed_trade pos f ts why er tags pid pm) = fo_fill_price f" for f
    by (simp add: closed_trade_def Let_def)
  show ?thesis using assms x ok Some tc
    by (auto simp: close_leg_def gw_def Let_def charged_def net_pnl_def ex split: if_splits sum.splits)
qed

end

definition in_memory_ok :: "in_memory_gateway \<Rightarrow> bool" where
  "in_memory_ok g = (0 \<le> im_slippage g \<and> rates_ok (im_rates g))"

lemma in_memory_fill_ok:
  assumes "in_memory_ok g" "in_memory_fill g s p q = Inr f"
  shows "0 < p \<and> fo_fill_price f = p \<and> 0 \<le> fo_charges f"
proof -
  obtain b where b: "for_leg (im_rates g) s p q = Inr b" "fo_charges f = cost_total b" "fo_fill_price f = p"
    using assms(2) by (auto simp: in_memory_fill_def bindE_Inr)
  have "total_for_leg (im_rates g) s p q = Inr (cost_total b)" using b(1) by (simp add: total_for_leg_def)
  then have "0 \<le> cost_total b" using total_for_leg_nonneg assms(1) by (auto simp: in_memory_ok_def)
  moreover have "0 < p" using b(1) by (auto simp: for_leg_def split: if_splits)
  ultimately show ?thesis using b by simp
qed

interpretation memory: execution_gateway in_memory_buy in_memory_sell in_memory_ok
  by unfold_locales
    (auto simp: in_memory_buy_def in_memory_sell_def dest!: in_memory_fill_ok)

section \<open>Invariants of the manager\<close>

definition held_ok :: "string \<Rightarrow> open_position \<Rightarrow> bool" where
  "held_ok pid p = (oc_security_id (op_contract p) = pid \<and> excursion_ok p)"

definition trade_ok :: "trade \<Rightarrow> bool" where
  "trade_ok t =
     (tr_gross_pnl t = of_int (side_sign (tr_side t)) * (tr_exit_price t - tr_entry_price t) * of_int (tr_quantity t)
      \<and> tr_mae t \<le> tr_gross_pnl t \<and> tr_gross_pnl t \<le> tr_mfe t \<and> tr_mae t \<le> 0 \<and> 0 \<le> tr_mfe t)"

definition pm_inv :: "position_manager \<Rightarrow> bool" where
  "pm_inv pm =
     (distinct (map fst (pm_positions pm))
      \<and> (\<forall>pid p. dict_get (pm_positions pm) pid = Some p \<longrightarrow>
            held_ok pid p \<and> dict_get (pm_entry_charges pm) pid \<noteq> None)
      \<and> (\<forall>t \<in> set (pm_trades pm). trade_ok t))"

lemma new_pm_inv [simp]: "pm_inv (new_position_manager l)"
  by (simp add: new_position_manager_def pm_inv_def)

lemma install_inv:
  assumes "pm_inv pm" "held_ok pid p"
  shows "pm_inv (install_position pid p c b r f pm)"
  using assms by (auto simp: pm_inv_def install_position_def)

lemma install_simps [simp]:
  "pm_positions (install_position pid p c b r f pm) = dict_set pid p (pm_positions pm)"
  "pm_trades (install_position pid p c b r f pm) = pm_trades pm"
  "pm_lots (install_position pid p c b r f pm) = pm_lots pm"
  "pm_entry_charges (install_position pid p c b r f pm) = dict_set pid c (pm_entry_charges pm)"
  by (simp_all add: install_position_def)

lemma open_leg_Inr:
  assumes "open_leg gw c s ref ts rg fs stop target (pm, g) = (Inr p, (pm', g'))"
  shows "\<exists>f. (if s = BUY then gw_buy gw c (pm_lots pm) ref ts stop target g
          else gw_sell gw c (pm_lots pm) ref ts stop target g) = (Inr f, g')
    \<and> dict_get (pm_positions pm) (oc_security_id c) = None
    \<and> p = new_open_position c s (pm_lots pm) (fo_fill_price f) ts
    \<and> pm' = install_position (oc_security_id c) p (fo_charges f) (fo_charges_breakdown f) rg fs pm"
  using assms by (auto simp: open_leg_def Let_def split: if_splits sum.splits prod.splits)

lemma open_leg_Inl: "open_leg gw c s ref ts rg fs stop target (pm, g) = (Inl e, (pm', g')) \<Longrightarrow> pm' = pm"
  by (auto simp: open_leg_def Let_def split: if_splits sum.splits prod.splits)

lemma open_leg_inv:
  assumes "pm_inv pm" "open_leg gw c s ref ts rg fs stop target (pm, g) = (r, (pm', g'))"
  shows "pm_inv pm'"
proof (cases r)
  case (Inl e)
  with open_leg_Inl [OF assms(2) [unfolded Inl]] assms(1) show ?thesis by simp
next
  case (Inr p)
  from open_leg_Inr [OF assms(2) [unfolded Inr]] obtain f :: fill_outcome where
    f: "p = new_open_position c s (pm_lots pm) (fo_fill_price f) ts"
    "pm' = install_position (oc_security_id c) p (fo_charges f) (fo_charges_breakdown f) rg fs pm" by blast
  have "op_contract p = c" "excursion_ok p" by (simp_all add: f(1)) (simp add: new_open_position_def)
  then show ?thesis unfolding f(2) using assms(1) by (intro install_inv) (simp_all add: held_ok_def)
qed

lemma close_leg_Inr:
  assumes "close_leg gw pid ref ts why er tags (pm, g) = (Inr t, (pm', g'))"
  shows "\<exists>pos f. dict_get (pm_positions pm) pid = Some pos
    \<and> (if op_side pos = BUY then gw_sell gw (op_contract pos) (op_lots pos) ref ts None None g
       else gw_buy gw (op_contract pos) (op_lots pos) ref ts None None g) = (Inr f, g')
    \<and> t = closed_trade pos f ts why er tags pid pm
    \<and> pm_positions pm' = dict_pop pid (pm_positions pm) \<and> pm_lots pm' = pm_lots pm
    \<and> pm_entry_charges pm' = dict_pop pid (pm_entry_charges pm)
    \<and> pm_trades pm' = pm_trades pm @ [t]"
  using assms by (auto simp: close_leg_def Let_def split: option.splits if_splits sum.splits prod.splits)

lemma close_leg_Inl: "close_leg gw pid ref ts why er tags (pm, g) = (Inl e, (pm', g')) \<Longrightarrow> pm' = pm"
  by (auto simp: close_leg_def Let_def split: option.splits if_splits sum.splits prod.splits)

lemma closed_trade_ok:
  assumes "excursion_ok pos"
  shows "trade_ok (closed_trade pos f ts why er tags pid pm)"
proof -
  have "excursion_ok (update_price (fo_fill_price f) pos)"
    using assms by (intro update_price_excursion) (auto simp: excursion_ok_def)
  then show ?thesis
    by (cases "op_side pos")
      (auto simp: trade_ok_def closed_trade_def Let_def excursion_ok_def unrealised_update_price algebra_simps)
qed

lemma close_leg_inv:
  assumes "pm_inv pm" "close_leg gw pid ref ts why er tags (pm, g) = (r, (pm', g'))"
  shows "pm_inv pm'"
proof (cases r)
  case (Inl e)
  with close_leg_Inl [OF assms(2) [unfolded Inl]] assms(1) show ?thesis by simp
next
  case (Inr t)
  from close_leg_Inr [OF assms(2) [unfolded Inr]] obtain pos f where
    c: "dict_get (pm_positions pm) pid = Some pos" "t = closed_trade pos f ts why er tags pid pm"
    "pm_positions pm' = dict_pop pid (pm_positions pm)"
    "pm_entry_charges pm' = dict_pop pid (pm_entry_charges pm)" "pm_trades pm' = pm_trades pm @ [t]"
    by blast
  have "excursion_ok pos" using assms(1) c(1) unfolding pm_inv_def held_ok_def by blast
  then have "trade_ok t" using closed_trade_ok c(2) by simp
  then show ?thesis using assms(1) c(3-5) unfolding pm_inv_def by auto
qed

lemma mark_inv: "pm_inv pm \<Longrightarrow> pm_inv (mark_position pid x pm)"
proof (cases "dict_get (pm_positions pm) pid")
  case None
  assume "pm_inv pm"
  with None show ?thesis by (simp add: mark_position_def)
next
  case (Some p)
  assume i: "pm_inv pm"
  then have h: "held_ok pid p" "dict_get (pm_entry_charges pm) pid \<noteq> None"
    using Some unfolding pm_inv_def by blast+
  have "excursion_ok (update_price x p)"
    using h(1) by (intro update_price_excursion) (auto simp: held_ok_def excursion_ok_def)
  then have "held_ok pid (update_price x p)" using h(1) by (simp add: held_ok_def)
  then show ?thesis using i h(2) Some unfolding pm_inv_def mark_position_def by (auto split: if_splits)
qed

definition adoptable :: "adopted_position \<Rightarrow> bool" where
  "adoptable a = (ap_max_adverse_pnl a \<le> 0 \<and> 0 \<le> ap_max_favorable_pnl a)"

lemma adopt_inv:
  assumes "pm_inv pm" "adoptable a" "adopt a pm = (r, pm')"
  shows "pm_inv pm'"
proof -
  let ?p0 = "(new_open_position (ap_contract a) (ap_side a) (ap_lots a) (ap_entry_price a) (ap_entry_time a))
                   \<lparr>op_max_favorable_pnl := ap_max_favorable_pnl a, op_max_adverse_pnl := ap_max_adverse_pnl a\<rparr>"
  have "excursion_ok ?p0"
    using assms(2) by (simp add: excursion_ok_def new_open_position_def unrealised_pnl_def adoptable_def)
  moreover have "excursion_ok (update_price x ?p0)" for x
    using assms(2) by (intro update_price_excursion) (simp_all add: new_open_position_def adoptable_def)
  moreover have "op_contract ?p0 = ap_contract a" by (simp add: new_open_position_def)
  ultimately have "held_ok (oc_security_id (ap_contract a))
      (case ap_last_price a of None \<Rightarrow> ?p0 | Some x \<Rightarrow> update_price x ?p0)"
    by (simp add: held_ok_def split: option.split)
  then show ?thesis using assms(1,3) install_inv by (auto simp: adopt_def Let_def split: if_splits)
qed

section \<open>Reachable managers\<close>

inductive pm_reach :: "'g gateway \<Rightarrow> position_manager \<times> 'g \<Rightarrow> bool" for gw :: "'g gateway" where
  pm_new: "pm_reach gw (new_position_manager lots, g)"
| pm_open: "pm_reach gw (pm, g) \<Longrightarrow> open_leg gw c s ref ts rg fs stop target (pm, g) = (r, st) \<Longrightarrow> pm_reach gw st"
| pm_adopt: "pm_reach gw (pm, g) \<Longrightarrow> adoptable a \<Longrightarrow> adopt a pm = (r, pm') \<Longrightarrow> pm_reach gw (pm', g)"
| pm_mark: "pm_reach gw (pm, g) \<Longrightarrow> pm_reach gw (mark_position pid x pm, g)"
| pm_close: "pm_reach gw (pm, g) \<Longrightarrow> close_leg gw pid ref ts why er tags (pm, g) = (r', st) \<Longrightarrow> pm_reach gw st"

lemma pm_reach_inv: "pm_reach gw st \<Longrightarrow> pm_inv (fst st)"
proof (induction rule: pm_reach.induct)
  case (pm_open pm g c s ref ts rg fs stop target r st)
  then show ?case using open_leg_inv by (cases st) fastforce
next
  case (pm_close pm g pid ref ts why er tags r' st)
  then show ?case using close_leg_inv by (cases st) fastforce
qed (simp_all add: adopt_inv mark_inv)

section \<open>Properties\<close>

definition fold_marks :: "string \<Rightarrow> money list \<Rightarrow> position_manager \<Rightarrow> position_manager" where
  "fold_marks pid xs pm = fold (mark_position pid) xs pm"

lemma mark_get:
  "dict_get (pm_positions (mark_position pid x pm)) k
     = (if k = pid then map_option (update_price x) (dict_get (pm_positions pm) pid)
        else dict_get (pm_positions pm) k)"
  by (auto simp: mark_position_def split: option.split)

lemma mark_keeps [simp]:
  "pm_entry_charges (mark_position pid x pm) = pm_entry_charges pm"
  "pm_trades (mark_position pid x pm) = pm_trades pm"
  "pm_lots (mark_position pid x pm) = pm_lots pm"
  by (simp_all add: mark_position_def split: option.split)

lemma fold_marks_keeps [simp]:
  "pm_entry_charges (fold_marks pid xs pm) = pm_entry_charges pm"
  "pm_trades (fold_marks pid xs pm) = pm_trades pm"
  by (induction xs arbitrary: pm) (simp_all add: fold_marks_def)

lemma delete_update: "map_of d k = None \<Longrightarrow> dict_pop k (dict_set k v d) = d"
  by (induction d) (auto split: if_splits)

lemma dict_pop_set: "dict_pop k (dict_set k v d) = dict_pop k d"
  by (induction d) auto

lemma mark_pop: "dict_pop pid (pm_positions (mark_position pid x pm)) = dict_pop pid (pm_positions pm)"
  by (simp add: mark_position_def dict_pop_set split: option.split)

lemma fold_marks_pop: "dict_pop pid (pm_positions (fold_marks pid xs pm)) = dict_pop pid (pm_positions pm)"
  by (induction xs arbitrary: pm) (simp_all add: fold_marks_def mark_pop)

lemma fold_marks_get:
  "dict_get (pm_positions pm) pid = Some p \<Longrightarrow>
     \<exists>q. dict_get (pm_positions (fold_marks pid xs pm)) pid = Some q
       \<and> op_contract q = op_contract p \<and> op_side q = op_side p \<and> op_lots q = op_lots p
       \<and> op_quantity q = op_quantity p \<and> op_entry_price q = op_entry_price p \<and> op_entry_time q = op_entry_time p"
proof (induction xs arbitrary: pm p)
  case (Cons x xs)
  have "dict_get (pm_positions (mark_position pid x pm)) pid = Some (update_price x p)"
    using Cons(2) by (simp add: mark_get)
  from Cons(1) [OF this] show ?case by (simp add: fold_marks_def)
qed (simp add: fold_marks_def)

section \<open>A worked round trip\<close>

definition pm_contract :: option_contract where
  "pm_contract = \<lparr>oc_symbol = ''NIFTY 23500 CE'', oc_security_id = ''42'', oc_strike = 23500,
     oc_option_type = CE, oc_expiry = ''2026-08-06'', oc_lot_size = 75\<rparr>"

definition pm_gateway :: in_memory_gateway where
  "pm_gateway = \<lparr>im_slippage = 1 / 20, im_rates = default_cost_rates\<rparr>"

definition pm_opened :: "open_position result \<times> (position_manager \<times> in_memory_gateway)" where
  "pm_opened = open_leg in_memory pm_contract BUY 100 (DT 0 (Some ist)) None ''{}'' None None
     (new_position_manager 1, pm_gateway)"

definition pm_closed :: "trade result \<times> (position_manager \<times> in_memory_gateway)" where
  "pm_closed = close_leg in_memory ''42'' 110 (DT 9 (Some ist)) TARGET_PROFIT None []
     (fold_marks ''42'' [90, 120] (fst (snd pm_opened)), snd (snd pm_opened))"

lemma pm_opened_ok: "\<not> isl (fst pm_opened)"
  by code_simp

lemma pm_closed_ok: "\<not> isl (fst pm_closed)"
  by code_simp

lemma inr_triple: "\<not> isl (fst p) \<Longrightarrow> p = (Inr (projr (fst p)), (fst (snd p), snd (snd p)))"
  by (cases p; cases "fst p") auto

lemma pm_opened_run:
  "open_leg in_memory pm_contract BUY 100 (DT 0 (Some ist)) None ''{}'' None None
     (new_position_manager 1, pm_gateway)
   = (Inr (projr (fst pm_opened)), (fst (snd pm_opened), snd (snd pm_opened)))"
  unfolding pm_opened_def [symmetric] by (rule inr_triple [OF pm_opened_ok])

lemma pm_closed_run:
  "close_leg in_memory ''42'' 110 (DT 9 (Some ist)) TARGET_PROFIT None []
     (fold_marks ''42'' [90, 120] (fst (snd pm_opened)), snd (snd pm_opened))
   = (Inr (projr (fst pm_closed)), (fst (snd pm_closed), snd (snd pm_closed)))"
  unfolding pm_closed_def [symmetric] by (rule inr_triple [OF pm_closed_ok])

lemma fold_marks_reach: "pm_reach gw (pm, g) \<Longrightarrow> pm_reach gw (fold_marks pid xs pm, g)"
  by (induction xs arbitrary: pm) (simp_all add: fold_marks_def pm_mark)

lemma pm_closed_reach: "pm_reach in_memory (fst (snd pm_closed), snd (snd pm_closed))"
  by (rule pm_close [OF fold_marks_reach [OF pm_open [OF pm_new pm_opened_run]] pm_closed_run])

text \<open>Over any gateway and any sequence of openings, adoptions, marks and closings,
  every completed trade's gross profit is the signed price move times the
  quantity and lies between its recorded worst and best excursions, which
  bracket zero; every open position's unrealised profit lies within its running
  extremes.\<close>

theorem trades_bracketed_by_excursions:
  assumes "pm_reach gw (pm, g)"
  shows "(\<forall>t \<in> set (pm_trades pm).
      tr_gross_pnl t = of_int (side_sign (tr_side t)) * (tr_exit_price t - tr_entry_price t) * of_int (tr_quantity t)
      \<and> tr_mae t \<le> tr_gross_pnl t \<and> tr_gross_pnl t \<le> tr_mfe t \<and> tr_mae t \<le> 0 \<and> 0 \<le> tr_mfe t)
    \<and> (\<forall>p \<in> set (positions_of pm).
      op_max_adverse_pnl p \<le> unrealised_pnl p \<and> unrealised_pnl p \<le> op_max_favorable_pnl p)"
proof -
  have inv: "pm_inv pm" using pm_reach_inv [OF assms] by simp
  have "excursion_ok p" if m: "p \<in> set (positions_of pm)" for p
  proof -
    obtain pid where "(pid, p) \<in> set (pm_positions pm)" using m by (auto simp: positions_of_def)
    then have "dict_get (pm_positions pm) pid = Some p" using inv by (simp add: pm_inv_def)
    then show ?thesis using inv unfolding pm_inv_def held_ok_def by blast
  qed
  then show ?thesis using inv by (auto simp: pm_inv_def trade_ok_def excursion_ok_def)
qed

theorem trades_bracketed_by_excursions_witness:
  "list_all (\<lambda>t. tr_mae t \<le> tr_gross_pnl t \<and> tr_gross_pnl t \<le> tr_mfe t) (pm_trades (fst (snd pm_closed)))"
  unfolding list_all_iff using trades_bracketed_by_excursions [OF pm_closed_reach] by blast

text \<open>Opening a position and closing it, however it was marked in between, leaves the
  other positions as they were, adds exactly one trade, and nets the signed
  price move between the two fills times the quantity, less both legs'
  charges.\<close>

theorem open_close_round_trip:
  assumes o: "open_leg gw c s ref ts rg fs stop target (pm, g) = (Inr p, (pm1, g1))"
    and cl: "close_leg gw (oc_security_id c) ref' ts' why er tags (fold_marks (oc_security_id c) xs pm1, g2)
          = (Inr t, (pm2, g3))"
  shows "pm_positions pm2 = pm_positions pm \<and> pm_trades pm2 = pm_trades pm @ [t]
    \<and> tr_entry_price t = op_entry_price p \<and> tr_exit_reason t = why
    \<and> (\<exists>f1 f2. (if s = BUY then gw_buy gw c (pm_lots pm) ref ts stop target g
                else gw_sell gw c (pm_lots pm) ref ts stop target g) = (Inr f1, g1)
        \<and> (if s = BUY then gw_sell gw c (pm_lots pm) ref' ts' None None g2
           else gw_buy gw c (pm_lots pm) ref' ts' None None g2) = (Inr f2, g3)
        \<and> net_pnl t = of_int (side_sign s) * (fo_fill_price f2 - fo_fill_price f1)
              * of_int (pm_lots pm * oc_lot_size c) - (fo_charges f1 + fo_charges f2))"
proof -
  let ?pid = "oc_security_id c"
  from open_leg_Inr [OF o] obtain f1 where
    f1: "(if s = BUY then gw_buy gw c (pm_lots pm) ref ts stop target g
          else gw_sell gw c (pm_lots pm) ref ts stop target g) = (Inr f1, g1)"
    "dict_get (pm_positions pm) ?pid = None"
    "p = new_open_position c s (pm_lots pm) (fo_fill_price f1) ts"
    "pm1 = install_position ?pid p (fo_charges f1) (fo_charges_breakdown f1) rg fs pm" by metis
  have "dict_get (pm_positions pm1) ?pid = Some p" using f1(4) by simp
  from fold_marks_get [OF this, of xs] obtain q where
    q: "dict_get (pm_positions (fold_marks ?pid xs pm1)) ?pid = Some q"
    "op_contract q = c" "op_side q = s" "op_lots q = pm_lots pm"
    "op_quantity q = pm_lots pm * oc_lot_size c" "op_entry_price q = fo_fill_price f1"
    using f1(3) by (auto simp: new_open_position_def)
  from close_leg_Inr [OF cl] q(1) obtain f2 where
    f2': "(if op_side q = BUY then gw_sell gw (op_contract q) (op_lots q) ref' ts' None None g2
         else gw_buy gw (op_contract q) (op_lots q) ref' ts' None None g2) = (Inr f2, g3)"
    and f2'': "t = closed_trade q f2 ts' why er tags ?pid (fold_marks ?pid xs pm1)"
    "pm_positions pm2 = dict_pop ?pid (pm_positions (fold_marks ?pid xs pm1))"
    "pm_trades pm2 = pm_trades (fold_marks ?pid xs pm1) @ [t]" by auto
  note f2 = f2' [unfolded q(2-4)] f2''
  have pos: "pm_positions pm2 = pm_positions pm"
    using f2(3) f1(2,4) by (simp add: fold_marks_pop delete_update)
  have tr: "pm_trades pm2 = pm_trades pm @ [t]" using f2(4) f1(4) by simp
  have ch: "dict_get (pm_entry_charges (fold_marks ?pid xs pm1)) ?pid = Some (fo_charges f1)"
    using f1(4) by simp
  have net: "net_pnl t = of_int (side_sign s) * (fo_fill_price f2 - fo_fill_price f1)
              * of_int (pm_lots pm * oc_lot_size c) - (fo_charges f1 + fo_charges f2)"
    using f2(2) ch q by (cases s) (simp_all add: closed_trade_def net_pnl_def Let_def algebra_simps)
  have "tr_entry_price t = op_entry_price p" "tr_exit_reason t = why"
    using f2(2) q f1(3) by (simp_all add: closed_trade_def Let_def new_open_position_def)
  then show ?thesis using pos tr f1(1) f2(1) net by blast
qed

theorem open_close_round_trip_witness:
  "pm_positions (fst (snd pm_closed)) = pm_positions (new_position_manager 1)
   \<and> pm_trades (fst (snd pm_closed)) = [projr (fst pm_closed)]"
proof -
  have c: "oc_security_id pm_contract = ''42''" by (simp add: pm_contract_def)
  show ?thesis
    using open_close_round_trip [OF pm_opened_run, unfolded c, OF pm_closed_run]
    by (simp add: new_position_manager_def)
qed

text \<open>
  The in-memory gateway clamps a sale price at zero, but the charges of a leg
  are undefined at zero: slippage as large as the premium makes the exit raise
  instead of filling at zero.
\<close>

theorem clamped_sale_raises:
  assumes "ref \<le> im_slippage g"
  shows "in_memory_sell c l ref ts stop target g = (Inl ValueError, g)"
  using assms by (simp add: in_memory_sell_def in_memory_fill_def for_leg_def)

end
