(* ===== verification/State_Payload.thy ===== *)
theory State_Payload
  imports Repository
begin

text \<open>
  common/engine/state_payload.py: the JSON object each strategy-day keeps in
  strategy_state.payload.  A payload that cannot be decoded reads as the empty
  object; one written under another version is refused.
\<close>

definition open_position_key :: string where "open_position_key = ''open_position''"
definition exit_state_key :: string where "exit_state_key = ''exit_state''"

definition decoded_payload :: "json_text option \<Rightarrow> (string, json) dict" where
  "decoded_payload raw =
     (case raw of
        None \<Rightarrow> []
      | Some Garbage \<Rightarrow> []
      | Some (Json (JObj kvs)) \<Rightarrow> kvs
      | Some (Json _) \<Rightarrow> [])"

definition read_payload :: "string \<Rightarrow> execution_mode \<Rightarrow> string \<Rightarrow> db \<Rightarrow> (string, json) dict result" where
  "read_payload strategy_id mode trading_date d =
     (case load_strategy_state strategy_id mode trading_date d of
        None \<Rightarrow> Inr []
      | Some row \<Rightarrow>
          if st_state_version row \<noteq> current_state_version then Inl UnsupportedStateVersion
          else Inr (decoded_payload (st_payload row)))"

definition merge_updates ::
  "(string \<times> json option) list \<Rightarrow> (string, json) dict \<Rightarrow> (string, json) dict" where
  "merge_updates updates payload =
     fold (\<lambda>(k, v) p. case v of None \<Rightarrow> dict_pop k p | Some x \<Rightarrow> dict_set k x p) updates payload"

definition merge_payload ::
  "(string \<times> json option) list \<Rightarrow> string \<Rightarrow> string \<Rightarrow> execution_mode \<Rightarrow> string \<Rightarrow> datetime option
    \<Rightarrow> datetime \<Rightarrow> db \<Rightarrow> (string, json) dict result \<times> db" where
  "merge_payload updates runtime_id strategy_id mode trading_date last_candle now d =
     (case read_payload strategy_id mode trading_date d of
        Inl e \<Rightarrow> (Inl e, d)
      | Inr stored \<Rightarrow>
          let payload = merge_updates updates stored
          in (Inr payload,
              save_strategy_state runtime_id strategy_id mode trading_date last_candle None None
                (Some (JObj payload)) False now d))"

section \<open>Frames and lookups\<close>

lemma save_payload_simps [simp]:
  "db_signals (save_strategy_state rt sid m td lc so bl pl inc now d) = db_signals d"
  "db_sessions (save_strategy_state rt sid m td lc so bl pl inc now d) = db_sessions d"
  "db_intents (save_strategy_state rt sid m td lc so bl pl inc now d) = db_intents d"
  "db_orders (save_strategy_state rt sid m td lc so bl pl inc now d) = db_orders d"
  "db_fills (save_strategy_state rt sid m td lc so bl pl inc now d) = db_fills d"
  "db_positions (save_strategy_state rt sid m td lc so bl pl inc now d) = db_positions d"
  by (simp_all add: save_strategy_state_def Let_def)

lemma merge_payload_frame:
  "merge_payload u rt sid m td lc now d = (r, d') \<Longrightarrow>
     db_signals d' = db_signals d \<and> db_sessions d' = db_sessions d \<and> db_intents d' = db_intents d
     \<and> db_orders d' = db_orders d \<and> db_fills d' = db_fills d \<and> db_positions d' = db_positions d"
  by (auto simp: merge_payload_def Let_def split: sum.splits)

lemma merge_payload_inv: "db_inv d \<Longrightarrow> merge_payload u rt sid m td lc now d = (r, d') \<Longrightarrow> db_inv d'"
  by (auto simp: merge_payload_def Let_def save_strategy_state_inv split: sum.splits)

text \<open>What is saved for a day is what the next read of that day finds.\<close>

lemma load_saved:
  "\<exists>row. load_strategy_state sid m td (save_strategy_state rt sid m td lc so bl pl inc now d) = Some row
     \<and> st_state_version row = current_state_version
     \<and> (pl \<noteq> None \<longrightarrow> st_payload row = map_option Json pl)
     \<and> (so \<noteq> None \<longrightarrow> Some (st_square_off_state row) = so)
     \<and> (bl \<noteq> None \<longrightarrow> Some (st_entries_blocked row) = bl)"
proof (cases "select_one (\<lambda>r. state_key r = (sid, m, td)) (db_states d)")
  case None
  then have "\<not> row_exists (\<lambda>r. state_key r = (sid, m, td)) (db_states d)" by (simp add: select_one_None)
  then show ?thesis
    by (auto simp: load_strategy_state_def save_strategy_state_def Let_def select_one_insert state_key_def)
next
  case (Some row)
  then have "row_exists (\<lambda>r. state_key r = (sid, m, td)) (db_states d)"
    using select_one_None option.distinct(1) by metis
  moreover have "state_key row = (sid, m, td)" using select_one_Some [OF Some] by simp
  ultimately show ?thesis using Some
    by (auto simp: load_strategy_state_def save_strategy_state_def Let_def select_one_update state_key_def
        coalesce_def)
qed

lemma read_saved:
  "read_payload sid m td (save_strategy_state rt sid m td lc so bl (Some (JObj p)) inc now d) = Inr p"
  using load_saved [of sid m td rt lc so bl "Some (JObj p)" inc now d]
  by (auto simp: read_payload_def decoded_payload_def)

lemma load_saved_other:
  assumes "(sid', m', td') \<noteq> (sid, m, td)"
  shows "load_strategy_state sid' m' td' (save_strategy_state rt sid m td lc so bl pl inc now d)
    = load_strategy_state sid' m' td' d"
proof -
  have k: "state_key (r\<lparr>st_last_candle_end_at := a, st_square_off_state := b, st_entries_blocked := c,
      st_payload := p, st_state_version := v, st_square_off_attempts := n, st_updated_at := u\<rparr>)
    = state_key r" for r a b c p v n u
    by (simp add: state_key_def)
  show ?thesis
  proof (cases "row_exists (\<lambda>r. state_key r = (sid, m, td)) (db_states d)")
    case False
    then show ?thesis using assms
      by (subst load_strategy_state_def, subst save_strategy_state_def)
        (auto simp: Let_def load_strategy_state_def state_key_def intro!: select_one_insert_other)
  next
    case True
    have same: "map_option (\<lambda>r. if state_key r = (sid, m, td) then f r else r)
        (select_one (\<lambda>r. state_key r = (sid', m', td')) (db_states d))
      = select_one (\<lambda>r. state_key r = (sid', m', td')) (db_states d)" for f
      using assms by (cases "select_one (\<lambda>r. state_key r = (sid', m', td')) (db_states d)")
        (auto dest!: select_one_Some)
    show ?thesis using True
      by (subst load_strategy_state_def, subst save_strategy_state_def)
        (simp add: Let_def k select_one_update same load_strategy_state_def)
  qed
qed

lemma merge_updates_get:
  "distinct (map fst updates) \<Longrightarrow> dict_get (merge_updates updates p) k
     = (case map_of updates k of None \<Rightarrow> dict_get p k | Some v \<Rightarrow> v)"
proof (induction updates arbitrary: p)
  case (Cons u us)
  obtain k' v where u: "u = (k', v)" by fastforce
  have "map_of us k' = None" using Cons(2) u by (simp add: map_of_eq_None_iff)
  then show ?case using Cons u by (auto simp: merge_updates_def split: option.splits)
qed (simp add: merge_updates_def)

end
