(* ===== verification/Gateway.thy ===== *)
theory Gateway
  imports Lifecycle Positions State_Payload
begin

text \<open>
  common/engine/gateway.py: the execution gateway that persists.  A leg becomes
  a signal of the order lifecycle; its outcome is read off the persisted order.
  The state is the gateway's own record, the database and the broker; the
  quotes and the clock at the call are arguments.
\<close>

definition synthetic_window :: int where "synthetic_window = second"
definition disambiguator :: int where "disambiguator = 1"

record lifecycle_gateway =
  lg_lifecycle :: lifecycle
  lg_strategy_id :: string
  lg_mode :: execution_mode
  lg_trading_date :: string
  lg_has_repository :: bool
  lg_runtime_id :: string
  lg_last_window_end :: "(string, datetime) dict"
  lg_executions :: nat

definition new_lifecycle_gateway ::
  "lifecycle \<Rightarrow> string \<Rightarrow> execution_mode \<Rightarrow> string \<Rightarrow> bool \<Rightarrow> string \<Rightarrow> lifecycle_gateway" where
  "new_lifecycle_gateway lc strategy_id mode trading_date has_repository runtime_id =
     \<lparr>lg_lifecycle = lc, lg_strategy_id = strategy_id, lg_mode = mode, lg_trading_date = trading_date,
      lg_has_repository = has_repository, lg_runtime_id = runtime_id, lg_last_window_end = [],
      lg_executions = 0\<rparr>"

section \<open>The synthesised signal\<close>

text \<open>max(ts, previous + one microsecond): Python's max keeps its first argument on a tie.\<close>

definition window :: "string \<Rightarrow> datetime \<Rightarrow> lifecycle_gateway \<Rightarrow> (datetime \<times> datetime) \<times> lifecycle_gateway" where
  "window instrument ts g =
     (let end_at = (case dict_get (lg_last_window_end g) instrument of
                      None \<Rightarrow> ts
                    | Some previous \<Rightarrow>
                        if ts < dt_add previous disambiguator then dt_add previous disambiguator else ts)
      in ((dt_add end_at (- synthetic_window), end_at),
          g\<lparr>lg_last_window_end := dict_set instrument end_at (lg_last_window_end g)\<rparr>))"

definition side_text :: "side \<Rightarrow> string" where
  "side_text s = (case s of BUY \<Rightarrow> ''BUY'' | SELL \<Rightarrow> ''SELL'')"

definition option_text :: "option_type \<Rightarrow> string" where
  "option_text t = (case t of CE \<Rightarrow> ''CE'' | PE \<Rightarrow> ''PE'')"

definition int_text :: "int \<Rightarrow> string" where
  "int_text k = (if k < 0 then ''-'' @ nat_digits (nat (- k)) else nat_digits (nat k))"

definition leg_candle :: "option_contract \<Rightarrow> money \<Rightarrow> datetime \<Rightarrow> datetime \<Rightarrow> candle" where
  "leg_candle contract ref_price start_at end_at =
     \<lparr>cd_security_id = oc_security_id contract, cd_instrument = oc_symbol contract,
      cd_open = ref_price, cd_high = ref_price, cd_low = ref_price, cd_close = ref_price,
      cd_volume = 0, cd_start_at = start_at, cd_end_at = end_at, cd_tick_count = 0,
      cd_last_tick_at = None, cd_spans_gap = False\<rparr>"

definition leg_signal ::
  "lifecycle_gateway \<Rightarrow> side \<Rightarrow> option_contract \<Rightarrow> int \<Rightarrow> money \<Rightarrow> datetime \<Rightarrow> candle \<Rightarrow> signal result" where
  "leg_signal g s contract lots ref_price ts bar =
     bindE (new_candle bar) (\<lambda>c.
     new_signal
       \<lparr>sg_strategy_id = lg_strategy_id g, sg_execution_mode = lg_mode g,
        sg_instrument = oc_symbol contract, sg_security_id = oc_security_id contract, sg_side = s,
        sg_quantity = lots * oc_lot_size contract, sg_candle = c, sg_reference_price = ref_price,
        sg_evaluated_at = ts,
        sg_reason = ''engine '' @ side_text s @ '' '' @ int_text lots @ '' lot(s) of '' @ oc_symbol contract\<rparr>)"

section \<open>Reading the result\<close>

definition require_a_fill :: "execution_result \<Rightarrow> unit result" where
  "require_a_fill result =
     (case xr_skipped_reason result of
        Some _ \<Rightarrow> Inl GatewayExecutionError
      | None \<Rightarrow>
          (case xr_order result of
             None \<Rightarrow> Inl GatewayExecutionError
           | Some ord \<Rightarrow>
               if od_status ord = REJECTED then Inl GatewayExecutionError
               else if od_fills ord = [] then Inl GatewayExecutionError
               else if od_average_fill_price ord = None then Inl GatewayExecutionError
               else if od_status ord = PARTIALLY_FILLED then Inl GatewayExecutionError
               else Inr ()))"

definition outcome :: "execution_result \<Rightarrow> fill_outcome result" where
  "outcome result =
     (case xr_order result of
        None \<Rightarrow> Inl AssertionError
      | Some ord \<Rightarrow>
          (case od_average_fill_price ord of
             None \<Rightarrow> Inl AssertionError
           | Some average \<Rightarrow>
               Inr \<lparr>fo_fill_price = average, fo_charges = (\<Sum>f\<leftarrow>od_fills ord. fl_charges f),
                    fo_charges_breakdown = []\<rparr>))"

definition contract_json :: "option_contract \<Rightarrow> int \<Rightarrow> side \<Rightarrow> json" where
  "contract_json contract lots s =
     JObj [(''symbol'', JStr (oc_symbol contract)), (''security_id'', JStr (oc_security_id contract)),
           (''strike'', JNum (oc_strike contract)), (''option_type'', JStr (option_text (oc_option_type contract))),
           (''expiry'', JStr (oc_expiry contract)), (''lot_size'', JNum (of_int (oc_lot_size contract))),
           (''side'', JStr (side_text s)), (''lots'', JNum (of_int lots))]"

text \<open>A failure to write the contract record is logged and swallowed.\<close>

definition record_contract ::
  "lifecycle_gateway \<Rightarrow> option_contract \<Rightarrow> int \<Rightarrow> side \<Rightarrow> execution_result \<Rightarrow> datetime \<Rightarrow> db \<Rightarrow> db" where
  "record_contract g contract lots s result now d =
     (if \<not> lg_has_repository g then d
      else case xr_position result of
             None \<Rightarrow> d
           | Some p \<Rightarrow>
               snd (merge_payload
                 [(open_position_key, if position_is_open p then Some (contract_json contract lots s) else None)]
                 (lg_runtime_id g) (lg_strategy_id g) (lg_mode g) (lg_trading_date g) None now d))"

section \<open>Executing a leg\<close>

type_synonym 'b leg_state = "lifecycle_gateway \<times> db \<times> 'b"
type_synonym 'b ask = "order_intent \<Rightarrow> quote \<Rightarrow> 'b \<Rightarrow> order result \<times> 'b"

definition execute ::
  "'b ask \<Rightarrow> quote_book option \<Rightarrow> datetime \<Rightarrow> side \<Rightarrow> 'b leg_state leg" where
  "execute submit_op book now s contract lots ref_price ts stop target st =
     (case st of (g, d, b) \<Rightarrow>
      case window (oc_symbol contract) ts g of
        ((start_at, end_at), g1) \<Rightarrow>
          (case leg_signal g1 s contract lots ref_price ts (leg_candle contract ref_price start_at end_at) of
             Inl e \<Rightarrow> (Inl e, (g1, d, b))
           | Inr sig \<Rightarrow>
               (case handle_signal submit_op (lg_lifecycle g1) book now sig (lg_trading_date g1) stop target (d, b) of
                  (Inl e, (d1, b1)) \<Rightarrow> (Inl e, (g1, d1, b1))
                | (Inr result, (d1, b1)) \<Rightarrow>
                    (case require_a_fill result of
                       Inl e \<Rightarrow> (Inl e, (g1, d1, b1))
                     | Inr _ \<Rightarrow>
                         let g2 = g1\<lparr>lg_executions := lg_executions g1 + 1\<rparr>;
                             d2 = record_contract g2 contract lots s result now d1
                         in (outcome result, (g2, d2, b1))))))"

definition lifecycle_buy :: "'b ask \<Rightarrow> quote_book option \<Rightarrow> datetime \<Rightarrow> 'b leg_state leg" where
  "lifecycle_buy submit_op book now = execute submit_op book now BUY"

definition lifecycle_sell :: "'b ask \<Rightarrow> quote_book option \<Rightarrow> datetime \<Rightarrow> 'b leg_state leg" where
  "lifecycle_sell submit_op book now = execute submit_op book now SELL"

section \<open>Windows\<close>

lemma window_spec:
  assumes "window i ts g = ((a, e), g')"
  shows "a = dt_add e (- synthetic_window)" "instant ts \<le> instant e"
    "\<And>p. dict_get (lg_last_window_end g) i = Some p \<Longrightarrow> instant p < instant e"
    "lg_last_window_end g' = dict_set i e (lg_last_window_end g)"
    "g' = g\<lparr>lg_last_window_end := lg_last_window_end g'\<rparr>"
    "e = ts \<or> (\<exists>p. dict_get (lg_last_window_end g) i = Some p \<and> e = dt_add p disambiguator)"
  using assms
  by (auto simp: window_def Let_def datetime_order disambiguator_def split: option.splits if_splits)

text \<open>
  The windows of the process so far cover every signal the strategy has in the
  database, but those that were there when the process started.
\<close>

definition signal_of_gateway :: "lifecycle_gateway \<Rightarrow> signal_row \<Rightarrow> bool" where
  "signal_of_gateway g r = (sg_strategy_id (si_signal r) = lg_strategy_id g \<and> sg_execution_mode (si_signal r) = lg_mode g)"

definition windows_cover :: "signal_row list \<Rightarrow> lifecycle_gateway \<Rightarrow> db \<Rightarrow> bool" where
  "windows_cover old g d =
     ((\<forall>i e. dict_get (lg_last_window_end g) i = Some e \<longrightarrow> aware e)
      \<and> id_exists (lc_session_id (lg_lifecycle g)) (db_sessions d)
      \<and> (\<forall>r \<in> set (row_list (db_signals d)).
          signal_of_gateway g r \<longrightarrow> r \<in> set old \<or>
          (\<exists>e. dict_get (lg_last_window_end g) (sg_instrument (si_signal r)) = Some e
             \<and> instant (cd_end_at (sg_candle (si_signal r))) \<le> instant e)))"

text \<open>A signal that was there when the process started, of the contract, that ends at or after an instant.\<close>

definition earlier_signal :: "signal_row list \<Rightarrow> lifecycle_gateway \<Rightarrow> string \<Rightarrow> datetime \<Rightarrow> bool" where
  "earlier_signal old g instrument ts =
     list_ex (\<lambda>r. signal_of_gateway g r \<and> sg_instrument (si_signal r) = instrument
        \<and> instant ts \<le> instant (cd_end_at (sg_candle (si_signal r)))) old"

lemma leg_candle_ok: "aware e \<Longrightarrow> candle_ok (leg_candle c ref (dt_add e (- synthetic_window)) e)"
  by (simp add: candle_ok_def leg_candle_def synthetic_window_def second_def)

lemma leg_signal_Inr:
  "leg_signal g s c lots ref ts bar = Inr sig \<longleftrightarrow>
     candle_ok bar \<and> 0 < lots * oc_lot_size c
     \<and> sig = \<lparr>sg_strategy_id = lg_strategy_id g, sg_execution_mode = lg_mode g,
        sg_instrument = oc_symbol c, sg_security_id = oc_security_id c, sg_side = s,
        sg_quantity = lots * oc_lot_size c, sg_candle = bar, sg_reference_price = ref,
        sg_evaluated_at = ts,
        sg_reason = ''engine '' @ side_text s @ '' '' @ int_text lots @ '' lot(s) of '' @ oc_symbol c\<rparr>"
  by (auto simp: leg_signal_def bindE_Inr new_candle_Inr new_signal_def)

lemma handle_signal_signals:
  assumes "handle_signal submit_op lc book now sig td stop target (d, b) = (r, (d', b'))"
  shows "db_signals d' = db_signals (snd (record_signal (lc_session_id lc) (lc_runtime_id lc) sig td
            (lc_config_fingerprint lc) d)) \<and> db_sessions d' = db_sessions d"
proof -
  obtain k d1 where rs: "record_signal (lc_session_id lc) (lc_runtime_id lc) sig td
      (lc_config_fingerprint lc) d = (k, d1)" by fastforce
  have "db_signals d' = db_signals d1 \<and> db_sessions d' = db_sessions d1"
    using assms rs
    by (auto simp: handle_signal_def dest!: reserve_signal_frame persist_frame
        split: option.splits sum.splits prod.splits if_splits)
  moreover have "db_sessions d1 = db_sessions d" using rs by (auto simp: record_signal_def Let_def split: if_splits)
  ultimately show ?thesis using rs by simp
qed

lemma record_contract_frame:
  "db_signals (record_contract g c lots s x now d) = db_signals d
   \<and> db_sessions (record_contract g c lots s x now d) = db_sessions d
   \<and> db_fills (record_contract g c lots s x now d) = db_fills d
   \<and> db_intents (record_contract g c lots s x now d) = db_intents d
   \<and> db_positions (record_contract g c lots s x now d) = db_positions d"
  by (auto simp: record_contract_def merge_payload_def Let_def split: option.split sum.split)

lemma record_contract_inv: "db_inv d \<Longrightarrow> db_inv (record_contract g c lots s x now d)"
  by (auto simp: record_contract_def merge_payload_def Let_def save_strategy_state_inv
      split: option.split sum.split)

text \<open>A leg is its window, its signal, the lifecycle and the reading of its result.\<close>

lemma execute_cases:
  assumes "execute submit_op book now s c lots ref ts stop target (g, d, b) = (r, (g', d', b'))"
  obtains a e g1 where "window (oc_symbol c) ts g = ((a, e), g1)"
    and "leg_signal g1 s c lots ref ts (leg_candle c ref a e) = Inl ValueError" "g' = g1" "d' = d" "b' = b"
      "r = Inl ValueError"
  | a e g1 sig x d1 where "window (oc_symbol c) ts g = ((a, e), g1)"
    and "leg_signal g1 s c lots ref ts (leg_candle c ref a e) = Inr sig"
    and "handle_signal submit_op (lg_lifecycle g) book now sig (lg_trading_date g) stop target (d, b) = (x, (d1, b'))"
    and "lg_last_window_end g' = lg_last_window_end g1"
      "g' = g\<lparr>lg_last_window_end := lg_last_window_end g1, lg_executions := lg_executions g'\<rparr>"
    and "(\<exists>err. r = Inl err) \<and> d' = d1 \<and> lg_executions g' = lg_executions g
      \<or> (\<exists>res. x = Inr res \<and> require_a_fill res = Inr () \<and> r = outcome res
            \<and> lg_executions g' = lg_executions g + 1
            \<and> d' = record_contract g' c lots s res now d1)"
proof -
  obtain a e g1 where w: "window (oc_symbol c) ts g = ((a, e), g1)" by (metis surj_pair)
  note g1 = window_spec(5) [OF w]
  show thesis
  proof (cases "leg_signal g1 s c lots ref ts (leg_candle c ref a e)")
    case (Inl err)
    then have "err = ValueError"
      by (auto simp: leg_signal_def new_candle_def new_signal_def check_def split: if_splits)
    with Inl w assms that(1) show ?thesis by (auto simp: execute_def)
  next
    case (Inr sig)
    obtain x d1 b1 where h: "handle_signal submit_op (lg_lifecycle g) book now sig (lg_trading_date g) stop target (d, b)
        = (x, (d1, b1))" by (metis surj_pair)
    have same: "lg_lifecycle g1 = lg_lifecycle g" "lg_trading_date g1 = lg_trading_date g"
      by (subst g1, simp)+
    show ?thesis
    proof (rule that(2) [OF w Inr])
      show "handle_signal submit_op (lg_lifecycle g) book now sig (lg_trading_date g) stop target (d, b) = (x, (d1, b'))"
        using assms w Inr h same
        by (auto simp: execute_def Let_def split: sum.splits)
      show "lg_last_window_end g' = lg_last_window_end g1"
        "(\<exists>err. r = Inl err) \<and> d' = d1 \<and> lg_executions g' = lg_executions g
      \<or> (\<exists>res. x = Inr res \<and> require_a_fill res = Inr () \<and> r = outcome res
            \<and> lg_executions g' = lg_executions g + 1
            \<and> d' = record_contract g' c lots s res now d1)"
        using assms w Inr h same arg_cong [OF g1, of lg_executions]
        by (auto simp: execute_def Let_def split: sum.splits)
      show "g' = g\<lparr>lg_last_window_end := lg_last_window_end g1, lg_executions := lg_executions g'\<rparr>"
        using assms w Inr h same by (subst (asm) g1, cases g, cases g1) (auto simp: execute_def Let_def split: sum.splits)
    qed
  qed
qed

lemma windows_cover_step:
  assumes c: "windows_cover old g d" and e: "aware e" "\<And>p. dict_get (lg_last_window_end g) i = Some p \<Longrightarrow> instant p < instant e"
    and w: "lg_last_window_end g' = dict_set i e (lg_last_window_end g)"
    and same: "lg_lifecycle g' = lg_lifecycle g" "\<And>r. signal_of_gateway g' r = signal_of_gateway g r"
      "db_sessions d' = db_sessions d"
    and rows: "\<And>r. r \<in> set (row_list (db_signals d')) \<Longrightarrow>
      r \<in> set (row_list (db_signals d)) \<or> sg_instrument (si_signal r) = i \<and> cd_end_at (sg_candle (si_signal r)) = e"
  shows "windows_cover old g' d'"
proof -
  have "r \<in> set old \<or> (\<exists>x. dict_get (lg_last_window_end g') (sg_instrument (si_signal r)) = Some x
      \<and> instant (cd_end_at (sg_candle (si_signal r))) \<le> instant x)"
    if r: "r \<in> set (row_list (db_signals d'))" "signal_of_gateway g r" for r
    using rows [OF r(1)]
  proof
    assume "r \<in> set (row_list (db_signals d))"
    with c r(2) consider "r \<in> set old" | x where
      "dict_get (lg_last_window_end g) (sg_instrument (si_signal r)) = Some x"
      "instant (cd_end_at (sg_candle (si_signal r))) \<le> instant x"
      unfolding windows_cover_def by blast
    then show ?thesis
    proof cases
      case (2 x)
      with e(2) [of x] show ?thesis by (cases "sg_instrument (si_signal r) = i") (auto simp: w)
    qed simp
  qed (auto simp: w)
  moreover have "aware x" if "dict_get (lg_last_window_end g') j = Some x" for j x
    using that c e(1) by (cases "j = i") (auto simp: w windows_cover_def)
  ultimately show ?thesis using c by (simp add: windows_cover_def same)
qed

lemma leg_windows:
  assumes c: "windows_cover old g d" "aware ts"
    and x: "execute submit_op book now s c lots ref ts stop target (g, d, b) = (r, (g', d', b'))"
  shows "windows_cover old g' d'
    \<and> (0 < lots * oc_lot_size c \<longrightarrow>
        (\<exists>row. row_list (db_signals d') = row_list (db_signals d) @ [row]
          \<and> sg_instrument (si_signal row) = oc_symbol c \<and> sg_side (si_signal row) = s
          \<and> sg_quantity (si_signal row) = lots * oc_lot_size c
          \<and> instant ts \<le> instant (cd_end_at (sg_candle (si_signal row))))
        \<or> (row_list (db_signals d') = row_list (db_signals d) \<and> earlier_signal old g (oc_symbol c) ts))"
  using x
proof (cases rule: execute_cases)
  case (1 a e g1)
  note w = window_spec [OF 1(1)]
  have e: "aware e" using w(6) c by (auto simp: windows_cover_def)
  have "\<exists>sig. leg_signal g1 s c lots ref ts (leg_candle c ref a e) = Inr sig" if "0 < lots * oc_lot_size c"
    using that leg_candle_ok [OF e] w(1) by (simp add: leg_signal_Inr)
  then have "\<not> 0 < lots * oc_lot_size c" using 1(2) by auto
  moreover have "windows_cover old g' d'"
    unfolding 1(3,4) using c(1) w(3) e
    by (subst w(5)) (fastforce simp: windows_cover_def signal_of_gateway_def w(4))
  ultimately show ?thesis by simp
next
  case (2 a e g1 sig x d1)
  note w = window_spec [OF 2(1)]
  have e: "aware e" using w(6) c by (auto simp: windows_cover_def)
  have sig: "sg_strategy_id sig = lg_strategy_id g" "sg_execution_mode sig = lg_mode g"
    "sg_instrument sig = oc_symbol c" "cd_end_at (sg_candle sig) = e" "sg_side sig = s"
    "sg_quantity sig = lots * oc_lot_size c"
    using 2(2) [unfolded leg_signal_Inr] by (simp_all add: leg_candle_def) (subst w(5), simp)+
  have s1: "db_signals d' = db_signals d1" "db_sessions d' = db_sessions d1"
    using 2(6) record_contract_frame by auto
  note h = handle_signal_signals [OF 2(3)]
  have mine: "signal_of_gateway g' r = signal_of_gateway g r" for r
    by (subst 2(5)) (simp add: signal_of_gateway_def)
  have lc: "lg_lifecycle g' = lg_lifecycle g" by (subst 2(5)) simp
  have ss: "db_sessions d' = db_sessions d" using s1 h by simp
  note step = windows_cover_step [OF c(1) e w(3) _ lc mine ss, of "oc_symbol c"]
  have id: "id_exists (lc_session_id (lg_lifecycle g)) (db_sessions d)" using c(1) by (simp add: windows_cover_def)
  let ?row = "\<lparr>si_session_id = lc_session_id (lg_lifecycle g), si_runtime_id = lc_runtime_id (lg_lifecycle g),
      si_signal = sig, si_trading_date = lg_trading_date g,
      si_config_fingerprint = lc_config_fingerprint (lg_lifecycle g)\<rparr>"
  show ?thesis
  proof (cases "row_exists (\<lambda>r. signal_key r = candle_key sig) (db_signals d)")
    case True
    then obtain r0 where r0: "r0 \<in> set (row_list (db_signals d))" "signal_key r0 = candle_key sig"
      by (auto simp: row_exists_list)
    then have k: "signal_of_gateway g r0" "sg_instrument (si_signal r0) = oc_symbol c"
      "cd_end_at (sg_candle (si_signal r0)) = e"
      using sig by (auto simp: signal_key_def candle_key_def signal_of_gateway_def)
    have "r0 \<in> set old"
    proof (rule ccontr)
      assume "r0 \<notin> set old"
      with c(1) r0(1) k obtain p where "dict_get (lg_last_window_end g) (oc_symbol c) = Some p" "instant e \<le> instant p"
        unfolding windows_cover_def by metis
      with w(3) show False by force
    qed
    then have "earlier_signal old g (oc_symbol c) ts"
      using k w(2) by (auto simp: earlier_signal_def list_ex_iff)
    moreover have rows: "db_signals d' = db_signals d"
      using h s1 True id by (simp add: record_signal_def Let_def signal_key_def candle_key_def)
    moreover have "windows_cover old g' d'"
      by (rule step) (simp_all add: 2(4) w(4) rows)
    ultimately show ?thesis by simp
  next
    case False
    have rows: "row_list (db_signals d') = row_list (db_signals d) @ [?row]"
      using h s1 False id by (simp add: record_signal_def Let_def signal_key_def candle_key_def)
    have "windows_cover old g' d'"
      by (rule step) (auto simp: 2(4) w(4) rows sig)
    moreover have "instant ts \<le> instant (cd_end_at (sg_candle (si_signal ?row)))"
      using sig w(2) by simp
    ultimately show ?thesis using rows sig
      by (intro conjI impI disjI1 exI [of _ ?row]) (auto split: prod.splits)
  qed
qed

text \<open>
  The legs of one process, from whatever signals its database held when it
  started: quotes, clock and broker behaviour may differ at each leg, and between
  legs anything may happen that records no signal and ends no session's row.
\<close>

inductive leg_run :: "signal_row list \<Rightarrow> 'b leg_state \<Rightarrow> bool" where
  lr_new: "id_exists (lc_session_id lc) (db_sessions d)
     \<Longrightarrow> leg_run (row_list (db_signals d)) (new_lifecycle_gateway lc sid m td hr rt, d, b)"
| lr_leg: "leg_run old st \<Longrightarrow> aware ts \<Longrightarrow>
     execute submit_op book now s c lots ref ts stop target st = (r, st') \<Longrightarrow> leg_run old st'"
| lr_other: "leg_run old (g, d, b) \<Longrightarrow> db_signals d' = db_signals d \<Longrightarrow>
     (\<forall>k. id_exists k (db_sessions d) \<longrightarrow> id_exists k (db_sessions d')) \<Longrightarrow> leg_run old (g, d', b')"

lemma leg_run_cover: "leg_run old st \<Longrightarrow> windows_cover old (fst st) (fst (snd st))"
proof (induction rule: leg_run.induct)
  case (lr_new lc d sid m td hr rt b)
  then show ?case by (auto simp: windows_cover_def new_lifecycle_gateway_def)
next
  case (lr_leg old st ts submit_op book now s c lots ref stop target r st')
  obtain g d b g' d' b' where st: "st = (g, d, b)" "st' = (g', d', b')" by (metis surj_pair)
  show ?case using leg_windows [of old g d ts submit_op book now s c lots ref stop target b r g' d' b']
      lr_leg st by simp
next
  case (lr_other old g d b d' b')
  then show ?case by (simp add: windows_cover_def)
qed

lemma execute_db_inv:
  assumes "db_inv d" "execute submit_op book now s c lots ref ts stop target (g, d, b) = (r, (g', d', b'))"
  shows "db_inv d'"
  using assms(2)
proof (cases rule: execute_cases)
  case (2 a e g1 sig y d1)
  have "db_inv d1" using handle_signal_db_inv [OF assms(1) 2(3)] .
  then show ?thesis using 2(6) record_contract_inv by auto
qed (use assms(1) in simp)

section \<open>The gateway interface\<close>

definition paper_leg_ok :: "paper_broker leg_state \<Rightarrow> bool" where
  "paper_leg_ok st = (case st of (g, d, b) \<Rightarrow> db_inv d \<and> broker_inv b \<and> rates_ok (pb_charges b))"

lemma submit_charges: "submit qb now i q b = (r, b') \<Longrightarrow> pb_charges b' = pb_charges b"
proof -
  assume s: "submit qb now i q b = (r, b')"
  have "static b' = static b"
  proof (cases r)
    case (Inl e)
    with s submit_Inl show ?thesis unfolding kept_def by blast
  next
    case (Inr ord)
    from submit_Inr [OF s [unfolded Inr]] obtain rr where
      c: "if oi_order_type i = LIMIT then rest now i q b = (Inr ord, b')
     else fill_now qb now i q rr b = (Inr ord, b')" by blast
    show ?thesis
    proof (cases "oi_order_type i = LIMIT")
      case True
      with c show ?thesis by (auto simp: rest_def Let_def static_def)
    next
      case False
      with c have "fill_now qb now i q rr b = (Inr ord, b')" by simp
      from fill_now_Inr [OF this] show ?thesis by (auto simp: kept_def static_def)
    qed
  qed
  then show ?thesis by (simp add: static_def)
qed

lemma handle_signal_paper:
  assumes "broker_inv b" "handle_signal (submit qb t) lc book now sig td stop target (d, b) = (r, (d', b'))"
  shows "broker_inv b' \<and> pb_charges b' = pb_charges b"
  using assms
  by (auto simp: handle_signal_def split: option.splits sum.splits prod.splits if_splits
      dest: submit_inv submit_charges)

lemma require_a_fill_Inr:
  "require_a_fill res = Inr () \<longleftrightarrow> xr_skipped_reason res = None
     \<and> (\<exists>ord. xr_order res = Some ord \<and> od_status ord \<notin> {REJECTED, PARTIALLY_FILLED}
          \<and> od_fills ord \<noteq> [] \<and> od_average_fill_price ord \<noteq> None)"
  by (auto simp: require_a_fill_def split: option.splits)

lemma leg_outcome:
  assumes "db_inv d" "broker_inv b"
    and "execute (submit qb t) book now s c lots ref ts stop target (g, d, b) = (Inr f, (g', d', b'))"
  shows "\<exists>ord cid oid sig. order_by_correlation_id b' cid = Some ord \<and> od_status ord = FILLED
    \<and> order_of_signal b sig ord \<and> sg_side sig = s \<and> sg_quantity sig = lots * oc_lot_size c
    \<and> od_average_fill_price ord = Some (fo_fill_price f)
    \<and> fo_charges f = (\<Sum>x\<leftarrow>od_fills ord. fl_charges x)
    \<and> (\<forall>x \<in> set (od_fills ord). row_exists (\<lambda>r. fill_key r = (oid, fl_broker_fill_id x)) (db_fills d'))
    \<and> lg_executions g' = lg_executions g + 1"
  using assms(3)
proof (cases rule: execute_cases)
  case (2 a e g1 sig x d1)
  then obtain res where res: "x = Inr res" "require_a_fill res = Inr ()" "Inr f = outcome res"
    "lg_executions g' = lg_executions g + 1" "d' = record_contract g' c lots s res now d1" by auto
  have sk: "xr_skipped_reason res = None" using res(2) by (simp add: require_a_fill_Inr)
  from handled_signal_spec [OF assms(1,2) 2(3) [unfolded res(1)] sk] obtain ord oid cid where
    o: "xr_order res = Some ord" "order_by_correlation_id b' cid = Some ord" "order_of_signal b sig ord"
    "\<forall>f \<in> set (od_fills ord). row_exists (\<lambda>r. fill_key r = (oid, fl_broker_fill_id f)) (db_fills d1)" by blast
  have "od_status ord = FILLED" using o(1,3) res(2) by (auto simp: require_a_fill_Inr order_of_signal_def)
  moreover have "od_average_fill_price ord = Some (fo_fill_price f)"
    "fo_charges f = (\<Sum>x\<leftarrow>od_fills ord. fl_charges x)"
    using res(3) o(1) by (auto simp: outcome_def split: option.splits)
  moreover have "sg_side sig = s" "sg_quantity sig = lots * oc_lot_size c"
    using 2(2) [unfolded leg_signal_Inr] by simp_all
  ultimately show ?thesis using o res(4,5) record_contract_frame by metis
qed simp

lemma paper_leg:
  assumes "paper_leg_ok st" "execute (submit qb t) book now s c lots ref ts stop target st = (r, st')"
  shows "paper_leg_ok st' \<and> (\<forall>f. r = Inr f \<longrightarrow> 0 \<le> fo_fill_price f \<and> 0 \<le> fo_charges f)"
proof -
  obtain g d b g' d' b' where st: "st = (g, d, b)" "st' = (g', d', b')" by (metis surj_pair)
  note x = assms(2) [unfolded st]
  have i: "db_inv d" "broker_inv b" "rates_ok (pb_charges b)" using assms(1) st by (simp_all add: paper_leg_ok_def)
  have "paper_leg_ok st'" using x
  proof (cases rule: execute_cases)
    case (1 a e g1)
    with i st show ?thesis by (simp add: paper_leg_ok_def)
  next
    case (2 a e g1 sig y d1)
    have "db_inv d'" using execute_db_inv [OF i(1) x] .
    with handle_signal_paper [OF i(2) 2(3)] i st show ?thesis by (simp add: paper_leg_ok_def)
  qed
  moreover have "0 \<le> fo_fill_price f \<and> 0 \<le> fo_charges f" if f: "r = Inr f" for f
  proof -
    from leg_outcome [OF i(1,2) x [unfolded f]] obtain ord sig where
      o: "order_of_signal b sig ord" "od_average_fill_price ord = Some (fo_fill_price f)"
      "fo_charges f = (\<Sum>x\<leftarrow>od_fills ord. fl_charges x)" by blast
    have "0 \<le> fl_charges x" if "x \<in> set (od_fills ord)" for x
      using o(1) that total_for_leg_nonneg [OF i(3)] unfolding order_of_signal_def by blast
    then show ?thesis using o by (auto simp: order_of_signal_def py_round_nonneg intro!: sum_list_nonneg_rat)
  qed
  ultimately show ?thesis by blast
qed

interpretation live: execution_gateway "lifecycle_buy (submit qb t) book now"
  "lifecycle_sell (submit qb t) book now" paper_leg_ok for qb t book now
  by (unfold_locales; unfold lifecycle_buy_def lifecycle_sell_def; rule paper_leg; assumption)

text \<open>The manager over the persisting gateway, the quotes and the clock changing as they do.\<close>

definition live_gateway :: "quote_book option \<Rightarrow> datetime \<Rightarrow> quote_book option \<Rightarrow> datetime \<Rightarrow> paper_broker leg_state gateway" where
  "live_gateway qb t book now =
     \<lparr>gw_buy = lifecycle_buy (submit qb t) book now, gw_sell = lifecycle_sell (submit qb t) book now\<rparr>"

inductive live_reach :: "position_manager \<times> paper_broker leg_state \<Rightarrow> bool" where
  live_new: "repo_reach d \<Longrightarrow> broker_reach b \<Longrightarrow> rates_ok (pb_charges b)
     \<Longrightarrow> live_reach (new_position_manager lots, (g, d, b))"
| live_open: "live_reach st \<Longrightarrow> open_leg (live_gateway qb t book now) c s ref ts regime fs stop target st = (r, st')
     \<Longrightarrow> live_reach st'"
| live_mark: "live_reach (pm, gs) \<Longrightarrow> live_reach (mark_position pid x pm, gs)"
| live_close: "live_reach st \<Longrightarrow> close_leg (live_gateway qb t book now) pid ref ts why er tags st = (r', st')
     \<Longrightarrow> live_reach st'"

lemma live_gw: "live.gw qb t book now = live_gateway qb t book now"
  by (simp add: live.gw_def live_gateway_def)

lemma live_reach_charged: "live_reach st \<Longrightarrow> paper_leg_ok (snd st) \<and> live.charged (fst st)"
proof (induction rule: live_reach.induct)
  case (live_new d b lots g)
  then show ?case
    by (simp add: paper_leg_ok_def repo_reach_inv reach_inv live.charged_def new_position_manager_def)
next
  case (live_open st qb t book now c s ref ts regime fs stop target r st')
  then show ?case
    using live.open_charged [of "snd st" "fst st" qb t book now c s ref ts regime fs stop target r "fst st'" "snd st'"]
    by (simp add: live_gw)
next
  case (live_close st qb t book now pid ref ts why er tags r' st')
  then show ?case
    using live.close_charged [of "snd st" "fst st" qb t book now pid ref ts why er tags r' "fst st'" "snd st'"]
    by (simp add: live_gw)
next
  case (live_mark pm gs pid x)
  then show ?case by (simp add: live.charged_def)
qed

section \<open>The contract record\<close>

text \<open>Every state row carries the version this build reads.\<close>

definition states_current :: "db \<Rightarrow> bool" where
  "states_current d = (\<forall>r \<in> set (row_list (db_states d)). st_state_version r = current_state_version)"

lemma states_current_touch: "states_current d \<Longrightarrow> states_current (touch_strategy_state rt sid m td lc x now d)"
  by (auto simp: states_current_def touch_strategy_state_def Let_def row_list_update current_state_version_def)

lemma states_current_save: "states_current d \<Longrightarrow> states_current (save_strategy_state rt sid m td lc so bl pl inc now d)"
  by (auto simp: states_current_def save_strategy_state_def Let_def row_list_update)

lemma states_current_cong: "db_states d' = db_states d \<Longrightarrow> states_current d \<Longrightarrow> states_current d'"
  by (simp add: states_current_def)

lemma upsert_position_states: "upsert_position rt f ins sid s td stop target now d = (y, d') \<Longrightarrow> db_states d' = db_states d"
  by (auto simp: upsert_position_def Let_def split: option.splits)

lemma apply_fill_states_current:
  assumes "apply_fill k rt f status ins sid s td stop target lc now d = (x, d')" "states_current d"
  shows "states_current d'"
proof (cases "upsert_position rt f ins sid s td stop target now (before_position k rt f status now d)")
  case (Pair y d4)
  have "states_current d4"
    using states_current_cong [OF upsert_position_states [OF Pair]] assms(2)
    by (simp add: states_current_def before_position_frame)
  with assms Pair show ?thesis
    by (auto simp: apply_fill_alt states_current_touch split: if_splits option.splits sum.splits)
qed

lemma write_states_same [simp]:
  "db_states (close_session k reason now d) = db_states d"
  "db_states (update_position_marks a m td sid hi lo d) = db_states d"
  "db_states (record_error a b' m' sev nm msg ctx now d) = db_states d"
  "db_states (record_notification a b' m' ch ev msg dv b2 now d) = db_states d"
  by (simp_all add: close_session_def update_position_marks_def record_error_def record_notification_def)

lemma write_states:
  "open_session a b m r p f now d = (x1, d') \<Longrightarrow> db_states d' = db_states d"
  "record_heartbeat k a b c e f9 g now d = (x2, d') \<Longrightarrow> db_states d' = db_states d"
  "record_signal k a sg td f d = (x3, d') \<Longrightarrow> db_states d' = db_states d"
  "reserve_intent k i d = (x4, d') \<Longrightarrow> db_states d' = db_states d"
  "record_submission k ord a now d = (x5, d') \<Longrightarrow> db_states d' = db_states d"
  "record_audit_event a ac actr b' m' dt now d = (x7, d') \<Longrightarrow> db_states d' = db_states d"
  by (auto simp: open_session_def record_heartbeat_def record_signal_def reserve_intent_def
      record_submission_def record_audit_event_def Let_def split: if_splits option.splits prod.splits)

lemma repo_step_states_current: "repo_step d d' \<Longrightarrow> states_current d \<Longrightarrow> states_current d'"
  by (erule repo_stepE)
    (auto simp: states_current_save apply_fill_states_current, auto simp: states_current_def dest!: write_states)

lemma repo_reach_states_current: "repo_reach d \<Longrightarrow> states_current d"
proof (induction rule: repo_reach.induct)
  case reach_empty
  then show ?case by (simp add: states_current_def empty_db_def)
qed (rule repo_step_states_current)

lemma apply_fills_states_current:
  "apply_fills (apply_signal_fill lc sig td stop target now oid status) fs p d = (r, d') \<Longrightarrow>
     states_current d \<Longrightarrow> states_current d'"
proof (induction fs arbitrary: p d)
  case (Cons f fs)
  obtain x d1 where a: "apply_signal_fill lc sig td stop target now oid status f d = (x, d1)" by fastforce
  have "states_current d1"
    using apply_fill_states_current [OF a [unfolded apply_signal_fill_def] Cons(3)] .
  then show ?case using Cons a by (cases x) auto
qed simp

lemma handle_signal_states_current:
  assumes "states_current d" "handle_signal submit_op lc book now sig td stop target (d, b) = (r, (d', b'))"
  shows "states_current d'"
proof -
  have rv: "db_states d2 = db_states d1" if "reserve_signal lc now sig td k d1 = (x, d2)" for x k d1 d2
    using that by (auto simp: reserve_signal_def Let_def dest: write_states split: sum.splits prod.splits)
  have rj: "db_states d2 = db_states d1" if "persist_rejection lc now iid cid e d1 = (x, d2)" for iid cid e x d1 d2
    using that by (auto simp: persist_rejection_def Let_def dest!: write_states(5)
        split: sum.splits prod.splits)
  have po: "states_current d2" if "persist_order lc now sig td stop target iid cid ord d1 = (x, d2)"
    and "states_current d1" for iid cid ord x d1 d2
    using that by (auto simp: persist_order_def states_current_def dest!: write_states(5)
        apply_fills_states_current [unfolded states_current_def] split: sum.splits prod.splits)
  show ?thesis using assms po [unfolded states_current_def]
    by (auto simp: handle_signal_def states_current_def dest!: write_states(3) rv rj
        split: option.splits sum.splits prod.splits if_splits)
qed

lemma leg_contract_record:
  assumes "db_inv d" "states_current d" "broker_inv b" "lg_has_repository g"
    and "execute (submit qb t) book now s c lots ref ts stop target (g, d, b) = (Inr f, (g', d', b'))"
  shows "\<exists>p kvs. read_position (lc_strategy_id (lg_lifecycle g)) (lc_execution_mode (lg_lifecycle g))
      (lg_trading_date g) (oc_security_id c) d' = Some p
    \<and> read_payload (lg_strategy_id g) (lg_mode g) (lg_trading_date g) d' = Inr kvs
    \<and> dict_get kvs open_position_key = (if position_is_open p then Some (contract_json c lots s) else None)"
  using assms(5)
proof (cases rule: execute_cases)
  case (2 a e g1 sig x d1)
  then obtain res where res: "x = Inr res" "require_a_fill res = Inr ()"
    "d' = record_contract g' c lots s res now d1" by auto
  have g': "lg_has_repository g'" "lg_strategy_id g' = lg_strategy_id g" "lg_mode g' = lg_mode g"
    "lg_trading_date g' = lg_trading_date g"
    using assms(4) by (subst 2(5), simp)+
  have sk: "xr_skipped_reason res = None" using res(2) by (simp add: require_a_fill_Inr)
  have sid: "sg_security_id sig = oc_security_id c" using 2(2) [unfolded leg_signal_Inr] by simp
  from handled_signal_spec [OF assms(1,3) 2(3) [unfolded res(1)] sk] obtain p where
    p: "xr_position res = Some p" "read_position (lc_strategy_id (lg_lifecycle g))
        (lc_execution_mode (lg_lifecycle g)) (lg_trading_date g) (oc_security_id c) d1 = Some p"
    unfolding sid by fastforce
  have "states_current d1" using handle_signal_states_current [OF assms(2) 2(3)] .
  then have "\<exists>stored. read_payload (lg_strategy_id g) (lg_mode g) (lg_trading_date g) d1 = Inr stored"
    by (auto simp: read_payload_def load_strategy_state_def states_current_def dest!: select_one_Some split: option.split)
  then obtain stored where
    st: "read_payload (lg_strategy_id g) (lg_mode g) (lg_trading_date g) d1 = Inr stored" ..
  let ?u = "[(open_position_key, if position_is_open p then Some (contract_json c lots s) else None)]"
  have d': "d' = save_strategy_state (lg_runtime_id g') (lg_strategy_id g) (lg_mode g) (lg_trading_date g) None
      None None (Some (JObj (merge_updates ?u stored))) False now d1"
    using res(3) p(1) st by (simp add: record_contract_def g' merge_payload_def Let_def)
  have "read_payload (lg_strategy_id g) (lg_mode g) (lg_trading_date g) d' = Inr (merge_updates ?u stored)"
    unfolding d' by (rule read_saved)
  moreover have "read_position (lc_strategy_id (lg_lifecycle g)) (lc_execution_mode (lg_lifecycle g))
      (lg_trading_date g) (oc_security_id c) d' = Some p"
    using p(2) by (simp add: d' read_position_def)
  moreover have "dict_get (merge_updates ?u stored) open_position_key
      = (if position_is_open p then Some (contract_json c lots s) else None)"
    by (subst merge_updates_get) auto
  ultimately show ?thesis by blast
qed simp

section \<open>A worked leg\<close>

definition leg_gateway :: lifecycle_gateway where
  "leg_gateway = new_lifecycle_gateway life_config ''ema_cross'' PAPER ''2026-08-03'' True ''intraday_options''"

definition leg_bought :: "fill_outcome result \<times> paper_broker leg_state" where
  "leg_bought = execute (submit None (day_time 301)) None (day_time 301) BUY pm_contract 1 100 (day_time 301)
     None None (leg_gateway, day_start, ex_broker)"

lemma leg_bought_ok: "\<not> isl (fst leg_bought)"
  by code_simp

lemma inr_quad: "\<not> isl (fst p) \<Longrightarrow> p = (Inr (projr (fst p)), (fst (snd p), fst (snd (snd p)), snd (snd (snd p))))"
  by (cases p; cases "fst p") auto

lemma leg_bought_run:
  "execute (submit None (day_time 301)) None (day_time 301) BUY pm_contract 1 100 (day_time 301)
     None None (leg_gateway, day_start, ex_broker)
   = (Inr (projr (fst leg_bought)), (fst (snd leg_bought), fst (snd (snd leg_bought)), snd (snd (snd leg_bought))))"
  unfolding leg_bought_def [symmetric] by (rule inr_quad [OF leg_bought_ok])

lemma aware_day_time [simp]: "aware (day_time k)"
  by (simp add: day_time_def aware_def)

text \<open>
  The same process restarted with the position open: a new gateway over the
  database the first one left, with the signal of its leg in it.
\<close>

definition leg_resumed :: "fill_outcome result \<times> paper_broker leg_state" where
  "leg_resumed = execute (submit None (day_time 400)) None (day_time 400) SELL pm_contract 1 110 (day_time 400)
     None None (leg_gateway, snd (snd leg_bought))"

lemma leg_resumed_run:
  "execute (submit None (day_time 400)) None (day_time 400) SELL pm_contract 1 110 (day_time 400)
     None None (leg_gateway, fst (snd (snd leg_bought)), snd (snd (snd leg_bought)))
   = (fst leg_resumed, (fst (snd leg_resumed), fst (snd (snd leg_resumed)), snd (snd (snd leg_resumed))))"
  by (simp add: leg_resumed_def)

lemma leg_resumed_start:
  "leg_run (row_list (db_signals (fst (snd (snd leg_bought)))))
     (leg_gateway, fst (snd (snd leg_bought)), snd (snd (snd leg_bought)))"
  unfolding leg_gateway_def by (rule lr_new) code_simp

lemma leg_resumed_later:
  "\<not> earlier_signal (row_list (db_signals (fst (snd (snd leg_bought))))) leg_gateway (oc_symbol pm_contract) (day_time 400)"
  by code_simp

definition live_opened :: "open_position result \<times> (position_manager \<times> paper_broker leg_state)" where
  "live_opened = open_leg (live_gateway None (day_time 301) None (day_time 301)) pm_contract BUY 100
     (day_time 301) None ''{}'' None None (new_position_manager 1, (leg_gateway, day_start, ex_broker))"

definition live_closed :: "trade result \<times> (position_manager \<times> paper_broker leg_state)" where
  "live_closed = close_leg (live_gateway None (day_time 400) None (day_time 400)) ''42'' 110
     (day_time 400) TARGET_PROFIT None [] (snd live_opened)"

lemma live_closed_facts: "(\<lambda>(r, (pm, _)). \<not> isl r \<and> length (pm_trades pm) = 1) live_closed"
  by code_simp

lemma live_closed_trades: "\<not> isl (fst live_closed)" "length (pm_trades (fst (snd live_closed))) = 1"
  using live_closed_facts by (simp_all add: split_beta)

lemma live_closed_reach: "live_reach (fst (snd live_closed), snd (snd live_closed))"
proof -
  have "rates_ok (pb_charges ex_broker)" by (simp add: ex_broker_def new_paper_broker_def)
  note n = live_new [OF day_start_reach ex_broker_reach this]
  have "live_reach (snd live_opened)"
    by (rule live_open [OF n, of _ _ _ _ _ _ _ _ _ _ _ _ _ _ "fst live_opened"])
      (unfold live_opened_def, rule surjective_pairing)
  then have "live_reach (snd live_closed)"
    by (rule live_close [where r' = "fst live_closed"]) (unfold live_closed_def, rule surjective_pairing)
  then show ?thesis by simp
qed

section \<open>Properties\<close>

text \<open>C8: a process never suppresses a leg against one of its own.  Whatever the
  database held when the process started, and whatever quotes, clocks, timestamps
  and broker answers its legs met since, the next leg of a positive quantity adds
  exactly one signal row, for that contract, side and quantity, whose window does
  not end before the tick; the only other outcome is that no row is added, and
  then the database already held, when the process started, a signal of the
  strategy and mode for that contract whose window ends at or after the tick.
\<close>

theorem legs_never_suppressed:
  assumes "leg_run old (g, d, b)" "aware ts" "0 < lots * oc_lot_size c"
    and "execute submit_op book now s c lots ref ts stop target (g, d, b) = (r, (g', d', b'))"
  shows "(\<exists>row. row_list (db_signals d') = row_list (db_signals d) @ [row]
      \<and> sg_instrument (si_signal row) = oc_symbol c \<and> sg_side (si_signal row) = s
      \<and> sg_quantity (si_signal row) = lots * oc_lot_size c
      \<and> instant ts \<le> instant (cd_end_at (sg_candle (si_signal row))))
    \<or> (row_list (db_signals d') = row_list (db_signals d) \<and> earlier_signal old g (oc_symbol c) ts)"
  using leg_windows [OF _ assms(2,4)] leg_run_cover [OF assms(1)] assms(3) by simp

theorem legs_never_suppressed_witness:
  "\<exists>row. row_list (db_signals (fst (snd (snd leg_resumed))))
     = row_list (db_signals (fst (snd (snd leg_bought)))) @ [row] \<and> sg_side (si_signal row) = SELL"
proof -
  have "0 < 1 * oc_lot_size pm_contract" by (simp add: pm_contract_def)
  from legs_never_suppressed [OF leg_resumed_start aware_day_time this leg_resumed_run] leg_resumed_later
  show ?thesis by blast
qed

text \<open>C9: a leg that reports an outcome really traded: the broker holds a FILLED order of the
  whole quantity, every fill of it is recorded against one order row, and the
  price and charges reported are the order's average and the sum of its fills'
  charges.  A partial fill, a rejection or a suppressed signal is never
  reported as a fill.\<close>

theorem leg_outcome_is_recorded_order:
  assumes "repo_reach d" "broker_reach b"
    and "execute (submit qb t) book now s c lots ref ts stop target (g, d, b) = (Inr f, (g', d', b'))"
  shows "\<exists>ord cid oid. order_by_correlation_id b' cid = Some ord \<and> od_status ord = FILLED
    \<and> od_filled_quantity ord = lots * oc_lot_size c
    \<and> od_average_fill_price ord = Some (fo_fill_price f)
    \<and> fo_charges f = (\<Sum>x\<leftarrow>od_fills ord. fl_charges x)
    \<and> (\<Sum>x\<leftarrow>od_fills ord. fl_quantity x) = lots * oc_lot_size c
    \<and> (\<forall>x \<in> set (od_fills ord). row_exists (\<lambda>r. fill_key r = (oid, fl_broker_fill_id x)) (db_fills d'))
    \<and> lg_executions g' = lg_executions g + 1"
proof -
  from leg_outcome [OF repo_reach_inv [OF assms(1)] reach_inv [OF assms(2)] assms(3)]
  obtain ord cid oid sig where o: "order_by_correlation_id b' cid = Some ord" "od_status ord = FILLED"
    "order_of_signal b sig ord" "sg_quantity sig = lots * oc_lot_size c"
    "od_average_fill_price ord = Some (fo_fill_price f)" "fo_charges f = (\<Sum>x\<leftarrow>od_fills ord. fl_charges x)"
    "\<forall>x \<in> set (od_fills ord). row_exists (\<lambda>r. fill_key r = (oid, fl_broker_fill_id x)) (db_fills d')"
    "lg_executions g' = lg_executions g + 1" by blast
  then have "od_filled_quantity ord = lots * oc_lot_size c"
    "(\<Sum>x\<leftarrow>od_fills ord. fl_quantity x) = lots * oc_lot_size c" by (auto simp: order_of_signal_def)
  with o show ?thesis by blast
qed

theorem leg_outcome_is_recorded_order_witness:
  "\<exists>ord cid. order_by_correlation_id (snd (snd (snd leg_bought))) cid = Some ord \<and> od_status ord = FILLED
     \<and> od_filled_quantity ord = 75 \<and> od_average_fill_price ord = Some (fo_fill_price (projr (fst leg_bought)))"
  using leg_outcome_is_recorded_order [OF day_start_reach ex_broker_reach leg_bought_run]
  by (auto simp: pm_contract_def)

text \<open>After a traded leg of a gateway with a repository, the strategy-day's payload holds
  the contract record of that leg exactly when the net position in the database
  is open, and no contract record when the leg closed it.\<close>

theorem contract_record_matches_position:
  assumes "repo_reach d" "broker_reach b" "lg_has_repository g"
    and "execute (submit qb t) book now s c lots ref ts stop target (g, d, b) = (Inr f, (g', d', b'))"
  shows "\<exists>p kvs. read_position (lc_strategy_id (lg_lifecycle g)) (lc_execution_mode (lg_lifecycle g))
      (lg_trading_date g) (oc_security_id c) d' = Some p
    \<and> read_payload (lg_strategy_id g) (lg_mode g) (lg_trading_date g) d' = Inr kvs
    \<and> dict_get kvs open_position_key = (if position_is_open p then Some (contract_json c lots s) else None)"
  by (rule leg_contract_record [OF repo_reach_inv [OF assms(1)] repo_reach_states_current [OF assms(1)]
        reach_inv [OF assms(2)] assms(3,4)])

theorem contract_record_matches_position_witness:
  "\<exists>p kvs. read_payload ''ema_cross'' PAPER ''2026-08-03'' (fst (snd (snd leg_bought))) = Inr kvs
     \<and> dict_get kvs open_position_key = (if position_is_open p then Some (contract_json pm_contract 1 BUY) else None)"
proof -
  have g: "lg_has_repository leg_gateway" "lg_strategy_id leg_gateway = ''ema_cross''"
    "lg_mode leg_gateway = PAPER" "lg_trading_date leg_gateway = ''2026-08-03''"
    by (simp_all add: leg_gateway_def new_lifecycle_gateway_def)
  show ?thesis
    using contract_record_matches_position [OF day_start_reach ex_broker_reach g(1) leg_bought_run] unfolding g by blast
qed

text \<open>Over the persisting gateway and the paper broker, with rates that are not negative,
  every trade of the manager has charges and an exit price that are not
  negative and never nets more than its gross.\<close>

theorem persisted_trades_charged:
  assumes "live_reach (pm, st)" "t \<in> set (pm_trades pm)"
  shows "0 \<le> tr_charges t \<and> net_pnl t \<le> tr_gross_pnl t \<and> 0 \<le> tr_exit_price t"
  using live_reach_charged [OF assms(1)] assms(2) by (simp add: live.charged_def)

theorem persisted_trades_charged_witness:
  "list_all (\<lambda>t. 0 \<le> tr_charges t \<and> net_pnl t \<le> tr_gross_pnl t) (pm_trades (fst (snd live_closed)))"
  unfolding list_all_iff using persisted_trades_charged [OF live_closed_reach] by blast

end
