(* ===== verification/Daily_Guard.thy ===== *)
theory Daily_Guard
  imports Models
begin

text \<open>
  common/engine/daily_guard.py: the day-level circuit breaker.  It books net
  profits, latches a halt at the first limit crossed and can be seeded with
  what an earlier process of the day had booked.  The formatted halt message is
  abstracted to the limit it names.
\<close>

datatype halt_reason = Kill_Switch | Max_Loss | Max_Loss_Open | Profit_Target | Trade_Limit

record daily_risk_config =
  dc_daily_max_loss :: money
  dc_daily_profit_target :: "money option"
  dc_max_trades :: int
  dc_kill_switch :: bool

record daily_risk_recovery =
  rr_realised_pnl :: money
  rr_trade_count :: int

record daily_guard =
  dg_cfg :: daily_risk_config
  dg_realised :: money
  dg_count :: int
  dg_halt_reason :: "halt_reason option"
  dg_square_off_reason :: exit_reason

definition reset_guard :: "daily_guard \<Rightarrow> daily_guard" where
  "reset_guard g =
     g\<lparr>dg_realised := 0, dg_count := 0,
       dg_halt_reason := (if dc_kill_switch (dg_cfg g) then Some Kill_Switch else None),
       dg_square_off_reason := (if dc_kill_switch (dg_cfg g) then MANUAL else STRATEGY_EXIT)\<rparr>"

definition new_daily_guard :: "daily_risk_config \<Rightarrow> daily_guard" where
  "new_daily_guard cfg =
     reset_guard \<lparr>dg_cfg = cfg, dg_realised = 0, dg_count = 0, dg_halt_reason = None,
       dg_square_off_reason = STRATEGY_EXIT\<rparr>"

definition halted :: "daily_guard \<Rightarrow> bool" where
  "halted g = (dg_halt_reason g \<noteq> None)"

definition halt :: "halt_reason \<Rightarrow> exit_reason \<Rightarrow> daily_guard \<Rightarrow> daily_guard" where
  "halt reason square_off_reason g =
     g\<lparr>dg_halt_reason := Some reason, dg_square_off_reason := square_off_reason\<rparr>"

definition evaluate :: "daily_guard \<Rightarrow> daily_guard" where
  "evaluate g =
     (let cfg = dg_cfg g in
      if 0 < dc_daily_max_loss cfg \<and> dg_realised g \<le> - dc_daily_max_loss cfg
      then halt Max_Loss DAILY_LOSS_LIMIT g
      else if (case dc_daily_profit_target cfg of None \<Rightarrow> False | Some t \<Rightarrow> t \<le> dg_realised g)
      then halt Profit_Target TARGET_PROFIT g
      else if 0 < dc_max_trades cfg \<and> dc_max_trades cfg \<le> dg_count g
      then halt Trade_Limit STRATEGY_EXIT g
      else g)"

definition restore_guard :: "daily_risk_recovery \<Rightarrow> daily_guard \<Rightarrow> halt_reason option \<times> daily_guard" where
  "restore_guard recovered g =
     (if halted g then (None, g)
      else let g1 = evaluate (g\<lparr>dg_realised := rr_realised_pnl recovered, dg_count := rr_trade_count recovered\<rparr>)
           in (dg_halt_reason g1, g1))"

definition register_trade :: "money \<Rightarrow> daily_guard \<Rightarrow> halt_reason option \<times> daily_guard" where
  "register_trade net g =
     (if halted g then (None, g)
      else let g1 = evaluate (g\<lparr>dg_realised := dg_realised g + net, dg_count := dg_count g + 1\<rparr>)
           in (dg_halt_reason g1, g1))"

definition check_open_mtm :: "money \<Rightarrow> daily_guard \<Rightarrow> halt_reason option \<times> daily_guard" where
  "check_open_mtm open_pnl g =
     (if halted g \<or> dc_daily_max_loss (dg_cfg g) \<le> 0 then (None, g)
      else let g1 = (if dg_realised g + open_pnl \<le> - dc_daily_max_loss (dg_cfg g)
                     then halt Max_Loss_Open DAILY_LOSS_LIMIT g else g)
           in (dg_halt_reason g1, g1))"

section \<open>Limits\<close>

text \<open>The limit booked totals cross, in the order the guard looks at them.\<close>

definition crossed :: "daily_risk_config \<Rightarrow> money \<Rightarrow> int \<Rightarrow> halt_reason option" where
  "crossed cfg realised count =
     (if 0 < dc_daily_max_loss cfg \<and> realised \<le> - dc_daily_max_loss cfg then Some Max_Loss
      else case dc_daily_profit_target cfg of
        Some t \<Rightarrow> if t \<le> realised then Some Profit_Target
                  else if 0 < dc_max_trades cfg \<and> dc_max_trades cfg \<le> count then Some Trade_Limit else None
      | None \<Rightarrow> if 0 < dc_max_trades cfg \<and> dc_max_trades cfg \<le> count then Some Trade_Limit else None)"

lemma evaluate_spec:
  "dg_halt_reason (evaluate g)
     = (case crossed (dg_cfg g) (dg_realised g) (dg_count g) of None \<Rightarrow> dg_halt_reason g | Some r \<Rightarrow> Some r)"
  "dg_cfg (evaluate g) = dg_cfg g" "dg_realised (evaluate g) = dg_realised g" "dg_count (evaluate g) = dg_count g"
  by (auto simp: evaluate_def crossed_def halt_def Let_def split: option.split)

lemma evaluate_cong:
  "dg_cfg g = dg_cfg h \<Longrightarrow> dg_realised g = dg_realised h \<Longrightarrow> dg_count g = dg_count h
     \<Longrightarrow> dg_halt_reason g = dg_halt_reason h \<Longrightarrow> dg_square_off_reason g = dg_square_off_reason h
     \<Longrightarrow> evaluate g = evaluate h"
  by (metis daily_guard.equality old.unit.exhaust)

text \<open>What a day's calls after the reset are.\<close>

datatype day_call = Booked money | Marked money

fun guard_call :: "day_call \<Rightarrow> daily_guard \<Rightarrow> daily_guard" where
  "guard_call (Booked net) g = snd (register_trade net g)"
| "guard_call (Marked open_pnl) g = snd (check_open_mtm open_pnl g)"

definition guard_calls :: "day_call list \<Rightarrow> daily_guard \<Rightarrow> daily_guard" where
  "guard_calls cs g = fold guard_call cs g"

fun booked :: "day_call list \<Rightarrow> money list" where
  "booked [] = []"
| "booked (Booked x # cs) = x # booked cs"
| "booked (Marked _ # cs) = booked cs"

lemma guard_calls_simps [simp]:
  "guard_calls [] g = g"
  "guard_calls (c # cs) g = guard_calls cs (guard_call c g)"
  "guard_calls (cs @ ds) g = guard_calls ds (guard_calls cs g)"
  by (simp_all add: guard_calls_def)

lemma guard_call_halted: "halted g \<Longrightarrow> guard_call c g = g"
  by (cases c) (simp_all add: register_trade_def check_open_mtm_def)

lemma guard_calls_halted: "halted g \<Longrightarrow> guard_calls cs g = g"
  by (induction cs) (simp_all add: guard_call_halted)

lemma guard_call_cfg [simp]: "dg_cfg (guard_call c g) = dg_cfg g"
  by (cases c) (auto simp: register_trade_def check_open_mtm_def evaluate_spec halt_def Let_def)

lemma booked_append [simp]: "booked (cs @ ds) = booked cs @ booked ds"
  by (induction cs rule: booked.induct) auto

text \<open>While the guard runs its totals are what was booked.\<close>

lemma guard_call_running:
  assumes "\<not> halted (guard_call c g)"
  shows "\<not> halted g \<and> dg_realised (guard_call c g) = dg_realised g + sum_list (booked [c])
    \<and> dg_count (guard_call c g) = dg_count g + int (length (booked [c]))
    \<and> dg_square_off_reason (guard_call c g) = dg_square_off_reason g"
proof (cases "halted g")
  case True
  with assms show ?thesis by (simp add: guard_call_halted)
next
  case False
  with assms show ?thesis
    by (cases c) (auto simp: register_trade_def check_open_mtm_def evaluate_def halt_def halted_def Let_def
        split: if_splits)
qed

lemma guard_calls_running:
  "\<not> halted (guard_calls cs g) \<Longrightarrow>
     \<not> halted g \<and> dg_realised (guard_calls cs g) = dg_realised g + sum_list (booked cs)
     \<and> dg_count (guard_calls cs g) = dg_count g + int (length (booked cs))
     \<and> dg_square_off_reason (guard_calls cs g) = dg_square_off_reason g
     \<and> dg_cfg (guard_calls cs g) = dg_cfg g"
proof (induction cs arbitrary: g)
  case (Cons c cs)
  then have ih: "\<not> halted (guard_call c g)" "dg_realised (guard_calls cs (guard_call c g))
      = dg_realised (guard_call c g) + sum_list (booked cs)"
    "dg_count (guard_calls cs (guard_call c g)) = dg_count (guard_call c g) + int (length (booked cs))"
    "dg_square_off_reason (guard_calls cs (guard_call c g)) = dg_square_off_reason (guard_call c g)"
    "dg_cfg (guard_calls cs (guard_call c g)) = dg_cfg g"
    by auto
  then show ?case using guard_call_running [OF ih(1)] by (cases c) auto
qed simp

section \<open>Seeding a guard\<close>

text \<open>The limit crossed k trades after a guard was seeded with a profit and a count.\<close>

definition crossed_after :: "daily_risk_config \<Rightarrow> money \<Rightarrow> int \<Rightarrow> money list \<Rightarrow> nat \<Rightarrow> halt_reason option" where
  "crossed_after cfg p n xs k = crossed cfg (p + sum_list (take k xs)) (n + int k)"

definition first_crossing :: "daily_risk_config \<Rightarrow> money \<Rightarrow> int \<Rightarrow> money list \<Rightarrow> nat \<Rightarrow> bool" where
  "first_crossing cfg p n xs k =
     (k \<le> length xs \<and> crossed_after cfg p n xs k \<noteq> None \<and> (\<forall>j < k. crossed_after cfg p n xs j = None))"

lemma crossed_after_simps [simp]:
  "crossed_after cfg p n xs 0 = crossed cfg p n"
  "crossed_after cfg p n (x # xs) (Suc k) = crossed_after cfg (p + x) (n + 1) xs k"
  by (simp_all add: crossed_after_def add.assoc)

lemma first_crossing_Cons:
  "crossed cfg p n = None \<Longrightarrow>
     first_crossing cfg p n (x # xs) (Suc k) = first_crossing cfg (p + x) (n + 1) xs k"
  by (auto simp: first_crossing_def less_Suc_eq_0_disj)

lemma booked_from:
  assumes "\<not> halted g" "crossed (dg_cfg g) (dg_realised g) (dg_count g) = None"
  shows "(\<forall>k. first_crossing (dg_cfg g) (dg_realised g) (dg_count g) xs k \<longrightarrow>
            dg_halt_reason (guard_calls (map Booked xs) g) = crossed_after (dg_cfg g) (dg_realised g) (dg_count g) xs k)
    \<and> ((\<forall>k \<le> length xs. crossed_after (dg_cfg g) (dg_realised g) (dg_count g) xs k = None) \<longrightarrow>
            \<not> halted (guard_calls (map Booked xs) g))"
  using assms
proof (induction xs arbitrary: g)
  case Nil
  then show ?case by (simp add: first_crossing_def)
next
  case (Cons x xs)
  let ?h = "snd (register_trade x g)"
  have h: "dg_halt_reason ?h = crossed (dg_cfg g) (dg_realised g + x) (dg_count g + 1)"
    "dg_cfg ?h = dg_cfg g" "dg_realised ?h = dg_realised g + x" "dg_count ?h = dg_count g + 1"
    using Cons(2) by (auto simp: register_trade_def evaluate_spec halted_def Let_def split: option.split)
  have calls: "guard_calls (map Booked (x # xs)) g = guard_calls (map Booked xs) ?h" by simp
  have first: "first_crossing (dg_cfg g) (dg_realised g) (dg_count g) (x # xs) k \<longleftrightarrow>
      (\<exists>j. k = Suc j \<and> first_crossing (dg_cfg g) (dg_realised g + x) (dg_count g + 1) xs j)" for k
    using first_crossing_Cons [OF Cons(3)] Cons(3) by (cases k) (simp_all add: first_crossing_def)
  show ?case
  proof (cases "crossed (dg_cfg g) (dg_realised g + x) (dg_count g + 1)")
    case None
    with h have "\<not> halted ?h" "crossed (dg_cfg ?h) (dg_realised ?h) (dg_count ?h) = None" by (simp_all add: halted_def)
    note ih = Cons(1) [OF this, unfolded h]
    have "crossed_after (dg_cfg g) (dg_realised g + x) (dg_count g + 1) xs k = None"
      if "\<forall>k \<le> length (x # xs). crossed_after (dg_cfg g) (dg_realised g) (dg_count g) (x # xs) k = None" "k \<le> length xs" for k
      using that(1) [rule_format, of "Suc k"] that(2) by simp
    then show ?thesis using ih unfolding calls first by auto
  next
    case (Some r)
    then have hl: "halted ?h" using h by (simp add: halted_def)
    have "guard_calls (map Booked xs) ?h = ?h" by (rule guard_calls_halted [OF hl])
    moreover have "crossed_after (dg_cfg g) (dg_realised g + x) (dg_count g + 1) xs j
        = crossed (dg_cfg g) (dg_realised g + x) (dg_count g + 1)"
      if "first_crossing (dg_cfg g) (dg_realised g + x) (dg_count g + 1) xs j" for j
      using that Some by (cases j) (auto simp: first_crossing_def)
    moreover have "\<not> (\<forall>k \<le> length (x # xs). crossed_after (dg_cfg g) (dg_realised g) (dg_count g) (x # xs) k = None)"
      using Some by (auto intro!: exI [of _ "Suc 0"])
    ultimately show ?thesis using h(1) unfolding calls first by auto
  qed
qed

text \<open>A guard reset and seeded with whatever was recovered, and the trades booked after it.\<close>

lemma seeded_guard:
  assumes "g = snd (restore_guard r (new_daily_guard cfg))"
    and "p = rr_realised_pnl r" "n = rr_trade_count r"
  shows "(dc_kill_switch cfg \<longrightarrow> dg_halt_reason (guard_calls (map Booked xs) g) = Some Kill_Switch)
    \<and> (\<not> dc_kill_switch cfg \<longrightarrow>
        (\<forall>k. first_crossing cfg p n xs k \<longrightarrow>
           dg_halt_reason (guard_calls (map Booked xs) g) = crossed_after cfg p n xs k)
        \<and> ((\<forall>k \<le> length xs. crossed_after cfg p n xs k = None) \<longrightarrow>
             dg_halt_reason (guard_calls (map Booked xs) g) = None))"
proof (cases "dc_kill_switch cfg")
  case True
  then have "g = new_daily_guard cfg" "halted (new_daily_guard cfg)"
    "dg_halt_reason (new_daily_guard cfg) = Some Kill_Switch"
    by (simp_all add: assms(1) restore_guard_def new_daily_guard_def reset_guard_def halted_def)
  with True show ?thesis by (simp add: guard_calls_halted)
next
  case False
  have g: "dg_halt_reason g = crossed cfg p n" "dg_cfg g = cfg" "dg_realised g = p" "dg_count g = n"
    using False assms(2,3)
    by (auto simp: assms(1) restore_guard_def new_daily_guard_def reset_guard_def halted_def evaluate_spec Let_def
        split: option.split)
  show ?thesis
  proof (cases "crossed cfg p n")
    case None
    with g have "\<not> halted g" "crossed (dg_cfg g) (dg_realised g) (dg_count g) = None" by (simp_all add: halted_def)
    from booked_from [OF this, of xs] False show ?thesis unfolding g by (simp add: halted_def)
  next
    case (Some x)
    then have "guard_calls (map Booked xs) g = g" using g by (intro guard_calls_halted) (simp add: halted_def)
    moreover have "crossed_after cfg p n xs k = Some x" if "first_crossing cfg p n xs k" for k
      using that Some by (cases k) (auto simp: first_crossing_def)
    moreover have "\<not> (\<forall>k \<le> length xs. crossed_after cfg p n xs k = None)"
      using Some by (auto intro!: exI [of _ 0])
    ultimately show ?thesis using g Some False by auto
  qed
qed

section \<open>Properties\<close>

definition loss_cap :: daily_risk_config where
  "loss_cap = \<lparr>dc_daily_max_loss = 1000, dc_daily_profit_target = Some 5000, dc_max_trades = 0,
     dc_kill_switch = False\<rparr>"

text \<open>Once halted, by whatever limit, the guard is not changed by any further trade, mark or
  restore of the day: the halt and its square-off reason are those of the first
  limit crossed.\<close>

theorem guard_halt_latches:
  assumes "halted (guard_calls cs (new_daily_guard cfg))"
  shows "guard_calls (cs @ ds) (new_daily_guard cfg) = guard_calls cs (new_daily_guard cfg)
    \<and> snd (restore_guard r (guard_calls cs (new_daily_guard cfg))) = guard_calls cs (new_daily_guard cfg)"
  using assms by (simp add: guard_calls_halted restore_guard_def)

theorem guard_halt_latches_witness:
  "guard_calls ([Booked (-400), Marked (-600)] @ [Booked 9000]) (new_daily_guard loss_cap)
     = guard_calls [Booked (-400), Marked (-600)] (new_daily_guard loss_cap)"
proof -
  have "halted (guard_calls [Booked (-400), Marked (-600)] (new_daily_guard loss_cap))" by code_simp
  from guard_halt_latches [OF this] show ?thesis by blast
qed

text \<open>C10: without marks, the guard is halted after a sequence of trades exactly when the kill
  switch is set or some non-empty prefix of them crosses the loss cap, the
  profit target or the trade limit.\<close>

theorem guard_halts_exactly_at_limits:
  "halted (guard_calls (map Booked xs) (new_daily_guard cfg)) \<longleftrightarrow>
     dc_kill_switch cfg \<or> (\<exists>n. 0 < n \<and> n \<le> length xs \<and> crossed cfg (sum_list (take n xs)) (int n) \<noteq> None)"
proof (induction xs rule: rev_induct)
  case Nil
  then show ?case by (auto simp: new_daily_guard_def reset_guard_def halted_def)
next
  case (snoc x xs)
  let ?g = "guard_calls (map Booked xs) (new_daily_guard cfg)"
  have b: "booked (map Booked xs) = xs" for xs by (induction xs) auto
  have last_n: "(\<exists>n. 0 < n \<and> n \<le> Suc (length xs) \<and> crossed cfg (sum_list (take n (xs @ [x]))) (int n) \<noteq> None)
      \<longleftrightarrow> (\<exists>n. 0 < n \<and> n \<le> length xs \<and> crossed cfg (sum_list (take n xs)) (int n) \<noteq> None)
        \<or> crossed cfg (sum_list xs + x) (int (length xs) + 1) \<noteq> None"
    by (auto simp: le_Suc_eq add.commute intro: exI [of _ "Suc (length xs)"])
  show ?case
  proof (cases "halted ?g")
    case True
    then have "halted (guard_calls (map Booked (xs @ [x])) (new_daily_guard cfg))"
      by (simp add: guard_call_halted del: guard_call.simps)
    moreover have "dc_kill_switch cfg
        \<or> (\<exists>n. 0 < n \<and> n \<le> length xs \<and> crossed cfg (sum_list (take n xs)) (int n) \<noteq> None)"
      using True snoc by (simp only:)
    ultimately show ?thesis unfolding length_append_singleton last_n by blast
  next
    case False
    note run = guard_calls_running [OF False]
    have g0: "dg_realised (new_daily_guard cfg) = 0" "dg_count (new_daily_guard cfg) = 0"
      "dg_cfg (new_daily_guard cfg) = cfg"
      by (simp_all add: new_daily_guard_def reset_guard_def)
    have "halted (snd (register_trade x ?g)) \<longleftrightarrow> crossed cfg (sum_list xs + x) (int (length xs) + 1) \<noteq> None"
      using False run g0 by (auto simp: register_trade_def halted_def evaluate_spec b Let_def split: option.split)
    moreover have "halted (guard_calls (map Booked (xs @ [x])) (new_daily_guard cfg))
        = halted (snd (register_trade x ?g))" by simp
    moreover have "\<not> (dc_kill_switch cfg
        \<or> (\<exists>n. 0 < n \<and> n \<le> length xs \<and> crossed cfg (sum_list (take n xs)) (int n) \<noteq> None))"
      using False snoc by (simp only: simp_thms)
    ultimately show ?thesis unfolding length_append_singleton last_n by blast
  qed
qed

end
