(* ===== verification/Session.thy ===== *)
theory Session
  imports Models
begin

text \<open>
  The clock side of a trading day: common/risk/squareoff.py (SquareOffPolicy),
  common/engine/session.py (MarketSession) and the derivation of the session's
  times from the policy in common/engine/config.py, with the parsing of times
  and dates they rest on.  A time zone is its offset.  The shapes of
  date.fromisoformat are the ones its documentation lists; the limits of
  datetime.date are not modelled.
\<close>

section \<open>Texts of dates and times\<close>

fun split_on :: "char \<Rightarrow> string \<Rightarrow> string list" where
  "split_on c [] = [[]]"
| "split_on c (x # xs) =
     (if x = c then [] # split_on c xs
      else case split_on c xs of [] \<Rightarrow> [[x]] | w # ws \<Rightarrow> (x # w) # ws)"

definition is_space :: "char \<Rightarrow> bool" where
  "is_space c = (c = CHR '' '' \<or> (of_char c :: nat) \<in> {9..13} \<or> (of_char c :: nat) \<in> {28..31})"

definition strip :: "string \<Rightarrow> string" where
  "strip s = rev (dropWhile is_space (rev (dropWhile is_space s)))"

text \<open>A numeric field of strptime: one or two digits below a bound.\<close>

definition field :: "nat \<Rightarrow> string \<Rightarrow> int option" where
  "field bound s =
     (if s \<noteq> [] \<and> length s \<le> 2 \<and> list_all is_digit s \<and> parse_nat s < bound then Some (int (parse_nat s)) else None)"

definition time_of :: "int \<Rightarrow> int \<Rightarrow> int \<Rightarrow> tod" where
  "time_of h m s = h * hour + m * minute + s * second"

definition parse_hhmm :: "string \<Rightarrow> tod result" where
  "parse_hhmm value =
     (case split_on CHR '':'' (strip value) of
        [h, m, s] \<Rightarrow>
          (case (field 24 h, field 60 m, field 60 s) of
             (Some h', Some m', Some s') \<Rightarrow> Inr (time_of h' m' s') | _ \<Rightarrow> Inl ValueError)
      | [h, m] \<Rightarrow>
          (case (field 24 h, field 60 m) of
             (Some h', Some m') \<Rightarrow> Inr (time_of h' m' 0) | _ \<Rightarrow> Inl ValueError)
      | _ \<Rightarrow> Inl ValueError)"

definition hhmm_text :: "tod \<Rightarrow> string" where
  "hhmm_text t = pad_nat 2 (nat (t div hour)) @ '':'' @ pad_nat 2 (nat (t mod hour div minute))"

definition digits_only :: "string \<Rightarrow> bool" where
  "digits_only s = (s \<noteq> [] \<and> list_all is_digit s)"

definition civil_day :: "int \<Rightarrow> int \<Rightarrow> int \<Rightarrow> day option" where
  "civil_day y m d = (if valid_civil y m d then Some (day_of_civil y m d) else None)"

text \<open>The Monday of ISO week 1, and the day of an ISO week date.\<close>

definition iso_week1_monday :: "int \<Rightarrow> day" where
  "iso_week1_monday y =
     (let first = day_of_civil y 1 1; wd = weekday first
      in if 3 < wd then first - wd + 7 else first - wd)"

definition iso_week_day :: "int \<Rightarrow> int \<Rightarrow> int \<Rightarrow> day option" where
  "iso_week_day y w d =
     (let m1 = iso_week1_monday y; weeks = (iso_week1_monday (y + 1) - m1) div 7
      in if 1 \<le> y \<and> 1 \<le> w \<and> w \<le> weeks \<and> 1 \<le> d \<and> d \<le> 7 then Some (m1 + (w - 1) * 7 + (d - 1)) else None)"

definition num :: "string \<Rightarrow> int option" where
  "num s = (if digits_only s then Some (int (parse_nat s)) else None)"

definition opt3 :: "(int \<Rightarrow> int \<Rightarrow> int \<Rightarrow> day option) \<Rightarrow> int option \<Rightarrow> int option \<Rightarrow> int option \<Rightarrow> day option" where
  "opt3 f a b c = (case (a, b, c) of (Some x, Some y, Some z) \<Rightarrow> f x y z | _ \<Rightarrow> None)"

text \<open>date.fromisoformat: YYYY-MM-DD, YYYYMMDD, YYYY-Www-D, YYYYWwwD, YYYY-Www and YYYYWww.\<close>

definition date_fromisoformat :: "string \<Rightarrow> day result" where
  "date_fromisoformat s =
     (let y = num (take 4 s); n = length s;
          r = (if n = 10 \<and> s ! 4 = CHR ''-'' \<and> s ! 5 = CHR ''W'' \<and> s ! 8 = CHR ''-''
               then opt3 iso_week_day y (num (take 2 (drop 6 s))) (num (drop 9 s))
               else if n = 10 \<and> s ! 4 = CHR ''-'' \<and> s ! 7 = CHR ''-''
               then opt3 civil_day y (num (take 2 (drop 5 s))) (num (drop 8 s))
               else if n = 8 \<and> s ! 4 = CHR ''W''
               then opt3 iso_week_day y (num (take 2 (drop 5 s))) (num (drop 7 s))
               else if n = 8 \<and> s ! 4 = CHR ''-'' \<and> s ! 5 = CHR ''W''
               then opt3 iso_week_day y (num (drop 6 s)) (Some 1)
               else if n = 8 then opt3 civil_day y (num (take 2 (drop 4 s))) (num (drop 6 s))
               else if n = 7 \<and> s ! 4 = CHR ''W'' then opt3 iso_week_day y (num (drop 5 s)) (Some 1)
               else None)
      in case r of None \<Rightarrow> Inl ValueError | Some d \<Rightarrow> Inr d)"

text \<open>date.isoformat() of a day number, by CPython's ord2ymd.\<close>

definition ord2ymd :: "day \<Rightarrow> int \<times> int \<times> int" where
  "ord2ymd day =
     (let n0 = day + 719162;
          n400 = n0 div 146097; r400 = n0 mod 146097;
          n100 = r400 div 36524; r100 = r400 mod 36524;
          n4 = r100 div 1461; r4 = r100 mod 1461;
          n1 = r4 div 365; n = r4 mod 365;
          year = n400 * 400 + 1 + n100 * 100 + n4 * 4 + n1
      in if n1 = 4 \<or> n100 = 4 then (year - 1, 12, 31)
         else let month = (n + 50) div 32;
                  month' = (if n < days_before_month year month then month - 1 else month)
              in (year, month', n - days_before_month year month' + 1))"

definition date_isoformat :: "day \<Rightarrow> string" where
  "date_isoformat day = (case ord2ymd day of (y, m, d) \<Rightarrow> iso_civil y m d)"

section \<open>The square-off policy\<close>

datatype square_off_state = SO_PENDING | SO_IN_PROGRESS | SO_COMPLETED | SO_FAILED

datatype square_off_trigger = TR_NONE | TR_BLOCK_NEW_ENTRIES | TR_SQUARE_OFF

datatype expiry_policy = FORCE_SQUARE_OFF_BEFORE_EXPIRY | SIMULATE_EXCHANGE_SETTLEMENT

record square_off_policy =
  sp_entry_cutoff :: tod
  sp_square_off_at :: tod
  sp_timezone :: tz
  sp_expiry_policy :: expiry_policy
  sp_before_expiry_days :: int

definition default_policy :: square_off_policy where
  "default_policy =
     \<lparr>sp_entry_cutoff = time_of 15 0 0, sp_square_off_at = time_of 15 15 0, sp_timezone = ist,
      sp_expiry_policy = FORCE_SQUARE_OFF_BEFORE_EXPIRY, sp_before_expiry_days = 0\<rparr>"

definition new_square_off_policy :: "square_off_policy \<Rightarrow> square_off_policy result" where
  "new_square_off_policy p =
     bindE (check (\<not> sp_square_off_at p < sp_entry_cutoff p) ValueError) (\<lambda>_.
     bindE (check (sp_expiry_policy p \<noteq> SIMULATE_EXCHANGE_SETTLEMENT) ValueError) (\<lambda>_.
     bindE (check (\<not> sp_before_expiry_days p < 0) ValueError) (\<lambda>_. Inr p)))"

definition entries_allowed :: "square_off_policy \<Rightarrow> datetime \<Rightarrow> bool result" where
  "entries_allowed p moment =
     bindE (local_time_in moment (sp_timezone p)) (\<lambda>t. Inr (t < sp_entry_cutoff p))"

definition holding_overdue :: "square_off_policy \<Rightarrow> datetime \<Rightarrow> string option \<Rightarrow> bool result" where
  "holding_overdue p moment expiry =
     (case expiry of
        None \<Rightarrow> Inr False
      | Some [] \<Rightarrow> Inr False
      | Some e \<Rightarrow>
          (case date_fromisoformat (take 10 e) of
             Inl _ \<Rightarrow> Inr False
           | Inr expiry_date \<Rightarrow>
               bindE (local_date_in moment (sp_timezone p)) (\<lambda>local_date.
               Inr (expiry_date - sp_before_expiry_days p < local_date))))"

definition trigger_at ::
  "square_off_policy \<Rightarrow> datetime \<Rightarrow> square_off_state \<Rightarrow> string option \<Rightarrow> square_off_trigger result" where
  "trigger_at p moment state expiry =
     (if state \<in> {SO_COMPLETED, SO_IN_PROGRESS} then Inr TR_NONE
      else bindE (holding_overdue p moment expiry) (\<lambda>overdue.
        if overdue then Inr TR_SQUARE_OFF
        else bindE (local_time_in moment (sp_timezone p)) (\<lambda>local.
          if sp_square_off_at p \<le> local then Inr TR_SQUARE_OFF
          else if sp_entry_cutoff p \<le> local then Inr TR_BLOCK_NEW_ENTRIES
          else Inr TR_NONE)))"

section \<open>The market session\<close>

record session_config =
  sc_timezone :: tz
  sc_start_time :: string
  sc_end_time :: string
  sc_square_off_time :: string
  sc_holidays :: "string list"

definition from_square_off_policy :: "square_off_policy \<Rightarrow> string \<Rightarrow> string list \<Rightarrow> session_config" where
  "from_square_off_policy p start_time holidays =
     \<lparr>sc_timezone = sp_timezone p, sc_start_time = start_time,
      sc_end_time = hhmm_text (sp_entry_cutoff p), sc_square_off_time = hhmm_text (sp_square_off_at p),
      sc_holidays = holidays\<rparr>"

record market_session =
  ms_tz :: tz
  ms_start :: tod
  ms_end :: tod
  ms_square_off :: tod
  ms_holidays :: "string list"

definition new_market_session :: "session_config \<Rightarrow> market_session result" where
  "new_market_session cfg =
     bindE (parse_hhmm (sc_start_time cfg)) (\<lambda>start.
     bindE (parse_hhmm (sc_end_time cfg)) (\<lambda>end_time.
     bindE (parse_hhmm (sc_square_off_time cfg)) (\<lambda>square_off.
     bindE (check (start < end_time \<and> end_time \<le> square_off) ValueError) (\<lambda>_.
     Inr \<lparr>ms_tz = sc_timezone cfg, ms_start = start, ms_end = end_time, ms_square_off = square_off,
          ms_holidays = sc_holidays cfg\<rparr>))))"

definition local_of :: "market_session \<Rightarrow> datetime \<Rightarrow> (day \<times> tod) result" where
  "local_of s moment =
     bindE (local_date_in moment (ms_tz s)) (\<lambda>d.
     bindE (local_time_in moment (ms_tz s)) (\<lambda>t. Inr (d, t)))"

definition trading_day :: "market_session \<Rightarrow> day \<Rightarrow> bool" where
  "trading_day s d = (weekday d < 5 \<and> date_isoformat d \<notin> set (ms_holidays s))"

definition is_holiday :: "market_session \<Rightarrow> datetime \<Rightarrow> bool result" where
  "is_holiday s moment = bindE (local_of s moment) (\<lambda>(d, t). Inr (date_isoformat d \<in> set (ms_holidays s)))"

definition is_trading_day :: "market_session \<Rightarrow> datetime \<Rightarrow> bool result" where
  "is_trading_day s moment = bindE (local_of s moment) (\<lambda>(d, t). Inr (trading_day s d))"

definition is_open :: "market_session \<Rightarrow> datetime \<Rightarrow> bool result" where
  "is_open s moment =
     bindE (local_of s moment) (\<lambda>(d, t). Inr (trading_day s d \<and> ms_start s \<le> t \<and> t \<le> ms_square_off s))"

definition can_enter :: "market_session \<Rightarrow> datetime \<Rightarrow> bool result" where
  "can_enter s moment =
     bindE (local_of s moment) (\<lambda>(d, t). Inr (trading_day s d \<and> ms_start s \<le> t \<and> t < ms_end s))"

text \<open>The calendar walk: at most the given number of hops, stopping when none remain.\<close>

fun walk_back :: "market_session \<Rightarrow> nat \<Rightarrow> int \<Rightarrow> day \<Rightarrow> day result" where
  "walk_back s 0 remaining d = Inr d"
| "walk_back s (Suc hops) remaining d =
     (let d1 = d - 1 in
      bindE (is_trading_day s (combine d1 0 (ms_tz s))) (\<lambda>trading.
      if trading then
        (if remaining - 1 = 0 then Inr d1 else walk_back s hops (remaining - 1) d1)
      else walk_back s hops remaining d1))"

definition prior_trading_day :: "market_session \<Rightarrow> day \<Rightarrow> int \<Rightarrow> day result" where
  "prior_trading_day s d sessions_back =
     walk_back s (nat (sessions_back * 5 + 14)) (max 1 sessions_back) d"

section \<open>Times survive their text\<close>

lemma digit_not [simp]: "is_digit c \<Longrightarrow> c \<noteq> CHR '':''" "is_digit c \<Longrightarrow> \<not> is_space c"
  by (auto simp: is_digit_def is_space_def)

lemma split_on_digits:
  "list_all is_digit a \<Longrightarrow> split_on CHR '':'' (a @ CHR '':'' # b) = a # split_on CHR '':'' b"
  "list_all is_digit a \<Longrightarrow> split_on CHR '':'' a = [a]"
  by (induction a) auto

lemma strip_digits:
  assumes "list_all is_digit a" "a \<noteq> []" "list_all is_digit b" "b \<noteq> []"
  shows "strip (a @ CHR '':'' # b) = a @ CHR '':'' # b"
proof -
  obtain x xs where a: "a = x # xs" using assms(2) by (cases a) auto
  obtain y ys where b: "rev b = y # ys" using assms(4) by (cases "rev b") auto
  have "is_digit y" using assms(3) b by (metis list.set_intros(1) list_all_iff set_rev)
  then show ?thesis using assms(1) a b by (simp add: strip_def)
qed

lemma field_pad: "0 \<le> k \<Longrightarrow> k < int bound \<Longrightarrow> bound \<le> 100 \<Longrightarrow> field bound (pad_nat 2 (nat k)) = Some k"
  using length_pad_nat [of 2 "nat k"] by (simp add: field_def pad_nat_all)

lemma parse_hhmm_text:
  assumes "0 \<le> h" "h < 24" "0 \<le> m" "m < 60"
  shows "parse_hhmm (hhmm_text (time_of h m 0)) = Inr (time_of h m 0)"
proof -
  have t: "time_of h m 0 div hour = h" "time_of h m 0 mod hour div minute = m"
    using assms by (simp_all add: time_of_def hour_def minute_def)
  then show ?thesis using assms
    by (simp add: parse_hhmm_def hhmm_text_def strip_digits split_on_digits pad_nat_all field_pad)
qed

section \<open>Local times\<close>

lemma local_time_Inr: "local_time_in m z = Inr t \<longleftrightarrow> aware m \<and> t = dt_time (astimezone z m)"
  by (auto simp: local_time_in_def)

lemma local_date_Inr: "local_date_in m z = Inr d \<longleftrightarrow> aware m \<and> d = dt_date (astimezone z m)"
  by (auto simp: local_date_in_def)

lemma aware_local [simp]:
  "aware m \<Longrightarrow> local_time_in m z = Inr (dt_time (astimezone z m))"
  "aware m \<Longrightarrow> local_date_in m z = Inr (dt_date (astimezone z m))"
  "\<not> aware m \<Longrightarrow> local_time_in m z = Inl NaiveDatetimeError"
  "\<not> aware m \<Longrightarrow> local_date_in m z = Inl NaiveDatetimeError"
  by (simp_all add: local_time_in_def local_date_in_def)

lemma astimezone_instant: "instant m1 = instant m2 \<Longrightarrow> astimezone z m1 = astimezone z m2"
  by (simp add: astimezone_def)

lemma same_date_time_mono:
  assumes "dt_date (astimezone z m1) = dt_date (astimezone z m2)" "instant m1 \<le> instant m2"
  shows "dt_time (astimezone z m1) \<le> dt_time (astimezone z m2)"
  using assms wall_date_time [of "astimezone z m1"] wall_date_time [of "astimezone z m2"]
  by (simp add: astimezone_def)

lemma holding_overdue_same_date:
  assumes "aware m1" "aware m2" "dt_date (astimezone (sp_timezone p) m1) = dt_date (astimezone (sp_timezone p) m2)"
  shows "holding_overdue p m1 e = holding_overdue p m2 e"
  using assms by (auto simp: holding_overdue_def split: option.split list.split sum.split)

lemma holding_overdue_returns: "aware m \<Longrightarrow> \<exists>b. holding_overdue p m e = Inr b"
  by (auto simp: holding_overdue_def split: option.split list.split sum.split)

definition trigger_rank :: "square_off_trigger \<Rightarrow> nat" where
  "trigger_rank t = (case t of TR_NONE \<Rightarrow> 0 | TR_BLOCK_NEW_ENTRIES \<Rightarrow> 1 | TR_SQUARE_OFF \<Rightarrow> 2)"

lemma trigger_at_mono:
  assumes "aware m1" "aware m2" "instant m1 \<le> instant m2"
    and "dt_date (astimezone (sp_timezone p) m1) = dt_date (astimezone (sp_timezone p) m2)"
    and "sp_entry_cutoff p \<le> sp_square_off_at p"
  shows "\<exists>t1 t2. trigger_at p m1 st e = Inr t1 \<and> trigger_at p m2 st e = Inr t2 \<and> trigger_rank t1 \<le> trigger_rank t2"
proof -
  obtain b where b: "holding_overdue p m1 e = Inr b" using holding_overdue_returns assms(1) by blast
  then have "holding_overdue p m2 e = Inr b" using holding_overdue_same_date [OF assms(1,2,4)] by simp
  then show ?thesis using b assms same_date_time_mono [OF assms(4,3)]
    by (auto simp: trigger_at_def trigger_rank_def)
qed

section \<open>The calendar walk\<close>

definition trading_days_from :: "market_session \<Rightarrow> day \<Rightarrow> nat \<Rightarrow> int" where
  "trading_days_from s d k = int (length (filter (trading_day s) (map (\<lambda>i. d + int i) [0..<k])))"

lemma is_trading_day_probe: "is_trading_day s (combine d 0 (ms_tz s)) = Inr (trading_day s d)"
proof -
  have a: "aware (combine d 0 (ms_tz s))" by (simp add: aware_def combine_def)
  have "astimezone (ms_tz s) (combine d 0 (ms_tz s)) = combine d 0 (ms_tz s)"
    by (simp add: astimezone_def combine_def instant_def)
  then show ?thesis using a combine_date_time [of 0 d "ms_tz s"]
    by (simp add: is_trading_day_def local_of_def day_us_def)
qed

lemma trading_days_Suc:
  "trading_days_from s (d - 1) (Suc k) = (if trading_day s (d - 1) then 1 else 0) + trading_days_from s d k"
proof -
  have "map (\<lambda>i. d - 1 + int i) [0..<Suc k] = (d - 1) # map (\<lambda>i. d + int i) [0..<k]"
    by (simp add: upt_conv_Cons map_Suc_upt [symmetric] del: upt_Suc)
  then show ?thesis by (simp add: trading_days_from_def)
qed

lemma walk_back_spec:
  assumes "0 < remaining"
  shows "\<exists>r k. walk_back s hops remaining d = Inr r \<and> k \<le> hops \<and> r = d - int k
    \<and> (trading_day s r \<and> trading_days_from s r k = remaining \<or> k = hops \<and> trading_days_from s r k < remaining)"
  using assms
proof (induction hops arbitrary: remaining d)
  case 0
  then show ?case by (simp add: trading_days_from_def)
next
  case (Suc hops)
  have count: "trading_days_from s (d - 1 - int k) (Suc k)
      = trading_days_from s (d - 1 - int k) k + (if trading_day s (d - 1) then 1 else 0)" for k
    by (simp add: trading_days_from_def)
  have one: "trading_days_from s (d - 1) (Suc 0) = (if trading_day s (d - 1) then 1 else 0)"
    by (simp add: trading_days_from_def)
  consider "trading_day s (d - 1)" "remaining = 1" | "trading_day s (d - 1)" "1 < remaining"
    | "\<not> trading_day s (d - 1)" using Suc(2) by linarith
  then show ?case
  proof cases
    case 1
    then show ?thesis by (intro exI [of _ "d - 1"] exI [of _ "Suc 0"]) (simp add: is_trading_day_probe one)
  next
    case 2
    then have "0 < remaining - 1" by simp
    from Suc(1) [OF this, of "d - 1"] obtain r k where
      r: "walk_back s hops (remaining - 1) (d - 1) = Inr r" "k \<le> hops" "r = d - 1 - int k"
      "trading_day s r \<and> trading_days_from s r k = remaining - 1
        \<or> k = hops \<and> trading_days_from s r k < remaining - 1" by blast
    show ?thesis
      by (intro exI [of _ r] exI [of _ "Suc k"]) (use 2 r count [of k] in \<open>auto simp: is_trading_day_probe\<close>)
  next
    case 3
    from Suc(1) [OF Suc(2), of "d - 1"] obtain r k where
      r: "walk_back s hops remaining (d - 1) = Inr r" "k \<le> hops" "r = d - 1 - int k"
      "trading_day s r \<and> trading_days_from s r k = remaining
        \<or> k = hops \<and> trading_days_from s r k < remaining" by blast
    show ?thesis
      by (intro exI [of _ r] exI [of _ "Suc k"]) (use 3 r count [of k] in \<open>simp add: is_trading_day_probe\<close>)
  qed
qed

section \<open>Properties\<close>

text \<open>C12: as a day goes on the policy's answer only escalates: within one local date a later
  moment, with the same persisted state and expiry, never gets a weaker
  trigger, and entries once refused stay refused.\<close>

theorem square_off_only_escalates:
  assumes "new_square_off_policy p = Inr p" "aware m1" "aware m2" "m1 \<le> m2"
    and "local_date_in m1 (sp_timezone p) = local_date_in m2 (sp_timezone p)"
  shows "\<exists>t1 t2. trigger_at p m1 st e = Inr t1 \<and> trigger_at p m2 st e = Inr t2
      \<and> trigger_rank t1 \<le> trigger_rank t2
      \<and> (entries_allowed p m1 = Inr False \<longrightarrow> entries_allowed p m2 = Inr False)"
proof -
  have p: "sp_entry_cutoff p \<le> sp_square_off_at p" using assms(1) by (simp add: new_square_off_policy_def)
  have d: "dt_date (astimezone (sp_timezone p) m1) = dt_date (astimezone (sp_timezone p) m2)"
    and i: "instant m1 \<le> instant m2" using assms by (simp_all add: datetime_order)
  show ?thesis using trigger_at_mono [OF assms(2,3) i d p, of st e] same_date_time_mono [OF d i] assms(2,3)
    by (auto simp: entries_allowed_def)
qed

theorem square_off_only_escalates_witness:
  "\<exists>t1 t2. trigger_at default_policy (combine 20668 (time_of 15 5 0) ist) SO_PENDING None = Inr t1
     \<and> trigger_at default_policy (combine 20668 (time_of 15 20 0) ist) SO_PENDING None = Inr t2
     \<and> trigger_rank t1 \<le> trigger_rank t2"
proof -
  have "new_square_off_policy default_policy = Inr default_policy"
    "aware (combine 20668 (time_of 15 5 0) ist)" "aware (combine 20668 (time_of 15 20 0) ist)"
    "combine 20668 (time_of 15 5 0) ist \<le> combine 20668 (time_of 15 20 0) ist"
    "local_date_in (combine 20668 (time_of 15 5 0) ist) (sp_timezone default_policy)
       = local_date_in (combine 20668 (time_of 15 20 0) ist) (sp_timezone default_policy)"
    by code_simp+
  from square_off_only_escalates [OF this, of SO_PENDING None] show ?thesis by blast
qed

text \<open>The session derived from a policy whose times are whole minutes has exactly the
  policy's times: the text round trip loses nothing, the engine may enter only
  while the policy allows entries, and the session's square-off time is reached
  exactly when the policy's trigger says square off.\<close>

theorem session_follows_policy:
  assumes "new_square_off_policy p = Inr p" "parse_hhmm start_time = Inr start" "start < sp_entry_cutoff p"
    and "sp_entry_cutoff p = time_of h m 0" "0 \<le> h" "h < 24" "0 \<le> m" "m < 60"
    and "sp_square_off_at p = time_of h' m' 0" "0 \<le> h'" "h' < 24" "0 \<le> m'" "m' < 60"
  shows "\<exists>s. new_market_session (from_square_off_policy p start_time holidays) = Inr s
    \<and> ms_end s = sp_entry_cutoff p \<and> ms_square_off s = sp_square_off_at p
    \<and> (\<forall>ts. can_enter s ts = Inr True \<longrightarrow> entries_allowed p ts = Inr True)
    \<and> (\<forall>ts. aware ts \<longrightarrow> (trigger_at p ts SO_PENDING None = Inr TR_SQUARE_OFF
          \<longleftrightarrow> (\<exists>t. local_time_in ts (ms_tz s) = Inr t \<and> ms_square_off s \<le> t)))"
proof -
  let ?s = "\<lparr>ms_tz = sp_timezone p, ms_start = start, ms_end = sp_entry_cutoff p,
      ms_square_off = sp_square_off_at p, ms_holidays = holidays\<rparr>"
  have "sp_entry_cutoff p \<le> sp_square_off_at p" using assms(1) by (simp add: new_square_off_policy_def)
  moreover have "parse_hhmm (hhmm_text (sp_entry_cutoff p)) = Inr (sp_entry_cutoff p)"
    "parse_hhmm (hhmm_text (sp_square_off_at p)) = Inr (sp_square_off_at p)"
    using assms(4-13) by (simp_all add: parse_hhmm_text)
  ultimately have "new_market_session (from_square_off_policy p start_time holidays) = Inr ?s"
    using assms(2,3) by (simp add: new_market_session_def from_square_off_policy_def)
  moreover have "entries_allowed p ts = Inr True" if "can_enter ?s ts = Inr True" for ts
    using that by (cases "aware ts") (auto simp: can_enter_def local_of_def entries_allowed_def)
  moreover have "trigger_at p ts SO_PENDING None = Inr TR_SQUARE_OFF
      \<longleftrightarrow> sp_square_off_at p \<le> dt_time (astimezone (sp_timezone p) ts)" if "aware ts" for ts
    using that by (simp add: trigger_at_def holding_overdue_def)
  ultimately show ?thesis by (intro exI [of _ ?s]) auto
qed

theorem session_follows_policy_witness:
  "\<exists>s. new_market_session (from_square_off_policy default_policy ''09:15'' []) = Inr s
     \<and> ms_end s = time_of 15 0 0 \<and> ms_square_off s = time_of 15 15 0"
proof -
  have h: "new_square_off_policy default_policy = Inr default_policy" "parse_hhmm ''09:15'' = Inr (time_of 9 15 0)"
    "time_of 9 15 0 < sp_entry_cutoff default_policy" "sp_entry_cutoff default_policy = time_of 15 0 0"
    "sp_square_off_at default_policy = time_of 15 15 0"
    by code_simp+
  show ?thesis using session_follows_policy [OF h(1-4) _ _ _ _ h(5), of "[]"] h(4,5) by auto
qed

text \<open>Every timing decision depends on the instant and not on the offset a timestamp
  carries: two aware timestamps of one instant, one in UTC and one local, get
  the same answers from the session and from the policy.\<close>

theorem decisions_depend_on_instant:
  assumes "aware m1" "aware m2" "instant m1 = instant m2"
  shows "is_open s m1 = is_open s m2 \<and> can_enter s m1 = can_enter s m2
    \<and> is_trading_day s m1 = is_trading_day s m2 \<and> is_holiday s m1 = is_holiday s m2
    \<and> entries_allowed p m1 = entries_allowed p m2 \<and> trigger_at p m1 st e = trigger_at p m2 st e"
proof -
  have l: "local_time_in m1 z = local_time_in m2 z" "local_date_in m1 z = local_date_in m2 z" for z
    using assms astimezone_instant [OF assms(3)] by simp_all
  moreover have "holding_overdue p m1 e = holding_overdue p m2 e"
    using astimezone_instant [OF assms(3)] by (intro holding_overdue_same_date assms) simp
  ultimately show ?thesis
    by (simp add: is_open_def can_enter_def is_trading_day_def is_holiday_def local_of_def entries_allowed_def
        trigger_at_def cong: if_cong)
qed

theorem decisions_depend_on_instant_witness:
  "trigger_at default_policy (DT (20668 * day_us + time_of 9 45 0) (Some utc)) SO_PENDING None
   = trigger_at default_policy (DT (20668 * day_us + time_of 15 15 0) (Some ist)) SO_PENDING None"
proof -
  have "aware (DT (20668 * day_us + time_of 9 45 0) (Some utc))"
    "aware (DT (20668 * day_us + time_of 15 15 0) (Some ist))"
    "instant (DT (20668 * day_us + time_of 9 45 0) (Some utc))
       = instant (DT (20668 * day_us + time_of 15 15 0) (Some ist))"
    by code_simp+
  from decisions_depend_on_instant [OF this] show ?thesis by blast
qed

text \<open>The calendar walk always returns, and either it reaches a trading day before the given
  one with exactly the requested number of trading days (at least one) from it
  up to that day, or it has taken all its hops and there were fewer.\<close>

theorem prior_trading_day_counts:
  "\<exists>r k. prior_trading_day s d n = Inr r \<and> k \<le> nat (n * 5 + 14) \<and> r = d - int k
    \<and> (trading_day s r \<and> trading_days_from s r k = max 1 n
       \<or> k = nat (n * 5 + 14) \<and> trading_days_from s r k < max 1 n)"
  unfolding prior_trading_day_def by (rule walk_back_spec) simp

text \<open>
  The session's times pass through an hour-and-minute text, so a policy time
  with seconds does not survive: at 15:15:20 the session of a policy that
  squares off at 15:15:30 is already closed while the policy does not yet say
  square off.
\<close>

theorem session_drops_seconds:
  "\<exists>p s ts. new_square_off_policy p = Inr p
     \<and> new_market_session (from_square_off_policy p ''09:15'' []) = Inr s
     \<and> is_open s ts = Inr False \<and> trigger_at p ts SO_PENDING None = Inr TR_BLOCK_NEW_ENTRIES"
proof -
  let ?p = "default_policy\<lparr>sp_square_off_at := time_of 15 15 30\<rparr>"
  let ?s = "\<lparr>ms_tz = ist, ms_start = time_of 9 15 0, ms_end = time_of 15 0 0,
      ms_square_off = time_of 15 15 0, ms_holidays = []\<rparr>"
  let ?t = "combine 20668 (time_of 15 15 20) ist"
  have "new_square_off_policy ?p = Inr ?p"
    "new_market_session (from_square_off_policy ?p ''09:15'' []) = Inr ?s"
    "is_open ?s ?t = Inr False" "trigger_at ?p ?t SO_PENDING None = Inr TR_BLOCK_NEW_ENTRIES"
    by code_simp+
  then show ?thesis by blast
qed

end
