(* ===== verification/Square_Off.thy ===== *)
theory Square_Off
  imports Session State_Payload
begin

text \<open>
  common/engine/square_off.py: who decides that it is square-off time.  The
  SquareOffAuthority protocol is a locale; its two implementations, the
  session's clock and the persisted strategy-day, are its instances.  The
  persisted authority's state is its own record and the database.
\<close>

section \<open>The clock-only authority\<close>

definition session_due :: "datetime \<Rightarrow> datetime \<Rightarrow> market_session \<Rightarrow> bool result \<times> market_session" where
  "session_due now ts s = (bindE (local_time_in ts (ms_tz s)) (\<lambda>t. Inr (ms_square_off s \<le> t)), s)"

definition session_completed :: "datetime \<Rightarrow> datetime \<Rightarrow> market_session \<Rightarrow> market_session" where
  "session_completed now ts s = s"

section \<open>The persisted authority\<close>

record persisted_authority =
  pa_policy :: square_off_policy
  pa_runtime_id :: string
  pa_strategy_id :: string
  pa_mode :: execution_mode
  pa_trading_date :: string
  pa_expiry :: "string option"
  pa_writes :: nat
  pa_attempt_recorded :: bool
  pa_state :: square_off_state

definition state_value :: "square_off_state \<Rightarrow> string" where
  "state_value s = (case s of SO_PENDING \<Rightarrow> ''PENDING'' | SO_IN_PROGRESS \<Rightarrow> ''IN_PROGRESS''
     | SO_COMPLETED \<Rightarrow> ''COMPLETED'' | SO_FAILED \<Rightarrow> ''FAILED'')"

definition state_of_value :: "string \<Rightarrow> square_off_state option" where
  "state_of_value v = find (\<lambda>s. state_value s = v) [SO_PENDING, SO_IN_PROGRESS, SO_COMPLETED, SO_FAILED]"

definition load_state :: "string \<Rightarrow> execution_mode \<Rightarrow> string \<Rightarrow> db \<Rightarrow> square_off_state" where
  "load_state strategy_id mode trading_date d =
     (case load_strategy_state strategy_id mode trading_date d of
        None \<Rightarrow> SO_PENDING
      | Some row \<Rightarrow>
          (case state_of_value (st_square_off_state row) of
             None \<Rightarrow> SO_PENDING
           | Some stored \<Rightarrow> if stored = SO_IN_PROGRESS then SO_PENDING else stored))"

definition new_persisted_authority ::
  "square_off_policy \<Rightarrow> string \<Rightarrow> string \<Rightarrow> execution_mode \<Rightarrow> string \<Rightarrow> string option \<Rightarrow> db \<Rightarrow> persisted_authority" where
  "new_persisted_authority policy runtime_id strategy_id mode trading_date expiry d =
     \<lparr>pa_policy = policy, pa_runtime_id = runtime_id, pa_strategy_id = strategy_id, pa_mode = mode,
      pa_trading_date = trading_date, pa_expiry = expiry, pa_writes = 0, pa_attempt_recorded = False,
      pa_state = load_state strategy_id mode trading_date d\<rparr>"

definition save_state ::
  "square_off_state \<Rightarrow> datetime option \<Rightarrow> datetime \<Rightarrow> persisted_authority \<times> db \<Rightarrow> persisted_authority \<times> db" where
  "save_state state last_candle now st =
     (case st of (a, d) \<Rightarrow>
      (a\<lparr>pa_writes := pa_writes a + 1\<rparr>,
       save_strategy_state (pa_runtime_id a) (pa_strategy_id a) (pa_mode a) (pa_trading_date a) last_candle
         (Some (state_value state)) (Some True) None True now d))"

definition due :: "datetime \<Rightarrow> datetime \<Rightarrow> persisted_authority \<times> db \<Rightarrow> bool result \<times> (persisted_authority \<times> db)" where
  "due now ts st =
     (case st of (a, d) \<Rightarrow>
      case trigger_at (pa_policy a) ts (pa_state a) (pa_expiry a) of
        Inl e \<Rightarrow> (Inl e, (a, d))
      | Inr trigger \<Rightarrow>
          if trigger \<noteq> TR_SQUARE_OFF then (Inr False, (a, d))
          else if \<not> pa_attempt_recorded a
          then (Inr True, save_state SO_IN_PROGRESS None now (a\<lparr>pa_attempt_recorded := True\<rparr>, d))
          else (Inr True, (a, d)))"

definition completed :: "datetime \<Rightarrow> datetime \<Rightarrow> persisted_authority \<times> db \<Rightarrow> persisted_authority \<times> db" where
  "completed now ts st =
     (case st of (a, d) \<Rightarrow>
      if pa_state a = SO_COMPLETED then (a, d)
      else save_state SO_COMPLETED (Some ts) now (a\<lparr>pa_state := SO_COMPLETED\<rparr>, d))"

section \<open>The authority interface\<close>

text \<open>
  A decision that is a function of the state and the moment, is not changed by
  being asked, and once yes stays yes for the rest of the local day while the
  authority is armed.
\<close>

locale square_off_authority =
  fixes due_op :: "datetime \<Rightarrow> datetime \<Rightarrow> 's \<Rightarrow> bool result \<times> 's"
    and decision :: "'s \<Rightarrow> datetime \<Rightarrow> bool result"
    and zone :: "'s \<Rightarrow> tz"
    and armed :: "'s \<Rightarrow> bool"
  assumes due_decides: "due_op now ts s = (r, s') \<Longrightarrow>
        r = decision s ts \<and> decision s' = decision s \<and> zone s' = zone s \<and> armed s' = armed s"
    and decision_stays: "armed s \<Longrightarrow> decision s t1 = Inr True \<Longrightarrow> aware t2 \<Longrightarrow> instant t1 \<le> instant t2
        \<Longrightarrow> local_date_in t2 (zone s) = local_date_in t1 (zone s) \<Longrightarrow> decision s t2 = Inr True"
begin

text \<open>The engine's question on every tick.\<close>

fun ask_all :: "(datetime \<times> datetime) list \<Rightarrow> 's \<Rightarrow> bool result list \<times> 's" where
  "ask_all [] s = ([], s)"
| "ask_all ((now, ts) # xs) s =
     (case due_op now ts s of (r, s1) \<Rightarrow> (case ask_all xs s1 of (rs, s2) \<Rightarrow> (r # rs, s2)))"

lemma ask_all_decides:
  "ask_all xs s = (rs, s') \<Longrightarrow> rs = map (\<lambda>(now, ts). decision s ts) xs \<and> armed s' = armed s \<and> zone s' = zone s"
proof (induction xs arbitrary: s rs)
  case (Cons x xs)
  obtain now ts where x: "x = (now, ts)" by fastforce
  obtain r s1 where d: "due_op now ts s = (r, s1)" by fastforce
  obtain rs1 where l: "ask_all xs s1 = (rs1, s')" "rs = r # rs1"
    using Cons(2) x d by (auto split: prod.splits)
  from Cons(1) [OF l(1)] due_decides [OF d] l(2) x show ?case by simp
qed simp

text \<open>Asked in time order on one day, the answers are no until they are yes for good.\<close>

lemma asked_until_done:
  assumes "armed s" "ask_all xs s = (rs, s')" "i < j" "j < length xs" "rs ! i = Inr True"
    and "\<forall>x \<in> set xs. aware (snd x) \<and> local_date_in (snd x) (zone s) = Inr d"
    and "sorted_wrt (\<lambda>x y. instant (snd x) \<le> instant (snd y)) xs"
  shows "rs ! j = Inr True"
proof -
  have rs: "rs = map (\<lambda>(now, ts). decision s ts) xs" using ask_all_decides [OF assms(2)] by simp
  have i: "decision s (snd (xs ! i)) = Inr True" using assms(3-5) rs by (simp add: case_prod_unfold)
  have m: "xs ! i \<in> set xs" "xs ! j \<in> set xs" using assms(3,4) by simp_all
  have d: "aware (snd (xs ! j))" "local_date_in (snd (xs ! j)) (zone s) = local_date_in (snd (xs ! i)) (zone s)"
    using assms(6) m by (metis (no_types, lifting))+
  note le = sorted_wrt_nth_less [OF assms(7,3,4)]
  have "decision s (snd (xs ! j)) = Inr True" by (rule decision_stays [OF assms(1) i d(1) le d(2)])
  then show ?thesis using assms(4) rs by (simp add: case_prod_unfold)
qed

end

definition persisted_decision :: "persisted_authority \<times> db \<Rightarrow> datetime \<Rightarrow> bool result" where
  "persisted_decision st ts =
     bindE (trigger_at (pa_policy (fst st)) ts (pa_state (fst st)) (pa_expiry (fst st)))
       (\<lambda>t. Inr (t = TR_SQUARE_OFF))"

definition persisted_armed :: "persisted_authority \<times> db \<Rightarrow> bool" where
  "persisted_armed st = (pa_state (fst st) \<noteq> SO_COMPLETED)"

lemma trigger_square_off_stays:
  assumes "trigger_at p t1 st e = Inr TR_SQUARE_OFF" "aware t2" "instant t1 \<le> instant t2"
    and "local_date_in t2 (sp_timezone p) = local_date_in t1 (sp_timezone p)"
  shows "trigger_at p t2 st e = Inr TR_SQUARE_OFF"
proof -
  have st: "st \<notin> {SO_COMPLETED, SO_IN_PROGRESS}" using assms(1) by (auto simp: trigger_at_def)
  have a1: "aware t1" using assms(2,4) by (cases "aware t1") auto
  have d: "dt_date (astimezone (sp_timezone p) t1) = dt_date (astimezone (sp_timezone p) t2)"
    using assms(2,4) a1 by simp
  note h = holding_overdue_same_date [OF a1 assms(2) d, of e]
  obtain b where b: "holding_overdue p t1 e = Inr b" using holding_overdue_returns [OF a1] by blast
  then have "holding_overdue p t2 e = Inr b" using h by simp
  then show ?thesis using assms(1) st a1 assms(2) b same_date_time_mono [OF d assms(3)]
    by (auto simp: trigger_at_def split: if_splits)
qed

interpretation persisted: square_off_authority due persisted_decision
  "\<lambda>st. sp_timezone (pa_policy (fst st))" persisted_armed
proof unfold_locales
  fix now ts and s s' :: "persisted_authority \<times> db" and r
  assume d: "due now ts s = (r, s')"
  obtain a db1 a' db2 where s: "s = (a, db1)" "s' = (a', db2)" by (metis surj_pair)
  have "r = persisted_decision s ts \<and> pa_policy a' = pa_policy a \<and> pa_state a' = pa_state a \<and> pa_expiry a' = pa_expiry a"
    using d s by (auto simp: due_def persisted_decision_def save_state_def split: sum.splits if_splits)
  then show "r = persisted_decision s ts \<and> persisted_decision s' = persisted_decision s
      \<and> sp_timezone (pa_policy (fst s')) = sp_timezone (pa_policy (fst s)) \<and> persisted_armed s' = persisted_armed s"
    using s by (simp add: persisted_decision_def persisted_armed_def fun_eq_iff)
next
  fix s :: "persisted_authority \<times> db" and t1 t2
  assume "persisted_decision s t1 = Inr True" "aware t2" "instant t1 \<le> instant t2"
    "local_date_in t2 (sp_timezone (pa_policy (fst s))) = local_date_in t1 (sp_timezone (pa_policy (fst s)))"
  then show "persisted_decision s t2 = Inr True"
    by (auto simp: persisted_decision_def bindE_Inr intro: trigger_square_off_stays)
qed

interpretation clock: square_off_authority session_due "\<lambda>s ts. fst (session_due ts ts s)" ms_tz "\<lambda>_. True"
proof unfold_locales
  fix s :: market_session and t1 t2
  assume d: "fst (session_due t1 t1 s) = Inr True" "aware t2" "instant t1 \<le> instant t2"
    "local_date_in t2 (ms_tz s) = local_date_in t1 (ms_tz s)"
  have a1: "aware t1" using d by (cases "aware t1") (auto simp: session_due_def)
  have "dt_date (astimezone (ms_tz s) t1) = dt_date (astimezone (ms_tz s) t2)" using d a1 by simp
  from same_date_time_mono [OF this d(3)] d a1 show "fst (session_due t2 t2 s) = Inr True"
    by (simp add: session_due_def)
qed (auto simp: session_due_def)

section \<open>The persisted row\<close>

definition stored_row :: "string \<Rightarrow> execution_mode \<Rightarrow> string \<Rightarrow> db \<Rightarrow> (string \<times> int) option" where
  "stored_row strategy_id mode trading_date d =
     map_option (\<lambda>r. (st_square_off_state r, st_square_off_attempts r))
       (load_strategy_state strategy_id mode trading_date d)"

definition attempts :: "string \<Rightarrow> execution_mode \<Rightarrow> string \<Rightarrow> db \<Rightarrow> int" where
  "attempts sid m td d = (case stored_row sid m td d of None \<Rightarrow> 0 | Some (s, n) \<Rightarrow> n)"

lemma load_state_row:
  "load_state sid m td d =
     (case stored_row sid m td d of
        None \<Rightarrow> SO_PENDING
      | Some (v, n) \<Rightarrow> (case state_of_value v of None \<Rightarrow> SO_PENDING
          | Some x \<Rightarrow> if x = SO_IN_PROGRESS then SO_PENDING else x))"
  by (simp add: load_state_def stored_row_def split: option.split)

lemma state_of_value [simp]: "state_of_value (state_value s) = Some s"
  by (cases s) (simp_all add: state_of_value_def state_value_def)

lemma state_value_inj [simp]: "state_value s = state_value t \<longleftrightarrow> s = t"
  by (metis option.inject state_of_value)

lemma stored_row_saved:
  "stored_row sid m td (save_strategy_state rt sid m td lc (Some v) bl pl True now d)
     = Some (v, attempts sid m td d + 1)"
proof (cases "select_one (\<lambda>r. state_key r = (sid, m, td)) (db_states d)")
  case None
  then have "\<not> row_exists (\<lambda>r. state_key r = (sid, m, td)) (db_states d)" by (simp add: select_one_None)
  with None show ?thesis
    by (simp add: stored_row_def attempts_def load_strategy_state_def save_strategy_state_def Let_def
        select_one_insert state_key_def)
next
  case (Some row)
  then have "row_exists (\<lambda>r. state_key r = (sid, m, td)) (db_states d)"
    using select_one_None option.distinct(1) by metis
  moreover have "state_key row = (sid, m, td)" using select_one_Some [OF Some] by simp
  ultimately show ?thesis using Some
    by (simp add: stored_row_def attempts_def load_strategy_state_def save_strategy_state_def Let_def
        select_one_update state_key_def)
qed

section \<open>The life of a strategy-day\<close>

text \<open>
  What happens to an authority and its database over a day: questions,
  completions, other writes that leave the square-off columns alone, and
  restarts, which build a new authority from the database.
\<close>

definition same_day :: "persisted_authority \<Rightarrow> persisted_authority \<Rightarrow> bool" where
  "same_day a b = (pa_strategy_id a = pa_strategy_id b \<and> pa_mode a = pa_mode b \<and> pa_trading_date a = pa_trading_date b)"

definition row_of :: "persisted_authority \<Rightarrow> db \<Rightarrow> (string \<times> int) option" where
  "row_of a d = stored_row (pa_strategy_id a) (pa_mode a) (pa_trading_date a) d"

inductive process_step :: "persisted_authority \<times> db \<Rightarrow> persisted_authority \<times> db \<Rightarrow> bool" where
  ps_due: "due now ts st = (r, st') \<Longrightarrow> process_step st st'"
| ps_completed: "process_step st (completed now ts st)"
| ps_other: "row_of a d' = row_of a d \<Longrightarrow> process_step (a, d) (a, d')"

inductive day_step :: "persisted_authority \<times> db \<Rightarrow> persisted_authority \<times> db \<Rightarrow> bool" where
  ds_process: "process_step st st' \<Longrightarrow> day_step st st'"
| ds_restart: "day_step (a, d)
     (new_persisted_authority policy rt (pa_strategy_id a) (pa_mode a) (pa_trading_date a) expiry d, d)"

inductive_cases day_stepE: "day_step (a, d) (a', d')"

text \<open>A completed authority is one whose row says so, and the other way round.\<close>

definition completed_ok :: "persisted_authority \<times> db \<Rightarrow> bool" where
  "completed_ok st = (pa_state (fst st) = SO_COMPLETED \<longrightarrow>
     (\<exists>n. row_of (fst st) (snd st) = Some (state_value SO_COMPLETED, n)))"

lemma process_step_frame:
  "process_step st st' \<Longrightarrow> same_day (fst st) (fst st') \<and> pa_policy (fst st') = pa_policy (fst st)
     \<and> pa_expiry (fst st') = pa_expiry (fst st)"
  by (induction rule: process_step.induct)
    (auto simp: due_def completed_def save_state_def same_day_def split: prod.splits sum.splits if_splits)

lemma due_completed: "pa_state a = SO_COMPLETED \<Longrightarrow> due now ts (a, d) = (Inr False, (a, d))"
  by (simp add: due_def trigger_at_def)

lemma day_step_completed:
  assumes "day_step st st'" "pa_state (fst st) = SO_COMPLETED" "completed_ok st"
  shows "pa_state (fst st') = SO_COMPLETED \<and> completed_ok st'"
  using assms
proof (induction rule: day_step.induct)
  case (ds_process st st')
  then show ?case
  proof (induction rule: process_step.induct)
    case (ps_due now ts st r st')
    then show ?case using due_completed by (cases st) auto
  next
    case (ps_completed st now ts)
    then show ?case by (cases st) (simp add: completed_def)
  qed (simp add: completed_ok_def)
next
  case (ds_restart a d policy rt expiry)
  then show ?case
    by (auto simp: completed_ok_def row_of_def new_persisted_authority_def load_state_row)
qed

lemma completed_completes:
  assumes "completed_ok (a, d)"
  shows "pa_state (fst (completed now ts (a, d))) = SO_COMPLETED \<and> completed_ok (completed now ts (a, d))"
  using assms by (auto simp: completed_def completed_ok_def save_state_def row_of_def stored_row_saved)

lemma new_authority_ok: "completed_ok (new_persisted_authority p rt sid m td e d, d)"
  by (auto simp: completed_ok_def new_persisted_authority_def load_state_row row_of_def
      state_of_value_def find_Some_iff split: option.splits if_splits)

lemma process_step_ok: "process_step st st' \<Longrightarrow> completed_ok st \<Longrightarrow> completed_ok st'"
proof (induction rule: process_step.induct)
  case (ps_due now ts st r st')
  obtain a d where st: "st = (a, d)" by fastforce
  show ?case
  proof (cases "pa_state a = SO_COMPLETED")
    case True
    with ps_due st due_completed show ?thesis by auto
  next
    case False
    with ps_due st have "pa_state (fst st') \<noteq> SO_COMPLETED"
      by (auto simp: due_def save_state_def split: sum.splits if_splits)
    then show ?thesis by (simp add: completed_ok_def)
  qed
next
  case (ps_completed st now ts)
  then show ?case using completed_completes by (cases st) blast
qed (simp add: completed_ok_def)

text \<open>Writes of one process: the attempt and the completion, once each.\<close>

definition writes_ok :: "persisted_authority \<Rightarrow> bool" where
  "writes_ok a =
     (pa_writes a \<le> (if pa_attempt_recorded a then 1 else 0) + (if pa_state a = SO_COMPLETED then 1 else 0))"

lemma process_step_writes: "process_step st st' \<Longrightarrow> writes_ok (fst st) \<Longrightarrow> writes_ok (fst st')"
  by (induction rule: process_step.induct)
    (auto simp: due_def completed_def save_state_def writes_ok_def split: prod.splits sum.splits if_splits)

lemma process_steps_writes: "process_step\<^sup>*\<^sup>* st st' \<Longrightarrow> writes_ok (fst st) \<Longrightarrow> writes_ok (fst st')"
  by (induction rule: rtranclp_induct) (auto intro: process_step_writes)

lemma process_steps_attempts:
  assumes "process_step\<^sup>*\<^sup>* st st'"
  shows "(case row_of (fst st') (snd st') of None \<Rightarrow> 0 | Some (v, n) \<Rightarrow> n) + int (pa_writes (fst st))
     = (case row_of (fst st) (snd st) of None \<Rightarrow> 0 | Some (v, n) \<Rightarrow> n) + int (pa_writes (fst st'))"
  using assms
proof (induction rule: rtranclp_induct)
  case (step st1 st2)
  have "(case row_of (fst st2) (snd st2) of None \<Rightarrow> 0 | Some (v, n) \<Rightarrow> n) + int (pa_writes (fst st1))
     = (case row_of (fst st1) (snd st1) of None \<Rightarrow> 0 | Some (v, n) \<Rightarrow> n) + int (pa_writes (fst st2))"
    using step(2)
    by (induction rule: process_step.induct)
      (auto simp: due_def completed_def save_state_def row_of_def stored_row_saved attempts_def
        split: prod.splits sum.splits if_splits)
  with step(3) show ?case by linarith
qed simp

section \<open>A worked day\<close>

text \<open>A policy authority on the example database, 2026-08-03 being day 20668.\<close>

definition so_time :: "int \<Rightarrow> int \<Rightarrow> datetime" where
  "so_time h m = combine 20668 (time_of h m 0) ist"

definition so_authority :: "db \<Rightarrow> persisted_authority" where
  "so_authority d = new_persisted_authority default_policy ''intraday_options'' ''ema_cross'' PAPER
     ''2026-08-03'' None d"

lemma so_aware [simp]: "aware (so_time h m)"
  by (simp add: so_time_def combine_def aware_def)

lemma so_fresh: "completed_ok (so_authority d, d)"
  unfolding so_authority_def by (rule new_authority_ok)

section \<open>Properties\<close>

text \<open>The answers of the authority to the ticks of a process.\<close>

fun due_all :: "(datetime \<times> datetime) list \<Rightarrow> persisted_authority \<times> db \<Rightarrow> bool result list \<times> (persisted_authority \<times> db)" where
  "due_all [] st = ([], st)"
| "due_all ((now, ts) # xs) st =
     (case due now ts st of (r, st1) \<Rightarrow> (case due_all xs st1 of (rs, st2) \<Rightarrow> (r # rs, st2)))"

lemma due_all_ask: "due_all xs st = persisted.ask_all xs st"
  by (induction xs st rule: due_all.induct) (auto split: prod.splits)

lemma due_all_steps: "due_all xs st = (rs, st') \<Longrightarrow> process_step\<^sup>*\<^sup>* st st'"
proof (induction xs st arbitrary: rs rule: due_all.induct)
  case (2 now ts xs st)
  obtain r st1 where d: "due now ts st = (r, st1)" by (cases "due now ts st")
  then obtain rs1 where l: "due_all xs st1 = (rs1, st')" using 2(2) by (auto split: prod.splits)
  have "process_step\<^sup>*\<^sup>* st1 st'" using 2(1) [OF d [symmetric] l] .
  then show ?case using ps_due [OF d] by (rule converse_rtranclp_into_rtranclp [rotated])
qed simp

text \<open>C13: square-off is retried until it is done.  Once the persisted authority answers yes
  to a tick, it answers yes to every later tick of that local day until its
  completion is recorded, however often the close fails in between, and asking
  writes the row at most once.\<close>

theorem square_off_retried_until_completed:
  assumes "pa_state a \<noteq> SO_COMPLETED" "due_all xs (a, d) = (rs, (a', d'))"
    and "i < j" "j < length xs" "rs ! i = Inr True"
    and "\<forall>x \<in> set xs. aware (snd x) \<and> local_date_in (snd x) (sp_timezone (pa_policy a)) = Inr day"
    and "sorted_wrt (\<lambda>x y. instant (snd x) \<le> instant (snd y)) xs"
    and "\<not> pa_attempt_recorded a" "pa_writes a = 0"
  shows "rs ! j = Inr True \<and> pa_writes a' \<le> 1"
proof -
  have ar: "persisted_armed (a, d)" using assms(1) by (simp add: persisted_armed_def)
  have l: "persisted.ask_all xs (a, d) = (rs, (a', d'))" using assms(2) by (simp add: due_all_ask)
  have "rs ! j = Inr True" by (rule persisted.asked_until_done [OF ar l assms(3-5) _ assms(7), where d = day])
      (use assms(6) in \<open>simp only: fst_conv\<close>)
  moreover have "writes_ok a'" using process_steps_writes [OF due_all_steps [OF assms(2)]] assms(8,9)
    by (simp add: writes_ok_def)
  moreover have "pa_state a' \<noteq> SO_COMPLETED"
    using persisted.ask_all_decides [OF l] ar by (simp add: persisted_armed_def)
  ultimately show ?thesis by (simp add: writes_ok_def split: if_splits)
qed

theorem square_off_retried_until_completed_witness:
  "fst (due_all [(so_time 15 16, so_time 15 16), (so_time 15 17, so_time 15 17)] (so_authority day_start, day_start)) ! 1
     = Inr True"
proof -
  let ?xs = "[(so_time 15 16, so_time 15 16), (so_time 15 17, so_time 15 17)]"
  let ?r = "due_all ?xs (so_authority day_start, day_start)"
  have run: "due_all ?xs (so_authority day_start, day_start) = (fst ?r, (fst (snd ?r), snd (snd ?r)))" by simp
  have p: "pa_state (so_authority day_start) \<noteq> SO_COMPLETED" "fst ?r ! 0 = Inr True"
    "\<not> pa_attempt_recorded (so_authority day_start)" "pa_writes (so_authority day_start) = 0"
    "sorted_wrt (\<lambda>x y. instant (snd x) \<le> instant (snd y)) ?xs"
    by code_simp+
  have d: "\<forall>x \<in> set ?xs. aware (snd x)
      \<and> local_date_in (snd x) (sp_timezone (pa_policy (so_authority day_start))) = Inr 20668"
    by code_simp
  show ?thesis
    using square_off_retried_until_completed [OF p(1) run _ _ p(2) d p(5) p(3,4), of 1] by simp
qed

text \<open>C14: a completed square-off is final for the strategy-day.  After completion, through any
  questions, writes that leave the square-off columns alone, further
  completions and restarts with whatever policy, the authority never answers
  yes again and asking it changes nothing.\<close>

theorem completed_day_is_final:
  assumes "completed_ok (a, d)" "day_step\<^sup>*\<^sup>* (completed now ts (a, d)) (a2, d2)"
  shows "due now2 ts2 (a2, d2) = (Inr False, (a2, d2))"
proof -
  from assms(2) have "pa_state (fst (a2, d2)) = SO_COMPLETED \<and> completed_ok (a2, d2)"
    by (induction rule: rtranclp_induct) (use completed_completes [OF assms(1)] day_step_completed in blast)+
  then show ?thesis by (simp add: due_completed)
qed

theorem completed_day_is_final_witness:
  "let d1 = snd (completed (so_time 15 16) (so_time 15 16) (so_authority day_start, day_start))
   in fst (due (so_time 15 25) (so_time 15 25) (so_authority d1, d1)) = Inr False"
proof -
  let ?c = "completed (so_time 15 16) (so_time 15 16) (so_authority day_start, day_start)"
  have "pa_strategy_id (fst ?c) = ''ema_cross''" "pa_mode (fst ?c) = PAPER"
    "pa_trading_date (fst ?c) = ''2026-08-03''" by code_simp+
  then have "day_step (fst ?c, snd ?c) (so_authority (snd ?c), snd ?c)"
    using ds_restart [of "fst ?c" "snd ?c" default_policy "''intraday_options''" None]
    by (simp add: so_authority_def)
  then have "day_step\<^sup>*\<^sup>* ?c (so_authority (snd ?c), snd ?c)" by auto
  from completed_day_is_final [OF so_fresh this] show ?thesis by (simp add: Let_def)
qed

text \<open>An unfinished square-off is not forgotten.  If the authority answered yes and the
  process died before completing, a new process with the same policy, whatever
  else was written to the database, answers yes at every later moment of the
  local day and records one more attempt.\<close>

theorem unfinished_square_off_retried_after_restart:
  assumes "completed_ok (a, d)" "due now ts (a, d) = (Inr True, (a1, d1))"
    and "row_of a1 d2 = Some (state_value SO_IN_PROGRESS, n)"
    and "aware ts2" "ts \<le> ts2"
    and "local_date_in ts2 (sp_timezone (pa_policy a)) = local_date_in ts (sp_timezone (pa_policy a))"
  shows "\<exists>a3 d3. due now2 ts2 (new_persisted_authority (pa_policy a) rt (pa_strategy_id a) (pa_mode a)
        (pa_trading_date a) (pa_expiry a) d2, d2) = (Inr True, (a3, d3))
    \<and> row_of a3 d3 = Some (state_value SO_IN_PROGRESS, n + 1)"
proof -
  let ?b = "new_persisted_authority (pa_policy a) rt (pa_strategy_id a) (pa_mode a) (pa_trading_date a) (pa_expiry a) d2"
  have same: "pa_strategy_id a1 = pa_strategy_id a" "pa_mode a1 = pa_mode a" "pa_trading_date a1 = pa_trading_date a"
    using process_step_frame [OF ps_due [OF assms(2)]] by (simp_all add: same_day_def)
  have row: "stored_row (pa_strategy_id a) (pa_mode a) (pa_trading_date a) d2 = Some (state_value SO_IN_PROGRESS, n)"
    using assms(3) same by (simp add: row_of_def)
  then have b: "pa_state ?b = SO_PENDING" by (simp add: new_persisted_authority_def load_state_row)
  have "trigger_at (pa_policy a) ts (pa_state a) (pa_expiry a) = Inr TR_SQUARE_OFF"
    using assms(2) by (auto simp: due_def split: sum.splits if_splits)
  from trigger_square_off_stays [OF this assms(4) _ assms(6)] assms(5)
  have t: "trigger_at (pa_policy a) ts2 (pa_state a) (pa_expiry a) = Inr TR_SQUARE_OFF" by (simp add: datetime_order)
  have "trigger_at (pa_policy a) ts2 SO_PENDING (pa_expiry a) = Inr TR_SQUARE_OFF"
    using t by (cases "pa_state a") (simp_all add: trigger_at_def)
  then show ?thesis using b row
    by (simp add: due_def new_persisted_authority_def save_state_def row_of_def stored_row_saved attempts_def)
qed

theorem unfinished_square_off_retried_after_restart_witness:
  "let st = snd (due (so_time 15 16) (so_time 15 16) (so_authority day_start, day_start))
   in \<exists>a3 d3. due (so_time 15 20) (so_time 15 20) (so_authority (snd st), snd st) = (Inr True, (a3, d3))
        \<and> row_of a3 d3 = Some (''IN_PROGRESS'', 2)"
proof -
  let ?r = "due (so_time 15 16) (so_time 15 16) (so_authority day_start, day_start)"
  have "fst ?r = Inr True" by code_simp
  then have run: "due (so_time 15 16) (so_time 15 16) (so_authority day_start, day_start)
      = (Inr True, (fst (snd ?r), snd (snd ?r)))" by (metis surjective_pairing)
  have row: "row_of (fst (snd ?r)) (snd (snd ?r)) = Some (state_value SO_IN_PROGRESS, 1)" by code_simp
  have o: "so_time 15 16 \<le> so_time 15 20"
    "local_date_in (so_time 15 20) (sp_timezone (pa_policy (so_authority day_start)))
       = local_date_in (so_time 15 16) (sp_timezone (pa_policy (so_authority day_start)))" by code_simp+
  have f: "pa_policy (so_authority day_start) = default_policy" "pa_strategy_id (so_authority day_start) = ''ema_cross''"
    "pa_mode (so_authority day_start) = PAPER" "pa_trading_date (so_authority day_start) = ''2026-08-03''"
    "pa_expiry (so_authority day_start) = None" by (simp_all add: so_authority_def new_persisted_authority_def)
  show ?thesis
    using unfinished_square_off_retried_after_restart [OF so_fresh run row so_aware o,
        of "so_time 15 20" "''intraday_options''"]
    unfolding f so_authority_def [symmetric] by (simp add: Let_def state_value_def)
qed

text \<open>One process writes the row at most twice, and the stored attempt count grows by exactly its writes.\<close>

theorem at_most_two_square_off_writes:
  assumes "process_step\<^sup>*\<^sup>* (new_persisted_authority p rt sid m td e d, d) (a', d')"
  shows "pa_writes a' \<le> 2
    \<and> (case row_of a' d' of None \<Rightarrow> 0 | Some (v, n) \<Rightarrow> n) = attempts sid m td d + int (pa_writes a')"
proof -
  have "writes_ok (new_persisted_authority p rt sid m td e d)"
    by (simp add: writes_ok_def new_persisted_authority_def)
  from process_steps_writes [OF assms] this have "writes_ok a'" by simp
  then show ?thesis using process_steps_attempts [OF assms]
    by (auto simp: writes_ok_def row_of_def attempts_def new_persisted_authority_def split: if_splits)
qed

text \<open>
  A completion recorded early, by a shutdown request at 11:00 that the engine
  honours by closing its book, disarms the day: a process started at 11:30 that
  trades again is never told to square off, at 15:20 or at any other time.
\<close>

theorem early_completion_disarms:
  "let d1 = snd (completed (so_time 11 0) (so_time 11 0) (so_authority day_start, day_start))
   in (\<forall>ts. fst (due ts ts (so_authority d1, d1)) = Inr False)"
proof -
  let ?d = "snd (completed (so_time 11 0) (so_time 11 0) (so_authority day_start, day_start))"
  have "pa_state (so_authority ?d) = SO_COMPLETED" by code_simp
  then show ?thesis by (simp add: Let_def due_completed)
qed

end
