(* ===== verification/Candles.thy ===== *)
theory Candles
  imports Models
begin

text \<open>
  common/candles: the hub's aggregator (aggregator.py) and the engine's builder
  (builder.py).  A bar's identity is the instant its interval starts, which is
  how aware datetimes compare and hash.  The dictionary of open bars is an
  association list; the generator flush is modelled drained to its end or to
  the exception that ends it.
\<close>

definition floor_to_interval :: "datetime \<Rightarrow> int \<Rightarrow> datetime result" where
  "floor_to_interval moment interval_seconds =
     (if interval_seconds \<le> 0 then Inl ValueError
      else
        let midnight = dt_date moment * day_us;
            elapsed = (wall moment - midnight) div second
        in Inr (DT (midnight + (elapsed div interval_seconds) * interval_seconds * second) (utcoffset moment)))"

section \<open>The aggregator of the feed hub\<close>

record session_window =
  sw_start :: tod
  sw_end :: tod
  sw_timezone :: tz

definition default_session_window :: session_window where
  "default_session_window =
     \<lparr>sw_start = 9 * hour + 15 * minute, sw_end = 15 * hour + 30 * minute, sw_timezone = ist\<rparr>"

definition contains :: "session_window \<Rightarrow> datetime \<Rightarrow> bool" where
  "contains w moment =
     (let local = dt_time (astimezone (sw_timezone w) moment) in sw_start w \<le> local \<and> local < sw_end w)"

record agg_bar =
  ab_security_id :: string
  ab_instrument :: string
  ab_start_at :: datetime
  ab_end_at :: datetime
  ab_open :: money
  ab_high :: money
  ab_low :: money
  ab_close :: money
  ab_volume :: int
  ab_tick_count :: int
  ab_last_tick_at :: "datetime option"
  ab_spans_feed_gap :: bool

definition absorb :: "tick \<Rightarrow> agg_bar \<Rightarrow> agg_bar" where
  "absorb t b =
     b\<lparr>ab_high := max (ab_high b) (tk_last_price t), ab_low := min (ab_low b) (tk_last_price t),
       ab_close := tk_last_price t, ab_volume := ab_volume b + tk_last_quantity t,
       ab_tick_count := ab_tick_count b + 1, ab_last_tick_at := Some (tk_exchange_time t)\<rparr>"

definition freeze :: "agg_bar \<Rightarrow> candle result" where
  "freeze b = new_candle
     \<lparr>cd_security_id = ab_security_id b, cd_instrument = ab_instrument b, cd_open = ab_open b,
      cd_high = ab_high b, cd_low = ab_low b, cd_close = ab_close b, cd_volume = ab_volume b,
      cd_start_at = ab_start_at b, cd_end_at = ab_end_at b, cd_tick_count = ab_tick_count b,
      cd_last_tick_at = ab_last_tick_at b, cd_spans_gap = False\<rparr>"

record aggregator =
  ag_interval_seconds :: int
  ag_session :: session_window
  ag_open_bars :: "(string, agg_bar) dict"
  ag_published :: "(string \<times> int) list"
  ag_rejected_out_of_session :: nat
  ag_rejected_late :: nat
  ag_dropped_gap_candles :: nat

definition new_aggregator :: "int \<Rightarrow> session_window \<Rightarrow> aggregator" where
  "new_aggregator interval_seconds session =
     \<lparr>ag_interval_seconds = interval_seconds, ag_session = session, ag_open_bars = [], ag_published = [],
      ag_rejected_out_of_session = 0, ag_rejected_late = 0, ag_dropped_gap_candles = 0\<rparr>"

definition new_agg_bar :: "tick \<Rightarrow> datetime \<Rightarrow> datetime \<Rightarrow> agg_bar" where
  "new_agg_bar t start_at end_at =
     \<lparr>ab_security_id = tk_security_id t, ab_instrument = tk_instrument t, ab_start_at = start_at,
      ab_end_at = end_at, ab_open = tk_last_price t, ab_high = tk_last_price t, ab_low = tk_last_price t,
      ab_close = tk_last_price t, ab_volume = tk_last_quantity t, ab_tick_count = 1,
      ab_last_tick_at = Some (tk_exchange_time t), ab_spans_feed_gap = False\<rparr>"

definition complete_bar :: "agg_bar \<Rightarrow> aggregator \<Rightarrow> candle option result \<times> aggregator" where
  "complete_bar b a =
     (let key = (ab_security_id b, instant (ab_start_at b)) in
      if key \<in> set (ag_published a) then (Inl RuntimeError, a)
      else
        let a1 = a\<lparr>ag_published := key # ag_published a\<rparr> in
        if ab_spans_feed_gap b then (Inr None, a1\<lparr>ag_dropped_gap_candles := ag_dropped_gap_candles a1 + 1\<rparr>)
        else case freeze b of Inl e \<Rightarrow> (Inl e, a1) | Inr c \<Rightarrow> (Inr (Some c), a1))"

definition add_tick :: "tick \<Rightarrow> aggregator \<Rightarrow> candle option result \<times> aggregator" where
  "add_tick t a =
     (let moment = astimezone (sw_timezone (ag_session a)) (tk_exchange_time t) in
      if \<not> contains (ag_session a) moment
      then (Inr None, a\<lparr>ag_rejected_out_of_session := ag_rejected_out_of_session a + 1\<rparr>)
      else case floor_to_interval moment (ag_interval_seconds a) of
        Inl e \<Rightarrow> (Inl e, a)
      | Inr bucket_start \<Rightarrow>
          let bucket_end = dt_add bucket_start (ag_interval_seconds a * second);
              put = (\<lambda>b a. a\<lparr>ag_open_bars := dict_set (tk_security_id t) b (ag_open_bars a)\<rparr>)
          in case dict_get (ag_open_bars a) (tk_security_id t) of
               None \<Rightarrow> (Inr None, put (new_agg_bar t bucket_start bucket_end) a)
             | Some current \<Rightarrow>
                 if instant bucket_start = instant (ab_start_at current)
                 then (Inr None, put (absorb t current) a)
                 else if bucket_start < ab_start_at current
                 then (Inr None, a\<lparr>ag_rejected_late := ag_rejected_late a + 1\<rparr>)
                 else case complete_bar current a of
                   (Inl e, a1) \<Rightarrow> (Inl e, a1)
                 | (Inr c, a1) \<Rightarrow> (Inr c, put (new_agg_bar t bucket_start bucket_end) a1))"

fun mark_gaps :: "string list \<Rightarrow> aggregator \<Rightarrow> nat \<times> aggregator" where
  "mark_gaps [] a = (0, a)"
| "mark_gaps (k # ks) a =
     (case dict_get (ag_open_bars a) k of
        None \<Rightarrow> mark_gaps ks a
      | Some b \<Rightarrow>
          (case mark_gaps ks (a\<lparr>ag_open_bars := dict_set k (b\<lparr>ab_spans_feed_gap := True\<rparr>) (ag_open_bars a)\<rparr>) of
             (n, a1) \<Rightarrow> (n + 1, a1)))"

definition mark_feed_gap :: "string option \<Rightarrow> aggregator \<Rightarrow> nat \<times> aggregator" where
  "mark_feed_gap security_id a =
     mark_gaps (case security_id of None \<Rightarrow> map fst (ag_open_bars a) | Some k \<Rightarrow> [k]) a"

fun flush_keys :: "string list \<Rightarrow> aggregator \<Rightarrow> candle list \<times> exn option \<times> aggregator" where
  "flush_keys [] a = ([], None, a)"
| "flush_keys (k # ks) a =
     (case dict_get (ag_open_bars a) k of
        None \<Rightarrow> flush_keys ks a
      | Some b \<Rightarrow>
          (case complete_bar b (a\<lparr>ag_open_bars := dict_pop k (ag_open_bars a)\<rparr>) of
             (Inl e, a1) \<Rightarrow> ([], Some e, a1)
           | (Inr None, a1) \<Rightarrow> flush_keys ks a1
           | (Inr (Some c), a1) \<Rightarrow> (case flush_keys ks a1 of (cs, e, a2) \<Rightarrow> (c # cs, e, a2))))"

definition flush :: "string option \<Rightarrow> aggregator \<Rightarrow> candle list \<times> exn option \<times> aggregator" where
  "flush security_id a =
     flush_keys (case security_id of None \<Rightarrow> map fst (ag_open_bars a) | Some k \<Rightarrow> [k]) a"

section \<open>The builder of the engine\<close>

record builder_bar =
  bb_start_at :: datetime
  bb_open :: money
  bb_high :: money
  bb_low :: money
  bb_close :: money
  bb_volume :: rat
  bb_tick_count :: int
  bb_last_tick_at :: datetime
  bb_spans_gap :: bool

record candle_builder =
  cb_interval :: int
  cb_security_id :: string
  cb_instrument :: string
  cb_current :: "builder_bar option"

definition new_candle_builder :: "int \<Rightarrow> string \<Rightarrow> string \<Rightarrow> candle_builder result" where
  "new_candle_builder interval_minutes security_id instrument =
     (if interval_minutes \<le> 0 then Inl ValueError
      else Inr \<lparr>cb_interval = interval_minutes, cb_security_id = security_id, cb_instrument = instrument,
                cb_current = None\<rparr>)"

definition absorb_price :: "money \<Rightarrow> datetime \<Rightarrow> rat \<Rightarrow> builder_bar \<Rightarrow> builder_bar" where
  "absorb_price price ts volume_delta b =
     b\<lparr>bb_high := max (bb_high b) price, bb_low := min (bb_low b) price, bb_close := price,
       bb_volume := bb_volume b + volume_delta, bb_tick_count := bb_tick_count b + 1,
       bb_last_tick_at := ts\<rparr>"

definition new_builder_bar :: "datetime \<Rightarrow> money \<Rightarrow> datetime \<Rightarrow> rat \<Rightarrow> builder_bar" where
  "new_builder_bar start_at price ts volume =
     \<lparr>bb_start_at = start_at, bb_open = price, bb_high = price, bb_low = price, bb_close = price,
      bb_volume = volume, bb_tick_count = 1, bb_last_tick_at = ts, bb_spans_gap = False\<rparr>"

definition retarget :: "string \<Rightarrow> string \<Rightarrow> candle_builder \<Rightarrow> candle_builder" where
  "retarget security_id instrument b =
     b\<lparr>cb_security_id := security_id, cb_instrument := (if instrument = [] then security_id else instrument),
       cb_current := None\<rparr>"

definition reset_builder :: "candle_builder \<Rightarrow> candle_builder" where
  "reset_builder b = b\<lparr>cb_current := None\<rparr>"

definition candle_end :: "datetime \<Rightarrow> int \<Rightarrow> datetime" where
  "candle_end start interval_minutes = dt_add start (interval_minutes * minute)"

definition freeze_bar :: "builder_bar \<Rightarrow> candle_builder \<Rightarrow> candle result" where
  "freeze_bar bar b = new_candle
     \<lparr>cd_security_id = cb_security_id b,
      cd_instrument = (if cb_instrument b = [] then cb_security_id b else cb_instrument b),
      cd_open = bb_open bar, cd_high = bb_high bar, cd_low = bb_low bar, cd_close = bb_close bar,
      cd_volume = round_int (bb_volume bar), cd_start_at = bb_start_at bar,
      cd_end_at = dt_add (bb_start_at bar) (cb_interval b * minute), cd_tick_count = bb_tick_count bar,
      cd_last_tick_at = Some (bb_last_tick_at bar), cd_spans_gap = bb_spans_gap bar\<rparr>"

definition add_price :: "money \<Rightarrow> datetime \<Rightarrow> rat \<Rightarrow> candle_builder \<Rightarrow> candle option result \<times> candle_builder" where
  "add_price price ts volume_delta b =
     (if volume_delta < 0 then (Inl ValueError, b)
      else case floor_to_interval ts (cb_interval b * 60) of
        Inl e \<Rightarrow> (Inl e, b)
      | Inr bucket \<Rightarrow>
          (case cb_current b of
             None \<Rightarrow> (Inr None, b\<lparr>cb_current := Some (new_builder_bar bucket price ts volume_delta)\<rparr>)
           | Some current \<Rightarrow>
               (case floor_to_interval (bb_last_tick_at current) (cb_interval b * 60) of
                  Inl e \<Rightarrow> (Inl e, b)
                | Inr previous_bucket \<Rightarrow>
                    let gapped = (cb_interval b * minute < dt_diff bucket previous_bucket) in
                    if bb_start_at current < bucket then
                      let marked = current\<lparr>bb_spans_gap := bb_spans_gap current \<or> gapped\<rparr> in
                      (case freeze_bar marked b of
                         Inl e \<Rightarrow> (Inl e, b\<lparr>cb_current := Some marked\<rparr>)
                       | Inr completed \<Rightarrow>
                           (Inr (Some completed),
                            b\<lparr>cb_current := Some (new_builder_bar bucket price ts volume_delta)\<rparr>))
                    else (Inr None, b\<lparr>cb_current := Some (absorb_price price ts volume_delta current)\<rparr>))))"

definition flush_builder :: "candle_builder \<Rightarrow> candle option result \<times> candle_builder" where
  "flush_builder b =
     (case cb_current b of
        None \<Rightarrow> (Inr None, b\<lparr>cb_current := None\<rparr>)
      | Some bar \<Rightarrow> (map_sum id Some (freeze_bar bar b), b\<lparr>cb_current := None\<rparr>))"

record ohlc =
  oh_high :: money
  oh_low :: money
  oh_close :: money
  oh_open :: "money option"
  oh_volume :: "rat option"
  oh_start :: "datetime option"
  oh_spans_gap :: bool

definition to_ohlc :: "candle \<Rightarrow> ohlc" where
  "to_ohlc c =
     \<lparr>oh_high = cd_high c, oh_low = cd_low c, oh_close = cd_close c, oh_open = Some (cd_open c),
      oh_volume = Some (of_int (cd_volume c)), oh_start = Some (cd_start_at c),
      oh_spans_gap = cd_spans_gap c\<rparr>"

section \<open>Bars as runs of ticks\<close>

text \<open>The reference: group consecutive ticks of one interval.\<close>

definition extend_runs :: "('a \<Rightarrow> int) \<Rightarrow> 'a list list \<Rightarrow> 'a \<Rightarrow> 'a list list" where
  "extend_runs k gs x =
     (if gs \<noteq> [] \<and> k (hd (last gs)) = k x then butlast gs @ [last gs @ [x]] else gs @ [[x]])"

definition runs :: "('a \<Rightarrow> int) \<Rightarrow> 'a list \<Rightarrow> 'a list list" where
  "runs k xs = foldl (extend_runs k) [] xs"

lemma runs_simps [simp]:
  "runs k [] = []" "runs k (xs @ [x]) = extend_runs k (runs k xs) x"
  by (simp_all add: runs_def)

lemma runs_eq_Nil [simp]: "runs k xs = [] \<longleftrightarrow> xs = []"
  by (induction xs rule: rev_induct) (simp_all add: extend_runs_def)

text \<open>Grouping loses nothing, no group is empty and a group has one key.\<close>

lemma runs_single [simp]: "runs k [x] = [[x]]"
  by (simp add: runs_def extend_runs_def)

definition one_key :: "('a \<Rightarrow> int) \<Rightarrow> 'a list \<Rightarrow> bool" where
  "one_key k g = (k ` set g = {k (hd g)})"

lemma one_key_single [simp]: "one_key k [x]"
  by (simp add: one_key_def)

lemma one_key_snoc: "one_key k g \<Longrightarrow> k x = k (hd g) \<Longrightarrow> one_key k (g @ [x])"
  by (cases g) (simp_all add: one_key_def)

lemma runs_spec: "concat (runs k xs) = xs \<and> (\<forall>g \<in> set (runs k xs). one_key k g)"
proof (induction xs rule: rev_induct)
  case (snoc x xs)
  show ?case
  proof (cases "runs k xs" rule: rev_cases)
    case Nil
    then show ?thesis by (simp add: extend_runs_def)
  next
    case (snoc gs g)
    then have "concat gs @ g = xs" using \<open>_ \<and> _\<close> by simp
    with snoc \<open>_ \<and> _\<close> show ?thesis by (auto simp: extend_runs_def one_key_snoc)
  qed
qed simp

lemma runs_nonempty: "g \<in> set (runs k xs) \<Longrightarrow> g \<noteq> []"
  using runs_spec [of k xs] by (auto simp: one_key_def)

lemma runs_apart: "successively (\<lambda>g h. k (hd g) \<noteq> k (hd h)) (runs k xs)"
proof (induction xs rule: rev_induct)
  case (snoc x xs)
  show ?case
  proof (cases "runs k xs" rule: rev_cases)
    case Nil
    then show ?thesis by (simp add: extend_runs_def)
  next
    case gs: (snoc gs g)
    have "g \<noteq> []" using runs_nonempty [of g k xs] gs by simp
    with snoc gs show ?thesis by (auto simp: extend_runs_def successively_append_iff)
  qed
qed simp

text \<open>
  What a bar-building loop needs of its bars: the interval of a bar is the one
  of the tick that opened it, and absorbing a tick does not move it.
\<close>

locale bar_accumulator =
  fixes bucket :: "'x \<Rightarrow> int"
    and open_bar :: "'x \<Rightarrow> 'b"
    and absorb_into :: "'x \<Rightarrow> 'b \<Rightarrow> 'b"
    and start :: "'b \<Rightarrow> int"
  assumes start_open: "start (open_bar x) = bucket x"
    and start_absorb: "start (absorb_into x b) = start b"
begin

definition bar_of :: "'x list \<Rightarrow> 'b" where
  "bar_of g = fold absorb_into (tl g) (open_bar (hd g))"

lemma bar_of_single [simp]: "bar_of [x] = open_bar x"
  by (simp add: bar_of_def)

lemma bar_of_snoc [simp]: "g \<noteq> [] \<Longrightarrow> bar_of (g @ [x]) = absorb_into x (bar_of g)"
  by (simp add: bar_of_def)

lemma start_bar_of: "g \<noteq> [] \<Longrightarrow> start (bar_of g) = bucket (hd g)"
  by (induction g rule: rev_induct) (auto simp: start_open start_absorb hd_append)

text \<open>One step of the loop on ticks in order: absorb within the interval, roll over past it.\<close>

definition roll :: "'x \<Rightarrow> 'b list \<times> 'b option \<Rightarrow> 'b list \<times> 'b option" where
  "roll x st =
     (case st of
        (bars, None) \<Rightarrow> (bars, Some (open_bar x))
      | (bars, Some b) \<Rightarrow>
          if bucket x = start b then (bars, Some (absorb_into x b))
          else (bars @ [b], Some (open_bar x)))"

lemma roll_runs:
  "fold roll xs ([], None)
     = (map bar_of (butlast (runs bucket xs)), if xs = [] then None else Some (bar_of (last (runs bucket xs))))"
proof (induction xs rule: rev_induct)
  case (snoc x xs)
  show ?case
  proof (cases "xs = []")
    case True
    then show ?thesis by (simp add: roll_def extend_runs_def)
  next
    case False
    then obtain gs g where gs: "runs bucket xs = gs @ [g]" by (metis append_butlast_last_id runs_eq_Nil)
    have "g \<noteq> []" using runs_nonempty [of g bucket xs] gs by simp
    then show ?thesis using snoc False gs by (simp add: roll_def extend_runs_def start_bar_of butlast_append)
  qed
qed simp

end

section \<open>Interval boundaries\<close>

lemma floor_to_interval_Inr:
  assumes "floor_to_interval m i = Inr f"
  shows "0 < i" "utcoffset f = utcoffset m" "wall f \<le> wall m" "wall m < wall f + i * second"
    "dt_date m * day_us \<le> wall f"
proof -
  show i: "0 < i" "utcoffset f = utcoffset m" using assms by (auto simp: floor_to_interval_def Let_def split: if_splits)
  define e where "e = (wall m - dt_date m * day_us) div second"
  have f: "wall f = dt_date m * day_us + (e div i) * i * second"
    using assms i(1) by (auto simp: floor_to_interval_def Let_def e_def split: if_splits)
  have t: "0 \<le> wall m - dt_date m * day_us" using wall_date_time [of m] dt_time_bounds [of m] by simp
  have e0: "0 \<le> e" using t by (simp add: e_def second_def pos_imp_zdiv_nonneg_iff)
  have e1: "e * second \<le> wall m - dt_date m * day_us" "wall m - dt_date m * day_us < (e + 1) * second"
    unfolding e_def second_def by (simp_all add: algebra_simps)
  have "(e div i) * i + e mod i = e" "0 \<le> e mod i" "e mod i < i" using i(1) by simp_all
  then have "(e div i) * i \<le> e" "e + 1 \<le> (e div i) * i + i" by linarith+
  moreover have "0 \<le> second" by (simp add: second_def)
  ultimately have "(e div i) * i * second \<le> e * second" "(e + 1) * second \<le> ((e div i) * i + i) * second"
    by (auto intro: mult_right_mono)
  moreover have "(e + 1) * second = e * second + second"
    "((e div i) * i + i) * second = (e div i) * i * second + i * second"
    by (simp_all only: distrib_right mult_1)
  ultimately show "wall f \<le> wall m" "wall m < wall f + i * second"
    using f e1 by linarith+
  show "dt_date m * day_us \<le> wall f"
    using f e0 i(1) by (simp add: second_def pos_imp_zdiv_nonneg_iff)
qed

lemma floor_to_interval_mono:
  assumes "floor_to_interval m i = Inr f" "floor_to_interval m' i = Inr f'" "wall m \<le> wall m'"
  shows "wall f \<le> wall f'"
proof (cases "dt_date m = dt_date m'")
  case True
  have i: "0 < i" using floor_to_interval_Inr [OF assms(1)] by simp
  have "(wall m - dt_date m * day_us) div second \<le> (wall m' - dt_date m' * day_us) div second"
    using assms(3) True by (simp add: zdiv_mono1 second_def)
  then have "((wall m - dt_date m * day_us) div second) div i \<le> ((wall m' - dt_date m' * day_us) div second) div i"
    using i by (rule zdiv_mono1)
  then have "((wall m - dt_date m * day_us) div second div i) * (i * second)
      \<le> ((wall m' - dt_date m' * day_us) div second div i) * (i * second)"
    using i by (intro mult_right_mono) (simp_all add: second_def)
  then show ?thesis using assms(1,2) True i by (auto simp: floor_to_interval_def Let_def mult.assoc split: if_splits)
next
  case False
  have "dt_date m \<le> dt_date m'" using assms(3) by (simp add: dt_date_def zdiv_mono1 day_us_def)
  with False have "(dt_date m + 1) * day_us \<le> dt_date m' * day_us" by (simp add: day_us_def)
  moreover have "wall m < (dt_date m + 1) * day_us"
    using wall_date_time [of m] dt_time_bounds [of m] by (simp add: algebra_simps)
  ultimately show ?thesis using floor_to_interval_Inr [OF assms(1)] floor_to_interval_Inr [OF assms(2)] by linarith
qed

lemma floor_to_interval_returns: "0 < i \<Longrightarrow> \<exists>f. floor_to_interval m i = Inr f"
  by (simp add: floor_to_interval_def Let_def)

text \<open>Times of day and ticks for the examples.\<close>

definition at_ist :: "int \<Rightarrow> int \<Rightarrow> int \<Rightarrow> datetime" where
  "at_ist h m s = DT (h * hour + m * minute + s * second) (Some ist)"

definition tick_at :: "string \<Rightarrow> rat \<Rightarrow> datetime \<Rightarrow> tick" where
  "tick_at sid p ts =
     \<lparr>tk_security_id = sid, tk_instrument = ''NIFTY'', tk_last_price = p, tk_exchange_time = ts,
      tk_received_at = ts, tk_last_quantity = 75, tk_bid_price = None, tk_ask_price = None, tk_sequence = None\<rparr>"

end
