(* ===== verification/Candle_Runs.thy ===== *)
theory Candle_Runs
  imports Candles
begin

text \<open>
  What the two candle loops of common/candles publish: the hub's aggregator
  never publishes an interval twice, whatever arrives, and both loops publish
  the runs of ticks of one interval when ticks arrive in order.
\<close>

section \<open>The aggregator never publishes twice\<close>

definition agg_floor :: "int \<Rightarrow> session_window \<Rightarrow> tick \<Rightarrow> datetime" where
  "agg_floor i w t =
     (case floor_to_interval (astimezone (sw_timezone w) (tk_exchange_time t)) i of
        Inr f \<Rightarrow> f | Inl _ \<Rightarrow> tk_exchange_time t)"

definition agg_bucket :: "int \<Rightarrow> session_window \<Rightarrow> tick \<Rightarrow> int" where
  "agg_bucket i w t = instant (agg_floor i w t)"

definition open_agg_bar :: "int \<Rightarrow> session_window \<Rightarrow> tick \<Rightarrow> agg_bar" where
  "open_agg_bar i w t = new_agg_bar t (agg_floor i w t) (dt_add (agg_floor i w t) (i * second))"

interpretation hub: bar_accumulator "agg_bucket i w" "open_agg_bar i w" absorb "\<lambda>b. instant (ab_start_at b)" for i w
  by unfold_locales (simp_all add: open_agg_bar_def new_agg_bar_def agg_bucket_def absorb_def)

definition in_session :: "session_window \<Rightarrow> tick \<Rightarrow> bool" where
  "in_session w t = contains w (tk_exchange_time t)"

definition put_bar :: "string \<Rightarrow> agg_bar \<Rightarrow> aggregator \<Rightarrow> aggregator" where
  "put_bar sid b a = a\<lparr>ag_open_bars := dict_set sid b (ag_open_bars a)\<rparr>"

lemma contains_local [simp]: "contains w (astimezone z m) = contains w m"
  by (simp add: contains_def)

lemma add_tick_cases:
  assumes "0 < ag_interval_seconds a"
  shows "add_tick t a =
    (if \<not> in_session (ag_session a) t
     then (Inr None, a\<lparr>ag_rejected_out_of_session := ag_rejected_out_of_session a + 1\<rparr>)
     else
       let k = agg_bucket (ag_interval_seconds a) (ag_session a) t;
           fresh = open_agg_bar (ag_interval_seconds a) (ag_session a) t; sid = tk_security_id t
       in case dict_get (ag_open_bars a) sid of
            None \<Rightarrow> (Inr None, put_bar sid fresh a)
          | Some b \<Rightarrow>
              if k = instant (ab_start_at b) then (Inr None, put_bar sid (absorb t b) a)
              else if k < instant (ab_start_at b) then (Inr None, a\<lparr>ag_rejected_late := ag_rejected_late a + 1\<rparr>)
              else case complete_bar b a of (Inl e, a1) \<Rightarrow> (Inl e, a1) | (Inr c, a1) \<Rightarrow> (Inr c, put_bar sid fresh a1))"
proof -
  obtain f where "floor_to_interval (astimezone (sw_timezone (ag_session a)) (tk_exchange_time t)) (ag_interval_seconds a)
      = Inr f" using floor_to_interval_returns assms by blast
  then show ?thesis
    by (simp add: add_tick_def in_session_def agg_bucket_def open_agg_bar_def agg_floor_def put_bar_def Let_def
        datetime_order split: option.split sum.split prod.split)
qed

text \<open>A bar the aggregator may hold for an instrument.\<close>

definition bar_wf :: "int \<Rightarrow> string \<Rightarrow> agg_bar \<Rightarrow> bool" where
  "bar_wf i sid b =
     (ab_security_id b = sid \<and> aware (ab_start_at b) \<and> ab_end_at b = dt_add (ab_start_at b) (i * second)
      \<and> ab_low b \<le> ab_open b \<and> ab_open b \<le> ab_high b \<and> ab_low b \<le> ab_close b \<and> ab_close b \<le> ab_high b)"

lemma agg_floor_aware [simp]: "0 < i \<Longrightarrow> aware (agg_floor i w t)"
  using floor_to_interval_returns [of i "astimezone (sw_timezone w) (tk_exchange_time t)"] floor_to_interval_Inr(2)
  by (auto simp: agg_floor_def aware_def astimezone_def)

lemma bar_wf_simps [simp]:
  "0 < i \<Longrightarrow> bar_wf i (tk_security_id t) (open_agg_bar i w t)"
  "bar_wf i sid b \<Longrightarrow> bar_wf i sid (absorb t b)"
  "bar_wf i sid (b\<lparr>ab_spans_feed_gap := x\<rparr>) = bar_wf i sid b"
  by (auto simp: bar_wf_def open_agg_bar_def new_agg_bar_def absorb_def)

lemma freeze_wf:
  assumes "bar_wf i sid b" "0 < i"
  shows "\<exists>c. freeze b = Inr c \<and> candle_ok c \<and> cd_security_id c = sid \<and> cd_start_at c = ab_start_at b
    \<and> cd_end_at c = dt_add (cd_start_at c) (i * second)"
  using assms by (simp add: freeze_def new_candle_Inr bar_wf_def candle_ok_def second_def)

definition starts_of :: "string \<Rightarrow> candle list \<Rightarrow> int list" where
  "starts_of sid cs = map (\<lambda>c. instant (cd_start_at c)) (filter (\<lambda>c. cd_security_id c = sid) cs)"

lemma starts_of_simps [simp]:
  "starts_of sid [] = []"
  "starts_of sid (cs @ ds) = starts_of sid cs @ starts_of sid ds"
  "starts_of sid [c] = (if cd_security_id c = sid then [instant (cd_start_at c)] else [])"
  by (simp_all add: starts_of_def)

text \<open>
  Every published interval of an instrument lies before its open bar, the
  candles out are ordered and well formed.
\<close>

definition agg_inv :: "aggregator \<Rightarrow> candle list \<Rightarrow> bool" where
  "agg_inv a out =
     (0 < ag_interval_seconds a
      \<and> (\<forall>sid b. dict_get (ag_open_bars a) sid = Some b \<longrightarrow> bar_wf (ag_interval_seconds a) sid b)
      \<and> (\<forall>sid x. (sid, x) \<in> set (ag_published a) \<longrightarrow>
           (\<exists>b. dict_get (ag_open_bars a) sid = Some b \<and> x < instant (ab_start_at b)))
      \<and> (\<forall>sid. sorted_wrt (<) (starts_of sid out))
      \<and> (\<forall>sid. \<forall>x \<in> set (starts_of sid out). (sid, x) \<in> set (ag_published a))
      \<and> (\<forall>c \<in> set out. candle_ok c \<and> cd_end_at c = dt_add (cd_start_at c) (ag_interval_seconds a * second)))"

definition opt_list :: "'a option \<Rightarrow> 'a list" where
  "opt_list x = (case x of None \<Rightarrow> [] | Some y \<Rightarrow> [y])"

lemma opt_list_simps [simp]: "opt_list None = []" "opt_list (Some x) = [x]"
  by (simp_all add: opt_list_def)

lemma complete_bar_inv:
  assumes inv: "agg_inv a out" and b: "dict_get (ag_open_bars a) sid = Some b"
    and k: "instant (ab_start_at b) < instant (ab_start_at b')" and wf: "bar_wf (ag_interval_seconds a) sid b'"
  shows "\<exists>c a1. complete_bar b a = (Inr c, a1) \<and> agg_inv (put_bar sid b' a1) (out @ opt_list c)
    \<and> ag_interval_seconds a1 = ag_interval_seconds a \<and> ag_session a1 = ag_session a"
proof -
  let ?i = "ag_interval_seconds a"
  have i: "0 < ?i" and bw: "bar_wf ?i sid b" using inv b by (auto simp: agg_inv_def)
  have sid: "ab_security_id b = sid" using bw by (simp add: bar_wf_def)
  have fresh: "(sid, instant (ab_start_at b)) \<notin> set (ag_published a)"
    using inv b unfolding agg_inv_def by (metis less_irrefl option.inject)
  obtain c where c: "freeze b = Inr c" "candle_ok c" "cd_security_id c = sid" "cd_start_at c = ab_start_at b"
    "cd_end_at c = dt_add (cd_start_at c) (?i * second)" using freeze_wf [OF bw i] by blast
  have below: "x < instant (ab_start_at b)" if "x \<in> set (starts_of sid out)" for x
    using inv b that unfolding agg_inv_def by (metis option.inject)
  show ?thesis
  proof (cases "ab_spans_feed_gap b")
    case True
    then show ?thesis using inv fresh sid b k wf
      by (auto simp: complete_bar_def Let_def agg_inv_def put_bar_def) (metis less_trans option.inject)+
  next
    case False
    then show ?thesis using inv fresh sid b k wf c below
      by (auto simp: complete_bar_def Let_def agg_inv_def put_bar_def sorted_wrt_append) (metis less_trans option.inject)+
  qed
qed

lemma agg_inv_put:
  "agg_inv a out \<Longrightarrow> bar_wf (ag_interval_seconds a) sid b'
    \<Longrightarrow> (\<And>b. dict_get (ag_open_bars a) sid = Some b \<Longrightarrow> instant (ab_start_at b) \<le> instant (ab_start_at b'))
    \<Longrightarrow> agg_inv (put_bar sid b' a) out"
  unfolding agg_inv_def put_bar_def by (simp, metis order.strict_trans2 option.inject)

lemma agg_inv_counts [simp]:
  "agg_inv (a\<lparr>ag_rejected_out_of_session := n\<rparr>) out = agg_inv a out"
  "agg_inv (a\<lparr>ag_rejected_late := n\<rparr>) out = agg_inv a out"
  by (simp_all add: agg_inv_def)

lemma put_bar_fields [simp]:
  "ag_interval_seconds (put_bar sid b a) = ag_interval_seconds a" "ag_session (put_bar sid b a) = ag_session a"
  "ag_published (put_bar sid b a) = ag_published a"
  "dict_get (ag_open_bars (put_bar sid b a)) k = (if k = sid then Some b else dict_get (ag_open_bars a) k)"
  by (simp_all add: put_bar_def)

lemma agg_inv_interval: "agg_inv a out \<Longrightarrow> 0 < ag_interval_seconds a"
  by (simp add: agg_inv_def)

lemma agg_inv_bar: "agg_inv a out \<Longrightarrow> dict_get (ag_open_bars a) sid = Some b \<Longrightarrow> bar_wf (ag_interval_seconds a) sid b"
  by (simp add: agg_inv_def)

lemma open_agg_bar_start [simp]: "instant (ab_start_at (open_agg_bar i w t)) = agg_bucket i w t"
  by (rule hub.start_open)

lemma absorb_start [simp]: "ab_start_at (absorb t b) = ab_start_at b"
  by (simp add: absorb_def)

lemma add_tick_inv:
  assumes inv: "agg_inv a out"
  shows "\<exists>c a1. add_tick t a = (Inr c, a1) \<and> agg_inv a1 (out @ opt_list c)
    \<and> ag_interval_seconds a1 = ag_interval_seconds a \<and> ag_session a1 = ag_session a"
proof (cases "in_session (ag_session a) t")
  case False
  then show ?thesis using inv by (simp add: add_tick_cases [OF agg_inv_interval [OF inv]])
next
  case True
  let ?sid = "tk_security_id t"
  let ?k = "agg_bucket (ag_interval_seconds a) (ag_session a) t"
  have i: "0 < ag_interval_seconds a" using inv by (rule agg_inv_interval)
  note step = add_tick_cases [OF i, of t]
  show ?thesis
  proof (cases "dict_get (ag_open_bars a) ?sid")
    case None
    have "agg_inv (put_bar ?sid (open_agg_bar (ag_interval_seconds a) (ag_session a) t) a) out"
      using None i by (intro agg_inv_put [OF inv]) simp_all
    then show ?thesis using True None by (simp add: step)
  next
    case b: (Some b)
    consider "?k = instant (ab_start_at b)" | "?k < instant (ab_start_at b)" | "instant (ab_start_at b) < ?k"
      by linarith
    then show ?thesis
    proof cases
      case 1
      have "agg_inv (put_bar ?sid (absorb t b) a) out"
        using b agg_inv_bar [OF inv b] by (intro agg_inv_put [OF inv]) simp_all
      then show ?thesis using True b 1 by (simp add: step)
    next
      case 2
      then show ?thesis using True inv b by (simp add: step)
    next
      case 3
      then obtain c a1 where "complete_bar b a = (Inr c, a1)"
        "agg_inv (put_bar ?sid (open_agg_bar (ag_interval_seconds a) (ag_session a) t) a1) (out @ opt_list c)"
        "ag_interval_seconds a1 = ag_interval_seconds a" "ag_session a1 = ag_session a"
        using complete_bar_inv [OF inv b, of "open_agg_bar (ag_interval_seconds a) (ag_session a) t"] i by auto
      then show ?thesis using True 3 b by (simp add: step)
    qed
  qed
qed

lemma mark_gaps_inv: "agg_inv a out \<Longrightarrow> agg_inv (snd (mark_gaps ks a)) out"
proof (induction ks arbitrary: a)
  case (Cons k ks)
  show ?case
  proof (cases "dict_get (ag_open_bars a) k")
    case None
    then show ?thesis using Cons by simp
  next
    case (Some b)
    have "agg_inv (put_bar k (b\<lparr>ab_spans_feed_gap := True\<rparr>) a) out"
      using Cons.prems Some agg_inv_bar [OF Cons.prems Some] by (intro agg_inv_put) simp_all
    then show ?thesis using Cons.IH Some by (simp add: put_bar_def split: prod.split) (metis snd_conv)
  qed
qed simp

text \<open>Everything the hub does to its aggregator between two flushes, in any order.\<close>

inductive agg_run :: "int \<Rightarrow> session_window \<Rightarrow> aggregator \<Rightarrow> candle list \<Rightarrow> bool" for i w where
  agg_created: "agg_run i w (new_aggregator i w) []"
| agg_ticked: "agg_run i w a out \<Longrightarrow> add_tick t a = (Inr c, a') \<Longrightarrow> agg_run i w a' (out @ opt_list c)"
| agg_gapped: "agg_run i w a out \<Longrightarrow> mark_feed_gap sid a = (n, a') \<Longrightarrow> agg_run i w a' out"

inductive_cases agg_run_newE: "agg_run i w a []"

lemma agg_run_inv: "agg_run i w a out \<Longrightarrow> 0 < i \<Longrightarrow> agg_inv a out"
proof (induction rule: agg_run.induct)
  case (agg_ticked a out t c a')
  then show ?case using add_tick_inv [of a out t] by auto
next
  case (agg_gapped a out sid n a')
  then show ?case using mark_gaps_inv [of a out] unfolding mark_feed_gap_def by (metis snd_conv)
qed (simp add: agg_inv_def new_aggregator_def)

text \<open>What a flush of the given keys publishes: each open bar no gap spoiled, once.\<close>

definition bar_out :: "agg_bar option \<Rightarrow> candle result list" where
  "bar_out b = (case b of None \<Rightarrow> [] | Some b \<Rightarrow> if ab_spans_feed_gap b then [] else [freeze b])"

lemma bar_out_simps [simp]:
  "bar_out None = []" "bar_out (Some b) = (if ab_spans_feed_gap b then [] else [freeze b])"
  by (simp_all add: bar_out_def)

definition of_sid :: "string \<Rightarrow> candle list \<Rightarrow> candle list" where
  "of_sid sid cs = filter (\<lambda>c. cd_security_id c = sid) cs"

lemma of_sid_simps [simp]:
  "of_sid sid [] = []" "of_sid sid (c # cs) = (if cd_security_id c = sid then c # of_sid sid cs else of_sid sid cs)"
  "of_sid sid (cs @ ds) = of_sid sid cs @ of_sid sid ds"
  by (simp_all add: of_sid_def)

definition unpublished :: "aggregator \<Rightarrow> string \<Rightarrow> bool" where
  "unpublished a sid =
     (\<forall>b. dict_get (ag_open_bars a) sid = Some b \<longrightarrow>
        bar_wf (ag_interval_seconds a) sid b \<and> (sid, instant (ab_start_at b)) \<notin> set (ag_published a))"

lemma agg_inv_unpublished: "agg_inv a out \<Longrightarrow> unpublished a sid"
  unfolding agg_inv_def unpublished_def by (metis less_irrefl option.inject)

lemma complete_unpublished:
  assumes "unpublished a sid" "dict_get (ag_open_bars a) sid = Some b" "0 < ag_interval_seconds a"
  obtains c a1 where "complete_bar b (a\<lparr>ag_open_bars := dict_pop sid (ag_open_bars a)\<rparr>) = (Inr c, a1)"
    "map Inr (opt_list c) = bar_out (Some b)" "of_sid sid (opt_list c) = opt_list c"
    "ag_interval_seconds a1 = ag_interval_seconds a" "ag_open_bars a1 = dict_pop sid (ag_open_bars a)"
    "ag_published a1 = (sid, instant (ab_start_at b)) # ag_published a"
proof -
  have bw: "bar_wf (ag_interval_seconds a) sid b" and fresh: "(sid, instant (ab_start_at b)) \<notin> set (ag_published a)"
    using assms by (simp_all add: unpublished_def)
  have "ab_security_id b = sid" using bw by (simp add: bar_wf_def)
  moreover obtain c where "freeze b = Inr c" "cd_security_id c = sid" using freeze_wf [OF bw assms(3)] by blast
  ultimately show thesis using fresh that by (cases "ab_spans_feed_gap b") (simp_all add: complete_bar_def Let_def)
qed

lemma flush_keys_out:
  "distinct ks \<Longrightarrow> list_all (unpublished a) ks \<Longrightarrow> 0 < ag_interval_seconds a \<Longrightarrow>
    \<exists>cs a1. flush_keys ks a = (cs, None, a1)
      \<and> (\<forall>sid. map Inr (of_sid sid cs) = (if sid \<in> set ks then bar_out (dict_get (ag_open_bars a) sid) else []))"
proof (induction ks arbitrary: a)
  case (Cons k ks)
  show ?case
  proof (cases "dict_get (ag_open_bars a) k")
    case None
    then show ?thesis using Cons.IH [of a] Cons.prems by fastforce
  next
    case (Some b)
    obtain c a1 where c: "complete_bar b (a\<lparr>ag_open_bars := dict_pop k (ag_open_bars a)\<rparr>) = (Inr c, a1)"
      "map Inr (opt_list c) = bar_out (Some b)" "of_sid k (opt_list c) = opt_list c"
      "ag_interval_seconds a1 = ag_interval_seconds a" "ag_open_bars a1 = dict_pop k (ag_open_bars a)"
      "ag_published a1 = (k, instant (ab_start_at b)) # ag_published a"
      using complete_unpublished [OF _ Some] Cons.prems by auto
    have "list_all (unpublished a1) ks"
      using Cons.prems c(4-6) by (auto simp: list_all_iff unpublished_def)
    then obtain cs a2 where cs: "flush_keys ks a1 = (cs, None, a2)"
      "map Inr (of_sid sid cs) = (if sid \<in> set ks then bar_out (dict_get (ag_open_bars a1) sid) else [])" for sid
      using Cons.IH [of a1] Cons.prems c(4) by auto
    have eq: "flush_keys (k # ks) a = (opt_list c @ cs, None, a2)"
      using Some c(1) cs(1) by (cases c) simp_all
    have "of_sid sid (opt_list c) = (if sid = k then opt_list c else [])" for sid
      using c(3) by (cases c) (auto split: if_splits)
    then have "map Inr (of_sid sid (opt_list c @ cs))
        = (if sid \<in> set (k # ks) then bar_out (dict_get (ag_open_bars a) sid) else [])" for sid
      using Cons.prems(1) c(2,5) cs(2) [of sid] Some by auto
    then show ?thesis using eq by blast
  qed
qed simp

definition one_bar_each :: "aggregator \<Rightarrow> bool" where
  "one_bar_each a = distinct (map fst (ag_open_bars a))"

lemma complete_bar_open: "complete_bar b a = (c, a1) \<Longrightarrow> ag_open_bars a1 = ag_open_bars a"
  by (auto simp: complete_bar_def Let_def split: if_splits sum.splits)

lemma add_tick_one_bar: "add_tick t a = (c, a1) \<Longrightarrow> one_bar_each a \<Longrightarrow> one_bar_each a1"
  by (auto simp: add_tick_def one_bar_each_def Let_def distinct_update dest!: complete_bar_open
      split: if_splits sum.splits option.splits prod.splits)

lemma mark_gaps_one_bar: "one_bar_each a \<Longrightarrow> one_bar_each (snd (mark_gaps ks a))"
proof (induction ks arbitrary: a)
  case (Cons k ks)
  show ?case
  proof (cases "dict_get (ag_open_bars a) k")
    case None
    then show ?thesis using Cons by simp
  next
    case (Some b)
    have "one_bar_each (put_bar k (b\<lparr>ab_spans_feed_gap := True\<rparr>) a)"
      using Cons.prems by (simp add: one_bar_each_def put_bar_def distinct_update)
    from Cons.IH [OF this] show ?thesis using Some by (simp add: put_bar_def split: prod.split) (metis snd_conv)
  qed
qed simp

text \<open>A flush of everything after any run, and what it adds for each instrument.\<close>

lemma flush_out:
  assumes "agg_inv a out" "one_bar_each a" "sids = None \<or> sids = Some sid"
  obtains cs a1 where "flush sids a = (cs, None, a1)"
    "map Inr (of_sid sid cs) = bar_out (dict_get (ag_open_bars a) sid)"
    "\<And>k. map Inr (of_sid k cs) = [] \<or> map Inr (of_sid k cs) = bar_out (dict_get (ag_open_bars a) k)"
proof -
  define ks where "ks = (case sids of None \<Rightarrow> map fst (ag_open_bars a) | Some k \<Rightarrow> [k])"
  have "distinct ks" using assms(2) by (simp add: ks_def one_bar_each_def split: option.split)
  moreover have "list_all (unpublished a) ks" using agg_inv_unpublished [OF assms(1)] by (simp add: list_all_iff)
  ultimately obtain cs a1 where cs: "flush_keys ks a = (cs, None, a1)"
    "map Inr (of_sid k cs) = (if k \<in> set ks then bar_out (dict_get (ag_open_bars a) k) else [])" for k
    using flush_keys_out [of ks a] agg_inv_interval [OF assms(1)] by auto
  have none: "sid \<notin> set ks \<Longrightarrow> dict_get (ag_open_bars a) sid = None"
    using assms(3) by (cases sids) (simp_all add: ks_def map_of_eq_None_iff)
  show thesis
  proof (rule that [of cs a1])
    show "flush sids a = (cs, None, a1)" using cs(1) by (simp add: flush_def ks_def)
    show "map Inr (of_sid sid cs) = bar_out (dict_get (ag_open_bars a) sid)" using cs(2) [of sid] none by auto
    show "map Inr (of_sid k cs) = [] \<or> map Inr (of_sid k cs) = bar_out (dict_get (ag_open_bars a) k)" for k
      using cs(2) [of k] by (simp split: if_splits)
  qed
qed

lemma bar_out_one:
  assumes "agg_inv a out" "map Inr ds = bar_out (dict_get (ag_open_bars a) sid)"
  shows "ds = [] \<or> (\<exists>c b. ds = [c] \<and> dict_get (ag_open_bars a) sid = Some b \<and> candle_ok c
    \<and> instant (cd_start_at c) = instant (ab_start_at b))"
proof (cases "dict_get (ag_open_bars a) sid")
  case None
  then show ?thesis using assms by simp
next
  case (Some b)
  obtain c where "freeze b = Inr c" "candle_ok c" "cd_start_at c = ab_start_at b"
    using freeze_wf [OF agg_inv_bar [OF assms(1) Some] agg_inv_interval [OF assms(1)]] by blast
  then show ?thesis using assms(2) Some by (cases "ab_spans_feed_gap b"; cases ds) auto
qed

lemma starts_of_sid: "starts_of sid cs = map (\<lambda>c. instant (cd_start_at c)) (of_sid sid cs)"
  by (simp add: starts_of_def of_sid_def)

section \<open>Bars in order are the runs of ticks\<close>

text \<open>Ticks fed one after another, the candles collected, until an exception.\<close>

fun feed_ticks :: "tick list \<Rightarrow> aggregator \<Rightarrow> candle list \<times> exn option \<times> aggregator" where
  "feed_ticks [] a = ([], None, a)"
| "feed_ticks (t # ts) a =
     (case add_tick t a of
        (Inl e, a1) \<Rightarrow> ([], Some e, a1)
      | (Inr c, a1) \<Rightarrow> (case feed_ticks ts a1 of (cs, e, a2) \<Rightarrow> (opt_list c @ cs, e, a2)))"

definition mine :: "session_window \<Rightarrow> string \<Rightarrow> tick list \<Rightarrow> tick list" where
  "mine w sid ts = filter (\<lambda>t. tk_security_id t = sid \<and> in_session w t) ts"

lemma mine_simps [simp]:
  "mine w sid [] = []"
  "mine w sid (t # ts) = (if tk_security_id t = sid \<and> in_session w t then t # mine w sid ts else mine w sid ts)"
  by (simp_all add: mine_def)

lemma agg_bucket_mono:
  assumes "0 < i" "instant (tk_exchange_time s) \<le> instant (tk_exchange_time t)"
  shows "agg_bucket i w s \<le> agg_bucket i w t"
proof -
  obtain f g where f: "floor_to_interval (astimezone (sw_timezone w) (tk_exchange_time s)) i = Inr f"
    and g: "floor_to_interval (astimezone (sw_timezone w) (tk_exchange_time t)) i = Inr g"
    using floor_to_interval_returns [OF assms(1)] by meson
  have "wall f \<le> wall g" using assms(2) by (intro floor_to_interval_mono [OF f g]) (simp add: astimezone_def)
  moreover have "utcoffset f = utcoffset g"
    using floor_to_interval_Inr(2) [OF f] floor_to_interval_Inr(2) [OF g] by (simp add: astimezone_def)
  ultimately show ?thesis using f g by (simp add: agg_bucket_def agg_floor_def instant_def)
qed

lemma feed_snoc:
  "feed_ticks (ts @ [t]) a =
     (case feed_ticks ts a of
        (cs, Some e, a1) \<Rightarrow> (cs, Some e, a1)
      | (cs, None, a1) \<Rightarrow>
          (case add_tick t a1 of (Inl e, a2) \<Rightarrow> (cs, Some e, a2) | (Inr c, a2) \<Rightarrow> (cs @ opt_list c, None, a2)))"
  by (induction ts arbitrary: a) (auto split: prod.split sum.split option.split)

text \<open>
  For one instrument the feed is the reference loop over its in-session ticks:
  the candles out are the bars rolled so far, the bar held is the open one.
\<close>

definition rolled :: "int \<Rightarrow> session_window \<Rightarrow> string \<Rightarrow> tick list \<Rightarrow> agg_bar list \<times> agg_bar option" where
  "rolled i w sid ts = fold (hub.roll i w) (mine w sid ts) ([], None)"

lemma mine_snoc:
  "mine w sid (ts @ [t]) = mine w sid ts @ (if tk_security_id t = sid \<and> in_session w t then [t] else [])"
  by (simp add: mine_def)

definition clean :: "agg_bar \<Rightarrow> bool" where
  "clean b = (\<not> ab_spans_feed_gap b)"

lemma clean_simps [simp]: "clean (open_agg_bar i w t)" "clean (absorb t b) = clean b"
  by (simp_all add: clean_def open_agg_bar_def new_agg_bar_def absorb_def)

definition feed_inv :: "int \<Rightarrow> session_window \<Rightarrow> string \<Rightarrow> tick list \<Rightarrow> candle list \<Rightarrow> aggregator \<Rightarrow> bool" where
  "feed_inv i w sid ts cs a =
     (agg_inv a cs \<and> one_bar_each a \<and> ag_interval_seconds a = i \<and> ag_session a = w
      \<and> snd (rolled i w sid ts) = dict_get (ag_open_bars a) sid
      \<and> map freeze (fst (rolled i w sid ts)) = map Inr (of_sid sid cs)
      \<and> (\<forall>b. dict_get (ag_open_bars a) sid = Some b \<longrightarrow>
           clean b \<and> (\<exists>t \<in> set (mine w sid ts). agg_bucket i w t = instant (ab_start_at b))))"

lemma rolled_snoc:
  "rolled i w sid (ts @ [t]) =
     (if tk_security_id t = sid \<and> in_session w t then hub.roll i w t (rolled i w sid ts) else rolled i w sid ts)"
  by (simp add: rolled_def mine_snoc)

lemma add_tick_other:
  assumes "0 < ag_interval_seconds a" "add_tick t a = (Inr c, a1)" "agg_inv a cs"
    "\<not> (tk_security_id t = sid \<and> in_session (ag_session a) t)"
  shows "dict_get (ag_open_bars a1) sid = dict_get (ag_open_bars a) sid \<and> of_sid sid (opt_list c) = []"
proof (cases "in_session (ag_session a) t")
  case False
  then show ?thesis using assms(1,2) by (auto simp: add_tick_cases)
next
  case True
  then have "tk_security_id t \<noteq> sid" using assms(4) by simp
  then show ?thesis using True assms(1,2) agg_inv_bar [OF assms(3)]
    by (auto simp: add_tick_cases Let_def complete_bar_def freeze_def new_candle_Inr bar_wf_def put_bar_def
        split: option.splits if_splits sum.splits prod.splits)
qed

lemma feed_inv_step:
  assumes inv: "feed_inv i w sid ts cs a" and t: "tk_security_id t = sid \<Longrightarrow>
    \<forall>s \<in> set (mine w sid ts). agg_bucket i w s \<le> agg_bucket i w t"
  shows "\<exists>c a1. add_tick t a = (Inr c, a1) \<and> feed_inv i w sid (ts @ [t]) (cs @ opt_list c) a1"
proof -
  have ai: "agg_inv a cs" "one_bar_each a" and [simp]: "ag_interval_seconds a = i" "ag_session a = w"
    and sn: "snd (rolled i w sid ts) = dict_get (ag_open_bars a) sid"
    and fr: "map freeze (fst (rolled i w sid ts)) = map Inr (of_sid sid cs)"
    and bar: "\<And>b. dict_get (ag_open_bars a) sid = Some b \<Longrightarrow>
      clean b \<and> (\<exists>t \<in> set (mine w sid ts). agg_bucket i w t = instant (ab_start_at b))"
    using inv by (auto simp: feed_inv_def)
  obtain bs where st: "rolled i w sid ts = (bs, dict_get (ag_open_bars a) sid)"
    using sn by (metis prod.collapse)
  have i: "0 < ag_interval_seconds a" using ai(1) by (rule agg_inv_interval)
  obtain c a1 where c: "add_tick t a = (Inr c, a1)" and ai': "agg_inv a1 (cs @ opt_list c)"
    and eq: "ag_interval_seconds a1 = i" "ag_session a1 = w" using add_tick_inv [OF ai(1), of t] by auto
  have one: "one_bar_each a1" using add_tick_one_bar [OF c ai(2)] .
  note step = c [unfolded add_tick_cases [OF i]]
  have "feed_inv i w sid (ts @ [t]) (cs @ opt_list c) a1"
  proof (cases "tk_security_id t = sid \<and> in_session w t")
    case False
    then have "dict_get (ag_open_bars a1) sid = dict_get (ag_open_bars a) sid \<and> of_sid sid (opt_list c) = []"
      using add_tick_other [OF i c ai(1)] by simp
    moreover have "mine w sid (ts @ [t]) = mine w sid ts" "rolled i w sid (ts @ [t]) = rolled i w sid ts"
      using False by (auto simp: mine_snoc rolled_snoc)
    ultimately show ?thesis using inv ai' one eq by (simp add: feed_inv_def)
  next
    case True
    then have r: "rolled i w sid (ts @ [t]) = hub.roll i w t (rolled i w sid ts)"
      and m: "mine w sid (ts @ [t]) = mine w sid ts @ [t]" by (simp_all add: rolled_snoc mine_snoc)
    show ?thesis
    proof (cases "dict_get (ag_open_bars a) sid")
      case None
      then have "c = None" "a1 = put_bar sid (open_agg_bar i w t) a" using True step by (simp_all add: Let_def)
      moreover have "rolled i w sid (ts @ [t]) = (bs, Some (open_agg_bar i w t))"
        unfolding r by (simp add: st None hub.roll_def)
      ultimately show ?thesis using ai' one fr m st by (simp add: feed_inv_def)
    next
      case (Some b)
      have le: "instant (ab_start_at b) \<le> agg_bucket i w t" using bar [OF Some] t True by auto
      show ?thesis
      proof (cases "agg_bucket i w t = instant (ab_start_at b)")
        case k: True
        then have "c = None" "a1 = put_bar sid (absorb t b) a" using True step Some by (simp_all add: Let_def)
        moreover have "rolled i w sid (ts @ [t]) = (bs, Some (absorb t b))"
          unfolding r by (simp add: st Some k hub.roll_def)
        ultimately show ?thesis using ai' one fr m k st bar [OF Some] by (auto simp: feed_inv_def)
      next
        case k: False
        obtain a2 where cb: "complete_bar b a = (Inr c, a2)" "a1 = put_bar sid (open_agg_bar i w t) a2"
          using True step Some k le by (auto simp: Let_def split: prod.splits sum.splits)
        obtain d where d: "freeze b = Inr d" "cd_security_id d = sid"
          using freeze_wf [OF agg_inv_bar [OF ai(1) Some] i] by blast
        have "c = Some d" using cb(1) d bar [OF Some]
          by (auto simp: complete_bar_def Let_def clean_def split: if_splits)
        moreover have "rolled i w sid (ts @ [t]) = (bs @ [b], Some (open_agg_bar i w t))"
          unfolding r by (simp add: st Some k hub.roll_def)
        ultimately show ?thesis using ai' one eq fr m d st cb(2) by (simp add: feed_inv_def)
      qed
    qed
  qed
  with c show ?thesis by blast
qed

lemma feed_inv_feed:
  assumes "0 < i" "sorted (map (\<lambda>t. instant (tk_exchange_time t)) (mine w sid ts))"
  shows "\<exists>cs a. feed_ticks ts (new_aggregator i w) = (cs, None, a) \<and> feed_inv i w sid ts cs a"
  using assms(2)
proof (induction ts rule: rev_induct)
  case Nil
  then show ?case using assms(1)
    by (simp add: feed_inv_def agg_inv_def one_bar_each_def new_aggregator_def rolled_def)
next
  case (snoc t ts)
  then obtain cs a where a: "feed_ticks ts (new_aggregator i w) = (cs, None, a)" "feed_inv i w sid ts cs a"
    by (auto simp: mine_snoc sorted_append)
  show ?case
  proof (cases "in_session w t")
    case True
    have "tk_security_id t = sid \<Longrightarrow> \<forall>s \<in> set (mine w sid ts). agg_bucket i w s \<le> agg_bucket i w t"
      using snoc.prems True agg_bucket_mono [OF assms(1)] by (auto simp: mine_snoc sorted_append)
    from feed_inv_step [OF a(2) this] show ?thesis using a(1) by (auto simp: feed_snoc)
  next
    case False
    have "agg_inv a cs" "ag_interval_seconds a = i" "ag_session a = w" using a(2) by (simp_all add: feed_inv_def)
    then show ?thesis using False a agg_inv_interval [of a cs]
      by (simp add: feed_snoc add_tick_cases) (simp add: feed_inv_def one_bar_each_def mine_snoc rolled_snoc)
  qed
qed

text \<open>The candle a run of ticks of one interval stands for.\<close>

definition run_candle :: "int \<Rightarrow> session_window \<Rightarrow> tick list \<Rightarrow> candle" where
  "run_candle i w g =
     \<lparr>cd_security_id = tk_security_id (hd g), cd_instrument = tk_instrument (hd g),
      cd_open = tk_last_price (hd g), cd_high = Max (tk_last_price ` set g), cd_low = Min (tk_last_price ` set g),
      cd_close = tk_last_price (last g), cd_volume = (\<Sum>t\<leftarrow>g. tk_last_quantity t),
      cd_start_at = agg_floor i w (hd g), cd_end_at = dt_add (agg_floor i w (hd g)) (i * second),
      cd_tick_count = int (length g), cd_last_tick_at = Some (tk_exchange_time (last g)), cd_spans_gap = False\<rparr>"

definition candle_of_bar :: "agg_bar \<Rightarrow> candle" where
  "candle_of_bar b =
     \<lparr>cd_security_id = ab_security_id b, cd_instrument = ab_instrument b, cd_open = ab_open b,
      cd_high = ab_high b, cd_low = ab_low b, cd_close = ab_close b, cd_volume = ab_volume b,
      cd_start_at = ab_start_at b, cd_end_at = ab_end_at b, cd_tick_count = ab_tick_count b,
      cd_last_tick_at = ab_last_tick_at b, cd_spans_gap = False\<rparr>"

lemma candle_of_open: "candle_of_bar (open_agg_bar i w t) = run_candle i w [t]"
  by (simp add: candle_of_bar_def run_candle_def open_agg_bar_def new_agg_bar_def)

lemma candle_of_absorb:
  "g \<noteq> [] \<Longrightarrow> candle_of_bar b = run_candle i w g \<Longrightarrow> candle_of_bar (absorb t b) = run_candle i w (g @ [t])"
  by (auto simp: candle_of_bar_def run_candle_def absorb_def max.commute min.commute)

lemma candle_of_bar_of: "g \<noteq> [] \<Longrightarrow> candle_of_bar (hub.bar_of i w g) = run_candle i w g"
proof (induction g rule: rev_induct)
  case (snoc t g)
  then show ?case by (cases "g = []") (simp_all add: candle_of_open candle_of_absorb)
qed simp

lemma bar_of_wf:
  "0 < i \<Longrightarrow> g \<noteq> [] \<Longrightarrow> bar_wf i (tk_security_id (hd g)) (hub.bar_of i w g) \<and> clean (hub.bar_of i w g)"
  by (induction g rule: rev_induct) (auto simp: hd_append)

lemma freeze_bar_of: "0 < i \<Longrightarrow> g \<noteq> [] \<Longrightarrow> freeze (hub.bar_of i w g) = Inr (run_candle i w g)"
  using bar_of_wf [of i g w] freeze_wf [of i "tk_security_id (hd g)" "hub.bar_of i w g"] candle_of_bar_of [of g i w]
  by (auto simp: freeze_def candle_of_bar_def new_candle_Inr)

section \<open>Properties of the hub's aggregator\<close>

text \<open>C15: Whatever ticks and feed gaps the hub's aggregator sees, in any order and
  however late: no tick makes it raise, the flush that ends the day returns,
  and the candles of an instrument come out well formed in strictly increasing
  interval order, so none is published twice.
\<close>

theorem hub_never_publishes_twice:
  assumes "0 < i" "agg_run i w a out"
  shows "(\<exists>c a'. add_tick t a = (Inr c, a'))
    \<and> (\<exists>cs a'. flush None a = (cs, None, a') \<and> sorted_wrt (<) (starts_of sid (out @ cs)) \<and> list_all candle_ok (of_sid sid (out @ cs)))"
proof
  have inv: "agg_inv a out" using agg_run_inv [OF assms(2,1)] .
  have one: "one_bar_each a" using assms(2)
  proof (induction rule: agg_run.induct)
    case (agg_ticked a out t c a')
    then show ?case using add_tick_one_bar by blast
  next
    case (agg_gapped a out sid n a')
    then show ?case using mark_gaps_one_bar [of a] unfolding mark_feed_gap_def by (metis snd_conv)
  qed (simp add: one_bar_each_def new_aggregator_def)
  show "\<exists>c a'. add_tick t a = (Inr c, a')" using add_tick_inv [OF inv, of t] by blast
  obtain cs a1 where cs: "flush None a = (cs, None, a1)"
    "map Inr (of_sid sid cs) = bar_out (dict_get (ag_open_bars a) sid)"
    using flush_out [OF inv one, of None sid] by blast
  have ok: "list_all candle_ok (of_sid sid out)" using inv by (simp add: agg_inv_def of_sid_def list_all_iff)
  have srt: "sorted_wrt (<) (starts_of sid out)" using inv by (simp add: agg_inv_def)
  have below: "x < instant (ab_start_at b)"
    if "x \<in> set (starts_of sid out)" "dict_get (ag_open_bars a) sid = Some b" for x b
    using inv that unfolding agg_inv_def by (metis option.inject)
  show "\<exists>cs a'. flush None a = (cs, None, a') \<and> sorted_wrt (<) (starts_of sid (out @ cs))
      \<and> list_all candle_ok (of_sid sid (out @ cs))"
    using bar_out_one [OF inv cs(2)] ok srt below
    by (intro exI [of _ cs] exI [of _ a1] conjI cs(1)) (auto simp: sorted_wrt_append starts_of_sid)
qed

text \<open>C16: When the ticks of an instrument arrive in order, the candles published
  for it up to and with its flush are exactly the maximal runs of its
  in-session ticks that share an interval, one candle a run: open and close
  from the first and last tick, high and low over the run, volume the sum.
  Ticks of other instruments may come in between, late or out of session.
\<close>

theorem hub_candles_are_runs:
  assumes "0 < i" "sorted (map (\<lambda>t. instant (tk_exchange_time t)) (mine w sid ts))"
  shows "\<exists>cs a ds a'. feed_ticks ts (new_aggregator i w) = (cs, None, a) \<and> flush (Some sid) a = (ds, None, a')
    \<and> of_sid sid (cs @ ds) = map (run_candle i w) (runs (agg_bucket i w) (mine w sid ts))"
proof -
  obtain cs a where f: "feed_ticks ts (new_aggregator i w) = (cs, None, a)" and inv: "feed_inv i w sid ts cs a"
    using feed_inv_feed [OF assms] by blast
  then have ai: "agg_inv a cs" "one_bar_each a" by (simp_all add: feed_inv_def)
  obtain ds a' where fl: "flush (Some sid) a = (ds, None, a')"
    and ds: "map Inr (of_sid sid ds) = bar_out (dict_get (ag_open_bars a) sid)"
    using flush_out [OF ai, of "Some sid" sid] by blast
  let ?g = "runs (agg_bucket i w) (mine w sid ts)"
  have r: "rolled i w sid ts = (map (hub.bar_of i w) (butlast ?g),
      if mine w sid ts = [] then None else Some (hub.bar_of i w (last ?g)))"
    unfolding rolled_def by (rule hub.roll_runs)
  have frozen: "map freeze (map (hub.bar_of i w) gs) = map Inr (map (run_candle i w) gs)" if "set gs \<subseteq> set ?g" for gs
    using that by (auto intro!: freeze_bar_of [OF assms(1)] dest: runs_nonempty subsetD)
  have fr: "map freeze (fst (rolled i w sid ts)) = map Inr (of_sid sid cs)"
    and op: "snd (rolled i w sid ts) = dict_get (ag_open_bars a) sid" using inv by (simp_all add: feed_inv_def)
  have sub: "set (butlast ?g) \<subseteq> set ?g" by (auto dest: in_set_butlastD)
  have 1: "(map Inr (of_sid sid cs) :: candle result list) = map Inr (map (run_candle i w) (butlast ?g))"
    using frozen [OF sub] fr unfolding r fst_conv by (rule trans [OF sym, rotated])
  have 2: "(map Inr (of_sid sid ds) :: candle result list) = map Inr (map (run_candle i w) (if ?g = [] then [] else [last ?g]))"
  proof (cases "?g = []")
    case True
    then show ?thesis using ds op r by simp
  next
    case False
    then have g: "last ?g \<noteq> []" using runs_nonempty [of "last ?g" "agg_bucket i w" "mine w sid ts"] by simp
    have "dict_get (ag_open_bars a) sid = Some (hub.bar_of i w (last ?g))" using False op r by simp
    then show ?thesis using False ds bar_of_wf [OF assms(1) g, of w] freeze_bar_of [OF assms(1) g, of w]
      by (simp add: clean_def)
  qed
  have "(map Inr (of_sid sid (cs @ ds)) :: candle result list) = map Inr (map (run_candle i w) ?g)"
    unfolding of_sid_simps map_append 1 2 by (cases ?g rule: rev_cases) simp_all
  then have "of_sid sid (cs @ ds) = map (run_candle i w) ?g" by (simp only: inj_map_eq_map [OF inj_Inr])
  with f fl show ?thesis by blast
qed

text \<open>Ticks of two instruments, one of them late, the last out of session.\<close>

definition hub_ticks :: "tick list" where
  "hub_ticks =
     [tick_at ''13'' 100 (at_ist 9 16 0), tick_at ''25'' 50 (at_ist 9 30 0), tick_at ''13'' 103 (at_ist 9 17 30),
      tick_at ''25'' 49 (at_ist 9 20 0), tick_at ''13'' 99 (at_ist 9 21 0), tick_at ''13'' 98 (at_ist 16 0 0)]"

lemmas hub_example_simps = hub_ticks_def tick_at_def at_ist_def mine_def in_session_def contains_def
  default_session_window_def astimezone_def dt_time_def instant_def ist_def time_units

lemma hub_candles_are_runs_witness:
  "\<exists>cs a ds a'. feed_ticks hub_ticks (new_aggregator 300 default_session_window) = (cs, None, a)
    \<and> flush (Some ''13'') a = (ds, None, a')
    \<and> of_sid ''13'' (cs @ ds)
        = map (run_candle 300 default_session_window)
            (runs (agg_bucket 300 default_session_window) (mine default_session_window ''13'' hub_ticks))"
  by (rule hub_candles_are_runs) (simp_all add: hub_example_simps)

definition hub_started :: aggregator where
  "hub_started = snd (add_tick (hub_ticks ! 0) (new_aggregator 300 default_session_window))"

definition hub_rolled :: aggregator where
  "hub_rolled = snd (add_tick (hub_ticks ! 4) hub_started)"

definition hub_candle :: candle where
  "hub_candle = run_candle 300 default_session_window [hub_ticks ! 0]"

lemma hub_steps:
  "add_tick (hub_ticks ! 0) (new_aggregator 300 default_session_window) = (Inr None, hub_started)"
  "add_tick (hub_ticks ! 4) hub_started = (Inr (Some hub_candle), hub_rolled)"
proof -
  have "fst (add_tick (hub_ticks ! 0) (new_aggregator 300 default_session_window)) = Inr None"
    "fst (add_tick (hub_ticks ! 4) hub_started) = Inr (Some hub_candle)" by code_simp+
  then show "add_tick (hub_ticks ! 0) (new_aggregator 300 default_session_window) = (Inr None, hub_started)"
    "add_tick (hub_ticks ! 4) hub_started = (Inr (Some hub_candle), hub_rolled)"
    by (simp_all only: hub_started_def hub_rolled_def prod_eq_iff fst_conv snd_conv)
qed

lemma hub_run: "agg_run 300 default_session_window hub_rolled [hub_candle]"
  using agg_ticked [OF agg_ticked [OF agg_created hub_steps(1)] hub_steps(2)] by simp

lemma hub_never_publishes_twice_witness:
  "(\<exists>c a'. add_tick (hub_ticks ! 1) hub_rolled = (Inr c, a'))
    \<and> (\<exists>cs a'. flush None hub_rolled = (cs, None, a')
        \<and> sorted_wrt (<) (starts_of ''13'' ([hub_candle] @ cs)) \<and> list_all candle_ok (of_sid ''13'' ([hub_candle] @ cs)))"
  by (rule hub_never_publishes_twice [OF _ hub_run]) simp

text \<open>
  Flushing is not a restart.  A tick of the flushed interval opens a second bar
  for it, and from the first tick past it every call raises: the exception
  leaves that bar in place.
\<close>

lemma flushed_interval_reopens:
  "let t = tick_at ''13'' 100; w = default_session_window;
       (_, _, a) = feed_ticks [t (at_ist 9 16 0)] (new_aggregator 300 w);
       (cs, _, a1) = flush None a;
       (_, a2) = add_tick (t (at_ist 9 17 0)) a1;
       (x, a3) = add_tick (t (at_ist 9 21 0)) a2
   in length cs = 1 \<and> x = Inl RuntimeError \<and> fst (add_tick (t (at_ist 9 26 0)) a3) = Inl RuntimeError"
  by code_simp

end
