(* ===== verification/Chart_Builder.thy ===== *)
theory Chart_Builder
  imports Candle_Runs
begin

text \<open>
  What the engine's candle builder (common/candles/builder.py) publishes for
  prices in order, when a bar is marked as spanning a gap, and two ways in
  which it differs from the aggregator of the feed hub.
\<close>

type_synonym chart_tick = "money \<times> datetime \<times> rat"

fun build :: "chart_tick list \<Rightarrow> candle_builder \<Rightarrow> candle list \<times> exn option \<times> candle_builder" where
  "build [] b = ([], None, b)"
| "build ((price, ts, volume) # xs) b =
     (case add_price price ts volume b of
        (Inl e, b1) \<Rightarrow> ([], Some e, b1)
      | (Inr c, b1) \<Rightarrow> (case build xs b1 of (cs, e, b2) \<Rightarrow> (opt_list c @ cs, e, b2)))"

lemma build_snoc:
  "build (xs @ [(price, ts, volume)]) b =
     (case build xs b of
        (cs, Some e, b1) \<Rightarrow> (cs, Some e, b1)
      | (cs, None, b1) \<Rightarrow>
          (case add_price price ts volume b1 of
             (Inl e, b2) \<Rightarrow> (cs, Some e, b2)
           | (Inr c, b2) \<Rightarrow> (cs @ opt_list c, None, b2)))"
  by (induction xs b rule: build.induct) (auto split: prod.split sum.split option.split)

definition price_of :: "chart_tick \<Rightarrow> money" where "price_of x = fst x"
definition time_of :: "chart_tick \<Rightarrow> datetime" where "time_of x = fst (snd x)"
definition volume_of :: "chart_tick \<Rightarrow> rat" where "volume_of x = snd (snd x)"

lemma chart_tick_simps [simp]:
  "price_of (p, ts, v) = p" "time_of (p, ts, v) = ts" "volume_of (p, ts, v) = v"
  by (simp_all add: price_of_def time_of_def volume_of_def)

definition chart_floor :: "int \<Rightarrow> chart_tick \<Rightarrow> datetime" where
  "chart_floor n x = (case floor_to_interval (time_of x) (n * 60) of Inr f \<Rightarrow> f | Inl _ \<Rightarrow> time_of x)"

definition chart_bucket :: "int \<Rightarrow> chart_tick \<Rightarrow> int" where
  "chart_bucket n x = instant (chart_floor n x)"

definition open_chart_bar :: "int \<Rightarrow> chart_tick \<Rightarrow> builder_bar" where
  "open_chart_bar n x = new_builder_bar (chart_floor n x) (price_of x) (time_of x) (volume_of x)"

definition absorb_chart :: "chart_tick \<Rightarrow> builder_bar \<Rightarrow> builder_bar" where
  "absorb_chart x = absorb_price (price_of x) (time_of x) (volume_of x)"

interpretation chart: bar_accumulator "chart_bucket n" "open_chart_bar n" absorb_chart "\<lambda>b. instant (bb_start_at b)" for n
  by unfold_locales
     (simp_all add: open_chart_bar_def new_builder_bar_def chart_bucket_def absorb_chart_def absorb_price_def)

text \<open>The candle a run of prices of one interval stands for.\<close>

definition chart_candle :: "candle_builder \<Rightarrow> bool \<Rightarrow> chart_tick list \<Rightarrow> candle" where
  "chart_candle b gap g =
     \<lparr>cd_security_id = cb_security_id b,
      cd_instrument = (if cb_instrument b = [] then cb_security_id b else cb_instrument b),
      cd_open = price_of (hd g), cd_high = Max (price_of ` set g), cd_low = Min (price_of ` set g),
      cd_close = price_of (last g), cd_volume = round_int (\<Sum>x\<leftarrow>g. volume_of x),
      cd_start_at = chart_floor (cb_interval b) (hd g),
      cd_end_at = candle_end (chart_floor (cb_interval b) (hd g)) (cb_interval b),
      cd_tick_count = int (length g), cd_last_tick_at = Some (time_of (last g)), cd_spans_gap = gap\<rparr>"

text \<open>The fields of the bar of a run.\<close>

definition bar_stands_for :: "int \<Rightarrow> chart_tick list \<Rightarrow> builder_bar \<Rightarrow> bool" where
  "bar_stands_for n g b =
     (b = \<lparr>bb_start_at = chart_floor n (hd g), bb_open = price_of (hd g), bb_high = Max (price_of ` set g),
           bb_low = Min (price_of ` set g), bb_close = price_of (last g), bb_volume = (\<Sum>x\<leftarrow>g. volume_of x),
           bb_tick_count = int (length g), bb_last_tick_at = time_of (last g), bb_spans_gap = False\<rparr>)"

lemma bar_stands_for_open: "bar_stands_for n [x] (open_chart_bar n x)"
  by (simp add: bar_stands_for_def open_chart_bar_def new_builder_bar_def)

lemma bar_stands_for_absorb:
  "g \<noteq> [] \<Longrightarrow> bar_stands_for n g b \<Longrightarrow> bar_stands_for n (g @ [x]) (absorb_chart x b)"
  by (simp add: bar_stands_for_def absorb_chart_def absorb_price_def max.commute min.commute)

lemma bar_of_stands_for: "g \<noteq> [] \<Longrightarrow> bar_stands_for n g (chart.bar_of n g)"
proof (induction g rule: rev_induct)
  case (snoc x g)
  then show ?case by (cases "g = []") (simp_all add: bar_stands_for_open bar_stands_for_absorb)
qed simp

lemma freeze_bar_stands_for:
  assumes "bar_stands_for (cb_interval b) g bar" "g \<noteq> []" "0 < cb_interval b" "aware (chart_floor (cb_interval b) (hd g))"
  shows "freeze_bar (bar\<lparr>bb_spans_gap := gap\<rparr>) b = Inr (chart_candle b gap g)"
  using assms by (simp add: freeze_bar_def bar_stands_for_def chart_candle_def new_candle_Inr candle_ok_def candle_end_def
      minute_def)

text \<open>Prices in order, with one offset from UTC and no negative volume.\<close>

definition chart_ticks_ok :: "tz \<Rightarrow> chart_tick list \<Rightarrow> bool" where
  "chart_ticks_ok z xs =
     (sorted (map (\<lambda>x. wall (time_of x)) xs) \<and> list_all (\<lambda>x. utcoffset (time_of x) = Some z \<and> 0 \<le> volume_of x) xs)"

lemma chart_floor_Inr: "0 < n \<Longrightarrow> floor_to_interval (time_of x) (n * 60) = Inr (chart_floor n x)"
  using floor_to_interval_returns [of "n * 60" "time_of x"] by (auto simp: chart_floor_def)

lemma chart_bucket_mono:
  assumes "0 < n" "utcoffset (time_of x) = utcoffset (time_of y)" "wall (time_of x) \<le> wall (time_of y)"
  shows "chart_bucket n x \<le> chart_bucket n y"
  using floor_to_interval_mono [OF chart_floor_Inr chart_floor_Inr assms(3), OF assms(1) assms(1)]
    floor_to_interval_Inr(2) [OF chart_floor_Inr [OF assms(1)], of x]
    floor_to_interval_Inr(2) [OF chart_floor_Inr [OF assms(1)], of y] assms(2)
  by (simp add: chart_bucket_def instant_def)

definition gapped :: "int \<Rightarrow> chart_tick list \<Rightarrow> chart_tick list \<Rightarrow> bool" where
  "gapped n g h = (n * minute < chart_bucket n (hd h) - chart_bucket n (hd g))"

definition closed_candles :: "candle_builder \<Rightarrow> chart_tick list list \<Rightarrow> candle list" where
  "closed_candles b gs = map (\<lambda>(g, h). chart_candle b (gapped (cb_interval b) g h) g) (zip gs (tl gs))"

lemma closed_candles_snoc:
  "closed_candles b (gs @ [g, h]) = closed_candles b (gs @ [g]) @ [chart_candle b (gapped (cb_interval b) g h) g]"
  by (induction gs rule: induct_list012) (simp_all add: closed_candles_def)

lemma closed_candles_last: "g \<noteq> [] \<Longrightarrow> h \<noteq> [] \<Longrightarrow> hd g = hd h \<Longrightarrow> closed_candles b (gs @ [g]) = closed_candles b (gs @ [h])"
proof (induction gs rule: rev_induct)
  case (snoc f gs)
  then show ?case by (simp add: closed_candles_snoc gapped_def)
qed (simp add: closed_candles_def)

definition build_inv :: "candle_builder \<Rightarrow> chart_tick list \<Rightarrow> candle list \<Rightarrow> candle_builder \<Rightarrow> bool" where
  "build_inv b xs cs b' =
     (let gs = runs (chart_bucket (cb_interval b)) xs in
      cs = closed_candles b gs
      \<and> b' = b\<lparr>cb_current := if gs = [] then None else Some (chart.bar_of (cb_interval b) (last gs))\<rparr>)"

lemma chart_floor_aware [simp]:
  "0 < n \<Longrightarrow> utcoffset (time_of x) = Some z \<Longrightarrow> aware (chart_floor n x)"
  using floor_to_interval_Inr(2) [OF chart_floor_Inr, of n x] by (simp add: aware_def)

lemma bar_of_time: "g \<noteq> [] \<Longrightarrow> bb_last_tick_at (chart.bar_of n g) = time_of (last g)"
  "g \<noteq> [] \<Longrightarrow> bb_spans_gap (chart.bar_of n g) = False"
  using bar_of_stands_for [of g n] by (simp_all add: bar_stands_for_def)

lemma add_price_new:
  "cb_current b = None \<Longrightarrow> 0 < cb_interval b \<Longrightarrow> 0 \<le> volume_of x \<Longrightarrow>
    add_price (price_of x) (time_of x) (volume_of x) b
      = (Inr None, b\<lparr>cb_current := Some (open_chart_bar (cb_interval b) x)\<rparr>)"
  by (simp add: add_price_def chart_floor_Inr open_chart_bar_def)

lemma add_price_step:
  assumes n: "0 < cb_interval b" and v: "0 \<le> volume_of x" and g: "g \<noteq> []" "one_key (chart_bucket (cb_interval b)) g"
    and cur: "cb_current b = Some (chart.bar_of (cb_interval b) g)"
    and z: "utcoffset (time_of (hd g)) = Some z"
    and le: "chart_bucket (cb_interval b) (hd g) \<le> chart_bucket (cb_interval b) x"
  shows "add_price (price_of x) (time_of x) (volume_of x) b =
    (if chart_bucket (cb_interval b) x = chart_bucket (cb_interval b) (hd g)
     then (Inr None, b\<lparr>cb_current := Some (chart.bar_of (cb_interval b) (g @ [x]))\<rparr>)
     else (Inr (Some (chart_candle b (gapped (cb_interval b) g [x]) g)),
           b\<lparr>cb_current := Some (chart.bar_of (cb_interval b) [x])\<rparr>))"
proof -
  let ?n = "cb_interval b" and ?bar = "chart.bar_of (cb_interval b) g"
  have prev: "floor_to_interval (bb_last_tick_at ?bar) (?n * 60) = Inr (chart_floor ?n (last g))"
    using n g(1) by (simp add: bar_of_time chart_floor_Inr)
  have "chart_bucket ?n (last g) = chart_bucket ?n (hd g)"
    using g by (simp add: one_key_def) (metis imageI last_in_set singletonD)
  then have gap: "(?n * minute < dt_diff (chart_floor ?n x) (chart_floor ?n (last g))) = gapped ?n g [x]"
    by (simp add: gapped_def dt_diff_def chart_bucket_def)
  have start: "instant (bb_start_at ?bar) = chart_bucket ?n (hd g)" using chart.start_bar_of [OF g(1)] .
  have late: "(bb_start_at ?bar < chart_floor ?n x) = (chart_bucket ?n (hd g) < chart_bucket ?n x)"
    by (simp add: datetime_order start) (simp add: chart_bucket_def)
  have fz: "freeze_bar (?bar\<lparr>bb_spans_gap := gapped ?n g [x]\<rparr>) b = Inr (chart_candle b (gapped ?n g [x]) g)"
    using bar_of_stands_for [OF g(1)] g(1) n chart_floor_aware [OF n z] by (rule freeze_bar_stands_for)
  show ?thesis
  proof (cases "chart_bucket ?n x = chart_bucket ?n (hd g)")
    case True
    then show ?thesis using n v g(1) cur
      by (simp add: add_price_def chart_floor_Inr prev late Let_def absorb_chart_def)
  next
    case False
    then show ?thesis using n v g(1) cur le fz
      by (simp add: add_price_def chart_floor_Inr prev late gap bar_of_time Let_def open_chart_bar_def)
  qed
qed

lemma build_inv_build:
  assumes "0 < cb_interval b" "cb_current b = None" "chart_ticks_ok z xs"
  shows "\<exists>cs b'. build xs b = (cs, None, b') \<and> build_inv b xs cs b'"
  using assms(3)
proof (induction xs rule: rev_induct)
  case Nil
  then show ?case using assms(2) by (simp add: build_inv_def closed_candles_def)
next
  case (snoc x xs)
  let ?n = "cb_interval b"
  have ok: "0 \<le> volume_of x" "utcoffset (time_of x) = Some z" "chart_ticks_ok z xs"
    and before: "\<And>y. y \<in> set xs \<Longrightarrow> wall (time_of y) \<le> wall (time_of x) \<and> utcoffset (time_of y) = Some z"
    using snoc.prems by (auto simp: chart_ticks_ok_def sorted_append list_all_iff)
  obtain cs b' where b': "build xs b = (cs, None, b')" "build_inv b xs cs b'" using snoc.IH [OF ok(3)] by blast
  have x: "x = (price_of x, time_of x, volume_of x)" by (simp add: price_of_def time_of_def volume_of_def)
  have step: "build (xs @ [x]) b = (case add_price (price_of x) (time_of x) (volume_of x) b' of
      (Inl e, b2) \<Rightarrow> (cs, Some e, b2) | (Inr c, b2) \<Rightarrow> (cs @ opt_list c, None, b2))"
    by (subst x) (simp add: build_snoc b'(1))
  show ?case
  proof (cases "runs (chart_bucket ?n) xs" rule: rev_cases)
    case Nil
    then show ?thesis using step b'(2) assms ok(1)
      by (simp add: build_inv_def add_price_new extend_runs_def closed_candles_def Let_def)
  next
    case gs: (snoc gs g)
    have g: "g \<noteq> []" "one_key (chart_bucket ?n) g" and hg: "hd g \<in> set xs"
      using runs_nonempty [of g "chart_bucket ?n" xs] runs_spec [of "chart_bucket ?n" xs] gs by auto
    have le: "chart_bucket ?n (hd g) \<le> chart_bucket ?n x"
      using before [OF hg] ok(2) by (intro chart_bucket_mono assms(1)) simp_all
    have cur: "cs = closed_candles b (gs @ [g])" "b' = b\<lparr>cb_current := Some (chart.bar_of ?n g)\<rparr>"
      using b'(2) gs by (simp_all add: build_inv_def Let_def)
    have add: "add_price (price_of x) (time_of x) (volume_of x) b' =
      (if chart_bucket ?n x = chart_bucket ?n (hd g)
       then (Inr None, b\<lparr>cb_current := Some (chart.bar_of ?n (g @ [x]))\<rparr>)
       else (Inr (Some (chart_candle b (gapped ?n g [x]) g)), b\<lparr>cb_current := Some (chart.bar_of ?n [x])\<rparr>))"
      using add_price_step [of b' x g z] assms(1) ok(1) g before [OF hg] le by (simp add: cur chart_candle_def)
    have stepped: "build (xs @ [x]) b =
      (if chart_bucket ?n x = chart_bucket ?n (hd g)
       then (cs, None, b\<lparr>cb_current := Some (chart.bar_of ?n (g @ [x]))\<rparr>)
       else (cs @ [chart_candle b (gapped ?n g [x]) g], None, b\<lparr>cb_current := Some (chart.bar_of ?n [x])\<rparr>))"
      by (simp add: step add)
    show ?thesis
    proof (cases "chart_bucket ?n x = chart_bucket ?n (hd g)")
      case True
      then show ?thesis using gs g(1) closed_candles_last [of g "g @ [x]" b gs]
        by (simp add: stepped build_inv_def extend_runs_def cur Let_def)
    next
      case False
      then show ?thesis using gs
        by (simp add: stepped build_inv_def extend_runs_def cur closed_candles_snoc Let_def not_sym)
    qed
  qed
qed

text \<open>The engine's candle builder publishes the runs of in-order prices that
  share an interval: a candle closes with the first price of a later interval,
  it is marked as spanning a gap exactly when that interval is not the next
  one, and the flush returns the last run, unmarked.  Nothing raises.
\<close>

theorem builder_candles_are_runs:
  assumes "new_candle_builder n sid inst = Inr b" "chart_ticks_ok z xs"
  shows "\<exists>cs b'. build xs b = (cs, None, b')
    \<and> cs = closed_candles b (runs (chart_bucket n) xs)
    \<and> flush_builder b'
        = (Inr (if xs = [] then None else Some (chart_candle b False (last (runs (chart_bucket n) xs)))), b)"
proof -
  have b: "0 < n" "cb_interval b = n" "cb_current b = None"
    using assms(1) by (auto simp: new_candle_builder_def split: if_splits)
  let ?gs = "runs (chart_bucket n) xs"
  obtain cs b' where b': "build xs b = (cs, None, b')" "build_inv b xs cs b'"
    using build_inv_build [OF _ b(3) assms(2)] b by auto
  have cur: "cs = closed_candles b ?gs"
    "b' = b\<lparr>cb_current := if xs = [] then None else Some (chart.bar_of n (last ?gs))\<rparr>"
    using b'(2) b by (simp_all add: build_inv_def Let_def)
  have "flush_builder b' = (Inr (if xs = [] then None else Some (chart_candle b False (last ?gs))), b)"
  proof (cases "xs = []")
    case True
    then show ?thesis using cur(2) b by (simp add: flush_builder_def)
  next
    case False
    then have l: "last ?gs \<in> set ?gs" by simp
    then have g: "last ?gs \<noteq> []" by (rule runs_nonempty)
    have "hd (last ?gs) \<in> set xs" using runs_spec [of "chart_bucket n" xs] l g by (metis UN_I hd_in_set set_concat)
    then have z: "utcoffset (time_of (hd (last ?gs))) = Some z" using assms(2) by (simp add: chart_ticks_ok_def list_all_iff)
    have "freeze_bar ((chart.bar_of n (last ?gs))\<lparr>bb_spans_gap := False\<rparr>) b = Inr (chart_candle b False (last ?gs))"
      using bar_of_stands_for [OF g, of n] g b chart_floor_aware [OF b(1) z] by (intro freeze_bar_stands_for) simp_all
    moreover have "(chart.bar_of n (last ?gs))\<lparr>bb_spans_gap := False\<rparr> = chart.bar_of n (last ?gs)"
      using bar_of_time(2) [OF g, of n] by simp
    moreover have "freeze_bar bar (b\<lparr>cb_current := c\<rparr>) = freeze_bar bar b" for bar c by (simp add: freeze_bar_def)
    ultimately show ?thesis using False cur(2) b by (simp add: flush_builder_def)
  qed
  with b'(1) cur(1) show ?thesis by blast
qed

definition chart_example :: "chart_tick list" where
  "chart_example =
     [(100, at_ist 9 16 0, 1), (103, at_ist 9 17 0, 1 / 2), (99, at_ist 9 21 0, 1), (98, at_ist 9 36 0, 2)]"

lemma builder_candles_are_runs_witness:
  "\<exists>b cs b'. new_candle_builder 5 ''13'' ''NIFTY'' = Inr b \<and> build chart_example b = (cs, None, b')
    \<and> cs = closed_candles b (runs (chart_bucket 5) chart_example)
    \<and> flush_builder b'
        = (Inr (if chart_example = [] then None
                else Some (chart_candle b False (last (runs (chart_bucket 5) chart_example)))), b)"
proof -
  obtain b where b: "new_candle_builder 5 ''13'' ''NIFTY'' = Inr b" by (simp add: new_candle_builder_def)
  have "chart_ticks_ok ist chart_example"
    by (simp add: chart_ticks_ok_def chart_example_def at_ist_def time_units)
  from builder_candles_are_runs [OF b this] b show ?thesis by blast
qed

section \<open>Where the two loops differ\<close>

text \<open>
  The builder floors a time in its own zone, the aggregator in the session's.
  On hourly bars an instant given in UTC and in India falls into two different
  intervals, half an hour apart.
\<close>

lemma builder_interval_depends_on_zone:
  "let m = at_ist 10 15 0;
       b = \<lambda>x. floor_to_interval x 3600
   in b m = Inr (at_ist 10 0 0) \<and> map_sum id instant (b (astimezone utc m)) = Inr (instant (at_ist 9 30 0))"
  by code_simp

text \<open>
  A late price is absorbed into the open bar and moves its last tick back, so
  the next bar, though it is the very next interval, is reported as a gap.
\<close>

lemma late_price_marks_a_gap:
  "let b = case_sum undefined id (new_candle_builder 5 ''13'' ''NIFTY'');
       (cs, _, _) = build [(100, at_ist 9 21 0, 0), (100, at_ist 9 19 0, 0), (100, at_ist 9 26 0, 0)] b
   in map cd_spans_gap cs = [True]"
  by code_simp

end
