(* ===== verification/Effects.thy ===== *)
theory Effects
  imports Errors
begin

text \<open>
  Operations that change a state and may raise, with their sequencing and
  exception handling, and triples to reason about them: from a state that
  satisfies the precondition, the operation returns into the postcondition or
  raises into the exceptional one.
\<close>

type_synonym ('a, 's) act = "'s \<Rightarrow> 'a result \<times> 's"

definition ret :: "'a \<Rightarrow> ('a, 's) act" where
  "ret x s = (Inr x, s)"

definition andThen :: "('a, 's) act \<Rightarrow> ('a \<Rightarrow> ('b, 's) act) \<Rightarrow> ('b, 's) act" where
  "andThen m f s = (case m s of (Inl e, s1) \<Rightarrow> (Inl e, s1) | (Inr x, s1) \<Rightarrow> f x s1)"

abbreviation andDo :: "(unit, 's) act \<Rightarrow> ('b, 's) act \<Rightarrow> ('b, 's) act" where
  "andDo m n \<equiv> andThen m (\<lambda>_. n)"

definition attempt :: "('a, 's) act \<Rightarrow> (exn \<Rightarrow> ('a, 's) act) \<Rightarrow> ('a, 's) act" where
  "attempt m h s = (case m s of (Inl e, s1) \<Rightarrow> h e s1 | (Inr x, s1) \<Rightarrow> (Inr x, s1))"

definition lift_result :: "'a result \<Rightarrow> ('a, 's) act" where
  "lift_result r s = (r, s)"

definition modify :: "('s \<Rightarrow> 's) \<Rightarrow> (unit, 's) act" where
  "modify f s = (Inr (), f s)"

definition reading :: "('s \<Rightarrow> ('a, 's) act) \<Rightarrow> ('a, 's) act" where
  "reading f s = f s s"

section \<open>Triples\<close>

definition tri :: "('s \<Rightarrow> bool) \<Rightarrow> ('a, 's) act \<Rightarrow> ('a \<Rightarrow> 's \<Rightarrow> bool) \<Rightarrow> ('s \<Rightarrow> bool) \<Rightarrow> bool" where
  "tri P m Q E = (\<forall>s. P s \<longrightarrow> (case m s of (Inl _, s1) \<Rightarrow> E s1 | (Inr x, s1) \<Rightarrow> Q x s1))"

abbreviation keeps :: "('s \<Rightarrow> bool) \<Rightarrow> ('a, 's) act \<Rightarrow> bool" where
  "keeps P m \<equiv> tri P m (\<lambda>_. P) P"

named_theorems tri_rules "rules of triples, by the form of the operation"

lemma triI: "(\<And>s r s1. P s \<Longrightarrow> m s = (r, s1) \<Longrightarrow> (case r of Inl _ \<Rightarrow> E s1 | Inr x \<Rightarrow> Q x s1)) \<Longrightarrow> tri P m Q E"
  by (auto simp: tri_def split: prod.split sum.split)

lemma tri_Inr: "tri P m Q E \<Longrightarrow> P s \<Longrightarrow> m s = (Inr x, s1) \<Longrightarrow> Q x s1"
  by (auto simp: tri_def)

lemma tri_Inl: "tri P m Q E \<Longrightarrow> P s \<Longrightarrow> m s = (Inl x, s1) \<Longrightarrow> E s1"
  by (auto simp: tri_def)

lemma keepsD: "keeps P m \<Longrightarrow> P s \<Longrightarrow> m s = (r, s1) \<Longrightarrow> P s1"
  by (cases r) (auto simp: tri_def)

lemma tri_conseq:
  "tri P m Q E \<Longrightarrow> (\<And>s. P' s \<Longrightarrow> P s) \<Longrightarrow> (\<And>x s. Q x s \<Longrightarrow> Q' x s) \<Longrightarrow> (\<And>s. E s \<Longrightarrow> E' s) \<Longrightarrow> tri P' m Q' E'"
  by (fastforce simp: tri_def split: prod.splits sum.splits)

lemma tri_ret [tri_rules]: "(\<And>s. P s \<Longrightarrow> Q x s) \<Longrightarrow> tri P (ret x) Q E"
  by (simp add: tri_def ret_def)

lemma tri_modify [tri_rules]: "(\<And>s. P s \<Longrightarrow> Q () (f s)) \<Longrightarrow> tri P (modify f) Q E"
  by (simp add: tri_def modify_def)

lemma tri_lift_result [tri_rules]:
  "(\<And>s x. P s \<Longrightarrow> r = Inr x \<Longrightarrow> Q x s) \<Longrightarrow> (\<And>s. P s \<Longrightarrow> E s) \<Longrightarrow> tri P (lift_result r) Q E"
  by (cases r) (simp_all add: tri_def lift_result_def)

lemma tri_andThen [tri_rules]:
  "tri P m R E \<Longrightarrow> (\<And>x. tri (R x) (f x) Q E) \<Longrightarrow> tri P (andThen m f) Q E"
  by (fastforce simp: tri_def andThen_def split: prod.splits sum.splits)

lemma tri_attempt [tri_rules]:
  "tri P m Q F \<Longrightarrow> (\<And>x. tri F (h x) Q E) \<Longrightarrow> tri P (attempt m h) Q E"
  by (fastforce simp: tri_def attempt_def split: prod.splits sum.splits)

lemma tri_reading: "(\<And>s0. P s0 \<Longrightarrow> tri (\<lambda>s. s = s0) (f s0) Q E) \<Longrightarrow> tri P (reading f) Q E"
  by (simp add: tri_def reading_def)

lemma tri_reading_keep: "(\<And>s0. P s0 \<Longrightarrow> tri P (f s0) Q E) \<Longrightarrow> tri P (reading f) Q E"
  by (simp add: tri_def reading_def)

lemma tri_if [tri_rules]:
  "(b \<Longrightarrow> tri P m Q E) \<Longrightarrow> (\<not> b \<Longrightarrow> tri P n Q E) \<Longrightarrow> tri P (if b then m else n) Q E"
  by simp

lemma tri_case_option [tri_rules]:
  "(x = None \<Longrightarrow> tri P m Q E) \<Longrightarrow> (\<And>y. x = Some y \<Longrightarrow> tri P (f y) Q E)
    \<Longrightarrow> tri P (case x of None \<Rightarrow> m | Some y \<Rightarrow> f y) Q E"
  by (cases x) simp_all

lemma tri_run: "tri P m Q E \<Longrightarrow> P s \<Longrightarrow> m s = (r, s1) \<Longrightarrow> (case r of Inl _ \<Rightarrow> E s1 | Inr x \<Rightarrow> Q x s1)"
  by (cases r) (auto simp: tri_def)

text \<open>The same rules for an assertion that holds before, after and when raising.\<close>

named_theorems keep_rules "rules of kept assertions, by the form of the operation"

lemma keep_forms [keep_rules]:
  "keeps P (ret x)"
  "keeps P (lift_result r)"
  "keeps P m \<Longrightarrow> (\<And>x. keeps P (f x)) \<Longrightarrow> keeps P (andThen m f)"
  "keeps P m \<Longrightarrow> (\<And>x. keeps P (h x)) \<Longrightarrow> keeps P (attempt m h)"
  "(\<And>s. keeps P (g s)) \<Longrightarrow> keeps P (reading g)"
  "(b \<Longrightarrow> keeps P m) \<Longrightarrow> (\<not> b \<Longrightarrow> keeps P n) \<Longrightarrow> keeps P (if b then m else n)"
  "(y = None \<Longrightarrow> keeps P m) \<Longrightarrow> (\<And>z. y = Some z \<Longrightarrow> keeps P (k z)) \<Longrightarrow> keeps P (case y of None \<Rightarrow> m | Some z \<Rightarrow> k z)"
  by (auto intro: tri_rules tri_reading_keep split: option.split)

section \<open>Running an operation\<close>

text \<open>
  Rules that run an operation from the outside in: what follows an operation is
  not looked at before the operation has returned.
\<close>

lemma act_run:
  "andThen m f s = (case m s of (Inl e, s1) \<Rightarrow> (Inl e, s1) | (Inr x, s1) \<Rightarrow> f x s1)"
  "attempt m h s = (case m s of (Inl e, s1) \<Rightarrow> h e s1 | (Inr x, s1) \<Rightarrow> (Inr x, s1))"
  "reading g s = g s s" "modify k s = (Inr (), k s)" "ret x s = (Inr x, s)" "lift_result r s = (r, s)"
  by (simp_all add: andThen_def reading_def modify_def ret_def lift_result_def attempt_def)

lemma act_weak_cong:
  "m = n \<Longrightarrow> andThen m f = andThen n f"
  "m = n \<Longrightarrow> attempt m h = attempt n h"
  "reading g = reading g"
  "modify k = modify k"
  by simp_all

end
