(* ===== verification/Engine.thy ===== *)
theory Engine
  imports Effects Positions Daily_Guard Session Candles Tables
begin

text \<open>
  common/engine/engine.py: the trading engine that drives one strategy, with
  the feed interface it subscribes through (common/engine/feed.py).

  The engine's collaborators are injected in the code and are an environment
  record here: the strategy with its risk manager as operations over a state
  of their own, the rest (execution gateway, square-off authority, recovery
  and persistence callbacks, reporter, notifier, regime tagger) as operations
  over one world.  An operation that may raise returns a result and the state
  it leaves; a handler is a sequence of them.
\<close>

section \<open>The feed interface\<close>

record feed =
  fd_subscribed :: "string list"
  fd_running :: bool

definition subscribe :: "string \<Rightarrow> feed \<Rightarrow> feed" where
  "subscribe security_id f =
     (if security_id \<noteq> [] \<and> security_id \<notin> set (fd_subscribed f)
      then f\<lparr>fd_subscribed := fd_subscribed f @ [security_id]\<rparr> else f)"

definition unsubscribe :: "string \<Rightarrow> feed \<Rightarrow> feed" where
  "unsubscribe security_id f =
     (if security_id \<in> set (fd_subscribed f) then f\<lparr>fd_subscribed := removeAll security_id (fd_subscribed f)\<rparr> else f)"

definition stop_feed :: "feed \<Rightarrow> feed" where
  "stop_feed f = f\<lparr>fd_running := False\<rparr>"

section \<open>Collaborators\<close>

record 's strategy =
  so_on_candle :: "ohlc \<Rightarrow> datetime \<Rightarrow> (strategy_signal option, 's) act"
  so_reset :: "(unit, 's) act"
  so_on_position_tick :: "open_position \<Rightarrow> tick \<Rightarrow> (strategy_signal option, 's) act"
  so_on_position_closed :: "trade \<Rightarrow> (unit, 's) act"
  so_exit_state_snapshot :: "'s \<Rightarrow> (string, json) dict"
  so_restore_exit_state :: "(string, json) dict \<Rightarrow> (unit, 's) act"
  so_needs_option_candles :: bool
  so_on_option_candle :: "ohlc \<Rightarrow> datetime \<Rightarrow> (strategy_signal option, 's) act"
  so_on_option_candle_gap :: "(unit, 's) act"
  so_on_candle_gap :: "ohlc \<Rightarrow> datetime \<Rightarrow> (unit, 's) act"
  so_option_selection :: option_selection
  so_risk_reset :: "'s \<Rightarrow> 's"
  so_risk_new_position :: "int \<Rightarrow> money \<Rightarrow> 's \<Rightarrow> 's"
  so_risk_on_pnl :: "money \<Rightarrow> 's \<Rightarrow> exit_reason option \<times> 's"
  so_risk_stop_price :: "'s \<Rightarrow> money option"
  so_risk_target_price :: "'s \<Rightarrow> money option"

record ('s, 'w) engine_env =
  ee_strategy :: "'s strategy"
  ee_gateway :: "'w gateway"
  ee_session :: market_session
  ee_underlying_id :: string
  ee_interval :: int
  ee_select :: "money \<Rightarrow> option_type \<Rightarrow> moneyness \<Rightarrow> int \<Rightarrow> option_contract result"
  ee_due :: "datetime \<Rightarrow> (bool, 'w) act"
  ee_completed :: "datetime \<Rightarrow> (unit, 'w) act"
  ee_recover_position :: "(adopted_position option, 'w) act option"
  ee_recover_daily_risk :: "(daily_risk_recovery option, 'w) act option"
  ee_recover_exit_state :: "((string, json) dict option, 'w) act option"
  ee_persist_exit_state :: "((string, json) dict option \<Rightarrow> datetime option \<Rightarrow> (unit, 'w) act) option"
  ee_persist_position_marks :: "(money \<Rightarrow> money \<Rightarrow> (unit, 'w) act) option"
  ee_beat :: "open_position list \<Rightarrow> trade list \<Rightarrow> (unit, 'w) act"
  ee_notify :: "string \<Rightarrow> 'w \<Rightarrow> 'w"
  ee_regime_observe :: "ohlc \<Rightarrow> 'w \<Rightarrow> 'w"
  ee_regime_reset :: "'w \<Rightarrow> 'w"
  ee_current_regime :: "'w \<Rightarrow> string option"
  ee_current_features :: "'w \<Rightarrow> string"
  ee_session_tags :: "option_contract option \<Rightarrow> datetime \<Rightarrow> 'w \<Rightarrow> string"

text \<open>Why entries are refused for the day.\<close>

datatype block_reason =
    Recovery_Failed | Daily_Risk_Unknown | Warmup_Failed | Reported string

record ('s, 'w) engine =
  en_strategy :: 's
  en_world :: 'w
  en_feed :: feed
  en_positions :: position_manager
  en_candles :: candle_builder
  en_option_candles :: "candle_builder option"
  en_option_candle_contract_id :: "string option"
  en_last_option_tick_ts :: "datetime option"
  en_premium_gap_logged :: bool
  en_last_processed_candle_end :: "datetime option"
  en_spot :: "money option"
  en_pending :: "option_contract option"
  en_pending_side :: "side option"
  en_squared_off :: bool
  en_square_off_requested :: bool
  en_stopped_by_request :: bool
  en_entry_blocked :: "block_reason option"
  en_daily_guard :: "daily_guard option"

text \<open>An operation of a collaborator, inside the engine's state.\<close>

definition on_strategy :: "('a, 's) act \<Rightarrow> ('a, ('s, 'w) engine) act" where
  "on_strategy m e = (case m (en_strategy e) of (r, s1) \<Rightarrow> (r, e\<lparr>en_strategy := s1\<rparr>))"

definition on_world :: "('a, 'w) act \<Rightarrow> ('a, ('s, 'w) engine) act" where
  "on_world m e = (case m (en_world e) of (r, w1) \<Rightarrow> (r, e\<lparr>en_world := w1\<rparr>))"

definition on_book :: "(position_manager \<times> 'w \<Rightarrow> 'a result \<times> (position_manager \<times> 'w)) \<Rightarrow> ('a, ('s, 'w) engine) act" where
  "on_book m e =
     (case m (en_positions e, en_world e) of
        (r, (pm, w1)) \<Rightarrow> (r, e\<lparr>en_positions := pm, en_world := w1\<rparr>))"

definition notify :: "('s, 'w) engine_env \<Rightarrow> string \<Rightarrow> (unit, ('s, 'w) engine) act" where
  "notify env event = modify (\<lambda>e. e\<lparr>en_world := ee_notify env event (en_world e)\<rparr>)"

definition upd_feed :: "(feed \<Rightarrow> feed) \<Rightarrow> (unit, ('s, 'w) engine) act" where
  "upd_feed f = modify (\<lambda>e. e\<lparr>en_feed := f (en_feed e)\<rparr>)"

definition upd_risk :: "('s \<Rightarrow> 's) \<Rightarrow> (unit, ('s, 'w) engine) act" where
  "upd_risk f = modify (\<lambda>e. e\<lparr>en_strategy := f (en_strategy e)\<rparr>)"

section \<open>Checkpoints\<close>

definition current_position :: "('s, 'w) engine \<Rightarrow> open_position option" where
  "current_position e = (case positions_of (en_positions e) of [] \<Rightarrow> None | p # _ \<Rightarrow> Some p)"

definition exit_payload :: "('s, 'w) engine_env \<Rightarrow> ('s, 'w) engine \<Rightarrow> (string, json) dict option" where
  "exit_payload env e =
     map_option (\<lambda>pos. [(''security_id'', JStr (oc_security_id (op_contract pos))),
                         (''state'', JObj (so_exit_state_snapshot (ee_strategy env) (en_strategy e)))])
       (current_position e)"

definition persist_exit_state :: "('s, 'w) engine_env \<Rightarrow> datetime option \<Rightarrow> (unit, ('s, 'w) engine) act" where
  "persist_exit_state env candle_end_at =
     (case ee_persist_exit_state env of
        None \<Rightarrow> ret ()
      | Some callback \<Rightarrow>
          reading (\<lambda>e. attempt (on_world (callback (exit_payload env e) candle_end_at)) (\<lambda>_. ret ())))"

definition persist_position_marks :: "('s, 'w) engine_env \<Rightarrow> (unit, ('s, 'w) engine) act" where
  "persist_position_marks env =
     (case ee_persist_position_marks env of
        None \<Rightarrow> ret ()
      | Some callback \<Rightarrow>
          reading (\<lambda>e. case current_position e of
              None \<Rightarrow> ret ()
            | Some pos \<Rightarrow>
                attempt (on_world (callback (op_max_favorable_pnl pos) (op_max_adverse_pnl pos))) (\<lambda>_. ret ())))"

definition persist_open_position_checkpoint ::
  "('s, 'w) engine_env \<Rightarrow> datetime \<Rightarrow> (unit, ('s, 'w) engine) act" where
  "persist_open_position_checkpoint env candle_end_at =
     reading (\<lambda>e.
       if \<not> has_position (en_positions e) None then ret ()
       else andDo (persist_exit_state env (Some candle_end_at)) (persist_position_marks env))"

section \<open>Entering and leaving positions\<close>

definition block_entries :: "('s, 'w) engine_env \<Rightarrow> block_reason \<Rightarrow> (unit, ('s, 'w) engine) act" where
  "block_entries env reason =
     reading (\<lambda>e.
       if en_entry_blocked e \<noteq> None then ret ()
       else andDo (modify (\<lambda>e. e\<lparr>en_entry_blocked := Some reason\<rparr>)) (notify env ''entries_blocked''))"

definition enter :: "('s, 'w) engine_env \<Rightarrow> strategy_signal \<Rightarrow> datetime \<Rightarrow> (unit, ('s, 'w) engine) act" where
  "enter env sig ts =
     reading (\<lambda>e.
       if en_entry_blocked e \<noteq> None then ret ()
       else if opt_holds halted (en_daily_guard e) then ret ()
       else case (en_spot e, sgl_option_type sig) of
         (Some spot, Some ot) \<Rightarrow>
           let selection = (case sgl_option_selection sig of
                              None \<Rightarrow> so_option_selection (ee_strategy env) | Some s \<Rightarrow> s) in
           andThen (lift_result (ee_select env spot ot (os_moneyness selection) (os_steps selection))) (\<lambda>contract.
           andDo (upd_feed (subscribe (oc_security_id contract)))
             (modify (\<lambda>e. e\<lparr>en_pending := Some contract, en_pending_side := Some (sgl_side sig)\<rparr>)))
       | _ \<Rightarrow> ret ())"

definition open_entry ::
  "('s, 'w) engine_env \<Rightarrow> option_contract \<Rightarrow> side \<Rightarrow> money \<Rightarrow> datetime \<Rightarrow> (unit, ('s, 'w) engine) act" where
  "open_entry env contract s price ts =
     andDo (modify (\<lambda>e. e\<lparr>en_strategy :=
              so_risk_new_position (ee_strategy env) (pm_lots (en_positions e)) price (en_strategy e)\<rparr>))
    (reading (\<lambda>e.
     andThen (on_book (open_leg (ee_gateway env) contract s price ts
                (ee_current_regime env (en_world e)) (ee_current_features env (en_world e))
                (so_risk_stop_price (ee_strategy env) (en_strategy e))
                (so_risk_target_price (ee_strategy env) (en_strategy e)))) (\<lambda>_.
     andDo (notify env ''entry'')
       (modify (\<lambda>e. case en_option_candles e of
            None \<Rightarrow> e
          | Some b \<Rightarrow> e\<lparr>en_option_candles := Some (retarget (oc_security_id contract) [] b),
                         en_option_candle_contract_id := Some (oc_security_id contract),
                         en_last_option_tick_ts := Some ts, en_premium_gap_logged := False\<rparr>)))))"

definition close_position ::
  "('s, 'w) engine_env \<Rightarrow> string \<Rightarrow> money \<Rightarrow> datetime \<Rightarrow> exit_reason \<Rightarrow> (unit, ('s, 'w) engine) act" where
  "close_position env position_id price ts reason =
     reading (\<lambda>e.
     let contract = map_option op_contract (get_position (en_positions e) position_id) in
     andThen (on_book (close_leg (ee_gateway env) position_id price ts reason
                (ee_current_regime env (en_world e)) (ee_session_tags env contract ts (en_world e)))) (\<lambda>trade.
     andDo (modify (\<lambda>e. e\<lparr>en_daily_guard := map_option (\<lambda>g. snd (register_trade (net_pnl trade) g)) (en_daily_guard e)\<rparr>))
    (andDo (upd_risk (so_risk_reset (ee_strategy env)))
    (andDo (case contract of None \<Rightarrow> ret () | Some c \<Rightarrow> upd_feed (unsubscribe (oc_security_id c)))
    (andDo (notify env ''exit'')
    (andDo (on_strategy (so_on_position_closed (ee_strategy env) trade))
    (andDo (modify (\<lambda>e. case en_option_candles e of
               None \<Rightarrow> e
             | Some b \<Rightarrow> e\<lparr>en_option_candles := Some (reset_builder b), en_option_candle_contract_id := None,
                            en_last_option_tick_ts := None\<rparr>))
       (persist_exit_state env None))))))))"

section \<open>Square-off and shutdown\<close>

fun close_positions ::
  "('s, 'w) engine_env \<Rightarrow> datetime \<Rightarrow> open_position list \<Rightarrow> (unit, ('s, 'w) engine) act" where
  "close_positions env ts [] = ret ()"
| "close_positions env ts (pos # ps) =
     andDo (close_position env (oc_security_id (op_contract pos)) (op_last_price pos) ts SQUARE_OFF)
       (close_positions env ts ps)"

definition handle_square_off :: "('s, 'w) engine_env \<Rightarrow> datetime \<Rightarrow> (unit, ('s, 'w) engine) act" where
  "handle_square_off env ts =
     reading (\<lambda>e.
       if en_squared_off e then ret ()
       else
         andDo (close_positions env ts (positions_of (en_positions e)))
        (andDo (modify (\<lambda>e. e\<lparr>en_squared_off := True\<rparr>))
        (andDo (on_world (ee_completed env ts))
        (andDo (notify env ''square_off_completed'') (upd_feed stop_feed)))))"

definition shutdown :: "('s, 'w) engine_env \<Rightarrow> datetime \<Rightarrow> (unit, ('s, 'w) engine) act" where
  "shutdown env ts =
     andDo (modify (\<lambda>e. e\<lparr>en_stopped_by_request := True\<rparr>))
    (reading (\<lambda>e.
       andDo (handle_square_off env ts)
         (if en_squared_off e then upd_feed stop_feed else ret ())))"

section \<open>Candles\<close>

definition on_candle_close :: "('s, 'w) engine_env \<Rightarrow> ohlc \<Rightarrow> datetime \<Rightarrow> (unit, ('s, 'w) engine) act" where
  "on_candle_close env candle ts =
     reading (\<lambda>e.
       if opt_holds (\<lambda>w. ts \<le> w) (en_last_processed_candle_end e) then ret ()
       else
         andDo (modify (\<lambda>e. e\<lparr>en_world := ee_regime_observe env candle (en_world e)\<rparr>))
        (andThen (on_strategy (so_on_candle (ee_strategy env) candle ts)) (\<lambda>sig.
         case sig of
           None \<Rightarrow> persist_open_position_checkpoint env ts
         | Some sg \<Rightarrow>
             reading (\<lambda>e.
             let pos = current_position e in
             if sgl_action sg = EXIT then
               (case pos of
                  None \<Rightarrow> ret ()
                | Some p \<Rightarrow>
                    close_position env (oc_security_id (op_contract p)) (op_last_price p) ts
                      (case sgl_exit_reason sg of None \<Rightarrow> STRATEGY_EXIT | Some r \<Rightarrow> r))
             else if opt_holds (\<lambda>p. Some (oc_option_type (op_contract p)) = sgl_option_type sg
                                     \<and> op_side p = sgl_side sg) pos
             then persist_open_position_checkpoint env ts
             else
               andDo (case pos of
                        None \<Rightarrow> ret ()
                      | Some p \<Rightarrow> close_position env (oc_security_id (op_contract p)) (op_last_price p) ts OPPOSITE_SIGNAL)
              (andThen (lift_result (can_enter (ee_session env) ts)) (\<lambda>ok.
               if ok then enter env sg ts else ret ()))))))"

definition on_builder ::
  "(candle_builder \<Rightarrow> 'a result \<times> candle_builder) \<Rightarrow> ('a, ('s, 'w) engine) act" where
  "on_builder m e = (case m (en_candles e) of (r, b) \<Rightarrow> (r, e\<lparr>en_candles := b\<rparr>))"

definition check_premium_candle_gap :: "('s, 'w) engine_env \<Rightarrow> datetime \<Rightarrow> (unit, ('s, 'w) engine) act" where
  "check_premium_candle_gap env ts =
     modify (\<lambda>e.
       if en_option_candles e = None \<or> en_option_candle_contract_id e = None then e
       else if en_premium_gap_logged e then e
       else if opt_holds (\<lambda>l. dt_diff ts l \<le> ee_interval env * minute) (en_last_option_tick_ts e) then e
       else e\<lparr>en_premium_gap_logged := True\<rparr>)"

definition on_underlying_tick :: "('s, 'w) engine_env \<Rightarrow> tick \<Rightarrow> (unit, ('s, 'w) engine) act" where
  "on_underlying_tick env t =
     andDo (modify (\<lambda>e. e\<lparr>en_spot := Some (tk_last_price t)\<rparr>))
    (andThen (lift_result (is_open (ee_session env) (tk_exchange_time t))) (\<lambda>is_open_now.
     if \<not> is_open_now then ret ()
     else
       andThen (on_builder (add_price (tk_last_price t) (tk_exchange_time t) 0)) (\<lambda>completed.
       case completed of
         None \<Rightarrow> ret ()
       | Some c \<Rightarrow>
           andDo (check_premium_candle_gap env (tk_exchange_time t))
             (if oh_spans_gap (to_ohlc c)
              then on_strategy (so_on_candle_gap (ee_strategy env) (to_ohlc c) (tk_exchange_time t))
              else on_candle_close env (to_ohlc c) (tk_exchange_time t)))))"

definition on_option_builder ::
  "candle_builder \<Rightarrow> (candle_builder \<Rightarrow> 'a result \<times> candle_builder) \<Rightarrow> ('a, ('s, 'w) engine) act" where
  "on_option_builder b m e = (case m b of (r, b1) \<Rightarrow> (r, e\<lparr>en_option_candles := Some b1\<rparr>))"

definition check_premium_candle_exit :: "('s, 'w) engine_env \<Rightarrow> tick \<Rightarrow> (exit_reason option, ('s, 'w) engine) act" where
  "check_premium_candle_exit env t =
     reading (\<lambda>e.
     case en_option_candles e of
       None \<Rightarrow> ret None
     | Some b0 \<Rightarrow>
         if en_option_candle_contract_id e \<noteq> Some (tk_security_id t) then ret None
         else
           let now = tk_exchange_time t;
               gapped = opt_holds (\<lambda>l. ee_interval env * minute < dt_diff now l) (en_last_option_tick_ts e);
               b = (if gapped then reset_builder b0 else b0)
           in
           andDo (modify (\<lambda>e. e\<lparr>en_option_candles := Some b\<rparr>))
          (andDo (if gapped then on_strategy (so_on_option_candle_gap (ee_strategy env)) else ret ())
          (andDo (modify (\<lambda>e. e\<lparr>en_last_option_tick_ts := Some now, en_premium_gap_logged := False\<rparr>))
          (andThen (on_option_builder b (add_price (tk_last_price t) now 0)) (\<lambda>completed.
           case completed of
             None \<Rightarrow> ret None
           | Some c \<Rightarrow>
               if opt_holds (\<lambda>w. now \<le> w) (en_last_processed_candle_end e) then ret None
               else
                 andThen (on_strategy (so_on_option_candle (ee_strategy env) (to_ohlc c) now)) (\<lambda>sig.
                 if opt_holds (\<lambda>sg. sgl_action sg = EXIT) sig
                 then ret (Some (case Option.bind sig sgl_exit_reason of None \<Rightarrow> STRATEGY_EXIT | Some r \<Rightarrow> r))
                 else andDo (persist_open_position_checkpoint env now) (ret None)))))))"

section \<open>Option ticks\<close>

definition on_guard :: "(daily_guard \<Rightarrow> halt_reason option \<times> daily_guard) \<Rightarrow> (halt_reason option, ('s, 'w) engine) act" where
  "on_guard m e =
     (case en_daily_guard e of
        None \<Rightarrow> (Inr None, e)
      | Some g \<Rightarrow> (case m g of (r, g1) \<Rightarrow> (Inr r, e\<lparr>en_daily_guard := Some g1\<rparr>)))"

definition or_else :: "'a option \<Rightarrow> ('a option, 's) act \<Rightarrow> ('a option, 's) act" where
  "or_else x m = (case x of None \<Rightarrow> m | Some _ \<Rightarrow> ret x)"

definition exit_decision :: "('s, 'w) engine_env \<Rightarrow> open_position \<Rightarrow> tick \<Rightarrow> (exit_reason option, ('s, 'w) engine) act" where
  "exit_decision env pos t =
     andThen (on_strategy (\<lambda>s. map_prod Inr id (so_risk_on_pnl (ee_strategy env) (unrealised_pnl pos) s))) (\<lambda>r1.
     andThen (or_else r1
       (andThen (on_strategy (so_on_position_tick (ee_strategy env) pos t)) (\<lambda>sig.
        ret (if opt_holds (\<lambda>sg. sgl_action sg = EXIT) sig then Some STRATEGY_EXIT else None)))) (\<lambda>r2.
     andThen (or_else r2
       (andThen (on_guard (check_open_mtm (unrealised_pnl pos))) (\<lambda>h.
        reading (\<lambda>e. ret (if h = None then None else map_option dg_square_off_reason (en_daily_guard e)))))) (\<lambda>r3.
     or_else r3 (check_premium_candle_exit env t))))"

definition fill_pending :: "('s, 'w) engine_env \<Rightarrow> tick \<Rightarrow> (unit, ('s, 'w) engine) act" where
  "fill_pending env t =
     reading (\<lambda>e.
     case en_pending e of
       None \<Rightarrow> ret ()
     | Some contract \<Rightarrow>
         if has_position (en_positions e) None \<or> tk_security_id t \<noteq> oc_security_id contract then ret ()
         else
           andDo (andThen (lift_result (can_enter (ee_session env) (tk_exchange_time t))) (\<lambda>ok.
                  case (ok, en_pending_side e) of
                    (True, Some s) \<Rightarrow> open_entry env contract s (tk_last_price t) (tk_exchange_time t)
                  | _ \<Rightarrow> ret ()))
             (modify (\<lambda>e. e\<lparr>en_pending := None, en_pending_side := None\<rparr>)))"

definition on_option_tick :: "('s, 'w) engine_env \<Rightarrow> tick \<Rightarrow> (unit, ('s, 'w) engine) act" where
  "on_option_tick env t =
     reading (\<lambda>e.
     case get_position (en_positions e) (tk_security_id t) of
       None \<Rightarrow> fill_pending env t
     | Some pos0 \<Rightarrow>
         andDo (modify (\<lambda>e. e\<lparr>en_positions := mark_position (tk_security_id t) (tk_last_price t) (en_positions e)\<rparr>))
        (andThen (exit_decision env (update_price (tk_last_price t) pos0) t) (\<lambda>reason.
         case reason of
           None \<Rightarrow> ret ()
         | Some r \<Rightarrow> close_position env (tk_security_id t) (tk_last_price t) (tk_exchange_time t) r)))"

section \<open>Routing a tick\<close>

definition on_tick :: "('s, 'w) engine_env \<Rightarrow> tick \<Rightarrow> (unit, ('s, 'w) engine) act" where
  "on_tick env t =
     reading (\<lambda>e.
     if en_square_off_requested e then shutdown env (tk_exchange_time t)
     else
       andThen (on_world (ee_due env (tk_exchange_time t))) (\<lambda>is_due.
       if is_due then handle_square_off env (tk_exchange_time t)
       else
         andDo (if tk_security_id t = ee_underlying_id env then on_underlying_tick env t else on_option_tick env t)
           (reading (\<lambda>e. on_world (ee_beat env (positions_of (en_positions e)) (pm_trades (en_positions e)))))))"

definition request_square_off :: "(unit, ('s, 'w) engine) act" where
  "request_square_off = modify (\<lambda>e. e\<lparr>en_square_off_requested := True\<rparr>)"

section \<open>The start of a day\<close>

definition restore_daily_risk :: "('s, 'w) engine_env \<Rightarrow> (unit, ('s, 'w) engine) act" where
  "restore_daily_risk env e =
     (case (en_daily_guard e, ee_recover_daily_risk env) of
        (Some g, Some recover) \<Rightarrow>
          (case on_world recover e of
             (Inl _, e1) \<Rightarrow> block_entries env Daily_Risk_Unknown e1
           | (Inr None, e1) \<Rightarrow> (Inr (), e1)
           | (Inr (Some r), e1) \<Rightarrow> (Inr (), e1\<lparr>en_daily_guard := Some (snd (restore_guard r g))\<rparr>))
      | _ \<Rightarrow> (Inr (), e))"

definition restore_exit_state :: "('s, 'w) engine_env \<Rightarrow> string \<Rightarrow> (unit, ('s, 'w) engine) act" where
  "restore_exit_state env adopted_security_id e =
     (case ee_recover_exit_state env of
        None \<Rightarrow> (Inr (), e)
      | Some recover \<Rightarrow>
          (case on_world recover e of
             (Inl _, e1) \<Rightarrow> (Inr (), e1)
           | (Inr None, e1) \<Rightarrow> (Inr (), e1)
           | (Inr (Some snapshot), e1) \<Rightarrow>
               if snapshot = [] then (Inr (), e1)
               else if dict_get snapshot ''security_id'' \<noteq> Some (JStr adopted_security_id) then (Inr (), e1)
               else (case dict_get snapshot ''state'' of
                       Some (JObj state) \<Rightarrow>
                         attempt (on_strategy (so_restore_exit_state (ee_strategy env) state)) (\<lambda>_. ret ()) e1
                     | _ \<Rightarrow> (Inr (), e1))))"

definition take_over :: "('s, 'w) engine_env \<Rightarrow> adopted_position \<Rightarrow> (unit, ('s, 'w) engine) act" where
  "take_over env a =
     andThen (on_book (\<lambda>(pm, w). case adopt a pm of (r, pm1) \<Rightarrow> (r, (pm1, w)))) (\<lambda>_.
     let sid = oc_security_id (ap_contract a) in
     andDo (upd_feed (subscribe sid))
    (andDo (upd_risk (so_risk_new_position (ee_strategy env) (ap_lots a) (ap_entry_price a)))
    (andDo (modify (\<lambda>e. case en_option_candles e of
                None \<Rightarrow> e
              | Some b \<Rightarrow> e\<lparr>en_option_candles := Some (retarget sid [] b), en_option_candle_contract_id := Some sid,
                             en_last_option_tick_ts := Some (ap_entry_time a), en_premium_gap_logged := False\<rparr>))
    (andDo (restore_exit_state env sid)
    (andDo (modify (\<lambda>e. e\<lparr>en_last_processed_candle_end := ap_last_candle_end_at a\<rparr>))
       (notify env ''position_recovered''))))))"

definition adopt_recovered_position :: "('s, 'w) engine_env \<Rightarrow> (unit, ('s, 'w) engine) act" where
  "adopt_recovered_position env e =
     (case ee_recover_position env of
        None \<Rightarrow> (Inr (), e)
      | Some recover \<Rightarrow>
          (case on_world recover e of
             (Inl _, e1) \<Rightarrow> block_entries env Recovery_Failed e1
           | (Inr None, e1) \<Rightarrow> (Inr (), e1)
           | (Inr (Some a), e1) \<Rightarrow> take_over env a e1))"

definition start_day :: "('s, 'w) engine_env \<Rightarrow> (unit, ('s, 'w) engine) act" where
  "start_day env =
     andDo (on_strategy (so_reset (ee_strategy env)))
    (andDo (upd_risk (so_risk_reset (ee_strategy env)))
    (andDo (modify (\<lambda>e. e\<lparr>en_candles := reset_builder (en_candles e),
                          en_world := ee_regime_reset env (en_world e),
                          en_spot := None, en_pending := None, en_pending_side := None, en_squared_off := False,
                          en_entry_blocked := None, en_last_processed_candle_end := None,
                          en_daily_guard := map_option reset_guard (en_daily_guard e)\<rparr>))
    (andDo (restore_daily_risk env)
    (andDo (modify (\<lambda>e. case en_option_candles e of
                None \<Rightarrow> e
              | Some b \<Rightarrow> e\<lparr>en_option_candles := Some (reset_builder b), en_option_candle_contract_id := None,
                             en_last_option_tick_ts := None, en_premium_gap_logged := False\<rparr>))
    (andDo (upd_feed (subscribe (ee_underlying_id env)))
       (adopt_recovered_position env))))))"

section \<open>A run of the feed\<close>

text \<open>
  What reaches a running engine: a tick of the feed, a request to square off,
  a report of the feed layer that candles may be wrong.
\<close>

datatype engine_event = Tick_Arrives tick | Square_Off_Asked | Entries_Refused string

fun deliver :: "('s, 'w) engine_env \<Rightarrow> engine_event list \<Rightarrow> (unit, ('s, 'w) engine) act" where
  "deliver env [] = ret ()"
| "deliver env (ev # evs) =
     reading (\<lambda>e.
       if \<not> fd_running (en_feed e) then ret ()
       else andDo (case ev of
                 Tick_Arrives t \<Rightarrow> on_tick env t
               | Square_Off_Asked \<Rightarrow> request_square_off
               | Entries_Refused reason \<Rightarrow> block_entries env (Reported reason))
              (deliver env evs))"

text \<open>The run loop around the feed: an escaping exception squares off and is raised again.\<close>

definition finish :: "('s, 'w) engine_env \<Rightarrow> datetime \<Rightarrow> (unit, ('s, 'w) engine) act" where
  "finish env now =
     reading (\<lambda>e.
       if en_square_off_requested e
       then andDo (modify (\<lambda>e. e\<lparr>en_stopped_by_request := True\<rparr>)) (handle_square_off env now)
       else ret ())"

definition drive :: "('s, 'w) engine_env \<Rightarrow> datetime \<Rightarrow> engine_event list \<Rightarrow> (unit, ('s, 'w) engine) act" where
  "drive env now evs e =
     (case attempt (andDo (upd_feed (\<lambda>f. f\<lparr>fd_running := True\<rparr>)) (deliver env evs))
             (\<lambda>x. andDo (notify env ''engine_error'')
                   (andDo (handle_square_off env now) (lift_result (Inl x)))) e of
        (r, e1) \<Rightarrow> (case finish env now e1 of (Inl y, e2) \<Rightarrow> (Inl y, e2) | (Inr _, e2) \<Rightarrow> (r, e2)))"

end
