(* ===== verification/Engine_Book.thy ===== *)
theory Engine_Book
  imports Engine
begin

text \<open>
  The trading engine's contract, as a small machine over its book: what may
  happen to the open positions, the pending entry, the day's block on entries,
  the daily guard and the completion latch, and under which conditions.  Every
  run of the engine is a path of this machine.
\<close>

section \<open>The book machine\<close>

record book =
  bk_manager :: position_manager
  bk_pending :: "option_contract option"
  bk_pending_side :: "side option"
  bk_blocked :: "block_reason option"
  bk_guard :: "daily_guard option"
  bk_squared_off :: bool

definition book_of :: "('s, 'w) engine \<Rightarrow> book" where
  "book_of e =
     \<lparr>bk_manager = en_positions e, bk_pending = en_pending e, bk_pending_side = en_pending_side e,
      bk_blocked = en_entry_blocked e, bk_guard = en_daily_guard e, bk_squared_off = en_squared_off e\<rparr>"

definition booked_trade :: "trade \<Rightarrow> daily_guard option \<Rightarrow> daily_guard option" where
  "booked_trade t = map_option (\<lambda>g. snd (register_trade (net_pnl t) g))"

inductive book_step :: "('s, 'w) engine_env \<Rightarrow> book \<Rightarrow> book \<Rightarrow> bool" for env where
  marked: "book_step env b (b\<lparr>bk_manager := mark_position sid price (bk_manager b)\<rparr>)"
| opened:
    "pm_positions (bk_manager b) = [] \<Longrightarrow> bk_pending b = Some c \<Longrightarrow> bk_pending_side b = Some s
      \<Longrightarrow> can_enter (ee_session env) ts = Inr True
      \<Longrightarrow> open_leg (ee_gateway env) c s price ts regime features stop target (bk_manager b, w) = (Inr p, (pm, w1))
      \<Longrightarrow> book_step env b (b\<lparr>bk_manager := pm\<rparr>)"
| left:
    "close_leg (ee_gateway env) pid price ts reason regime tags (bk_manager b, w) = (Inr t, (pm, w1))
      \<Longrightarrow> book_step env b (b\<lparr>bk_manager := pm, bk_guard := booked_trade t (bk_guard b)\<rparr>)"
| queued:
    "bk_blocked b = None \<Longrightarrow> \<not> opt_holds halted (bk_guard b) \<Longrightarrow> can_enter (ee_session env) ts = Inr True
      \<Longrightarrow> book_step env b (b\<lparr>bk_pending := Some c, bk_pending_side := Some s\<rparr>)"
| dropped: "book_step env b (b\<lparr>bk_pending := None, bk_pending_side := None\<rparr>)"
| blocked: "bk_blocked b = None \<Longrightarrow> book_step env b (b\<lparr>bk_blocked := Some reason\<rparr>)"
| marked_to_market:
    "bk_guard b = Some g \<Longrightarrow> book_step env b (b\<lparr>bk_guard := Some (snd (check_open_mtm pnl g))\<rparr>)"
| completed_day: "pm_positions (bk_manager b) = [] \<Longrightarrow> book_step env b (b\<lparr>bk_squared_off := True\<rparr>)"

abbreviation book_steps :: "('s, 'w) engine_env \<Rightarrow> book \<Rightarrow> book \<Rightarrow> bool" where
  "book_steps env \<equiv> (book_step env)\<^sup>*\<^sup>*"

inductive_simps book_step_iff: "book_step env b b'"

text \<open>Positions are filed under the identifier of their contract.\<close>

definition filed :: "position_manager \<Rightarrow> bool" where
  "filed pm = (\<forall>k p. dict_get (pm_positions pm) k = Some p \<longrightarrow> k = oc_security_id (op_contract p))"

definition keyed :: "position_manager \<Rightarrow> bool" where
  "keyed pm = (distinct (map fst (pm_positions pm)) \<and> filed pm)"

lemma filed_mark: "filed pm \<Longrightarrow> filed (mark_position sid price pm)"
  by (simp add: filed_def mark_position_def split: option.split)

lemma keyed_mark [simp]: "keyed pm \<Longrightarrow> keyed (mark_position sid price pm)"
  by (simp add: keyed_def filed_mark) (simp add: mark_position_def distinct_update split: option.split)

lemma filed_pop: "filed pm \<Longrightarrow> pm_positions pm' = dict_pop pid (pm_positions pm) \<Longrightarrow> filed pm'"
  by (simp add: filed_def)

lemma keyed_pop: "keyed pm \<Longrightarrow> pm_positions pm' = dict_pop pid (pm_positions pm) \<Longrightarrow> keyed pm'"
  by (auto simp: keyed_def distinct_delete dest: filed_pop)

lemma keyed_one: "pm_positions pm = [(oc_security_id (op_contract p), p)] \<Longrightarrow> keyed pm"
  by (simp add: keyed_def filed_def)

lemma open_leg_empty:
  "pm_positions pm = [] \<Longrightarrow> open_leg gw c s price ts rg ft stop target (pm, w) = (Inr p, (pm', w'))
    \<Longrightarrow> pm_positions pm' = [(oc_security_id c, p)] \<and> op_contract p = c \<and> op_side p = s \<and> op_entry_time p = ts
      \<and> pm_trades pm' = pm_trades pm"
  by (auto simp: open_leg_def Let_def install_position_def new_open_position_def split: prod.splits sum.splits if_splits)

lemma open_leg_raises: "open_leg gw c s price ts rg ft stop target (pm, w) = (Inl x, (pm', w')) \<Longrightarrow> pm' = pm"
  by (auto simp: open_leg_def Let_def split: prod.splits sum.splits if_splits)

lemma close_leg_book:
  "close_leg gw pid price ts reason rg tags (pm, w) = (Inr t, (pm', w')) \<Longrightarrow>
     pm_positions pm' = dict_pop pid (pm_positions pm) \<and> pm_trades pm' = pm_trades pm @ [t]
     \<and> (\<exists>p. dict_get (pm_positions pm) pid = Some p \<and> tr_entry_time t = op_entry_time p \<and> tr_contract t = op_contract p
          \<and> tr_side t = op_side p \<and> tr_lots t = op_lots p \<and> tr_exit_reason t = reason)"
proof -
  assume closing: "close_leg gw pid price ts reason rg tags (pm, w) = (Inr t, (pm', w'))"
  then obtain pos where pos: "dict_get (pm_positions pm) pid = Some pos"
    by (cases "dict_get (pm_positions pm) pid") (simp_all add: close_leg_def)
  obtain r g where leg: "(if op_side pos = BUY then gw_sell gw (op_contract pos) (op_lots pos) price ts None None w
      else gw_buy gw (op_contract pos) (op_lots pos) price ts None None w) = (r, g)" by fastforce
  show ?thesis
  proof (cases r)
    case (Inl e)
    then show ?thesis using closing pos leg by (simp add: close_leg_def)
  next
    case (Inr result)
    then have "closed_trade pos result ts reason rg tags pid pm = t"
      "pm_positions pm' = dict_pop pid (pm_positions pm)" "pm_trades pm' = pm_trades pm @ [t]"
      using closing pos leg by (auto simp: close_leg_def Let_def)
    then show ?thesis using pos by (auto simp: closed_trade_def Let_def)
  qed
qed

lemma close_leg_raises: "close_leg gw pid price ts reason rg tags (pm, w) = (Inl x, (pm', w')) \<Longrightarrow> pm' = pm"
  by (auto simp: close_leg_def Let_def split: prod.splits sum.splits option.splits if_splits)

lemma keyed_step: "book_step env b b' \<Longrightarrow> keyed (bk_manager b) \<Longrightarrow> keyed (bk_manager b')"
proof (induction rule: book_step.induct)
  case (opened b c s ts price regime features stop target w p pm w1)
  then show ?case using open_leg_empty [OF opened(1,5)] keyed_one [of pm p] by simp
next
  case (left pid price ts reason regime tags b w t pm w1)
  then show ?case using close_leg_book [OF left(1)] by (simp add: keyed_pop)
qed simp_all

lemma keyed_steps: "book_steps env b b' \<Longrightarrow> keyed (bk_manager b) \<Longrightarrow> keyed (bk_manager b')"
  by (induction rule: rtranclp_induct) (simp_all add: keyed_step)

section \<open>Every handler is a path of the machine\<close>

lemma book_of_simps [simp]:
  "book_of (e\<lparr>en_strategy := s\<rparr>) = book_of e" "book_of (e\<lparr>en_world := w\<rparr>) = book_of e"
  "book_of (e\<lparr>en_feed := f\<rparr>) = book_of e" "book_of (e\<lparr>en_candles := cb\<rparr>) = book_of e"
  "book_of (e\<lparr>en_option_candles := oc\<rparr>) = book_of e" "book_of (e\<lparr>en_option_candle_contract_id := cid\<rparr>) = book_of e"
  "book_of (e\<lparr>en_last_option_tick_ts := lt\<rparr>) = book_of e" "book_of (e\<lparr>en_premium_gap_logged := gl\<rparr>) = book_of e"
  "book_of (e\<lparr>en_spot := sp\<rparr>) = book_of e" "book_of (e\<lparr>en_square_off_requested := b1\<rparr>) = book_of e"
  "book_of (e\<lparr>en_stopped_by_request := b2\<rparr>) = book_of e"
  "book_of (e\<lparr>en_last_processed_candle_end := lc\<rparr>) = book_of e"
  "book_of (e\<lparr>en_positions := pm\<rparr>) = (book_of e)\<lparr>bk_manager := pm\<rparr>"
  "book_of (e\<lparr>en_pending := pc\<rparr>) = (book_of e)\<lparr>bk_pending := pc\<rparr>"
  "book_of (e\<lparr>en_pending_side := ps\<rparr>) = (book_of e)\<lparr>bk_pending_side := ps\<rparr>"
  "book_of (e\<lparr>en_entry_blocked := br\<rparr>) = (book_of e)\<lparr>bk_blocked := br\<rparr>"
  "book_of (e\<lparr>en_daily_guard := g\<rparr>) = (book_of e)\<lparr>bk_guard := g\<rparr>"
  "book_of (e\<lparr>en_squared_off := so\<rparr>) = (book_of e)\<lparr>bk_squared_off := so\<rparr>"
  by (simp_all add: book_of_def)

lemma book_of_fields [simp]:
  "bk_manager (book_of e) = en_positions e" "bk_pending (book_of e) = en_pending e"
  "bk_pending_side (book_of e) = en_pending_side e" "bk_blocked (book_of e) = en_entry_blocked e"
  "bk_guard (book_of e) = en_daily_guard e" "bk_squared_off (book_of e) = en_squared_off e"
  by (simp_all add: book_of_def)

text \<open>Collaborators other than the gateway do not touch the book.\<close>

definition on_the_book :: "(book \<Rightarrow> bool) \<Rightarrow> ('s, 'w) engine \<Rightarrow> bool" where
  "on_the_book P e = P (book_of e)"

lemma book_frames [tri_rules]:
  assumes "\<And>b. P b \<Longrightarrow> E b"
  shows "tri (on_the_book P) (on_strategy m) (\<lambda>_. on_the_book P) (on_the_book E)"
    "tri (on_the_book P) (on_world w) (\<lambda>_. on_the_book P) (on_the_book E)"
    "tri (on_the_book P) (notify env ev) (\<lambda>_. on_the_book P) (on_the_book E)"
    "tri (on_the_book P) (upd_feed f) (\<lambda>_. on_the_book P) (on_the_book E)"
    "tri (on_the_book P) (upd_risk g) (\<lambda>_. on_the_book P) (on_the_book E)"
    "tri (on_the_book P) (on_builder bm) (\<lambda>_. on_the_book P) (on_the_book E)"
    "tri (on_the_book P) (on_option_builder ob om) (\<lambda>_. on_the_book P) (on_the_book E)"
  using assms
  by (auto simp: tri_def on_the_book_def on_strategy_def on_world_def notify_def upd_feed_def upd_risk_def modify_def
      on_builder_def on_option_builder_def split: prod.splits sum.splits)

lemma tri_reading_book:
  "(\<And>e. Q (book_of e) \<Longrightarrow> tri (on_the_book ((=) (book_of e))) (f e) R E) \<Longrightarrow> tri (on_the_book Q) (reading f) R E"
  by (auto simp: tri_def reading_def on_the_book_def)

lemma tri_same_book:
  "(\<And>b. Q b \<Longrightarrow> tri (on_the_book ((=) b)) m R E) \<Longrightarrow> tri (on_the_book Q) m R E"
  by (auto simp: tri_def on_the_book_def)

lemma tri_modify_same:
  "(\<And>e. book_of e = b \<Longrightarrow> Q (book_of (f e))) \<Longrightarrow> tri (on_the_book ((=) b)) (modify f) (\<lambda>_. on_the_book Q) E"
  by (simp add: tri_def modify_def on_the_book_def)

lemma tri_modify_book:
  "(\<And>e. P (book_of e) \<Longrightarrow> Q (book_of (f e))) \<Longrightarrow> tri (on_the_book P) (modify f) (\<lambda>_. on_the_book Q) E"
  by (simp add: tri_def modify_def on_the_book_def)

definition reached :: "('s, 'w) engine_env \<Rightarrow> book \<Rightarrow> book \<Rightarrow> bool" where
  "reached env b0 b = (keyed (bk_manager b0) \<and> book_steps env b0 b)"

lemma reached_keyed: "reached env b0 b \<Longrightarrow> keyed (bk_manager b)"
  using keyed_steps by (force simp: reached_def)

lemma reached_step: "reached env b0 b \<Longrightarrow> book_step env b b' \<Longrightarrow> reached env b0 b'"
  by (auto simp: reached_def intro: rtranclp.rtrancl_into_rtrancl)

text \<open>The assertion all handlers keep: the book is reachable from where the run began.\<close>

abbreviation walks :: "('s, 'w) engine_env \<Rightarrow> book \<Rightarrow> ('a, ('s, 'w) engine) act \<Rightarrow> bool" where
  "walks env b0 m \<equiv> keeps (on_the_book (reached env b0)) m"

lemma tri_ret_book [tri_rules]: "(\<And>b. P b \<Longrightarrow> Q b) \<Longrightarrow> tri (on_the_book P) (ret x) (\<lambda>_. on_the_book Q) E"
  by (simp add: tri_def ret_def on_the_book_def)

lemma tri_weaken_book:
  "tri (on_the_book P) m Q E \<Longrightarrow> (\<And>b. P' b \<Longrightarrow> P b) \<Longrightarrow> tri (on_the_book P') m Q E"
  by (simp add: tri_def on_the_book_def)

lemma persist_frames [tri_rules]:
  assumes "\<And>b. P b \<Longrightarrow> E b"
  shows "tri (on_the_book P) (persist_exit_state env ce) (\<lambda>_. on_the_book P) (on_the_book E)"
    "tri (on_the_book P) (persist_position_marks env) (\<lambda>_. on_the_book P) (on_the_book E)"
    "tri (on_the_book P) (persist_open_position_checkpoint env ts) (\<lambda>_. on_the_book P) (on_the_book E)"
proof -
  have 1: "keeps (on_the_book P) (persist_exit_state env ce)" for ce
    unfolding persist_exit_state_def
    by (intro keep_rules book_frames; assumption)
  have 2: "keeps (on_the_book P) (persist_position_marks env)"
    unfolding persist_position_marks_def
    by (intro keep_rules book_frames; assumption)
  have 3: "keeps (on_the_book P) (persist_open_position_checkpoint env ts)"
    unfolding persist_open_position_checkpoint_def
    by (intro keep_rules 1 2)
  show "tri (on_the_book P) (persist_exit_state env ce) (\<lambda>_. on_the_book P) (on_the_book E)"
    "tri (on_the_book P) (persist_position_marks env) (\<lambda>_. on_the_book P) (on_the_book E)"
    "tri (on_the_book P) (persist_open_position_checkpoint env ts) (\<lambda>_. on_the_book P) (on_the_book E)"
    using assms by (auto simp: on_the_book_def intro: tri_conseq [OF 1] tri_conseq [OF 2] tri_conseq [OF 3])
qed

lemma block_entries_walks [tri_rules]: "walks env b0 (block_entries env r)"
  unfolding block_entries_def
proof (rule tri_reading_book)
  fix e :: "('a, 'b) engine"
  assume e: "reached env b0 (book_of e)"
  have blk: "reached env b0 ((book_of e)\<lparr>bk_blocked := Some r\<rparr>)" if "en_entry_blocked e = None"
    using that by (intro reached_step [OF e blocked]) simp
  show "tri (on_the_book ((=) (book_of e)))
     (if en_entry_blocked e \<noteq> None then ret ()
      else andDo (modify (\<lambda>e. e\<lparr>en_entry_blocked := Some r\<rparr>)) (notify env ''entries_blocked''))
     (\<lambda>_. on_the_book (reached env b0)) (on_the_book (reached env b0))"
    by (rule tri_if, rule tri_ret_book, use e in simp,
        rule tri_andThen, rule tri_modify_same [where Q = "reached env b0"], use blk in simp,
        rule book_frames, assumption)
qed

lemma enter_walks:
  assumes ok: "can_enter (ee_session env) ts = Inr True"
  shows "walks env b0 (enter env sg ts)"
  unfolding enter_def
proof (rule tri_reading_book)
  fix e :: "('a, 'b) engine"
  assume e: "reached env b0 (book_of e)"
  let ?R = "on_the_book (reached env b0)"
  have stay: "tri (on_the_book ((=) (book_of e))) (ret ()) (\<lambda>_. ?R) ?R"
    by (rule tri_ret_book) (use e in simp)
  have last: "tri (on_the_book ((=) (book_of e))) (modify (\<lambda>e. e\<lparr>en_pending := Some c, en_pending_side := Some s\<rparr>)) (\<lambda>_. ?R) ?R"
    if "en_entry_blocked e = None" "\<not> opt_holds halted (en_daily_guard e)" for c s
    by (rule tri_modify_same) (use reached_step [OF e queued [OF _ _ ok]] that in simp)
  have queue: "tri (on_the_book ((=) (book_of e)))
      (andThen (lift_result r) (\<lambda>c. andDo (upd_feed (f c)) (modify (\<lambda>e. e\<lparr>en_pending := Some c, en_pending_side := Some s\<rparr>))))
      (\<lambda>_. ?R) ?R"
    if "en_entry_blocked e = None" "\<not> opt_holds halted (en_daily_guard e)" for r f s
    by (rule tri_andThen, rule tri_lift_result, assumption, use e in \<open>simp add: on_the_book_def\<close>,
        rule tri_andThen, rule book_frames, use e in simp, rule last [OF that])
  show "tri (on_the_book ((=) (book_of e)))
     (if en_entry_blocked e \<noteq> None then ret () else if opt_holds halted (en_daily_guard e) then ret ()
      else case (en_spot e, sgl_option_type sg) of
         (Some spot, Some ot) \<Rightarrow>
           let selection = (case sgl_option_selection sg of
                              None \<Rightarrow> so_option_selection (ee_strategy env) | Some s \<Rightarrow> s) in
           andThen (lift_result (ee_select env spot ot (os_moneyness selection) (os_steps selection))) (\<lambda>contract.
           andDo (upd_feed (subscribe (oc_security_id contract)))
             (modify (\<lambda>e. e\<lparr>en_pending := Some contract, en_pending_side := Some (sgl_side sg)\<rparr>)))
       | _ \<Rightarrow> ret ()) (\<lambda>_. ?R) ?R"
    using stay queue by (auto simp: Let_def split: option.split)
qed

lemma tri_on_book:
  assumes "\<And>w x pm w1. m (bk_manager b, w) = (Inr x, (pm, w1)) \<Longrightarrow> Q x (b\<lparr>bk_manager := pm\<rparr>)"
    and "\<And>w x pm w1. m (bk_manager b, w) = (Inl x, (pm, w1)) \<Longrightarrow> E (b\<lparr>bk_manager := pm\<rparr>)"
  shows "tri (on_the_book ((=) b)) (on_book m) (\<lambda>x. on_the_book (Q x)) (on_the_book E)"
  using assms by (force simp: tri_def on_the_book_def on_book_def split: prod.splits sum.splits)

lemma open_entry_walks:
  assumes b: "reached env b0 b" "pm_positions (bk_manager b) = []" "bk_pending b = Some c" "bk_pending_side b = Some s"
    and ok: "can_enter (ee_session env) ts = Inr True"
  shows "tri (on_the_book ((=) b)) (open_entry env c s price ts)
    (\<lambda>_. on_the_book (reached env b0)) (on_the_book (reached env b0))"
  unfolding open_entry_def
proof (rule tri_andThen)
  show "tri (on_the_book ((=) b)) (modify (\<lambda>e. e\<lparr>en_strategy :=
      so_risk_new_position (ee_strategy env) (pm_lots (en_positions e)) price (en_strategy e)\<rparr>))
    (\<lambda>_. on_the_book ((=) b)) (on_the_book (reached env b0))"
    by (rule tri_modify_same) simp
next
  have frame: "walks env b0 (modify (\<lambda>e. case en_option_candles e of
       None \<Rightarrow> e
     | Some cb \<Rightarrow> e\<lparr>en_option_candles := Some (retarget (oc_security_id c) [] cb),
                     en_option_candle_contract_id := Some (oc_security_id c),
                     en_last_option_tick_ts := Some ts, en_premium_gap_logged := False\<rparr>))"
    by (rule tri_modify_book) (simp split: option.split)
  show "tri (on_the_book ((=) b)) (reading (\<lambda>e.
     andThen (on_book (open_leg (ee_gateway env) c s price ts
                (ee_current_regime env (en_world e)) (ee_current_features env (en_world e))
                (so_risk_stop_price (ee_strategy env) (en_strategy e))
                (so_risk_target_price (ee_strategy env) (en_strategy e)))) (\<lambda>_.
     andDo (notify env ''entry'')
       (modify (\<lambda>e. case en_option_candles e of
            None \<Rightarrow> e
          | Some cb \<Rightarrow> e\<lparr>en_option_candles := Some (retarget (oc_security_id c) [] cb),
                         en_option_candle_contract_id := Some (oc_security_id c),
                         en_last_option_tick_ts := Some ts, en_premium_gap_logged := False\<rparr>)))))
    (\<lambda>_. on_the_book (reached env b0)) (on_the_book (reached env b0))"
  proof (rule tri_reading_keep, rule tri_andThen, rule tri_on_book)
    fix w x pm w1 and e :: "('a, 'b) engine"
    assume "open_leg (ee_gateway env) c s price ts (ee_current_regime env (en_world e))
      (ee_current_features env (en_world e)) (so_risk_stop_price (ee_strategy env) (en_strategy e))
      (so_risk_target_price (ee_strategy env) (en_strategy e)) (bk_manager b, w) = (Inr x, (pm, w1))"
    from opened [OF b(2-4) ok this] show "reached env b0 (b\<lparr>bk_manager := pm\<rparr>)" by (rule reached_step [OF b(1)])
  next
    fix w x pm w1 and e :: "('a, 'b) engine"
    assume "open_leg (ee_gateway env) c s price ts (ee_current_regime env (en_world e))
      (ee_current_features env (en_world e)) (so_risk_stop_price (ee_strategy env) (en_strategy e))
      (so_risk_target_price (ee_strategy env) (en_strategy e)) (bk_manager b, w) = (Inl x, (pm, w1))"
    from open_leg_raises [OF this] show "reached env b0 (b\<lparr>bk_manager := pm\<rparr>)" using b(1) by simp
  next
    show "tri (on_the_book (reached env b0)) (andDo (notify env ''entry'')
       (modify (\<lambda>e. case en_option_candles e of
            None \<Rightarrow> e
          | Some cb \<Rightarrow> e\<lparr>en_option_candles := Some (retarget (oc_security_id c) [] cb),
                         en_option_candle_contract_id := Some (oc_security_id c),
                         en_last_option_tick_ts := Some ts, en_premium_gap_logged := False\<rparr>)))
      (\<lambda>_. on_the_book (reached env b0)) (on_the_book (reached env b0))" for x
      by (rule tri_andThen, rule book_frames, assumption, rule frame)
  qed
qed

text \<open>What a close that was filled leaves, before its bookkeeping.\<close>

definition filled_close :: "('s, 'w) engine_env \<Rightarrow> book \<Rightarrow> string \<Rightarrow> trade \<Rightarrow> book \<Rightarrow> bool" where
  "filled_close env b0 pid t b' =
     (\<exists>b pm. reached env b0 b \<and> b' = b\<lparr>bk_manager := pm\<rparr> \<and> pm_positions pm = dict_pop pid (pm_positions (bk_manager b))
        \<and> book_step env b (b\<lparr>bk_manager := pm, bk_guard := booked_trade t (bk_guard b)\<rparr>))"

text \<open>
  Closing keeps to the machine; when it returns, the manager is the one the
  filled close left, whatever that is known to satisfy.
\<close>

lemma dict_pop_keys: "map fst (dict_pop k d) = filter (\<lambda>x. x \<noteq> k) (map fst d)"
  by (induction d) auto

lemma close_position_walks:
  assumes J: "\<And>pm w rg tags t pm' w'. keyed pm \<Longrightarrow> I pm \<Longrightarrow>
    close_leg (ee_gateway env) pid price ts reason rg tags (pm, w) = (Inr t, (pm', w')) \<Longrightarrow> J pm'"
  shows "tri (on_the_book (\<lambda>b. reached env b0 b \<and> I (bk_manager b))) (close_position env pid price ts reason)
    (\<lambda>_. on_the_book (\<lambda>b. reached env b0 b \<and> J (bk_manager b))) (on_the_book (reached env b0))"
proof -
  let ?G = "\<lambda>b. reached env b0 b \<and> J (bk_manager b)"
  have guard: "tri (on_the_book (\<lambda>b. filled_close env b0 pid t b \<and> J (bk_manager b)))
    (modify (\<lambda>e. e\<lparr>en_daily_guard := map_option (\<lambda>g. snd (register_trade (net_pnl t) g)) (en_daily_guard e)\<rparr>))
    (\<lambda>_. on_the_book ?G) (on_the_book (reached env b0))" for t
  proof (rule tri_modify_book, goal_cases)
    case (1 e)
    note a = 1
    then obtain b pm where b: "reached env b0 b" "book_of e = b\<lparr>bk_manager := pm\<rparr>"
      "book_step env b (b\<lparr>bk_manager := pm, bk_guard := booked_trade t (bk_guard b)\<rparr>)"
      by (auto simp: filled_close_def)
    have "en_daily_guard e = bk_guard b" using arg_cong [OF b(2), of bk_guard] by simp
    then show ?case
      using a reached_step [OF b(1,3)] by (simp add: b(2) booked_trade_def)
  qed
  have oc: "tri (on_the_book ?G) (modify (\<lambda>e. case en_option_candles e of
               None \<Rightarrow> e
             | Some cb \<Rightarrow> e\<lparr>en_option_candles := Some (reset_builder cb), en_option_candle_contract_id := None,
                            en_last_option_tick_ts := None\<rparr>)) (\<lambda>_. on_the_book ?G) (on_the_book (reached env b0))"
    by (rule tri_modify_book) (simp split: option.split)
  have un: "tri (on_the_book ?G) (case c of None \<Rightarrow> ret () | Some c \<Rightarrow> upd_feed (unsubscribe (oc_security_id c)))
      (\<lambda>_. on_the_book ?G) (on_the_book (reached env b0))" for c :: "option_contract option"
    by (intro tri_case_option tri_ret_book book_frames; simp)
  have book: "tri (on_the_book (\<lambda>b. reached env b0 b \<and> I (bk_manager b)))
      (on_book (close_leg (ee_gateway env) pid price ts reason rg tags))
      (\<lambda>t. on_the_book (\<lambda>b. filled_close env b0 pid t b \<and> J (bk_manager b))) (on_the_book (reached env b0))" for rg tags
  proof (rule tri_same_book, rule tri_on_book)
    fix b w t pm w1
    assume b: "reached env b0 b \<and> I (bk_manager b)"
      and c: "close_leg (ee_gateway env) pid price ts reason rg tags (bk_manager b, w) = (Inr t, (pm, w1))"
    have "J pm" using b c by (intro J) (auto dest: reached_keyed)
    moreover have "filled_close env b0 pid t (b\<lparr>bk_manager := pm\<rparr>)"
      using b close_leg_book [OF c] left [OF c] unfolding filled_close_def by blast
    ultimately show "filled_close env b0 pid t (b\<lparr>bk_manager := pm\<rparr>) \<and> J (bk_manager (b\<lparr>bk_manager := pm\<rparr>))" by simp
  next
    fix b w x pm w1
    assume b: "reached env b0 b \<and> I (bk_manager b)"
      and c: "close_leg (ee_gateway env) pid price ts reason rg tags (bk_manager b, w) = (Inl x, (pm, w1))"
    from close_leg_raises [OF c] show "reached env b0 (b\<lparr>bk_manager := pm\<rparr>)" using b by simp
  qed
  show ?thesis
    unfolding close_position_def Let_def
    by (rule tri_reading_keep, rule tri_andThen, rule book, rule tri_andThen, rule guard,
        intro tri_andThen [where R = "\<lambda>_. on_the_book ?G"] un oc book_frames persist_frames; simp)
qed

lemma close_position_keeps: "walks env b0 (close_position env pid price ts reason)"
  using close_position_walks [where I = "\<lambda>_. True" and J = "\<lambda>_. True"] by simp

definition contract_ids :: "open_position list \<Rightarrow> string list" where
  "contract_ids ps = map (\<lambda>p. oc_security_id (op_contract p)) ps"

lemma contract_ids_simps [simp]:
  "contract_ids [] = []" "contract_ids (p # ps) = oc_security_id (op_contract p) # contract_ids ps"
  by (simp_all add: contract_ids_def)

text \<open>The manager while a square-off is under way: these positions left, those trades booked.\<close>

definition squaring :: "trade list \<Rightarrow> string list \<Rightarrow> string list \<Rightarrow> position_manager \<Rightarrow> bool" where
  "squaring ts0 still gone pm =
     (map fst (pm_positions pm) = still
      \<and> (\<exists>ts. pm_trades pm = ts0 @ ts \<and> map (\<lambda>t. oc_security_id (tr_contract t)) ts = gone
             \<and> list_all (\<lambda>t. tr_exit_reason t = SQUARE_OFF) ts))"

lemma keyed_ids: "keyed pm \<Longrightarrow> map fst (pm_positions pm) = contract_ids (positions_of pm)"
proof -
  assume k: "keyed pm"
  have "fst x = oc_security_id (op_contract (snd x))" if "x \<in> set (pm_positions pm)" for x
    using k that by (cases x) (simp add: keyed_def filed_def)
  then show ?thesis by (simp add: contract_ids_def positions_of_def)
qed

lemma filter_head: "distinct (k # ks) \<Longrightarrow> filter (\<lambda>x. x \<noteq> k) (k # ks) = ks"
  by (auto intro: filter_True)

lemma squaring_step:
  assumes k: "keyed pm" and sq: "squaring ts0 (k # ks) gone pm"
    and c: "close_leg gw k price ts SQUARE_OFF rg tags (pm, w) = (Inr t, (pm', w'))"
  shows "squaring ts0 ks (gone @ [k]) pm'"
proof -
  obtain p where p: "pm_positions pm' = dict_pop k (pm_positions pm)" "pm_trades pm' = pm_trades pm @ [t]"
    "dict_get (pm_positions pm) k = Some p" "tr_contract t = op_contract p" "tr_exit_reason t = SQUARE_OFF"
    using close_leg_book [OF c] by blast
  have "distinct (k # ks)" using k sq by (simp add: keyed_def squaring_def)
  then have "map fst (pm_positions pm') = ks"
    using sq filter_head [of k ks] by (simp add: p(1) dict_pop_keys squaring_def)
  moreover have "oc_security_id (op_contract p) = k" using k p(3) by (auto simp: keyed_def filed_def simp del: map_of_eq_Some_iff)
  ultimately show ?thesis using sq p(2,4,5) by (auto simp: squaring_def)
qed

lemma close_positions_walks:
  "tri (on_the_book (\<lambda>b. reached env b0 b \<and> squaring ts0 (contract_ids ps) gone (bk_manager b))) (close_positions env ts ps)
    (\<lambda>_. on_the_book (\<lambda>b. reached env b0 b \<and> squaring ts0 [] (gone @ contract_ids ps) (bk_manager b)))
    (on_the_book (reached env b0))"
proof (induction ps arbitrary: gone)
  case Nil
  show ?case by simp (rule tri_ret_book, assumption)
next
  case (Cons p ps)
  have "tri (on_the_book (\<lambda>b. reached env b0 b \<and> squaring ts0 (contract_ids (p # ps)) gone (bk_manager b)))
      (close_position env (oc_security_id (op_contract p)) (op_last_price p) ts SQUARE_OFF)
      (\<lambda>_. on_the_book (\<lambda>b. reached env b0 b
         \<and> squaring ts0 (contract_ids ps) (gone @ [oc_security_id (op_contract p)]) (bk_manager b)))
      (on_the_book (reached env b0))"
    by (rule close_position_walks) (simp add: squaring_step)
  then show ?case using Cons [of "gone @ [oc_security_id (op_contract p)]"] by (simp add: tri_andThen)
qed

definition squared :: "trade list \<Rightarrow> string list \<Rightarrow> book \<Rightarrow> bool" where
  "squared ts0 ids b = (bk_squared_off b \<and> squaring ts0 [] ids (bk_manager b))"

lemma handle_square_off_flattens:
  assumes "reached env b0 (book_of e)" "\<not> en_squared_off e"
  shows "tri (on_the_book ((=) (book_of e))) (handle_square_off env ts)
    (\<lambda>_ e'. reached env b0 (book_of e')
       \<and> squared (pm_trades (en_positions e)) (contract_ids (positions_of (en_positions e))) (book_of e')
       \<and> \<not> fd_running (en_feed e')) (on_the_book (reached env b0))"
  unfolding handle_square_off_def
proof (rule tri_reading_book)
  fix e2 :: "('a, 'b) engine"
  assume e2: "book_of e = book_of e2"
  let ?T = "pm_trades (en_positions e)" and ?ids = "contract_ids (positions_of (en_positions e))"
  have fields: "en_positions e2 = en_positions e" "en_squared_off e2 = en_squared_off e"
    using arg_cong [OF e2, of bk_manager] arg_cong [OF e2, of bk_squared_off] by simp_all
  have closed: "tri (on_the_book ((=) (book_of e2))) (close_positions env ts (positions_of (en_positions e2)))
    (\<lambda>_. on_the_book (\<lambda>b. reached env b0 b \<and> squaring ?T [] ?ids (bk_manager b))) (on_the_book (reached env b0))"
    using keyed_ids [of "en_positions e"] reached_keyed [OF assms(1)] assms(1) e2
      close_positions_walks [of env b0 ?T "positions_of (en_positions e)" "[]" ts]
    by (auto simp: squaring_def fields elim!: tri_weaken_book)
  have latch: "tri (on_the_book (\<lambda>b. reached env b0 b \<and> squaring ?T [] ?ids (bk_manager b)))
    (modify (\<lambda>e. e\<lparr>en_squared_off := True\<rparr>))
    (\<lambda>_. on_the_book (\<lambda>b. reached env b0 b \<and> squared ?T ?ids b)) (on_the_book (reached env b0))"
    by (rule tri_modify_book) (auto simp: squared_def squaring_def intro!: reached_step [OF _ completed_day])
  have stopped: "tri (on_the_book (\<lambda>b. reached env b0 b \<and> squared ?T ?ids b)) (upd_feed stop_feed)
    (\<lambda>_ e'. reached env b0 (book_of e') \<and> squared ?T ?ids (book_of e') \<and> \<not> fd_running (en_feed e'))
    (on_the_book (reached env b0))"
    unfolding upd_feed_def by (rule tri_modify) (simp add: on_the_book_def stop_feed_def)
  show "tri (on_the_book ((=) (book_of e2)))
     (if en_squared_off e2 then ret ()
      else andDo (close_positions env ts (positions_of (en_positions e2)))
        (andDo (modify (\<lambda>e. e\<lparr>en_squared_off := True\<rparr>))
        (andDo (on_world (ee_completed env ts))
        (andDo (notify env ''square_off_completed'') (upd_feed stop_feed)))))
     (\<lambda>_ e'. reached env b0 (book_of e') \<and> squared ?T ?ids (book_of e') \<and> \<not> fd_running (en_feed e'))
     (on_the_book (reached env b0))"
    using assms(2) fields(2)
    by (simp, intro tri_andThen [OF closed] tri_andThen [OF latch])
       (rule tri_andThen, rule book_frames, simp, rule tri_andThen, rule book_frames, simp, rule stopped)
qed

lemma handle_square_off_keeps: "walks env b0 (handle_square_off env ts)"
proof (rule triI, goal_cases)
  case (1 e r e')
  show ?case
  proof (cases "en_squared_off e")
    case True
    then show ?thesis using 1 by (auto simp: handle_square_off_def reading_def ret_def)
  next
    case False
    have "reached env b0 (book_of e)" "on_the_book ((=) (book_of e)) e" using 1(1) by (simp_all add: on_the_book_def)
    from tri_run [OF handle_square_off_flattens [OF this(1) False] this(2) 1(2)] show ?thesis
      by (auto simp: on_the_book_def split: sum.splits)
  qed
qed

lemmas keep_engine = keep_rules book_frames persist_frames block_entries_walks close_position_keeps
  handle_square_off_keeps

lemma keeps_modify: "(\<And>e. book_of (f e) = book_of e) \<Longrightarrow> walks env b0 (modify f)"
  by (rule tri_modify_book) simp

lemma shutdown_walks: "walks env b0 (shutdown env ts)"
  unfolding shutdown_def by (intro keep_engine keeps_modify; (assumption | simp))

lemma keeps_checked: "(\<And>x. r = Inr x \<Longrightarrow> keeps P (f x)) \<Longrightarrow> keeps P (andThen (lift_result r) f)"
  by (cases r) (simp_all add: tri_def andThen_def lift_result_def)

lemma enter_if_open_walks:
  "walks env b0 (andThen (lift_result (can_enter (ee_session env) ts)) (\<lambda>ok. if ok then enter env sg ts else ret ()))"
  by (rule keeps_checked) (simp add: enter_walks keep_rules)

lemma on_candle_close_walks: "walks env b0 (on_candle_close env candle ts)"
  unfolding on_candle_close_def Let_def
  by (intro enter_if_open_walks keep_engine keeps_modify; (assumption | simp))

lemma check_premium_candle_gap_walks: "walks env b0 (check_premium_candle_gap env ts)"
  unfolding check_premium_candle_gap_def by (rule keeps_modify) simp

lemma on_underlying_tick_walks: "walks env b0 (on_underlying_tick env t)"
  unfolding on_underlying_tick_def
  by (intro keep_engine keeps_modify on_candle_close_walks check_premium_candle_gap_walks; (assumption | simp))

lemma check_premium_candle_exit_walks: "walks env b0 (check_premium_candle_exit env t)"
  unfolding check_premium_candle_exit_def Let_def
  by (intro keep_engine keeps_modify; (assumption | simp))

lemma on_guard_walks: "walks env b0 (on_guard (check_open_mtm pnl))"
proof (rule tri_same_book)
  fix b assume b: "reached env b0 b"
  have "reached env b0 (b\<lparr>bk_guard := Some (snd (check_open_mtm pnl g))\<rparr>)" if "bk_guard b = Some g" for g
    by (rule reached_step [OF b]) (rule marked_to_market [OF that])
  then show "tri (on_the_book ((=) b)) (on_guard (check_open_mtm pnl)) (\<lambda>_. on_the_book (reached env b0))
      (on_the_book (reached env b0))"
    using b by (auto simp: tri_def on_the_book_def on_guard_def split: option.split prod.split)
qed

lemma exit_decision_walks: "walks env b0 (exit_decision env pos t)"
  unfolding exit_decision_def or_else_def
  by (intro keep_engine on_guard_walks check_premium_candle_exit_walks)

lemma fill_pending_walks: "walks env b0 (fill_pending env t)"
  unfolding fill_pending_def
proof (rule tri_reading_book, goal_cases)
  case (1 e)
  let ?R = "on_the_book (reached env b0)"
  have stay: "tri (on_the_book ((=) (book_of e))) (ret ()) (\<lambda>_. ?R) ?R" by (rule tri_ret_book) (use 1 in simp)
  have drop: "walks env b0 (modify (\<lambda>e. e\<lparr>en_pending := None, en_pending_side := None\<rparr>))"
    by (rule tri_modify_book) (auto intro: reached_step dropped)
  have fill: "tri (on_the_book ((=) (book_of e)))
      (andThen (lift_result (can_enter (ee_session env) (tk_exchange_time t))) (\<lambda>ok.
         case (ok, en_pending_side e) of
           (True, Some s) \<Rightarrow> open_entry env c s (tk_last_price t) (tk_exchange_time t)
         | _ \<Rightarrow> ret ())) (\<lambda>_. ?R) ?R"
    if "en_pending e = Some c" "pm_positions (en_positions e) = []" for c
  proof (cases "can_enter (ee_session env) (tk_exchange_time t)")
    case (Inl x)
    then show ?thesis using 1 by (auto simp: tri_def andThen_def lift_result_def on_the_book_def)
  next
    case (Inr ok)
    have "andThen (lift_result (Inr ok)) f = f ok" for f :: "bool \<Rightarrow> (unit, ('a, 'b) engine) act"
      by (simp add: andThen_def lift_result_def fun_eq_iff)
    then show ?thesis using Inr that 1 stay open_entry_walks [of env b0 "book_of e" c]
      by (auto simp: andThen_def lift_result_def split: option.split bool.split)
  qed
  show ?case
    using stay fill by (auto simp: has_position_def split: option.split intro!: tri_andThen [OF _ drop])
qed

lemma on_option_tick_walks: "walks env b0 (on_option_tick env t)"
proof -
  have mark: "walks env b0 (modify (\<lambda>e. e\<lparr>en_positions := mark_position sid price (en_positions e)\<rparr>))" for sid price
    by (rule tri_modify_book) (use marked reached_step in fastforce)
  show ?thesis unfolding on_option_tick_def
    by (intro keep_engine fill_pending_walks exit_decision_walks mark)
qed

lemma on_tick_walks: "walks env b0 (on_tick env t)"
  unfolding on_tick_def
  by (intro keep_engine shutdown_walks on_underlying_tick_walks on_option_tick_walks; assumption)

lemma deliver_walks: "walks env b0 (deliver env evs)"
proof (induction evs)
  case (Cons ev evs)
  have "walks env b0 request_square_off" unfolding request_square_off_def by (rule keeps_modify) simp
  then have "walks env b0 (case ev of
       Tick_Arrives t \<Rightarrow> on_tick env t | Square_Off_Asked \<Rightarrow> request_square_off
     | Entries_Refused reason \<Rightarrow> block_entries env (Reported reason))"
    using on_tick_walks block_entries_walks by (cases ev) simp_all
  with Cons show ?case by (simp add: keep_rules)
qed (simp add: keep_rules)

lemma drive_walks: "walks env b0 (drive env now evs)"
proof -
  have fin: "walks env b0 (finish env now)"
    unfolding finish_def by (intro keep_engine keeps_modify; simp)
  have body: "walks env b0 (attempt (andDo (upd_feed (\<lambda>f. f\<lparr>fd_running := True\<rparr>)) (deliver env evs))
             (\<lambda>x. andDo (notify env ''engine_error'') (andDo (handle_square_off env now) (lift_result (Inl x)))))"
    by (intro keep_engine deliver_walks; assumption)
  show ?thesis
  proof (rule triI, goal_cases)
    case (1 e r e2)
    let ?body = "attempt (andDo (upd_feed (\<lambda>f. f\<lparr>fd_running := True\<rparr>)) (deliver env evs))
             (\<lambda>x. andDo (notify env ''engine_error'') (andDo (handle_square_off env now) (lift_result (Inl x)))) e"
    obtain r1 e1 x e3 where e1: "?body = (r1, e1)" and e3: "finish env now e1 = (x, e3)" by (metis surj_pair)
    have "on_the_book (reached env b0) e3" using keepsD [OF fin keepsD [OF body 1(1) e1] e3] .
    moreover have "e2 = e3" using 1(2) by (simp add: drive_def e1 e3 split: sum.splits)
    ultimately show ?case by (cases r) simp_all
  qed
qed

end
