(* ===== verification/Engine_Safety.thy ===== *)
theory Engine_Safety
  imports Engine_Book
begin

text \<open>
  What the book machine rules out, and with it every run of the trading engine:
  two positions at once, an entry outside the session's window or on a blocked
  or halted day, a completed day that is not flat, a daily guard that disagrees
  with the trades.
\<close>

section \<open>Invariants of the book machine\<close>

definition entry_allowed :: "('s, 'w) engine_env \<Rightarrow> datetime list \<Rightarrow> datetime \<Rightarrow> bool" where
  "entry_allowed env carried ts = (ts \<in> set carried \<or> can_enter (ee_session env) ts = Inr True)"

definition entries_ok :: "('s, 'w) engine_env \<Rightarrow> datetime list \<Rightarrow> trade list \<Rightarrow> book \<Rightarrow> bool" where
  "entries_ok env carried ts0 b =
     (length (pm_positions (bk_manager b)) \<le> 1
      \<and> (\<forall>k p. dict_get (pm_positions (bk_manager b)) k = Some p \<longrightarrow> entry_allowed env carried (op_entry_time p))
      \<and> (\<exists>ts. pm_trades (bk_manager b) = ts0 @ ts \<and> list_all (\<lambda>t. entry_allowed env carried (tr_entry_time t)) ts))"

lemma mark_length [simp]: "length (pm_positions (mark_position sid price pm)) = length (pm_positions pm)"
proof (cases "dict_get (pm_positions pm) sid")
  case (Some p)
  then have "sid \<in> set (map fst (pm_positions pm))" by (metis domI dom_map_of_conv_image_fst list.set_map)
  then have "map fst (dict_set sid q (pm_positions pm)) = map fst (pm_positions pm)" for q by (simp add: update_keys)
  then have "length (dict_set sid q (pm_positions pm)) = length (pm_positions pm)" for q by (metis length_map)
  then show ?thesis using Some by (simp add: mark_position_def)
qed (simp add: mark_position_def)

lemma mark_keys [simp]: "map fst (pm_positions (mark_position sid price pm)) = map fst (pm_positions pm)"
proof (cases "dict_get (pm_positions pm) sid")
  case (Some p)
  then have "sid \<in> set (map fst (pm_positions pm))" by (metis domI dom_map_of_conv_image_fst list.set_map)
  then show ?thesis using Some by (simp add: mark_position_def update_keys)
qed (simp add: mark_position_def)

lemma mark_trades [simp]: "pm_trades (mark_position sid price pm) = pm_trades pm"
  by (simp add: mark_position_def split: option.split)

lemma mark_entry_times:
  "dict_get (pm_positions (mark_position sid price pm)) k = Some p \<Longrightarrow>
    \<exists>q. dict_get (pm_positions pm) k = Some q \<and> op_entry_time p = op_entry_time q"
  by (auto simp: mark_position_def split: option.splits if_splits simp del: map_of_eq_Some_iff)

lemma dict_pop_length: "length (dict_pop k d) \<le> length d"
  by (rule length_delete_le)

lemma entries_ok_step: "book_step env b b' \<Longrightarrow> entries_ok env carried ts0 b \<Longrightarrow> entries_ok env carried ts0 b'"
proof (induction rule: book_step.induct)
  case (marked b sid price)
  then show ?case using mark_entry_times [of sid price "bk_manager b"] unfolding entries_ok_def
    by simp metis
next
  case (opened b c s ts price regime features stop target w p pm w1)
  then show ?case using open_leg_empty [OF opened(1,5)] by (auto simp: entries_ok_def entry_allowed_def)
next
  case (left pid price ts reason regime tags b w t pm w1)
  from close_leg_book [OF left(1)] obtain p where p: "pm_positions pm = dict_pop pid (pm_positions (bk_manager b))"
    "pm_trades pm = pm_trades (bk_manager b) @ [t]" "dict_get (pm_positions (bk_manager b)) pid = Some p"
    "tr_entry_time t = op_entry_time p" by blast
  have "entry_allowed env carried (tr_entry_time t)" using left(2) p(3,4) by (simp add: entries_ok_def)
  then show ?case using left(2) dict_pop_length [of pid "pm_positions (bk_manager b)"]
    by (auto simp: entries_ok_def p(1,2) simp del: map_of_eq_Some_iff)
qed (simp_all add: entries_ok_def)

lemma entries_ok_steps: "book_steps env b b' \<Longrightarrow> entries_ok env carried ts0 b \<Longrightarrow> entries_ok env carried ts0 b'"
  by (induction rule: rtranclp_induct) (simp_all add: entries_ok_step)

text \<open>Entries are shut: refused for the day or past a limit, and none pending.\<close>

definition entries_shut :: "book \<Rightarrow> bool" where
  "entries_shut b = ((bk_blocked b \<noteq> None \<or> opt_holds halted (bk_guard b)) \<and> bk_pending b = None)"

definition only_leaves :: "string list \<Rightarrow> book \<Rightarrow> bool" where
  "only_leaves ks b = (set (map fst (pm_positions (bk_manager b))) \<subseteq> set ks)"

lemma only_leavesI:
  "bk_manager b = pm \<Longrightarrow> set (map fst (pm_positions pm)) \<subseteq> set ks \<Longrightarrow> only_leaves ks b"
  by (simp add: only_leaves_def)

lemma register_halted: "halted g \<Longrightarrow> halted (snd (register_trade net g))"
  by (simp add: register_trade_def)

lemma mtm_halted: "halted g \<Longrightarrow> halted (snd (check_open_mtm pnl g))"
  by (simp add: check_open_mtm_def)

lemma shut_step:
  "book_step env b b' \<Longrightarrow> entries_shut b \<and> only_leaves ks b \<Longrightarrow> entries_shut b' \<and> only_leaves ks b'"
proof (induction rule: book_step.induct)
  case (left pid price ts reason regime tags b w t pm w1)
  from close_leg_book [OF left(1)] have "map fst (pm_positions pm) = filter (\<lambda>x. x \<noteq> pid) (map fst (pm_positions (bk_manager b)))"
    by (simp add: dict_pop_keys)
  then have "set (map fst (pm_positions pm)) \<subseteq> set (map fst (pm_positions (bk_manager b)))" by simp
  then have "only_leaves ks (b\<lparr>bk_manager := pm, bk_guard := booked_trade t (bk_guard b)\<rparr>)"
    using left(2) by (intro only_leavesI) (auto simp: only_leaves_def simp del: set_map)
  moreover have "entries_shut (b\<lparr>bk_manager := pm, bk_guard := booked_trade t (bk_guard b)\<rparr>)"
    using left(2) register_halted by (cases "bk_guard b") (auto simp: entries_shut_def booked_trade_def)
  ultimately show ?case by blast
qed (auto simp: entries_shut_def only_leaves_def mtm_halted)

lemma shut_steps:
  "book_steps env b b' \<Longrightarrow> entries_shut b \<Longrightarrow> only_leaves ks b \<Longrightarrow> entries_shut b' \<and> only_leaves ks b'"
  by (induction rule: rtranclp_induct) (blast dest: shut_step)+

text \<open>The guard has seen exactly the trades.\<close>

definition guard_follows :: "daily_guard \<Rightarrow> trade list \<Rightarrow> book \<Rightarrow> bool" where
  "guard_follows g0 ts0 b =
     (\<exists>cs ts. bk_guard b = Some (guard_calls cs g0) \<and> pm_trades (bk_manager b) = ts0 @ ts
        \<and> booked cs = map net_pnl ts)"

lemma guard_followsI:
  "bk_guard b = Some (guard_calls cs g0) \<Longrightarrow> pm_trades (bk_manager b) = ts0 @ ts \<Longrightarrow> booked cs = map net_pnl ts
    \<Longrightarrow> guard_follows g0 ts0 b"
  unfolding guard_follows_def by blast

lemma guard_follows_step: "book_step env b b' \<Longrightarrow> guard_follows g0 ts0 b \<Longrightarrow> guard_follows g0 ts0 b'"
proof (induction rule: book_step.induct)
  case (opened b c s ts price regime features stop target w p pm w1)
  then show ?case using open_leg_empty [OF opened(1,5)] by (simp add: guard_follows_def)
next
  case (left pid price ts reason regime tags b w t pm w1)
  then obtain cs us where "bk_guard b = Some (guard_calls cs g0)" "pm_trades (bk_manager b) = ts0 @ us"
    "booked cs = map net_pnl us" unfolding guard_follows_def by blast
  then show ?case using close_leg_book [OF left(1)]
    by (intro guard_followsI [where cs = "cs @ [Booked (net_pnl t)]" and ts = "us @ [t]"])
       (simp_all add: booked_trade_def)
next
  case (marked_to_market b g pnl)
  then obtain cs us where "bk_guard b = Some (guard_calls cs g0)" "pm_trades (bk_manager b) = ts0 @ us"
    "booked cs = map net_pnl us" unfolding guard_follows_def by blast
  then show ?case using marked_to_market(1)
    by (intro guard_followsI [where cs = "cs @ [Marked pnl]" and ts = us]) simp_all
qed (simp_all add: guard_follows_def)

lemma guard_follows_steps: "book_steps env b b' \<Longrightarrow> guard_follows g0 ts0 b \<Longrightarrow> guard_follows g0 ts0 b'"
  by (induction rule: rtranclp_induct) (simp_all add: guard_follows_step)

text \<open>A run of the engine, as a path of its book.\<close>

lemma drive_book:
  assumes "keyed (en_positions e)" "drive env now evs e = (r, e')"
  shows "book_steps env (book_of e) (book_of e')"
proof -
  have "on_the_book (reached env (book_of e)) e" using assms(1) by (simp add: on_the_book_def reached_def)
  from keepsD [OF drive_walks this assms(2)] show ?thesis by (simp add: on_the_book_def reached_def)
qed

section \<open>A scripted day\<close>

text \<open>
  A strategy that plays back its signals, on the in-memory gateway: a call is
  bought after the first candle and held into the square-off.
\<close>

definition scripted :: "strategy_signal option list strategy" where
  "scripted =
     \<lparr>so_on_candle = (\<lambda>_ _ s. case s of [] \<Rightarrow> (Inr None, []) | x # xs \<Rightarrow> (Inr x, xs)),
      so_reset = ret (), so_on_position_tick = (\<lambda>_ _. ret None), so_on_position_closed = (\<lambda>_. ret ()),
      so_exit_state_snapshot = (\<lambda>_. []), so_restore_exit_state = (\<lambda>_. ret ()), so_needs_option_candles = False,
      so_on_option_candle = (\<lambda>_ _. ret None), so_on_option_candle_gap = ret (), so_on_candle_gap = (\<lambda>_ _. ret ()),
      so_option_selection = \<lparr>os_moneyness = ATM, os_steps = 0\<rparr>, so_risk_reset = (\<lambda>s. s),
      so_risk_new_position = (\<lambda>_ _ s. s), so_risk_on_pnl = (\<lambda>_ s. (None, s)),
      so_risk_stop_price = (\<lambda>_. None), so_risk_target_price = (\<lambda>_. None)\<rparr>"

definition demo_session :: market_session where
  "demo_session = \<lparr>ms_tz = ist, ms_start = 9 * hour + 15 * minute, ms_end = 15 * hour, ms_square_off = 15 * hour + 15 * minute,
     ms_holidays = []\<rparr>"

definition demo_env :: "(strategy_signal option list, in_memory_gateway) engine_env" where
  "demo_env =
     \<lparr>ee_strategy = scripted, ee_gateway = in_memory, ee_session = demo_session, ee_underlying_id = ''13'',
      ee_interval = 5, ee_select = (\<lambda>_ _ _ _. Inr pm_contract),
      ee_due = (\<lambda>ts w. (bindE (local_time_in ts ist) (\<lambda>t. Inr (15 * hour + 15 * minute \<le> t)), w)),
      ee_completed = (\<lambda>_. ret ()), ee_recover_position = None, ee_recover_daily_risk = None, ee_recover_exit_state = None,
      ee_persist_exit_state = None, ee_persist_position_marks = None, ee_beat = (\<lambda>_ _. ret ()),
      ee_notify = (\<lambda>_ w. w), ee_regime_observe = (\<lambda>_ w. w), ee_regime_reset = (\<lambda>w. w),
      ee_current_regime = (\<lambda>_. None), ee_current_features = (\<lambda>_. ''{}''), ee_session_tags = (\<lambda>_ _ _. [])\<rparr>"

definition demo_engine :: "strategy_signal option list \<Rightarrow> daily_risk_config option
    \<Rightarrow> (strategy_signal option list, in_memory_gateway) engine" where
  "demo_engine script cfg =
     \<lparr>en_strategy = script, en_world = pm_gateway, en_feed = \<lparr>fd_subscribed = [], fd_running = False\<rparr>,
      en_positions = new_position_manager 1,
      en_candles = \<lparr>cb_interval = 5, cb_security_id = ''13'', cb_instrument = ''NIFTY'', cb_current = None\<rparr>,
      en_option_candles = None, en_option_candle_contract_id = None, en_last_option_tick_ts = None,
      en_premium_gap_logged = False, en_last_processed_candle_end = None, en_spot = None, en_pending = None,
      en_pending_side = None, en_squared_off = False, en_square_off_requested = False,
      en_stopped_by_request = False, en_entry_blocked = None, en_daily_guard = map_option new_daily_guard cfg\<rparr>"

definition buy_call :: strategy_signal where
  "buy_call = \<lparr>sgl_action = ENTER, sgl_timestamp = at_ist 9 20 0, sgl_option_type = Some CE, sgl_side = BUY,
     sgl_option_selection = None, sgl_reason = ''cross'', sgl_exit_reason = None\<rparr>"

definition demo_events :: "engine_event list" where
  "demo_events =
     map Tick_Arrives
       [tick_at ''13'' 23510 (at_ist 9 16 0), tick_at ''13'' 23520 (at_ist 9 21 0), tick_at ''42'' 120 (at_ist 9 21 5),
        tick_at ''42'' 150 (at_ist 11 0 0), tick_at ''13'' 23600 (at_ist 15 15 1), tick_at ''13'' 23600 (at_ist 15 15 2)]"

definition demo_start :: "(strategy_signal option list, in_memory_gateway) engine" where
  "demo_start = demo_engine [Some buy_call] (Some loss_cap)"

lemma demo_env_simps:
  "ee_strategy demo_env = scripted" "ee_gateway demo_env = in_memory" "ee_session demo_env = demo_session"
  "ee_underlying_id demo_env = ''13''" "ee_completed demo_env ts = ret ()" "ee_notify demo_env ev w = w"
  "ee_current_regime demo_env w = None" "ee_session_tags demo_env c ts w = []"
  "ee_persist_exit_state demo_env = None"
  by (simp_all add: demo_env_def)

text \<open>The same engine with a call open, and the tick that squares it off.\<close>

definition demo_holding :: "(strategy_signal option list, in_memory_gateway) engine" where
  "demo_holding = demo_start\<lparr>en_positions := fst (snd pm_opened)\<rparr>"

definition demo_tick :: tick where
  "demo_tick = tick_at ''13'' 23600 (at_ist 15 15 1)"

definition demo_closed :: "trade result \<times> (position_manager \<times> in_memory_gateway)" where
  "demo_closed = close_leg in_memory ''42'' (op_last_price (projr (fst pm_opened))) (at_ist 15 15 1) SQUARE_OFF None []
     (fst (snd pm_opened), pm_gateway)"

definition demo_trade :: trade where "demo_trade = projr (fst demo_closed)"
definition demo_manager :: position_manager where "demo_manager = fst (snd demo_closed)"
definition demo_world :: in_memory_gateway where "demo_world = snd (snd demo_closed)"

lemma demo_due: "ee_due demo_env (tk_exchange_time demo_tick) w = (Inr True, w)"
  by (simp add: demo_env_def demo_tick_def tick_at_def at_ist_def local_time_in_def aware_def astimezone_def dt_time_def
      instant_def time_units ist_def)

lemma demo_position:
  "pm_positions (fst (snd pm_opened)) = [(''42'', projr (fst pm_opened))]"
  "oc_security_id (op_contract (projr (fst pm_opened))) = ''42''"
  by code_simp+

lemma demo_closed_run:
  "close_leg in_memory ''42'' (op_last_price (projr (fst pm_opened))) (at_ist 15 15 1) SQUARE_OFF None []
     (fst (snd pm_opened), pm_gateway) = (Inr demo_trade, (demo_manager, demo_world))"
proof -
  have "\<not> isl (fst demo_closed)" by code_simp
  from inr_triple [OF this] show ?thesis
    by (simp add: demo_trade_def demo_manager_def demo_world_def demo_closed_def)
qed

lemma demo_squares_off: "fst (on_tick demo_env demo_tick demo_holding) = Inr ()"
  using demo_due [of pm_gateway]
  by (simp add: on_tick_def act_run demo_env_simps demo_holding_def demo_start_def demo_engine_def on_world_def
      demo_tick_def handle_square_off_def positions_of_def demo_position close_position_def Let_def on_book_def
      demo_closed_run tick_at_def notify_def upd_feed_def upd_risk_def on_strategy_def scripted_def
      persist_exit_state_def get_position_def cong: act_weak_cong)

lemma demo_keyed: "keyed (en_positions demo_start)" "keyed (en_positions demo_holding)"
  by (simp_all add: demo_start_def demo_engine_def new_position_manager_def keyed_def filed_def demo_holding_def demo_position)

section \<open>Properties of the engine\<close>

text \<open>C17: every run of the engine is a path of the book machine, whatever the strategy
  decides, whatever the gateway, the authority and the callbacks answer or
  raise, and whatever ticks, square-off requests and feed reports arrive: one
  position is opened at a time, only for the pending contract, inside the entry
  window and with nothing open; a contract is queued only while entries are
  allowed; every close books its trade into the daily guard; and the day is
  recorded complete only when the book is flat.\<close>

theorem engine_refines_book:
  assumes "keyed (en_positions e)" "drive env now evs e = (r, e')"
  shows "book_steps env (book_of e) (book_of e')"
  using assms by (rule drive_book)

theorem engine_refines_book_witness:
  "book_steps demo_env (book_of demo_start) (book_of (snd (drive demo_env (at_ist 15 16 0) demo_events demo_start)))"
  by (rule engine_refines_book [OF demo_keyed(1) prod.collapse [symmetric]])

text \<open>C18: a run of the engine never holds two positions, and every position and every new
  trade was entered at a moment of the session's entry window, or was carried
  in from before the run.\<close>

theorem one_position_inside_the_window:
  assumes "keyed (en_positions e)" "length (positions_of (en_positions e)) \<le> 1" "drive env now evs e = (r, e')"
  shows "length (positions_of (en_positions e')) \<le> 1
    \<and> (let carried = map op_entry_time (positions_of (en_positions e)) in
       list_all (\<lambda>p. entry_allowed env carried (op_entry_time p)) (positions_of (en_positions e'))
       \<and> list_all (\<lambda>t. entry_allowed env carried (tr_entry_time t))
           (drop (length (pm_trades (en_positions e))) (pm_trades (en_positions e'))))"
proof -
  let ?carried = "map op_entry_time (positions_of (en_positions e))"
  have "\<And>k p. dict_get (pm_positions (en_positions e)) k = Some p \<Longrightarrow> p \<in> set (positions_of (en_positions e))"
    unfolding positions_of_def by (drule map_of_SomeD) force
  then have "entries_ok env ?carried (pm_trades (en_positions e)) (book_of e)"
    using assms(2) by (auto simp: entries_ok_def entry_allowed_def positions_of_def simp del: map_of_eq_Some_iff)
  from entries_ok_steps [OF drive_book [OF assms(1,3)] this]
  have ok: "entries_ok env ?carried (pm_trades (en_positions e)) (book_of e')" .
  have "keyed (en_positions e')" using keyed_steps [OF drive_book [OF assms(1,3)]] assms(1) by simp
  then have "\<exists>k. dict_get (pm_positions (en_positions e')) k = Some p" if "p \<in> set (positions_of (en_positions e'))" for p
    using that by (force simp: keyed_def positions_of_def)
  then show ?thesis using ok by (fastforce simp: entries_ok_def list_all_iff positions_of_def Let_def)
qed

theorem one_position_inside_the_window_witness:
  "length (positions_of (en_positions (snd (drive demo_env (at_ist 15 16 0) demo_events demo_start)))) \<le> 1"
proof -
  have "length (positions_of (en_positions demo_start)) \<le> 1"
    by (simp add: demo_start_def demo_engine_def new_position_manager_def positions_of_def)
  from one_position_inside_the_window [OF demo_keyed(1) this prod.collapse [symmetric]] show ?thesis by blast
qed

text \<open>C19: once entries are refused for the day or the daily guard has halted, and no entry
  is pending, the rest of the run only leaves positions: none is opened, whatever
  signals and ticks follow, and entries stay shut.\<close>

theorem no_entry_once_shut:
  assumes "keyed (en_positions e)" "en_entry_blocked e \<noteq> None \<or> opt_holds halted (en_daily_guard e)"
    and "en_pending e = None" "drive env now evs e = (r, e')"
  shows "set (map fst (pm_positions (en_positions e'))) \<subseteq> set (map fst (pm_positions (en_positions e)))
    \<and> en_pending e' = None \<and> (en_entry_blocked e' \<noteq> None \<or> opt_holds halted (en_daily_guard e'))"
proof -
  have "entries_shut (book_of e)" "only_leaves (map fst (pm_positions (en_positions e))) (book_of e)"
    using assms(2,3) by (simp_all add: entries_shut_def only_leaves_def)
  from shut_steps [OF drive_book [OF assms(1,4)] this] show ?thesis by (simp add: entries_shut_def only_leaves_def)
qed

theorem no_entry_once_shut_witness:
  "set (map fst (pm_positions (en_positions (snd (drive demo_env (at_ist 15 16 0) demo_events
      (demo_start\<lparr>en_entry_blocked := Some Warmup_Failed\<rparr>)))))) \<subseteq> {}"
  using no_entry_once_shut [of "demo_start\<lparr>en_entry_blocked := Some Warmup_Failed\<rparr>", OF _ _ _ prod.collapse [symmetric]]
    demo_keyed(1) by (simp add: demo_start_def demo_engine_def new_position_manager_def)

text \<open>C20: the daily guard is never out of step with the book: after any run it is the guard
  of the start of the run after the run's trades were registered one by one, in
  order and each once, with only mark-to-market checks in between.\<close>

theorem guard_books_every_trade:
  assumes "keyed (en_positions e)" "en_daily_guard e = Some g" "drive env now evs e = (r, e')"
  shows "\<exists>cs ts. en_daily_guard e' = Some (guard_calls cs g) \<and> pm_trades (en_positions e') = pm_trades (en_positions e) @ ts
    \<and> booked cs = map net_pnl ts"
proof -
  have "guard_follows g (pm_trades (en_positions e)) (book_of e)"
    by (rule guard_followsI [where cs = "[]" and ts = "[]"]) (simp_all add: assms(2))
  from guard_follows_steps [OF drive_book [OF assms(1,3)] this] show ?thesis by (simp add: guard_follows_def)
qed

theorem guard_books_every_trade_witness:
  "\<exists>cs ts. en_daily_guard (snd (drive demo_env (at_ist 15 16 0) demo_events demo_start))
        = Some (guard_calls cs (new_daily_guard loss_cap))
    \<and> pm_trades (en_positions (snd (drive demo_env (at_ist 15 16 0) demo_events demo_start))) = ts
    \<and> booked cs = map net_pnl ts"
proof -
  have "en_daily_guard demo_start = Some (new_daily_guard loss_cap)" "pm_trades (en_positions demo_start) = []"
    by (simp_all add: demo_start_def demo_engine_def new_position_manager_def)
  with guard_books_every_trade [OF demo_keyed(1) this(1) prod.collapse [symmetric]] show ?thesis by simp
qed

text \<open>C21: when square-off is due, or a shutdown was requested, a tick that returns leaves the
  book flat: every position that was open, and nothing else, has become a trade
  with the reason SQUARE\_OFF, the day is latched complete and the feed is
  stopped.\<close>

theorem square_off_flattens_the_book:
  assumes "keyed (en_positions e)" "\<not> en_squared_off e"
    and "en_square_off_requested e \<or> ee_due env (tk_exchange_time t) (en_world e) = (Inr True, w)"
    and "on_tick env t e = (Inr (), e')"
  shows "pm_positions (en_positions e') = [] \<and> en_squared_off e' \<and> \<not> fd_running (en_feed e')
    \<and> (\<exists>ts. pm_trades (en_positions e') = pm_trades (en_positions e) @ ts
        \<and> map (\<lambda>t. oc_security_id (tr_contract t)) ts = contract_ids (positions_of (en_positions e))
        \<and> list_all (\<lambda>t. tr_exit_reason t = SQUARE_OFF) ts)"
proof -
  let ?ts = "tk_exchange_time t"
  have "\<exists>e1. book_of e1 = book_of e \<and> handle_square_off env ?ts e1 = (Inr (), e')"
  proof (cases "en_square_off_requested e")
    case True
    then show ?thesis using assms(2,4)
      by (intro exI [of _ "e\<lparr>en_stopped_by_request := True\<rparr>"])
         (auto simp: on_tick_def shutdown_def act_run split: prod.splits sum.splits)
  next
    case False
    then have "ee_due env ?ts (en_world e) = (Inr True, w)" using assms(3) by simp
    then show ?thesis using False assms(4)
      by (intro exI [of _ "e\<lparr>en_world := w\<rparr>"]) (simp add: on_tick_def act_run on_world_def)
  qed
  then obtain e1 where e1: "book_of e1 = book_of e" "handle_square_off env ?ts e1 = (Inr (), e')" by blast
  have same: "en_positions e1 = en_positions e" "en_squared_off e1 = en_squared_off e"
    using arg_cong [OF e1(1), of bk_manager] arg_cong [OF e1(1), of bk_squared_off] by simp_all
  have "reached env (book_of e) (book_of e1)" using assms(1) e1(1) by (simp add: reached_def)
  from tri_run [OF handle_square_off_flattens [OF this] _ e1(2)] show ?thesis
    using assms(2) same by (simp add: on_the_book_def squared_def squaring_def)
qed

theorem square_off_flattens_the_book_witness:
  "pm_positions (en_positions (snd (on_tick demo_env demo_tick demo_holding))) = []
    \<and> (\<exists>ts. pm_trades (en_positions (snd (on_tick demo_env demo_tick demo_holding))) = ts
        \<and> map (\<lambda>t. oc_security_id (tr_contract t)) ts = [''42''])"
proof -
  have run: "on_tick demo_env demo_tick demo_holding = (Inr (), snd (on_tick demo_env demo_tick demo_holding))"
    using demo_squares_off by (metis prod.collapse)
  have "\<not> en_squared_off demo_holding" "pm_trades (en_positions demo_holding) = []"
    "contract_ids (positions_of (en_positions demo_holding)) = [''42'']"
    by (simp_all add: demo_holding_def demo_start_def demo_engine_def positions_of_def demo_position) code_simp
  with square_off_flattens_the_book [OF demo_keyed(2) this(1) disjI2 [OF demo_due] run] show ?thesis by simp
qed

end
