(* ===== verification/Signal_Record.thy ===== *)
theory Signal_Record
  imports Lifecycle
begin

text \<open>
  What one call of OrderLifecycle.handle\_signal leaves in the database, table by
  table: the signal, the intent, the order row, a row per fill and the position
  they move, or the error row of a rejection.
\<close>

section \<open>One fill\<close>

text \<open>The position a fill leaves, from the position before it.\<close>

definition position_after ::
  "string \<Rightarrow> string \<Rightarrow> side \<Rightarrow> string \<Rightarrow> money option \<Rightarrow> money option \<Rightarrow> datetime \<Rightarrow> fill \<Rightarrow> position option \<Rightarrow> position" where
  "position_after ins sid s td stop target now f p0 =
     (case p0 of
        None \<Rightarrow> new_position f ins sid s td stop target now
      | Some p \<Rightarrow> moved_position f s stop target now p)"

lemma upsert_position_after:
  assumes k: "unique_key position_key (db_positions d)"
    and u: "upsert_position rt f ins sid s td stop target now d = (Inr (p, delta), d')"
  shows "p = position_after ins sid s td stop target now f (read_position (fl_strategy_id f) (fl_execution_mode f) td sid d)
    \<and> read_position (fl_strategy_id f) (fl_execution_mode f) td sid d' = Some p
    \<and> (\<forall>st m td' sid'. (st, m, td', sid') \<noteq> (fl_strategy_id f, fl_execution_mode f, td, sid)
          \<longrightarrow> read_position st m td' sid' d' = read_position st m td' sid' d)"
proof (cases "read_position (fl_strategy_id f) (fl_execution_mode f) td sid d")
  case None
  let ?row = "\<lparr>pr_runtime_id = rt, pr_position = new_position f ins sid s td stop target now\<rparr>"
  have key: "position_key ?row = ((fl_strategy_id f, fl_execution_mode f, td), sid)"
    by (simp add: position_key_def position_day_def new_position_def)
  note n = upsert_new [OF None, of rt ins s stop target now]
  have d': "db_positions d' = insert_row ?row (db_positions d)" "p = new_position f ins sid s td stop target now"
    using u n by auto
  have "\<not> row_exists (\<lambda>r. position_key r = ((fl_strategy_id f, fl_execution_mode f, td), sid)) (db_positions d)"
    using None by (simp add: read_position_def select_one_None)
  from select_one_insert [OF this, of ?row] key None d' show ?thesis
    by (auto simp: position_after_def read_position_def select_one_insert_other)
next
  case (Some cur)
  let ?m = "moved_position f s stop target now cur"
  let ?key = "((fl_strategy_id f, fl_execution_mode f, td), sid)"
  note n = upsert_moved [OF k Some, of rt ins s stop target now]
  have d': "db_positions d' = update_rows (\<lambda>_ r. position_key r = ?key) (set_columns ?m stop target) (db_positions d)"
    "p = ?m" using u n by (auto simp: Let_def)
  have r: "read_position st m td' sid' d' = map_option (\<lambda>q. if ((st, m, td'), sid') = ?key then ?m else q)
      (read_position st m td' sid' d)" for st m td' sid'
  proof (cases "select_one (\<lambda>r. position_key r = ((st, m, td'), sid')) (db_positions d)")
    case None
    then show ?thesis by (simp add: read_position_def d' select_one_update position_key_set_columns)
  next
    case row: (Some row)
    have "position_key row = ((st, m, td'), sid')" using select_one_Some [OF row] by simp
    moreover have "pr_position row = cur" if "((st, m, td'), sid') = ?key"
      using row Some that by (simp add: read_position_def)
    ultimately show ?thesis using row
      by (auto simp: read_position_def d' select_one_update set_columns_moved)
  qed
  have "read_position st m td' sid' d' = read_position st m td' sid' d"
    if "(st, m, td', sid') \<noteq> (fl_strategy_id f, fl_execution_mode f, td, sid)" for st m td' sid'
    using that r [of st m td' sid'] by (cases "read_position st m td' sid' d") auto
  with Some d'(2) show ?thesis by (simp add: position_after_def r)
qed

lemma apply_fill_fresh:
  assumes inv: "db_inv d"
    and a: "apply_fill k rt f status ins sid s td stop target lc now d = (Inr p, d')"
    and fresh: "\<not> row_exists (\<lambda>r. fill_key r = (k, fl_broker_fill_id f)) (db_fills d)"
  shows "p = position_after ins sid s td stop target now f (read_position (fl_strategy_id f) (fl_execution_mode f) td sid d)"
    and "read_position (fl_strategy_id f) (fl_execution_mode f) td sid d' = Some p"
    and "\<forall>st m td' sid'. (st, m, td', sid') \<noteq> (fl_strategy_id f, fl_execution_mode f, td, sid)
          \<longrightarrow> read_position st m td' sid' d' = read_position st m td' sid' d"
    and "row_list (db_fills d') = row_list (db_fills d) @ [fill_row_of k rt f]"
    and "db_orders d' = update_rows (\<lambda>i _. i = k)
           (\<lambda>r. r\<lparr>or_status := status, or_filled_quantity := fst (order_totals k d'),
                  or_average_fill_price := snd (order_totals k d'), or_updated_at := now\<rparr>) (db_orders d)"
    and "db_errors d' = db_errors d"
proof -
  let ?d3 = "before_position k rt f status now d"
  have g: "id_exists k (db_orders d)" "0 < fl_quantity f"
    using a fresh by (auto simp: apply_fill_alt split: if_splits)
  have u: "unique_key position_key (db_positions ?d3)"
    using before_position_keys [OF inv g fresh] by (simp add: keys_ok_def)
  obtain p' delta ps where up: "upsert_position rt f ins sid s td stop target now ?d3 = (Inr (p', delta), ps)"
    "ps = ?d3\<lparr>db_positions := db_positions ps, db_last_rowid := db_last_rowid ps\<rparr>"
    using upsert_position_spec [OF u, of rt f ins sid s td stop target now] by blast
  have d': "p' = p" "d' = touch_strategy_state rt (fl_strategy_id f) (fl_execution_mode f) td lc delta now ps"
    using a fresh g up(1) by (auto simp: apply_fill_alt)
  have fr: "db_positions d' = db_positions ps" "db_fills d' = db_fills ?d3" "db_orders d' = db_orders ?d3"
    "db_errors d' = db_errors ?d3"
    unfolding d'(2) by (subst touch_frame, simp, (subst up(2), simp)?)+
  have same: "read_position a b c e d' = read_position a b c e ps" "read_position a b c e ?d3 = read_position a b c e d"
    for a b c e by (simp_all add: read_position_def fr before_position_frame)
  note pos = upsert_position_after [OF u up(1), unfolded d'(1)]
  show "p = position_after ins sid s td stop target now f (read_position (fl_strategy_id f) (fl_execution_mode f) td sid d)"
    "read_position (fl_strategy_id f) (fl_execution_mode f) td sid d' = Some p"
    "\<forall>st m td' sid'. (st, m, td', sid') \<noteq> (fl_strategy_id f, fl_execution_mode f, td, sid)
          \<longrightarrow> read_position st m td' sid' d' = read_position st m td' sid' d"
    using pos unfolding same by blast+
  show "row_list (db_fills d') = row_list (db_fills d) @ [fill_row_of k rt f]"
    by (simp add: fr before_position_frame)
  have "order_totals k d' = order_totals k (fill_inserted k rt f d)"
    by (simp add: order_totals_def fr before_position_frame fill_inserted_def)
  then show "db_orders d' = update_rows (\<lambda>i _. i = k)
           (\<lambda>r. r\<lparr>or_status := status, or_filled_quantity := fst (order_totals k d'),
                  or_average_fill_price := snd (order_totals k d'), or_updated_at := now\<rparr>) (db_orders d)"
    by (simp add: fr before_position_frame order_totalled_def fill_inserted_def)
  show "db_errors d' = db_errors d"
    unfolding fr(4) before_position_def by (subst fill_quote_frame) (simp add: order_totalled_def fill_inserted_def)
qed

section \<open>The fills of one order\<close>

text \<open>The order rows with the one of the given id changed.\<close>

definition order_rows_moved :: "nat \<Rightarrow> order_status option \<Rightarrow> int \<Rightarrow> (nat \<times> order_row) list \<Rightarrow> (nat \<times> order_row) list \<Rightarrow> bool" where
  "order_rows_moved oid status filled rows rows' =
     list_all2 (\<lambda>(i, r) (j, r'). i = j \<and> (i \<noteq> oid \<longrightarrow> r' = r) \<and> or_intent_id r' = or_intent_id r
        \<and> or_correlation_id r' = or_correlation_id r \<and> or_rejection_reason r' = or_rejection_reason r
        \<and> (i = oid \<longrightarrow> (case status of None \<Rightarrow> r' = r
             | Some x \<Rightarrow> or_status r' = x \<and> or_filled_quantity r' = filled))) rows rows'"

lemma order_rows_same: "order_rows_moved oid None n rows rows"
  by (simp add: order_rows_moved_def list.rel_refl split_beta)

lemma order_rows_update:
  "tb_rows t' = tb_rows (update_rows (\<lambda>i _. i = oid)
      (\<lambda>r. r\<lparr>or_status := x, or_filled_quantity := n, or_average_fill_price := a, or_updated_at := now\<rparr>) t)
   \<Longrightarrow> order_rows_moved oid (Some x) n (tb_rows t) (tb_rows t')"
  by (simp add: order_rows_moved_def update_rows_def list.rel_map split_beta list.rel_refl)

lemma order_rows_trans:
  assumes "order_rows_moved oid a n xs ys" "order_rows_moved oid (Some x) m ys zs"
  shows "order_rows_moved oid (Some x) m xs zs"
proof -
  have "(case p of (i, r) \<Rightarrow> \<lambda>(j, r'). i = j \<and> (i \<noteq> oid \<longrightarrow> r' = r) \<and> or_intent_id r' = or_intent_id r
        \<and> or_correlation_id r' = or_correlation_id r \<and> or_rejection_reason r' = or_rejection_reason r
        \<and> (i = oid \<longrightarrow> or_status r' = x \<and> or_filled_quantity r' = m)) q"
    if "i < length xs" "p = xs ! i" "q = zs ! i" for i p q
    using that list_all2_nthD [OF assms(1) [unfolded order_rows_moved_def], of i]
      list_all2_nthD [OF assms(2) [unfolded order_rows_moved_def], of i]
      list_all2_lengthD [OF assms(1) [unfolded order_rows_moved_def]]
    by (cases "xs ! i"; cases "ys ! i"; cases "zs ! i") auto
  moreover have "length xs = length zs"
    using list_all2_lengthD [OF assms(1) [unfolded order_rows_moved_def]]
      list_all2_lengthD [OF assms(2) [unfolded order_rows_moved_def]] by (rule trans)
  ultimately show ?thesis unfolding order_rows_moved_def option.case by (simp add: list_all2_conv_all_nth split_beta)
qed

lemma order_rows_last:
  assumes "order_rows_moved oid (Some x) n (rows @ [(oid, r)]) rows'" "oid \<notin> fst ` set rows"
  shows "\<exists>r'. rows' = rows @ [(oid, r')] \<and> or_status r' = x \<and> or_filled_quantity r' = n
    \<and> or_intent_id r' = or_intent_id r \<and> or_correlation_id r' = or_correlation_id r
    \<and> or_rejection_reason r' = or_rejection_reason r"
proof -
  obtain ys y where rows': "rows' = ys @ [y]" and l: "length ys = length rows"
    using assms(1) unfolding order_rows_moved_def by (auto simp: list_all2_append1 list_all2_Cons1)
  have "ys = rows"
  proof (rule nth_equalityI)
    show "ys ! i = rows ! i" if "i < length ys" for i
    proof -
      have "i < length (rows @ [(oid, r)])" using that l by simp
      from list_all2_nthD [OF assms(1) [unfolded order_rows_moved_def] this] that l
      have "fst (rows ! i) = fst (ys ! i) \<and> (fst (rows ! i) \<noteq> oid \<longrightarrow> snd (ys ! i) = snd (rows ! i))"
        by (simp add: rows' nth_append split_beta)
      moreover have "fst (rows ! i) \<noteq> oid" using assms(2) that l by (auto simp: image_iff)
      ultimately show ?thesis by (simp add: prod_eq_iff)
    qed
  qed (rule l)
  moreover have "list_all2 (\<lambda>(i, r) (j, r'). i = j \<and> (i \<noteq> oid \<longrightarrow> r' = r) \<and> or_intent_id r' = or_intent_id r
        \<and> or_correlation_id r' = or_correlation_id r \<and> or_rejection_reason r' = or_rejection_reason r
        \<and> (i = oid \<longrightarrow> or_status r' = x \<and> or_filled_quantity r' = n)) [(oid, r)] [y]"
    using assms(1) l unfolding order_rows_moved_def rows' option.case by (subst (asm) list_all2_append) simp_all
  ultimately show ?thesis using rows' by (cases y) auto
qed

abbreviation after_fills ::
  "string \<Rightarrow> string \<Rightarrow> side \<Rightarrow> string \<Rightarrow> money option \<Rightarrow> money option \<Rightarrow> datetime \<Rightarrow> fill list \<Rightarrow> position option \<Rightarrow> position option" where
  "after_fills ins sid s td stop target now \<equiv> fold (\<lambda>f p. Some (position_after ins sid s td stop target now f p))"

lemma order_totals_append:
  "row_list (db_fills d') = row_list (db_fills d) @ map (fill_row_of oid rt) fs \<Longrightarrow>
     fst (order_totals oid d') = fst (order_totals oid d) + (\<Sum>f\<leftarrow>fs. fl_quantity f)"
  by (simp add: order_totals_def Let_def select_rows_list filter_map comp_def fill_row_of_def)

lemma apply_fills_fresh:
  assumes "db_inv d"
    and "apply_fills (apply_signal_fill lc sig td stop target now oid status) fs p0 d = (Inr p, d')"
    and "\<forall>f \<in> set fs. fl_strategy_id f = st \<and> fl_execution_mode f = m"
    and "distinct (map fl_broker_fill_id fs)"
    and "\<forall>f \<in> set fs. \<not> row_exists (\<lambda>r. fill_key r = (oid, fl_broker_fill_id f)) (db_fills d)"
  shows "row_list (db_fills d') = row_list (db_fills d) @ map (fill_row_of oid (lc_runtime_id lc)) fs
    \<and> read_position st m td (sg_security_id sig) d'
        = after_fills (sg_instrument sig) (sg_security_id sig) (sg_side sig) td stop target now fs
            (read_position st m td (sg_security_id sig) d)
    \<and> (\<forall>st' m' td' sid. (st', m', td', sid) \<noteq> (st, m, td, sg_security_id sig)
          \<longrightarrow> read_position st' m' td' sid d' = read_position st' m' td' sid d)
    \<and> order_rows_moved oid (if fs = [] then None else Some status) (fst (order_totals oid d'))
        (tb_rows (db_orders d)) (tb_rows (db_orders d'))
    \<and> db_errors d' = db_errors d"
  using assms
proof (induction fs arbitrary: p0 d)
  case Nil
  then show ?case by (simp add: order_rows_same)
next
  case (Cons f fs)
  obtain p1 d1 where a: "apply_signal_fill lc sig td stop target now oid status f d = (Inr p1, d1)"
    and l: "apply_fills (apply_signal_fill lc sig td stop target now oid status) fs (Some p1) d1 = (Inr p, d')"
    using Cons(3) by (auto split: prod.splits sum.splits)
  have fresh: "\<not> row_exists (\<lambda>r. fill_key r = (oid, fl_broker_fill_id f)) (db_fills d)" using Cons(6) by simp
  note af = apply_fill_fresh [OF Cons(2) a [unfolded apply_signal_fill_def] fresh]
  have inv1: "db_inv d1" using apply_fill_inv [OF Cons(2) a [unfolded apply_signal_fill_def]] .
  have fs: "\<forall>f \<in> set fs. fl_strategy_id f = st \<and> fl_execution_mode f = m" "distinct (map fl_broker_fill_id fs)"
    using Cons(4,5) by simp_all
  have fresh1: "\<forall>g \<in> set fs. \<not> row_exists (\<lambda>r. fill_key r = (oid, fl_broker_fill_id g)) (db_fills d1)"
    using Cons(5,6) af(4) by (auto simp: row_exists_list fill_key_def fill_row_of_def)
  note ih = Cons(1) [OF inv1 l fs fresh1]
  have k: "fl_strategy_id f = st" "fl_execution_mode f = m" using Cons(4) by simp_all
  note pos = af(1-3) [unfolded k]
  have o1: "order_rows_moved oid (Some status) (fst (order_totals oid d1)) (tb_rows (db_orders d)) (tb_rows (db_orders d1))"
    by (rule order_rows_update) (simp only: af(5))
  have "order_rows_moved oid (Some status) (fst (order_totals oid d')) (tb_rows (db_orders d)) (tb_rows (db_orders d'))"
  proof (cases "fs = []")
    case True
    with l have "d' = d1" by simp
    with o1 show ?thesis by simp
  next
    case False
    with ih have "order_rows_moved oid (Some status) (fst (order_totals oid d')) (tb_rows (db_orders d1)) (tb_rows (db_orders d'))"
      by simp
    from order_rows_trans [OF o1 this] show ?thesis .
  qed
  then show ?case using ih af(4,6) pos by simp
qed

section \<open>The position the fills of one order leave\<close>

definition held :: "position option \<Rightarrow> int" where
  "held p = (case p of None \<Rightarrow> 0 | Some q \<Rightarrow> ps_quantity q)"

definition charged_so_far :: "position option \<Rightarrow> money" where
  "charged_so_far p = (case p of None \<Rightarrow> 0 | Some q \<Rightarrow> ps_charges q)"

lemma position_after_totals:
  "ps_quantity (position_after ins sid s td stop target now f p) = held p + side_sign s * fl_quantity f"
  "ps_charges (position_after ins sid s td stop target now f p) = charged_so_far p + fl_charges f"
  "ps_opened_at (position_after ins sid s td stop target now f p)
     = (case p of None \<Rightarrow> fl_filled_at f | Some q \<Rightarrow> ps_opened_at q)"
  using fill_arith_quantity
  by (auto simp: position_after_def new_position_def moved_position_def held_def charged_so_far_def Let_def split_def
      split: option.split)

lemma after_fills_totals:
  "held (after_fills ins sid s td stop target now fs p) = held p + side_sign s * (\<Sum>f\<leftarrow>fs. fl_quantity f)
   \<and> charged_so_far (after_fills ins sid s td stop target now fs p) = charged_so_far p + (\<Sum>f\<leftarrow>fs. fl_charges f)"
proof (induction fs arbitrary: p)
  case (Cons f fs)
  let ?p = "position_after ins sid s td stop target now f p"
  have "held (Some ?p) = held p + side_sign s * fl_quantity f"
    "charged_so_far (Some ?p) = charged_so_far p + fl_charges f"
    using position_after_totals [of ins sid s td stop target now f p] by (simp_all add: held_def charged_so_far_def)
  then show ?case using Cons [of "Some ?p"] by (simp add: algebra_simps)
qed simp


section \<open>The rows of a submitted intent\<close>

lemma next_id_unused: "ids_ok t \<Longrightarrow> \<not> id_exists (next_id t) t"
  by (auto simp: ids_ok_def id_exists_iff next_id_def)

lemma reserve_signal_row:
  assumes "db_inv d" "reserve_signal lc now sig td k d = (Inr (iid, i), d')"
  shows "(\<exists>row. row_list (db_intents d') = row_list (db_intents d) @ [row] \<and> it_intent row = i \<and> it_submission_reserved row)
    \<and> \<not> reserved d (oi_correlation_id i) \<and> \<not> id_exists iid (db_intents d)
    \<and> db_orders d' = db_orders d \<and> db_fills d' = db_fills d \<and> db_positions d' = db_positions d
    \<and> db_errors d' = db_errors d \<and> db_signals d' = db_signals d"
proof -
  have "ids_ok (db_intents d)" using assms(1) by (simp add: db_inv_def keys_ok_def)
  from next_id_unused [OF this] show ?thesis using assms(2)
    by (auto simp: reserve_signal_def reserve_intent_def Let_def reserved_def intent_cid_def
        split: sum.splits prod.splits if_splits)
qed

lemma record_submission_row:
  assumes "record_submission iid ord rt now d = (Inr oid, d')"
    and "\<not> row_exists (\<lambda>r. or_intent_id r = iid) (db_orders d)"
  shows "oid = next_id (db_orders d)
    \<and> (\<exists>r. tb_rows (db_orders d') = tb_rows (db_orders d) @ [(oid, r)] \<and> or_intent_id r = iid
          \<and> or_correlation_id r = od_correlation_id ord \<and> or_status r = od_status ord
          \<and> or_filled_quantity r = od_filled_quantity ord \<and> or_rejection_reason r = od_rejection_reason ord)
    \<and> db_fills d' = db_fills d \<and> db_positions d' = db_positions d \<and> db_errors d' = db_errors d"
  using assms by (auto simp: record_submission_def Let_def insert_row_def next_id_def split: if_splits)

text \<open>
  The rows an answered order leaves: one order row with the answer's status and
  quantity, under the intent and the identifier, and one row per fill, in order,
  against it.
\<close>

definition leaves_order :: "lifecycle \<Rightarrow> db \<Rightarrow> db \<Rightarrow> nat \<Rightarrow> order \<Rightarrow> bool" where
  "leaves_order lc d d' oid ord =
     (row_list (db_fills d') = row_list (db_fills d) @ map (fill_row_of oid (lc_runtime_id lc)) (od_fills ord)
      \<and> (\<exists>r. tb_rows (db_orders d') = tb_rows (db_orders d) @ [(oid, r)]
           \<and> or_correlation_id r = od_correlation_id ord \<and> or_status r = od_status ord
           \<and> or_filled_quantity r = od_filled_quantity ord \<and> or_rejection_reason r = od_rejection_reason ord))"

text \<open>The intent row and the signal row of a handled signal.\<close>

definition leaves_intent :: "db \<Rightarrow> db \<Rightarrow> signal \<Rightarrow> string \<Rightarrow> bool" where
  "leaves_intent d d' sig cid =
     (\<not> reserved d cid
      \<and> (\<exists>srow. row_list (db_signals d') = row_list (db_signals d) @ [srow] \<and> si_signal srow = sig)
      \<and> (\<exists>irow. row_list (db_intents d') = row_list (db_intents d) @ [irow] \<and> intent_cid irow = cid
           \<and> it_submission_reserved irow \<and> oi_side (it_intent irow) = sg_side sig
           \<and> oi_quantity (it_intent irow) = sg_quantity sig \<and> oi_security_id (it_intent irow) = sg_security_id sig))"

lemma no_order_of_new_intent:
  assumes "db_inv d" "\<not> id_exists iid (db_intents d)" "db_orders d2 = db_orders d"
  shows "\<not> row_exists (\<lambda>r. or_intent_id r = iid) (db_orders d2)"
  using assms by (auto simp: db_inv_def refs_ok_def fk_def row_exists_list)

lemma persist_order_intents:
  "persist_order lc now sig td stop target iid cid ord d = (r, d') \<Longrightarrow> db_intents d' = db_intents d"
  by (auto simp: persist_order_def dest!: record_submission_intents apply_fills_intents split: sum.splits prod.splits)

lemma persist_order_record:
  assumes inv: "db_inv d" "db_inv d2"
    and iid: "\<not> id_exists iid (db_intents d)"
    and same: "db_orders d2 = db_orders d" "db_fills d2 = db_fills d" "db_positions d2 = db_positions d"
      "db_errors d2 = db_errors d"
    and po: "persist_order lc now sig td stop target iid cid ord d2 = (Inr res, d')"
    and fs: "\<forall>f \<in> set (od_fills ord). fl_strategy_id f = st \<and> fl_execution_mode f = m"
      "distinct (order_fill_ids ord)" "od_fills ord \<noteq> []"
      "od_filled_quantity ord = (\<Sum>f\<leftarrow>od_fills ord. fl_quantity f)"
  shows "\<exists>oid. leaves_order lc d d' oid ord \<and> db_errors d' = db_errors d
    \<and> read_position st m td (sg_security_id sig) d'
        = after_fills (sg_instrument sig) (sg_security_id sig) (sg_side sig) td stop target now (od_fills ord)
            (read_position st m td (sg_security_id sig) d)
    \<and> (\<forall>st' m' td' sid. (st', m', td', sid) \<noteq> (st, m, td, sg_security_id sig)
          \<longrightarrow> read_position st' m' td' sid d' = read_position st' m' td' sid d)"
proof -
  obtain oid d3 p where sm: "record_submission iid ord (lc_runtime_id lc) now d2 = (Inr oid, d3)"
    and af: "apply_fills (apply_signal_fill lc sig td stop target now oid (od_status ord)) (od_fills ord) None d3 = (Inr p, d')"
    using po by (auto simp: persist_order_def split: sum.splits prod.splits)
  note new = record_submission_row [OF sm no_order_of_new_intent [OF inv(1) iid same(1)]]
  then obtain r where r: "tb_rows (db_orders d3) = tb_rows (db_orders d) @ [(oid, r)]"
    "or_correlation_id r = od_correlation_id ord" "or_rejection_reason r = od_rejection_reason ord"
    by (auto simp: same)
  have inv3: "db_inv d3" using record_submission_inv [OF inv(2) sm] .
  have ids: "ids_ok (db_orders d)" "fk fr_order_id (db_fills d) (db_orders d)"
    using inv(1) by (simp_all add: db_inv_def keys_ok_def refs_ok_def)
  have oid: "oid = next_id (db_orders d)" using new by (simp add: same)
  have unused: "oid \<notin> fst ` set (tb_rows (db_orders d))"
    using next_id_unused [OF ids(1)] by (simp add: oid id_exists_iff)
  have "\<forall>x \<in> set (row_list (db_fills d)). fr_order_id x \<in> fst ` set (tb_rows (db_orders d))"
    using ids(2) by (simp add: fk_def id_exists_iff)
  moreover have "db_fills d3 = db_fills d" using new by (simp add: same)
  ultimately have "\<forall>x \<in> set (row_list (db_fills d3)). fr_order_id x \<noteq> oid"
    using unused by metis
  then have none: "\<forall>f \<in> set (od_fills ord). \<not> row_exists (\<lambda>x. fill_key x = (oid, fl_broker_fill_id f)) (db_fills d3)"
    and tot0: "fst (order_totals oid d3) = 0"
    by (auto simp: row_exists_list fill_key_def order_totals_def select_rows_list Let_def filter_empty_conv)
  note f = apply_fills_fresh [OF inv3 af fs(1) fs(2) [unfolded order_fill_ids_def] none]
  have pos: "read_position a b c e d3 = read_position a b c e d" for a b c e
    using new by (simp add: read_position_def same)
  have tot: "fst (order_totals oid d') = od_filled_quantity ord"
    using order_totals_append [of d' d3 oid "lc_runtime_id lc" "od_fills ord"] f tot0 fs(4) by simp
  have "order_rows_moved oid (Some (od_status ord)) (od_filled_quantity ord) (tb_rows (db_orders d) @ [(oid, r)])
      (tb_rows (db_orders d'))"
    using f fs(3) tot r(1) by simp
  from order_rows_last [OF this unused] have "leaves_order lc d d' oid ord"
    using f new r(2,3) by (auto simp: leaves_order_def same)
  then show ?thesis using f new pos by (intro exI [of _ oid]) (auto simp: same)
qed

lemma persist_rejection_record:
  assumes inv: "db_inv d" and iid: "\<not> id_exists iid (db_intents d)"
    and same: "db_orders d2 = db_orders d" "db_fills d2 = db_fills d" "db_positions d2 = db_positions d"
      "db_errors d2 = db_errors d"
    and pr: "persist_rejection lc now iid cid e d2 = (Inr res, d')"
  shows "xr_order res = Some (rejected_order lc cid e now) \<and> xr_correlation_id res = Some cid
    \<and> xr_skipped_reason res \<noteq> None \<and> xr_position res = None
    \<and> (\<exists>oid. leaves_order lc d d' oid (rejected_order lc cid e now)) \<and> db_positions d' = db_positions d
    \<and> (\<exists>row. row_list (db_errors d') = row_list (db_errors d) @ [row] \<and> er_component row = ''broker.submit''
          \<and> er_context row = Some cid \<and> er_severity row = ''ERROR'')"
proof -
  let ?d3 = "record_error (lc_runtime_id lc) (Some (lc_strategy_id lc)) (Some (lc_execution_mode lc))
                 ''ERROR'' ''broker.submit'' (exn_text e) (Some cid) now d2"
  have d3: "db_orders ?d3 = db_orders d" "db_fills ?d3 = db_fills d" "db_positions ?d3 = db_positions d"
    by (simp_all add: record_error_def same)
  obtain oid where sm: "record_submission iid (rejected_order lc cid e now) (lc_runtime_id lc) now ?d3 = (Inr oid, d')"
    and res: "res = \<lparr>xr_correlation_id = Some cid, xr_order = Some (rejected_order lc cid e now), xr_position = None,
                   xr_skipped_reason = Some (''broker rejected: '' @ exn_text e)\<rparr>"
    using pr by (auto simp: persist_rejection_def Let_def split: sum.splits prod.splits)
  note new = record_submission_row [OF sm no_order_of_new_intent [OF inv iid d3(1)]]
  have "leaves_order lc d d' oid (rejected_order lc cid e now)"
    using new by (auto simp: leaves_order_def d3 rejected_order_def)
  moreover have "\<exists>row. row_list (db_errors d') = row_list (db_errors d) @ [row] \<and> er_component row = ''broker.submit''
          \<and> er_context row = Some cid \<and> er_severity row = ''ERROR''"
    using new by (simp add: record_error_def same)
  ultimately show ?thesis using new res by (auto simp: d3)
qed


lemma after_fills_average:
  assumes "\<forall>f \<in> set fs. fl_price f = x \<and> 0 < fl_quantity f"
    and "held p = 0 \<or> (0 < side_sign s * held p \<and> (\<forall>q. p = Some q \<longrightarrow> ps_average_price q = x))"
    and "after_fills ins sid s td stop target now fs p = Some r" "fs \<noteq> []"
  shows "ps_average_price r = x"
  using assms
proof (induction fs arbitrary: p)
  case (Cons f fs)
  let ?p = "position_after ins sid s td stop target now f p"
  have f: "fl_price f = x" "0 < fl_quantity f" using Cons(2) by simp_all
  have avg: "ps_average_price ?p = x"
  proof (cases p)
    case None
    then show ?thesis using f by (simp add: position_after_def new_position_def)
  next
    case (Some q)
    show ?thesis
    proof (cases "ps_quantity q = 0")
      case True
      then show ?thesis using Some f
        by (cases s) (simp_all add: position_after_def moved_position_def fill_arith_def Let_def)
    next
      case False
      with Cons(3) Some have q: "0 < side_sign s * ps_quantity q" "ps_average_price q = x" by (auto simp: held_def)
      have e: "(x * of_int a + x * of_int c) / of_int (a + c) = x" if "0 < a" "0 < c" for a c :: int
        using that by (simp add: field_simps)
      show ?thesis using Some f q e [of "\<bar>ps_quantity q\<bar>" "fl_quantity f"]
        by (cases s) (simp_all add: position_after_def moved_position_def fill_arith_def Let_def)
    qed
  qed
  have q: "ps_quantity ?p = held p + side_sign s * fl_quantity f" by (rule position_after_totals)
  have "0 < side_sign s * ps_quantity ?p"
  proof (cases s)
    case BUY
    with Cons(3) f(2) q show ?thesis by auto
  next
    case SELL
    with Cons(3) f(2) q show ?thesis by auto
  qed
  then have h: "held (Some ?p) = 0 \<or> (0 < side_sign s * held (Some ?p) \<and> (\<forall>q. Some ?p = Some q \<longrightarrow> ps_average_price q = x))"
    using avg by (simp add: held_def)
  show ?case
  proof (cases "fs = []")
    case True
    with Cons(4) avg show ?thesis by simp
  next
    case False
    from Cons(2) have "\<forall>f \<in> set fs. fl_price f = x \<and> 0 < fl_quantity f" by simp
    from Cons(1) [OF this h _ False] Cons(4) show ?thesis by simp
  qed
qed simp

lemma after_fills_opened:
  assumes "after_fills ins sid s td stop target now fs p = Some r" "fs \<noteq> []"
  shows "ps_opened_at r = (case p of None \<Rightarrow> fl_filled_at (hd fs) | Some q \<Rightarrow> ps_opened_at q)"
  using assms
proof (induction fs arbitrary: p)
  case (Cons f fs)
  let ?p = "position_after ins sid s td stop target now f p"
  have o: "ps_opened_at ?p = (case p of None \<Rightarrow> fl_filled_at f | Some q \<Rightarrow> ps_opened_at q)"
    by (rule position_after_totals)
  show ?case
  proof (cases "fs = []")
    case True
    with Cons(2) o show ?thesis by (cases p) simp_all
  next
    case False
    with Cons(1) [of "Some ?p"] Cons(2) o show ?thesis by (cases p) simp_all
  qed
qed simp

section \<open>A handled signal\<close>

text \<open>A market order is priced to four decimals.\<close>

lemma py_round_twice: "py_round n (py_round n x) = py_round n x"
  by (rule py_round_grid [where k = "round_int (x * 10 ^ n)"]) (simp add: py_round_def)

lemma submit_market_rounded:
  assumes "submit qb now i q b = (Inr ord, b')" "oi_order_type i = MARKET" "f \<in> set (od_fills ord)"
  shows "py_round 4 (fl_price f) = fl_price f"
proof -
  from submit_Inr [OF assms(1)] obtain r where
    c: "if oi_order_type i = LIMIT then rest now i q b = (Inr ord, b')
     else fill_now qb now i q r b = (Inr ord, b')" by blast
  with assms(2) have "fill_now qb now i q r b = (Inr ord, b')" by simp
  from fill_now_Inr [OF this] obtain sel lat b1 p mth fs where
    f: "market_price (oi_side i) sel r b1 = (Inr (p, mth), b1)" "fills_spec b1 now i sel p mth lat fs"
      "ord = build_order i fs" by blast
  have "\<exists>x. p = py_round 4 x"
    using f(1) by (auto simp: market_price_def Let_def refuse_def split: option.splits sum.splits if_splits)
  moreover have "fl_price f = p" using f(2,3) assms(3) build_order_spec(1) [OF f(2)] by (auto simp: fills_spec_def)
  ultimately show ?thesis by (auto simp: py_round_twice)
qed

lemma order_fill_ids_distinct:
  assumes "broker_inv b" "order_by_correlation_id b cid = Some ord"
  shows "distinct (order_fill_ids ord) \<and> od_correlation_id ord = cid"
  using assms by (auto simp: broker_inv_def orders_inv_def order_by_correlation_id_def order_ok_def)

lemma reserve_signal_intent:
  "reserve_signal lc now sig td k d = (Inr (iid, i), d') \<Longrightarrow>
     oi_side i = sg_side sig \<and> oi_quantity i = sg_quantity sig \<and> oi_security_id i = sg_security_id sig"
  by (auto simp: reserve_signal_def Let_def intent_of_def split: sum.splits prod.splits)

text \<open>The position of an order's fills, and no other position moved.\<close>

definition moves_position :: "lifecycle \<Rightarrow> signal \<Rightarrow> string \<Rightarrow> db \<Rightarrow> db \<Rightarrow> order \<Rightarrow> position \<Rightarrow> bool" where
  "moves_position lc sig td d d' ord p =
     (let before = read_position (lc_strategy_id lc) (lc_execution_mode lc) td (sg_security_id sig) d in
      read_position (lc_strategy_id lc) (lc_execution_mode lc) td (sg_security_id sig) d' = Some p
      \<and> ps_quantity p = held before + side_sign (sg_side sig) * od_filled_quantity ord
      \<and> ps_charges p = charged_so_far before + (\<Sum>f\<leftarrow>od_fills ord. fl_charges f)
      \<and> (\<forall>st m td' sid. (st, m, td', sid) \<noteq> (lc_strategy_id lc, lc_execution_mode lc, td, sg_security_id sig)
           \<longrightarrow> read_position st m td' sid d' = read_position st m td' sid d))"

lemma handled_signal_cases:
  assumes inv: "db_inv d" "broker_inv b"
    and h: "handle_signal (submit qb now) lc book now' sig td stop target (d, b) = (Inr res, (d', b'))"
  obtains (duplicate) "xr_order res = None" "xr_skipped_reason res = Some ''duplicate signal for this candle''"
      "d' = d" "b' = b" "suppressed lc sig d"
  | (rejected) e cid oid where "xr_order res = Some (rejected_order lc cid e now')" "xr_correlation_id res = Some cid"
      "xr_skipped_reason res \<noteq> None" "xr_position res = None" "leaves_intent d d' sig cid"
      "leaves_order lc d d' oid (rejected_order lc cid e now')" "db_positions d' = db_positions d"
      "order_by_correlation_id b' = order_by_correlation_id b"
      "\<exists>row. row_list (db_errors d') = row_list (db_errors d) @ [row] \<and> er_component row = ''broker.submit''
          \<and> er_context row = Some cid \<and> er_severity row = ''ERROR''"
  | (traded) ord cid oid p where "xr_order res = Some ord" "xr_correlation_id res = Some cid"
      "xr_skipped_reason res = None" "xr_position res = Some p" "leaves_intent d d' sig cid"
      "leaves_order lc d d' oid ord" "od_correlation_id ord = cid" "order_of_signal b sig ord"
      "order_by_correlation_id b cid = None" "order_by_correlation_id b' cid = Some ord"
      "moves_position lc sig td d d' ord p" "db_errors d' = db_errors d"
      "Some p = after_fills (sg_instrument sig) (sg_security_id sig) (sg_side sig) td stop target now' (od_fills ord)
            (read_position (lc_strategy_id lc) (lc_execution_mode lc) td (sg_security_id sig) d)"
      "\<forall>f \<in> set (od_fills ord). py_round 4 (fl_price f) = fl_price f"
proof -
  obtain k d1 where rs: "record_signal (lc_session_id lc) (lc_runtime_id lc) sig td (lc_config_fingerprint lc) d = (k, d1)"
    by fastforce
  show thesis
  proof (cases k)
    case None
    with record_signal_suppressed [OF rs] have "d1 = d" "suppressed lc sig d" by auto
    with duplicate h rs None show ?thesis by (auto simp: handle_signal_def)
  next
    case (Some sid)
    have r1: "\<exists>srow. row_list (db_signals d1) = row_list (db_signals d) @ [srow] \<and> si_signal srow = sig"
      "db_intents d1 = db_intents d" "db_orders d1 = db_orders d" "db_fills d1 = db_fills d"
      "db_positions d1 = db_positions d" "db_errors d1 = db_errors d"
      using rs Some by (auto simp: record_signal_def Let_def split: if_splits)
    have inv1: "db_inv d1" using record_signal_inv [OF inv(1) rs] .
    obtain iid i d2 where rv: "reserve_signal lc now' sig td sid d1 = (Inr (iid, i), d2)"
      using h rs Some by (auto simp: handle_signal_def split: sum.splits prod.splits)
    note r2 = reserve_signal_row [OF inv1 rv]
    have inv2: "db_inv d2" using reserve_signal_inv [OF inv1 rv] .
    define cid where "cid = oi_correlation_id i"
    have new: "\<not> reserved d cid" "\<not> id_exists iid (db_intents d)"
      using r2 r1(2) by (simp_all add: cid_def reserved_def)
    have same: "db_orders d2 = db_orders d" "db_fills d2 = db_fills d" "db_positions d2 = db_positions d"
      "db_errors d2 = db_errors d" using r1 r2 by simp_all
    obtain irow where irow: "row_list (db_intents d2) = row_list (db_intents d) @ [irow]" "it_intent irow = i"
      "it_submission_reserved irow" using r2 r1(2) by auto
    have li: "leaves_intent d d'' sig cid" if "db_signals d'' = db_signals d2" "db_intents d'' = db_intents d2" for d''
      using that r1(1) r2 new irow reserve_signal_intent [OF rv]
      by (auto simp: leaves_intent_def intent_cid_def cid_def)
    obtain y b1 where sb: "submit qb now i (quote_for book sig) b = (y, b1)" by fastforce
    show ?thesis
    proof (cases y)
      case (Inl e)
      then have be: "is_broker_error e" "b' = b1" and pr: "persist_rejection lc now' iid cid e d2 = (Inr res, d')"
        using h rs Some rv sb by (auto simp: handle_signal_def cid_def split: if_splits prod.splits)
      note pf = persist_frame(2) [OF pr] persist_rejection_intents [OF pr]
      have "order_by_correlation_id b' = order_by_correlation_id b"
        using paper.submit_refused [OF inv(2) sb [unfolded Inl]] be(2) by simp
      with persist_rejection_record [OF inv(1) new(2) same pr] li [of d'] pf rejected show ?thesis by blast
    next
      case (Inr ord)
      then have b': "b' = b1" and po: "persist_order lc now' sig td stop target iid cid ord d2 = (Inr res, d')"
        using h rs Some rv sb by (auto simp: handle_signal_def cid_def split: prod.splits)
      note acc = paper.submit_accepted [OF inv(2) sb [unfolded Inr]]
      have b1: "broker_inv b1" using submit_inv [OF inv(2) sb] .
      have os: "order_of_signal b sig ord"
        "\<forall>f \<in> set (od_fills ord). fl_strategy_id f = lc_strategy_id lc \<and> fl_execution_mode f = lc_execution_mode lc"
        using submit_market_order [OF sb [unfolded Inr]] reserve_signal_Inr [OF rv] by auto
      have id: "distinct (order_fill_ids ord)" "od_correlation_id ord = cid"
        using order_fill_ids_distinct [OF b1] acc by (auto simp: cid_def)
      have ne: "od_fills ord \<noteq> []" "od_filled_quantity ord = (\<Sum>f\<leftarrow>od_fills ord. fl_quantity f)"
        using os(1) by (auto simp: order_of_signal_def)
      obtain oid where rec: "leaves_order lc d d' oid ord" "db_errors d' = db_errors d"
        and pos: "read_position (lc_strategy_id lc) (lc_execution_mode lc) td (sg_security_id sig) d'
        = after_fills (sg_instrument sig) (sg_security_id sig) (sg_side sig) td stop target now' (od_fills ord)
            (read_position (lc_strategy_id lc) (lc_execution_mode lc) td (sg_security_id sig) d)"
        and oth: "\<forall>st' m' td' sid. (st', m', td', sid) \<noteq> (lc_strategy_id lc, lc_execution_mode lc, td, sg_security_id sig)
          \<longrightarrow> read_position st' m' td' sid d' = read_position st' m' td' sid d"
        using persist_order_record [OF inv(1) inv2 new(2) same po os(2) id(1) ne] by blast
      note hs = handled_signal_spec [OF inv h]
      have res: "xr_skipped_reason res = None" "xr_order res = Some ord" "xr_correlation_id res = Some cid"
        using po by (auto simp: persist_order_def split: sum.splits prod.splits)
      from hs [OF res(1)] have "xr_position res \<noteq> None"
        "xr_position res = read_position (lc_strategy_id lc) (lc_execution_mode lc) td (sg_security_id sig) d'" by blast+
      then obtain p where p: "xr_position res = Some p"
        "read_position (lc_strategy_id lc) (lc_execution_mode lc) td (sg_security_id sig) d' = Some p" by auto
      have "moves_position lc sig td d d' ord p"
        using after_fills_totals [of "sg_instrument sig" "sg_security_id sig" "sg_side sig" td stop target now' "od_fills ord"
            "read_position (lc_strategy_id lc) (lc_execution_mode lc) td (sg_security_id sig) d"] p pos oth ne(2)
        unfolding moves_position_def Let_def by (simp add: held_def charged_so_far_def)
      moreover have "leaves_intent d d' sig cid"
        using li [of d'] persist_frame(1) [OF po] persist_order_intents [OF po] by blast
      ultimately show ?thesis
        using traded [OF res(2,3,1) p(1) _ rec(1) id(2) os(1) _ _ _ rec(2)] acc b' p(2) pos
          submit_market_rounded [OF sb [unfolded Inr]] reserve_signal_Inr [OF rv] by (simp add: cid_def)
    qed
  qed
qed


section \<open>Properties\<close>

text \<open>C7: what handling a signal leaves when it returns, on every database the
  repository's writes reach and every state of the paper broker.  A suppressed
  signal changes nothing.  Otherwise there is one more signal row, one more
  reserved intent under an identifier no intent had, and exactly one more order
  row, with the status and quantity of the order returned.  If the broker
  rejected, that row is REJECTED, no fill and no position is touched, the
  broker's book is as it was and one ERROR row names the identifier.  If it
  answered, the broker knows that very order, which it did not before; every
  fill of it has exactly one row, in order, against the order row; the position
  returned is the stored one, moved by the signed quantity and the charges of
  those fills; no other position moved; and no error is recorded.
\<close>

theorem signal_leaves_its_record:
  assumes "repo_reach d" "broker_reach b"
    and "handle_signal (submit qb now) lc book now' sig td stop target (d, b) = (Inr res, (d', b'))"
  shows "case xr_order res of
      None \<Rightarrow> suppressed lc sig d \<and> d' = d \<and> b' = b
    | Some ord \<Rightarrow>
        xr_correlation_id res = Some (od_correlation_id ord)
        \<and> leaves_intent d d' sig (od_correlation_id ord) \<and> (\<exists>oid. leaves_order lc d d' oid ord)
        \<and> (if od_status ord = REJECTED
           then od_fills ord = [] \<and> db_positions d' = db_positions d
             \<and> order_by_correlation_id b' = order_by_correlation_id b
             \<and> (\<exists>row. row_list (db_errors d') = row_list (db_errors d) @ [row] \<and> er_severity row = ''ERROR''
                  \<and> er_context row = Some (od_correlation_id ord))
           else order_of_signal b sig ord
             \<and> order_by_correlation_id b (od_correlation_id ord) = None
             \<and> order_by_correlation_id b' (od_correlation_id ord) = Some ord
             \<and> (\<exists>p. xr_position res = Some p \<and> moves_position lc sig td d d' ord p)
             \<and> db_errors d' = db_errors d)"
proof (rule handled_signal_cases [OF repo_reach_inv [OF assms(1)] reach_inv [OF assms(2)] assms(3)])
  fix ord cid oid p
  assume "xr_order res = Some ord" "xr_correlation_id res = Some cid" "xr_position res = Some p"
    "leaves_intent d d' sig cid" "leaves_order lc d d' oid ord" "od_correlation_id ord = cid"
    "order_of_signal b sig ord" "order_by_correlation_id b cid = None" "order_by_correlation_id b' cid = Some ord"
    "moves_position lc sig td d d' ord p" "db_errors d' = db_errors d"
  moreover from this have "od_status ord \<noteq> REJECTED" by (auto simp: order_of_signal_def)
  ultimately show ?thesis by auto
qed (auto simp: rejected_order_def)

lemma life_run_status: "od_status (the (xr_order (projr (fst life_run)))) = FILLED"
  by code_simp

lemma life_run_has_order: "xr_order (projr (fst life_run)) \<noteq> None"
  by code_simp

theorem signal_leaves_its_record_witness:
  "\<exists>ord oid p. xr_order (projr (fst life_run)) = Some ord
     \<and> leaves_order life_config day_start (fst (snd life_run)) oid ord
     \<and> moves_position life_config life_signal ''2026-08-03'' day_start (fst (snd life_run)) ord p"
proof -
  obtain ord where o: "xr_order (projr (fst life_run)) = Some ord" using life_run_has_order by blast
  with life_run_status have "od_status ord = FILLED" by simp
  with signal_leaves_its_record [OF day_start_reach ex_broker_reach life_run_eq] o show ?thesis by auto
qed

end
