(* ===== verification/Conversions.thy ===== *)
theory Conversions
  imports Tables
begin

text \<open>
  Reading decoded JSON the way the code does: str, float, int and bool of a
  value, and keyword parameters with a default.
\<close>

text \<open>
  Python's conversions of a decoded JSON value that is not already of the type
  asked for: str of a number or container, float and int of a text.
\<close>

record py_conversions =
  py_shown :: "json \<Rightarrow> string"
  py_float :: "string \<Rightarrow> rat option"
  py_int :: "string \<Rightarrow> int option"

definition as_str :: "py_conversions \<Rightarrow> json \<Rightarrow> string" where
  "as_str py v = (case v of JStr s \<Rightarrow> s | _ \<Rightarrow> py_shown py v)"

definition as_float :: "py_conversions \<Rightarrow> json \<Rightarrow> rat option" where
  "as_float py v =
     (case v of JNum q \<Rightarrow> Some q | JBool b \<Rightarrow> Some (if b then 1 else 0) | JStr s \<Rightarrow> py_float py s | _ \<Rightarrow> None)"

definition truncated :: "rat \<Rightarrow> int" where
  "truncated q = (if 0 \<le> q then \<lfloor>q\<rfloor> else \<lceil>q\<rceil>)"

definition as_int :: "py_conversions \<Rightarrow> json \<Rightarrow> int option" where
  "as_int py v =
     (case v of JNum q \<Rightarrow> Some (truncated q) | JBool b \<Rightarrow> Some (if b then 1 else 0) | JStr s \<Rightarrow> py_int py s | _ \<Rightarrow> None)"

definition as_option_type :: "json \<Rightarrow> option_type option" where
  "as_option_type v = (if v = JStr ''CE'' then Some CE else if v = JStr ''PE'' then Some PE else None)"

definition as_bool :: "json \<Rightarrow> bool" where
  "as_bool v =
     (case v of JNull \<Rightarrow> False | JBool b \<Rightarrow> b | JNum q \<Rightarrow> q \<noteq> 0 | JStr s \<Rightarrow> s \<noteq> [] | JTime _ \<Rightarrow> True
      | JArr xs \<Rightarrow> xs \<noteq> [] | JObj kvs \<Rightarrow> kvs \<noteq> [])"

text \<open>The value of a key when isinstance of it is int or float.\<close>

definition number_at :: "(string, json) dict \<Rightarrow> string \<Rightarrow> rat option" where
  "number_at d key =
     (case dict_get d key of
        Some (JNum q) \<Rightarrow> Some q | Some (JBool b) \<Rightarrow> Some (if b then 1 else 0) | _ \<Rightarrow> None)"

text \<open>params.get(key, default) passed to a conversion that may raise.\<close>

definition conversion_error :: "json \<Rightarrow> exn" where
  "conversion_error v = (case v of JStr _ \<Rightarrow> ValueError | _ \<Rightarrow> TypeError)"

definition param :: "(string, json) dict \<Rightarrow> string \<Rightarrow> (json \<Rightarrow> 'a option) \<Rightarrow> 'a \<Rightarrow> 'a result" where
  "param d key convert fallback =
     (case dict_get d key of
        None \<Rightarrow> Inr fallback
      | Some v \<Rightarrow> (case convert v of None \<Rightarrow> Inl (conversion_error v) | Some x \<Rightarrow> Inr x))"

text \<open>Conversions of texts Python does not read as numbers, for the examples.\<close>

definition plain_conversions :: py_conversions where
  "plain_conversions = \<lparr>py_shown = (\<lambda>_. []), py_float = (\<lambda>_. None), py_int = (\<lambda>_. None)\<rparr>"

lemma conversions_typed [simp]:
  "as_str py (JStr s) = s" "as_float py (JNum q) = Some q" "as_int py (JNum q) = Some (truncated q)"
  by (simp_all add: as_str_def as_float_def as_int_def)

lemma truncated_of_int [simp]: "truncated (of_int n) = n"
  by (simp add: truncated_def)

end
