(* ===== verification/Recovery.thy ===== *)
theory Recovery
  imports Gateway Signal_Record Daily_Guard Conversions
begin

text \<open>
  Restart recovery, runtimes/intraday\_options/engine\_worker.py: what a new
  process rebuilds from the database of the one that died, and the row it
  writes when it cannot.  Error messages are a fixed text.
\<close>

record worker_config =
  wc_runtime_id :: string
  wc_strategy_id :: string
  wc_execution_mode :: execution_mode
  wc_trading_date :: string

text \<open>The contract of a stored record; None stands for the conversion error the code turns into one failure.\<close>

definition stored_contract :: "py_conversions \<Rightarrow> (string, json) dict \<Rightarrow> option_contract option" where
  "stored_contract py record =
     Option.bind (dict_get record ''symbol'') (\<lambda>symbol.
     Option.bind (dict_get record ''security_id'') (\<lambda>sid.
     Option.bind (Option.bind (dict_get record ''strike'') (as_float py)) (\<lambda>strike.
     Option.bind (Option.bind (dict_get record ''option_type'') as_option_type) (\<lambda>ot.
     Option.bind (dict_get record ''expiry'') (\<lambda>expiry.
     Option.bind (Option.bind (dict_get record ''lot_size'') (as_int py)) (\<lambda>lot_size.
     Some \<lparr>oc_symbol = as_str py symbol, oc_security_id = as_str py sid, oc_strike = strike, oc_option_type = ot,
           oc_expiry = as_str py expiry, oc_lot_size = lot_size\<rparr>))))))"

definition recovery_failed :: string where "recovery_failed = ''cannot adopt the open position''"
definition daily_risk_failed :: string where "daily_risk_failed = ''cannot restore the daily risk state''"

definition record_recovery_failure :: "worker_config \<Rightarrow> datetime \<Rightarrow> db \<Rightarrow> db" where
  "record_recovery_failure config now d =
     record_error (wc_runtime_id config) (Some (wc_strategy_id config)) (Some (wc_execution_mode config)) ''CRITICAL''
       ''engine.recovery'' recovery_failed None now d"

definition recover_position ::
  "py_conversions \<Rightarrow> worker_config \<Rightarrow> datetime \<Rightarrow> db \<Rightarrow> adopted_position option result \<times> db" where
  "recover_position py config now d =
     (let sid = wc_strategy_id config; mode = wc_execution_mode config; day = wc_trading_date config;
          failed = (Inl RuntimeError, record_recovery_failure config now d)
      in case open_positions sid mode day d of
           [] \<Rightarrow> (Inr None, d)
         | position # _ \<Rightarrow>
             (case read_payload sid mode day d of
                Inl e \<Rightarrow> failed
              | Inr payload \<Rightarrow>
                  (case dict_get payload open_position_key of
                     Some (JObj record) \<Rightarrow>
                       (case stored_contract py record of
                          None \<Rightarrow> failed
                        | Some contract \<Rightarrow>
                            if oc_security_id contract \<noteq> ps_security_id position then failed
                            else if oc_lot_size contract \<le> 0 \<or> \<bar>ps_quantity position\<bar> mod oc_lot_size contract \<noteq> 0
                            then failed
                            else
                              (Inr (Some
                                 \<lparr>ap_contract = contract,
                                  ap_side = (if 0 < ps_quantity position then BUY else SELL),
                                  ap_lots = \<bar>ps_quantity position\<bar> div oc_lot_size contract,
                                  ap_entry_price = ps_average_price position, ap_entry_time = ps_opened_at position,
                                  ap_entry_charges = ps_charges position, ap_last_price = None,
                                  ap_max_favorable_pnl =
                                    (case ps_highest_favourable position of None \<Rightarrow> 0 | Some x \<Rightarrow> x),
                                  ap_max_adverse_pnl =
                                    (case ps_lowest_favourable position of None \<Rightarrow> 0 | Some x \<Rightarrow> x),
                                  ap_last_candle_end_at =
                                    Option.bind (load_strategy_state sid mode day d) st_last_candle_end_at\<rparr>), d))
                   | _ \<Rightarrow> failed)))"

definition recover_daily_risk :: "worker_config \<Rightarrow> db \<Rightarrow> daily_risk_recovery option result" where
  "recover_daily_risk config d =
     (case load_strategy_state (wc_strategy_id config) (wc_execution_mode config) (wc_trading_date config) d of
        None \<Rightarrow> Inr None
      | Some row \<Rightarrow>
          Inr (Some \<lparr>rr_realised_pnl = st_daily_realised_pnl row,
                     rr_trade_count = int (closed_position_count (wc_strategy_id config) (wc_execution_mode config)
                       (wc_trading_date config) d)\<rparr>))"

definition recover_exit_state :: "worker_config \<Rightarrow> db \<Rightarrow> (string, json) dict option result" where
  "recover_exit_state config d =
     bindE (read_payload (wc_strategy_id config) (wc_execution_mode config) (wc_trading_date config) d) (\<lambda>payload.
       Inr (case dict_get payload exit_state_key of Some (JObj snapshot) \<Rightarrow> Some snapshot | _ \<Rightarrow> None))"

text \<open>The engine's checkpoint callbacks, as the worker wires them.\<close>

definition persist_exit_snapshot ::
  "worker_config \<Rightarrow> datetime \<Rightarrow> (string, json) dict option \<Rightarrow> datetime option \<Rightarrow> db \<Rightarrow> unit result \<times> db" where
  "persist_exit_snapshot config now snapshot last_candle_end_at d =
     (case merge_payload [(exit_state_key, map_option JObj snapshot)] (wc_runtime_id config) (wc_strategy_id config)
             (wc_execution_mode config) (wc_trading_date config) last_candle_end_at now d of
        (Inl e, d1) \<Rightarrow> (Inl e, d1) | (Inr _, d1) \<Rightarrow> (Inr (), d1))"

definition persist_marks :: "worker_config \<Rightarrow> string \<Rightarrow> money \<Rightarrow> money \<Rightarrow> db \<Rightarrow> db" where
  "persist_marks config sid high low d =
     update_position_marks (wc_strategy_id config) (wc_execution_mode config) (wc_trading_date config) sid high low d"

section \<open>Lemmas\<close>

lemma option_text_back [simp]: "as_option_type (JStr (option_text ot)) = Some ot"
  by (cases ot) (simp_all add: as_option_type_def option_text_def)

lemma stored_contract_json:
  "contract_json c lots s = JObj kvs \<Longrightarrow> stored_contract py kvs = Some c"
  by (auto simp: contract_json_def stored_contract_def)

lemma open_positions_open: "p \<in> set (open_positions sid m td d) \<Longrightarrow> position_is_open p"
  by (auto simp: open_positions_def select_rows_list position_is_open_def)

lemma open_positions_read:
  assumes "db_inv d"
  shows "p \<in> set (open_positions sid m td d) \<longleftrightarrow>
    position_is_open p \<and> read_position sid m td (ps_security_id p) d = Some p"
proof -
  have u: "unique_key position_key (db_positions d)" using assms by (simp add: db_inv_def keys_ok_def)
  have "read_position sid m td (ps_security_id (pr_position r)) d = Some (pr_position r)"
    if "r \<in> set (row_list (db_positions d))" "position_day r = (sid, m, td)" for r
    using unique_select_one [OF u that(1)] that(2) by (simp add: read_position_def position_key_def)
  moreover have "\<exists>r \<in> set (row_list (db_positions d)). position_day r = (sid, m, td) \<and> pr_position r = p"
    if "read_position sid m td k d = Some p" for k
    using that by (auto simp: read_position_def position_key_def dest: select_one_Some)
  ultimately show ?thesis
    by (force simp: open_positions_def select_rows_list position_is_open_def)
qed

definition recovers :: "position \<Rightarrow> adopted_position \<Rightarrow> bool" where
  "recovers p a =
     (oc_security_id (ap_contract a) = ps_security_id p
      \<and> side_sign (ap_side a) * (ap_lots a * oc_lot_size (ap_contract a)) = ps_quantity p \<and> 0 < ap_lots a
      \<and> ap_entry_price a = ps_average_price p \<and> ap_entry_time a = ps_opened_at p \<and> ap_entry_charges a = ps_charges p)"

lemma whole_lots:
  assumes "q \<noteq> 0" "0 < l" "\<bar>q\<bar> mod l = 0"
  shows "side_sign (if 0 < q then BUY else SELL) * (\<bar>q\<bar> div l * l) = q \<and> 0 < \<bar>q\<bar> div l"
proof -
  have "\<bar>q\<bar> div l * l = \<bar>q\<bar>" using assms(3) by (simp add: mod_eq_0_iff_dvd)
  moreover from this have "0 < \<bar>q\<bar> div l" using assms(1,2)
    by (metis abs_ge_zero abs_eq_0_iff mult_zero_left pos_imp_zdiv_nonneg_iff order_le_less)
  ultimately show ?thesis using assms(1) by auto
qed

section \<open>Properties\<close>

text \<open>C22: recovery of a carried position is all or nothing: either nothing is open in the
  database and nothing is recovered, or what is recovered is the open row itself
  (its security, its signed quantity as whole lots, its average price, opening
  time and charges) and nothing is written, or RuntimeError is raised and the
  only change is one CRITICAL row of the component engine.recovery.\<close>

theorem recovery_is_all_or_nothing:
  assumes "recover_position py config now d = (r, d')"
  shows "case open_positions (wc_strategy_id config) (wc_execution_mode config) (wc_trading_date config) d of
      [] \<Rightarrow> r = Inr None \<and> d' = d
    | p # _ \<Rightarrow> (\<exists>a. r = Inr (Some a) \<and> recovers p a \<and> d' = d)
        \<or> (r = Inl RuntimeError \<and> d' = record_recovery_failure config now d
           \<and> (\<exists>row. row_list (db_errors d') = row_list (db_errors d) @ [row] \<and> er_severity row = ''CRITICAL''
                \<and> er_component row = ''engine.recovery'')
           \<and> db_positions d' = db_positions d \<and> db_states d' = db_states d \<and> db_orders d' = db_orders d)"
proof (cases "open_positions (wc_strategy_id config) (wc_execution_mode config) (wc_trading_date config) d")
  case Nil
  with assms show ?thesis by (auto simp: recover_position_def)
next
  case (Cons p ps)
  then have q: "ps_quantity p \<noteq> 0"
    using open_positions_open [of p "wc_strategy_id config" "wc_execution_mode config" "wc_trading_date config" d]
    by (auto simp: position_is_open_def)
  have f: "\<exists>row. row_list (db_errors (record_recovery_failure config now d)) = row_list (db_errors d) @ [row]
      \<and> er_severity row = ''CRITICAL'' \<and> er_component row = ''engine.recovery''"
    "db_positions (record_recovery_failure config now d) = db_positions d"
    "db_states (record_recovery_failure config now d) = db_states d"
    "db_orders (record_recovery_failure config now d) = db_orders d"
    by (simp_all add: record_recovery_failure_def record_error_def)
  show ?thesis using assms f whole_lots [OF q] unfolding recover_position_def Let_def Cons
    by (auto simp: recovers_def split: sum.splits option.splits json.splits if_splits)
qed


definition recovering :: worker_config where
  "recovering = \<lparr>wc_runtime_id = ''intraday_options'', wc_strategy_id = ''ema_cross'', wc_execution_mode = PAPER,
     wc_trading_date = ''2026-08-03''\<rparr>"

text \<open>The same day with the contract record of another instrument, and without one.\<close>

definition stale_day :: db where
  "stale_day = snd (merge_payload [(open_position_key, None)] ''intraday_options'' ''ema_cross'' PAPER ''2026-08-03'' None
     (day_time 302) (fst (snd (snd leg_bought))))"

definition stale_recovery :: "adopted_position option result \<times> db" where
  "stale_recovery = recover_position plain_conversions recovering (day_time 500) stale_day"

theorem recovery_is_all_or_nothing_witness:
  "\<exists>row. row_list (db_errors (snd stale_recovery)) = row_list (db_errors stale_day) @ [row] \<and> er_severity row = ''CRITICAL''"
proof -
  have "length (open_positions (wc_strategy_id recovering) (wc_execution_mode recovering) (wc_trading_date recovering)
    stale_day) = 1" by code_simp
  then obtain p ps where o: "open_positions (wc_strategy_id recovering) (wc_execution_mode recovering)
    (wc_trading_date recovering) stale_day = p # ps" by (metis length_0_conv neq_Nil_conv zero_neq_one)
  have f: "fst stale_recovery = Inl RuntimeError" by code_simp
  have "recover_position plain_conversions recovering (day_time 500) stale_day = (fst stale_recovery, snd stale_recovery)"
    by (simp add: stale_recovery_def)
  from recovery_is_all_or_nothing [OF this] o f show ?thesis by (auto simp del: row_list_simps)
qed

text \<open>What the fills of a leg leave of a strategy-day with nothing open.\<close>

lemma leg_fills:
  assumes "db_inv d" "broker_inv b"
    and "execute (submit qb t) book now s c lots ref ts stop target (g, d, b) = (Inr f, (g', d', b'))"
    and "lc_strategy_id (lg_lifecycle g) = sid" "lc_execution_mode (lg_lifecycle g) = m" "lg_trading_date g = td"
  shows "\<exists>cid ord oid q. order_by_correlation_id b cid = None \<and> order_by_correlation_id b' cid = Some ord
    \<and> row_list (db_fills d') = row_list (db_fills d) @ map (fill_row_of oid (lc_runtime_id (lg_lifecycle g))) (od_fills ord)
    \<and> od_fills ord \<noteq> [] \<and> od_filled_quantity ord = lots * oc_lot_size c \<and> 0 < lots * oc_lot_size c
    \<and> (\<forall>x \<in> set (od_fills ord). fl_price x = fo_fill_price f \<and> 0 < fl_quantity x)
    \<and> fo_charges f = (\<Sum>x\<leftarrow>od_fills ord. fl_charges x)
    \<and> read_position sid m td (oc_security_id c) d' = Some q
    \<and> Some q = after_fills (oc_symbol c) (oc_security_id c) s td stop target now (od_fills ord)
            (read_position sid m td (oc_security_id c) d)
    \<and> ps_quantity q = held (read_position sid m td (oc_security_id c) d) + side_sign s * (lots * oc_lot_size c)
    \<and> ps_charges q = charged_so_far (read_position sid m td (oc_security_id c) d) + fo_charges f
    \<and> (\<forall>k. k \<noteq> oc_security_id c \<longrightarrow> read_position sid m td k d' = read_position sid m td k d)"
  using assms(3)
proof (cases rule: execute_cases)
  case (2 a e g1 sig x d1)
  then obtain res where res: "x = Inr res" "require_a_fill res = Inr ()" "Inr f = outcome res"
    "d' = record_contract g' c lots s res now d1" by auto
  have sg: "sg_side sig = s" "sg_quantity sig = lots * oc_lot_size c" "sg_security_id sig = oc_security_id c"
    "sg_instrument sig = oc_symbol c" "0 < lots * oc_lot_size c"
    using 2(2) [unfolded leg_signal_Inr] by simp_all
  have keep: "db_fills d' = db_fills d1" "read_position a1 b1 c1 e1 d' = read_position a1 b1 c1 e1 d1" for a1 b1 c1 e1
    using record_contract_frame [of g' c lots s res now d1] by (simp_all add: res(4) read_position_def)
  show ?thesis
  proof (rule handled_signal_cases [OF assms(1,2) 2(3) [unfolded res(1)]])
    fix ord cid oid p
    assume o: "xr_order res = Some ord" "leaves_order (lg_lifecycle g) d d1 oid ord" "order_of_signal b sig ord"
      "order_by_correlation_id b cid = None" "order_by_correlation_id b' cid = Some ord"
      "moves_position (lg_lifecycle g) sig (lg_trading_date g) d d1 ord p"
      "Some p = after_fills (sg_instrument sig) (sg_security_id sig) (sg_side sig) (lg_trading_date g) stop target now
        (od_fills ord) (read_position (lc_strategy_id (lg_lifecycle g)) (lc_execution_mode (lg_lifecycle g))
           (lg_trading_date g) (sg_security_id sig) d)"
      "\<forall>f \<in> set (od_fills ord). py_round 4 (fl_price f) = fl_price f"
    have fo: "od_average_fill_price ord = Some (fo_fill_price f)" "fo_charges f = (\<Sum>x\<leftarrow>od_fills ord. fl_charges x)"
      using res(3) o(1) by (auto simp: outcome_def split: option.splits)
    have full: "od_status ord = FILLED" using o(1,3) res(2) by (auto simp: require_a_fill_Inr order_of_signal_def)
    have os: "od_fills ord \<noteq> []" "od_filled_quantity ord = lots * oc_lot_size c"
      "\<forall>x \<in> set (od_fills ord). fl_price x = fo_fill_price f \<and> 0 < fl_quantity x"
      using o(3,8) full fo(1) sg(2) unfolding order_of_signal_def by auto
    have fills: "row_list (db_fills d') = row_list (db_fills d)
        @ map (fill_row_of oid (lc_runtime_id (lg_lifecycle g))) (od_fills ord)"
      using o(2) by (simp add: leaves_order_def keep)
    note mv = o(6) [unfolded moves_position_def Let_def sg assms(4-6)]
    show ?thesis
      by (intro exI [of _ cid] exI [of _ ord] exI [of _ oid] exI [of _ p])
        (use o(4,5) o(7) [unfolded sg assms(4-6)] os fills fo(2) sg(5) mv in \<open>auto simp: keep\<close>)
  qed (use res(2) in \<open>auto simp: require_a_fill_def\<close>)
qed simp

text \<open>A worker's configuration and a gateway of one strategy-day.\<close>

definition configured_as :: "worker_config \<Rightarrow> lifecycle_gateway \<Rightarrow> bool" where
  "configured_as config g =
     (wc_strategy_id config = lg_strategy_id g \<and> lc_strategy_id (lg_lifecycle g) = lg_strategy_id g
      \<and> wc_execution_mode config = lg_mode g \<and> lc_execution_mode (lg_lifecycle g) = lg_mode g
      \<and> wc_trading_date config = lg_trading_date g)"

lemma read_position_row:
  assumes "db_inv d" "read_position sid m td k d = Some p"
  shows "ps_security_id p = k" "position_is_open p \<longleftrightarrow> ps_quantity p \<noteq> 0"
proof -
  obtain r where r: "select_one (\<lambda>r. position_key r = ((sid, m, td), k)) (db_positions d) = Some r" "p = pr_position r"
    using assms(2) unfolding read_position_def by blast
  have key: "position_key r = ((sid, m, td), k)" and mem: "r \<in> set (row_list (db_positions d))"
    using select_one_Some [OF r(1)] by simp_all
  show "ps_security_id p = k" using key r(2) by (simp add: position_key_def)
  have "ps_status p = CLOSED \<longleftrightarrow> ps_quantity p = 0"
    using assms(1) mem r(2) by (auto simp: db_inv_def rows_ok_def)
  then show "position_is_open p \<longleftrightarrow> ps_quantity p \<noteq> 0" by (cases "ps_status p") (auto simp: position_is_open_def)
qed

lemma nothing_open:
  assumes "db_inv d" "open_positions sid m td d = []"
  shows "held (read_position sid m td k d) = 0"
proof (cases "read_position sid m td k d")
  case (Some p)
  have "p \<notin> set (open_positions sid m td d)" using assms(2) by simp
  with open_positions_read [OF assms(1)] Some read_position_row [OF assms(1) Some] show ?thesis
    by (auto simp: held_def)
qed (simp add: held_def)

lemma open_after_leg:
  assumes "db_inv d" "db_inv d'" "open_positions sid m td d = []"
    and "read_position sid m td k d' = Some q" "ps_quantity q \<noteq> 0"
    and "\<forall>k'. k' \<noteq> k \<longrightarrow> read_position sid m td k' d' = read_position sid m td k' d"
  shows "\<exists>ps. open_positions sid m td d' = q # ps" "position_is_open q" "ps_security_id q = k"
proof -
  show q: "position_is_open q" and k: "ps_security_id q = k"
    using read_position_row [OF assms(2,4)] assms(5) by simp_all
  have "p = q" if "p \<in> set (open_positions sid m td d')" for p
  proof -
    have p: "position_is_open p" "read_position sid m td (ps_security_id p) d' = Some p"
      using that open_positions_read [OF assms(2)] by blast+
    have "ps_security_id p = k"
    proof (rule ccontr)
      assume "ps_security_id p \<noteq> k"
      with p(2) assms(6) have "read_position sid m td (ps_security_id p) d = Some p" by simp
      with p(1) have "p \<in> set (open_positions sid m td d)" using open_positions_read [OF assms(1)] by blast
      with assms(3) show False by simp
    qed
    with p(2) assms(4) show ?thesis by simp
  qed
  moreover have "q \<in> set (open_positions sid m td d')"
    using open_positions_read [OF assms(2)] q assms(4) k by blast
  ultimately have all: "\<And>p. p \<in> set (open_positions sid m td d') \<Longrightarrow> p = q" "open_positions sid m td d' \<noteq> []" by auto
  obtain p ps where ps: "open_positions sid m td d' = p # ps" using all(2) by (meson neq_Nil_conv)
  have "p = q" by (rule all(1)) (simp add: ps)
  with ps show "\<exists>ps. open_positions sid m td d' = q # ps" by blast
qed

text \<open>C23: what a leg that opens a position leaves in the database is what a restart
  recovers.  On a strategy-day with nothing open, for a contract of positive lot
  size, after a leg of the persisting gateway over the paper broker that reports
  an outcome, a worker configured for the same strategy, mode and day recovers,
  writing nothing: that contract, through the record the leg wrote; the side and
  the lots of the leg; the price the leg reported as its entry price; as entry
  charges those the leg reported, on top of what an earlier position of the same
  contract and day had been charged; and as entry time that of the first fill of
  the leg's order, or that earlier position's.
\<close>

theorem recovered_position_is_the_leg:
  assumes "repo_reach d" "broker_reach b" "lg_has_repository g" "configured_as config g"
    and "execute (submit qb t) book now s c lots ref ts stop target (g, d, b) = (Inr f, (g', d', b'))"
    and "open_positions (lg_strategy_id g) (lg_mode g) (lg_trading_date g) d = []" "0 < oc_lot_size c"
    and "before = read_position (lg_strategy_id g) (lg_mode g) (lg_trading_date g) (oc_security_id c) d"
  shows "\<exists>a cid ord. recover_position py config now' d' = (Inr (Some a), d')
    \<and> ap_contract a = c \<and> ap_side a = s \<and> ap_lots a = lots \<and> ap_entry_price a = fo_fill_price f
    \<and> ap_entry_charges a = charged_so_far before + fo_charges f
    \<and> order_by_correlation_id b cid = None \<and> order_by_correlation_id b' cid = Some ord
    \<and> ap_entry_time a = (case before of None \<Rightarrow> fl_filled_at (hd (od_fills ord)) | Some q \<Rightarrow> ps_opened_at q)"
proof -
  note i = repo_reach_inv [OF assms(1)] reach_inv [OF assms(2)]
  note w = assms(4) [unfolded configured_as_def]
  obtain cid ord q where
    o: "order_by_correlation_id b cid = None" "order_by_correlation_id b' cid = Some ord"
    "od_fills ord \<noteq> []" "0 < lots * oc_lot_size c"
    "\<forall>x \<in> set (od_fills ord). fl_price x = fo_fill_price f \<and> 0 < fl_quantity x"
    and q: "read_position (lg_strategy_id g) (lg_mode g) (lg_trading_date g) (oc_security_id c) d' = Some q"
    "Some q = after_fills (oc_symbol c) (oc_security_id c) s (lg_trading_date g) stop target now (od_fills ord) before"
    "ps_quantity q = held before + side_sign s * (lots * oc_lot_size c)"
    "ps_charges q = charged_so_far before + fo_charges f"
    "\<forall>k. k \<noteq> oc_security_id c \<longrightarrow> read_position (lg_strategy_id g) (lg_mode g) (lg_trading_date g) k d'
        = read_position (lg_strategy_id g) (lg_mode g) (lg_trading_date g) k d"
    using leg_fills [OF i assms(5)] w unfolding assms(8) by blast
  have inv': "db_inv d'" using execute_db_inv [OF i(1) assms(5)] .
  obtain kvs where kvs: "read_payload (lg_strategy_id g) (lg_mode g) (lg_trading_date g) d' = Inr kvs"
    "dict_get kvs open_position_key = (if position_is_open q then Some (contract_json c lots s) else None)"
    using leg_contract_record [OF i(1) repo_reach_states_current [OF assms(1)] i(2) assms(3,5)] w q(1) by auto
  obtain ks where ks: "contract_json c lots s = JObj ks" by (simp add: contract_json_def)
  have h0: "held before = 0" unfolding assms(8) by (rule nothing_open [OF i(1) assms(6)])
  have qty: "ps_quantity q = side_sign s * (lots * oc_lot_size c)" using q(3) h0 by simp
  have "ps_quantity q \<noteq> 0" using qty o(4) by (cases s) auto
  note op = open_after_leg [OF i(1) inv' assms(6) q(1) this q(5)]
  obtain ps where ps: "open_positions (lg_strategy_id g) (lg_mode g) (lg_trading_date g) d' = q # ps" using op(1) by blast
  have lots: "0 < lots" using o(4) assms(7) by (simp add: zero_less_mult_iff)
  have whole: "\<bar>ps_quantity q\<bar> = lots * oc_lot_size c" "(0 < ps_quantity q) = (s = BUY)"
    using qty o(4) by (cases s; simp)+
  have avg: "ps_average_price q = fo_fill_price f"
    by (rule after_fills_average [OF o(5) _ q(2) [symmetric] o(3)]) (simp add: h0)
  have opened: "ps_opened_at q = (case before of None \<Rightarrow> fl_filled_at (hd (od_fills ord)) | Some p \<Rightarrow> ps_opened_at p)"
    by (rule after_fills_opened [OF q(2) [symmetric] o(3)])
  have side: "(if s = BUY then BUY else SELL) = s" by (cases s) simp_all
  have "\<exists>a. recover_position py config now' d' = (Inr (Some a), d')
    \<and> ap_contract a = c \<and> ap_side a = s \<and> ap_lots a = lots \<and> ap_entry_price a = fo_fill_price f
    \<and> ap_entry_charges a = charged_so_far before + fo_charges f \<and> ap_entry_time a = ps_opened_at q"
    using w ps kvs op(2,3) ks stored_contract_json [OF ks] assms(7) whole avg q(4) lots side
    by (simp add: recover_position_def Let_def)
  with o(1,2) opened show ?thesis by metis
qed

theorem recovered_position_is_the_leg_witness:
  "\<exists>a. recover_position plain_conversions recovering (day_time 500) (fst (snd (snd leg_bought)))
       = (Inr (Some a), fst (snd (snd leg_bought))) \<and> ap_contract a = pm_contract \<and> ap_side a = BUY \<and> ap_lots a = 1
       \<and> ap_entry_price a = fo_fill_price (projr (fst leg_bought))
       \<and> ap_entry_charges a = fo_charges (projr (fst leg_bought))"
proof -
  have c: "lg_has_repository leg_gateway" "configured_as recovering leg_gateway"
    "open_positions (lg_strategy_id leg_gateway) (lg_mode leg_gateway) (lg_trading_date leg_gateway) day_start = []"
    "0 < oc_lot_size pm_contract" by code_simp+
  have n: "None = read_position (lg_strategy_id leg_gateway) (lg_mode leg_gateway) (lg_trading_date leg_gateway)
      (oc_security_id pm_contract) day_start" by code_simp
  from recovered_position_is_the_leg [OF day_start_reach ex_broker_reach c(1,2) leg_bought_run c(3,4) n]
  show ?thesis by (auto simp: charged_so_far_def)
qed

text \<open>
  What a restarted guard resumes from is the realised profit before charges,
  while the guard of the process that died had booked the trade net of them.
\<close>

lemma restored_risk_is_gross:
  "case (recover_daily_risk recovering (fst (snd (snd (snd live_closed)))), pm_trades (fst (snd live_closed))) of
     (Inr (Some r), [t]) \<Rightarrow> rr_realised_pnl r = tr_gross_pnl t \<and> net_pnl t < rr_realised_pnl r
   | _ \<Rightarrow> False"
  by code_simp

text \<open>C11: a restart does not reopen the day, on the figures the database gives.  On
  every reachable database with a state row for the day, the worker seeds its
  fresh guard with the sum of the realised profits of the day's position rows
  (before charges) and the number of those that are closed; and whatever trades
  it books from then on, the guard is halted by the kill switch, if that is set,
  and otherwise at the first point (the restart itself included) at which that
  sum and count, with the trades booked since, cross the loss cap, the profit
  target or the trade limit, and by the limit they cross there; if they cross
  none, it is not halted.
\<close>

theorem restarted_guard_halts_exactly:
  assumes "repo_reach d" "recover_daily_risk config d = Inr (Some r)"
    and "day = (wc_strategy_id config, wc_execution_mode config, wc_trading_date config)"
    and "p = (\<Sum>q\<leftarrow>select_rows (\<lambda>q. position_day q = day) (db_positions d). ps_realised_pnl (pr_position q))"
    and "n = int (length (select_rows (\<lambda>q. position_day q = day \<and> ps_status (pr_position q) = CLOSED) (db_positions d)))"
    and "g = guard_calls (map Booked xs) (snd (restore_guard r (new_daily_guard cfg)))"
  shows "if dc_kill_switch cfg then dg_halt_reason g = Some Kill_Switch
    else (\<forall>k. first_crossing cfg p n xs k \<longrightarrow> dg_halt_reason g = crossed_after cfg p n xs k)
      \<and> ((\<forall>k \<le> length xs. crossed_after cfg p n xs k = None) \<longrightarrow> dg_halt_reason g = None)"
proof -
  obtain row where row: "load_strategy_state (wc_strategy_id config) (wc_execution_mode config) (wc_trading_date config) d
      = Some row" "r = \<lparr>rr_realised_pnl = st_daily_realised_pnl row, rr_trade_count = int (closed_position_count
        (wc_strategy_id config) (wc_execution_mode config) (wc_trading_date config) d)\<rparr>"
    using assms(2) by (auto simp: recover_daily_risk_def split: option.splits)
  have "day_recorded day d = day_realised day d"
    using repo_reach_inv [OF assms(1)] unfolding db_inv_def pnl_ok_def by blast
  then have "p = rr_realised_pnl r"
    using row by (simp add: assms(3,4) day_recorded_def load_strategy_state_def day_realised_def sum_rows_def)
  moreover have "n = rr_trade_count r" by (simp add: row(2) assms(3,5) closed_position_count_def)
  ultimately show ?thesis using seeded_guard [OF refl, where p = p and r = r and n = n and xs = xs and cfg = cfg] by (simp add: assms(6))
qed

text \<open>A day with one closed round trip of a profit of 750 before charges, restarted with a cap that a loss of 1750 reaches.\<close>

definition traded_day :: db where
  "traded_day = day_trades 1 [(BUY, 100), (SELL, 110)] day_start"

definition traded_worker :: worker_config where
  "traded_worker = \<lparr>wc_runtime_id = ''io'', wc_strategy_id = ''ema'', wc_execution_mode = PAPER,
     wc_trading_date = ''2026-08-03''\<rparr>"

lemma traded_day_risk:
  "recover_daily_risk traded_worker traded_day = Inr (Some \<lparr>rr_realised_pnl = 750, rr_trade_count = 1\<rparr>)"
  by code_simp

theorem restarted_guard_halts_exactly_witness:
  "dg_halt_reason (guard_calls (map Booked [-1000, -750, 9000])
     (snd (restore_guard \<lparr>rr_realised_pnl = 750, rr_trade_count = 1\<rparr> (new_daily_guard loss_cap)))) = Some Max_Loss"
proof -
  let ?day = "(wc_strategy_id traded_worker, wc_execution_mode traded_worker, wc_trading_date traded_worker)"
  have p: "(\<Sum>q\<leftarrow>select_rows (\<lambda>q. position_day q = ?day) (db_positions traded_day). ps_realised_pnl (pr_position q)) = 750"
    "int (length (select_rows (\<lambda>q. position_day q = ?day \<and> ps_status (pr_position q) = CLOSED) (db_positions traded_day))) = 1"
    by code_simp+
  have f: "first_crossing loss_cap 750 1 [-1000, -750, 9000] 2"
    "crossed_after loss_cap 750 1 [-1000, -750, 9000] 2 = Some Max_Loss" "\<not> dc_kill_switch loss_cap"
    by (auto simp: first_crossing_def less_2_cases_iff crossed_after_def crossed_def loss_cap_def)
  have reach: "repo_reach traded_day" unfolding traded_day_def by (rule day_round_trips_reach)
  from restarted_guard_halts_exactly [OF reach traded_day_risk refl refl refl refl, unfolded p, where xs = "[-1000, -750, 9000]" and cfg = loss_cap]
  show ?thesis using f(1,2) by (simp only: f(3) if_False)
qed

end
