(* ===== verification/Exits.thy ===== *)
theory Exits
  imports Engine_Models Candles Session Conversions Effects
begin

text \<open>
  common/exit: the exit rules, one record per stateful rule and one datatype
  over all of them, and the composite that evaluates a priority list of them.
  A rule may raise (a percentage of a zero price), and keeps the state it had
  reached when it does.  A JSON number does not say whether it was written as
  an integer.
\<close>

section \<open>What a rule looks at\<close>

record exit_input =
  ei_position :: open_position
  ei_candle :: ohlc
  ei_history :: "ohlc list"
  ei_indicators :: "(string, bool \<times> int) dict"
  ei_timestamp :: "datetime option"

definition uptrend :: int where "uptrend = 1"
definition downtrend :: int where "downtrend = - 1"

definition profit_points :: "open_position \<Rightarrow> money" where
  "profit_points p =
     (if op_side p = BUY then op_last_price p - op_entry_price p else op_entry_price p - op_last_price p)"

definition holds_call :: "open_position \<Rightarrow> bool" where
  "holds_call p = (oc_option_type (op_contract p) = CE)"

section \<open>Stateless rules\<close>

definition stop_loss_exit :: "money \<Rightarrow> exit_input \<Rightarrow> bool" where
  "stop_loss_exit points v =
     (let p = ei_position v;
          loss = (if op_side p = BUY then op_entry_price p - op_last_price p else op_last_price p - op_entry_price p)
      in points \<le> loss)"

definition fixed_target_exit :: "money \<Rightarrow> exit_input \<Rightarrow> bool" where
  "fixed_target_exit points v = (points \<le> profit_points (ei_position v))"

definition should_exit_closes ::
  "bool \<Rightarrow> money \<Rightarrow> money option \<Rightarrow> side option \<Rightarrow> option_type option \<Rightarrow> bool" where
  "should_exit_closes premium current previous s ot =
     (case previous of
        None \<Rightarrow> False
      | Some prev \<Rightarrow>
          if premium then
            (case s of Some BUY \<Rightarrow> current < prev | Some SELL \<Rightarrow> prev < current | None \<Rightarrow> False)
          else
            (case ot of Some CE \<Rightarrow> current < prev | Some PE \<Rightarrow> prev < current | None \<Rightarrow> False))"

definition momentum_close_exit :: "bool \<Rightarrow> exit_input \<Rightarrow> bool" where
  "momentum_close_exit premium v =
     should_exit_closes premium (oh_close (ei_candle v))
       (if ei_history v = [] then None else Some (oh_close (last (ei_history v))))
       (Some (op_side (ei_position v))) (Some (oc_option_type (op_contract (ei_position v))))"

definition momentum_low_exit :: "bool \<Rightarrow> exit_input \<Rightarrow> bool" where
  "momentum_low_exit by_side v =
     (if ei_history v = [] then False
      else
        let prev = last (ei_history v);
            is_long = (if by_side then op_side (ei_position v) = BUY else holds_call (ei_position v))
        in if is_long then oh_close (ei_candle v) < oh_low prev else oh_high prev < oh_close (ei_candle v))"

definition super_trend_exit :: "string \<Rightarrow> exit_input \<Rightarrow> bool" where
  "super_trend_exit key v =
     (case dict_get (ei_indicators v) key of
        None \<Rightarrow> False
      | Some (ready, trend) \<Rightarrow>
          if \<not> ready then False
          else if holds_call (ei_position v) then trend = downtrend else trend = uptrend)"

definition time_exit :: "tod \<Rightarrow> exit_input \<Rightarrow> bool" where
  "time_exit cutoff v = (case ei_timestamp v of None \<Rightarrow> False | Some ts \<Rightarrow> cutoff \<le> dt_time ts)"

section \<open>Trailing stop, consecutive reversal\<close>

record trailing =
  tr_trail_points :: money
  tr_peak_profit :: money

definition trailing_exit :: "exit_input \<Rightarrow> trailing \<Rightarrow> bool \<times> trailing" where
  "trailing_exit v t =
     (let profit = profit_points (ei_position v);
          t1 = (if tr_peak_profit t < profit then t\<lparr>tr_peak_profit := profit\<rparr> else t)
      in if tr_peak_profit t1 \<le> 0 then (False, t1)
         else (tr_trail_points t1 \<le> tr_peak_profit t1 - profit, t1))"

definition trailing_snapshot :: "trailing \<Rightarrow> (string, json) dict" where
  "trailing_snapshot t = (if 0 < tr_peak_profit t then [(''peak_profit'', JNum (tr_peak_profit t))] else [])"

definition trailing_restore :: "(string, json) dict \<Rightarrow> trailing \<Rightarrow> trailing" where
  "trailing_restore d t =
     (case number_at d ''peak_profit'' of None \<Rightarrow> t | Some q \<Rightarrow> t\<lparr>tr_peak_profit := q\<rparr>)"

record consecutive =
  cr_reverse_candles :: int
  cr_streak :: int
  cr_prev_close :: "money option"

definition consecutive_exit :: "exit_input \<Rightarrow> consecutive \<Rightarrow> bool \<times> consecutive" where
  "consecutive_exit v c =
     (let close = oh_close (ei_candle v);
          c1 = (case cr_prev_close c of
                  None \<Rightarrow> c
                | Some prev \<Rightarrow>
                    let adverse = (if holds_call (ei_position v) then close < prev else prev < close)
                    in c\<lparr>cr_streak := (if adverse then cr_streak c + 1 else 0)\<rparr>);
          c2 = c1\<lparr>cr_prev_close := Some close\<rparr>
      in (cr_reverse_candles c2 \<le> cr_streak c2, c2))"

definition consecutive_snapshot :: "consecutive \<Rightarrow> (string, json) dict" where
  "consecutive_snapshot c =
     (if cr_streak c = 0 \<and> cr_prev_close c = None then []
      else [(''streak'', JNum (of_int (cr_streak c))),
            (''prev_close'', case cr_prev_close c of None \<Rightarrow> JNull | Some q \<Rightarrow> JNum q)])"

definition consecutive_restore :: "(string, json) dict \<Rightarrow> consecutive \<Rightarrow> consecutive" where
  "consecutive_restore d c =
     (let c1 = (case number_at d ''streak'' of
                  None \<Rightarrow> c | Some q \<Rightarrow> if q = of_int \<lfloor>q\<rfloor> then c\<lparr>cr_streak := \<lfloor>q\<rfloor>\<rparr> else c)
      in case number_at d ''prev_close'' of None \<Rightarrow> c1 | Some q \<Rightarrow> c1\<lparr>cr_prev_close := Some q\<rparr>)"

section \<open>Best-close trail\<close>

record best_close =
  bc_by_side :: bool
  bc_percentage :: bool
  bc_trail_points :: money
  bc_trail_percentage :: rat
  bc_activation_enabled :: bool
  bc_min_move :: rat
  bc_extreme :: "money option"
  bc_activated :: bool

definition is_long :: "bool \<Rightarrow> open_position \<Rightarrow> bool" where
  "is_long by_side p = (if by_side then op_side p = BUY else holds_call p)"

definition retraced :: "bool \<Rightarrow> money \<Rightarrow> money \<Rightarrow> best_close \<Rightarrow> bool result \<times> best_close" where
  "retraced long extreme close b =
     (if extreme = 0 then (Inl ZeroDivisionError, b)
      else
        (Inr (bc_trail_percentage b \<le> (if long then extreme - close else close - extreme) / extreme * 100), b))"

definition best_close_exit :: "exit_input \<Rightarrow> best_close \<Rightarrow> bool result \<times> best_close" where
  "best_close_exit v b =
     (let close = oh_close (ei_candle v);
          long = is_long (bc_by_side b) (ei_position v);
          extreme = (case bc_extreme b of
                       None \<Rightarrow> close | Some x \<Rightarrow> if long then max x close else min x close);
          b1 = b\<lparr>bc_extreme := Some extreme\<rparr>
      in if \<not> bc_percentage b1
         then (Inr (bc_trail_points b1 \<le> (if long then extreme - close else close - extreme)), b1)
         else if bc_activation_enabled b1 \<and> \<not> bc_activated b1 then
           (let entry = op_entry_price (ei_position v) in
            if entry = 0 then (Inl ZeroDivisionError, b1)
            else if (if long then extreme - entry else entry - extreme) / entry * 100 < bc_min_move b1
            then (Inr False, b1)
            else retraced long extreme close (b1\<lparr>bc_activated := True\<rparr>))
         else retraced long extreme close b1)"

definition best_close_snapshot :: "best_close \<Rightarrow> (string, json) dict" where
  "best_close_snapshot b =
     (case bc_extreme b of None \<Rightarrow> [] | Some x \<Rightarrow> [(''extreme'', JNum x), (''activated'', JBool (bc_activated b))])"

definition best_close_restore :: "(string, json) dict \<Rightarrow> best_close \<Rightarrow> best_close" where
  "best_close_restore d b =
     (case number_at d ''extreme'' of
        None \<Rightarrow> b
      | Some x \<Rightarrow>
          b\<lparr>bc_extreme := Some x,
            bc_activated := (case dict_get d ''activated'' of None \<Rightarrow> False | Some j \<Rightarrow> as_bool j)\<rparr>)"

section \<open>Combined candle exit\<close>

record combined =
  cc_trail :: best_close
  cc_momentum_fired :: bool
  cc_trail_fired :: bool
  cc_highest_close :: "money option"
  cc_lowest_close :: "money option"
  cc_suppress_momentum :: bool
  cc_label :: string
  cc_exit_reason :: exit_reason

definition combined_label :: string where "combined_label = ''MOMENTUM_LOW_OR_HIGHEST_CLOSE''"

definition combined_reset :: "combined \<Rightarrow> combined" where
  "combined_reset c =
     c\<lparr>cc_trail := (cc_trail c)\<lparr>bc_extreme := None, bc_activated := False\<rparr>, cc_momentum_fired := False,
       cc_trail_fired := False, cc_highest_close := None, cc_lowest_close := None, cc_suppress_momentum := False\<rparr>"

definition combined_gap :: "combined \<Rightarrow> combined" where
  "combined_gap c = c\<lparr>cc_suppress_momentum := True\<rparr>"

definition combined_named :: "bool \<Rightarrow> combined \<Rightarrow> combined" where
  "combined_named long c =
     (if cc_momentum_fired c \<and> cc_trail_fired c
      then c\<lparr>cc_label := ''MOMENTUM_AND_TRAIL'', cc_exit_reason := MOMENTUM_AND_TRAIL\<rparr>
      else if cc_momentum_fired c
      then c\<lparr>cc_label := (if long then ''MOMENTUM_LOW'' else ''MOMENTUM_HIGH''),
             cc_exit_reason := (if long then MOMENTUM_LOW else MOMENTUM_HIGH)\<rparr>
      else if cc_trail_fired c
      then c\<lparr>cc_label := (if long then ''HIGHEST_CLOSE_TRAIL'' else ''LOWEST_CLOSE_TRAIL''),
             cc_exit_reason := (if long then HIGHEST_CLOSE_TRAIL else LOWEST_CLOSE_TRAIL)\<rparr>
      else c)"

definition combined_exit :: "exit_input \<Rightarrow> combined \<Rightarrow> bool result \<times> combined" where
  "combined_exit v c =
     (let close = oh_close (ei_candle v);
          c1 = c\<lparr>cc_highest_close := Some (case cc_highest_close c of None \<Rightarrow> close | Some x \<Rightarrow> max x close),
                 cc_lowest_close := Some (case cc_lowest_close c of None \<Rightarrow> close | Some x \<Rightarrow> min x close)\<rparr>;
          c2 = (if cc_suppress_momentum c1 then c1\<lparr>cc_momentum_fired := False, cc_suppress_momentum := False\<rparr>
                else c1\<lparr>cc_momentum_fired := momentum_low_exit True v\<rparr>)
      in case best_close_exit v (cc_trail c2) of
           (Inl e, b) \<Rightarrow> (Inl e, c2\<lparr>cc_trail := b\<rparr>)
         | (Inr fired, b) \<Rightarrow>
             let c3 = c2\<lparr>cc_trail := b, cc_trail_fired := fired\<rparr>
             in (Inr (cc_momentum_fired c3 \<or> cc_trail_fired c3),
                 combined_named (op_side (ei_position v) = BUY) c3))"

definition combined_snapshot :: "combined \<Rightarrow> (string, json) dict" where
  "combined_snapshot c =
     (case cc_highest_close c of None \<Rightarrow> [] | Some x \<Rightarrow> [(''highest_close'', JNum x)])
     @ (case cc_lowest_close c of None \<Rightarrow> [] | Some x \<Rightarrow> [(''lowest_close'', JNum x)])
     @ (if best_close_snapshot (cc_trail c) = [] then []
        else [(''trail'', JObj (best_close_snapshot (cc_trail c)))])"

definition combined_restore :: "(string, json) dict \<Rightarrow> combined \<Rightarrow> combined" where
  "combined_restore d c =
     (let c1 = (case number_at d ''highest_close'' of None \<Rightarrow> c | Some x \<Rightarrow> c\<lparr>cc_highest_close := Some x\<rparr>);
          c2 = (case number_at d ''lowest_close'' of None \<Rightarrow> c1 | Some x \<Rightarrow> c1\<lparr>cc_lowest_close := Some x\<rparr>)
      in case dict_get d ''trail'' of
           Some (JObj t) \<Rightarrow> c2\<lparr>cc_trail := best_close_restore t (cc_trail c2)\<rparr>
         | _ \<Rightarrow> c2)"

text \<open>The rule's state as columns of the closed trade.\<close>

record exit_columns =
  xc_highest_completed_close :: "money option"
  xc_lowest_completed_close :: "money option"
  xc_best_favourable_close :: "money option"
  xc_retracement_points :: "money option"
  xc_retracement_percentage :: "rat option"
  xc_candle_structure_triggered :: bool
  xc_trail_triggered :: bool
  xc_trail_activated :: bool

definition trail_activated :: "combined \<Rightarrow> bool" where
  "trail_activated c = (\<not> bc_activation_enabled (cc_trail c) \<or> bc_activated (cc_trail c))"

definition apply_to_trade :: "combined \<Rightarrow> trade \<Rightarrow> exit_columns" where
  "apply_to_trade c t =
     (let long = (tr_side t = BUY);
          best = (if long then cc_highest_close c else cc_lowest_close c);
          retracement = (case best of
              None \<Rightarrow> None
            | Some b \<Rightarrow> if b \<le> 0 then None
                        else Some (max (if long then b - tr_exit_price t else tr_exit_price t - b) 0))
      in \<lparr>xc_highest_completed_close = cc_highest_close c, xc_lowest_completed_close = cc_lowest_close c,
          xc_best_favourable_close = best, xc_retracement_points = retracement,
          xc_retracement_percentage =
            (case (retracement, best) of (Some r, Some b) \<Rightarrow> Some (r / b * 100) | _ \<Rightarrow> None),
          xc_candle_structure_triggered = cc_momentum_fired c, xc_trail_triggered = cc_trail_fired c,
          xc_trail_activated = trail_activated c\<rparr>)"

section \<open>The registered rules\<close>

datatype exit_engine =
    Stop_Loss money
  | Fixed_Target money
  | Momentum_Close bool
  | Momentum_Low bool
  | Highest_Close best_close
  | Consecutive_Reversal consecutive
  | Super_Trend string
  | Trailing trailing
  | Time_Exit tod
  | Combined_Candle combined

definition exit_label :: "exit_engine \<Rightarrow> string" where
  "exit_label e =
     (case e of
        Stop_Loss _ \<Rightarrow> ''STOPLOSS'' | Fixed_Target _ \<Rightarrow> ''FIXED_TARGET'' | Momentum_Close _ \<Rightarrow> ''MOMENTUM_CLOSE''
      | Momentum_Low _ \<Rightarrow> ''MOMENTUM_LOW'' | Highest_Close _ \<Rightarrow> ''HIGHEST_CLOSE''
      | Consecutive_Reversal _ \<Rightarrow> ''CONSECUTIVE_REVERSAL'' | Super_Trend _ \<Rightarrow> ''SUPERTREND''
      | Trailing _ \<Rightarrow> ''TRAILING'' | Time_Exit _ \<Rightarrow> ''TIME_EXIT'' | Combined_Candle c \<Rightarrow> cc_label c)"

definition should_exit :: "exit_input \<Rightarrow> (bool, exit_engine) act" where
  "should_exit v e =
     (case e of
        Stop_Loss points \<Rightarrow> (Inr (stop_loss_exit points v), e)
      | Fixed_Target points \<Rightarrow> (Inr (fixed_target_exit points v), e)
      | Momentum_Close premium \<Rightarrow> (Inr (momentum_close_exit premium v), e)
      | Momentum_Low by_side \<Rightarrow> (Inr (momentum_low_exit by_side v), e)
      | Highest_Close b \<Rightarrow> map_prod id Highest_Close (best_close_exit v b)
      | Consecutive_Reversal c \<Rightarrow> map_prod Inr Consecutive_Reversal (consecutive_exit v c)
      | Super_Trend key \<Rightarrow> (Inr (super_trend_exit key v), e)
      | Trailing t \<Rightarrow> map_prod Inr Trailing (trailing_exit v t)
      | Time_Exit cutoff \<Rightarrow> (Inr (time_exit cutoff v), e)
      | Combined_Candle c \<Rightarrow> map_prod id Combined_Candle (combined_exit v c))"

definition reset_exit :: "exit_engine \<Rightarrow> exit_engine" where
  "reset_exit e =
     (case e of
        Highest_Close b \<Rightarrow> Highest_Close (b\<lparr>bc_extreme := None, bc_activated := False\<rparr>)
      | Consecutive_Reversal c \<Rightarrow> Consecutive_Reversal (c\<lparr>cr_streak := 0, cr_prev_close := None\<rparr>)
      | Trailing t \<Rightarrow> Trailing (t\<lparr>tr_peak_profit := 0\<rparr>)
      | Combined_Candle c \<Rightarrow> Combined_Candle (combined_reset c)
      | _ \<Rightarrow> e)"

definition snapshot_exit :: "exit_engine \<Rightarrow> (string, json) dict" where
  "snapshot_exit e =
     (case e of
        Highest_Close b \<Rightarrow> best_close_snapshot b
      | Consecutive_Reversal c \<Rightarrow> consecutive_snapshot c
      | Trailing t \<Rightarrow> trailing_snapshot t
      | Combined_Candle c \<Rightarrow> combined_snapshot c
      | _ \<Rightarrow> [])"

definition restore_exit :: "(string, json) dict \<Rightarrow> exit_engine \<Rightarrow> exit_engine" where
  "restore_exit d e =
     (case e of
        Highest_Close b \<Rightarrow> Highest_Close (best_close_restore d b)
      | Consecutive_Reversal c \<Rightarrow> Consecutive_Reversal (consecutive_restore d c)
      | Trailing t \<Rightarrow> Trailing (trailing_restore d t)
      | Combined_Candle c \<Rightarrow> Combined_Candle (combined_restore d c)
      | _ \<Rightarrow> e)"

section \<open>The composite\<close>

text \<open>last\_fired is a position in the list, where the code keeps a reference.\<close>

record composite =
  ce_engines :: "exit_engine list"
  ce_last_fired :: "nat option"

fun advance :: "exit_input \<Rightarrow> (bool list, exit_engine list) act" where
  "advance v [] = (Inr [], [])"
| "advance v (e # es) =
     (case should_exit v e of
        (Inl x, e1) \<Rightarrow> (Inl x, e1 # es)
      | (Inr b, e1) \<Rightarrow>
          (case advance v es of
             (Inl x, es1) \<Rightarrow> (Inl x, e1 # es1)
           | (Inr bs, es1) \<Rightarrow> (Inr (b # bs), e1 # es1)))"

fun first_true :: "bool list \<Rightarrow> nat option" where
  "first_true [] = None"
| "first_true (b # bs) = (if b then Some 0 else map_option Suc (first_true bs))"

definition composite_should_exit :: "exit_input \<Rightarrow> (bool, composite) act" where
  "composite_should_exit v c =
     (case advance v (ce_engines c) of
        (Inl x, es) \<Rightarrow> (Inl x, c\<lparr>ce_engines := es\<rparr>)
      | (Inr bs, es) \<Rightarrow> (Inr (first_true bs \<noteq> None), c\<lparr>ce_engines := es, ce_last_fired := first_true bs\<rparr>))"

definition composite_reset :: "composite \<Rightarrow> composite" where
  "composite_reset c = c\<lparr>ce_last_fired := None, ce_engines := map reset_exit (ce_engines c)\<rparr>"

definition composite_snapshot :: "composite \<Rightarrow> (string, json) dict" where
  "composite_snapshot c =
     fold (\<lambda>e d. if snapshot_exit e = [] then d else dict_set (exit_label e) (JObj (snapshot_exit e)) d)
       (ce_engines c) []"

text \<open>The engine a label names is the last one that carries it.\<close>

fun restore_labelled :: "string \<Rightarrow> (string, json) dict \<Rightarrow> exit_engine list \<Rightarrow> exit_engine list" where
  "restore_labelled l d [] = []"
| "restore_labelled l d (e # es) =
     (if exit_label e = l \<and> l \<notin> set (map exit_label es) then restore_exit d e # es
      else e # restore_labelled l d es)"

definition composite_restore :: "(string, json) dict \<Rightarrow> composite \<Rightarrow> composite" where
  "composite_restore data c =
     c\<lparr>ce_engines := fold (\<lambda>(l, child) es. case child of JObj d \<Rightarrow> restore_labelled l d es | _ \<Rightarrow> es)
         data (ce_engines c)\<rparr>"

end
