(* ===== verification/Exit_Config.thy ===== *)
theory Exit_Config
  imports Exits
begin

text \<open>
  common/exit/composite.py, build\_exit\_engine, with the constructors of the
  rules: the exit block of a configuration turned into a composite.  str.upper
  and str.lower are those of ASCII letters.
\<close>




section \<open>Constructors\<close>

definition basis_param :: "py_conversions \<Rightarrow> (string, json) dict \<Rightarrow> bool result" where
  "basis_param py d =
     (let basis = (case dict_get d ''basis'' of None \<Rightarrow> ''option_type'' | Some v \<Rightarrow> lower (as_str py v))
      in if basis = ''side'' then Inr True else if basis = ''option_type'' then Inr False else Inl ValueError)"

definition new_momentum_close :: "py_conversions \<Rightarrow> (string, json) dict \<Rightarrow> exit_engine result" where
  "new_momentum_close py d =
     (let stream = (case dict_get d ''price_stream'' of None \<Rightarrow> ''underlying'' | Some v \<Rightarrow> lower (as_str py v))
      in if stream = ''premium'' then Inr (Momentum_Close True)
         else if stream = ''underlying'' then Inr (Momentum_Close False) else Inl ValueError)"

text \<open>params.get("activation") or an empty dictionary.\<close>

definition activation_param :: "(string, json) dict \<Rightarrow> (string, json) dict result" where
  "activation_param d =
     (case dict_get d ''activation'' of
        None \<Rightarrow> Inr []
      | Some v \<Rightarrow> if \<not> as_bool v then Inr [] else (case v of JObj a \<Rightarrow> Inr a | _ \<Rightarrow> Inl AttributeError))"

definition new_best_close :: "py_conversions \<Rightarrow> (string, json) dict \<Rightarrow> best_close result" where
  "new_best_close py d =
     bindE (basis_param py d) (\<lambda>by_side.
     let trail_type = (case dict_get d ''trail_type'' of None \<Rightarrow> ''POINTS'' | Some v \<Rightarrow> upper (as_str py v)) in
     bindE (check (trail_type = ''POINTS'' \<or> trail_type = ''PERCENTAGE'') ValueError) (\<lambda>_.
     bindE (param d ''trail_points'' (as_float py) 20) (\<lambda>points.
     bindE (param d ''trail_percentage'' (as_float py) 8) (\<lambda>percentage.
     bindE (activation_param d) (\<lambda>activation.
     bindE (param activation ''minimum_favourable_move_percentage'' (as_float py) 0) (\<lambda>min_move.
     Inr \<lparr>bc_by_side = by_side, bc_percentage = (trail_type = ''PERCENTAGE''), bc_trail_points = points,
          bc_trail_percentage = percentage,
          bc_activation_enabled = (case dict_get activation ''enabled'' of None \<Rightarrow> False | Some v \<Rightarrow> as_bool v),
          bc_min_move = min_move, bc_extreme = None, bc_activated = False\<rparr>))))))"

definition new_combined :: "py_conversions \<Rightarrow> (string, json) dict \<Rightarrow> combined result" where
  "new_combined py d =
     bindE (param d ''trail_percentage'' (as_float py) 8) (\<lambda>percentage.
     bindE (case dict_get d ''activation'' of
              None \<Rightarrow> Inr []
            | Some v \<Rightarrow> if \<not> as_bool v then Inr [] else (case v of JObj a \<Rightarrow> Inr a | _ \<Rightarrow> Inl (conversion_error v))) (\<lambda>given.
     let key = ''minimum_favourable_move_percentage'';
         activation = (case dict_get d key of
             None \<Rightarrow> given
           | Some JNull \<Rightarrow> given
           | Some flat \<Rightarrow>
               if dict_get given key \<noteq> None then given
               else dict_set key flat
                 (if dict_get given ''enabled'' = None then dict_set ''enabled'' (JBool True) given else given))
     in bindE (new_best_close py
                 [(''basis'', JStr ''side''), (''trail_type'', JStr ''PERCENTAGE''),
                  (''trail_percentage'', JNum percentage), (''activation'', JObj activation)]) (\<lambda>trail.
        Inr \<lparr>cc_trail = trail, cc_momentum_fired = False, cc_trail_fired = False, cc_highest_close = None,
             cc_lowest_close = None, cc_suppress_momentum = False, cc_label = combined_label,
             cc_exit_reason = STRATEGY_EXIT\<rparr>)))"

definition new_consecutive :: "py_conversions \<Rightarrow> (string, json) dict \<Rightarrow> consecutive result" where
  "new_consecutive py d =
     bindE (param d ''reverse_candles'' (as_int py) 2) (\<lambda>n.
     Inr \<lparr>cr_reverse_candles = max 1 n, cr_streak = 0, cr_prev_close = None\<rparr>)"

definition new_trailing :: "py_conversions \<Rightarrow> (string, json) dict \<Rightarrow> trailing result" where
  "new_trailing py d =
     bindE (param d ''trail_points'' (as_float py) 20) (\<lambda>points. Inr \<lparr>tr_trail_points = points, tr_peak_profit = 0\<rparr>)"

definition new_time_exit :: "py_conversions \<Rightarrow> (string, json) dict \<Rightarrow> exit_engine result" where
  "new_time_exit py d =
     bindE (parse_hhmm (case dict_get d ''time'' of None \<Rightarrow> ''15:15'' | Some v \<Rightarrow> as_str py v)) (\<lambda>t. Inr (Time_Exit t))"

text \<open>The registry, by name.\<close>

definition get_exit_engine :: "py_conversions \<Rightarrow> string \<Rightarrow> (string, json) dict \<Rightarrow> exit_engine result" where
  "get_exit_engine py name params =
     (let key = lower name in
      if key = ''stoploss'' then bindE (param params ''points'' (as_float py) 300) (\<lambda>q. Inr (Stop_Loss q))
      else if key = ''fixed_target'' then bindE (param params ''points'' (as_float py) 500) (\<lambda>q. Inr (Fixed_Target q))
      else if key = ''momentum_close'' then new_momentum_close py params
      else if key = ''momentum_low'' then bindE (basis_param py params) (\<lambda>b. Inr (Momentum_Low b))
      else if key = ''highest_close'' then bindE (new_best_close py params) (\<lambda>b. Inr (Highest_Close b))
      else if key = ''consecutive_reversal'' then bindE (new_consecutive py params) (\<lambda>c. Inr (Consecutive_Reversal c))
      else if key = ''supertrend''
      then Inr (Super_Trend (case dict_get params ''indicator_key'' of None \<Rightarrow> ''supertrend'' | Some v \<Rightarrow> as_str py v))
      else if key = ''trailing'' then bindE (new_trailing py params) (\<lambda>t. Inr (Trailing t))
      else if key = ''time_exit'' then new_time_exit py params
      else if key = ''momentum_low_or_highest_close'' then bindE (new_combined py params) (\<lambda>c. Inr (Combined_Candle c))
      else Inl KeyError)"

section \<open>The exit block\<close>

definition key_to_engine :: "(string \<times> string \<times> int) list" where
  "key_to_engine =
     [(''stoploss'', ''stoploss'', 10), (''target'', ''fixed_target'', 20), (''momentum_close'', ''momentum_close'', 30),
      (''momentum_low'', ''momentum_low'', 40), (''highest_close'', ''highest_close'', 50),
      (''consecutive'', ''consecutive_reversal'', 60), (''supertrend'', ''supertrend'', 70),
      (''trailing'', ''trailing'', 80), (''square_off'', ''time_exit'', 90)]"

definition mode_to_key :: "(string \<times> string) list" where
  "mode_to_key =
     [(''MOMENTUM_CLOSE'', ''momentum_close''), (''MOMENTUM_LOW'', ''momentum_low''), (''HIGHEST_CLOSE'', ''highest_close''),
      (''CONSECUTIVE_REVERSAL'', ''consecutive''), (''CONSECUTIVE'', ''consecutive''), (''SUPERTREND'', ''supertrend''),
      (''FIXED_TARGET'', ''target''), (''TARGET'', ''target''), (''TRAILING'', ''trailing''), (''STOPLOSS'', ''stoploss''),
      (''TIME_EXIT'', ''square_off'')]"

record exit_config =
  xc_enabled :: bool
  xc_mode :: string
  xc_settings :: "(string, (string, json) dict) dict"

definition selected_block :: "exit_config \<Rightarrow> string \<Rightarrow> (string, json) dict option" where
  "selected_block cfg key =
     (let block = (case dict_get (xc_settings cfg) key of None \<Rightarrow> [] | Some b \<Rightarrow> b) in
      if (case dict_get block ''enabled'' of None \<Rightarrow> False | Some v \<Rightarrow> as_bool v)
         \<or> dict_get mode_to_key (upper (xc_mode cfg)) = Some key
      then Some (filter (\<lambda>(k, v). k \<noteq> ''enabled'') block) else None)"

fun select_engines ::
  "py_conversions \<Rightarrow> exit_config \<Rightarrow> (string \<times> string \<times> int) list \<Rightarrow> (int \<times> exit_engine) list result" where
  "select_engines py cfg [] = Inr []"
| "select_engines py cfg ((key, name, priority) # rest) =
     (case selected_block cfg key of
        None \<Rightarrow> select_engines py cfg rest
      | Some params \<Rightarrow>
          bindE (get_exit_engine py name params) (\<lambda>e.
          bindE (select_engines py cfg rest) (\<lambda>es. Inr ((priority, e) # es))))"

definition build_exit_engine :: "py_conversions \<Rightarrow> exit_config option \<Rightarrow> composite option result" where
  "build_exit_engine py cfg =
     (case cfg of
        None \<Rightarrow> Inr None
      | Some c \<Rightarrow>
          if \<not> xc_enabled c then Inr None
          else bindE (select_engines py c key_to_engine) (\<lambda>selected.
               Inr (Some \<lparr>ce_engines = map snd (sort_key fst selected), ce_last_fired = None\<rparr>)))"

end
