(* ===== verification/Exit_Rules.thy ===== *)
theory Exit_Rules
  imports Exit_Config "HOL-Library.Sublist"
begin

text \<open>
  What every exit rule promises its owner, as a locale over the operations a
  strategy calls, with the rules and the composite as its instances: a snapshot
  restored into a freshly reset rule decides as the rule it was taken from.
  Then the histories the stateful rules stand for.
\<close>

section \<open>Runs of a rule\<close>

fun decisions :: "(exit_input \<Rightarrow> 's \<Rightarrow> 'r \<times> 's) \<Rightarrow> exit_input list \<Rightarrow> 's \<Rightarrow> 'r list" where
  "decisions f [] s = []"
| "decisions f (v # vs) s = (case f v s of (r, s1) \<Rightarrow> r # decisions f vs s1)"

fun after :: "(exit_input \<Rightarrow> 's \<Rightarrow> 'r \<times> 's) \<Rightarrow> exit_input list \<Rightarrow> 's \<Rightarrow> 's" where
  "after f [] s = s"
| "after f (v # vs) s = after f vs (snd (f v s))"

lemma after_snoc [simp]: "after f (vs @ [v]) s = snd (f v (after f vs s))"
  by (induction vs arbitrary: s) simp_all

section \<open>The interface of an exit rule\<close>

text \<open>The essence of a rule is the part of its state its decisions depend on.\<close>

locale exit_policy =
  fixes decide :: "exit_input \<Rightarrow> 's \<Rightarrow> bool result \<times> 's"
    and reset :: "'s \<Rightarrow> 's"
    and snapshot :: "'s \<Rightarrow> (string, json) dict"
    and restore :: "(string, json) dict \<Rightarrow> 's \<Rightarrow> 's"
    and ok :: "'s \<Rightarrow> bool"
    and essence :: "'s \<Rightarrow> 'e"
  assumes ok_decide: "ok s \<Longrightarrow> ok (snd (decide v s))"
    and ok_reset: "ok s \<Longrightarrow> ok (reset s)"
    and essence_decide: "ok s \<Longrightarrow> ok t \<Longrightarrow> essence s = essence t \<Longrightarrow>
          fst (decide v s) = fst (decide v t) \<and> essence (snd (decide v s)) = essence (snd (decide v t))"
    and restored: "ok s \<Longrightarrow> ok (restore (snapshot s) (reset s)) \<and> essence (restore (snapshot s) (reset s)) = essence s"
begin

lemma same_decisions: "ok s \<Longrightarrow> ok t \<Longrightarrow> essence s = essence t \<Longrightarrow> decisions decide vs s = decisions decide vs t"
proof (induction vs arbitrary: s t)
  case (Cons v vs)
  from essence_decide [OF Cons(2-4), of v] Cons.IH [OF ok_decide [OF Cons(2)] ok_decide [OF Cons(3)]]
  show ?case by (simp add: case_prod_unfold)
qed simp

lemma survives: "ok s \<Longrightarrow> decisions decide vs (restore (snapshot s) (reset s)) = decisions decide vs s"
  using same_decisions restored by blast

lemma ok_after: "ok s \<Longrightarrow> ok (after decide vs s)"
  by (induction vs arbitrary: s) (simp_all add: ok_decide)

end

section \<open>Every rule is one\<close>

definition best_ok :: "best_close \<Rightarrow> bool" where
  "best_ok b = (bc_extreme b = None \<longrightarrow> \<not> bc_activated b)"

definition exit_ok :: "exit_engine \<Rightarrow> bool" where
  "exit_ok e =
     (case e of Highest_Close b \<Rightarrow> best_ok b | Combined_Candle c \<Rightarrow> best_ok (cc_trail c) \<and> \<not> cc_suppress_momentum c
      | _ \<Rightarrow> True)"

definition essence :: "exit_engine \<Rightarrow> exit_engine" where
  "essence e =
     (case e of
        Trailing t \<Rightarrow> Trailing (t\<lparr>tr_peak_profit := max 0 (tr_peak_profit t)\<rparr>)
      | Combined_Candle c \<Rightarrow>
          Combined_Candle (c\<lparr>cc_momentum_fired := False, cc_trail_fired := False, cc_label := [],
            cc_exit_reason := STRATEGY_EXIT\<rparr>)
      | _ \<Rightarrow> e)"

lemmas exit_defs = exit_ok_def essence_def should_exit_def reset_exit_def snapshot_exit_def restore_exit_def

lemma best_close_ok: "best_ok b \<Longrightarrow> best_ok (snd (best_close_exit v b))"
  by (auto simp: best_close_exit_def best_ok_def retraced_def Let_def)

lemma best_close_restored [simp]:
  "best_ok b \<Longrightarrow> best_close_restore (best_close_snapshot b) (b\<lparr>bc_extreme := None, bc_activated := False\<rparr>) = b"
  by (cases b) (auto simp: best_close_restore_def best_close_snapshot_def best_ok_def number_at_def as_bool_def
      split: option.split)

lemma best_close_snapshot_empty: "best_close_snapshot b = [] \<longleftrightarrow> bc_extreme b = None"
  by (simp add: best_close_snapshot_def split: option.split)

lemma trailing_essence:
  "t\<lparr>tr_peak_profit := max 0 (tr_peak_profit t)\<rparr> = u\<lparr>tr_peak_profit := max 0 (tr_peak_profit u)\<rparr> \<Longrightarrow>
     fst (trailing_exit v t) = fst (trailing_exit v u)
     \<and> (snd (trailing_exit v t))\<lparr>tr_peak_profit := max 0 (tr_peak_profit (snd (trailing_exit v t)))\<rparr>
         = (snd (trailing_exit v u))\<lparr>tr_peak_profit := max 0 (tr_peak_profit (snd (trailing_exit v u)))\<rparr>"
  by (cases t; cases u) (auto simp: trailing_exit_def Let_def max_def split: if_splits)

lemma consecutive_restored [simp]:
  "consecutive_restore (consecutive_snapshot c) (c\<lparr>cr_streak := 0, cr_prev_close := None\<rparr>) = c"
  by (cases c) (auto simp: consecutive_restore_def consecutive_snapshot_def number_at_def Let_def split: option.split)

lemma trailing_restored [simp]:
  "(trailing_restore (trailing_snapshot t) (t\<lparr>tr_peak_profit := 0\<rparr>))\<lparr>tr_peak_profit :=
      max 0 (tr_peak_profit (trailing_restore (trailing_snapshot t) (t\<lparr>tr_peak_profit := 0\<rparr>)))\<rparr>
   = t\<lparr>tr_peak_profit := max 0 (tr_peak_profit t)\<rparr>"
  by (cases t) (auto simp: trailing_restore_def trailing_snapshot_def number_at_def max_def)

definition plain_combined :: "combined \<Rightarrow> combined" where
  "plain_combined c = c\<lparr>cc_momentum_fired := False, cc_trail_fired := False, cc_label := [], cc_exit_reason := STRATEGY_EXIT\<rparr>"

lemma combined_exit_essence:
  assumes "plain_combined c = plain_combined d"
  shows "fst (combined_exit v c) = fst (combined_exit v d)
    \<and> plain_combined (snd (combined_exit v c)) = plain_combined (snd (combined_exit v d))"
proof -
  have "d = c\<lparr>cc_momentum_fired := cc_momentum_fired d, cc_trail_fired := cc_trail_fired d, cc_label := cc_label d,
      cc_exit_reason := cc_exit_reason d\<rparr>"
    using assms by (cases c; cases d) (simp add: plain_combined_def)
  then obtain a b l x where d: "d = c\<lparr>cc_momentum_fired := a, cc_trail_fired := b, cc_label := l, cc_exit_reason := x\<rparr>"
    by blast
  have n: "plain_combined (combined_named k e) = plain_combined e" for k e
    by (simp add: combined_named_def plain_combined_def)
  obtain r u where t: "best_close_exit v (cc_trail c) = (r, u)" by fastforce
  show ?thesis unfolding d
    by (cases r; cases "cc_suppress_momentum c") (simp_all add: combined_exit_def Let_def t n, simp_all add: plain_combined_def)
qed

lemma combined_restored:
  "best_ok (cc_trail c) \<Longrightarrow> \<not> cc_suppress_momentum c \<Longrightarrow>
     plain_combined (combined_restore (combined_snapshot c) (combined_reset c)) = plain_combined c
     \<and> best_ok (cc_trail (combined_restore (combined_snapshot c) (combined_reset c)))
     \<and> \<not> cc_suppress_momentum (combined_restore (combined_snapshot c) (combined_reset c))"
  by (cases c; cases "cc_highest_close c"; cases "cc_lowest_close c"; cases "best_close_snapshot (cc_trail c) = []")
     (auto simp: combined_restore_def combined_snapshot_def combined_reset_def plain_combined_def number_at_def Let_def
        best_close_snapshot_empty best_ok_def)

lemma combined_ok:
  "best_ok (cc_trail c) \<Longrightarrow> best_ok (cc_trail (snd (combined_exit v c))) \<and> \<not> cc_suppress_momentum (snd (combined_exit v c))"
  using best_close_ok [of "cc_trail c" v]
  by (auto simp: combined_exit_def combined_named_def Let_def split: prod.splits sum.splits)

lemma essence_combined [simp]: "essence (Combined_Candle c) = Combined_Candle (plain_combined c)"
  by (simp add: essence_def plain_combined_def)

interpretation rule: exit_policy should_exit reset_exit snapshot_exit restore_exit exit_ok essence
proof (unfold_locales, goal_cases)
  case (1 s v)
  then show ?case using best_close_ok combined_ok
    by (cases s) (auto simp: exit_ok_def should_exit_def split: prod.split)
next
  case (2 s)
  then show ?case by (cases s) (auto simp: exit_ok_def reset_exit_def best_ok_def combined_reset_def)
next
  case (3 s t v)
  show ?case
  proof (cases s)
    case (Trailing x)
    with 3 obtain y where "t = Trailing y" by (cases t) (auto simp: essence_def)
    then show ?thesis using 3 Trailing trailing_essence [of x y v]
      by (auto simp: essence_def should_exit_def split: prod.split)
  next
    case (Combined_Candle x)
    with 3 obtain y where "t = Combined_Candle y" by (cases t) (auto simp: essence_def)
    then show ?thesis using 3 Combined_Candle combined_exit_essence [of x y v]
      by (auto simp: should_exit_def split: prod.split)
  qed (use 3 in \<open>cases t; simp add: essence_def\<close>)+
next
  case (4 s)
  then show ?case using combined_restored
    by (cases s) (auto simp: exit_ok_def reset_exit_def restore_exit_def snapshot_exit_def,
        auto simp: essence_def)
qed

section \<open>The composite is one\<close>

definition single :: "exit_engine \<Rightarrow> bool" where
  "single e = (case e of Combined_Candle _ \<Rightarrow> False | _ \<Rightarrow> True)"

definition composite_ok :: "composite \<Rightarrow> bool" where
  "composite_ok c =
     (distinct (map exit_label (ce_engines c)) \<and> list_all (\<lambda>e. single e \<and> exit_ok e) (ce_engines c))"

definition composite_essence :: "composite \<Rightarrow> exit_engine list" where
  "composite_essence c = map essence (ce_engines c)"

lemma single_keeps [simp]:
  "single (snd (should_exit v e)) = single e" "single (reset_exit e) = single e" "single (restore_exit d e) = single e"
  by (cases e; simp add: single_def should_exit_def reset_exit_def restore_exit_def split: prod.split)+

lemma label_keeps [simp]:
  "single e \<Longrightarrow> exit_label (snd (should_exit v e)) = exit_label e"
  "exit_label (reset_exit e) = exit_label e"
  "single e \<Longrightarrow> exit_label (restore_exit d e) = exit_label e"
  by (cases e; simp add: single_def exit_label_def should_exit_def reset_exit_def restore_exit_def combined_reset_def
      split: prod.split)+

lemma label_essence: "single e \<Longrightarrow> exit_label (essence e) = exit_label e"
  by (cases e) (simp_all add: single_def exit_label_def essence_def)

lemma advance_pointwise:
  "list_all2 (\<lambda>e e'. e' = e \<or> e' = snd (should_exit v e)) es (snd (advance v es))"
proof (induction es)
  case (Cons e es)
  show ?case
  proof (cases "fst (should_exit v e)")
    case (Inl x)
    then show ?thesis by (simp add: case_prod_unfold list.rel_refl)
  next
    case (Inr b)
    then show ?thesis using Cons by (cases "fst (advance v es)") (simp_all add: case_prod_unfold)
  qed
qed simp

lemma advance_labels:
  "list_all single es \<Longrightarrow> map exit_label (snd (advance v es)) = map exit_label es \<and> list_all single (snd (advance v es))"
  by (induction es) (auto simp: case_prod_unfold split: sum.splits)

lemma advance_ok: "list_all exit_ok es \<Longrightarrow> list_all exit_ok (snd (advance v es))"
  by (induction es) (auto simp: case_prod_unfold rule.ok_decide split: sum.splits)

lemma advance_essence:
  "list_all exit_ok es \<Longrightarrow> list_all exit_ok fs \<Longrightarrow> map essence es = map essence fs \<Longrightarrow>
     fst (advance v es) = fst (advance v fs) \<and> map essence (snd (advance v es)) = map essence (snd (advance v fs))"
proof (induction es arbitrary: fs)
  case (Cons e es)
  then obtain f fs' where f: "fs = f # fs'" by (cases fs) auto
  have "fst (should_exit v e) = fst (should_exit v f) \<and> essence (snd (should_exit v e)) = essence (snd (should_exit v f))"
    using Cons.prems f by (intro rule.essence_decide) auto
  then show ?case using Cons.IH [of fs'] Cons.prems f by (auto simp: case_prod_unfold split: sum.splits)
qed simp

lemma reset_essence_empty: "snapshot_exit e = [] \<Longrightarrow> exit_ok e \<Longrightarrow> exit_ok (reset_exit e) \<and> essence (reset_exit e) = essence e"
  using rule.restored [of e] rule.ok_reset [of e]
  by (cases e) (auto simp: restore_exit_def reset_exit_def trailing_restore_def consecutive_restore_def
      best_close_restore_def combined_restore_def number_at_def snapshot_exit_def)

definition revived :: "exit_engine \<Rightarrow> exit_engine" where
  "revived e = (if snapshot_exit e = [] then reset_exit e else restore_exit (snapshot_exit e) (reset_exit e))"

lemma revived:
  "single e \<Longrightarrow> exit_ok e \<Longrightarrow>
     exit_ok (revived e) \<and> essence (revived e) = essence e \<and> single (revived e) \<and> exit_label (revived e) = exit_label e"
  using rule.restored [of e] reset_essence_empty [of e] by (simp add: revived_def)

text \<open>The snapshot of a composite lists its rules' snapshots by label.\<close>

fun child_snapshots :: "exit_engine list \<Rightarrow> (string, json) dict" where
  "child_snapshots [] = []"
| "child_snapshots (e # es) =
     (if snapshot_exit e = [] then [] else [(exit_label e, JObj (snapshot_exit e))]) @ child_snapshots es"

lemma update_new: "k \<notin> fst ` set d \<Longrightarrow> dict_set k v d = d @ [(k, v)]"
  by (induction d) auto

lemma child_snapshots_keys: "fst ` set (child_snapshots es) \<subseteq> exit_label ` set es"
  by (induction es) auto

lemma composite_snapshot_children:
  "distinct (map exit_label es) \<Longrightarrow> fst ` set d \<inter> exit_label ` set es = {} \<Longrightarrow>
     fold (\<lambda>e d. if snapshot_exit e = [] then d else dict_set (exit_label e) (JObj (snapshot_exit e)) d) es d
       = d @ child_snapshots es"
proof (induction es arbitrary: d)
  case (Cons e es)
  have "exit_label e \<notin> fst ` set d" using Cons.prems by auto
  then show ?case using Cons.IH [of d] Cons.IH [of "d @ [(exit_label e, JObj (snapshot_exit e))]"] Cons.prems
    by (auto simp: update_new)
qed simp

lemma restore_labelled_one:
  "l \<notin> exit_label ` set es \<Longrightarrow> restore_labelled l d (es @ fs) = es @ restore_labelled l d fs"
  by (induction es) auto

lemma restore_children:
  "distinct (map exit_label (pre @ es)) \<Longrightarrow> list_all single (pre @ es) \<Longrightarrow>
     fold (\<lambda>(l, child) es. case child of JObj d \<Rightarrow> restore_labelled l d es | _ \<Rightarrow> es) (child_snapshots es)
       (pre @ map reset_exit es)
     = pre @ map revived es"
proof (induction es arbitrary: pre)
  case (Cons e es)
  have "exit_label e \<notin> exit_label ` set pre" "exit_label e \<notin> set (map exit_label (map reset_exit es))"
    using Cons.prems(1) by (auto simp: comp_def)
  then have "restore_labelled (exit_label e) (snapshot_exit e) (pre @ reset_exit e # map reset_exit es)
      = (pre @ [restore_exit (snapshot_exit e) (reset_exit e)]) @ map reset_exit es"
    by (simp add: restore_labelled_one)
  moreover have "distinct (map exit_label ((pre @ [revived e]) @ es))" "list_all single ((pre @ [revived e]) @ es)"
    using Cons.prems by (auto simp: revived_def)
  note Cons.IH [OF this]
  ultimately show ?case by (cases "snapshot_exit e = []") (simp_all add: revived_def)
qed simp

lemma composite_restore_snapshot:
  assumes "composite_ok c"
  shows "ce_engines (composite_restore (composite_snapshot c) (composite_reset c)) = map revived (ce_engines c)"
  using assms restore_children [of "[]" "ce_engines c"] composite_snapshot_children [of "ce_engines c" "[]"]
  by (simp add: composite_ok_def composite_restore_def composite_snapshot_def composite_reset_def list_all_iff)

interpretation composite: exit_policy composite_should_exit composite_reset composite_snapshot composite_restore
  composite_ok composite_essence
proof (unfold_locales, goal_cases)
  case (1 s v)
  then show ?case using advance_labels [of "ce_engines s" v] advance_ok [of "ce_engines s" v]
    by (auto simp: composite_ok_def composite_should_exit_def case_prod_unfold list_all_iff split: sum.split)
next
  case (2 s)
  then show ?case
    by (auto simp: composite_ok_def composite_reset_def list_all_iff comp_def rule.ok_reset)
next
  case (3 s t v)
  then show ?case using advance_essence [of "ce_engines s" "ce_engines t" v]
    by (auto simp: composite_ok_def composite_essence_def composite_should_exit_def case_prod_unfold list_all_iff
        split: sum.split)
next
  case (4 s)
  have "single e \<and> exit_ok e" if "e \<in> set (ce_engines s)" for e using 4 that by (auto simp: composite_ok_def list_all_iff)
  note r = revived [OF conjunct1 [OF this] conjunct2 [OF this]]
  have lab: "map (exit_label \<circ> revived) (ce_engines s) = map exit_label (ce_engines s)" using r by simp
  have "distinct (map (exit_label \<circ> revived) (ce_engines s))" unfolding lab using 4 by (simp add: composite_ok_def)
  then show ?case using r 4
    by (auto simp: composite_ok_def composite_essence_def composite_restore_snapshot [OF 4] list_all_iff)
qed

section \<open>The histories behind the stateful rules\<close>

definition profits :: "exit_input list \<Rightarrow> money list" where
  "profits vs = map (\<lambda>v. profit_points (ei_position v)) vs"

definition closes :: "exit_input list \<Rightarrow> money list" where
  "closes vs = map (\<lambda>v. oh_close (ei_candle v)) vs"

lemma history_simps [simp]:
  "profits [] = []" "profits (vs @ [v]) = profits vs @ [profit_points (ei_position v)]"
  "closes [] = []" "closes [v] = [oh_close (ei_candle v)]" "closes (vs @ [v]) = closes vs @ [oh_close (ei_candle v)]" "closes vs = [] \<longleftrightarrow> vs = []"
  by (simp_all add: profits_def closes_def)

text \<open>The trailing stop: armed by a profit, it fires when the profit has given back the trail.\<close>

definition best_profit :: "exit_input list \<Rightarrow> money" where
  "best_profit vs = Max (set (0 # profits vs))"

lemma best_profit_snoc: "best_profit (vs @ [v]) = max (best_profit vs) (profit_points (ei_position v))"
proof -
  have "set (0 # profits (vs @ [v])) = insert (profit_points (ei_position v)) (set (0 # profits vs))" by auto
  then show ?thesis unfolding best_profit_def by (simp only: Max.insert finite_set set_empty2 list.distinct max.commute) simp
qed

lemma trailing_history:
  assumes "tr_peak_profit t = 0"
  shows "tr_peak_profit (after trailing_exit vs t) = best_profit vs
    \<and> tr_trail_points (after trailing_exit vs t) = tr_trail_points t"
proof (induction vs rule: rev_induct)
  case Nil
  then show ?case using assms by (simp add: best_profit_def)
next
  case (snoc v vs)
  then show ?case by (auto simp: best_profit_snoc trailing_exit_def Let_def max_def)
qed

text \<open>Consecutive reversals: how many of the last moves between closes went against the position.\<close>

definition against :: "bool \<Rightarrow> money \<times> money \<Rightarrow> bool" where
  "against call m = (if call then snd m < fst m else fst m < snd m)"

definition moves :: "exit_input list \<Rightarrow> (money \<times> money) list" where
  "moves vs = zip (closes vs) (tl (closes vs))"

definition adverse_run :: "bool \<Rightarrow> exit_input list \<Rightarrow> int" where
  "adverse_run call vs = int (length (takeWhile (against call) (rev (moves vs))))"

lemma moves_snoc: "moves (vs @ [v]) = moves vs @ (if vs = [] then [] else [(last (closes vs), oh_close (ei_candle v))])"
proof -
  have "zip (xs @ [x]) (tl (xs @ [x])) = zip xs (tl xs) @ (if xs = [] then [] else [(last xs, x)])" for xs :: "money list" and x
    by (induction xs rule: induct_list012) simp_all
  from this [of "closes vs"] show ?thesis by (simp add: moves_def)
qed

lemma consecutive_history:
  assumes "cr_streak c = 0" "cr_prev_close c = None" "list_all (\<lambda>v. holds_call (ei_position v) = call) vs"
  shows "cr_streak (after consecutive_exit vs c) = adverse_run call vs
    \<and> cr_prev_close (after consecutive_exit vs c) = (if vs = [] then None else Some (last (closes vs)))
    \<and> cr_reverse_candles (after consecutive_exit vs c) = cr_reverse_candles c"
  using assms(3)
proof (induction vs rule: rev_induct)
  case Nil
  then show ?case using assms by (simp add: adverse_run_def moves_def)
next
  case (snoc v vs)
  then show ?case
    by (auto simp: adverse_run_def moves_snoc against_def consecutive_exit_def Let_def split: if_splits)
qed

text \<open>The best-close trail: the extreme of the closes, and how far the last one is from it.\<close>

definition extreme_close :: "bool \<Rightarrow> exit_input list \<Rightarrow> money" where
  "extreme_close long vs = (if long then Max (set (closes vs)) else Min (set (closes vs)))"

definition favourable_move :: "bool \<Rightarrow> money \<Rightarrow> money \<Rightarrow> rat" where
  "favourable_move long entry x = (if long then x - entry else entry - x) / entry * 100"

lemma extreme_close_snoc:
  "extreme_close long (vs @ [v]) =
     (if vs = [] then oh_close (ei_candle v)
      else if long then max (extreme_close long vs) (oh_close (ei_candle v))
      else min (extreme_close long vs) (oh_close (ei_candle v)))"
proof (cases "vs = []")
  case False
  then have "set (closes vs) \<noteq> {}" "finite (set (closes vs))" by simp_all
  then show ?thesis using False by (simp add: extreme_close_def max.commute min.commute)
qed (simp add: extreme_close_def)

lemma extreme_close_positive:
  assumes "vs \<noteq> []" "list_all (\<lambda>v. 0 < oh_close (ei_candle v)) vs"
  shows "0 < extreme_close long vs"
proof -
  have "extreme_close long vs \<in> set (closes vs)" using assms(1)
    by (cases long) (simp_all add: extreme_close_def)
  then show ?thesis using assms(2) by (auto simp: closes_def list_all_iff)
qed

lemma favourable_move_mono:
  "0 < entry \<Longrightarrow> (if long then x \<le> y else y \<le> x) \<Longrightarrow> favourable_move long entry x \<le> favourable_move long entry y"
  by (cases long) (auto simp: favourable_move_def divide_right_mono)

definition same_trade :: "bool \<Rightarrow> bool \<Rightarrow> money \<Rightarrow> exit_input list \<Rightarrow> bool" where
  "same_trade by_side long entry vs =
     list_all (\<lambda>v. is_long by_side (ei_position v) = long \<and> op_entry_price (ei_position v) = entry
        \<and> 0 < oh_close (ei_candle v)) vs"

lemma best_close_config [simp]:
  "bc_by_side (snd (best_close_exit v b)) = bc_by_side b"
  "bc_percentage (snd (best_close_exit v b)) = bc_percentage b"
  "bc_trail_points (snd (best_close_exit v b)) = bc_trail_points b"
  "bc_trail_percentage (snd (best_close_exit v b)) = bc_trail_percentage b"
  "bc_activation_enabled (snd (best_close_exit v b)) = bc_activation_enabled b"
  "bc_min_move (snd (best_close_exit v b)) = bc_min_move b"
  by (simp_all add: best_close_exit_def retraced_def Let_def)

lemma best_close_config_after [simp]:
  "bc_by_side (after best_close_exit vs b) = bc_by_side b"
  "bc_percentage (after best_close_exit vs b) = bc_percentage b"
  "bc_trail_points (after best_close_exit vs b) = bc_trail_points b"
  "bc_trail_percentage (after best_close_exit vs b) = bc_trail_percentage b"
  "bc_activation_enabled (after best_close_exit vs b) = bc_activation_enabled b"
  "bc_min_move (after best_close_exit vs b) = bc_min_move b"
  by (induction vs arbitrary: b) simp_all

definition armed :: "best_close \<Rightarrow> bool \<Rightarrow> money \<Rightarrow> exit_input list \<Rightarrow> bool" where
  "armed b long entry vs = (\<not> bc_activation_enabled b \<or> bc_min_move b \<le> favourable_move long entry (extreme_close long vs))"

definition next_extreme :: "bool \<Rightarrow> exit_input \<Rightarrow> best_close \<Rightarrow> money" where
  "next_extreme long v b =
     (case bc_extreme b of None \<Rightarrow> oh_close (ei_candle v)
      | Some x \<Rightarrow> if long then max x (oh_close (ei_candle v)) else min x (oh_close (ei_candle v)))"

lemma best_close_extreme:
  "bc_extreme (snd (best_close_exit v b)) = Some (next_extreme (is_long (bc_by_side b) (ei_position v)) v b)"
  by (simp add: best_close_exit_def retraced_def Let_def next_extreme_def)

lemma best_close_activated:
  assumes "bc_percentage b" "bc_activation_enabled b" "op_entry_price (ei_position v) \<noteq> 0"
  shows "bc_activated (snd (best_close_exit v b)) = (bc_activated b \<or>
    bc_min_move b \<le> favourable_move (is_long (bc_by_side b) (ei_position v)) (op_entry_price (ei_position v))
      (next_extreme (is_long (bc_by_side b) (ei_position v)) v b))"
  using assms by (auto simp: best_close_exit_def retraced_def Let_def favourable_move_def next_extreme_def not_less)

lemma best_close_decides:
  assumes "next_extreme (is_long (bc_by_side b) (ei_position v)) v b \<noteq> 0" "op_entry_price (ei_position v) \<noteq> 0"
  shows "fst (best_close_exit v b) = Inr (
    let long = is_long (bc_by_side b) (ei_position v); x = next_extreme long v b;
        back = (if long then x - oh_close (ei_candle v) else oh_close (ei_candle v) - x)
    in if bc_percentage b
       then (\<not> bc_activation_enabled b \<or> bc_activated (snd (best_close_exit v b))) \<and> bc_trail_percentage b \<le> back / x * 100
       else bc_trail_points b \<le> back)"
  using assms by (auto simp: best_close_exit_def retraced_def Let_def next_extreme_def)

lemma best_close_history:
  assumes "bc_extreme b = None" "\<not> bc_activated b" "0 < entry" "same_trade (bc_by_side b) long entry vs"
  shows "bc_extreme (after best_close_exit vs b) = (if vs = [] then None else Some (extreme_close long vs))
    \<and> (bc_percentage b \<and> bc_activation_enabled b \<longrightarrow>
        bc_activated (after best_close_exit vs b) = (vs \<noteq> [] \<and> armed b long entry vs))"
  using assms(4)
proof (induction vs rule: rev_induct)
  case Nil
  then show ?case using assms(1,2) by simp
next
  case (snoc v vs)
  let ?a = "after best_close_exit vs b" and ?x = "extreme_close long (vs @ [v])"
  have s: "same_trade (bc_by_side b) long entry vs" "is_long (bc_by_side b) (ei_position v) = long"
    "op_entry_price (ei_position v) = entry" using snoc.prems by (simp_all add: same_trade_def)
  note ih = snoc.IH [OF s(1)]
  have x: "next_extreme long v ?a = ?x"
    using ih by (simp add: extreme_close_snoc next_extreme_def)
  have grow: "vs \<noteq> [] \<Longrightarrow> armed b long entry vs \<Longrightarrow> armed b long entry (vs @ [v])"
    using favourable_move_mono [OF assms(3), of long "extreme_close long vs" ?x]
    by (auto simp: armed_def extreme_close_snoc)
  show ?case using ih grow assms(3) best_close_activated [of ?a v]
    by (auto simp: best_close_extreme x s armed_def)
qed

section \<open>What the factory builds\<close>

definition rule_order :: "string list" where
  "rule_order = [''STOPLOSS'', ''FIXED_TARGET'', ''MOMENTUM_CLOSE'', ''MOMENTUM_LOW'', ''HIGHEST_CLOSE'',
     ''CONSECUTIVE_REVERSAL'', ''SUPERTREND'', ''TRAILING'', ''TIME_EXIT'']"

definition table_ok :: "(string \<times> string \<times> int) list \<Rightarrow> bool" where
  "table_ok = list_all (\<lambda>(key, name, priority). map lower_char name = name
      \<and> name \<in> {''stoploss'', ''fixed_target'', ''momentum_close'', ''momentum_low'', ''highest_close'',
                 ''consecutive_reversal'', ''supertrend'', ''trailing'', ''time_exit''})"

definition fresh :: "exit_engine \<Rightarrow> bool" where
  "fresh e = (single e \<and> exit_ok e \<and> reset_exit e = e)"

lemma table_is_ok: "table_ok key_to_engine"
  by code_simp

lemma registered_engine:
  assumes "get_exit_engine py name params = Inr e" "map lower_char name = name"
    and "name \<in> {''stoploss'', ''fixed_target'', ''momentum_close'', ''momentum_low'', ''highest_close'',
                 ''consecutive_reversal'', ''supertrend'', ''trailing'', ''time_exit''}"
  shows "fresh e \<and> exit_label e = map upper_char name"
proof -
  have l: "lower name = name" using assms(2) by (simp add: lower_def)
  have u: "map upper_char ''stoploss'' = ''STOPLOSS''" "map upper_char ''fixed_target'' = ''FIXED_TARGET''"
    "map upper_char ''momentum_close'' = ''MOMENTUM_CLOSE''" "map upper_char ''momentum_low'' = ''MOMENTUM_LOW''"
    "map upper_char ''highest_close'' = ''HIGHEST_CLOSE''" "map upper_char ''consecutive_reversal'' = ''CONSECUTIVE_REVERSAL''"
    "map upper_char ''supertrend'' = ''SUPERTREND''" "map upper_char ''trailing'' = ''TRAILING''"
    "map upper_char ''time_exit'' = ''TIME_EXIT''" by code_simp+
  show ?thesis using assms(1,3)
    by (auto simp: get_exit_engine_def Let_def l u fresh_def single_def exit_ok_def reset_exit_def exit_label_def best_ok_def
        bindE_Inr check_Inr new_momentum_close_def new_best_close_def new_consecutive_def new_trailing_def new_time_exit_def
        simp del: list.map split: if_splits)
qed

lemma select_engines_spec:
  "select_engines py cfg table = Inr sel \<Longrightarrow> table_ok table \<Longrightarrow>
     list_all (\<lambda>(p, e). fresh e) sel
     \<and> subseq (map (\<lambda>(p, e). (p, exit_label e)) sel) (map (\<lambda>(key, name, p). (p, map upper_char name)) table)"
proof (induction py cfg table arbitrary: sel rule: select_engines.induct)
  case (2 py cfg key name priority rest)
  have t: "table_ok rest" using 2(4) by (simp add: table_ok_def)
  show ?case
  proof (cases "selected_block cfg key")
    case None
    then show ?thesis using 2(1) [OF None _ t] 2(3) by (auto intro: subseq_Cons')
  next
    case (Some params)
    then obtain e es where e: "get_exit_engine py name params = Inr e" "select_engines py cfg rest = Inr es"
      "sel = (priority, e) # es" using 2(3) by (auto simp: bindE_Inr)
    have "fresh e \<and> exit_label e = map upper_char name"
      using 2(4) by (intro registered_engine [OF e(1)]) (simp_all add: table_ok_def)
    then show ?thesis using 2(2) [OF Some e(2) t] e(3) by simp
  qed
qed simp

lemma sort_key_sorted: "sorted (map f xs) \<Longrightarrow> sort_key f xs = xs"
  by (induction xs) (simp_all add: insort_is_Cons)

lemma sorted_subseq: "subseq xs ys \<Longrightarrow> sorted ys \<Longrightarrow> sorted xs"
  by (metis sorted_nths subseq_conv_nths)

lemma table_order:
  "sorted (map (\<lambda>(key, name, p). p) key_to_engine)"
  "map (\<lambda>(key, name, p). map upper_char name) key_to_engine = rule_order" "distinct rule_order"
  by code_simp+

lemma built_composite:
  assumes "build_exit_engine py cfg = Inr (Some c)"
  shows "composite_ok c" "composite_reset c = c" "subseq (map exit_label (ce_engines c)) rule_order"
proof -
  obtain x sel where x: "select_engines py x key_to_engine = Inr sel"
    "c = \<lparr>ce_engines = map snd (sort_key fst sel), ce_last_fired = None\<rparr>"
    using assms by (auto simp: build_exit_engine_def bindE_Inr split: option.splits if_splits)
  note spec = select_engines_spec [OF x(1) table_is_ok]
  from subseq_map [OF conjunct2 [OF spec], of fst]
  have "subseq (map fst sel) (map (\<lambda>(key, name, p). p) key_to_engine)" by (simp add: comp_def case_prod_unfold)
  from sorted_subseq [OF this table_order(1)] have c: "ce_engines c = map snd sel"
    using x(2) by (simp add: sort_key_sorted)
  from subseq_map [OF conjunct2 [OF spec], of snd]
  have s: "subseq (map (exit_label \<circ> snd) sel) (map (\<lambda>(key, name, p). map upper_char name) key_to_engine)"
    by (simp add: comp_def case_prod_unfold)
  then show "subseq (map exit_label (ce_engines c)) rule_order" using c table_order(2) by simp
  then have "distinct (map exit_label (ce_engines c))" using table_order(3) by (metis distinct_nthsI subseq_conv_nths)
  moreover have fresh: "list_all fresh (ce_engines c)" using spec c by (auto simp: list_all_iff)
  ultimately show "composite_ok c" by (auto simp: composite_ok_def list_all_iff fresh_def)
  have "map reset_exit (ce_engines c) = ce_engines c" using fresh by (simp add: list_all_iff fresh_def map_idI)
  then show "composite_reset c = c" using x(2) by (simp add: composite_reset_def)
qed

text \<open>Looking at candles changes neither the configuration of a rule nor its label.\<close>

lemma reset_exit_decided: "single e \<Longrightarrow> reset_exit (snd (should_exit v e)) = reset_exit e"
  by (cases e) (auto simp: single_def should_exit_def reset_exit_def trailing_exit_def consecutive_exit_def Let_def
      best_close_exit_def retraced_def split: option.split)

lemma advance_reset: "list_all single es \<Longrightarrow> map reset_exit (snd (advance v es)) = map reset_exit es"
  by (induction es) (auto simp: case_prod_unfold reset_exit_decided split: sum.splits)

lemma composite_decided:
  assumes "composite_ok c"
  shows "composite_reset (snd (composite_should_exit v c)) = composite_reset c
    \<and> map exit_label (ce_engines (snd (composite_should_exit v c))) = map exit_label (ce_engines c)"
proof -
  have "list_all single (ce_engines c)" using assms by (simp add: composite_ok_def list_all_iff)
  with advance_reset [OF this, of v] advance_labels [OF this, of v] show ?thesis
    by (cases "fst (advance v (ce_engines c))")
       (auto simp: composite_should_exit_def composite_reset_def case_prod_unfold)
qed

lemma composite_after:
  "composite_ok c \<Longrightarrow> composite_reset (after composite_should_exit vs c) = composite_reset c
     \<and> map exit_label (ce_engines (after composite_should_exit vs c)) = map exit_label (ce_engines c)"
  by (induction vs arbitrary: c) (simp_all add: composite_decided composite.ok_decide)

lemma advance_all:
  "fst (advance v es) = Inr bs \<Longrightarrow> map (\<lambda>e. fst (should_exit v e)) es = map Inr bs
     \<and> snd (advance v es) = map (\<lambda>e. snd (should_exit v e)) es"
proof (induction es arbitrary: bs)
  case (Cons e es)
  then show ?case by (fastforce simp: case_prod_unfold split: sum.splits)
qed simp

lemma first_true_spec:
  "case first_true bs of None \<Rightarrow> True \<notin> set bs
     | Some i \<Rightarrow> i < length bs \<and> bs ! i \<and> True \<notin> set (take i bs)"
  by (induction bs) (auto split: option.splits)

end
