(* ===== verification/Exit_Properties.thy ===== *)
theory Exit_Properties
  imports Exit_Rules
begin

text \<open>
  The properties of the exit rules: the composite a configuration builds shows
  every candle to every rule and reports the first in the fixed order, resumes
  after a restart where it was, and its stateful rules decide by the history
  of the position.
\<close>

section \<open>A worked configuration\<close>

definition demo_exit_config :: exit_config where
  "demo_exit_config = \<lparr>xc_enabled = True, xc_mode = ''highest_close'',
     xc_settings = [(''trailing'', [(''enabled'', JBool True), (''trail_points'', JNum 10)]),
                    (''highest_close'', [(''trail_type'', JStr ''percentage''), (''trail_percentage'', JNum 5)]),
                    (''consecutive'', [(''enabled'', JBool True)])]\<rparr>"

definition demo_composite :: composite where
  "demo_composite = (case build_exit_engine plain_conversions (Some demo_exit_config) of Inr (Some c) \<Rightarrow> c
     | _ \<Rightarrow> \<lparr>ce_engines = [], ce_last_fired = None\<rparr>)"

definition demo_input :: "money \<Rightarrow> exit_input" where
  "demo_input price =
     \<lparr>ei_position = update_price price (new_open_position
          \<lparr>oc_symbol = ''NIFTY24500CE'', oc_security_id = ''42'', oc_strike = 24500, oc_option_type = CE,
           oc_expiry = ''2026-08-06'', oc_lot_size = 75\<rparr> BUY 1 100 (at_ist 9 20 0)),
      ei_candle = \<lparr>oh_high = price, oh_low = price, oh_close = price, oh_open = Some price, oh_volume = None,
                   oh_start = None, oh_spans_gap = False\<rparr>,
      ei_history = [], ei_indicators = [], ei_timestamp = Some (at_ist 10 0 0)\<rparr>"

lemma demo_built: "build_exit_engine plain_conversions (Some demo_exit_config) = Inr (Some demo_composite)"
proof -
  have "case build_exit_engine plain_conversions (Some demo_exit_config) of Inr (Some c) \<Rightarrow> True | _ \<Rightarrow> False" by code_simp
  then show ?thesis by (auto simp: demo_composite_def split: sum.splits option.splits)
qed

section \<open>Properties\<close>

text \<open>C24: whatever the order of the exit block, the composite built from it holds its rules
  in the fixed priority order, each at most once; at every candle that raises
  nothing every rule sees the candle, the composite fires exactly when one of
  them does, and the rule it reports is the first that fires in that order.\<close>

theorem composite_reports_first_rule:
  assumes "build_exit_engine py cfg = Inr (Some c0)" "c = after composite_should_exit vs c0"
    and "composite_should_exit v c = (Inr b, c1)"
  shows "subseq (map exit_label (ce_engines c1)) rule_order
    \<and> ce_engines c1 = map (\<lambda>e. snd (should_exit v e)) (ce_engines c)
    \<and> b = list_ex (\<lambda>e. fst (should_exit v e) = Inr True) (ce_engines c)
    \<and> (case ce_last_fired c1 of
         None \<Rightarrow> \<not> b
       | Some i \<Rightarrow> i < length (ce_engines c) \<and> fst (should_exit v (ce_engines c ! i)) = Inr True
                    \<and> list_all (\<lambda>e. fst (should_exit v e) = Inr False) (take i (ce_engines c)))"
proof -
  note built = built_composite [OF assms(1)]
  have ok: "composite_ok c" unfolding assms(2) by (rule composite.ok_after [OF built(1)])
  have lab: "map exit_label (ce_engines c1) = map exit_label (ce_engines c0)"
    using composite_decided [OF ok, of v] composite_after [OF built(1), of vs] assms(2,3) by simp
  obtain bs where a: "fst (advance v (ce_engines c)) = Inr bs" "b = (first_true bs \<noteq> None)"
    "ce_last_fired c1 = first_true bs" "ce_engines c1 = snd (advance v (ce_engines c))"
    using assms(3) by (auto simp: composite_should_exit_def case_prod_unfold split: sum.splits)
  have m: "map (\<lambda>e. fst (should_exit v e)) (ce_engines c) = map Inr bs" using advance_all [OF a(1)] by simp
  then have len: "length bs = length (ce_engines c)" by (metis length_map)
  have nth: "fst (should_exit v (ce_engines c ! i)) = Inr (bs ! i)" if "i < length bs" for i
    using arg_cong [OF m, of "\<lambda>xs. xs ! i"] that len by simp
  have ex: "list_ex (\<lambda>e. fst (should_exit v e) = Inr True) (ce_engines c) = (True \<in> set bs)"
    using nth len by (auto simp: list_ex_length in_set_conv_nth)
  have "list_all (\<lambda>e. fst (should_exit v e) = Inr False) (take i (ce_engines c)) = (True \<notin> set (take i bs))"
    if "i < length bs" for i
    using nth len that by (auto simp: list_all_length in_set_conv_nth)
  then have "case first_true bs of None \<Rightarrow> \<not> b
      | Some i \<Rightarrow> i < length (ce_engines c) \<and> fst (should_exit v (ce_engines c ! i)) = Inr True
           \<and> list_all (\<lambda>e. fst (should_exit v e) = Inr False) (take i (ce_engines c))"
    using first_true_spec [of bs] nth len a(2) by (cases "first_true bs") auto
  moreover have "b = (True \<in> set bs)" using first_true_spec [of bs] a(2) nth_mem
    by (cases "first_true bs") (force split: option.splits)+
  ultimately show ?thesis using ex a(3,4) lab built(3) advance_all [OF a(1)] by simp
qed

definition demo_step :: "bool result \<times> composite" where
  "demo_step = composite_should_exit (demo_input 110) (after composite_should_exit [demo_input 130, demo_input 120] demo_composite)"

theorem composite_reports_first_rule_witness:
  "ce_last_fired (snd demo_step) = Some 0 \<and> map exit_label (ce_engines (snd demo_step))
     = [''HIGHEST_CLOSE'', ''CONSECUTIVE_REVERSAL'', ''TRAILING'']
   \<and> subseq (map exit_label (ce_engines (snd demo_step))) rule_order"
proof -
  have "fst demo_step = Inr True" by code_simp
  then have "composite_should_exit (demo_input 110) (after composite_should_exit [demo_input 130, demo_input 120] demo_composite)
      = (Inr True, snd demo_step)" by (metis demo_step_def prod.collapse)
  note first = conjunct1 [OF composite_reports_first_rule [OF demo_built refl this]]
  have "ce_last_fired (snd demo_step) = Some 0 \<and> map exit_label (ce_engines (snd demo_step))
      = [''HIGHEST_CLOSE'', ''CONSECUTIVE_REVERSAL'', ''TRAILING'']" by code_simp
  with first show ?thesis by blast
qed

text \<open>C25: the exit rules survive a restart: restoring the snapshot a composite took after any
  candles into the composite a new process builds from the same configuration
  gives the same decisions, and the same errors, on every candle that follows.\<close>

theorem exit_state_survives_restart:
  assumes "build_exit_engine py cfg = Inr (Some c0)"
  shows "decisions composite_should_exit ws (composite_restore (composite_snapshot (after composite_should_exit vs c0)) c0)
    = decisions composite_should_exit ws (after composite_should_exit vs c0)"
proof -
  note built = built_composite [OF assms]
  have "composite_reset (after composite_should_exit vs c0) = c0" using composite_after [OF built(1), of vs] built(2) by simp
  with composite.survives [OF composite.ok_after [OF built(1)], of ws vs] show ?thesis by simp
qed

theorem exit_state_survives_restart_witness:
  "decisions composite_should_exit [demo_input 126, demo_input 123]
     (composite_restore (composite_snapshot (after composite_should_exit [demo_input 130, demo_input 128] demo_composite)) demo_composite)
   = [Inr True, Inr True]"
  unfolding exit_state_survives_restart [OF demo_built] by code_simp

text \<open>The stateful rules decide by the history of the position, in whatever order its
  prices came: the trailing stop fires when the best profit so far is positive
  and has given back the trail; the reversal rule when enough of the latest
  moves between closes went against the position; the best-close trail when the
  last close is far enough from the best close of the position and, with an
  activation gate, the best close ever cleared the gate.\<close>

theorem exit_rules_follow_history:
  assumes "tr_peak_profit t = 0"
    and "cr_streak c = 0" "cr_prev_close c = None" "list_all (\<lambda>v. holds_call (ei_position v) = call) (vs @ [v])"
    and "bc_extreme b = None" "\<not> bc_activated b" "0 < entry" "same_trade (bc_by_side b) long entry (vs @ [v])"
  shows "fst (trailing_exit v (after trailing_exit vs t)) =
      (0 < best_profit (vs @ [v]) \<and> tr_trail_points t \<le> best_profit (vs @ [v]) - profit_points (ei_position v))
    \<and> fst (consecutive_exit v (after consecutive_exit vs c)) = (cr_reverse_candles c \<le> adverse_run call (vs @ [v]))
    \<and> fst (best_close_exit v (after best_close_exit vs b)) = Inr (
        let x = extreme_close long (vs @ [v]);
            back = (if long then x - oh_close (ei_candle v) else oh_close (ei_candle v) - x)
        in if bc_percentage b then armed b long entry (vs @ [v]) \<and> bc_trail_percentage b \<le> back / x * 100
           else bc_trail_points b \<le> back)"
proof (intro conjI, goal_cases)
  case 1
  then show ?case using trailing_history [OF assms(1), of vs] by (auto simp: trailing_exit_def Let_def best_profit_snoc max_def)
next
  case 2
  have "list_all (\<lambda>v. holds_call (ei_position v) = call) vs" using assms(4) by simp
  note h = consecutive_history [OF assms(2,3) this]
  have "fst (consecutive_exit w d) = (cr_reverse_candles d \<le> cr_streak (snd (consecutive_exit w d)))" for w d
    by (simp add: consecutive_exit_def Let_def split: option.split)
  then show ?case using h consecutive_history [OF assms(2-4)] by (simp add: Let_def)
next
  case 3
  let ?a = "after best_close_exit vs b"
  have s: "same_trade (bc_by_side b) long entry vs" "is_long (bc_by_side b) (ei_position v) = long"
    "op_entry_price (ei_position v) = entry" using assms(8) by (simp_all add: same_trade_def)
  note h = best_close_history [OF assms(5-7) s(1)] best_close_history [OF assms(5-8)]
  have x: "next_extreme long v ?a = extreme_close long (vs @ [v])"
    using h(1) by (simp add: extreme_close_snoc next_extreme_def)
  have "0 < extreme_close long (vs @ [v])"
    using assms(8) by (intro extreme_close_positive) (auto simp: same_trade_def list_all_iff)
  then have nz: "next_extreme long v ?a \<noteq> 0" using x by simp
  show ?case
    using best_close_decides [of ?a v] h nz assms(7) x by (cases long) (simp_all add: Let_def armed_def s)
qed

theorem exit_rules_follow_history_witness:
  "fst (trailing_exit (demo_input 112) (after trailing_exit [demo_input 125]
      \<lparr>tr_trail_points = 10, tr_peak_profit = 0\<rparr>)) = (0 < best_profit [demo_input 125, demo_input 112]
      \<and> 10 \<le> best_profit [demo_input 125, demo_input 112] - profit_points (ei_position (demo_input 112)))"
  using exit_rules_follow_history [of "\<lparr>tr_trail_points = 10, tr_peak_profit = 0\<rparr>"
      "\<lparr>cr_reverse_candles = 2, cr_streak = 0, cr_prev_close = None\<rparr>" True "[demo_input 125]" "demo_input 112"
      "\<lparr>bc_by_side = True, bc_percentage = True, bc_trail_points = 20, bc_trail_percentage = 8,
         bc_activation_enabled = True, bc_min_move = 10, bc_extreme = None, bc_activated = False\<rparr>" 100 True]
  by (simp add: demo_input_def same_trade_def is_long_def holds_call_def new_open_position_def update_price_def Let_def)

text \<open>
  The time rule compares the clock time a timestamp is written in with the
  configured one, which is documented as IST: the same instant after 15:15 IST,
  written in UTC, does not fire.
\<close>

lemma time_exit_reads_the_written_clock:
  "let utc = DT (wall (at_ist 15 20 0) - ist) (Some 0); v = demo_input 100
   in instant utc = instant (at_ist 15 20 0)
     \<and> time_exit (15 * hour + 15 * minute) (v\<lparr>ei_timestamp := Some (at_ist 15 20 0)\<rparr>)
     \<and> \<not> time_exit (15 * hour + 15 * minute) (v\<lparr>ei_timestamp := Some utc\<rparr>)"
  by code_simp

end
