(* ===== verification/Scrip_Master.thy ===== *)
theory Scrip_Master
  imports Session Conversions "HOL-Library.List_Lexorder" "HOL-Library.Char_ord"
begin

text \<open>
  common/market\_data/scrip\_master.py: the exchange's instrument master indexed
  for one underlying.  A row is what csv.DictReader gives for a line, None for a
  column the line lacks; the transport and the cache file are left out.
\<close>




type_synonym csv_row = "(string, string option) dict"

record index_meta =
  im_security_id :: string
  im_segment :: string
  im_fno_segment :: string
  im_exchange :: string

definition index_registry :: "(string, index_meta) dict" where
  "index_registry =
     [(''NIFTY'', \<lparr>im_security_id = ''13'', im_segment = ''IDX_I'', im_fno_segment = ''NSE_FNO'', im_exchange = ''NSE''\<rparr>),
      (''BANKNIFTY'', \<lparr>im_security_id = ''25'', im_segment = ''IDX_I'', im_fno_segment = ''NSE_FNO'', im_exchange = ''NSE''\<rparr>),
      (''SENSEX'', \<lparr>im_security_id = ''51'', im_segment = ''IDX_I'', im_fno_segment = ''BSE_FNO'', im_exchange = ''BSE''\<rparr>)]"

definition segment_codes :: "(string, int) dict" where
  "segment_codes =
     [(''IDX_I'', 0), (''NSE_EQ'', 1), (''NSE_FNO'', 2), (''NSE_CURRENCY'', 3), (''BSE_EQ'', 4), (''MCX_COMM'', 5),
      (''BSE_CURRENCY'', 7), (''BSE_FNO'', 8)]"

definition segment_code :: "string \<Rightarrow> int result" where
  "segment_code segment = (case dict_get segment_codes segment of None \<Rightarrow> Inl KeyError | Some c \<Rightarrow> Inr c)"

text \<open>An override that is None or empty is not given.\<close>

definition given :: "string option \<Rightarrow> bool" where
  "given x = (case x of None \<Rightarrow> False | Some s \<Rightarrow> s \<noteq> [])"

definition or_given :: "string option \<Rightarrow> string \<Rightarrow> string" where
  "or_given x fallback = (if given x then the x else fallback)"

definition resolve_index_meta ::
  "string \<Rightarrow> string option \<Rightarrow> string option \<Rightarrow> string option \<Rightarrow> index_meta result" where
  "resolve_index_meta underlying security_id segment fno_segment =
     (let base = dict_get index_registry (upper underlying) in
      if base = None \<and> \<not> (given security_id \<and> given segment \<and> given fno_segment) then Inl ValueError
      else Inr
        \<lparr>im_security_id = or_given security_id (case base of None \<Rightarrow> [] | Some b \<Rightarrow> im_security_id b),
         im_segment = or_given segment (case base of None \<Rightarrow> ''IDX_I'' | Some b \<Rightarrow> im_segment b),
         im_fno_segment = or_given fno_segment (case base of None \<Rightarrow> ''NSE_FNO'' | Some b \<Rightarrow> im_fno_segment b),
         im_exchange = (case base of None \<Rightarrow> ''NSE'' | Some b \<Rightarrow> im_exchange b)\<rparr>)"

record option_row =
  ow_security_id :: string
  ow_strike :: rat
  ow_option_type :: option_type
  ow_expiry :: string
  ow_lot_size :: int
  ow_symbol :: string
  ow_tick_size :: "money option"

definition tick_size_in_rupees :: "py_conversions \<Rightarrow> string option \<Rightarrow> money option" where
  "tick_size_in_rupees py raw =
     (case Option.bind raw (py_float py) of None \<Rightarrow> None | Some paise \<Rightarrow> if paise \<le> 0 then None else Some (paise / 100))"

record scrip_master =
  sm_underlying :: string
  sm_exchange :: string
  sm_by_key :: "(string \<times> rat \<times> option_type, option_row) dict"
  sm_by_security_id :: "(string, option_row) dict"
  sm_expiries :: "string list"
  sm_lot_size :: "int option"

definition new_scrip_master :: "string \<Rightarrow> string option \<Rightarrow> scrip_master" where
  "new_scrip_master underlying exchange =
     (let u = upper underlying in
      \<lparr>sm_underlying = u,
       sm_exchange = upper (or_given exchange (case dict_get index_registry u of None \<Rightarrow> ''NSE'' | Some m \<Rightarrow> im_exchange m)),
       sm_by_key = [], sm_by_security_id = [], sm_expiries = [], sm_lot_size = None\<rparr>)"

text \<open>row.get(column) or the empty text.\<close>

definition cell :: "csv_row \<Rightarrow> string \<Rightarrow> string" where
  "cell row column = (case dict_get row column of Some (Some s) \<Rightarrow> s | _ \<Rightarrow> [])"

definition split_first :: "char \<Rightarrow> string \<Rightarrow> string" where
  "split_first c s = takeWhile (\<lambda>x. x \<noteq> c) s"

definition option_type_of :: "string \<Rightarrow> option_type option" where
  "option_type_of s = (if s = ''CE'' then Some CE else if s = ''PE'' then Some PE else None)"

text \<open>
  One line: not an option of this underlying on this exchange, unusable, or a
  contract.  str(None) is the text None.
\<close>

datatype row_outcome = Other_Row | Unusable_Row | Broken_Row | Contract_Row option_row

definition contract_of :: "py_conversions \<Rightarrow> csv_row \<Rightarrow> string \<Rightarrow> option_type \<Rightarrow> row_outcome" where
  "contract_of py row symbol ot =
     (case (Option.bind (Option.bind (dict_get row ''SEM_STRIKE_PRICE'') id) (py_float py),
            Option.bind (Option.bind (dict_get row ''SEM_LOT_UNITS'') id) (py_float py)) of
        (Some strike, Some lot) \<Rightarrow>
          (case dict_get row ''SEM_SMST_SECURITY_ID'' of
             None \<Rightarrow> Broken_Row
           | Some sid \<Rightarrow>
               Contract_Row
                 \<lparr>ow_security_id = (case sid of None \<Rightarrow> ''None'' | Some s \<Rightarrow> s), ow_strike = strike,
                  ow_option_type = ot, ow_expiry = take 10 (cell row ''SEM_EXPIRY_DATE''),
                  ow_lot_size = truncated lot,
                  ow_symbol = (if cell row ''SEM_CUSTOM_SYMBOL'' = [] then symbol else cell row ''SEM_CUSTOM_SYMBOL''),
                  ow_tick_size = tick_size_in_rupees py (Option.bind (dict_get row ''SEM_TICK_SIZE'') id)\<rparr>)
      | _ \<Rightarrow> Unusable_Row)"

definition read_row :: "py_conversions \<Rightarrow> scrip_master \<Rightarrow> csv_row \<Rightarrow> row_outcome" where
  "read_row py m row =
     (if upper (cell row ''SEM_INSTRUMENT_NAME'') \<noteq> ''OPTIDX'' then Other_Row
      else case option_type_of (upper (strip (cell row ''SEM_OPTION_TYPE''))) of
        None \<Rightarrow> Other_Row
      | Some ot \<Rightarrow>
          let symbol = cell row ''SEM_TRADING_SYMBOL''; exch = upper (cell row ''SEM_EXM_EXCH_ID'') in
          if upper (split_first CHR ''-'' symbol) \<noteq> sm_underlying m then Other_Row
          else if exch \<noteq> [] \<and> exch \<noteq> sm_exchange m then Other_Row
          else contract_of py row symbol ot)"

definition row_key :: "option_row \<Rightarrow> string \<times> rat \<times> option_type" where
  "row_key r = (ow_expiry r, ow_strike r, ow_option_type r)"

definition index_row :: "option_row \<Rightarrow> scrip_master \<Rightarrow> scrip_master" where
  "index_row r m =
     m\<lparr>sm_by_key := dict_set (row_key r) r (sm_by_key m),
       sm_by_security_id := dict_set (ow_security_id r) r (sm_by_security_id m),
       sm_expiries := (if ow_expiry r \<in> set (sm_expiries m) then sm_expiries m else sm_expiries m @ [ow_expiry r]),
       sm_lot_size := Some (ow_lot_size r)\<rparr>"

fun read_rows :: "py_conversions \<Rightarrow> csv_row list \<Rightarrow> scrip_master \<Rightarrow> scrip_master result" where
  "read_rows py [] m = Inr m"
| "read_rows py (row # rows) m =
     (case read_row py m row of
        Broken_Row \<Rightarrow> Inl KeyError
      | Contract_Row r \<Rightarrow> read_rows py rows (index_row r m)
      | _ \<Rightarrow> read_rows py rows m)"

definition load_rows :: "py_conversions \<Rightarrow> csv_row list \<Rightarrow> scrip_master \<Rightarrow> scrip_master result" where
  "load_rows py rows m =
     bindE (read_rows py rows (m\<lparr>sm_by_key := [], sm_by_security_id := [], sm_expiries := []\<rparr>)) (\<lambda>m1.
     if sm_by_key m1 = [] then Inl ScripMasterError else Inr (m1\<lparr>sm_expiries := sort (sm_expiries m1)\<rparr>))"

section \<open>Queries\<close>

text \<open>strptime with the format of an ISO date.\<close>

definition strptime_date :: "string \<Rightarrow> day result" where
  "strptime_date s =
     (case split_on CHR ''-'' s of
        [y, m, d] \<Rightarrow>
          (if length y = 4 \<and> list_all is_digit y
           then (case (field 13 m, field 32 d) of
                   (Some m', Some d') \<Rightarrow> (case civil_day (int (parse_nat y)) m' d' of None \<Rightarrow> Inl ValueError | Some x \<Rightarrow> Inr x)
                 | _ \<Rightarrow> Inl ValueError)
           else Inl ValueError)
      | _ \<Rightarrow> Inl ValueError)"

fun first_expiry :: "day \<Rightarrow> string list \<Rightarrow> string result" where
  "first_expiry reference [] = Inl ScripMasterError"
| "first_expiry reference (e # es) =
     bindE (strptime_date e) (\<lambda>d. if reference \<le> d then Inr e else first_expiry reference es)"

text \<open>The failure message names the newest expiry, so an empty list raises IndexError instead.\<close>

definition nearest_expiry :: "day \<Rightarrow> scrip_master \<Rightarrow> string result" where
  "nearest_expiry reference m =
     (if sm_expiries m = [] then Inl IndexError else first_expiry reference (sm_expiries m))"

definition master_get :: "rat \<Rightarrow> option_type \<Rightarrow> string \<Rightarrow> scrip_master \<Rightarrow> option_row option" where
  "master_get strike ot expiry m = dict_get (sm_by_key m) (expiry, strike, ot)"

definition by_security_id :: "string \<Rightarrow> scrip_master \<Rightarrow> option_row option" where
  "by_security_id sid m = dict_get (sm_by_security_id m) sid"

definition strikes_for_expiry :: "string \<Rightarrow> scrip_master \<Rightarrow> rat list" where
  "strikes_for_expiry expiry m =
     sort (remdups (map (\<lambda>((e, s, _), _). s) (filter (\<lambda>((e, _, _), _). e = expiry) (sm_by_key m))))"

definition band_offsets :: "int \<Rightarrow> int list" where
  "band_offsets half_width = [- half_width .. half_width]"

definition atm_band :: "rat \<Rightarrow> string \<Rightarrow> int \<Rightarrow> int \<Rightarrow> scrip_master \<Rightarrow> option_row list result" where
  "atm_band spot expiry strike_step half_width m =
     (if strike_step \<le> 0 then Inl ValueError
      else
        let atm = round_int (spot / of_int strike_step) * strike_step in
        Inr (concat (map (\<lambda>offset.
          List.map_filter (\<lambda>ot. master_get (of_int (atm + offset * strike_step)) ot expiry m) [CE, PE])
          (band_offsets half_width))))"

section \<open>What a loaded master holds\<close>

text \<open>The contracts of the file, in its order.\<close>

fun contracts_of :: "py_conversions \<Rightarrow> scrip_master \<Rightarrow> csv_row list \<Rightarrow> option_row list" where
  "contracts_of py m [] = []"
| "contracts_of py m (row # rows) =
     (case read_row py m row of Contract_Row r \<Rightarrow> [r] | _ \<Rightarrow> []) @ contracts_of py m rows"

lemma read_row_cong:
  "sm_underlying m = sm_underlying m' \<Longrightarrow> sm_exchange m = sm_exchange m' \<Longrightarrow> read_row py m row = read_row py m' row"
  unfolding read_row_def by metis

lemma contracts_of_cong:
  "sm_underlying m = sm_underlying m' \<Longrightarrow> sm_exchange m = sm_exchange m' \<Longrightarrow> contracts_of py m rows = contracts_of py m' rows"
  by (induction rows) (simp_all add: read_row_cong [of m m'])

lemma index_row_same [simp]:
  "sm_underlying (index_row r m) = sm_underlying m" "sm_exchange (index_row r m) = sm_exchange m"
  "sm_by_key (index_row r m) = dict_set (row_key r) r (sm_by_key m)"
  "sm_by_security_id (index_row r m) = dict_set (ow_security_id r) r (sm_by_security_id m)"
  "set (sm_expiries (index_row r m)) = insert (ow_expiry r) (set (sm_expiries m))"
  by (auto simp: index_row_def)

lemma find_append: "find P (xs @ ys) = (case find P xs of None \<Rightarrow> find P ys | Some x \<Rightarrow> Some x)"
  by (induction xs) auto

lemma read_rows_fold:
  "read_rows py rows m = Inr m1 \<Longrightarrow> m1 = fold index_row (contracts_of py m rows) m"
proof (induction rows arbitrary: m)
  case (Cons row rows)
  have "contracts_of py (index_row r m) rows = contracts_of py m rows" for r by (rule contracts_of_cong) simp_all
  with Cons show ?case by (cases "read_row py m row") (force split: row_outcome.splits)+
qed simp

lemma fold_index_keys:
  "dict_get (sm_by_key (fold index_row rs m)) k =
     (case find (\<lambda>r. row_key r = k) (rev rs) of Some r \<Rightarrow> Some r | None \<Rightarrow> dict_get (sm_by_key m) k)"
by (induction rs arbitrary: m) (auto simp: find_append split: option.split)

lemma fold_index_sid:
  "dict_get (sm_by_security_id (fold index_row rs m)) k =
     (case find (\<lambda>r. ow_security_id r = k) (rev rs) of Some r \<Rightarrow> Some r | None \<Rightarrow> dict_get (sm_by_security_id m) k)"
by (induction rs arbitrary: m) (auto simp: find_append split: option.split)

lemma fold_index_expiries:
  "set (sm_expiries (fold index_row rs m)) = set (sm_expiries m) \<union> ow_expiry ` set rs"
  by (induction rs arbitrary: m) auto

lemma load_rows_Inr:
  assumes "load_rows py rows m = Inr m1"
  shows "master_get strike ot expiry m1 = find (\<lambda>r. row_key r = (expiry, strike, ot)) (rev (contracts_of py m rows))
    \<and> by_security_id sid m1 = find (\<lambda>r. ow_security_id r = sid) (rev (contracts_of py m rows))
    \<and> set (sm_expiries m1) = ow_expiry ` set (contracts_of py m rows) \<and> sorted (sm_expiries m1)
    \<and> sm_underlying m1 = sm_underlying m"
proof -
  let ?m = "m\<lparr>sm_by_key := [], sm_by_security_id := [], sm_expiries := []\<rparr>"
  obtain m0 where m0: "read_rows py rows ?m = Inr m0" "m1 = m0\<lparr>sm_expiries := sort (sm_expiries m0)\<rparr>"
    using assms by (auto simp: load_rows_def bindE_Inr split: if_splits)
  have c: "contracts_of py ?m rows = contracts_of py m rows" by (rule contracts_of_cong) simp_all
  have f: "m0 = fold index_row (contracts_of py m rows) ?m" using read_rows_fold [OF m0(1)] c by simp
  have u: "sm_underlying (fold index_row rs x) = sm_underlying x" for rs x by (induction rs arbitrary: x) simp_all
  show ?thesis unfolding m0(2) f master_get_def by_security_id_def
    by (simp add: fold_index_keys fold_index_sid fold_index_expiries u split: option.split)
qed

lemma read_row_contract:
  assumes "read_row py m row = Contract_Row r"
  shows "upper (cell row ''SEM_INSTRUMENT_NAME'') = ''OPTIDX''
    \<and> upper (split_first CHR ''-'' (cell row ''SEM_TRADING_SYMBOL'')) = sm_underlying m
    \<and> (upper (cell row ''SEM_EXM_EXCH_ID'') = [] \<or> upper (cell row ''SEM_EXM_EXCH_ID'') = sm_exchange m)"
  using assms by (auto simp: read_row_def Let_def split: if_splits option.splits)

lemma contract_of_row: "r \<in> set (contracts_of py m rows) \<Longrightarrow> \<exists>row \<in> set rows. read_row py m row = Contract_Row r"
  by (induction rows) (auto split: row_outcome.splits)

text \<open>What a loaded master answers for a strike, type and expiry is a contract of the file with exactly that key,
  read from an index-option row of this underlying whose exchange, where the row names one, is the master's; and it
  is the last such row, the same for a broker id.
\<close>

theorem master_answers_from_its_rows:
  assumes "load_rows py rows m = Inr m1"
  shows "(case master_get strike ot expiry m1 of
            None \<Rightarrow> \<not> list_ex (\<lambda>r. row_key r = (expiry, strike, ot)) (contracts_of py m rows)
          | Some r \<Rightarrow>
              find (\<lambda>r. row_key r = (expiry, strike, ot)) (rev (contracts_of py m rows)) = Some r
              \<and> ow_expiry r = expiry \<and> ow_strike r = strike \<and> ow_option_type r = ot
              \<and> list_ex (\<lambda>row. read_row py m row = Contract_Row r
                   \<and> upper (split_first CHR ''-'' (cell row ''SEM_TRADING_SYMBOL'')) = sm_underlying m1
                   \<and> upper (cell row ''SEM_EXM_EXCH_ID'') \<in> {[], sm_exchange m}) rows)
    \<and> by_security_id sid m1 = find (\<lambda>r. ow_security_id r = sid) (rev (contracts_of py m rows))"
proof -
  note l = load_rows_Inr [OF assms, of strike ot expiry sid]
  show ?thesis
  proof (cases "master_get strike ot expiry m1")
    case None
    then show ?thesis using l find_NoneD [of _ "rev (contracts_of py m rows)"] by (auto simp: list_ex_iff)
  next
    case (Some r)
    then have f: "find (\<lambda>r. row_key r = (expiry, strike, ot)) (rev (contracts_of py m rows)) = Some r" using l by simp
    note d = find_SomeD [OF f]
    then obtain row where "row \<in> set rows" "read_row py m row = Contract_Row r" using contract_of_row by fastforce
    then show ?thesis using Some f l d read_row_contract [of py m row r] by (auto simp: list_ex_iff row_key_def)
  qed
qed

section \<open>Examples\<close>

text \<open>Numbers of digits only, which is what the examples hold.\<close>

definition digit_conversions :: py_conversions where
  "digit_conversions =
     \<lparr>py_shown = (\<lambda>_. []), py_float = (\<lambda>s. if digits_only s then Some (of_nat (parse_nat s)) else None),
      py_int = (\<lambda>s. if digits_only s then Some (int (parse_nat s)) else None)\<rparr>"

definition csv_line :: "string \<Rightarrow> string \<Rightarrow> string \<Rightarrow> string \<Rightarrow> csv_row" where
  "csv_line sid symbol expiry strike =
     [(''SEM_EXM_EXCH_ID'', Some ''NSE''), (''SEM_SMST_SECURITY_ID'', Some sid), (''SEM_INSTRUMENT_NAME'', Some ''OPTIDX''),
      (''SEM_TRADING_SYMBOL'', Some symbol), (''SEM_CUSTOM_SYMBOL'', Some symbol), (''SEM_EXPIRY_DATE'', Some expiry),
      (''SEM_STRIKE_PRICE'', Some strike), (''SEM_OPTION_TYPE'', Some ''CE''), (''SEM_LOT_UNITS'', Some ''75''),
      (''SEM_TICK_SIZE'', Some ''5'')]"

definition example_rows :: "csv_row list" where
  "example_rows =
     [csv_line ''43492'' ''NIFTY-A'' ''2026-08-06 14:30'' ''100'',
      csv_line ''50001'' ''NIFTYN-A'' ''2026-08-06 14:30'' ''100'',
      csv_line ''43500'' ''NIFTY-B'' ''2026-08-13 14:30'' ''150'']"

definition nifty_master :: scrip_master where "nifty_master = new_scrip_master ''NIFTY'' None"

definition loaded_or :: "'a result \<Rightarrow> 'a \<Rightarrow> 'a" where
  "loaded_or r x = (case r of Inl _ \<Rightarrow> x | Inr y \<Rightarrow> y)"

definition loaded_master :: scrip_master where
  "loaded_master = loaded_or (load_rows digit_conversions example_rows nifty_master) nifty_master"

lemmas text_simps =
  upper_def upper_char_def char_of_def bit_0_eq split_first_def digits_only_def is_digit_def parse_nat_def digit_val_def

lemma example_texts:
  "upper ''NSE'' = ''NSE''" "upper ''OPTIDX'' = ''OPTIDX''" "upper (strip ''CE'') = ''CE''"
  "upper ''NIFTY'' = ''NIFTY''" "upper ''NIFTYN'' = ''NIFTYN''"
  "parse_nat ''75'' = 75" "digits_only ''75''" "parse_nat ''5'' = 5" "digits_only ''5''"
  "parse_nat ''100'' = 100" "digits_only ''100''" "parse_nat ''150'' = 150" "digits_only ''150''"
  by (simp_all add: text_simps strip_def is_space_def)

definition example_contract :: "string \<Rightarrow> string \<Rightarrow> string \<Rightarrow> string \<Rightarrow> option_row" where
  "example_contract sid symbol expiry strike =
     \<lparr>ow_security_id = sid, ow_strike = of_nat (parse_nat strike), ow_option_type = CE, ow_expiry = take 10 expiry,
      ow_lot_size = 75, ow_symbol = symbol, ow_tick_size = Some (1 / 20)\<rparr>"

lemma read_csv_line:
  assumes "sm_underlying m = ''NIFTY''" "sm_exchange m = ''NSE''" "digits_only strike" "symbol \<noteq> []"
  shows "read_row digit_conversions m (csv_line sid symbol expiry strike)
    = (if upper (split_first CHR ''-'' symbol) = ''NIFTY'' then Contract_Row (example_contract sid symbol expiry strike)
       else Other_Row)"
  using assms
  by (simp add: read_row_def csv_line_def cell_def example_texts option_type_of_def contract_of_def digit_conversions_def
      tick_size_in_rupees_def truncated_def example_contract_def Let_def)

lemma nifty_master_fields: "sm_underlying nifty_master = ''NIFTY''" "sm_exchange nifty_master = ''NSE''"
  by (simp_all add: nifty_master_def new_scrip_master_def index_registry_def or_given_def given_def Let_def example_texts)

lemmas example_run =
  loaded_master_def loaded_or_def example_rows_def load_rows_def read_csv_line nifty_master_fields example_texts split_first_def
  example_contract_def row_key_def index_row_def

lemma example_loads: "load_rows digit_conversions example_rows nifty_master = Inr loaded_master"
  by (simp add: example_run)

lemma example_answers:
  "map_option ow_security_id (master_get 100 CE ''2026-08-06'' loaded_master) = Some ''43492''"
  "map_option ow_tick_size (by_security_id ''43500'' loaded_master) = Some (Some (1 / 20))"
  by (simp_all add: example_run master_get_def by_security_id_def)

lemma master_answers_from_its_rows_witness:
  "(case master_get 100 CE ''2026-08-06'' loaded_master of
      None \<Rightarrow> False | Some r \<Rightarrow> ow_strike r = 100 \<and> ow_security_id r = ''43492'')"
  using master_answers_from_its_rows
      [OF example_loads, where strike = 100 and ot = CE and expiry = "''2026-08-06''" and sid = "''43492''"]
    example_answers(1)
  by (simp split: option.splits)

text \<open>
  One row with a blank expiry date is loaded like the others, sorts first, and from then on no nearest expiry can be
  asked for: reading the blank date raises ValueError whatever the reference day.
\<close>

lemma blank_expiry_blocks_nearest:
  "case load_rows digit_conversions (csv_line ''1'' ''NIFTY'' [] ''100'' # example_rows) nifty_master of
     Inr m \<Rightarrow> sm_expiries m = [[], ''2026-08-06'', ''2026-08-13''] \<and> nearest_expiry day m = Inl ValueError
   | Inl _ \<Rightarrow> False"
  by (simp add: example_run nearest_expiry_def strptime_date_def)

text \<open>The band around the money is centred on the nearest strike and lists what the master has of it.\<close>

lemma atm_band_centre:
  "0 < step \<Longrightarrow> \<bar>of_int (round_int (spot / of_int step) * step) - spot\<bar> \<le> (of_int step / 2 :: rat)"
proof -
  assume s: "0 < step"
  have "of_int (round_int (spot / of_int step) * step) - spot = (of_int (round_int (spot / of_int step)) - spot / of_int step) * of_int step"
    using s by (simp add: field_simps)
  then have "\<bar>of_int (round_int (spot / of_int step) * step) - spot\<bar> = \<bar>of_int (round_int (spot / of_int step)) - spot / of_int step\<bar> * of_int step"
    using s by (simp add: abs_mult)
  also have "\<dots> \<le> 1 / 2 * of_int step" using s by (intro mult_right_mono round_int_near) simp_all
  finally show ?thesis by simp
qed

end
