(* ===== verification/Feed_Queues.thy ===== *)
theory Feed_Queues
  imports Candles Effects
begin

text \<open>
  common/feed/queues.py: a worker's bounded channel, which drops its oldest item
  when it is full, and the notice that tells the worker so.  One call of the
  publisher is one step: a consumer may run between two calls, not inside one.
\<close>

datatype feed_item =
    Candle_Item candle
  | Tick_Item tick
  | Drop_Notice nat
  | Shutdown_Sentinel

definition default_max_depth :: nat where "default_max_depth = 1000"
definition default_tick_max_depth :: nat where "default_tick_max_depth = 2048"
definition drop_notice_every :: nat where "drop_notice_every = 8"

definition drop_notice_cadence :: "nat \<Rightarrow> nat" where
  "drop_notice_cadence max_depth = max 1 (min drop_notice_every (max_depth div 2))"

record bounded_queue =
  bq_name :: string
  bq_max_depth :: nat
  bq_items :: "feed_item list"
  bq_published :: nat
  bq_dropped :: nat
  bq_last_published_at :: "datetime option"

definition new_bounded_queue :: "string \<Rightarrow> int \<Rightarrow> bounded_queue result" where
  "new_bounded_queue name max_depth =
     (if max_depth \<le> 0 then Inl ValueError
      else Inr \<lparr>bq_name = name, bq_max_depth = nat max_depth, bq_items = [], bq_published = 0, bq_dropped = 0,
                bq_last_published_at = None\<rparr>)"

definition drop_oldest :: "bounded_queue \<Rightarrow> bounded_queue" where
  "drop_oldest q =
     (case bq_items q of [] \<Rightarrow> q | _ # rest \<Rightarrow> q\<lparr>bq_items := rest, bq_dropped := bq_dropped q + 1\<rparr>)"

definition put :: "datetime \<Rightarrow> feed_item \<Rightarrow> bounded_queue \<Rightarrow> bounded_queue" where
  "put now item q =
     q\<lparr>bq_items := bq_items q @ [item], bq_published := bq_published q + 1, bq_last_published_at := Some now\<rparr>"

definition publish :: "datetime \<Rightarrow> feed_item \<Rightarrow> bounded_queue \<Rightarrow> bool \<times> bounded_queue" where
  "publish now item q =
     (if length (bq_items q) < bq_max_depth q then (True, put now item q)
      else
        let q1 = drop_oldest q in
        if length (bq_items q1) < bq_max_depth q1 then (False, put now item q1)
        else (False, q1\<lparr>bq_dropped := bq_dropped q1 + 1\<rparr>))"

definition get_item :: "bounded_queue \<Rightarrow> feed_item result \<times> bounded_queue" where
  "get_item q = (case bq_items q of [] \<Rightarrow> (Inl QueueEmpty, q) | x # rest \<Rightarrow> (Inr x, q\<lparr>bq_items := rest\<rparr>))"

record queue_stats =
  qs_name :: string
  qs_depth :: nat
  qs_max_depth :: nat
  qs_published :: nat
  qs_dropped :: nat
  qs_last_published_at :: "datetime option"

definition stats_of :: "bounded_queue \<Rightarrow> queue_stats" where
  "stats_of q =
     \<lparr>qs_name = bq_name q, qs_depth = length (bq_items q), qs_max_depth = bq_max_depth q, qs_published = bq_published q,
      qs_dropped = bq_dropped q, qs_last_published_at = bq_last_published_at q\<rparr>"

definition is_overflowing :: "queue_stats \<Rightarrow> bool" where
  "is_overflowing s = (0 < qs_dropped s)"

section \<open>The interface: a window onto what was sent\<close>

text \<open>
  A channel shows its reader a window of the items sent to it: sending appends,
  and removes at most items from the front, one by one, which it counts.
\<close>

lemma drop_more: "k \<le> length ys \<Longrightarrow> drop n (drop k ys @ [x]) = drop (n + k) (ys @ [x])"
proof -
  assume "k \<le> length ys"
  then have "drop k ys @ [x] = drop k (ys @ [x])" by simp
  then show ?thesis by (simp only: drop_drop)
qed

locale lossy_channel =
  fixes send :: "'i \<Rightarrow> 'q \<Rightarrow> 'q"
    and contents :: "'q \<Rightarrow> 'i list"
    and lost :: "'q \<Rightarrow> nat"
    and capacity :: "'q \<Rightarrow> nat"
    and ok :: "'q \<Rightarrow> bool"
  assumes sent: "ok q \<Longrightarrow> contents (send x q) = (if length (contents q) < capacity q then contents q else tl (contents q)) @ [x]"
    and counted: "ok q \<Longrightarrow> lost (send x q) = (if length (contents q) < capacity q then lost q else lost q + 1)"
    and kept: "ok q \<Longrightarrow> ok (send x q) \<and> capacity (send x q) = capacity q"
    and room: "ok q \<Longrightarrow> 0 < capacity q \<and> length (contents q) \<le> capacity q"
begin

lemma send_drops: "ok q \<Longrightarrow> \<exists>n. contents (send x q) = drop n (contents q @ [x]) \<and> lost (send x q) = lost q + n"
proof (cases "length (contents q) < capacity q")
  case True
  moreover assume "ok q"
  ultimately show ?thesis using sent counted by (intro exI [of _ 0]) simp
next
  case False
  moreover assume "ok q"
  ultimately show ?thesis using sent [of q x] counted [of q x] room [of q]
    by (intro exI [of _ 1]) (cases "contents q", auto)
qed

lemma send_all:
  "ok q \<Longrightarrow> ok (fold send xs q) \<and> contents (fold send xs q) = drop (lost (fold send xs q) - lost q) (contents q @ xs)
     \<and> lost q \<le> lost (fold send xs q) \<and> lost (fold send xs q) - lost q \<le> length (contents q) + length xs"
proof (induction xs rule: rev_induct)
  case (snoc x xs)
  then have i: "ok (fold send xs q)" "contents (fold send xs q) = drop (lost (fold send xs q) - lost q) (contents q @ xs)"
    "lost q \<le> lost (fold send xs q)" by simp_all
  obtain n where n: "contents (send x (fold send xs q)) = drop n (contents (fold send xs q) @ [x])"
    "lost (send x (fold send xs q)) = lost (fold send xs q) + n" using send_drops [OF i(1)] by blast
  have "n \<le> length (contents (fold send xs q)) + 1"
    using n counted [OF i(1), of x] by (auto split: if_splits)
  moreover have "lost (fold send xs q) - lost q \<le> length (contents q @ xs)" using snoc(1) [OF snoc(2)] by simp
  then have "drop n (contents (fold send xs q) @ [x]) = drop (n + (lost (fold send xs q) - lost q)) ((contents q @ xs) @ [x])"
    unfolding i(2) by (rule drop_more)
  ultimately show ?case using i n kept [OF i(1)] snoc by (auto simp: add.commute)
qed simp

end

definition queue_ok :: "bounded_queue \<Rightarrow> bool" where
  "queue_ok q = (0 < bq_max_depth q \<and> length (bq_items q) \<le> bq_max_depth q)"

lemma publish_ok:
  "queue_ok q \<Longrightarrow> publish now x q = (b, q') \<Longrightarrow>
     queue_ok q' \<and> bq_max_depth q' = bq_max_depth q \<and> b = (length (bq_items q) < bq_max_depth q)
     \<and> bq_items q' = (if b then bq_items q else tl (bq_items q)) @ [x]
     \<and> bq_dropped q' = (if b then bq_dropped q else bq_dropped q + 1) \<and> bq_published q' = bq_published q + 1"
  by (cases "bq_items q") (auto simp: publish_def put_def drop_oldest_def queue_ok_def Let_def split: if_splits)

interpretation channel: lossy_channel "\<lambda>x q. snd (publish now x q)" bq_items bq_dropped bq_max_depth queue_ok for now
proof (unfold_locales, goal_cases)
  case (1 q x)
  then show ?case using publish_ok [OF 1 surjective_pairing] by simp
next
  case (2 q x)
  then show ?case using publish_ok [OF 2 surjective_pairing] by simp
next
  case (3 q x)
  then show ?case using publish_ok [OF 3 surjective_pairing] by simp
next
  case (4 q)
  then show ?case by (simp add: queue_ok_def)
qed

lemma cadence_bounds:
  "1 \<le> drop_notice_cadence d" "drop_notice_cadence d \<le> 8" "2 \<le> drop_notice_cadence d \<Longrightarrow> 2 * drop_notice_cadence d \<le> d"
  by (auto simp: drop_notice_cadence_def drop_notice_every_def max_def min_def split: if_splits)

section \<open>Telling the worker\<close>

text \<open>One tick for one worker: SharedFeedHub._fan_out_tick and _notify_drop of common/feed/hub.py.\<close>

definition notify_drop :: "datetime \<Rightarrow> bounded_queue \<times> nat \<Rightarrow> bounded_queue \<times> nat" where
  "notify_drop now st =
     (case st of (q, noted) \<Rightarrow>
        if noted \<noteq> 0 \<and> bq_dropped q - noted < drop_notice_cadence (bq_max_depth q) then (q, noted)
        else (snd (publish now (Drop_Notice (bq_dropped q)) q), bq_dropped q))"

definition send_tick :: "datetime \<Rightarrow> tick \<Rightarrow> bounded_queue \<times> nat \<Rightarrow> bounded_queue \<times> nat" where
  "send_tick now t st =
     (case st of (q, noted) \<Rightarrow>
        case publish now (Tick_Item t) q of
          (True, q1) \<Rightarrow> (q1, noted)
        | (False, q1) \<Rightarrow> notify_drop now (q1, noted))"

text \<open>While the worker reads nothing, the notice stays within reach of the end of the queue.\<close>

definition told :: "bounded_queue \<times> nat \<Rightarrow> bool" where
  "told st =
     (case st of (q, noted) \<Rightarrow>
        queue_ok q \<and>
        (if bq_dropped q = 0 then noted = 0
         else 0 < noted \<and> length (bq_items q) = bq_max_depth q
              \<and> (\<exists>pre post. bq_items q = pre @ Drop_Notice noted # post \<and> bq_dropped q = noted + 1 + length post
                   \<and> length post + 2 \<le> max 2 (drop_notice_cadence (bq_max_depth q)))))"

lemma told_intro:
  "queue_ok q \<Longrightarrow> length (bq_items q) = bq_max_depth q \<Longrightarrow> 0 < n \<Longrightarrow> bq_items q = pre @ Drop_Notice n # post
    \<Longrightarrow> bq_dropped q = n + 1 + length post \<Longrightarrow> length post + 2 \<le> max 2 (drop_notice_cadence (bq_max_depth q)) \<Longrightarrow> told (q, n)"
  by (auto simp: told_def)

lemma notify_fresh:
  assumes "queue_ok q" "length (bq_items q) = bq_max_depth q" "0 < bq_dropped q"
    and "noted = 0 \<or> drop_notice_cadence (bq_max_depth q) \<le> bq_dropped q - noted"
  shows "told (notify_drop now (q, noted))"
proof -
  obtain b q' where p: "publish now (Drop_Notice (bq_dropped q)) q = (b, q')" by fastforce
  note o = publish_ok [OF assms(1) p]
  have "bq_items q \<noteq> []" using assms(1,2) by (auto simp: queue_ok_def)
  then have "length (bq_items q') = bq_max_depth q'" "bq_items q' = tl (bq_items q) @ Drop_Notice (bq_dropped q) # []"
    "bq_dropped q' = bq_dropped q + 1" using o assms(2) by (cases "bq_items q"; auto)+
  then show ?thesis using assms o p by (auto simp: told_def notify_drop_def intro!: exI [of _ "tl (bq_items q)"])
qed

lemma told_send:
  assumes "told (q, noted)"
  shows "told (send_tick now t (q, noted))"
proof -
  have ok: "queue_ok q" using assms by (simp add: told_def)
  obtain b q' where p: "publish now (Tick_Item t) q = (b, q')" by fastforce
  note o = publish_ok [OF ok p]
  show ?thesis
  proof (cases b)
    case True
    then show ?thesis using assms o p by (auto simp: told_def send_tick_def split: if_splits)
  next
    case False
    then have full: "length (bq_items q) = bq_max_depth q" using o ok by (simp add: queue_ok_def)
    then have ne: "bq_items q \<noteq> []" using ok by (auto simp: queue_ok_def)
    then have full': "length (bq_items q') = bq_max_depth q'" using o False full by (cases "bq_items q") auto
    show ?thesis
    proof (cases "noted \<noteq> 0 \<and> bq_dropped q' - noted < drop_notice_cadence (bq_max_depth q')")
      case quiet: True
      then have "bq_dropped q \<noteq> 0" using assms by (auto simp: told_def split: if_splits)
      then obtain pre post where n: "bq_items q = pre @ Drop_Notice noted # post" "bq_dropped q = noted + 1 + length post"
        using assms by (auto simp: told_def)
      have "2 \<le> drop_notice_cadence (bq_max_depth q)" "length post + 2 < drop_notice_cadence (bq_max_depth q)"
        using quiet n(2) o False by auto
      with cadence_bounds(3) [OF this(1)] have "pre \<noteq> []" using n(1) full by (auto simp: Suc_le_eq)
      then have "bq_items q' = tl pre @ Drop_Notice noted # (post @ [Tick_Item t])" using o False n(1) by (cases pre) auto
      moreover have "bq_dropped q' = noted + 1 + length (post @ [Tick_Item t])" using o False n(2) by simp
      moreover have "length (post @ [Tick_Item t]) + 2 \<le> max 2 (drop_notice_cadence (bq_max_depth q'))"
        using \<open>length post + 2 < _\<close> o by simp
      ultimately have "told (q', noted)" using told_intro [of q' noted "tl pre" "post @ [Tick_Item t]"] o full' quiet by blast
      then show ?thesis using quiet False p by (simp add: send_tick_def notify_drop_def)
    next
      case False
      then show ?thesis using o \<open>\<not> b\<close> p full' notify_fresh [of q' noted now]
        by (auto simp: send_tick_def)
    qed
  qed
qed

text \<open>
  A stall from any queue: the notices of the past may be gone, but as soon as the
  items dropped since reach the cadence, a notice has been sent in the stall.
\<close>

definition stalled :: "bounded_queue \<Rightarrow> nat \<Rightarrow> bounded_queue \<times> nat \<Rightarrow> bool" where
  "stalled q0 n0 st =
     (case st of (q, noted) \<Rightarrow>
        queue_ok q \<and> bq_max_depth q = bq_max_depth q0 \<and> bq_dropped q0 \<le> bq_dropped q \<and>
        (told (q, noted) \<and> 0 < bq_dropped q
         \<or> noted = n0 \<and> bq_dropped q - bq_dropped q0 < drop_notice_cadence (bq_max_depth q0)
           \<and> (n0 = 0 \<longrightarrow> bq_dropped q = bq_dropped q0)))"

lemma stalled_start: "queue_ok q \<Longrightarrow> stalled q n (q, n)"
  using cadence_bounds(1) [of "bq_max_depth q"] by (simp add: stalled_def)

lemma notify_told_dropped: "told (notify_drop now (q, noted)) \<Longrightarrow> 0 < bq_dropped q \<Longrightarrow> queue_ok q \<Longrightarrow>
    0 < bq_dropped (fst (notify_drop now (q, noted))) \<and> bq_max_depth (fst (notify_drop now (q, noted))) = bq_max_depth q
      \<and> bq_dropped q \<le> bq_dropped (fst (notify_drop now (q, noted))) \<and> queue_ok (fst (notify_drop now (q, noted)))"
  using publish_ok [OF _ surjective_pairing, of q now "Drop_Notice (bq_dropped q)"]
  by (auto simp: notify_drop_def)

lemma send_tick_monotone:
  assumes "queue_ok q" "send_tick now t (q, n) = (q', n')"
  shows "queue_ok q' \<and> bq_max_depth q' = bq_max_depth q \<and> bq_dropped q \<le> bq_dropped q' \<and> (n \<le> bq_dropped q \<longrightarrow> n' \<le> bq_dropped q')"
proof -
  obtain b q1 where p: "publish now (Tick_Item t) q = (b, q1)" by fastforce
  note o = publish_ok [OF assms(1) p]
  obtain b2 q2 where p2: "publish now (Drop_Notice (bq_dropped q1)) q1 = (b2, q2)" by fastforce
  note o2 = publish_ok [OF conjunct1 [OF o] p2]
  show ?thesis using assms(2) p p2 o o2
    by (auto simp: send_tick_def notify_drop_def split: if_splits bool.splits)
qed

lemma stalled_send:
  assumes "stalled q0 n0 (q, noted)" "n0 \<le> bq_dropped q0"
  shows "stalled q0 n0 (send_tick now t (q, noted))"
proof -
  have ok: "queue_ok q" "bq_max_depth q = bq_max_depth q0" "bq_dropped q0 \<le> bq_dropped q"
    using assms(1) by (simp_all add: stalled_def)
  obtain q' n' where s: "send_tick now t (q, noted) = (q', n')" by fastforce
  note m = send_tick_monotone [OF ok(1) s]
  show ?thesis
  proof (cases "told (q, noted) \<and> 0 < bq_dropped q")
    case True
    then have "told (q', n')" using told_send [of q noted now t] s by simp
    then show ?thesis using True ok m by (simp add: stalled_def s)
  next
    case False
    then have quiet: "noted = n0" "bq_dropped q - bq_dropped q0 < drop_notice_cadence (bq_max_depth q0)"
      "n0 = 0 \<longrightarrow> bq_dropped q = bq_dropped q0" using assms(1) by (auto simp: stalled_def)
    obtain b q1 where p: "publish now (Tick_Item t) q = (b, q1)" by fastforce
    note o = publish_ok [OF ok(1) p]
    show ?thesis
    proof (cases b)
      case True
      then have "(q', n') = (q1, noted)" using s p by (simp add: send_tick_def)
      then show ?thesis using True o ok quiet s by (simp add: stalled_def)
    next
      case nb: False
      have full: "length (bq_items q1) = bq_max_depth q1" "0 < bq_dropped q1" "queue_ok q1"
        using nb o ok(1) by (cases "bq_items q"; auto simp: queue_ok_def)+
      have s': "send_tick now t (q, noted) = notify_drop now (q1, noted)" using nb p by (simp add: send_tick_def)
      show ?thesis
      proof (cases "noted \<noteq> 0 \<and> bq_dropped q1 - noted < drop_notice_cadence (bq_max_depth q1)")
        case True
        then have "notify_drop now (q1, noted) = (q1, noted)" by (simp add: notify_drop_def)
        then show ?thesis unfolding s' using True o ok quiet assms(2) by (auto simp: stalled_def)
      next
        case False
        then have "told (notify_drop now (q1, noted))" using notify_fresh [OF full(3,1,2)] by auto
        from this notify_told_dropped [OF this full(2,3)] show ?thesis
          unfolding s' using o ok nb by (cases "notify_drop now (q1, noted)") (simp add: stalled_def)
      qed
    qed
  qed
qed

lemma stalled_holds:
  assumes "stalled q0 n0 (q, noted)"
    and "drop_notice_cadence (bq_max_depth q0) \<le> bq_dropped q - bq_dropped q0 \<or> n0 = 0 \<and> bq_dropped q0 < bq_dropped q"
  shows "\<exists>n. Drop_Notice n \<in> set (bq_items q)"
proof -
  have "told (q, noted)" "0 < bq_dropped q" using assms by (auto simp: stalled_def)
  then show ?thesis by (auto simp: told_def)
qed

lemma told_sends: "told st \<Longrightarrow> told (fold (send_tick now) ts st)"
  by (induction ts arbitrary: st) (auto simp: told_send, metis surj_pair told_send)

end
