(* ===== verification/Feed_Hub.thy ===== *)
theory Feed_Hub
  imports Feed_Queues Candle_Runs "HOL-Library.List_Lexorder" "HOL-Library.Char_ord"
begin

text \<open>
  common/feed/hub.py: one feed adapter, one candle aggregator per instrument, and
  a bounded candle queue and an optional tick queue for each worker.  The adapter
  is a state with the operations of the protocol in common/market\_data/adapter.py, where
  the one that closes the connection depends on the thread that calls it;
  the ticks it delivers are the calls of on\_tick.  Sets are lists without order.
\<close>

record 'a feed_port =
  fp_subscribe :: "string list \<Rightarrow> int option \<Rightarrow> int option \<Rightarrow> (unit, 'a) act"
  fp_request_stop :: "'a \<Rightarrow> 'a"
  fp_stop :: "nat \<Rightarrow> (unit, 'a) act"

record worker_channel =
  wch_strategy_id :: string
  wch_security_ids :: "string list"
  wch_queue :: bounded_queue
  wch_tick_queue :: "bounded_queue option"
  wch_dynamic_ids :: "string list"

definition wants :: "string \<Rightarrow> worker_channel \<Rightarrow> bool" where
  "wants sid c = (sid \<in> set (wch_security_ids c) \<or> sid \<in> set (wch_dynamic_ids c))"

type_synonym sub_request = "string \<times> string \<times> int option \<times> int option"

record 'a feed_hub =
  hb_adapter :: 'a
  hb_interval_seconds :: int
  hb_channels :: "worker_channel list"
  hb_aggregators :: "(string, aggregator) dict"
  hb_pending :: "sub_request list"
  hb_pending_since :: "int option"
  hb_last_drop_notice :: "(string, nat) dict"
  hb_tick_count :: nat
  hb_candle_count :: nat
  hb_ticks_published :: nat
  hb_gap_candles_discarded :: nat
  hb_subscriptions_applied :: nat
  hb_last_tick_at :: "datetime option"

definition new_feed_hub :: "'a \<Rightarrow> int \<Rightarrow> 'a feed_hub" where
  "new_feed_hub adapter interval =
     \<lparr>hb_adapter = adapter, hb_interval_seconds = interval, hb_channels = [], hb_aggregators = [], hb_pending = [],
      hb_pending_since = None, hb_last_drop_notice = [], hb_tick_count = 0, hb_candle_count = 0, hb_ticks_published = 0,
      hb_gap_candles_discarded = 0, hb_subscriptions_applied = 0, hb_last_tick_at = None\<rparr>"

section \<open>Wiring\<close>

definition build_channel :: "string \<Rightarrow> string list \<Rightarrow> int \<Rightarrow> bool \<Rightarrow> int \<Rightarrow> worker_channel result" where
  "build_channel strategy_id security_ids max_depth tick_channel tick_max_depth =
     bindE (new_bounded_queue strategy_id max_depth) (\<lambda>q.
     bindE (if tick_channel then bindE (new_bounded_queue (strategy_id @ '':ticks'') tick_max_depth) (\<lambda>t. Inr (Some t))
            else Inr None) (\<lambda>tick_q.
     Inr \<lparr>wch_strategy_id = strategy_id, wch_security_ids = security_ids, wch_queue = q, wch_tick_queue = tick_q,
          wch_dynamic_ids = []\<rparr>))"

definition register :: "worker_channel \<Rightarrow> (unit, 'a feed_hub) act" where
  "register channel h =
     (if list_ex (\<lambda>c. wch_strategy_id c = wch_strategy_id channel) (hb_channels h) then (Inl ValueError, h)
      else (Inr (), h\<lparr>hb_channels := hb_channels h @ [channel]\<rparr>))"

definition subscription_union :: "'a feed_hub \<Rightarrow> string list" where
  "subscription_union h = remdups (concat (map wch_security_ids (hb_channels h)))"

section \<open>Subscriptions at run time\<close>

definition request_subscription :: "int \<Rightarrow> sub_request \<Rightarrow> 'a feed_hub \<Rightarrow> 'a feed_hub" where
  "request_subscription monotonic r h =
     h\<lparr>hb_pending_since := (case hb_pending_since h of None \<Rightarrow> Some monotonic | since \<Rightarrow> since),
       hb_pending := hb_pending h @ [r]\<rparr>"

definition pending_subscription_age :: "int \<Rightarrow> 'a feed_hub \<Rightarrow> int" where
  "pending_subscription_age monotonic h =
     (case hb_pending_since h of
        None \<Rightarrow> 0
      | Some started \<Rightarrow> if hb_pending h = [] then 0 else max 0 (monotonic - started))"

fun update_first :: "('c \<Rightarrow> bool) \<Rightarrow> ('c \<Rightarrow> 'c) \<Rightarrow> 'c list \<Rightarrow> 'c list" where
  "update_first P f [] = []"
| "update_first P f (c # cs) = (if P c then f c # cs else c # update_first P f cs)"

definition hub_adapter_act :: "('r, 'a) act \<Rightarrow> ('r, 'a feed_hub) act" where
  "hub_adapter_act m h = (case m (hb_adapter h) of (r, a) \<Rightarrow> (r, h\<lparr>hb_adapter := a\<rparr>))"

definition route :: "string \<Rightarrow> worker_channel \<Rightarrow> worker_channel" where
  "route sid c = c\<lparr>wch_dynamic_ids := List.insert sid (wch_dynamic_ids c)\<rparr>"

definition apply_request :: "'a feed_port \<Rightarrow> sub_request \<Rightarrow> (unit, 'a feed_hub) act" where
  "apply_request p r h =
     (case r of (strategy_id, sid, segment, mode) \<Rightarrow>
        case find (\<lambda>c. wch_strategy_id c = strategy_id) (hb_channels h) of
          None \<Rightarrow> (Inr (), h)
        | Some channel \<Rightarrow>
            if wants sid channel then (Inr (), h)
            else
              let h1 = h\<lparr>hb_channels := update_first (\<lambda>c. wch_strategy_id c = strategy_id) (route sid) (hb_channels h)\<rparr> in
              andThen (hub_adapter_act (fp_subscribe p [sid] segment mode))
                (\<lambda>_ h. (Inr (), h\<lparr>hb_subscriptions_applied := hb_subscriptions_applied h + 1\<rparr>)) h1)"

fun apply_requests :: "'a feed_port \<Rightarrow> sub_request list \<Rightarrow> (unit, 'a feed_hub) act" where
  "apply_requests p [] h = (Inr (), h\<lparr>hb_pending := [], hb_pending_since := None\<rparr>)"
| "apply_requests p (r # rs) h = andThen (apply_request p r) (\<lambda>_. apply_requests p rs) (h\<lparr>hb_pending := rs\<rparr>)"

definition apply_pending :: "'a feed_port \<Rightarrow> (unit, 'a feed_hub) act" where
  "apply_pending p h = apply_requests p (hb_pending h) h"

definition drop_subscription :: "string \<Rightarrow> string \<Rightarrow> 'a feed_hub \<Rightarrow> 'a feed_hub" where
  "drop_subscription strategy_id sid h =
     h\<lparr>hb_channels := update_first (\<lambda>c. wch_strategy_id c = strategy_id)
         (\<lambda>c. c\<lparr>wch_dynamic_ids := filter (\<lambda>s. s \<noteq> sid) (wch_dynamic_ids c)\<rparr>) (hb_channels h)\<rparr>"

text \<open>SharedFeedHub.start up to the call of the adapter's own start.\<close>

definition start_hub :: "'a feed_port \<Rightarrow> (unit, 'a feed_hub) act" where
  "start_hub p h =
     (let union = subscription_union h in
      if union = [] then (Inl RuntimeError, h)
      else andThen (hub_adapter_act (fp_subscribe p (sort union) None None)) (\<lambda>_. apply_pending p) h)"

section \<open>The callback\<close>

definition publish_to :: "datetime \<Rightarrow> candle \<Rightarrow> worker_channel \<Rightarrow> worker_channel" where
  "publish_to now c ch =
     (if wants (cd_security_id c) ch then ch\<lparr>wch_queue := snd (publish now (Candle_Item c) (wch_queue ch))\<rparr> else ch)"

definition fan_out :: "datetime \<Rightarrow> candle \<Rightarrow> 'a feed_hub \<Rightarrow> 'a feed_hub" where
  "fan_out now c h =
     h\<lparr>hb_candle_count := hb_candle_count h + 1, hb_channels := map (publish_to now c) (hb_channels h)\<rparr>"

definition noted_of :: "(string, nat) dict \<Rightarrow> worker_channel \<Rightarrow> nat" where
  "noted_of d ch = (case dict_get d (wch_strategy_id ch) of None \<Rightarrow> 0 | Some n \<Rightarrow> n)"

text \<open>The loop of _fan_out_tick: the channels, the drop notices and the count of ticks published.\<close>

fun fan_ticks ::
  "datetime \<Rightarrow> tick \<Rightarrow> worker_channel list \<Rightarrow> (string, nat) dict \<Rightarrow> nat \<Rightarrow> worker_channel list \<times> (string, nat) dict \<times> nat" where
  "fan_ticks now t [] d n = ([], d, n)"
| "fan_ticks now t (ch # chs) d n =
     (case wch_tick_queue ch of
        Some q \<Rightarrow>
          if wants (tk_security_id t) ch
          then
            case send_tick now t (q, noted_of d ch) of (q1, noted) \<Rightarrow>
              case fan_ticks now t chs (if noted = noted_of d ch then d else dict_set (wch_strategy_id ch) noted d) (n + 1) of
                (chs1, d1, n1) \<Rightarrow> (ch\<lparr>wch_tick_queue := Some q1\<rparr> # chs1, d1, n1)
          else (case fan_ticks now t chs d n of (chs1, d1, n1) \<Rightarrow> (ch # chs1, d1, n1))
      | None \<Rightarrow> (case fan_ticks now t chs d n of (chs1, d1, n1) \<Rightarrow> (ch # chs1, d1, n1)))"

definition fan_out_tick :: "datetime \<Rightarrow> tick \<Rightarrow> 'a feed_hub \<Rightarrow> 'a feed_hub" where
  "fan_out_tick now t h =
     (case fan_ticks now t (hb_channels h) (hb_last_drop_notice h) (hb_ticks_published h) of
        (chs, d, n) \<Rightarrow> h\<lparr>hb_channels := chs, hb_last_drop_notice := d, hb_ticks_published := n\<rparr>)"

definition aggregator_for :: "int \<Rightarrow> string \<Rightarrow> (string, aggregator) dict \<Rightarrow> aggregator" where
  "aggregator_for interval sid d =
     (case dict_get d sid of None \<Rightarrow> new_aggregator interval default_session_window | Some a \<Rightarrow> a)"

definition hub_on_tick :: "'a feed_port \<Rightarrow> datetime \<Rightarrow> tick \<Rightarrow> (unit, 'a feed_hub) act" where
  "hub_on_tick p now t =
     andThen (apply_pending p) (\<lambda>_ h.
       let h1 = h\<lparr>hb_tick_count := hb_tick_count h + 1, hb_last_tick_at := Some (tk_exchange_time t)\<rparr>;
           sid = tk_security_id t
       in case add_tick t (aggregator_for (hb_interval_seconds h1) sid (hb_aggregators h1)) of
            (r, a) \<Rightarrow>
              let h2 = h1\<lparr>hb_aggregators := dict_set sid a (hb_aggregators h1)\<rparr> in
              case r of
                Inl e \<Rightarrow> (Inl e, h2)
              | Inr None \<Rightarrow> (Inr (), fan_out_tick now t h2)
              | Inr (Some c) \<Rightarrow> (Inr (), fan_out_tick now t (fan_out now c h2)))"

section \<open>Stopping, gaps and health\<close>

definition hub_request_stop :: "'a feed_port \<Rightarrow> 'a feed_hub \<Rightarrow> 'a feed_hub" where
  "hub_request_stop p h = h\<lparr>hb_adapter := fp_request_stop p (hb_adapter h)\<rparr>"

fun flush_aggregators :: "datetime \<Rightarrow> string list \<Rightarrow> (unit, 'a feed_hub) act" where
  "flush_aggregators now [] h = (Inr (), h)"
| "flush_aggregators now (sid # sids) h =
     (case dict_get (hb_aggregators h) sid of
        None \<Rightarrow> flush_aggregators now sids h
      | Some a \<Rightarrow>
          (case flush (Some sid) a of
             (cs, e, a1) \<Rightarrow>
               let h1 = h\<lparr>hb_aggregators := dict_set sid a1 (hb_aggregators h)\<rparr> in
               case e of
                 Some x \<Rightarrow> (Inl x, h1)
               | None \<Rightarrow> flush_aggregators now sids (fold (fan_out now) cs h1)))"

definition stop_hub :: "'a feed_port \<Rightarrow> nat \<Rightarrow> datetime \<Rightarrow> (unit, 'a feed_hub) act" where
  "stop_hub p thread now =
     andThen (hub_adapter_act (fp_stop p thread)) (\<lambda>_ h. flush_aggregators now (map fst (hb_aggregators h)) h)"

definition mark_gap_of :: "string \<Rightarrow> aggregator \<Rightarrow> nat \<times> aggregator" where
  "mark_gap_of sid a = mark_feed_gap (Some sid) a"

definition mark_hub_gap :: "'a feed_hub \<Rightarrow> nat \<times> 'a feed_hub" where
  "mark_hub_gap h =
     (let discarded = sum_list (map (\<lambda>(sid, a). fst (mark_gap_of sid a)) (hb_aggregators h)) in
      (discarded,
       h\<lparr>hb_aggregators := map (\<lambda>(sid, a). (sid, snd (mark_gap_of sid a))) (hb_aggregators h),
         hb_gap_candles_discarded := hb_gap_candles_discarded h + discarded\<rparr>))"

definition all_queue_stats :: "'a feed_hub \<Rightarrow> queue_stats list" where
  "all_queue_stats h =
     concat (map (\<lambda>c. stats_of (wch_queue c) # (case wch_tick_queue c of None \<Rightarrow> [] | Some q \<Rightarrow> [stats_of q])) (hb_channels h))"

section \<open>What one worker sees\<close>

text \<open>The part of one tick that concerns one worker: its channel, and the drop total it was last told of.\<close>

definition tick_step :: "datetime \<Rightarrow> tick \<Rightarrow> worker_channel \<times> nat \<Rightarrow> worker_channel \<times> nat" where
  "tick_step now t st =
     (case st of (ch, noted) \<Rightarrow>
        case wch_tick_queue ch of
          None \<Rightarrow> (ch, noted)
        | Some q \<Rightarrow>
            if wants (tk_security_id t) ch
            then (case send_tick now t (q, noted) of (q1, noted1) \<Rightarrow> (ch\<lparr>wch_tick_queue := Some q1\<rparr>, noted1))
            else (ch, noted))"

definition channel_step :: "datetime \<Rightarrow> candle option \<times> tick \<Rightarrow> worker_channel \<times> nat \<Rightarrow> worker_channel \<times> nat" where
  "channel_step now x st =
     (case x of (c, t) \<Rightarrow> tick_step now t (case c of None \<Rightarrow> st | Some c \<Rightarrow> map_prod (publish_to now c) id st))"

text \<open>The candles the aggregators make of the ticks, whoever is registered.\<close>

fun shared_bars :: "int \<Rightarrow> tick list \<Rightarrow> (string, aggregator) dict \<Rightarrow> (candle option \<times> tick) list" where
  "shared_bars interval [] d = []"
| "shared_bars interval (t # ts) d =
     (case add_tick t (aggregator_for interval (tk_security_id t) d) of
        (r, a) \<Rightarrow>
          (case r of Inl _ \<Rightarrow> None | Inr c \<Rightarrow> c, t) # shared_bars interval ts (dict_set (tk_security_id t) a d))"

fun run_hub :: "'a feed_port \<Rightarrow> datetime \<Rightarrow> tick list \<Rightarrow> (unit, 'a feed_hub) act" where
  "run_hub p now [] h = (Inr (), h)"
| "run_hub p now (t # ts) h = andThen (hub_on_tick p now t) (\<lambda>_. run_hub p now ts) h"

definition seen_by :: "'a feed_hub \<Rightarrow> nat \<Rightarrow> worker_channel \<times> nat" where
  "seen_by h i = (hb_channels h ! i, noted_of (hb_last_drop_notice h) (hb_channels h ! i))"

definition ids_distinct :: "worker_channel list \<Rightarrow> bool" where
  "ids_distinct chs = distinct (map wch_strategy_id chs)"

lemma tick_step_id [simp]: "wch_strategy_id (fst (tick_step now t (ch, n))) = wch_strategy_id ch"
  by (simp add: tick_step_def split: option.split prod.split)

lemma publish_to_id [simp]: "wch_strategy_id (publish_to now c ch) = wch_strategy_id ch"
  "wch_tick_queue (publish_to now c ch) = wch_tick_queue ch" "wants sid (publish_to now c ch) = wants sid ch"
  by (simp_all add: publish_to_def wants_def)

lemma noted_of_set: "noted_of (dict_set k n d) ch = (if k = wch_strategy_id ch then n else noted_of d ch)"
  by (simp add: noted_of_def)

lemma noted_of_cong: "wch_strategy_id ch = wch_strategy_id ch' \<Longrightarrow> noted_of d ch = noted_of d ch'"
  by (simp add: noted_of_def)

text \<open>One channel of the loop, as a step of its own.\<close>

lemma fan_ticks_Cons:
  "fan_ticks now t (ch # chs) d n =
     (case tick_step now t (ch, noted_of d ch) of (ch1, noted) \<Rightarrow>
        case fan_ticks now t chs (if noted = noted_of d ch then d else dict_set (wch_strategy_id ch) noted d)
               (if wch_tick_queue ch \<noteq> None \<and> wants (tk_security_id t) ch then n + 1 else n) of
          (chs1, d1, n1) \<Rightarrow> (ch1 # chs1, d1, n1))"
  by (cases "wch_tick_queue ch") (auto simp: tick_step_def split: prod.split)

lemma fan_ticks_steps:
  "fan_ticks now t chs d n = (chs1, d1, n1) \<Longrightarrow> ids_distinct chs \<Longrightarrow>
     chs1 = map (\<lambda>ch. fst (tick_step now t (ch, noted_of d ch))) chs
     \<and> (\<forall>ch. noted_of d1 ch = (case find (\<lambda>c. wch_strategy_id c = wch_strategy_id ch) chs of
                                None \<Rightarrow> noted_of d ch | Some c \<Rightarrow> snd (tick_step now t (c, noted_of d c))))"
proof (induction chs arbitrary: d n chs1)
  case (Cons c chs)
  obtain c1 noted where s: "tick_step now t (c, noted_of d c) = (c1, noted)" by fastforce
  let ?d = "if noted = noted_of d c then d else dict_set (wch_strategy_id c) noted d"
  obtain n' chs2 where f: "fan_ticks now t chs ?d n' = (chs2, d1, n1)" "chs1 = c1 # chs2"
    using Cons.prems(1) by (auto simp: fan_ticks_Cons s simp del: fan_ticks.simps split: prod.splits)
  have i: "ids_distinct chs" "wch_strategy_id c \<notin> wch_strategy_id ` set chs" using Cons.prems(2) by (auto simp: ids_distinct_def)
  have nd: "noted_of ?d ch = (if wch_strategy_id ch = wch_strategy_id c then noted else noted_of d ch)" for ch
    using noted_of_cong [of ch c d] by (auto simp: noted_of_set)
  have same: "noted_of ?d ch = noted_of d ch" if "ch \<in> set chs" for ch
    using that i(2) nd [of ch] by (metis imageI)
  have none: "find (\<lambda>c'. wch_strategy_id c' = wch_strategy_id ch) chs = None" if "wch_strategy_id ch = wch_strategy_id c" for ch
    unfolding find_None_iff using that i(2) by (metis imageI)
  note ih = Cons.IH [OF f(1) i(1)]
  have "chs1 = map (\<lambda>ch. fst (tick_step now t (ch, noted_of d ch))) (c # chs)"
    using ih f(2) s same by auto
  moreover have "noted_of d1 ch = (case find (\<lambda>c. wch_strategy_id c = wch_strategy_id ch) (c # chs) of
      None \<Rightarrow> noted_of d ch | Some c \<Rightarrow> snd (tick_step now t (c, noted_of d c)))" for ch
    using conjunct2 [OF ih, THEN spec, of ch] nd [of ch] none [of ch] s same find_SomeD [of _ chs]
    by (auto split: option.splits)
  ultimately show ?case by blast
qed simp

lemma find_own: "ids_distinct chs \<Longrightarrow> ch \<in> set chs \<Longrightarrow> find (\<lambda>c. wch_strategy_id c = wch_strategy_id ch) chs = Some ch"
  by (induction chs) (auto simp: ids_distinct_def)

lemma fan_out_tick_seen:
  assumes "ids_distinct (hb_channels h)" "i < length (hb_channels h)"
  shows "seen_by (fan_out_tick now t h) i = tick_step now t (seen_by h i)
    \<and> length (hb_channels (fan_out_tick now t h)) = length (hb_channels h)
    \<and> map wch_strategy_id (hb_channels (fan_out_tick now t h)) = map wch_strategy_id (hb_channels h)"
proof -
  obtain chs d n where f: "fan_ticks now t (hb_channels h) (hb_last_drop_notice h) (hb_ticks_published h) = (chs, d, n)"
    using prod_cases3 by blast
  note s = fan_ticks_steps [OF f assms(1)]
  let ?ch = "hb_channels h ! i"
  have "noted_of d (fst (tick_step now t (?ch, noted_of (hb_last_drop_notice h) ?ch)))
      = snd (tick_step now t (?ch, noted_of (hb_last_drop_notice h) ?ch))"
    using conjunct2 [OF s] find_own [OF assms(1), of ?ch] assms(2) by simp
  then show ?thesis using s assms(2) by (simp add: seen_by_def fan_out_tick_def f comp_def)
qed

lemma fan_out_seen:
  "i < length (hb_channels h) \<Longrightarrow> seen_by (fan_out now c h) i = map_prod (publish_to now c) id (seen_by h i)"
  by (simp add: seen_by_def fan_out_def noted_of_def)

lemma fan_out_ids [simp]:
  "map wch_strategy_id (hb_channels (fan_out now c h)) = map wch_strategy_id (hb_channels h)"
  "length (hb_channels (fan_out now c h)) = length (hb_channels h)"
  "hb_pending (fan_out now c h) = hb_pending h" "hb_aggregators (fan_out now c h) = hb_aggregators h"
  "hb_interval_seconds (fan_out now c h) = hb_interval_seconds h"
  by (simp_all add: fan_out_def comp_def)

lemma fan_out_tick_same [simp]:
  "hb_pending (fan_out_tick now t h) = hb_pending h" "hb_aggregators (fan_out_tick now t h) = hb_aggregators h"
  "hb_interval_seconds (fan_out_tick now t h) = hb_interval_seconds h"
  by (simp_all add: fan_out_tick_def split: prod.split)

lemma ids_distinct_fan: "ids_distinct (hb_channels (fan_out now c h)) = ids_distinct (hb_channels h)"
  by (simp add: ids_distinct_def)

lemma fan_out_tick_ids:
  "ids_distinct (hb_channels h) \<Longrightarrow> map wch_strategy_id (hb_channels (fan_out_tick now t h)) = map wch_strategy_id (hb_channels h)"
proof -
  assume d: "ids_distinct (hb_channels h)"
  obtain chs d1 n where f: "fan_ticks now t (hb_channels h) (hb_last_drop_notice h) (hb_ticks_published h) = (chs, d1, n)"
    using prod_cases3 by blast
  from fan_ticks_steps [OF f d] show ?thesis by (simp add: fan_out_tick_def f comp_def)
qed

text \<open>What a tick makes of the hub when nothing is pending.\<close>

definition ticked :: "datetime \<Rightarrow> tick \<Rightarrow> candle option \<Rightarrow> aggregator \<Rightarrow> 'a feed_hub \<Rightarrow> 'a feed_hub" where
  "ticked now t c a h =
     (let h2 = h\<lparr>hb_pending := [], hb_pending_since := None, hb_tick_count := hb_tick_count h + 1,
                 hb_last_tick_at := Some (tk_exchange_time t),
                 hb_aggregators := dict_set (tk_security_id t) a (hb_aggregators h)\<rparr>
      in fan_out_tick now t (case c of None \<Rightarrow> h2 | Some c \<Rightarrow> fan_out now c h2))"

lemma hub_on_tick_ticked:
  "hb_pending h = [] \<Longrightarrow> add_tick t (aggregator_for (hb_interval_seconds h) (tk_security_id t) (hb_aggregators h)) = (Inr c, a)
    \<Longrightarrow> hub_on_tick p now t h = (Inr (), ticked now t c a h)"
  by (simp add: hub_on_tick_def apply_pending_def andThen_def Let_def ticked_def split: option.split)

lemma ticked_kept:
  assumes "ids_distinct (hb_channels h)"
  shows "hb_pending (ticked now t c a h) = []" "ids_distinct (hb_channels (ticked now t c a h))"
    "length (hb_channels (ticked now t c a h)) = length (hb_channels h)"
    "hb_aggregators (ticked now t c a h) = dict_set (tk_security_id t) a (hb_aggregators h)"
    "hb_interval_seconds (ticked now t c a h) = hb_interval_seconds h"
proof -
  have "map wch_strategy_id (hb_channels (ticked now t c a h)) = map wch_strategy_id (hb_channels h)"
    using assms by (simp add: ticked_def Let_def fan_out_tick_ids ids_distinct_def split: option.split)
  then show "ids_distinct (hb_channels (ticked now t c a h))"
    "length (hb_channels (ticked now t c a h)) = length (hb_channels h)"
    using assms by (simp add: ids_distinct_def, metis length_map)
qed (simp_all add: ticked_def Let_def split: option.split)

lemma ticked_seen:
  assumes "ids_distinct (hb_channels h)" "i < length (hb_channels h)"
  shows "seen_by (ticked now t c a h) i = channel_step now (c, t) (seen_by h i)"
proof -
  define h2 where "h2 = h\<lparr>hb_pending := [], hb_pending_since := None, hb_tick_count := hb_tick_count h + 1,
    hb_last_tick_at := Some (tk_exchange_time t), hb_aggregators := dict_set (tk_security_id t) a (hb_aggregators h)\<rparr>"
  have "hb_channels h2 = hb_channels h" "seen_by h2 i = seen_by h i" by (simp_all add: h2_def seen_by_def)
  then show ?thesis unfolding ticked_def h2_def [symmetric] Let_def
    using assms fan_out_tick_seen [of h2 i now t] fan_out_tick_seen [of "fan_out now (the c) h2" i now t]
      fan_out_seen [of i h2 now "the c"]
    by (cases c) (simp_all add: channel_step_def ids_distinct_fan)
qed

definition aggs_ok :: "(string, aggregator) dict \<Rightarrow> bool" where
  "aggs_ok d = (\<forall>a \<in> snd ` set d. \<exists>out. agg_inv a out)"

lemma aggs_ok_tick:
  assumes "aggs_ok d" "0 < interval"
  shows "\<exists>c a. add_tick t (aggregator_for interval sid d) = (Inr c, a) \<and> aggs_ok (dict_set sid a d)"
proof -
  have "\<exists>out. agg_inv (aggregator_for interval sid d) out"
    using assms agg_run_inv [OF agg_created] map_of_SomeD [of d sid]
    by (fastforce simp: aggregator_for_def aggs_ok_def split: option.split)
  then obtain out c a where "add_tick t (aggregator_for interval sid d) = (Inr c, a)" "agg_inv a (out @ opt_list c)"
    using add_tick_inv by blast
  then show ?thesis using assms(1) dict_set_values [of sid a d] by (fastforce simp: aggs_ok_def)
qed

text \<open>A hub with its workers registered, nothing pending, and no tick seen that its aggregators did not take in order.\<close>

definition hub_ready :: "'a feed_hub \<Rightarrow> bool" where
  "hub_ready h = (0 < hb_interval_seconds h \<and> aggs_ok (hb_aggregators h) \<and> hb_pending h = [] \<and> ids_distinct (hb_channels h))"

lemma run_hub_seen:
  assumes "hub_ready h"
  shows "\<exists>h1. run_hub p now ts h = (Inr (), h1) \<and> hub_ready h1 \<and> length (hb_channels h1) = length (hb_channels h)
    \<and> (\<forall>i < length (hb_channels h). seen_by h1 i
         = fold (channel_step now) (shared_bars (hb_interval_seconds h) ts (hb_aggregators h)) (seen_by h i))"
  using assms
proof (induction ts arbitrary: h)
  case (Cons t ts)
  let ?d = "hb_aggregators h" and ?n = "hb_interval_seconds h"
  note r = Cons.prems [unfolded hub_ready_def]
  obtain c a where a: "add_tick t (aggregator_for ?n (tk_security_id t) ?d) = (Inr c, a)"
    "aggs_ok (dict_set (tk_security_id t) a ?d)" using aggs_ok_tick r by blast
  let ?h = "ticked now t c a h"
  have t: "hub_on_tick p now t h = (Inr (), ?h)" using r a(1) by (intro hub_on_tick_ticked) simp_all
  have k: "hub_ready ?h" using r a(2) by (simp add: hub_ready_def ticked_kept)
  from Cons.IH [OF k] r a(1) show ?case by (auto simp: andThen_def t ticked_kept ticked_seen)
qed simp

section \<open>Requests among the ticks\<close>

text \<open>What one request changes of one channel: the routing of the worker that made it.\<close>

definition own_route :: "sub_request \<Rightarrow> worker_channel \<Rightarrow> worker_channel" where
  "own_route r c =
     (case r of (strategy_id, sid, segment, mode) \<Rightarrow>
        if wch_strategy_id c = strategy_id \<and> \<not> wants sid c then route sid c else c)"

lemma own_route_same [simp]:
  "wch_strategy_id (own_route r c) = wch_strategy_id c" "wch_tick_queue (own_route r c) = wch_tick_queue c"
  "wch_queue (own_route r c) = wch_queue c"
  by (simp_all add: own_route_def route_def split: prod.split)

lemma own_routes_same [simp]:
  "wch_strategy_id (fold own_route rs c) = wch_strategy_id c" "wch_tick_queue (fold own_route rs c) = wch_tick_queue c"
  "wch_queue (fold own_route rs c) = wch_queue c"
  by (induction rs arbitrary: c) simp_all

lemma update_first_map:
  assumes "ids_distinct cs" "find (\<lambda>c. wch_strategy_id c = k) cs = Some c"
  shows "update_first (\<lambda>c. wch_strategy_id c = k) f cs = map (\<lambda>c. if wch_strategy_id c = k then f c else c) cs"
  using assms
proof (induction cs)
  case (Cons x cs)
  show ?case
  proof (cases "wch_strategy_id x = k")
    case True
    with Cons(2) have "\<forall>c \<in> set cs. wch_strategy_id c \<noteq> k"
      by (simp add: ids_distinct_def) (metis imageI)
    then have "map (\<lambda>c. if wch_strategy_id c = k then f c else c) cs = cs" by (simp add: map_idI)
    with True show ?thesis by simp
  next
    case False
    with Cons show ?thesis by (simp add: ids_distinct_def)
  qed
qed simp

text \<open>The hub with its pending requests and its adapter aside.\<close>

definition same_feed :: "'a feed_hub \<Rightarrow> 'a feed_hub \<Rightarrow> bool" where
  "same_feed h h1 =
     (hb_aggregators h1 = hb_aggregators h \<and> hb_interval_seconds h1 = hb_interval_seconds h
      \<and> hb_last_drop_notice h1 = hb_last_drop_notice h \<and> hb_tick_count h1 = hb_tick_count h
      \<and> hb_candle_count h1 = hb_candle_count h \<and> hb_ticks_published h1 = hb_ticks_published h)"

definition accepts :: "'a feed_port \<Rightarrow> bool" where
  "accepts p = (\<forall>sids segment mode a. \<exists>a1. fp_subscribe p sids segment mode a = (Inr (), a1))"

lemma apply_request_routes:
  assumes "ids_distinct (hb_channels h)" "apply_request p r h = (x, h1)"
  shows "hb_channels h1 = map (own_route r) (hb_channels h) \<and> same_feed h h1 \<and> hb_pending h1 = hb_pending h
    \<and> (accepts p \<longrightarrow> x = Inr ())"
proof -
  obtain k sid segment mode where r: "r = (k, sid, segment, mode)" by (metis surj_pair)
  show ?thesis
  proof (cases "find (\<lambda>c. wch_strategy_id c = k) (hb_channels h)")
    case None
    then have "map (own_route r) (hb_channels h) = hb_channels h"
      by (intro map_idI) (auto simp: find_None_iff own_route_def r)
    with None assms(2) show ?thesis by (simp add: apply_request_def r same_feed_def)
  next
    case (Some c)
    have own: "c' = c" if "c' \<in> set (hb_channels h)" "wch_strategy_id c' = k" for c'
      using find_own [OF assms(1) that(1)] that(2) Some by simp
    show ?thesis
    proof (cases "wants sid c")
      case True
      then have "map (own_route r) (hb_channels h) = hb_channels h"
        using own by (intro map_idI) (auto simp: own_route_def r)
      with Some True assms(2) show ?thesis by (simp add: apply_request_def r same_feed_def)
    next
      case False
      have m: "update_first (\<lambda>c. wch_strategy_id c = k) (route sid) (hb_channels h) = map (own_route r) (hb_channels h)"
        unfolding update_first_map [OF assms(1) Some] using own False by (auto simp: own_route_def r)
      show ?thesis
        using assms(2) Some False
        by (auto simp: apply_request_def r Let_def m andThen_def hub_adapter_act_def same_feed_def accepts_def
            split: prod.splits sum.splits) (metis Inr_not_Inl prod.inject)+
    qed
  qed
qed

lemma apply_requests_routes:
  assumes "ids_distinct (hb_channels h)" "apply_requests p rs h = (x, h1)"
  shows "\<exists>n \<le> length rs. hb_channels h1 = map (fold own_route (take n rs)) (hb_channels h) \<and> same_feed h h1
    \<and> (accepts p \<longrightarrow> x = Inr ())
    \<and> (case x of Inl e \<Rightarrow> 0 < n \<and> hb_pending h1 = drop n rs
       | Inr _ \<Rightarrow> n = length rs \<and> hb_pending h1 = [] \<and> hb_pending_since h1 = None)"
  using assms
proof (induction rs arbitrary: h)
  case Nil
  then show ?case by (auto simp: same_feed_def)
next
  case (Cons r rs)
  obtain y h2 where a: "apply_request p r (h\<lparr>hb_pending := rs\<rparr>) = (y, h2)" by fastforce
  have "ids_distinct (hb_channels (h\<lparr>hb_pending := rs\<rparr>))" using Cons(2) by simp
  from apply_request_routes [OF this a] have s: "hb_channels h2 = map (own_route r) (hb_channels h)" "same_feed h h2"
    "hb_pending h2 = rs" "accepts p \<longrightarrow> y = Inr ()" by (simp_all add: same_feed_def)
  show ?case
  proof (cases y)
    case (Inl e)
    with Cons(3) a have "x = Inl e" "h1 = h2" by (simp_all add: andThen_def)
    with s Inl show ?thesis by (intro exI [of _ 1]) simp
  next
    case (Inr u)
    with Cons(3) a have next_: "apply_requests p rs h2 = (x, h1)" by (simp add: andThen_def)
    have "ids_distinct (hb_channels h2)" using Cons(2) by (simp add: s(1) ids_distinct_def comp_def)
    from Cons(1) [OF this next_] obtain n where n: "n \<le> length rs"
      "hb_channels h1 = map (fold own_route (take n rs)) (hb_channels h2)" "same_feed h2 h1" "accepts p \<longrightarrow> x = Inr ()"
      "case x of Inl e \<Rightarrow> 0 < n \<and> hb_pending h1 = drop n rs
       | Inr _ \<Rightarrow> n = length rs \<and> hb_pending h1 = [] \<and> hb_pending_since h1 = None" by blast
    then show ?thesis using s
      by (intro exI [of _ "Suc n"]) (auto simp: same_feed_def split: sum.splits)
  qed
qed

text \<open>One tick, whatever is pending: the requests, then the tick unless one of them raised.\<close>

lemma hub_on_tick_cases:
  assumes h: "0 < hb_interval_seconds h" "aggs_ok (hb_aggregators h)" "ids_distinct (hb_channels h)"
    and t: "hub_on_tick p now t h = (r, h1)"
  obtains (refused) n e where "n \<le> length (hb_pending h)" "0 < n" "r = Inl e" "\<not> accepts p"
      "hb_channels h1 = map (fold own_route (take n (hb_pending h))) (hb_channels h)" "same_feed h h1"
      "hb_pending h1 = drop n (hb_pending h)"
  | (taken) h2 c a where "r = Inr ()" "hb_channels h2 = map (fold own_route (hb_pending h)) (hb_channels h)"
      "same_feed h h2" "hb_pending h2 = []" "hb_pending_since h2 = None"
      "add_tick t (aggregator_for (hb_interval_seconds h) (tk_security_id t) (hb_aggregators h)) = (Inr c, a)"
      "aggs_ok (dict_set (tk_security_id t) a (hb_aggregators h))" "h1 = ticked now t c a h2"
proof -
  obtain x h2 where ap: "apply_requests p (hb_pending h) h = (x, h2)" by fastforce
  obtain n where n: "n \<le> length (hb_pending h)"
    "hb_channels h2 = map (fold own_route (take n (hb_pending h))) (hb_channels h)" "same_feed h h2" "accepts p \<longrightarrow> x = Inr ()"
    "case x of Inl e \<Rightarrow> 0 < n \<and> hb_pending h2 = drop n (hb_pending h)
       | Inr _ \<Rightarrow> n = length (hb_pending h) \<and> hb_pending h2 = [] \<and> hb_pending_since h2 = None"
    using apply_requests_routes [OF h(3) ap] by blast
  show thesis
  proof (cases x)
    case (Inl e)
    then have "r = Inl e" "h1 = h2" using t ap by (simp_all add: hub_on_tick_def apply_pending_def andThen_def)
    with n Inl show ?thesis by (intro refused [of n e]) auto
  next
    case (Inr u)
    with n have p: "n = length (hb_pending h)" "hb_pending h2 = []" "hb_pending_since h2 = None" by simp_all
    then have "h2\<lparr>hb_pending := [], hb_pending_since := None\<rparr> = h2" by (cases h2) simp
    then have "apply_pending p h2 = (Inr (), h2)" "apply_pending p h = (Inr (), h2)"
      using ap Inr p(2) by (simp_all add: apply_pending_def)
    then have same: "hub_on_tick p now t h = hub_on_tick p now t h2"
      unfolding hub_on_tick_def andThen_def by (simp only: prod.case sum.case)
    obtain c a where a: "add_tick t (aggregator_for (hb_interval_seconds h) (tk_security_id t) (hb_aggregators h)) = (Inr c, a)"
      "aggs_ok (dict_set (tk_security_id t) a (hb_aggregators h))" using aggs_ok_tick h(1,2) by blast
    have "hub_on_tick p now t h2 = (Inr (), ticked now t c a h2)"
      using a(1) n(3) p by (intro hub_on_tick_ticked) (simp_all add: same_feed_def)
    with t same have "r = Inr ()" "h1 = ticked now t c a h2" by simp_all
    with n p a show ?thesis by (intro taken [of h2 c a]) simp_all
  qed
qed

section \<open>A running hub\<close>

text \<open>
  What happens to a hub while its feed runs: a tick arrives, whether or not the
  callback raises; a thread asks for an instrument; a routing is dropped; the feed
  reports a gap; the adapter changes by itself; a worker takes the next item of its
  candle queue or of its tick queue.
\<close>

datatype 'a hub_event =
    Tick_Arrives datetime tick
  | Asks int sub_request
  | Unroutes string string
  | Gap_Seen
  | Adapter_Moves 'a
  | Reads_Candle nat
  | Reads_Tick nat

definition read_candle :: "worker_channel \<Rightarrow> worker_channel" where
  "read_candle ch = ch\<lparr>wch_queue := snd (get_item (wch_queue ch))\<rparr>"

definition read_tick :: "worker_channel \<Rightarrow> worker_channel" where
  "read_tick ch = ch\<lparr>wch_tick_queue := map_option (\<lambda>q. snd (get_item q)) (wch_tick_queue ch)\<rparr>"

definition at_channel :: "nat \<Rightarrow> (worker_channel \<Rightarrow> worker_channel) \<Rightarrow> 'a feed_hub \<Rightarrow> 'a feed_hub" where
  "at_channel i f h =
     (if i < length (hb_channels h) then h\<lparr>hb_channels := (hb_channels h)[i := f (hb_channels h ! i)]\<rparr> else h)"

fun hub_step :: "'a feed_port \<Rightarrow> 'a hub_event \<Rightarrow> 'a feed_hub \<Rightarrow> 'a feed_hub" where
  "hub_step p (Tick_Arrives now t) h = snd (hub_on_tick p now t h)"
| "hub_step p (Asks monotonic r) h = request_subscription monotonic r h"
| "hub_step p (Unroutes strategy_id sid) h = drop_subscription strategy_id sid h"
| "hub_step p Gap_Seen h = snd (mark_hub_gap h)"
| "hub_step p (Adapter_Moves a) h = h\<lparr>hb_adapter := a\<rparr>"
| "hub_step p (Reads_Candle i) h = at_channel i read_candle h"
| "hub_step p (Reads_Tick i) h = at_channel i read_tick h"

text \<open>The hubs of a group: built, its workers registered, started, and run.\<close>

inductive hub_reach :: "'a feed_port \<Rightarrow> 'a feed_hub \<Rightarrow> bool" for p where
  hr_new: "0 < interval \<Longrightarrow> hub_reach p (new_feed_hub a interval)"
| hr_register: "hub_reach p h \<Longrightarrow> build_channel k ids depth ticks tick_depth = Inr ch \<Longrightarrow>
     register ch h = (Inr (), h1) \<Longrightarrow> hub_reach p h1"
| hr_start: "hub_reach p h \<Longrightarrow> start_hub p h = (r, h1) \<Longrightarrow> hub_reach p h1"
| hr_event: "hub_reach p h \<Longrightarrow> hub_reach p (hub_step p e h)"

text \<open>What one worker's tick channel keeps, and what the hub keeps.\<close>

definition view_ok :: "worker_channel \<times> nat \<Rightarrow> bool" where
  "view_ok st =
     (case st of (ch, noted) \<Rightarrow>
        case wch_tick_queue ch of None \<Rightarrow> True | Some q \<Rightarrow> queue_ok q \<and> noted \<le> bq_dropped q)"

definition hub_inv :: "'a feed_hub \<Rightarrow> bool" where
  "hub_inv h =
     (0 < hb_interval_seconds h \<and> aggs_ok (hb_aggregators h) \<and> ids_distinct (hb_channels h)
      \<and> (\<forall>i < length (hb_channels h). view_ok (seen_by h i))
      \<and> (\<forall>ch. wch_strategy_id ch \<notin> wch_strategy_id ` set (hb_channels h) \<longrightarrow> noted_of (hb_last_drop_notice h) ch = 0))"

lemma same_feed_seen:
  assumes "same_feed h h1" "hb_channels h1 = map (fold own_route rs) (hb_channels h)" "i < length (hb_channels h)"
  shows "seen_by h1 i = map_prod (fold own_route rs) id (seen_by h i)"
  using assms by (simp add: seen_by_def same_feed_def noted_of_def)

lemma view_ok_routes [simp]: "view_ok (map_prod (fold own_route rs) id st) = view_ok st"
  by (cases st) (simp add: view_ok_def)

lemma view_ok_channel_step: "view_ok st \<Longrightarrow> view_ok (channel_step now (c, t) st)"
proof -
  assume st: "view_ok st"
  obtain ch n where s: "(case c of None \<Rightarrow> st | Some c \<Rightarrow> map_prod (publish_to now c) id st) = (ch, n)" by fastforce
  have v: "view_ok (ch, n)" unfolding s [symmetric] using st by (cases st; cases c) (simp_all add: view_ok_def)
  show ?thesis
  proof (cases "wch_tick_queue ch")
    case None
    with v show ?thesis by (simp add: channel_step_def s tick_step_def)
  next
    case (Some q)
    obtain q1 n1 where q1: "send_tick now t (q, n) = (q1, n1)" by fastforce
    from v Some have "queue_ok q" "n \<le> bq_dropped q" by (simp_all add: view_ok_def)
    with send_tick_monotone [OF _ q1] v Some show ?thesis
      by (auto simp: channel_step_def s tick_step_def q1 view_ok_def)
  qed
qed

lemma ticked_notes:
  assumes "ids_distinct (hb_channels h)" "wch_strategy_id ch \<notin> wch_strategy_id ` set (hb_channels h)"
  shows "noted_of (hb_last_drop_notice (ticked now t c a h)) ch = noted_of (hb_last_drop_notice h) ch"
proof -
  have keep: "noted_of (hb_last_drop_notice (fan_out_tick now t g)) ch = noted_of (hb_last_drop_notice g) ch"
    if "ids_distinct (hb_channels g)" "wch_strategy_id ch \<notin> wch_strategy_id ` set (hb_channels g)" for g :: "'a feed_hub"
  proof -
    obtain chs d n where f: "fan_ticks now t (hb_channels g) (hb_last_drop_notice g) (hb_ticks_published g) = (chs, d, n)"
      using prod_cases3 by blast
    have "find (\<lambda>c. wch_strategy_id c = wch_strategy_id ch) (hb_channels g) = None"
      using that(2) by (auto simp: find_None_iff image_iff)
    with fan_ticks_steps [OF f that(1)] show ?thesis by (simp add: fan_out_tick_def f)
  qed
  have ids: "wch_strategy_id ` set (hb_channels (fan_out now x g)) = wch_strategy_id ` set (hb_channels g)" for x and g :: "'a feed_hub"
    by (metis fan_out_ids(1) list.set_map)
  show ?thesis using assms
    by (cases c) (simp_all add: ticked_def Let_def keep ids ids_distinct_fan, simp add: fan_out_def)
qed

lemma ids_of: "map wch_strategy_id cs = map wch_strategy_id cs' \<Longrightarrow>
    ids_distinct cs = ids_distinct cs' \<and> wch_strategy_id ` set cs = wch_strategy_id ` set cs' \<and> length cs = length cs'"
  unfolding ids_distinct_def by (metis length_map list.set_map)

lemma ticked_ids:
  "ids_distinct (hb_channels h) \<Longrightarrow> map wch_strategy_id (hb_channels (ticked now t c a h)) = map wch_strategy_id (hb_channels h)"
  by (simp add: ticked_def Let_def fan_out_tick_ids ids_distinct_fan split: option.split)

text \<open>Requests and a tick, or the refusal of a request, keep the invariant.\<close>

lemma hub_inv_routes:
  assumes "hub_inv h" "same_feed h h1" "hb_channels h1 = map (fold own_route rs) (hb_channels h)"
  shows "hub_inv h1"
proof -
  have m: "map wch_strategy_id (hb_channels h1) = map wch_strategy_id (hb_channels h)" by (simp add: assms(3) comp_def)
  note ids = ids_of [OF m]
  have "view_ok (seen_by h1 i)" if "i < length (hb_channels h1)" for i
    using that same_feed_seen [OF assms(2,3)] assms(1) ids by (simp add: hub_inv_def)
  then show ?thesis using assms(1,2) ids by (simp add: hub_inv_def same_feed_def)
qed

lemma hub_on_tick_inv:
  assumes inv: "hub_inv h" and t: "hub_on_tick p now t h = (r, h1)"
  shows "hub_inv h1"
proof -
  have h: "0 < hb_interval_seconds h" "aggs_ok (hb_aggregators h)" "ids_distinct (hb_channels h)"
    using inv by (simp_all add: hub_inv_def)
  show ?thesis
  proof (rule hub_on_tick_cases [OF h t])
    fix n e
    assume "same_feed h h1" "hb_channels h1 = map (fold own_route (take n (hb_pending h))) (hb_channels h)"
    then show ?thesis by (rule hub_inv_routes [OF inv])
  next
    fix h2 c a
    assume h2: "hb_channels h2 = map (fold own_route (hb_pending h)) (hb_channels h)" "same_feed h h2"
      and a: "aggs_ok (dict_set (tk_security_id t) a (hb_aggregators h))" and h1: "h1 = ticked now t c a h2"
    have inv2: "hub_inv h2" by (rule hub_inv_routes [OF inv h2(2,1)])
    then have d: "ids_distinct (hb_channels h2)" by (simp add: hub_inv_def)
    note ids = ids_of [OF ticked_ids [OF d, of now t c a]]
    have "view_ok (seen_by h1 i)" if "i < length (hb_channels h1)" for i
      using that inv2 ids unfolding h1 by (subst ticked_seen [OF d]) (simp_all add: hub_inv_def view_ok_channel_step)
    then show ?thesis using inv2 a ids h2(2) d
      unfolding h1 by (simp add: hub_inv_def ticked_kept [OF d] same_feed_def ticked_notes [OF d])
  qed
qed

lemma mark_hub_gap_inv: "hub_inv h \<Longrightarrow> hub_inv (snd (mark_hub_gap h))"
proof -
  assume inv: "hub_inv h"
  have "\<exists>out. agg_inv (snd (mark_gap_of sid a)) out" if "(sid, a) \<in> set (hb_aggregators h)" for sid a
  proof -
    have "\<exists>out. agg_inv a out" using that inv by (force simp: hub_inv_def aggs_ok_def)
    then show ?thesis unfolding mark_gap_of_def mark_feed_gap_def using mark_gaps_inv by blast
  qed
  then have "aggs_ok (map (\<lambda>(sid, a). (sid, snd (mark_gap_of sid a))) (hb_aggregators h))" by (auto simp: aggs_ok_def)
  with inv show ?thesis by (simp add: hub_inv_def mark_hub_gap_def Let_def seen_by_def)
qed

lemma get_item_ok: "queue_ok q \<Longrightarrow> queue_ok (snd (get_item q)) \<and> bq_dropped (snd (get_item q)) = bq_dropped q
    \<and> bq_max_depth (snd (get_item q)) = bq_max_depth q"
  by (auto simp: get_item_def queue_ok_def split: list.split)

lemma at_channel_seen:
  assumes "\<And>c. wch_strategy_id (f c) = wch_strategy_id c" "i < length (hb_channels h)"
  shows "seen_by (at_channel j f h) i = (if i = j then map_prod f id (seen_by h i) else seen_by h i)"
  using assms by (simp add: seen_by_def at_channel_def nth_list_update noted_of_def)

lemma at_channel_inv:
  assumes inv: "hub_inv h" and f: "\<And>c. wch_strategy_id (f c) = wch_strategy_id c"
    and v: "\<And>st. view_ok st \<Longrightarrow> view_ok (map_prod f id st)"
  shows "hub_inv (at_channel j f h)"
proof -
  have m: "map wch_strategy_id (hb_channels (at_channel j f h)) = map wch_strategy_id (hb_channels h)"
    by (simp add: at_channel_def map_update f list_update_same_conv)
  note ids = ids_of [OF m]
  have "view_ok (seen_by (at_channel j f h) i)" if "i < length (hb_channels (at_channel j f h))" for i
    using that ids at_channel_seen [of f i h j, OF f] inv v by (simp add: hub_inv_def)
  then show ?thesis using inv ids by (simp add: hub_inv_def at_channel_def)
qed

lemma update_first_ids:
  "(\<And>c. wch_strategy_id (f c) = wch_strategy_id c) \<Longrightarrow> map wch_strategy_id (update_first P f cs) = map wch_strategy_id cs"
  by (induction cs) simp_all

lemma update_first_nth:
  "i < length cs \<Longrightarrow> update_first P f cs ! i \<in> {cs ! i, f (cs ! i)}"
proof (induction cs arbitrary: i)
  case (Cons c cs)
  then show ?case by (cases i) auto
qed simp

lemma drop_subscription_seen:
  "i < length (hb_channels h) \<Longrightarrow>
     snd (seen_by (drop_subscription k sid h) i) = snd (seen_by h i)
     \<and> wch_tick_queue (fst (seen_by (drop_subscription k sid h) i)) = wch_tick_queue (fst (seen_by h i))"
  using update_first_nth [of i "hb_channels h" "\<lambda>c. wch_strategy_id c = k"
      "\<lambda>c. c\<lparr>wch_dynamic_ids := filter (\<lambda>s. s \<noteq> sid) (wch_dynamic_ids c)\<rparr>"]
  by (auto simp: seen_by_def drop_subscription_def noted_of_def)

lemma drop_subscription_inv: "hub_inv h \<Longrightarrow> hub_inv (drop_subscription k sid h)"
proof -
  assume inv: "hub_inv h"
  have m: "map wch_strategy_id (hb_channels (drop_subscription k sid h)) = map wch_strategy_id (hb_channels h)"
    by (simp add: drop_subscription_def update_first_ids)
  note ids = ids_of [OF m]
  have "view_ok (seen_by (drop_subscription k sid h) i)" if "i < length (hb_channels (drop_subscription k sid h))" for i
    using that ids drop_subscription_seen [of i h k sid] inv by (auto simp: hub_inv_def view_ok_def split_beta)
  then show ?thesis using inv ids by (simp add: hub_inv_def) (simp add: drop_subscription_def)
qed

lemma hub_step_inv: "hub_inv h \<Longrightarrow> hub_inv (hub_step p e h)"
proof (cases e)
  case (Tick_Arrives now t)
  moreover assume "hub_inv h"
  ultimately show ?thesis using hub_on_tick_inv [OF _ surjective_pairing] by simp
next
  case (Reads_Candle i)
  moreover assume "hub_inv h"
  ultimately show ?thesis by (simp, intro at_channel_inv) (auto simp: read_candle_def view_ok_def)
next
  case (Reads_Tick i)
  moreover assume "hub_inv h"
  ultimately show ?thesis
    by (simp, intro at_channel_inv) (auto simp: read_tick_def view_ok_def get_item_ok split: option.splits)
qed (simp_all add: hub_inv_def request_subscription_def seen_by_def mark_hub_gap_inv drop_subscription_inv
       mark_hub_gap_inv [unfolded hub_inv_def seen_by_def] drop_subscription_inv [unfolded hub_inv_def seen_by_def])

lemma register_inv:
  assumes inv: "hub_inv h" and ch: "build_channel k ids depth ticks tick_depth = Inr ch" and r: "register ch h = (Inr (), h1)"
  shows "hub_inv h1"
proof -
  have h1: "h1 = h\<lparr>hb_channels := hb_channels h @ [ch]\<rparr>" "wch_strategy_id ch \<notin> wch_strategy_id ` set (hb_channels h)"
    using r by (auto simp: register_def list_ex_iff split: if_splits)
  have n: "noted_of (hb_last_drop_notice h) ch = 0" using inv h1(2) by (simp add: hub_inv_def)
  have q: "wch_tick_queue ch = Some q \<Longrightarrow> queue_ok q" for q
    using ch by (auto simp: build_channel_def bindE_Inr new_bounded_queue_def queue_ok_def split: if_splits)
  have "view_ok (ch, 0)" using q by (simp add: view_ok_def split: option.split)
  with inv h1 n show ?thesis
    by (auto simp: hub_inv_def seen_by_def nth_append ids_distinct_def less_Suc_eq)
qed

lemma start_hub_inv:
  assumes inv: "hub_inv h" and s: "start_hub p h = (r, h1)"
  shows "hub_inv h1"
proof (cases "subscription_union h = []")
  case True
  with inv s show ?thesis by (simp add: start_hub_def)
next
  case False
  obtain x a where a: "fp_subscribe p (sort (subscription_union h)) None None (hb_adapter h) = (x, a)" by fastforce
  have inv2: "hub_inv (h\<lparr>hb_adapter := a\<rparr>)" using inv by (simp add: hub_inv_def seen_by_def)
  show ?thesis
  proof (cases x)
    case (Inl e)
    with False s a inv2 show ?thesis by (simp add: start_hub_def andThen_def hub_adapter_act_def Let_def)
  next
    case (Inr u)
    with False s a have "apply_requests p (hb_pending h) (h\<lparr>hb_adapter := a\<rparr>) = (r, h1)"
      by (simp add: start_hub_def andThen_def hub_adapter_act_def Let_def apply_pending_def)
    moreover have "ids_distinct (hb_channels (h\<lparr>hb_adapter := a\<rparr>))" using inv2 by (simp add: hub_inv_def)
    ultimately obtain n where "hb_channels h1 = map (fold own_route (take n (hb_pending h))) (hb_channels (h\<lparr>hb_adapter := a\<rparr>))"
      "same_feed (h\<lparr>hb_adapter := a\<rparr>) h1" using apply_requests_routes by blast
    then show ?thesis by (intro hub_inv_routes [OF inv2])
  qed
qed

lemma hub_reach_inv: "hub_reach p h \<Longrightarrow> hub_inv h"
proof (induction rule: hub_reach.induct)
  case (hr_new interval a)
  then show ?case by (simp add: hub_inv_def new_feed_hub_def aggs_ok_def ids_distinct_def noted_of_def)
qed (blast intro: register_inv start_hub_inv hub_step_inv)+

text \<open>C26: workers do not affect one another.  In every state a running hub reaches,
  whatever requests are pending and whatever the adapter answers, the callback of a
  tick does one of two things to a worker.  If every pending request is served, it
  returns, nothing is pending any more, and what the worker then holds (its candle
  queue, its tick queue, their counters, its routing, the drop total it was told
  of) is computed from what it held, its own requests, the tick and the bar the
  shared aggregator makes of it.  If the adapter refuses one of the requests, of
  whichever worker, the callback raises: the tick reaches no aggregator and no
  queue, only the requests up to that one are routed, and the rest stays pending.
  No other worker's queue, however full or slow, enters either; and with an
  adapter that accepts every subscription the callback never raises.
\<close>

theorem workers_are_isolated:
  assumes "hub_reach p h" "i < length (hb_channels h)" "hub_on_tick p now t h = (r, h1)"
  shows "(accepts p \<longrightarrow> r = Inr ())
    \<and> (case r of
        Inr _ \<Rightarrow> hb_pending h1 = []
          \<and> (\<exists>bar a. add_tick t (aggregator_for (hb_interval_seconds h) (tk_security_id t) (hb_aggregators h)) = (Inr bar, a)
                \<and> hb_aggregators h1 = dict_set (tk_security_id t) a (hb_aggregators h)
                \<and> seen_by h1 i = channel_step now (bar, t) (map_prod (fold own_route (hb_pending h)) id (seen_by h i)))
      | Inl _ \<Rightarrow> hb_aggregators h1 = hb_aggregators h
          \<and> (\<exists>n. 0 < n \<and> n \<le> length (hb_pending h) \<and> hb_pending h1 = drop n (hb_pending h)
               \<and> seen_by h1 i = map_prod (fold own_route (take n (hb_pending h))) id (seen_by h i)))"
proof -
  have inv: "hub_inv h" using hub_reach_inv [OF assms(1)] .
  then have h: "0 < hb_interval_seconds h" "aggs_ok (hb_aggregators h)" "ids_distinct (hb_channels h)"
    by (simp_all add: hub_inv_def)
  show ?thesis
  proof (rule hub_on_tick_cases [OF h assms(3)])
    fix n e
    assume "n \<le> length (hb_pending h)" "0 < n" "r = Inl e" "\<not> accepts p" "same_feed h h1"
      "hb_channels h1 = map (fold own_route (take n (hb_pending h))) (hb_channels h)" "hb_pending h1 = drop n (hb_pending h)"
    then show ?thesis using same_feed_seen [of h h1 _ i] assms(2) by (auto simp: same_feed_def)
  next
    fix h2 c a
    assume h2: "hb_channels h2 = map (fold own_route (hb_pending h)) (hb_channels h)" "same_feed h h2"
      and a: "r = Inr ()" "h1 = ticked now t c a h2"
        "add_tick t (aggregator_for (hb_interval_seconds h) (tk_security_id t) (hb_aggregators h)) = (Inr c, a)"
    have d: "ids_distinct (hb_channels h2)" using hub_inv_routes [OF inv h2(2,1)] by (simp add: hub_inv_def)
    have i: "i < length (hb_channels h2)" using assms(2) h2(1) by simp
    show ?thesis using a same_feed_seen [OF h2(2,1) assms(2)] h2(2)
      by (simp add: ticked_kept [OF d] ticked_seen [OF d i] same_feed_def)
  qed
qed

section \<open>A worker that reads nothing\<close>

text \<open>The tick queue of a worker while it takes nothing from it: each event leaves it, or sends it one tick.\<close>

lemma event_sends:
  assumes inv: "hub_inv h" and i: "i < length (hb_channels h)" and e: "e \<noteq> Reads_Tick i"
    and q: "wch_tick_queue (fst (seen_by h i)) = Some q" "snd (seen_by h i) = n"
  shows "\<exists>q' n'. wch_tick_queue (fst (seen_by (hub_step p e h) i)) = Some q' \<and> snd (seen_by (hub_step p e h) i) = n'
    \<and> ((q', n') = (q, n) \<or> (\<exists>now t. (q', n') = send_tick now t (q, n)))"
proof (cases e)
  case (Tick_Arrives now t)
  obtain r h1 where r: "hub_on_tick p now t h = (r, h1)" by fastforce
  have h: "0 < hb_interval_seconds h" "aggs_ok (hb_aggregators h)" "ids_distinct (hb_channels h)"
    using inv by (simp_all add: hub_inv_def)
  show ?thesis
  proof (rule hub_on_tick_cases [OF h r])
    fix m er
    assume "same_feed h h1" "hb_channels h1 = map (fold own_route (take m (hb_pending h))) (hb_channels h)"
    from same_feed_seen [OF this i] q show ?thesis by (simp add: Tick_Arrives r)
  next
    fix h2 c a
    assume h2: "hb_channels h2 = map (fold own_route (hb_pending h)) (hb_channels h)" "same_feed h h2" "h1 = ticked now t c a h2"
    have d: "ids_distinct (hb_channels h2)" using hub_inv_routes [OF inv h2(2,1)] by (simp add: hub_inv_def)
    have i2: "i < length (hb_channels h2)" using i h2(1) by simp
    define ch where "ch = fst (case c of None \<Rightarrow> seen_by h2 i | Some c \<Rightarrow> map_prod (publish_to now c) id (seen_by h2 i))"
    have ch: "wch_tick_queue ch = Some q" "(case c of None \<Rightarrow> seen_by h2 i | Some c \<Rightarrow> map_prod (publish_to now c) id (seen_by h2 i)) = (ch, n)"
      using q same_feed_seen [OF h2(2,1) i] by (cases "seen_by h i"; cases c; simp add: ch_def)+
    have "seen_by h1 i = tick_step now t (ch, n)"
      unfolding h2(3) ticked_seen [OF d i2] by (simp add: channel_step_def ch(2))
    moreover obtain q1 n1 where "send_tick now t (q, n) = (q1, n1)" by fastforce
    ultimately show ?thesis using ch(1)
      by (cases "wants (tk_security_id t) ch") (simp_all add: Tick_Arrives r tick_step_def, metis)
  qed
next
  case (Unroutes k sid)
  with drop_subscription_seen [OF i, of k sid] q show ?thesis by simp
next
  case (Reads_Candle j)
  then have "hub_step p e h = at_channel j read_candle h" by simp
  then show ?thesis using q at_channel_seen [of read_candle i h j] i
    by (cases "seen_by h i") (auto simp: read_candle_def)
next
  case (Reads_Tick j)
  then have "hub_step p e h = at_channel j read_tick h" by simp
  then show ?thesis using q at_channel_seen [of read_tick i h j] i e Reads_Tick
    by (auto simp: read_tick_def)
qed (use q in \<open>simp_all add: seen_by_def request_subscription_def mark_hub_gap_def Let_def\<close>)

lemma hub_events_length: "length (hb_channels (hub_step p e h)) = length (hb_channels h)" if "hub_inv h"
proof (cases e)
  case (Tick_Arrives now t)
  obtain r h1 where r: "hub_on_tick p now t h = (r, h1)" by fastforce
  have h: "0 < hb_interval_seconds h" "aggs_ok (hb_aggregators h)" "ids_distinct (hb_channels h)"
    using that by (simp_all add: hub_inv_def)
  show ?thesis
  proof (rule hub_on_tick_cases [OF h r])
    fix h2 c a
    assume h2: "hb_channels h2 = map (fold own_route (hb_pending h)) (hb_channels h)" "same_feed h h2" "h1 = ticked now t c a h2"
    have d: "ids_distinct (hb_channels h2)" using hub_inv_routes [OF that h2(2,1)] by (simp add: hub_inv_def)
    show ?thesis by (simp add: Tick_Arrives r h2(3) ticked_kept [OF d] h2(1))
  qed (simp add: Tick_Arrives r)
next
  case (Unroutes k sid)
  have "map wch_strategy_id (update_first (\<lambda>c. wch_strategy_id c = k)
      (\<lambda>c. c\<lparr>wch_dynamic_ids := filter (\<lambda>s. s \<noteq> sid) (wch_dynamic_ids c)\<rparr>) (hb_channels h))
    = map wch_strategy_id (hb_channels h)" by (rule update_first_ids) simp
  from arg_cong [OF this, of length] show ?thesis by (simp add: Unroutes drop_subscription_def)
qed (simp_all add: request_subscription_def mark_hub_gap_def Let_def at_channel_def)

definition hub_events :: "'a feed_port \<Rightarrow> 'a hub_event list \<Rightarrow> 'a feed_hub \<Rightarrow> 'a feed_hub" where
  "hub_events p es h = fold (hub_step p) es h"

lemma stalled_events:
  assumes "hub_inv h" "i < length (hb_channels h)" "Reads_Tick i \<notin> set es"
    and "wch_tick_queue (fst (seen_by h i)) = Some q" "snd (seen_by h i) = n"
    and "stalled q0 n0 (q, n)" "n0 \<le> bq_dropped q0"
  shows "\<exists>q' n'. wch_tick_queue (fst (seen_by (hub_events p es h) i)) = Some q' \<and> stalled q0 n0 (q', n')"
  using assms
proof (induction es arbitrary: h q n)
  case (Cons e es)
  have e: "e \<noteq> Reads_Tick i" "Reads_Tick i \<notin> set es" using Cons(4) by auto
  obtain q1 n1 where q1: "wch_tick_queue (fst (seen_by (hub_step p e h) i)) = Some q1" "snd (seen_by (hub_step p e h) i) = n1"
    "(q1, n1) = (q, n) \<or> (\<exists>now t. (q1, n1) = send_tick now t (q, n))"
    using event_sends [OF Cons(2,3) e(1) Cons(5,6)] by blast
  have "stalled q0 n0 (q1, n1)" using q1(3) stalled_send [OF Cons(7,8)] Cons(7) by metis
  from Cons(1) [OF hub_step_inv [OF Cons(2)] _ e(2) q1(1,2) this Cons(8)] Cons(3) hub_events_length [OF Cons(2)]
  show ?case by (simp add: hub_events_def)
qed (auto simp: hub_events_def)

text \<open>C27: a worker that has stopped reading is told before it has lost eight more
  items.  Take a worker with a tick queue in any state a running hub reaches, with
  whatever it was sent, read, lost and told of before, and any further run in which
  it takes nothing from that queue: ticks, requests, gaps, the other workers
  reading.  Once the items dropped from its queue in that run reach the cadence of
  the queue's depth (between one and eight), a drop notice is among the items it
  will read next; and if it was never told before, already the first drop of the
  run suffices.
\<close>

theorem stalled_worker_is_told:
  assumes "hub_reach p h" "i < length (hb_channels h)" "wch_tick_queue (hb_channels h ! i) = Some q0"
    and "Reads_Tick i \<notin> set es" "wch_tick_queue (hb_channels (hub_events p es h) ! i) = Some q"
    and "drop_notice_cadence (bq_max_depth q0) \<le> bq_dropped q - bq_dropped q0
      \<or> noted_of (hb_last_drop_notice h) (hb_channels h ! i) = 0 \<and> bq_dropped q0 < bq_dropped q"
  shows "(\<exists>n. Drop_Notice n \<in> set (bq_items q)) \<and> drop_notice_cadence (bq_max_depth q0) \<in> {1..8}"
proof -
  let ?n = "noted_of (hb_last_drop_notice h) (hb_channels h ! i)"
  have inv: "hub_inv h" using hub_reach_inv [OF assms(1)] .
  then have v: "queue_ok q0" "?n \<le> bq_dropped q0" using assms(2,3) by (auto simp: hub_inv_def view_ok_def seen_by_def)
  have s: "wch_tick_queue (fst (seen_by h i)) = Some q0" "snd (seen_by h i) = ?n" using assms(3) by (simp_all add: seen_by_def)
  obtain q' n' where "wch_tick_queue (fst (seen_by (hub_events p es h) i)) = Some q'" "stalled q0 ?n (q', n')"
    using stalled_events [OF inv assms(2,4) s stalled_start [OF v(1)] v(2)] by blast
  then have "stalled q0 ?n (q, n')" using assms(5) by (simp add: seen_by_def)
  from stalled_holds [OF this] assms(6) cadence_bounds(1,2) [of "bq_max_depth q0"] show ?thesis by auto
qed

definition holds_notice :: "bounded_queue \<Rightarrow> bool" where
  "holds_notice q = list_ex (\<lambda>x. case x of Drop_Notice _ \<Rightarrow> True | _ \<Rightarrow> False) (bq_items q)"

section \<open>The candle queue\<close>

definition wanted_bars :: "worker_channel \<Rightarrow> (candle option \<times> tick) list \<Rightarrow> candle list" where
  "wanted_bars ch xs = filter (\<lambda>c. wants (cd_security_id c) ch) (List.map_filter fst xs)"

lemma tick_step_queue [simp]:
  "wch_queue (fst (tick_step now t st)) = wch_queue (fst st)" "wants sid (fst (tick_step now t st)) = wants sid (fst st)"
  by (cases st; simp add: tick_step_def wants_def split: option.split prod.split)+

lemma channel_step_queue:
  "wch_queue (fst (channel_step now (c, t) st)) =
     (case c of Some b \<Rightarrow> if wants (cd_security_id b) (fst st) then snd (publish now (Candle_Item b) (wch_queue (fst st)))
                         else wch_queue (fst st)
      | None \<Rightarrow> wch_queue (fst st))"
  "wants sid (fst (channel_step now (c, t) st)) = wants sid (fst st)"
  by (cases c; cases st; simp add: channel_step_def; simp add: publish_to_def)+

lemma channel_steps_queue:
  "wch_queue (fst (fold (channel_step now) xs st)) =
     fold (\<lambda>c q. snd (publish now (Candle_Item c) q)) (wanted_bars (fst st) xs) (wch_queue (fst st))"
proof (induction xs arbitrary: st)
  case (Cons x xs)
  obtain c t where x: "x = (c, t)" by fastforce
  have "wanted_bars (fst (channel_step now x st)) xs = wanted_bars (fst st) xs"
    by (simp add: wanted_bars_def x channel_step_queue)
  then show ?case
    by (simp add: Cons) (simp add: x channel_step_queue wanted_bars_def List.map_filter_simps split: option.split)
qed (simp add: wanted_bars_def List.map_filter_simps)

lemma publish_all:
  "queue_ok q \<Longrightarrow> queue_ok (fold (\<lambda>x q. snd (publish now x q)) xs q)
     \<and> bq_published (fold (\<lambda>x q. snd (publish now x q)) xs q) = bq_published q + length xs"
proof (induction xs arbitrary: q)
  case (Cons x xs)
  obtain b q1 where p: "publish now x q = (b, q1)" by fastforce
  from publish_ok [OF Cons.prems p] Cons.IH [of q1] show ?case by (simp add: p)
qed simp

text \<open>A worker's candle queue is the most recent part, in order, of the candles it wants: every shared candle of its
  instruments is published to it exactly once, and what is missing at the front is as long as the drop counter says.
\<close>

theorem hub_queue_is_the_latest_candles:
  assumes "hub_ready h" "i < length (hb_channels h)"
    and "queue_ok (wch_queue (hb_channels h ! i))" "bq_items (wch_queue (hb_channels h ! i)) = []"
    and "bq_dropped (wch_queue (hb_channels h ! i)) = 0"
  shows "let q = wch_queue (hb_channels (snd (run_hub p now ts h)) ! i);
             wanted = wanted_bars (hb_channels h ! i) (shared_bars (hb_interval_seconds h) ts (hb_aggregators h))
         in bq_items q = map Candle_Item (drop (bq_dropped q) wanted)
            \<and> bq_published q = bq_published (wch_queue (hb_channels h ! i)) + length wanted
            \<and> length (bq_items q) \<le> bq_max_depth q"
proof -
  let ?xs = "shared_bars (hb_interval_seconds h) ts (hb_aggregators h)"
  let ?w = "map Candle_Item (wanted_bars (hb_channels h ! i) ?xs)"
  let ?q = "wch_queue (hb_channels h ! i)"
  obtain h1 where h1: "run_hub p now ts h = (Inr (), h1)" "seen_by h1 i = fold (channel_step now) ?xs (seen_by h i)"
    using run_hub_seen [OF assms(1)] assms(2) by blast
  have "wch_queue (hb_channels h1 ! i) = wch_queue (fst (seen_by h1 i))" by (simp add: seen_by_def)
  also have "\<dots> = fold (\<lambda>x q. snd (publish now x q)) ?w ?q"
    unfolding h1(2) channel_steps_queue by (simp add: seen_by_def fold_map comp_def)
  finally have q: "wch_queue (hb_channels (snd (run_hub p now ts h)) ! i) = fold (\<lambda>x q. snd (publish now x q)) ?w ?q"
    by (simp add: h1(1))
  show ?thesis
    unfolding q Let_def using channel.send_all [OF assms(3), of now ?w] publish_all [OF assms(3), of now ?w] assms(4,5)
    by (auto simp: drop_map queue_ok_def)
qed

section \<open>Examples\<close>

definition silent_port :: "unit feed_port" where
  "silent_port = \<lparr>fp_subscribe = (\<lambda>_ _ _. ret ()), fp_request_stop = id, fp_stop = (\<lambda>_. ret ())\<rparr>"

definition example_channel :: "string \<Rightarrow> string list \<Rightarrow> bool \<Rightarrow> worker_channel" where
  "example_channel sid ids ticks =
     (case build_channel sid ids 1 ticks 2 of
        Inr c \<Rightarrow> c
      | Inl _ \<Rightarrow> \<lparr>wch_strategy_id = sid, wch_security_ids = ids,
                 wch_queue = \<lparr>bq_name = sid, bq_max_depth = 1, bq_items = [], bq_published = 0, bq_dropped = 0, bq_last_published_at = None\<rparr>,
                 wch_tick_queue = None, wch_dynamic_ids = []\<rparr>)"

definition example_hub :: "unit feed_hub" where
  "example_hub =
     (new_feed_hub () 300)\<lparr>hb_channels := [example_channel ''a'' [''1''] True, example_channel ''b'' [''1''] False]\<rparr>"

definition hub_example_ticks :: "tick list" where
  "hub_example_ticks = map (\<lambda>(m, p). tick_at ''1'' p (at_ist 9 m 0)) [(15, 100), (20, 101), (25, 99)]"

definition example_now :: datetime where "example_now = at_ist 10 0 0"

lemma example_ready: "hub_ready example_hub"
  by (simp add: hub_ready_def example_hub_def new_feed_hub_def aggs_ok_def ids_distinct_def example_channel_def build_channel_def
      new_bounded_queue_def)

lemma example_channels:
  "length (hb_channels example_hub) = 2"
  "map wch_strategy_id (hb_channels example_hub) = [''a'', ''b'']" "hb_last_drop_notice example_hub = []"
  "hb_channels example_hub ! 0 =
     \<lparr>wch_strategy_id = ''a'', wch_security_ids = [''1''],
      wch_queue = \<lparr>bq_name = ''a'', bq_max_depth = 1, bq_items = [], bq_published = 0, bq_dropped = 0, bq_last_published_at = None\<rparr>,
      wch_tick_queue = Some \<lparr>bq_name = ''a:ticks'', bq_max_depth = 2, bq_items = [], bq_published = 0, bq_dropped = 0,
                           bq_last_published_at = None\<rparr>,
      wch_dynamic_ids = []\<rparr>"
  by (simp_all add: example_hub_def example_channel_def build_channel_def new_bounded_queue_def new_feed_hub_def)

lemma example_reach: "hub_reach p example_hub"
proof -
  have a: "build_channel ''a'' [''1''] 1 True 2 = Inr (example_channel ''a'' [''1''] True)"
    "build_channel ''b'' [''1''] 1 False 2 = Inr (example_channel ''b'' [''1''] False)"
    by (simp_all add: example_channel_def build_channel_def new_bounded_queue_def)
  have r: "register (example_channel ''a'' [''1''] True) (new_feed_hub () 300)
      = (Inr (), (new_feed_hub () 300)\<lparr>hb_channels := [example_channel ''a'' [''1''] True]\<rparr>)"
    by (simp add: register_def new_feed_hub_def)
  have r2: "register (example_channel ''b'' [''1''] False) ((new_feed_hub () 300)\<lparr>hb_channels := [example_channel ''a'' [''1''] True]\<rparr>)
      = (Inr (), example_hub)"
    by (simp add: register_def new_feed_hub_def example_hub_def example_channel_def build_channel_def new_bounded_queue_def)
  have n: "hub_reach p (new_feed_hub () 300)" by (rule hr_new) simp
  show ?thesis by (rule hr_register [OF hr_register [OF n a(1) r] a(2) r2])
qed

lemma hub_reach_events: "hub_reach p h \<Longrightarrow> hub_reach p (hub_events p es h)"
  unfolding hub_events_def by (induction es arbitrary: h) (simp_all add: hr_event)

text \<open>A run-time request of the first worker is pending when the tick arrives.\<close>

definition asked_hub :: "unit feed_hub" where
  "asked_hub = hub_events silent_port [Asks 0 (''a'', ''2'', None, None)] example_hub"

theorem workers_are_isolated_witness:
  "fst (hub_on_tick silent_port example_now (hd hub_example_ticks) asked_hub) = Inr ()
   \<and> (\<exists>bar. seen_by (snd (hub_on_tick silent_port example_now (hd hub_example_ticks) asked_hub)) 0
        = channel_step example_now (bar, hd hub_example_ticks)
            (map_prod (fold own_route [(''a'', ''2'', None, None)]) id (seen_by asked_hub 0)))"
proof -
  have reach: "hub_reach silent_port asked_hub" unfolding asked_hub_def by (rule hub_reach_events [OF example_reach])
  have i: "0 < length (hb_channels asked_hub)" "hb_pending asked_hub = [(''a'', ''2'', None, None)]"
    by (simp_all add: asked_hub_def hub_events_def request_subscription_def example_hub_def new_feed_hub_def)
  have p: "accepts silent_port" by (simp add: accepts_def silent_port_def ret_def)
  show ?thesis
    using workers_are_isolated [OF reach i(1) surjective_pairing, of example_now "hd hub_example_ticks"] p i(2)
    by (auto split: sum.splits)
qed

text \<open>
  A worker that was told, reads all it has, the notice included, and then stops
  reading: its queue is of depth two, so its cadence is one.
\<close>

definition told_hub :: "unit feed_hub" where
  "told_hub = hub_events silent_port (map (Tick_Arrives example_now) hub_example_ticks @ [Reads_Tick 0, Reads_Tick 0]) example_hub"

definition stall :: "unit hub_event list" where
  "stall = map (Tick_Arrives example_now) hub_example_ticks @ [Reads_Candle 0, Reads_Tick 1]"

definition stalled_queue :: bounded_queue where
  "stalled_queue = the (wch_tick_queue (hb_channels (hub_events silent_port stall told_hub) ! 0))"

lemma told_hub_queue:
  "(case wch_tick_queue (hb_channels told_hub ! 0) of
      Some q \<Rightarrow> bq_items q = [] \<and> bq_dropped q = 2 \<and> bq_max_depth q = 2 | None \<Rightarrow> False)
   \<and> length (hb_channels told_hub) = 2"
  by code_simp

lemma stalled_queue_facts:
  "wch_tick_queue (hb_channels (hub_events silent_port stall told_hub) ! 0) \<noteq> None \<and> 3 \<le> bq_dropped stalled_queue"
  by code_simp

theorem stalled_worker_is_told_witness:
  "\<exists>n. Drop_Notice n \<in> set (bq_items stalled_queue)"
proof -
  obtain q where q: "wch_tick_queue (hb_channels told_hub ! 0) = Some q" "bq_dropped q = 2" "bq_max_depth q = 2"
    using told_hub_queue by (auto split: option.splits)
  have reach: "hub_reach silent_port told_hub" unfolding told_hub_def by (rule hub_reach_events [OF example_reach])
  have i: "0 < length (hb_channels told_hub)" using told_hub_queue by simp
  have s: "wch_tick_queue (hb_channels (hub_events silent_port stall told_hub) ! 0) = Some stalled_queue"
    "3 \<le> bq_dropped stalled_queue" using stalled_queue_facts by (auto simp: stalled_queue_def)
  have r: "Reads_Tick 0 \<notin> set stall" by (auto simp: stall_def)
  have c: "drop_notice_cadence (bq_max_depth q) \<le> bq_dropped stalled_queue - bq_dropped q"
    using q s(2) by (simp add: drop_notice_cadence_def drop_notice_every_def)
  show ?thesis using stalled_worker_is_told [OF reach i q(1) r s(1)] c by blast
qed

lemma hub_queue_is_the_latest_candles_witness:
  "let q = wch_queue (hb_channels (snd (run_hub silent_port example_now hub_example_ticks example_hub)) ! 0);
       wanted = wanted_bars (hb_channels example_hub ! 0)
         (shared_bars (hb_interval_seconds example_hub) hub_example_ticks (hb_aggregators example_hub))
   in bq_items q = map Candle_Item (drop (bq_dropped q) wanted)
      \<and> bq_published q = bq_published (wch_queue (hb_channels example_hub ! 0)) + length wanted
      \<and> length (bq_items q) \<le> bq_max_depth q"
  by (rule hub_queue_is_the_latest_candles) (simp_all add: example_ready example_channels queue_ok_def)

section \<open>What the notices do not cover\<close>

text \<open>
  A worker that reads again can still miss the only notice.  The notice is sent at the first drop; the worker reads
  everything up to it; a burst then fills the queue once more and evicts the unread notice, and the drops since the notice
  are still fewer than the cadence, so no other is sent.  The worker drains the queue and has not been told.
\<close>

fun get_items :: "nat \<Rightarrow> bounded_queue \<Rightarrow> bounded_queue" where
  "get_items 0 q = q"
| "get_items (Suc n) q = get_items n (snd (get_item q))"

definition deep_queue :: bounded_queue where
  "deep_queue = \<lparr>bq_name = ''a:ticks'', bq_max_depth = 16, bq_items = [], bq_published = 0, bq_dropped = 0,
     bq_last_published_at = None\<rparr>"

definition after_first_overflow :: "bounded_queue \<times> nat" where
  "after_first_overflow = fold (send_tick example_now) (replicate 17 (tick_at ''1'' 100 example_now)) (deep_queue, 0)"

definition after_second_overflow :: "bounded_queue \<times> nat" where
  "after_second_overflow =
     fold (send_tick example_now) (replicate 16 (tick_at ''1'' 101 example_now))
       (map_prod (get_items 15) id after_first_overflow)"

lemma sole_notice_can_be_lost:
  "holds_notice (fst after_first_overflow)"
  "length (filter (\<lambda>x. case x of Drop_Notice _ \<Rightarrow> True | _ \<Rightarrow> False) (take 15 (bq_items (fst after_first_overflow)))) = 0"
  "\<not> holds_notice (fst after_second_overflow)" "bq_dropped (fst after_second_overflow) = 3"
  by code_simp+

text \<open>
  A run-time subscription the adapter refuses is routed all the same: the callback raises, and the next request for the
  instrument is taken for one already served, so the adapter is never asked again.
\<close>

definition refusing_port :: "nat feed_port" where
  "refusing_port = \<lparr>fp_subscribe = (\<lambda>_ _ _ n. (Inl RuntimeError, n + 1)), fp_request_stop = id, fp_stop = (\<lambda>_. ret ())\<rparr>"

lemma update_first_find:
  "find P cs = Some c \<Longrightarrow> (\<And>c. P (f c) = P c) \<Longrightarrow> find P (update_first P f cs) = Some (f c)"
  by (induction cs) (auto split: if_splits)

lemma wants_routed [simp]: "wants sid (route sid c)"
  by (simp add: wants_def route_def)

lemma refused_subscription_is_never_retried:
  assumes "find (\<lambda>c. wch_strategy_id c = k) (hb_channels h) = Some c" "\<not> wants sid c"
  shows "\<exists>h1. apply_request refusing_port (k, sid, segment, mode) h = (Inl RuntimeError, h1)
    \<and> hb_adapter h1 = hb_adapter h + 1
    \<and> apply_request refusing_port (k, sid, segment', mode') h1 = (Inr (), h1)"
proof -
  have "find (\<lambda>c. wch_strategy_id c = k) (update_first (\<lambda>c. wch_strategy_id c = k) (route sid) (hb_channels h)) = Some (route sid c)"
    using assms(1) by (rule update_first_find) (simp add: route_def)
  with assms show ?thesis by (simp add: apply_request_def andThen_def hub_adapter_act_def refusing_port_def Let_def)
qed

end
