(* ===== verification/Reconnect.thy ===== *)
theory Reconnect
  imports Feed_Hub
begin

text \<open>
  common/feed/reconnect.py: backoff, and a feed adapter wrapped with reconnection,
  resubscription and health.  What the adapter does while its start runs (the
  ticks it delivers, the stops that arrive from other threads, how it ends) is a
  session; the client is the state behind the tick callback.  Messages and the
  threading primitives are left out: a thread is a number.
\<close>

section \<open>Backoff\<close>

record reconnect_policy =
  rp_max_attempts :: nat
  rp_initial_backoff :: rat
  rp_max_backoff :: rat
  rp_multiplier :: rat
  rp_jitter_ratio :: rat

definition default_reconnect_policy :: reconnect_policy where
  "default_reconnect_policy =
     \<lparr>rp_max_attempts = 8, rp_initial_backoff = 1, rp_max_backoff = 60, rp_multiplier = 2, rp_jitter_ratio = 1 / 4\<rparr>"

definition policy_ok :: "reconnect_policy \<Rightarrow> bool" where
  "policy_ok p =
     (1 \<le> rp_max_attempts p \<and> 0 < rp_initial_backoff p \<and> 0 < rp_max_backoff p \<and> 1 \<le> rp_multiplier p
      \<and> 0 \<le> rp_jitter_ratio p \<and> rp_jitter_ratio p \<le> 1)"

definition new_reconnect_policy :: "reconnect_policy \<Rightarrow> reconnect_policy result" where
  "new_reconnect_policy p = (if policy_ok p then Inr p else Inl ValueError)"

definition delay_for :: "nat \<Rightarrow> rat \<Rightarrow> reconnect_policy \<Rightarrow> rat result" where
  "delay_for n rng p =
     (if n < 1 then Inl ValueError
      else
        let raw = rp_initial_backoff p * rp_multiplier p ^ (n - 1);
            capped = min raw (rp_max_backoff p)
        in Inr (capped * (1 - rp_jitter_ratio p * rng)))"

section \<open>Health\<close>

text \<open>What the reason text is made of.\<close>

datatype feed_reason = Server_Code int | Raised exn

record feed_health_event =
  he_event :: string
  he_reason_code :: "int option"
  he_reason :: "feed_reason option"
  he_attempt :: "nat option"
  he_downtime :: "int option"
  he_expected :: "nat option"
  he_active :: "nat option"
  he_security_id :: "string option"

definition health_event :: "string \<Rightarrow> feed_health_event" where
  "health_event e =
     \<lparr>he_event = e, he_reason_code = None, he_reason = None, he_attempt = None, he_downtime = None, he_expected = None,
      he_active = None, he_security_id = None\<rparr>"

record feed_health =
  fh_connected :: bool
  fh_degraded :: bool
  fh_reconnect_count :: nat
  fh_failed_attempts :: nat
  fh_token_refreshes :: nat
  fh_last_disconnect_reason :: "feed_reason option"
  fh_last_disconnect_code :: "int option"
  fh_last_connected_at :: "datetime option"
  fh_last_disconnected_at :: "datetime option"
  fh_total_downtime :: int
  fh_expected_subscriptions :: nat
  fh_active_subscriptions :: nat
  fh_last_tick_at :: "(string, datetime) dict"
  fh_gap_candles_discarded :: nat

definition new_feed_health :: feed_health where
  "new_feed_health =
     \<lparr>fh_connected = False, fh_degraded = True, fh_reconnect_count = 0, fh_failed_attempts = 0, fh_token_refreshes = 0,
      fh_last_disconnect_reason = None, fh_last_disconnect_code = None, fh_last_connected_at = None,
      fh_last_disconnected_at = None, fh_total_downtime = 0, fh_expected_subscriptions = 0, fh_active_subscriptions = 0,
      fh_last_tick_at = [], fh_gap_candles_discarded = 0\<rparr>"

definition subscriptions_match :: "feed_health \<Rightarrow> bool" where
  "subscriptions_match h = (fh_expected_subscriptions h = fh_active_subscriptions h)"

definition stale_instruments :: "datetime \<Rightarrow> int \<Rightarrow> feed_health \<Rightarrow> string list" where
  "stale_instruments now threshold h =
     sort (map fst (filter (\<lambda>(_, seen). seen < dt_add now (- threshold)) (fh_last_tick_at h)))"

section \<open>The wrapped feed\<close>

text \<open>
  The adapter behind the wrapper: besides the protocol, what getattr asks it for, and what one run of its start does to it.
\<close>

record 'a live_port = "'a feed_port" +
  lp_code :: "'a \<Rightarrow> int option"
  lp_resubscribe_all :: "(unit, 'a) act option"
  lp_subscribed :: "'a \<Rightarrow> string list option"
  lp_ran :: "int option \<Rightarrow> 'a \<Rightarrow> 'a"

record ('a, 'h) reconnecting =
  rf_adapter :: 'a
  rf_client :: 'h
  rf_policy :: reconnect_policy
  rf_security_ids :: "string list"
  rf_stopped :: bool
  rf_stop_requested :: bool
  rf_owner_thread :: "nat option"
  rf_closed :: bool
  rf_consecutive_failures :: nat
  rf_health :: feed_health
  rf_events :: "feed_health_event list"

definition new_reconnecting :: "'a \<Rightarrow> 'h \<Rightarrow> reconnect_policy \<Rightarrow> ('a, 'h) reconnecting" where
  "new_reconnecting adapter client policy =
     \<lparr>rf_adapter = adapter, rf_client = client, rf_policy = policy, rf_security_ids = [], rf_stopped = False,
      rf_stop_requested = False, rf_owner_thread = None, rf_closed = False, rf_consecutive_failures = 0,
      rf_health = new_feed_health, rf_events = []\<rparr>"

definition on_health :: "(feed_health \<Rightarrow> feed_health) \<Rightarrow> ('a, 'h) reconnecting \<Rightarrow> ('a, 'h) reconnecting" where
  "on_health f s = s\<lparr>rf_health := f (rf_health s)\<rparr>"

definition emit :: "feed_health_event \<Rightarrow> ('a, 'h) reconnecting \<Rightarrow> ('a, 'h) reconnecting" where
  "emit e s = s\<lparr>rf_events := rf_events s @ [e]\<rparr>"

definition adapter_act :: "('r, 'a) act \<Rightarrow> ('r, ('a, 'h) reconnecting) act" where
  "adapter_act m s = (case m (rf_adapter s) of (r, a) \<Rightarrow> (r, s\<lparr>rf_adapter := a\<rparr>))"

definition client_act :: "('r, 'h) act \<Rightarrow> ('r, ('a, 'h) reconnecting) act" where
  "client_act m s = (case m (rf_client s) of (r, h) \<Rightarrow> (r, s\<lparr>rf_client := h\<rparr>))"

text \<open>dict.fromkeys over two lists: the new ids after the old ones, each once.\<close>

definition add_id :: "string \<Rightarrow> string list \<Rightarrow> string list" where
  "add_id i ids = (if i \<in> set ids then ids else ids @ [i])"

definition subscribe_feed ::
  "('a, 'x) live_port_scheme \<Rightarrow> string list \<Rightarrow> int option \<Rightarrow> int option \<Rightarrow> (unit, ('a, 'h) reconnecting) act" where
  "subscribe_feed p ids segment mode s =
     (let merged = fold add_id ids (rf_security_ids s);
          s1 = on_health (\<lambda>h. h\<lparr>fh_expected_subscriptions := length merged\<rparr>) (s\<lparr>rf_security_ids := merged\<rparr>)
      in if segment = None \<and> mode = None then adapter_act (fp_subscribe p merged None None) s1
         else adapter_act (fp_subscribe p ids segment mode) s1)"

text \<open>_close_owned_adapter, in the thread that calls it.\<close>

definition close_owned :: "('a, 'x) live_port_scheme \<Rightarrow> nat \<Rightarrow> (unit, ('a, 'h) reconnecting) act" where
  "close_owned p me s =
     (if rf_closed s then (Inr (), s)
      else adapter_act (fp_stop p me) (on_health (\<lambda>h. h\<lparr>fh_connected := False\<rparr>) (s\<lparr>rf_closed := True\<rparr>)))"

definition stop_feed_by :: "('a, 'x) live_port_scheme \<Rightarrow> nat \<Rightarrow> (unit, ('a, 'h) reconnecting) act" where
  "stop_feed_by p me s =
     (let s1 = on_health (\<lambda>h. h\<lparr>fh_connected := False\<rparr>) (s\<lparr>rf_stopped := True, rf_stop_requested := True\<rparr>) in
      case rf_owner_thread s1 of
        Some owner \<Rightarrow>
          if owner \<noteq> me then (Inr (), s1\<lparr>rf_adapter := fp_request_stop p (rf_adapter s1)\<rparr>) else close_owned p me s1
      | None \<Rightarrow> close_owned p me s1)"

definition request_stop_feed :: "('a, 'x) live_port_scheme \<Rightarrow> ('a, 'h) reconnecting \<Rightarrow> ('a, 'h) reconnecting" where
  "request_stop_feed p s =
     s\<lparr>rf_stopped := True, rf_stop_requested := True, rf_adapter := fp_request_stop p (rf_adapter s)\<rparr>"

text \<open>The callback _observe of _wrap.\<close>

definition note_tick :: "tick \<Rightarrow> ('a, 'h) reconnecting \<Rightarrow> ('a, 'h) reconnecting" where
  "note_tick t s =
     (let s1 = on_health (\<lambda>h. h\<lparr>fh_last_tick_at := dict_set (tk_security_id t) (tk_exchange_time t) (fh_last_tick_at h)\<rparr>) s in
      if fh_degraded (rf_health s)
      then emit ((health_event ''recovered'')\<lparr>he_security_id := Some (tk_security_id t)\<rparr>)
             (on_health (\<lambda>h. h\<lparr>fh_degraded := False\<rparr>) (s1\<lparr>rf_consecutive_failures := 0\<rparr>))
      else s1)"

definition observe ::
  "('a, 'x) live_port_scheme \<Rightarrow> nat \<Rightarrow> (tick \<Rightarrow> (unit, 'h) act) \<Rightarrow> tick \<Rightarrow> (unit, ('a, 'h) reconnecting) act" where
  "observe p me cb t s =
     andThen (client_act (cb t)) (\<lambda>_ s. if rf_stop_requested s then close_owned p me s else (Inr (), s)) (note_tick t s)"

definition mark_connected :: "datetime \<Rightarrow> ('a, 'h) reconnecting \<Rightarrow> ('a, 'h) reconnecting" where
  "mark_connected now s =
     (let s1 = on_health (\<lambda>h. h\<lparr>fh_connected := True, fh_last_connected_at := Some now\<rparr>) s in
      case fh_last_disconnected_at (rf_health s1) of
        None \<Rightarrow> emit (health_event ''connected'') s1
      | Some since \<Rightarrow>
          let gap = dt_diff now since in
          emit ((health_event ''connected'')\<lparr>he_downtime := Some gap\<rparr>)
            (on_health (\<lambda>h. h\<lparr>fh_total_downtime := fh_total_downtime h + gap, fh_last_disconnected_at := None\<rparr>) s1))"

definition mark_disconnected ::
  "('a, 'x) live_port_scheme \<Rightarrow> ('h \<Rightarrow> nat \<times> 'h) option \<Rightarrow> datetime \<Rightarrow> exn \<Rightarrow> ('a, 'h) reconnecting \<Rightarrow> ('a, 'h) reconnecting" where
  "mark_disconnected p gap_hook now x s =
     (let s1 = on_health (\<lambda>h. h\<lparr>fh_connected := False, fh_degraded := True, fh_last_disconnected_at := Some now\<rparr>) s;
          s2 = (case lp_code p (rf_adapter s1) of
                  Some code \<Rightarrow>
                    on_health (\<lambda>h. h\<lparr>fh_last_disconnect_code := Some code, fh_last_disconnect_reason := Some (Server_Code code)\<rparr>) s1
                | None \<Rightarrow> on_health (\<lambda>h. h\<lparr>fh_last_disconnect_reason := Some (Raised x)\<rparr>) s1);
          s3 = emit ((health_event ''disconnected'')\<lparr>he_reason_code := fh_last_disconnect_code (rf_health s2),
                       he_reason := fh_last_disconnect_reason (rf_health s2)\<rparr>) s2
      in case gap_hook of
           None \<Rightarrow> s3
         | Some hook \<Rightarrow>
             (case hook (rf_client s3) of
                (n, h) \<Rightarrow> on_health (\<lambda>f. f\<lparr>fh_gap_candles_discarded := fh_gap_candles_discarded f + n\<rparr>) (s3\<lparr>rf_client := h\<rparr>)))"

text \<open>The refresh callback is given by how the call ends, None when there is no callback.\<close>

definition maybe_refresh_token :: "exn option option \<Rightarrow> ('a, 'h) reconnecting \<Rightarrow> ('a, 'h) reconnecting" where
  "maybe_refresh_token refresh s =
     (case refresh of
        None \<Rightarrow> s
      | Some failure \<Rightarrow>
          if fh_last_disconnect_code (rf_health s) \<noteq> Some 807 then s
          else if failure = None then on_health (\<lambda>h. h\<lparr>fh_token_refreshes := fh_token_refreshes h + 1\<rparr>) s else s)"

definition reconnect :: "('a, 'x) live_port_scheme \<Rightarrow> nat \<Rightarrow> (unit, ('a, 'h) reconnecting) act" where
  "reconnect p me s =
     andThen (adapter_act (fp_stop p me)) (\<lambda>_.
     andThen (\<lambda>s. adapter_act (fp_subscribe p (rf_security_ids s) None None) s) (\<lambda>_.
     andThen (case lp_resubscribe_all p of None \<Rightarrow> ret () | Some m \<Rightarrow> adapter_act m) (\<lambda>_ s.
       let s1 = on_health (\<lambda>h. h\<lparr>fh_active_subscriptions :=
                  length (case lp_subscribed p (rf_adapter s) of Some ids \<Rightarrow> ids | None \<Rightarrow> rf_security_ids s)\<rparr>) s
       in (Inr (), emit ((health_event ''resubscribed'')\<lparr>he_expected := Some (fh_expected_subscriptions (rf_health s1)),
                          he_active := Some (fh_active_subscriptions (rf_health s1))\<rparr>) s1))))
     (on_health (\<lambda>h. h\<lparr>fh_reconnect_count := fh_reconnect_count h + 1\<rparr>) s)"

section \<open>The reconnect loop\<close>

datatype feed_signal = Got tick | Stop_By nat | Stop_Request

text \<open>
  One run of the adapter's start: what arrives, whether the server sent a reason code, and whether it ends with an
  exception; then the clock at its two ends, how a refresh would end, the random number and the stops during the pause.
\<close>

record feed_session =
  fs_signals :: "feed_signal list"
  fs_code :: "int option"
  fs_failure :: "exn option"
  fs_started_at :: datetime
  fs_ended_at :: datetime
  fs_refresh :: "exn option"
  fs_rng :: rat
  fs_pause :: "feed_signal list"

text \<open>The adapter delivers nothing after its connection was closed, and returns.\<close>

fun deliver_signals ::
  "('a, 'x) live_port_scheme \<Rightarrow> nat \<Rightarrow> (tick \<Rightarrow> (unit, 'h) act) \<Rightarrow> feed_signal list \<Rightarrow> (bool, ('a, 'h) reconnecting) act" where
  "deliver_signals p me cb [] s = (Inr (rf_closed s), s)"
| "deliver_signals p me cb (x # xs) s =
     (if rf_closed s then (Inr True, s)
      else andThen (case x of Got t \<Rightarrow> observe p me cb t | Stop_By u \<Rightarrow> stop_feed_by p u
                    | Stop_Request \<Rightarrow> (\<lambda>s. (Inr (), request_stop_feed p s)))
             (\<lambda>_. deliver_signals p me cb xs) s)"

fun stops_during :: "('a, 'x) live_port_scheme \<Rightarrow> feed_signal list \<Rightarrow> (unit, ('a, 'h) reconnecting) act" where
  "stops_during p [] s = (Inr (), s)"
| "stops_during p (x # xs) s =
     andThen (case x of Got t \<Rightarrow> ret () | Stop_By u \<Rightarrow> stop_feed_by p u | Stop_Request \<Rightarrow> (\<lambda>s. (Inr (), request_stop_feed p s)))
       (\<lambda>_. stops_during p xs) s"

definition run_session ::
  "('a, 'x) live_port_scheme \<Rightarrow> nat \<Rightarrow> (tick \<Rightarrow> (unit, 'h) act) \<Rightarrow> feed_session \<Rightarrow> (unit, ('a, 'h) reconnecting) act" where
  "run_session p me cb x s =
     (case deliver_signals p me cb (fs_signals x) (mark_connected (fs_started_at x) s) of
        (r, s1) \<Rightarrow>
          let s2 = s1\<lparr>rf_adapter := lp_ran p (fs_code x) (rf_adapter s1)\<rparr> in
          case r of
            Inl e \<Rightarrow> (Inl e, s2)
          | Inr True \<Rightarrow> (Inr (), s2)
          | Inr False \<Rightarrow> (case fs_failure x of None \<Rightarrow> (Inr (), s2) | Some e \<Rightarrow> (Inl e, s2)))"

datatype feed_outcome = Feed_Running | Feed_Finished | Feed_Failed exn

definition finished :: "('a, 'h) reconnecting \<Rightarrow> ('a, 'h) reconnecting" where
  "finished s = on_health (\<lambda>h. h\<lparr>fh_connected := False\<rparr>) s"

record 'h feed_hooks =
  fk_on_tick :: "tick \<Rightarrow> (unit, 'h) act"
  fk_on_feed_gap :: "('h \<Rightarrow> nat \<times> 'h) option"
  fk_refresh_token :: bool

text \<open>What follows a failed run: give up, or wait and reconnect.\<close>

definition after_failure ::
  "('a, 'x) live_port_scheme \<Rightarrow> 'h feed_hooks \<Rightarrow> nat \<Rightarrow> feed_session \<Rightarrow> exn \<Rightarrow> (unit, ('a, 'h) reconnecting) act" where
  "after_failure p k me x e s =
     (let s1 = s\<lparr>rf_consecutive_failures := rf_consecutive_failures s + 1\<rparr>;
          s2 = mark_disconnected p (fk_on_feed_gap k) (fs_ended_at x) e
                 (on_health (\<lambda>h. h\<lparr>fh_failed_attempts := fh_failed_attempts h + 1\<rparr>) s1);
          n = rf_consecutive_failures s2
      in if rp_max_attempts (rf_policy s2) \<le> n
         then (Inl FeedUnavailableError,
               emit ((health_event ''reconnect_exhausted'')\<lparr>he_attempt := Some n, he_reason := Some (Raised e),
                        he_reason_code := fh_last_disconnect_code (rf_health s2)\<rparr>) s2)
         else
           let s3 = maybe_refresh_token (if fk_refresh_token k then Some (fs_refresh x) else None) s2 in
           case delay_for n (fs_rng x) (rf_policy s3) of
             Inl e1 \<Rightarrow> (Inl e1, s3)
           | Inr _ \<Rightarrow>
               andThen (stops_during p (fs_pause x)) (\<lambda>_. reconnect p me)
                 (emit ((health_event ''reconnect_attempted'')\<lparr>he_attempt := Some n,
                          he_reason := fh_last_disconnect_reason (rf_health s3),
                          he_reason_code := fh_last_disconnect_code (rf_health s3)\<rparr>) s3))"

fun run_feed ::
  "('a, 'x) live_port_scheme \<Rightarrow> 'h feed_hooks \<Rightarrow> nat \<Rightarrow> feed_session list \<Rightarrow> ('a, 'h) reconnecting
    \<Rightarrow> feed_outcome \<times> feed_session list \<times> ('a, 'h) reconnecting" where
  "run_feed p k me [] s = (if rf_stopped s then (Feed_Finished, [], finished s) else (Feed_Running, [], s))"
| "run_feed p k me (x # xs) s =
     (if rf_stopped s then (Feed_Finished, x # xs, finished s)
      else case run_session p me (fk_on_tick k) x s of
             (Inr _, s1) \<Rightarrow> (Feed_Finished, xs, finished s1)
           | (Inl e, s1) \<Rightarrow>
               if rf_stopped s1 then (Feed_Finished, xs, finished s1)
               else (case after_failure p k me x e s1 of
                       (Inl e1, s2) \<Rightarrow> (Feed_Failed e1, xs, s2)
                     | (Inr _, s2) \<Rightarrow> run_feed p k me xs s2))"

text \<open>start: the calling thread owns the adapter until its loop has ended and the adapter is closed.\<close>

definition start_feed ::
  "('a, 'x) live_port_scheme \<Rightarrow> 'h feed_hooks \<Rightarrow> nat \<Rightarrow> feed_session list \<Rightarrow> ('a, 'h) reconnecting
    \<Rightarrow> feed_outcome \<times> feed_session list \<times> ('a, 'h) reconnecting" where
  "start_feed p k me xs s =
     (if rf_security_ids s = [] then (Feed_Failed FeedUnavailableError, xs, s)
      else
        case run_feed p k me xs (s\<lparr>rf_consecutive_failures := 0, rf_owner_thread := Some me, rf_closed := False\<rparr>) of
          (Feed_Running, ys, s1) \<Rightarrow> (Feed_Running, ys, s1)
        | (r, ys, s1) \<Rightarrow>
            (case close_owned p me s1 of
               (Inl e, s2) \<Rightarrow> (Feed_Failed e, ys, s2)
             | (Inr _, s2) \<Rightarrow> (r, ys, s2\<lparr>rf_owner_thread := None\<rparr>)))"

section \<open>Bounds of the backoff\<close>

text \<open>
  The pause before every attempt is positive and never above the configured maximum, jitter included, and jitter takes
  away at most its share of the capped exponential.
\<close>

theorem delay_is_capped:
  assumes "policy_ok p" "1 \<le> n" "0 \<le> rng" "rng < 1"
  shows "case delay_for n rng p of
           Inl _ \<Rightarrow> False
         | Inr d \<Rightarrow> 0 < d \<and> d \<le> rp_max_backoff p
             \<and> (1 - rp_jitter_ratio p) * min (rp_initial_backoff p * rp_multiplier p ^ (n - 1)) (rp_max_backoff p) \<le> d"
proof -
  let ?c = "min (rp_initial_backoff p * rp_multiplier p ^ (n - 1)) (rp_max_backoff p)"
  let ?j = "rp_jitter_ratio p * rng"
  have j: "0 \<le> ?j" "?j \<le> rp_jitter_ratio p" "?j < 1"
    using assms mult_left_mono [of rng 1 "rp_jitter_ratio p"] mult_mono [of "rp_jitter_ratio p" 1 rng rng]
    by (auto simp: policy_ok_def intro: order.strict_trans1)
  have c: "0 < ?c" "?c \<le> rp_max_backoff p" using assms(1) by (auto simp: policy_ok_def)
  have "0 < ?c * (1 - ?j)" using c(1) j(3) by simp
  moreover have "?c * (1 - ?j) \<le> ?c" by (rule mult_left_le) (use c j in linarith)+
  moreover have "(1 - rp_jitter_ratio p) * ?c \<le> ?c * (1 - ?j)" using c(1) j(2) by (simp add: mult.commute)
  ultimately show ?thesis using assms(2) c(2) by (simp add: delay_for_def Let_def)
qed

lemma delay_is_capped_witness:
  "case delay_for 9 (1 / 2) default_reconnect_policy of
     Inl _ \<Rightarrow> False
   | Inr d \<Rightarrow> 0 < d \<and> d \<le> rp_max_backoff default_reconnect_policy
       \<and> (1 - rp_jitter_ratio default_reconnect_policy)
           * min (rp_initial_backoff default_reconnect_policy * rp_multiplier default_reconnect_policy ^ (9 - 1))
               (rp_max_backoff default_reconnect_policy) \<le> d"
  by (rule delay_is_capped) (simp_all add: policy_ok_def default_reconnect_policy_def)

lemma delay_for_returns: "1 \<le> n \<Longrightarrow> \<exists>d. delay_for n rng p = Inr d"
  by (simp add: delay_for_def Let_def)

section \<open>What every operation leaves alone\<close>

lemma on_health_same [simp]:
  "rf_policy (on_health f s) = rf_policy s" "rf_stopped (on_health f s) = rf_stopped s" "rf_closed (on_health f s) = rf_closed s"
  "rf_owner_thread (on_health f s) = rf_owner_thread s" "rf_consecutive_failures (on_health f s) = rf_consecutive_failures s"
  "rf_health (on_health f s) = f (rf_health s)" "rf_adapter (on_health f s) = rf_adapter s"
  "rf_security_ids (on_health f s) = rf_security_ids s" "rf_stop_requested (on_health f s) = rf_stop_requested s"
  "rf_client (on_health f s) = rf_client s"
  by (simp_all add: on_health_def)

lemma emit_same [simp]:
  "rf_policy (emit e s) = rf_policy s" "rf_stopped (emit e s) = rf_stopped s" "rf_closed (emit e s) = rf_closed s"
  "rf_owner_thread (emit e s) = rf_owner_thread s" "rf_consecutive_failures (emit e s) = rf_consecutive_failures s"
  "rf_health (emit e s) = rf_health s" "rf_adapter (emit e s) = rf_adapter s"
  "rf_security_ids (emit e s) = rf_security_ids s" "rf_stop_requested (emit e s) = rf_stop_requested s"
  "rf_client (emit e s) = rf_client s"
  by (simp_all add: emit_def)

lemma mark_connected_same [simp]:
  "rf_policy (mark_connected now s) = rf_policy s" "rf_stopped (mark_connected now s) = rf_stopped s"
  "rf_closed (mark_connected now s) = rf_closed s" "rf_owner_thread (mark_connected now s) = rf_owner_thread s"
  "rf_consecutive_failures (mark_connected now s) = rf_consecutive_failures s" "rf_adapter (mark_connected now s) = rf_adapter s"
  "rf_stop_requested (mark_connected now s) = rf_stop_requested s"
  "fh_degraded (rf_health (mark_connected now s)) = fh_degraded (rf_health s)"
  "fh_token_refreshes (rf_health (mark_connected now s)) = fh_token_refreshes (rf_health s)"
  "rf_security_ids (mark_connected now s) = rf_security_ids s"
  by (simp_all add: mark_connected_def Let_def split: option.split)

lemma mark_disconnected_same [simp]:
  "rf_policy (mark_disconnected p g now x s) = rf_policy s" "rf_stopped (mark_disconnected p g now x s) = rf_stopped s"
  "rf_closed (mark_disconnected p g now x s) = rf_closed s" "rf_owner_thread (mark_disconnected p g now x s) = rf_owner_thread s"
  "rf_consecutive_failures (mark_disconnected p g now x s) = rf_consecutive_failures s"
  "rf_adapter (mark_disconnected p g now x s) = rf_adapter s" "fh_degraded (rf_health (mark_disconnected p g now x s))"
  "rf_stop_requested (mark_disconnected p g now x s) = rf_stop_requested s"
  "fh_token_refreshes (rf_health (mark_disconnected p g now x s)) = fh_token_refreshes (rf_health s)"
  "rf_security_ids (mark_disconnected p g now x s) = rf_security_ids s"
  by (simp_all add: mark_disconnected_def Let_def split: option.split prod.split)

lemma maybe_refresh_same [simp]:
  "rf_policy (maybe_refresh_token r s) = rf_policy s" "rf_stopped (maybe_refresh_token r s) = rf_stopped s"
  "rf_closed (maybe_refresh_token r s) = rf_closed s" "rf_owner_thread (maybe_refresh_token r s) = rf_owner_thread s"
  "rf_consecutive_failures (maybe_refresh_token r s) = rf_consecutive_failures s"
  "rf_adapter (maybe_refresh_token r s) = rf_adapter s"
  "rf_stop_requested (maybe_refresh_token r s) = rf_stop_requested s"
  "fh_degraded (rf_health (maybe_refresh_token r s)) = fh_degraded (rf_health s)"
  "rf_security_ids (maybe_refresh_token r s) = rf_security_ids s"
  by (simp_all add: maybe_refresh_token_def split: option.split)

lemma keeps_adapter_act [keep_rules]: "(\<And>s a. P s \<Longrightarrow> P (s\<lparr>rf_adapter := a\<rparr>)) \<Longrightarrow> keeps P (adapter_act m)"
  by (auto simp: tri_def adapter_act_def split: prod.split sum.split)

lemma keeps_client_act [keep_rules]: "(\<And>s h. P s \<Longrightarrow> P (s\<lparr>rf_client := h\<rparr>)) \<Longrightarrow> keeps P (client_act m)"
  by (auto simp: tri_def client_act_def split: prod.split sum.split)

section \<open>The attempt budget\<close>

definition run_inv :: "reconnect_policy \<Rightarrow> ('a, 'h) reconnecting \<Rightarrow> bool" where
  "run_inv pol s =
     (rf_policy s = pol \<and> (rf_closed s \<longrightarrow> rf_stopped s) \<and> (rf_stop_requested s \<longrightarrow> rf_stopped s)
      \<and> (fh_degraded (rf_health s) \<or> rf_consecutive_failures s = 0))"

text \<open>What the operations of a session keep: the invariant, a stop once made, a budget once restored.\<close>

definition budget_settled :: "reconnect_policy \<Rightarrow> ('a, 'h) reconnecting \<Rightarrow> bool" where
  "budget_settled pol s = (run_inv pol s \<and> (rf_stopped s \<or> rf_consecutive_failures s = 0))"

lemma adapter_act_inv [keep_rules]: "keeps (run_inv pol) (adapter_act m)" "keeps (budget_settled pol) (adapter_act m)"
  by (auto simp: tri_def adapter_act_def run_inv_def budget_settled_def split: prod.split sum.split)

lemma client_act_inv [keep_rules]: "keeps (run_inv pol) (client_act m)" "keeps (budget_settled pol) (client_act m)"
  by (auto simp: tri_def client_act_def run_inv_def budget_settled_def split: prod.split sum.split)

lemma close_owned_inv: "rf_stopped s \<Longrightarrow> run_inv pol s \<Longrightarrow> close_owned p me s = (r, s1) \<Longrightarrow> run_inv pol s1 \<and> rf_stopped s1"
  by (auto simp: close_owned_def adapter_act_def run_inv_def split: if_splits prod.splits)

lemma stop_feed_inv: "run_inv pol s \<Longrightarrow> stop_feed_by p u s = (r, s1) \<Longrightarrow> run_inv pol s1 \<and> rf_stopped s1"
  by (auto simp: stop_feed_by_def Let_def close_owned_def adapter_act_def run_inv_def split: if_splits prod.splits option.splits)

lemma request_stop_inv: "run_inv pol s \<Longrightarrow> run_inv pol (request_stop_feed p s) \<and> rf_stopped (request_stop_feed p s)"
  by (simp add: request_stop_feed_def run_inv_def)

lemma client_act_same:
  "client_act m s = (r, s1) \<Longrightarrow> rf_consecutive_failures s1 = rf_consecutive_failures s \<and> rf_health s1 = rf_health s
    \<and> rf_stopped s1 = rf_stopped s \<and> rf_owner_thread s1 = rf_owner_thread s \<and> rf_stop_requested s1 = rf_stop_requested s
    \<and> rf_closed s1 = rf_closed s \<and> rf_policy s1 = rf_policy s \<and> rf_security_ids s1 = rf_security_ids s"
  by (auto simp: client_act_def split: prod.splits)

text \<open>A tick that is taken restores the budget.\<close>

lemma observe_settles: "run_inv pol s \<Longrightarrow> observe p me cb t s = (r, s1) \<Longrightarrow> budget_settled pol s1"
proof -
  assume inv: "run_inv pol s" and o: "observe p me cb t s = (r, s1)"
  define s2 where "s2 = note_tick t s"
  have s2: "budget_settled pol s2" using inv by (auto simp: s2_def note_tick_def Let_def budget_settled_def run_inv_def)
  obtain r3 s3 where c: "client_act (cb t) s2 = (r3, s3)" by fastforce
  have s3: "budget_settled pol s3" using keepsD [OF client_act_inv(2) s2 c] .
  have "(r, s1) = (case r3 of Inl e \<Rightarrow> (Inl e, s3) | Inr _ \<Rightarrow> if rf_stop_requested s3 then close_owned p me s3 else (Inr (), s3))"
    using o c by (simp add: observe_def s2_def andThen_def split: sum.splits)
  then show ?thesis using s3 close_owned_inv [of s3 pol p me r s1]
    by (auto simp: budget_settled_def run_inv_def split: sum.splits if_splits)
qed

definition is_got :: "feed_signal \<Rightarrow> bool" where
  "is_got x = (case x of Got _ \<Rightarrow> True | _ \<Rightarrow> False)"

definition signal_act ::
  "('a, 'x) live_port_scheme \<Rightarrow> nat \<Rightarrow> (tick \<Rightarrow> (unit, 'h) act) \<Rightarrow> feed_signal \<Rightarrow> (unit, ('a, 'h) reconnecting) act" where
  "signal_act p me cb x = (case x of Got t \<Rightarrow> observe p me cb t | Stop_By u \<Rightarrow> stop_feed_by p u
                    | Stop_Request \<Rightarrow> (\<lambda>s. (Inr (), request_stop_feed p s)))"

lemma signal_settles: "run_inv pol s \<Longrightarrow> signal_act p me cb x s = (r, s1) \<Longrightarrow> budget_settled pol s1"
  using observe_settles [of pol s p me cb _ r s1] stop_feed_inv [of pol s p _ r s1] request_stop_inv [of pol s p]
  by (cases x) (auto simp: signal_act_def budget_settled_def)

lemma deliver_Cons:
  "deliver_signals p me cb (x # xs) s =
     (if rf_closed s then (Inr True, s) else andThen (signal_act p me cb x) (\<lambda>_. deliver_signals p me cb xs) s)"
  by (simp add: signal_act_def)

lemma deliver_inv:
  "deliver_signals p me cb xs s = (r, s1) \<Longrightarrow> run_inv pol s \<Longrightarrow> run_inv pol s1 \<and> (budget_settled pol s \<or> list_ex is_got xs \<longrightarrow> budget_settled pol s1)"
proof (induction xs arbitrary: s)
  case (Cons x xs)
  show ?case
  proof (cases "rf_closed s")
    case True
    then show ?thesis using Cons.prems by (auto simp: budget_settled_def run_inv_def)
  next
    case False
    obtain r2 s2 where x: "signal_act p me cb x s = (r2, s2)" by fastforce
    have s2: "budget_settled pol s2" by (rule signal_settles [OF Cons.prems(2) x])
    show ?thesis
    proof (cases r2)
      case (Inl e)
      then show ?thesis using Cons.prems(1) False x s2 by (auto simp: deliver_Cons andThen_def budget_settled_def simp del: deliver_signals.simps)
    next
      case (Inr u)
      then have "deliver_signals p me cb xs s2 = (r, s1)"
        using Cons.prems(1) False x by (simp add: deliver_Cons andThen_def del: deliver_signals.simps)
      from Cons.IH [OF this] s2 show ?thesis by (auto simp: budget_settled_def)
    qed
  qed
qed auto

text \<open>Without a tick and without a stop the budget is what it was.\<close>

lemma deliver_no_tick:
  "deliver_signals p me cb xs s = (r, s1) \<Longrightarrow> run_inv pol s \<Longrightarrow> \<not> list_ex is_got xs
    \<Longrightarrow> rf_consecutive_failures s1 = rf_consecutive_failures s"
proof (induction xs arbitrary: s)
  case (Cons x xs)
  show ?case
  proof (cases "rf_closed s")
    case False
    obtain r2 s2 where x: "signal_act p me cb x s = (r2, s2)" by fastforce
    have s2: "run_inv pol s2" using signal_settles [OF Cons.prems(2) x] by (simp add: budget_settled_def)
    have "rf_consecutive_failures s2 = rf_consecutive_failures s"
      using x Cons.prems(3) by (cases x) (auto simp: signal_act_def is_got_def stop_feed_by_def close_owned_def adapter_act_def
          request_stop_feed_def Let_def split: if_splits option.splits prod.splits)
    then show ?thesis using Cons.IH [of s2] Cons.prems False x s2
      by (cases r2) (auto simp: deliver_Cons andThen_def simp del: deliver_signals.simps)
  qed (use Cons.prems in auto)
qed simp

lemma run_session_inv:
  assumes "run_session p me cb x s = (r, s1)" "run_inv pol s"
  shows "run_inv pol s1 \<and> (budget_settled pol s \<or> list_ex is_got (fs_signals x) \<longrightarrow> budget_settled pol s1)
    \<and> (\<not> list_ex is_got (fs_signals x) \<longrightarrow> rf_consecutive_failures s1 = rf_consecutive_failures s)"
proof -
  let ?s = "mark_connected (fs_started_at x) s"
  have inv: "run_inv pol ?s" "budget_settled pol ?s = budget_settled pol s"
    using assms(2) by (simp_all add: run_inv_def budget_settled_def mark_connected_def Let_def split: option.split)
  obtain r2 s2 where d: "deliver_signals p me cb (fs_signals x) ?s = (r2, s2)" by fastforce
  have "s1 = s2\<lparr>rf_adapter := lp_ran p (fs_code x) (rf_adapter s2)\<rparr>"
    using assms(1) d by (auto simp: run_session_def Let_def split: sum.splits bool.splits option.splits)
  then show ?thesis
    using deliver_inv [OF d inv(1)] deliver_no_tick [OF d inv(1)] inv(2) by (auto simp: run_inv_def budget_settled_def)
qed

text \<open>An adapter whose subscribing and closing do not raise, as the live adapter's do on a reconnect.\<close>

definition never_raises :: "('r, 's) act \<Rightarrow> bool" where
  "never_raises m = (\<forall>s. returned (fst (m s)))"

definition port_ok :: "('a, 'x) live_port_scheme \<Rightarrow> bool" where
  "port_ok p =
     ((\<forall>ids. never_raises (fp_subscribe p ids None None)) \<and> (\<forall>u. never_raises (fp_stop p u))
      \<and> (case lp_resubscribe_all p of None \<Rightarrow> True | Some m \<Rightarrow> never_raises m))"

lemma never_raisesD: "never_raises m \<Longrightarrow> \<exists>x a. m s = (Inr x, a)"
  unfolding never_raises_def returned_iff by (metis prod.collapse)

lemma adapter_act_returns: "never_raises m \<Longrightarrow> \<exists>x a. adapter_act m s = (Inr x, s\<lparr>rf_adapter := a\<rparr>)"
  using never_raisesD [of m "rf_adapter s"] by (auto simp: adapter_act_def)

lemma close_owned_returns: "port_ok p \<Longrightarrow> \<exists>s1. close_owned p u s = (Inr (), s1) \<and> rf_closed s1"
  using adapter_act_returns [of "fp_stop p u" "on_health (\<lambda>h. h\<lparr>fh_connected := False\<rparr>) (s\<lparr>rf_closed := True\<rparr>)"]
  by (auto simp: close_owned_def port_ok_def)

lemma reconnect_returns:
  assumes "port_ok p"
  shows "\<exists>s1. reconnect p me s = (Inr (), s1) \<and> rf_policy s1 = rf_policy s \<and> rf_stopped s1 = rf_stopped s
    \<and> rf_closed s1 = rf_closed s \<and> rf_stop_requested s1 = rf_stop_requested s
    \<and> rf_consecutive_failures s1 = rf_consecutive_failures s
    \<and> fh_degraded (rf_health s1) = fh_degraded (rf_health s) \<and> rf_owner_thread s1 = rf_owner_thread s
    \<and> rf_security_ids s1 = rf_security_ids s \<and> fh_token_refreshes (rf_health s1) = fh_token_refreshes (rf_health s)"
proof -
  let ?s0 = "on_health (\<lambda>h. h\<lparr>fh_reconnect_count := fh_reconnect_count h + 1\<rparr>) s"
  obtain a1 where s1: "adapter_act (fp_stop p me) ?s0 = (Inr (), ?s0\<lparr>rf_adapter := a1\<rparr>)"
    using adapter_act_returns [of "fp_stop p me" ?s0] assms by (auto simp: port_ok_def)
  let ?s1 = "?s0\<lparr>rf_adapter := a1\<rparr>"
  obtain a2 where s2: "adapter_act (fp_subscribe p (rf_security_ids ?s1) None None) ?s1 = (Inr (), ?s1\<lparr>rf_adapter := a2\<rparr>)"
    using adapter_act_returns [of "fp_subscribe p (rf_security_ids ?s1) None None" ?s1] assms by (auto simp: port_ok_def)
  let ?s2 = "?s1\<lparr>rf_adapter := a2\<rparr>"
  obtain a3 where s3: "(case lp_resubscribe_all p of None \<Rightarrow> ret () | Some m \<Rightarrow> adapter_act m) ?s2 = (Inr (), ?s2\<lparr>rf_adapter := a3\<rparr>)"
  proof (cases "lp_resubscribe_all p")
    case None
    then show ?thesis using that [of a2] by (simp add: ret_def)
  next
    case (Some m)
    then show ?thesis using that adapter_act_returns [of m ?s2] assms by (auto simp: port_ok_def)
  qed
  show ?thesis using s1 s2 s3 by (simp add: reconnect_def andThen_def Let_def)
qed

lemma stops_during_inv:
  "stops_during p xs s = (r, s1) \<Longrightarrow> run_inv pol s \<Longrightarrow>
     run_inv pol s1 \<and> rf_consecutive_failures s1 = rf_consecutive_failures s \<and> (rf_stopped s \<longrightarrow> rf_stopped s1)"
proof (induction xs arbitrary: s)
  case (Cons x xs)
  let ?m = "case x of Got t \<Rightarrow> ret () | Stop_By u \<Rightarrow> stop_feed_by p u | Stop_Request \<Rightarrow> (\<lambda>s. (Inr (), request_stop_feed p s))"
  obtain r2 s2 where x: "?m s = (r2, s2)" by fastforce
  have "run_inv pol s2 \<and> rf_consecutive_failures s2 = rf_consecutive_failures s \<and> (rf_stopped s \<longrightarrow> rf_stopped s2)"
    using x Cons.prems(2) stop_feed_inv [of pol s p _ r2 s2] request_stop_inv [of pol s p]
    by (cases x) (auto simp: ret_def stop_feed_by_def close_owned_def adapter_act_def request_stop_feed_def Let_def
        split: if_splits option.splits prod.splits)
  then show ?case using Cons.IH [of s2] Cons.prems x by (cases r2) (auto simp: andThen_def)
qed auto

lemma stops_during_returns: "port_ok p \<Longrightarrow> \<exists>s1. stops_during p xs s = (Inr (), s1)"
proof (induction xs arbitrary: s)
  case (Cons x xs)
  have "\<exists>s2. stop_feed_by p u s = (Inr (), s2)" for u
    unfolding stop_feed_by_def Let_def using close_owned_returns [OF Cons.prems, of u] by (auto split: option.split)
  then obtain s2 where
    "(case x of Got t \<Rightarrow> ret () | Stop_By u \<Rightarrow> stop_feed_by p u | Stop_Request \<Rightarrow> (\<lambda>s. (Inr (), request_stop_feed p s))) s = (Inr (), s2)"
    by (cases x) (auto simp: ret_def)
  then show ?case using Cons by (simp add: andThen_def)
qed simp

lemma after_failure_cases:
  assumes "port_ok p" "run_inv pol s" "1 \<le> rp_max_attempts pol"
  shows "\<exists>s1. if rp_max_attempts pol \<le> rf_consecutive_failures s + 1
     then after_failure p k me x e s = (Inl FeedUnavailableError, s1) \<and> rf_closed s1 = rf_closed s
     else after_failure p k me x e s = (Inr (), s1) \<and> run_inv pol s1
       \<and> rf_consecutive_failures s1 = rf_consecutive_failures s + 1 \<and> (rf_stopped s \<longrightarrow> rf_stopped s1)"
proof -
  let ?s1 = "s\<lparr>rf_consecutive_failures := rf_consecutive_failures s + 1\<rparr>"
  let ?s2 = "mark_disconnected p (fk_on_feed_gap k) (fs_ended_at x) e
               (on_health (\<lambda>h. h\<lparr>fh_failed_attempts := fh_failed_attempts h + 1\<rparr>) ?s1)"
  let ?s3 = "maybe_refresh_token (if fk_refresh_token k then Some (fs_refresh x) else None) ?s2"
  let ?s4 = "emit ((health_event ''reconnect_attempted'')\<lparr>he_attempt := Some (rf_consecutive_failures s + 1),
     he_reason := fh_last_disconnect_reason (rf_health ?s3), he_reason_code := fh_last_disconnect_code (rf_health ?s3)\<rparr>) ?s3"
  have pol: "rf_policy s = pol" using assms(2) by (simp add: run_inv_def)
  show ?thesis
  proof (cases "rp_max_attempts pol \<le> rf_consecutive_failures s + 1")
    case True
    then show ?thesis by (simp add: after_failure_def Let_def pol)
  next
    case False
    obtain d where d: "delay_for (rf_consecutive_failures s + 1) (fs_rng x) pol = Inr d" using delay_for_returns by fastforce
    have i4: "run_inv pol ?s4" using assms(2) by (simp add: run_inv_def)
    obtain s5 where s5: "stops_during p (fs_pause x) ?s4 = (Inr (), s5)" using stops_during_returns [OF assms(1)] by blast
    obtain s6 where s6: "reconnect p me s5 = (Inr (), s6)" "rf_policy s6 = rf_policy s5" "rf_stopped s6 = rf_stopped s5"
      "rf_closed s6 = rf_closed s5" "rf_stop_requested s6 = rf_stop_requested s5"
      "rf_consecutive_failures s6 = rf_consecutive_failures s5" "fh_degraded (rf_health s6) = fh_degraded (rf_health s5)"
      using reconnect_returns [OF assms(1), of me s5] by blast
    have "after_failure p k me x e s = (Inr (), s6)"
      using False d s5 s6(1) by (simp add: after_failure_def Let_def pol andThen_def)
    moreover have "run_inv pol s6" "rf_consecutive_failures s6 = rf_consecutive_failures s + 1" "rf_stopped s \<longrightarrow> rf_stopped s6"
      using stops_during_inv [OF s5 i4] s6 by (auto simp: run_inv_def)
    ultimately show ?thesis using False by auto
  qed
qed

definition no_tick :: "feed_session \<Rightarrow> bool" where
  "no_tick x = (\<not> list_ex is_got (fs_signals x))"

lemma run_feed_budget:
  assumes "port_ok p" "1 \<le> rp_max_attempts pol"
  shows "run_feed p k me xs s = (Feed_Failed FeedUnavailableError, ys, s1) \<Longrightarrow> run_inv pol s
    \<Longrightarrow> rf_consecutive_failures s < rp_max_attempts pol \<Longrightarrow>
    \<exists>pre. xs = pre @ ys \<and>
      (length pre = rp_max_attempts pol - rf_consecutive_failures s \<and> list_all no_tick pre
       \<or> (\<exists>b out. pre = b @ out \<and> length out = rp_max_attempts pol \<and> list_all no_tick (tl out)))"
proof (induction xs arbitrary: s)
  case (Cons x xs)
  let ?m = "rp_max_attempts pol"
  have ns: "\<not> rf_stopped s" using Cons.prems(1) by (auto split: if_splits)
  obtain r s2 where r: "run_session p me (fk_on_tick k) x s = (r, s2)" by fastforce
  note i = run_session_inv [OF r Cons.prems(2)]
  obtain e where e: "r = Inl e" "\<not> rf_stopped s2" using Cons.prems(1) ns r by (cases r) (auto split: if_splits)
  from after_failure_cases [OF assms(1) conjunct1 [OF i] assms(2)] obtain s3 where a: "if ?m \<le> rf_consecutive_failures s2 + 1
     then after_failure p k me x e s2 = (Inl FeedUnavailableError, s3) \<and> rf_closed s3 = rf_closed s2
     else after_failure p k me x e s2 = (Inr (), s3) \<and> run_inv pol s3
       \<and> rf_consecutive_failures s3 = rf_consecutive_failures s2 + 1 \<and> (rf_stopped s2 \<longrightarrow> rf_stopped s3)" ..
  have c: "if no_tick x then rf_consecutive_failures s2 = rf_consecutive_failures s else rf_consecutive_failures s2 = 0"
    using i e(2) by (auto simp: no_tick_def budget_settled_def)
  show ?case
  proof (cases "?m \<le> rf_consecutive_failures s2 + 1")
    case True
    then have "ys = xs" using a Cons.prems(1) ns r e by simp
    show ?thesis
    proof (cases "no_tick x")
      case quiet: True
      then show ?thesis using True c Cons.prems(3) \<open>ys = xs\<close> by (intro exI [of _ "[x]"]) auto
    next
      case tick: False
      then have "length [x] = ?m \<and> list_all no_tick (tl [x])" using True c assms(2) by simp
      then show ?thesis using \<open>ys = xs\<close> by (intro exI [of _ "[x]"]) (metis append_Cons append_Nil)
    qed
  next
    case False
    then have rec: "run_feed p k me xs s3 = (Feed_Failed FeedUnavailableError, ys, s1)"
      and s3: "run_inv pol s3" "rf_consecutive_failures s3 = rf_consecutive_failures s2 + 1"
      using a Cons.prems(1) ns r e by simp_all
    obtain pre where pre: "xs = pre @ ys" "length pre = ?m - rf_consecutive_failures s3 \<and> list_all no_tick pre
       \<or> (\<exists>b out. pre = b @ out \<and> length out = ?m \<and> list_all no_tick (tl out))"
      using Cons.IH [OF rec s3(1)] False s3(2) by auto
    show ?thesis
    proof (cases "\<exists>b out. pre = b @ out \<and> length out = ?m \<and> list_all no_tick (tl out)")
      case True
      then obtain b out where "pre = b @ out" "length out = ?m" "list_all no_tick (tl out)" by blast
      then show ?thesis using pre(1) by (intro exI [of _ "x # pre"]) (metis append_Cons)
    next
      case no: False
      then have p: "length pre = ?m - rf_consecutive_failures s3" "list_all no_tick pre" using pre(2) by auto
      show ?thesis
      proof (cases "no_tick x")
        case True
        then show ?thesis using pre(1) p c s3(2) False by (intro exI [of _ "x # pre"]) auto
      next
        case tick: False
        then have "length (x # pre) = ?m" using p c s3(2) assms(2) by simp
        then show ?thesis using pre(1) p by (intro exI [of _ "x # pre"]) (metis append_Cons append_Nil list.sel(3))
      qed
    qed
  qed
qed (auto split: if_splits)

text \<open>Every run from a start has the invariant.\<close>

definition startable :: "('a, 'h) reconnecting \<Rightarrow> bool" where
  "startable s = (rf_security_ids s \<noteq> [] \<and> (rf_stop_requested s \<longrightarrow> rf_stopped s) \<and> 1 \<le> rp_max_attempts (rf_policy s))"

definition started :: "nat \<Rightarrow> ('a, 'h) reconnecting \<Rightarrow> ('a, 'h) reconnecting" where
  "started me s = s\<lparr>rf_consecutive_failures := 0, rf_owner_thread := Some me, rf_closed := False\<rparr>"

lemma started_inv: "startable s \<Longrightarrow> run_inv (rf_policy s) (started me s) \<and> rf_consecutive_failures (started me s) = 0"
  by (simp add: startable_def started_def run_inv_def)

lemma start_feed_ended:
  assumes "port_ok p" "startable s" "run_feed p k me xs (started me s) = (r, ys, s2)" "r \<noteq> Feed_Running"
  shows "\<exists>s1. start_feed p k me xs s = (r, ys, s1) \<and> rf_closed s1 \<and> rf_owner_thread s1 = None"
proof -
  obtain s3 where c: "close_owned p me s2 = (Inr (), s3)" "rf_closed s3" using close_owned_returns [OF assms(1)] by blast
  have "start_feed p k me xs s = (r, ys, s3\<lparr>rf_owner_thread := None\<rparr>)"
    using assms(2,4) c(1) unfolding start_feed_def started_def [symmetric] assms(3)
    by (cases r) (simp_all add: startable_def)
  then show ?thesis using c(2) by simp
qed

lemma start_feed_Failed:
  assumes "port_ok p" "startable s" "start_feed p k me xs s = (Feed_Failed e, ys, s1)"
  shows "\<exists>s2. run_feed p k me xs (started me s) = (Feed_Failed e, ys, s2) \<and> rf_closed s1 \<and> rf_owner_thread s1 = None"
proof -
  obtain r zs s2 where r: "run_feed p k me xs (started me s) = (r, zs, s2)" using prod_cases3 by blast
  show ?thesis
  proof (cases "r = Feed_Running")
    case True
    have "start_feed p k me xs s = (Feed_Running, zs, s2)"
      using assms(2) r True unfolding start_feed_def started_def [symmetric] by (simp add: startable_def)
    then show ?thesis using assms(3) by simp
  next
    case False
    then show ?thesis using start_feed_ended [OF assms(1,2) r False] assms(3) r by auto
  qed
qed

text \<open>C28: the attempt budget bounds one outage, not the day.  When the feed gives up with FeedUnavailableError, the attempts it
  used last, as many as the policy allows, delivered no tick from the second on: any tick before that restored the budget.
  It gives up with the adapter closed and no owner left.
\<close>

theorem budget_is_one_outage:
  assumes "port_ok p" "startable s" "start_feed p k me xs s = (Feed_Failed FeedUnavailableError, ys, s1)"
  shows "\<exists>before outage. xs = before @ outage @ ys \<and> length outage = rp_max_attempts (rf_policy s)
    \<and> list_all no_tick (tl outage) \<and> rf_closed s1 \<and> rf_owner_thread s1 = None"
proof -
  obtain s2 where s2: "run_feed p k me xs (started me s) = (Feed_Failed FeedUnavailableError, ys, s2)"
    "rf_closed s1" "rf_owner_thread s1 = None" using start_feed_Failed [OF assms] by blast
  have m: "1 \<le> rp_max_attempts (rf_policy s)" using assms(2) by (simp add: startable_def)
  note i = started_inv [OF assms(2), of me]
  obtain pre where pre: "xs = pre @ ys" "length pre = rp_max_attempts (rf_policy s) \<and> list_all no_tick pre
       \<or> (\<exists>b out. pre = b @ out \<and> length out = rp_max_attempts (rf_policy s) \<and> list_all no_tick (tl out))"
    using run_feed_budget [OF assms(1) m s2(1) conjunct1 [OF i]] i m by auto
  have tl: "list_all no_tick xs \<Longrightarrow> list_all no_tick (tl xs)" for xs by (cases xs) simp_all
  have "\<exists>before outage. pre = before @ outage \<and> length outage = rp_max_attempts (rf_policy s) \<and> list_all no_tick (tl outage)"
    using pre(2) tl [of pre] by (metis append_Nil)
  then show ?thesis using pre(1) s2(2,3) by auto
qed

section \<open>Failing closed\<close>

definition dead_session :: "feed_session \<Rightarrow> bool" where
  "dead_session x = (fs_signals x = [] \<and> fs_failure x \<noteq> None \<and> fs_pause x = [])"

definition live_inv :: "reconnect_policy \<Rightarrow> ('a, 'h) reconnecting \<Rightarrow> bool" where
  "live_inv pol s = (run_inv pol s \<and> \<not> rf_stopped s \<and> \<not> rf_closed s)"

lemma dead_run:
  assumes "dead_session x" "live_inv pol s"
  shows "\<exists>e s1. run_session p me cb x s = (Inl e, s1) \<and> live_inv pol s1
    \<and> rf_consecutive_failures s1 = rf_consecutive_failures s"
  using assms by (auto simp: run_session_def dead_session_def live_inv_def run_inv_def Let_def)

lemma dead_after_failure:
  assumes "port_ok p" "live_inv pol s" "dead_session x" "rf_consecutive_failures s + 1 < rp_max_attempts pol"
  shows "\<exists>s1. after_failure p k me x e s = (Inr (), s1) \<and> live_inv pol s1
    \<and> rf_consecutive_failures s1 = rf_consecutive_failures s + 1"
proof -
  let ?s2 = "mark_disconnected p (fk_on_feed_gap k) (fs_ended_at x) e
     (on_health (\<lambda>h. h\<lparr>fh_failed_attempts := fh_failed_attempts h + 1\<rparr>)
       (s\<lparr>rf_consecutive_failures := rf_consecutive_failures s + 1\<rparr>))"
  let ?s3 = "maybe_refresh_token (if fk_refresh_token k then Some (fs_refresh x) else None) ?s2"
  let ?s4 = "emit ((health_event ''reconnect_attempted'')\<lparr>he_attempt := Some (rf_consecutive_failures s + 1),
     he_reason := fh_last_disconnect_reason (rf_health ?s3), he_reason_code := fh_last_disconnect_code (rf_health ?s3)\<rparr>) ?s3"
  have pol: "rf_policy s = pol" using assms(2) by (simp add: live_inv_def run_inv_def)
  obtain d where d: "delay_for (rf_consecutive_failures s + 1) (fs_rng x) pol = Inr d" using delay_for_returns by fastforce
  obtain s6 where s6: "reconnect p me ?s4 = (Inr (), s6)" "rf_policy s6 = rf_policy ?s4" "rf_stopped s6 = rf_stopped ?s4"
    "rf_closed s6 = rf_closed ?s4" "rf_stop_requested s6 = rf_stop_requested ?s4"
    "rf_consecutive_failures s6 = rf_consecutive_failures ?s4" "fh_degraded (rf_health s6) = fh_degraded (rf_health ?s4)"
    using reconnect_returns [OF assms(1), of me ?s4] by blast
  have "after_failure p k me x e s = (Inr (), s6)"
    using assms(3,4) d s6(1) by (simp add: after_failure_def Let_def pol andThen_def dead_session_def)
  then show ?thesis using s6(2-) assms(2) by (auto simp: live_inv_def run_inv_def)
qed

lemma dead_feed:
  assumes "port_ok p"
  shows "list_all dead_session xs \<Longrightarrow> live_inv pol s \<Longrightarrow> rf_consecutive_failures s < rp_max_attempts pol
    \<Longrightarrow> rp_max_attempts pol - rf_consecutive_failures s \<le> length xs
    \<Longrightarrow> \<exists>s1. run_feed p k me xs s
          = (Feed_Failed FeedUnavailableError, drop (rp_max_attempts pol - rf_consecutive_failures s) xs, s1)"
proof (induction xs arbitrary: s)
  case (Cons x xs)
  let ?m = "rp_max_attempts pol" and ?c = "rf_consecutive_failures s"
  have x: "dead_session x" using Cons.prems(1) by simp
  obtain e s1 where r: "run_session p me (fk_on_tick k) x s = (Inl e, s1)" "live_inv pol s1" "rf_consecutive_failures s1 = ?c"
    using dead_run [OF x Cons.prems(2)] by blast
  have ns: "\<not> rf_stopped s" "\<not> rf_stopped s1" using Cons.prems(2) r(2) by (simp_all add: live_inv_def)
  show ?case
  proof (cases "?c + 1 < ?m")
    case True
    then obtain s2 where a: "after_failure p k me x e s1 = (Inr (), s2)" "live_inv pol s2" "rf_consecutive_failures s2 = ?c + 1"
      using dead_after_failure [OF assms r(2) x, of k me e] r(3) by auto
    obtain s3 where "run_feed p k me xs s2 = (Feed_Failed FeedUnavailableError, drop (?m - (?c + 1)) xs, s3)"
    proof -
      have "rp_max_attempts pol - (rf_consecutive_failures s + 1) \<le> length xs" using Cons.prems(4) by simp
      then show ?thesis using that Cons.IH [OF _ a(2)] Cons.prems(1) a(3) True by auto
    qed
    moreover have "?m - ?c = Suc (?m - (?c + 1))" using True by simp
    ultimately show ?thesis using r(1) a(1) ns by simp
  next
    case False
    then have m: "?m = ?c + 1" using Cons.prems(3) by simp
    obtain s2 where "after_failure p k me x e s1 = (Inl FeedUnavailableError, s2)"
      using after_failure_cases [OF assms, of pol s1 k me x e] r(2,3) m by (auto simp: live_inv_def)
    then show ?thesis using r(1) ns m by simp
  qed
qed simp

lemma dead_feed_start:
  assumes "port_ok p" "startable s" "\<not> rf_stopped s" "list_all dead_session xs" "rp_max_attempts (rf_policy s) \<le> length xs"
  shows "\<exists>s1. start_feed p k me xs s = (Feed_Failed FeedUnavailableError, drop (rp_max_attempts (rf_policy s)) xs, s1)
    \<and> rf_closed s1 \<and> rf_owner_thread s1 = None"
proof -
  note i = started_inv [OF assms(2), of me]
  have "live_inv (rf_policy s) (started me s)" using i assms(3) by (simp add: live_inv_def started_def)
  then obtain s2 where "run_feed p k me xs (started me s)
      = (Feed_Failed FeedUnavailableError, drop (rp_max_attempts (rf_policy s)) xs, s2)"
    using dead_feed [OF assms(1,4), of "rf_policy s" "started me s" k me] i assms(2,5) by (auto simp: startable_def)
  from start_feed_ended [OF assms(1,2) this] show ?thesis by blast
qed

text \<open>C29: an outage that does not end makes the feed fail closed: if every attempt of the adapter fails without a tick, start
  raises FeedUnavailableError after exactly as many attempts as the policy allows, with the adapter closed.
\<close>

theorem dead_feed_fails_closed:
  assumes "port_ok p" "startable s" "\<not> rf_stopped s" "list_all dead_session xs" "rp_max_attempts (rf_policy s) \<le> length xs"
  shows "\<exists>s1. start_feed p k me xs s = (Feed_Failed FeedUnavailableError, drop (rp_max_attempts (rf_policy s)) xs, s1)
    \<and> rf_closed s1 \<and> rf_owner_thread s1 = None"
  by (rule dead_feed_start [OF assms])

section \<open>Who closes the connection\<close>

text \<open>Two operations that agree, and keep the owner, from every state owned by the thread.\<close>

definition agree :: "nat \<Rightarrow> ('r, ('a, 'h) reconnecting) act \<Rightarrow> ('r, ('a, 'h) reconnecting) act \<Rightarrow> bool" where
  "agree me m n = (\<forall>s. rf_owner_thread s = Some me \<longrightarrow> m s = n s \<and> rf_owner_thread (snd (m s)) = Some me)"

lemma agree_andThen: "agree me m n \<Longrightarrow> (\<And>x. agree me (f x) (g x)) \<Longrightarrow> agree me (andThen m f) (andThen n g)"
  unfolding agree_def andThen_def by (simp split: prod.split sum.split) (metis prod.sel(2))

lemma agree_adapter: "agree me (adapter_act m) (adapter_act m)"
  by (simp add: agree_def adapter_act_def split: prod.split)

lemma agree_client: "agree me (client_act m) (client_act m)"
  by (simp add: agree_def client_act_def split: prod.split)

lemma agreeD:
  assumes "agree me m n" "rf_owner_thread s = Some me"
  shows "m s = n s" "rf_owner_thread (snd (m s)) = Some me" "rf_owner_thread (snd (n s)) = Some me"
  using assms by (auto simp: agree_def)

text \<open>The same adapter except for what its closing does on other threads.\<close>

definition same_but_closing :: "nat \<Rightarrow> ('a, 'x) live_port_scheme \<Rightarrow> ('a, 'x) live_port_scheme \<Rightarrow> bool" where
  "same_but_closing me p q =
     (fp_subscribe q = fp_subscribe p \<and> fp_request_stop q = fp_request_stop p \<and> fp_stop q me = fp_stop p me
      \<and> lp_code q = lp_code p \<and> lp_resubscribe_all q = lp_resubscribe_all p \<and> lp_subscribed q = lp_subscribed p
      \<and> lp_ran q = lp_ran p)"

lemma close_owned_same: "same_but_closing me p q \<Longrightarrow> close_owned p me s = close_owned q me s"
  by (simp add: close_owned_def same_but_closing_def)

lemma agree_close: "same_but_closing me p q \<Longrightarrow> agree me (close_owned p me) (close_owned q me)"
  by (simp add: agree_def close_owned_def adapter_act_def same_but_closing_def split: prod.split)

lemma agree_stop: "same_but_closing me p q \<Longrightarrow> agree me (stop_feed_by p u) (stop_feed_by q u)"
  by (auto simp: agree_def stop_feed_by_def Let_def close_owned_def adapter_act_def same_but_closing_def split: prod.split)

lemma agree_observe:
  assumes "same_but_closing me p q"
  shows "agree me (observe p me cb t) (observe q me cb t)"
proof -
  let ?c = "\<lambda>p s. if rf_stop_requested s then close_owned p me s else (Inr (), s)"
  have a: "agree me (andThen (client_act (cb t)) (\<lambda>_. ?c p)) (andThen (client_act (cb t)) (\<lambda>_. ?c q))"
    by (rule agree_andThen [OF agree_client]) (use agree_close [OF assms] in \<open>auto simp: agree_def\<close>)
  have "observe p me cb t s = observe q me cb t s \<and> rf_owner_thread (snd (observe p me cb t s)) = Some me"
    if "rf_owner_thread s = Some me" for s
  proof -
    have "rf_owner_thread (note_tick t s) = Some me" using that by (simp add: note_tick_def Let_def)
    from agreeD [OF a this] show ?thesis unfolding observe_def by blast
  qed
  then show ?thesis unfolding agree_def by blast
qed

lemma agree_signal:
  assumes "same_but_closing me p q"
  shows "agree me (signal_act p me cb x) (signal_act q me cb x)"
proof (cases x)
  case Stop_Request
  then show ?thesis using assms by (simp add: signal_act_def agree_def request_stop_feed_def same_but_closing_def)
qed (simp_all add: signal_act_def agree_observe agree_stop assms)

lemma agree_deliver: "same_but_closing me p q \<Longrightarrow> agree me (deliver_signals p me cb xs) (deliver_signals q me cb xs)"
proof (induction xs)
  case (Cons x xs)
  have "agree me (andThen (signal_act p me cb x) (\<lambda>_. deliver_signals p me cb xs)) (andThen (signal_act q me cb x) (\<lambda>_. deliver_signals q me cb xs))"
    by (rule agree_andThen) (simp_all add: agree_signal Cons)
  then show ?case by (auto simp: agree_def deliver_Cons simp del: deliver_signals.simps)
qed (simp add: agree_def)

lemma agree_stops: "same_but_closing me p q \<Longrightarrow> agree me (stops_during p xs) (stops_during q xs)"
proof (induction xs)
  case (Cons x xs)
  have "agree me (case x of Got t \<Rightarrow> ret () | Stop_By u \<Rightarrow> stop_feed_by p u | Stop_Request \<Rightarrow> (\<lambda>s. (Inr (), request_stop_feed p s)))
     (case x of Got t \<Rightarrow> ret () | Stop_By u \<Rightarrow> stop_feed_by q u | Stop_Request \<Rightarrow> (\<lambda>s. (Inr (), request_stop_feed q s)))"
    using agree_stop [OF Cons.prems] Cons.prems
    by (cases x) (auto simp: agree_def ret_def request_stop_feed_def same_but_closing_def)
  from agree_andThen [OF this, of "\<lambda>_. stops_during p xs" "\<lambda>_. stops_during q xs"] Cons show ?case by (simp add: agree_def)
qed (simp add: agree_def)

lemma reconnect_owner: "rf_owner_thread (snd (reconnect p me s)) = rf_owner_thread s"
  by (auto simp: reconnect_def andThen_def adapter_act_def ret_def Let_def split: prod.split sum.split option.split)

lemma agree_reconnect: "same_but_closing me p q \<Longrightarrow> agree me (reconnect p me) (reconnect q me)"
  unfolding agree_def by (simp add: reconnect_owner) (simp add: reconnect_def same_but_closing_def)

lemma agree_session: 
  assumes "same_but_closing me p q"
  shows "agree me (run_session p me cb x) (run_session q me cb x)"
proof -
  have ran: "lp_ran q = lp_ran p" using assms by (simp add: same_but_closing_def)
  have "run_session p me cb x s = run_session q me cb x s \<and> rf_owner_thread (snd (run_session p me cb x s)) = Some me"
    if "rf_owner_thread s = Some me" for s
  proof -
    have "rf_owner_thread (mark_connected (fs_started_at x) s) = Some me" using that by simp
    note d = agreeD [OF agree_deliver [OF assms] this, of cb "fs_signals x"]
    obtain r s1 where "deliver_signals q me cb (fs_signals x) (mark_connected (fs_started_at x) s) = (r, s1)" by fastforce
    then show ?thesis using d by (simp add: run_session_def ran Let_def split: sum.split bool.split option.split)
  qed
  then show ?thesis unfolding agree_def by blast
qed

lemma mark_disconnected_code: "lp_code q = lp_code p \<Longrightarrow> mark_disconnected q g now x s = mark_disconnected p g now x s"
  by (simp add: mark_disconnected_def)

lemma agree_after:
  assumes "same_but_closing me p q"
  shows "agree me (after_failure p k me x e) (after_failure q k me x e)"
proof -
  have code: "lp_code q = lp_code p" using assms by (simp add: same_but_closing_def)
  have a: "agree me (andThen (stops_during p (fs_pause x)) (\<lambda>_. reconnect p me)) (andThen (stops_during q (fs_pause x)) (\<lambda>_. reconnect q me))"
    by (rule agree_andThen) (simp_all add: agree_stops agree_reconnect assms)
  have "after_failure p k me x e s = after_failure q k me x e s \<and> rf_owner_thread (snd (after_failure p k me x e s)) = Some me"
    if o: "rf_owner_thread s = Some me" for s
    unfolding after_failure_def Let_def mark_disconnected_code [OF code]
    by (simp add: agreeD(1) [OF a] agreeD(3) [OF a] o split: sum.split)
  then show ?thesis unfolding agree_def by blast
qed

lemma agree_run:
  assumes "same_but_closing me p q"
  shows "rf_owner_thread s = Some me \<Longrightarrow> run_feed p k me xs s = run_feed q k me xs s"
proof (induction xs arbitrary: s)
  case (Cons x xs)
  obtain r s1 where r: "run_session q me (fk_on_tick k) x s = (r, s1)" by fastforce
  have p: "run_session p me (fk_on_tick k) x s = (r, s1)" "rf_owner_thread s1 = Some me"
    using agreeD [OF agree_session [OF assms] Cons.prems, of "fk_on_tick k" x] r by simp_all
  show ?case
  proof (cases r)
    case (Inl e)
    obtain r2 s2 where a: "after_failure q k me x e s1 = (r2, s2)" by fastforce
    have "after_failure p k me x e s1 = (r2, s2)" "rf_owner_thread s2 = Some me"
      using agreeD [OF agree_after [OF assms] p(2), of k x e] a by simp_all
    then show ?thesis using Cons.IH r p Inl a by (simp split: sum.split)
  qed (use r p in simp)
qed simp

text \<open>Only the thread that runs start closes the connection.  Whatever stops arrive, from whichever threads, a run of the
  feed is the same for two adapters that differ only in what their closing does when another thread calls it.
\<close>

theorem only_the_owner_closes:
  assumes "same_but_closing me p q"
  shows "start_feed p k me xs s = start_feed q k me xs s"
proof -
  have o: "rf_owner_thread (s\<lparr>rf_consecutive_failures := 0, rf_owner_thread := Some me, rf_closed := False\<rparr>) = Some me" by simp
  show ?thesis unfolding start_feed_def agree_run [OF assms o] by (simp add: close_owned_same [OF assms] split: prod.split feed_outcome.split)
qed

section \<open>Tokens and the reported subscriptions\<close>

text \<open>Without a refresh callback, which is how the group supervisor builds the feed, no outage ever refreshes a token.\<close>

lemma note_tick_refreshes [simp]: "fh_token_refreshes (rf_health (note_tick t s)) = fh_token_refreshes (rf_health s)"
  by (simp add: note_tick_def Let_def)

lemma close_owned_refreshes: "close_owned p me s = (r, s1) \<Longrightarrow> fh_token_refreshes (rf_health s1) = fh_token_refreshes (rf_health s)"
  by (auto simp: close_owned_def adapter_act_def split: if_splits prod.splits)

lemma signal_refreshes: "signal_act p me cb x s = (r, s1) \<Longrightarrow> fh_token_refreshes (rf_health s1) = fh_token_refreshes (rf_health s)"
  by (cases x)
     (auto simp: signal_act_def observe_def andThen_def stop_feed_by_def request_stop_feed_def Let_def
       split: prod.splits sum.splits option.splits if_splits dest!: client_act_same close_owned_refreshes)

lemma deliver_refreshes: "deliver_signals p me cb xs s = (r, s1) \<Longrightarrow> fh_token_refreshes (rf_health s1) = fh_token_refreshes (rf_health s)"
proof (induction xs arbitrary: s)
  case (Cons x xs)
  obtain r2 s2 where x: "signal_act p me cb x s = (r2, s2)" by fastforce
  show ?case using Cons.prems Cons.IH [of s2] x signal_refreshes [OF x]
    by (cases r2) (auto simp: deliver_Cons andThen_def simp del: deliver_signals.simps split: if_splits)
qed simp

lemma run_session_refreshes:
  "run_session p me cb x s = (r, s1) \<Longrightarrow> fh_token_refreshes (rf_health s1) = fh_token_refreshes (rf_health s)"
  by (auto simp: run_session_def Let_def split: prod.splits sum.splits bool.splits option.splits dest!: deliver_refreshes)

lemma stops_during_refreshes:
  "stops_during p xs s = (r, s1) \<Longrightarrow> fh_token_refreshes (rf_health s1) = fh_token_refreshes (rf_health s)"
proof (induction xs arbitrary: s)
  case (Cons x xs)
  let ?m = "case x of Got t \<Rightarrow> ret () | Stop_By u \<Rightarrow> stop_feed_by p u | Stop_Request \<Rightarrow> (\<lambda>s. (Inr (), request_stop_feed p s))"
  obtain r2 s2 where x: "?m s = (r2, s2)" by fastforce
  have "fh_token_refreshes (rf_health s2) = fh_token_refreshes (rf_health s)"
    using x by (cases x) (auto simp: ret_def stop_feed_by_def request_stop_feed_def Let_def split: option.splits if_splits dest!: close_owned_refreshes)
  then show ?case using Cons.IH [of s2] Cons.prems x by (cases r2) (auto simp: andThen_def)
qed simp

lemma reconnect_refreshes: "fh_token_refreshes (rf_health (snd (reconnect p me s))) = fh_token_refreshes (rf_health s)"
  by (auto simp: reconnect_def andThen_def adapter_act_def ret_def Let_def split: prod.split sum.split option.split)

lemma after_failure_refreshes:
  assumes "\<not> fk_refresh_token k" "after_failure p k me x e s = (r, s1)"
  shows "fh_token_refreshes (rf_health s1) = fh_token_refreshes (rf_health s)"
proof -
  have pause: "fh_token_refreshes (rf_health (snd (andThen (stops_during p (fs_pause x)) (\<lambda>_. reconnect p me) s2)))
      = fh_token_refreshes (rf_health s2)" for s2
    using stops_during_refreshes [of p "fs_pause x" s2]
    by (cases "stops_during p (fs_pause x) s2") (auto simp: andThen_def reconnect_refreshes split: sum.split)
  have "fh_token_refreshes (rf_health (snd (after_failure p k me x e s))) = fh_token_refreshes (rf_health s)"
    using assms(1) by (simp add: after_failure_def Let_def maybe_refresh_token_def pause split: sum.split)
  then show ?thesis using assms(2) by simp
qed

lemma no_callback_no_refresh:
  "\<not> fk_refresh_token k \<Longrightarrow> run_feed p k me xs s = (r, ys, s1)
    \<Longrightarrow> fh_token_refreshes (rf_health s1) = fh_token_refreshes (rf_health s)"
proof (induction xs arbitrary: s)
  case (Cons x xs)
  obtain q s2 where r: "run_session p me (fk_on_tick k) x s = (q, s2)" by fastforce
  note f = run_session_refreshes [OF r]
  show ?case
  proof (cases q)
    case (Inl e)
    obtain q3 s3 where a: "after_failure p k me x e s2 = (q3, s3)" by fastforce
    note g = after_failure_refreshes [OF Cons.prems(1) a]
    show ?thesis using Cons.IH [OF Cons.prems(1), of s3] Cons.prems(2) r a f g Inl
      by (cases q3) (auto simp: finished_def split: if_splits)
  qed (use Cons.prems r f in \<open>auto simp: finished_def split: if_splits\<close>)
qed (auto simp: finished_def split: if_splits)

text \<open>
  The count of active subscriptions is only ever set by a reconnect: a feed that has been healthy since it started reports
  a mismatch.
\<close>

lemma healthy_feed_reports_mismatch:
  assumes "ids \<noteq> []" "never_raises (fp_subscribe p (fold add_id ids []) None None)"
  shows "\<exists>a s1. subscribe_feed p ids None None (new_reconnecting adapter client policy) = (Inr (), s1)
    \<and> \<not> subscriptions_match (rf_health s1)
    \<and> \<not> subscriptions_match (rf_health (note_tick t (mark_connected now s1)))"
proof -
  have "fold add_id xs ys \<noteq> []" if "ys \<noteq> []" for xs ys using that by (induction xs arbitrary: ys) (auto simp: add_id_def)
  then have "fold add_id ids [] \<noteq> []" using assms(1) by (cases ids) (simp_all add: add_id_def)
  then show ?thesis
    using adapter_act_returns [OF assms(2), of "on_health (\<lambda>h. h\<lparr>fh_expected_subscriptions := length (fold add_id ids [])\<rparr>)
        (new_reconnecting adapter client policy\<lparr>rf_security_ids := fold add_id ids []\<rparr>)"]
    by (auto simp: subscribe_feed_def Let_def new_reconnecting_def new_feed_health_def subscriptions_match_def note_tick_def
        mark_connected_def)
qed

section \<open>Examples\<close>

definition quiet_port :: "nat live_port" where
  "quiet_port =
     \<lparr>fp_subscribe = (\<lambda>_ _ _. ret ()), fp_request_stop = (\<lambda>n. n), fp_stop = (\<lambda>u n. (Inr (), n + 1)),
      lp_code = (\<lambda>_. None), lp_resubscribe_all = None, lp_subscribed = (\<lambda>_. None), lp_ran = (\<lambda>_ n. n)\<rparr>"

definition quiet_hooks :: "nat feed_hooks" where
  "quiet_hooks = \<lparr>fk_on_tick = (\<lambda>t n. (Inr (), n + 1)), fk_on_feed_gap = Some (\<lambda>n. (0, n)), fk_refresh_token = False\<rparr>"

definition session_of :: "feed_signal list \<Rightarrow> exn option \<Rightarrow> feed_session" where
  "session_of xs e =
     \<lparr>fs_signals = xs, fs_code = None, fs_failure = e, fs_started_at = example_now, fs_ended_at = example_now,
      fs_refresh = None, fs_rng = 0, fs_pause = []\<rparr>"

definition quiet_feed :: "(nat, nat) reconnecting" where
  "quiet_feed = (new_reconnecting 0 0 (default_reconnect_policy\<lparr>rp_max_attempts := 2\<rparr>))\<lparr>rf_security_ids := [''13'']\<rparr>"

lemma quiet_ok: "port_ok quiet_port" "startable quiet_feed" "rp_max_attempts (rf_policy quiet_feed) = 2" "\<not> rf_stopped quiet_feed"
  by (simp_all add: port_ok_def never_raises_def quiet_port_def ret_def startable_def quiet_feed_def new_reconnecting_def
      default_reconnect_policy_def)

definition dead :: feed_session where "dead = session_of [] (Some OSError)"

lemma dead_ok: "list_all dead_session [dead, dead, dead]" "rp_max_attempts (rf_policy quiet_feed) \<le> length [dead, dead, dead]"
  by (simp_all add: dead_def session_of_def dead_session_def quiet_ok)

lemma dead_feed_fails_closed_witness:
  "case start_feed quiet_port quiet_hooks 1 [dead, dead, dead] quiet_feed of
     (r, ys, s1) \<Rightarrow> r = Feed_Failed FeedUnavailableError \<and> ys = [dead] \<and> rf_closed s1"
  using dead_feed_fails_closed [OF quiet_ok(1,2,4) dead_ok, of quiet_hooks 1] by (auto simp: quiet_ok)

lemma budget_is_one_outage_witness:
  "case start_feed quiet_port quiet_hooks 1 [dead, dead, dead] quiet_feed of
     (r, ys, s1) \<Rightarrow> \<exists>before outage. [dead, dead, dead] = before @ outage @ ys \<and> length outage = 2
       \<and> list_all no_tick (tl outage) \<and> rf_closed s1 \<and> rf_owner_thread s1 = None"
proof -
  obtain s1 where r: "start_feed quiet_port quiet_hooks 1 [dead, dead, dead] quiet_feed = (Feed_Failed FeedUnavailableError, [dead], s1)"
    using dead_feed_start [OF quiet_ok(1,2,4) dead_ok, of quiet_hooks 1] by (auto simp: quiet_ok)
  from budget_is_one_outage [OF quiet_ok(1,2) r] show ?thesis unfolding r by (simp add: quiet_ok)
qed

lemma only_the_owner_closes_witness:
  "start_feed quiet_port quiet_hooks 1 [session_of [Stop_By 2, Got (tick_at ''13'' 100 example_now)] None] quiet_feed
    = start_feed (quiet_port\<lparr>fp_stop := (\<lambda>u n. if u = 1 then (Inr (), n + 1) else (Inl RuntimeError, n))\<rparr>) quiet_hooks 1
        [session_of [Stop_By 2, Got (tick_at ''13'' 100 example_now)] None] quiet_feed"
  by (rule only_the_owner_closes) (simp add: same_but_closing_def quiet_port_def)

end
