(* ===== verification/Dhan_Feed.thy ===== *)
theory Dhan_Feed
  imports Reconnect Conversions Session
begin

text \<open>
  common/market\_data/dhan.py: the live adapter's subscriptions, the rebuilding of
  the exchange's time of day into an instant, and the normalisation of a frame;
  and the replay of common/market\_data/recorded.py.  The SDK's socket is the list
  of subscription frames sent on it, None when there is none; a frame is the
  decoded value the SDK returns.
\<close>

section \<open>The exchange time\<close>

text \<open>datetime.fromisoformat, and datetime.fromtimestamp up to the year 9999.\<close>

record feed_conversions = py_conversions +
  py_datetime :: "string \<Rightarrow> datetime option"

definition from_timestamp :: "rat \<Rightarrow> datetime result" where
  "from_timestamp q = (if 253402300800 \<le> q then Inl ValueError else Inr (DT (round_int (q * 1000000)) (Some utc)))"

definition strptime_hms :: "string \<Rightarrow> tod option" where
  "strptime_hms s =
     (case split_on CHR '':'' s of
        [h, m, s] \<Rightarrow>
          (case (field 24 h, field 60 m, field 60 s) of
             (Some h', Some m', Some s') \<Rightarrow> Some (time_of h' m' s') | _ \<Rightarrow> None)
      | _ \<Rightarrow> None)"

text \<open>Python's min with a key: the first of the least.\<close>

fun min_by :: "('a \<Rightarrow> int) \<Rightarrow> 'a \<Rightarrow> 'a list \<Rightarrow> 'a" where
  "min_by f x [] = x"
| "min_by f x (y # ys) = min_by f (if f y < f x then y else x) ys"

definition near_anchor :: "datetime \<Rightarrow> tod \<Rightarrow> datetime" where
  "near_anchor anchor t =
     (let on_day = (\<lambda>offset. astimezone utc (combine (dt_date (dt_add (astimezone ist anchor) (offset * day_us))) t ist)) in
      min_by (\<lambda>c. \<bar>dt_diff c anchor\<bar>) (on_day (- 1)) [on_day 0, on_day 1])"

definition reconstruct_exchange_time :: "feed_conversions \<Rightarrow> json \<Rightarrow> datetime \<Rightarrow> datetime option result" where
  "reconstruct_exchange_time py raw received_at =
     (case raw of
        JNull \<Rightarrow> Inr None
      | JNum q \<Rightarrow> if q \<le> 0 then Inr None else bindE (from_timestamp q) (\<lambda>d. Inr (Some d))
      | _ \<Rightarrow>
          let text = strip (as_str (py_conversions.truncate py) raw) in
          if text = [] then Inr None
          else case strptime_hms text of
            Some t \<Rightarrow> Inr (Some (near_anchor (astimezone utc received_at) t))
          | None \<Rightarrow>
              (case py_datetime py text of
                 None \<Rightarrow> Inr None
               | Some d \<Rightarrow> Inr (Some (if utcoffset d = None then DT (wall d) (Some utc) else d))))"

section \<open>Frames\<close>

record feed_counters =
  fc_ticks :: nat
  fc_non_tick_frames :: nat
  fc_malformed_payloads :: nat
  fc_exchange_time_fallbacks :: nat
  fc_empty_frames :: nat
  fc_untraded_frames :: nat
  fc_ticks_with_depth :: nat
  fc_ticks_one_sided_book :: nat
  fc_disconnects :: nat
  fc_disconnect_codes :: "(int, nat) dict"

definition no_counts :: feed_counters where
  "no_counts =
     \<lparr>fc_ticks = 0, fc_non_tick_frames = 0, fc_malformed_payloads = 0, fc_exchange_time_fallbacks = 0, fc_empty_frames = 0,
      fc_untraded_frames = 0, fc_ticks_with_depth = 0, fc_ticks_one_sided_book = 0, fc_disconnects = 0,
      fc_disconnect_codes = []\<rparr>"

definition ratio :: "nat \<Rightarrow> nat \<Rightarrow> rat" where
  "ratio n d = (if d = 0 then 0 else of_nat n / of_nat d)"

definition fallback_ratio :: "feed_counters \<Rightarrow> rat" where
  "fallback_ratio c = ratio (fc_exchange_time_fallbacks c) (fc_ticks c)"

definition depth_ratio :: "feed_counters \<Rightarrow> rat" where
  "depth_ratio c = ratio (fc_ticks_with_depth c) (fc_ticks c)"

definition is_never_traded :: "feed_conversions \<Rightarrow> json \<Rightarrow> bool" where
  "is_never_traded py raw =
     (case raw of
        JNull \<Rightarrow> False | JBool _ \<Rightarrow> False | JNum q \<Rightarrow> q \<le> 0
      | _ \<Rightarrow> strip (as_str (py_conversions.truncate py) raw) = ''00:00:00'')"

definition price_or_none :: "py_conversions \<Rightarrow> json \<Rightarrow> rat option" where
  "price_or_none py v =
     (case v of
        JNum q \<Rightarrow> if 0 < q then Some q else None
      | JStr s \<Rightarrow> (case py_float py s of Some q \<Rightarrow> if 0 < q then Some q else None | None \<Rightarrow> None)
      | _ \<Rightarrow> None)"

definition quantity_or_zero :: "py_conversions \<Rightarrow> json \<Rightarrow> int" where
  "quantity_or_zero py v =
     (case v of
        JNum q \<Rightarrow> truncated q
      | JStr s \<Rightarrow> (case py_float py s of Some q \<Rightarrow> truncated q | None \<Rightarrow> 0)
      | _ \<Rightarrow> 0)"

text \<open>dict.get without a default.\<close>

definition get_or_null :: "(string, json) dict \<Rightarrow> string \<Rightarrow> json" where
  "get_or_null d k = (case dict_get d k of None \<Rightarrow> JNull | Some v \<Rightarrow> v)"

definition top_of_book :: "py_conversions \<Rightarrow> (string, json) dict \<Rightarrow> rat option \<times> rat option" where
  "top_of_book py payload =
     (case get_or_null payload ''depth'' of
        JArr (JObj level # _) \<Rightarrow> (price_or_none py (get_or_null level ''bid_price''), price_or_none py (get_or_null level ''ask_price''))
      | _ \<Rightarrow> (None, None))"

record dhan_adapter =
  da_exchange_segment :: int
  da_instrument_label :: string
  da_instrument_labels :: "(string, string) dict"
  da_feed_mode :: int
  da_security_ids :: "string list"
  da_segments :: "(string, int) dict"
  da_modes :: "(string, int) dict"
  da_feed :: "(int \<times> string \<times> int) list option"
  da_running :: bool
  da_owner_thread :: "nat option"
  da_counters :: feed_counters
  da_last_disconnect_code :: "int option"

definition count :: "(feed_counters \<Rightarrow> feed_counters) \<Rightarrow> dhan_adapter \<Rightarrow> dhan_adapter" where
  "count f a = a\<lparr>da_counters := f (da_counters a)\<rparr>"

definition to_tick :: "feed_conversions \<Rightarrow> datetime \<Rightarrow> (string, json) dict \<Rightarrow> (tick option, dhan_adapter) act" where
  "to_tick py now payload a =
     (let pc = py_conversions.truncate py;
          malformed = (Inr None, count (\<lambda>c. c\<lparr>fc_malformed_payloads := fc_malformed_payloads c + 1\<rparr>) a);
          ltp = get_or_null payload ''LTP''; sid = get_or_null payload ''security_id'';
          security_id = (if as_bool sid then as_str pc sid else [])
      in case (if as_bool ltp then as_float pc ltp else Some 0) of
           None \<Rightarrow> malformed
         | Some price \<Rightarrow>
             if price \<le> 0 \<or> security_id = [] then malformed
             else
               let ltt = get_or_null payload ''LTT'' in
               if is_never_traded py ltt then (Inr None, count (\<lambda>c. c\<lparr>fc_untraded_frames := fc_untraded_frames c + 1\<rparr>) a)
               else case reconstruct_exchange_time py ltt now of
                 Inl e \<Rightarrow> (Inl e, a)
               | Inr found \<Rightarrow>
                   let a1 = (if found = None
                             then count (\<lambda>c. c\<lparr>fc_exchange_time_fallbacks := fc_exchange_time_fallbacks c + 1\<rparr>) a else a);
                       exchange_time = (case found of None \<Rightarrow> now | Some d \<Rightarrow> d)
                   in case top_of_book pc payload of (bid, ask) \<Rightarrow>
                     let a2 = count (\<lambda>c. c\<lparr>fc_ticks := fc_ticks c + 1\<rparr>) a1;
                         a3 = (if bid \<noteq> None \<and> ask \<noteq> None
                               then count (\<lambda>c. c\<lparr>fc_ticks_with_depth := fc_ticks_with_depth c + 1\<rparr>) a2
                               else if dict_get payload ''depth'' \<noteq> None
                               then count (\<lambda>c. c\<lparr>fc_ticks_one_sided_book := fc_ticks_one_sided_book c + 1\<rparr>) a2
                               else a2)
                     in case new_tick
                          \<lparr>tk_security_id = security_id,
                           tk_instrument = (case dict_get (da_instrument_labels a) security_id of
                                              None \<Rightarrow> da_instrument_label a | Some l \<Rightarrow> l),
                           tk_last_price = price, tk_exchange_time = exchange_time, tk_received_at = now,
                           tk_last_quantity = quantity_or_zero pc (get_or_null payload ''LTQ''),
                           tk_bid_price = bid, tk_ask_price = ask, tk_sequence = None\<rparr> of
                          Inl e \<Rightarrow> (Inl e, a3) | Inr t \<Rightarrow> (Inr (Some t), a3))"

definition tick_types :: "string list" where
  "tick_types = [''Ticker Data'', ''Quote Data'', ''Full Data'']"

definition non_tick_types :: "string list" where
  "non_tick_types = [''Previous Close'', ''OI Data'', ''Market Depth'']"

definition normalise :: "feed_conversions \<Rightarrow> datetime \<Rightarrow> json \<Rightarrow> (tick option, dhan_adapter) act" where
  "normalise py now payload a =
     (let skipped = (Inr None, count (\<lambda>c. c\<lparr>fc_non_tick_frames := fc_non_tick_frames c + 1\<rparr>) a) in
      case payload of
        JNull \<Rightarrow> (Inr None, count (\<lambda>c. c\<lparr>fc_empty_frames := fc_empty_frames c + 1\<rparr>) a)
      | JStr _ \<Rightarrow> skipped
      | JObj d \<Rightarrow>
          let frame_type = (case dict_get d ''type'' of None \<Rightarrow> [] | Some v \<Rightarrow> as_str (py_conversions.truncate py) v) in
          if frame_type \<in> set non_tick_types then skipped
          else if frame_type \<noteq> [] \<and> frame_type \<notin> set tick_types then skipped
          else to_tick py now d a
      | _ \<Rightarrow> (Inr None, count (\<lambda>c. c\<lparr>fc_malformed_payloads := fc_malformed_payloads c + 1\<rparr>) a))"

section \<open>Subscriptions\<close>

definition feed_modes :: "int list" where "feed_modes = [15, 17, 21]"

definition new_dhan_adapter ::
  "string \<Rightarrow> string \<Rightarrow> int \<Rightarrow> string \<Rightarrow> (string, string) dict \<Rightarrow> int \<Rightarrow> dhan_adapter result" where
  "new_dhan_adapter client_id access_token segment label labels mode =
     (if client_id = [] \<or> access_token = [] then Inl DhanFeedError
      else if mode \<notin> set feed_modes then Inl DhanFeedError
      else Inr \<lparr>da_exchange_segment = segment, da_instrument_label = label, da_instrument_labels = labels, da_feed_mode = mode,
                da_security_ids = [], da_segments = [], da_modes = [], da_feed = None, da_running = False,
                da_owner_thread = None, da_counters = no_counts, da_last_disconnect_code = None\<rparr>)"

definition segment_for :: "string \<Rightarrow> dhan_adapter \<Rightarrow> int" where
  "segment_for sid a = (case dict_get (da_segments a) sid of None \<Rightarrow> da_exchange_segment a | Some s \<Rightarrow> s)"

definition mode_for :: "string \<Rightarrow> dhan_adapter \<Rightarrow> int" where
  "mode_for sid a = (case dict_get (da_modes a) sid of None \<Rightarrow> da_feed_mode a | Some m \<Rightarrow> m)"

definition instrument_tuples :: "string list \<Rightarrow> dhan_adapter \<Rightarrow> (int \<times> string \<times> int) list" where
  "instrument_tuples ids a = map (\<lambda>sid. (segment_for sid a, sid, mode_for sid a)) (sort ids)"

text \<open>subscribe_symbols of the SDK: one more subscription frame on the socket, if there is one.\<close>

definition subscribe_symbols :: "string list \<Rightarrow> dhan_adapter \<Rightarrow> dhan_adapter" where
  "subscribe_symbols ids a =
     (case da_feed a of None \<Rightarrow> a | Some sent \<Rightarrow> if ids = [] then a else a\<lparr>da_feed := Some (sent @ instrument_tuples ids a)\<rparr>)"

definition dhan_subscribe :: "string list \<Rightarrow> int option \<Rightarrow> int option \<Rightarrow> (unit, dhan_adapter) act" where
  "dhan_subscribe security_ids segment mode a =
     (let wanted = remdups security_ids;
          known = filter (\<lambda>sid. sid \<in> set (da_security_ids a)) wanted
      in if opt_holds (\<lambda>s. list_ex (\<lambda>sid. segment_for sid a \<noteq> s) known) segment then (Inl DhanFeedError, a)
         else
           let a1 = (case segment of None \<Rightarrow> a
                     | Some s \<Rightarrow> a\<lparr>da_segments := fold (\<lambda>sid. dict_set sid s) wanted (da_segments a)\<rparr>)
           in if opt_holds (\<lambda>m. m \<notin> set feed_modes) mode then (Inl DhanFeedError, a1)
              else
                let a2 = (case mode of None \<Rightarrow> a1
                          | Some m \<Rightarrow> a1\<lparr>da_modes := fold (\<lambda>sid. dict_set sid m) wanted (da_modes a1)\<rparr>);
                    new = filter (\<lambda>sid. sid \<notin> set (da_security_ids a2)) wanted
                in (Inr (), subscribe_symbols new (a2\<lparr>da_security_ids := da_security_ids a2 @ new\<rparr>)))"

definition resubscribe_all :: "(unit, dhan_adapter) act" where
  "resubscribe_all a = (Inr (), subscribe_symbols (da_security_ids a) a)"

section \<open>The connection\<close>

text \<open>
  start up to its loop (whether the SDK's client can be built is given), one turn of the loop, the probe for a
  disconnection frame's code, and the two ways to stop.
\<close>

definition dhan_connect :: "bool \<Rightarrow> nat \<Rightarrow> (unit, dhan_adapter) act" where
  "dhan_connect sdk_ok me a =
     (if da_security_ids a = [] then (Inl DhanFeedError, a)
      else if \<not> sdk_ok then (Inl DhanFeedError, a)
      else (Inr (), a\<lparr>da_feed := Some (instrument_tuples (da_security_ids a) a), da_running := True, da_owner_thread := Some me\<rparr>))"

definition dhan_frame ::
  "feed_conversions \<Rightarrow> datetime \<Rightarrow> json \<Rightarrow> (tick \<Rightarrow> (unit, dhan_adapter \<times> 'h) act) \<Rightarrow> (unit, dhan_adapter \<times> 'h) act" where
  "dhan_frame py now payload cb s =
     (case normalise py now payload (fst s) of
        (Inl e, a) \<Rightarrow> (Inl e, a, snd s)
      | (Inr None, a) \<Rightarrow> (Inr (), a, snd s)
      | (Inr (Some t), a) \<Rightarrow> cb t (a, snd s))"

definition disconnect_probe :: "int \<Rightarrow> dhan_adapter \<Rightarrow> dhan_adapter" where
  "disconnect_probe code a =
     (if code = 0 then a
      else count (\<lambda>c. c\<lparr>fc_disconnects := fc_disconnects c + 1,
                       fc_disconnect_codes := dict_set code
                         (case dict_get (fc_disconnect_codes c) code of None \<Rightarrow> 1 | Some n \<Rightarrow> n + 1) (fc_disconnect_codes c)\<rparr>)
             (a\<lparr>da_last_disconnect_code := Some code\<rparr>))"

definition token_expired :: "dhan_adapter \<Rightarrow> bool" where
  "token_expired a = (da_last_disconnect_code a = Some 807)"

definition dhan_request_stop :: "dhan_adapter \<Rightarrow> dhan_adapter" where
  "dhan_request_stop a = a\<lparr>da_running := False\<rparr>"

text \<open>Another thread's close is refused while a thread owns the loop; a failure of the close itself is swallowed.\<close>

definition dhan_stop :: "nat \<Rightarrow> (unit, dhan_adapter) act" where
  "dhan_stop me a =
     (let a1 = a\<lparr>da_running := False\<rparr> in
      case da_feed a of
        None \<Rightarrow> (Inr (), a1)
      | Some _ \<Rightarrow>
          (case da_owner_thread a of
             Some owner \<Rightarrow> if owner \<noteq> me then (Inr (), a1) else (Inr (), a1\<lparr>da_feed := None\<rparr>)
           | None \<Rightarrow> (Inr (), a1\<lparr>da_feed := None\<rparr>)))"


text \<open>
  start: connecting, then one frame of the SDK after the other (None is run\_forever or get\_data raising) until the flag
  is down, and on every way out the closing of the socket.  A list of frames that ends is a socket gone silent.
\<close>

fun dhan_loop ::
  "feed_conversions \<Rightarrow> (tick \<Rightarrow> (unit, dhan_adapter \<times> 'h) act) \<Rightarrow> (datetime \<times> json) option list \<Rightarrow>
   (unit, dhan_adapter \<times> 'h) act" where
  "dhan_loop py cb [] s = (Inr (), s)"
| "dhan_loop py cb (x # xs) s =
     (if \<not> da_running (fst s) then (Inr (), s)
      else case x of
        None \<Rightarrow> (Inl OSError, s)
      | Some (now, payload) \<Rightarrow>
          (case dhan_frame py now payload cb s of
             (Inl e, s1) \<Rightarrow> (Inl e, s1)
           | (Inr _, s1) \<Rightarrow> dhan_loop py cb xs s1))"

definition dhan_start ::
  "feed_conversions \<Rightarrow> bool \<Rightarrow> nat \<Rightarrow> (tick \<Rightarrow> (unit, dhan_adapter \<times> 'h) act) \<Rightarrow> (datetime \<times> json) option list \<Rightarrow>
   (unit, dhan_adapter \<times> 'h) act" where
  "dhan_start py sdk_ok me cb frames s =
     (case dhan_connect sdk_ok me (fst s) of
        (Inl e, a) \<Rightarrow> (Inl e, a, snd s)
      | (Inr _, a) \<Rightarrow>
          (case dhan_loop py cb frames (a, snd s) of
             (r, a1, h) \<Rightarrow> (r, (snd (dhan_stop me (a1\<lparr>da_running := False\<rparr>)))\<lparr>da_owner_thread := None\<rparr>, h)))"

section \<open>The instant behind a time of day\<close>

text \<open>The text the SDK renders for a trade: the wall clock of India, in whole seconds.\<close>

definition hms_text :: "tod \<Rightarrow> string" where
  "hms_text t =
     pad_nat 2 (nat (t div hour)) @ '':'' @ pad_nat 2 (nat (t mod hour div minute)) @ '':''
       @ pad_nat 2 (nat (t mod minute div second))"

lemma time_of_parts:
  assumes "0 \<le> t" "t mod second = 0"
  shows "time_of (t div hour) (t mod hour div minute) (t mod minute div second) = t"
proof -
  have "t mod hour mod minute = t mod minute" by (simp add: hour_def minute_def second_def mod_mod_cancel)
  moreover have "t mod minute mod second = t mod second" by (simp add: minute_def second_def mod_mod_cancel)
  ultimately show ?thesis using assms(2) div_mult_mod_eq [of t hour] div_mult_mod_eq [of "t mod hour" minute]
      div_mult_mod_eq [of "t mod minute" second]
    unfolding time_of_def by linarith
qed

lemma strip_hms:
  assumes "list_all is_digit a" "a \<noteq> []" "list_all is_digit c" "c \<noteq> []"
  shows "strip (a @ CHR '':'' # b @ CHR '':'' # c) = a @ CHR '':'' # b @ CHR '':'' # c"
proof -
  obtain x xs where a: "a = x # xs" using assms(2) by (cases a) auto
  obtain y ys where c: "rev c = y # ys" using assms(4) by (cases "rev c") auto
  have "is_digit y" using assms(3) c by (metis list.set_intros(1) list_all_iff set_rev)
  then show ?thesis using assms(1) a c by (simp add: strip_def)
qed

lemma strptime_hms_text:
  assumes "0 \<le> t" "t < day_us" "t mod second = 0"
  shows "strptime_hms (hms_text t) = Some t" "strip (hms_text t) = hms_text t" "hms_text t \<noteq> []"
proof -
  have b: "0 \<le> t div hour" "t div hour < 24" "0 \<le> t mod hour div minute" "t mod hour div minute < 60"
    "0 \<le> t mod minute div second" "t mod minute div second < 60"
    using assms by (simp_all add: hour_def minute_def second_def day_us_def)
  show "strptime_hms (hms_text t) = Some t"
    using b time_of_parts [OF assms(1,3)]
    by (simp add: strptime_hms_def hms_text_def split_on_digits pad_nat_all field_pad)
  show "strip (hms_text t) = hms_text t" by (simp add: hms_text_def strip_hms pad_nat_all)
  show "hms_text t \<noteq> []" by (simp add: hms_text_def)
qed

lemma near_anchor_recovers:
  assumes "2 * \<bar>dt_diff anchor moment\<bar> < day_us"
  shows "near_anchor anchor (dt_time (astimezone ist moment)) = astimezone utc moment"
proof -
  let ?A = "instant anchor + ist" and ?W = "instant moment + ist"
  define D E ra rw where "D = ?A div day_us" and "E = ?W div day_us" and "ra = ?A mod day_us" and "rw = ?W mod day_us"
  have A: "?A = D * day_us + ra" "0 \<le> ra" "ra < day_us" and W: "?W = E * day_us + rw" "0 \<le> rw" "rw < day_us"
    by (simp_all add: D_def E_def ra_def rw_def day_us_def)
  have near: "2 * \<bar>?A - ?W\<bar> < day_us" using assms by (simp add: dt_diff_def)
  have e: "E = D - 1 \<or> E = D \<or> E = D + 1" using A W near by (simp add: day_us_def) arith
  have date: "dt_date (dt_add (astimezone ist anchor) (k * day_us)) = D + k" for k
    by (simp add: dt_date_def dt_add_def astimezone_def D_def day_us_def)
  have tod: "dt_time (astimezone ist moment) = rw" by (simp add: dt_time_def astimezone_def rw_def)
  have cand: "astimezone utc (combine (D + k) rw ist) = DT ((D + k) * day_us + rw - ist) (Some utc)" for k
    by (simp add: combine_def astimezone_def instant_def utc_def)
  have dist: "\<bar>dt_diff (DT (x - ist) (Some utc)) anchor\<bar> = \<bar>x - ?A\<bar>" for x
    by (simp add: dt_diff_def instant_def utc_def)
  have goal: "astimezone utc moment = DT (E * day_us + rw - ist) (Some utc)"
    using W(1) by (simp add: astimezone_def utc_def)
  show ?thesis
    unfolding near_anchor_def Let_def date tod cand min_by.simps dist goal using e A(2,3) W near
    unfolding A(1) by (auto simp: day_us_def dist A(1) split: if_splits)
qed

lemma reconstruct_text:
  assumes "instant moment mod second = 0" "2 * \<bar>dt_diff received moment\<bar> < day_us"
  shows "reconstruct_exchange_time py (JStr (hms_text (dt_time (astimezone ist moment)))) received
    = Inr (Some (astimezone utc moment))"
proof -
  let ?t = "dt_time (astimezone ist moment)"
  have t: "0 \<le> ?t" "?t < day_us" by (simp_all add: dt_time_def day_us_def)
  have "?t mod second = (instant moment + ist) mod second"
    by (simp add: dt_time_def astimezone_def day_us_def second_def mod_mod_cancel)
  also have "\<dots> = 0" using assms(1) by (simp add: ist_def hour_def minute_def second_def mod_add_eq [symmetric])
  finally have s: "?t mod second = 0" .
  have "near_anchor (astimezone utc received) ?t = astimezone utc moment"
    by (rule near_anchor_recovers) (use assms(2) in \<open>simp add: dt_diff_def\<close>)
  then show ?thesis using strptime_hms_text [OF t s]
    by (simp add: reconstruct_exchange_time_def as_str_def Let_def)
qed

text \<open>C31: the instant of a trade is recovered from the time of day in its frame.  The text of the Indian wall clock of a trade in
  whole seconds, received less than twelve hours before or after it, is read as the very instant of the trade.
\<close>

theorem exchange_time_is_recovered:
  assumes "instant moment mod second = 0" "2 * \<bar>dt_diff received moment\<bar> < day_us"
  shows "reconstruct_exchange_time py (JStr (hms_text (dt_time (astimezone ist moment)))) received
    = Inr (Some (astimezone utc moment))"
  by (rule reconstruct_text [OF assms])

section \<open>One segment for an instrument\<close>

datatype dhan_op = Ask "string list" "int option" "int option" | Again | Connect bool nat | Lower | Shut nat | Told int

definition dhan_step :: "dhan_op \<Rightarrow> dhan_adapter \<Rightarrow> dhan_adapter" where
  "dhan_step x a =
     (case x of
        Ask ids s m \<Rightarrow> snd (dhan_subscribe ids s m a)
      | Again \<Rightarrow> snd (resubscribe_all a)
      | Connect b me \<Rightarrow> snd (dhan_connect b me a)
      | Lower \<Rightarrow> dhan_request_stop a
      | Shut me \<Rightarrow> snd (dhan_stop me a)
      | Told c \<Rightarrow> disconnect_probe c a)"

definition frames_of :: "dhan_adapter \<Rightarrow> (int \<times> string \<times> int) list" where
  "frames_of a = (case da_feed a of None \<Rightarrow> [] | Some fs \<Rightarrow> fs)"

definition segments_inv :: "dhan_adapter \<Rightarrow> bool" where
  "segments_inv a =
     (distinct (da_security_ids a)
      \<and> (\<forall>f \<in> set (frames_of a). fst (snd f) \<in> set (da_security_ids a) \<and> fst f = segment_for (fst (snd f)) a))"

definition keeps_segments :: "dhan_adapter \<Rightarrow> dhan_adapter \<Rightarrow> bool" where
  "keeps_segments a b =
     (\<forall>sid \<in> set (da_security_ids a). sid \<in> set (da_security_ids b) \<and> segment_for sid b = segment_for sid a)"

declare option.case_cong [cong]

lemma dict_get_fold_set [simp]:
  "dict_get (fold (\<lambda>k. dict_set k v) ks d) j = (if j \<in> set ks then Some v else dict_get d j)"
  by (induction ks arbitrary: d) auto

lemma same_segments:
  "da_segments b = da_segments a \<Longrightarrow> da_exchange_segment b = da_exchange_segment a \<Longrightarrow> segment_for sid b = segment_for sid a"
  by (simp add: segment_for_def)

lemma sent_frames:
  "frames_of (subscribe_symbols ids a) = frames_of a @ (if da_feed a = None then [] else instrument_tuples ids a)"
  "da_security_ids (subscribe_symbols ids a) = da_security_ids a" "da_segments (subscribe_symbols ids a) = da_segments a"
  "da_exchange_segment (subscribe_symbols ids a) = da_exchange_segment a"
  by (simp_all add: frames_of_def subscribe_symbols_def instrument_tuples_def split: option.split)

lemma set_instrument_tuples: "f \<in> set (instrument_tuples ids a) \<Longrightarrow> fst (snd f) \<in> set ids \<and> fst f = segment_for (fst (snd f)) a"
  by (auto simp: instrument_tuples_def)

lemma subscribe_symbols_inv:
  assumes "segments_inv a" "set ids \<subseteq> set (da_security_ids a)"
  shows "segments_inv (subscribe_symbols ids a)"
  using assms by (auto simp: segments_inv_def sent_frames segment_for_def dest: set_instrument_tuples)

lemma keeps_segments_trans: "keeps_segments a b \<Longrightarrow> keeps_segments b c \<Longrightarrow> keeps_segments a c"
  by (simp add: keeps_segments_def)

lemma segments_inv_cong:
  assumes "segments_inv a" "frames_of b = frames_of a \<or> frames_of b = []" "da_security_ids b = da_security_ids a @ new"
    "distinct (da_security_ids b)" "keeps_segments a b"
  shows "segments_inv b"
  using assms by (fastforce simp: segments_inv_def keeps_segments_def)

lemma subscribe_new_inv:
  assumes "segments_inv a" "keeps_segments a a1" "da_security_ids a3 = da_security_ids a @ filter (\<lambda>sid. sid \<notin> set (da_security_ids a)) (remdups ids)"
    and "frames_of a3 = frames_of a" "da_segments a3 = da_segments a1" "da_exchange_segment a3 = da_exchange_segment a1"
  shows "segments_inv (subscribe_symbols (filter (\<lambda>sid. sid \<notin> set (da_security_ids a)) (remdups ids)) a3)
    \<and> keeps_segments a (subscribe_symbols (filter (\<lambda>sid. sid \<notin> set (da_security_ids a)) (remdups ids)) a3)"
proof -
  have k: "keeps_segments a a3"
    using assms(2,3) same_segments [OF assms(5,6)] by (simp add: keeps_segments_def)
  have "distinct (da_security_ids a3)" using assms(1,3) by (auto simp: segments_inv_def)
  then have "segments_inv a3" using segments_inv_cong [OF assms(1) _ assms(3) _ k] assms(4) by blast
  moreover have "keeps_segments a3 (subscribe_symbols new a3)" for new
    using same_segments [OF sent_frames(3,4)] sent_frames(2) [of new a3] by (simp add: keeps_segments_def)
  ultimately show ?thesis
    using subscribe_symbols_inv [of a3] keeps_segments_trans [OF k] by (simp add: assms(3))
qed

lemma subscribe_inv:
  assumes "segments_inv a"
  shows "segments_inv (snd (dhan_subscribe ids s m a)) \<and> keeps_segments a (snd (dhan_subscribe ids s m a))"
proof -
  let ?w = "remdups ids"
  let ?a1 = "case s of None \<Rightarrow> a | Some t \<Rightarrow> a\<lparr>da_segments := fold (\<lambda>sid. dict_set sid t) ?w (da_segments a)\<rparr>"
  let ?a2 = "case m of None \<Rightarrow> ?a1 | Some n \<Rightarrow> ?a1\<lparr>da_modes := fold (\<lambda>sid. dict_set sid n) ?w (da_modes ?a1)\<rparr>"
  let ?new = "filter (\<lambda>sid. sid \<notin> set (da_security_ids a)) ?w"
  let ?a3 = "?a2\<lparr>da_security_ids := da_security_ids a @ ?new\<rparr>"
  have ids1: "da_security_ids ?a1 = da_security_ids a" "frames_of ?a1 = frames_of a"
    by (simp_all add: frames_of_def split: option.split)
  have ids2: "da_security_ids ?a2 = da_security_ids a" "frames_of ?a3 = frames_of a" "da_segments ?a3 = da_segments ?a1"
    "da_exchange_segment ?a3 = da_exchange_segment ?a1"
    by (simp_all add: frames_of_def split: option.split)
  consider (refused) "opt_holds (\<lambda>t. list_ex (\<lambda>sid. segment_for sid a \<noteq> t) (filter (\<lambda>sid. sid \<in> set (da_security_ids a)) ?w)) s"
    | (bad) "\<not> opt_holds (\<lambda>t. list_ex (\<lambda>sid. segment_for sid a \<noteq> t) (filter (\<lambda>sid. sid \<in> set (da_security_ids a)) ?w)) s"
        "snd (dhan_subscribe ids s m a) = ?a1"
    | (good) "\<not> opt_holds (\<lambda>t. list_ex (\<lambda>sid. segment_for sid a \<noteq> t) (filter (\<lambda>sid. sid \<in> set (da_security_ids a)) ?w)) s"
        "snd (dhan_subscribe ids s m a) = subscribe_symbols ?new ?a3"
    by (cases "opt_holds (\<lambda>n. n \<notin> set feed_modes) m") (auto simp: dhan_subscribe_def Let_def ids2(1))
  then show ?thesis
  proof cases
    case refused
    then show ?thesis using assms by (simp add: dhan_subscribe_def Let_def keeps_segments_def)
  next
    case bad
    have k: "keeps_segments a ?a1" using bad(1)
      by (cases s) (auto simp: keeps_segments_def segment_for_def opt_holds_def list_ex_iff)
    show ?thesis using segments_inv_cong [OF assms _ _ _ k, of "[]"] k assms ids1 bad(2) by (simp add: segments_inv_def)
  next
    case good
    have k1: "keeps_segments a ?a1" using good(1)
      by (cases s) (auto simp: keeps_segments_def segment_for_def opt_holds_def list_ex_iff)
    show ?thesis unfolding good(2)
      by (rule subscribe_new_inv [OF assms k1 _ ids2(2-4)]) simp
  qed
qed

lemma dhan_step_inv:
  assumes "segments_inv a"
  shows "segments_inv (dhan_step x a) \<and> keeps_segments a (dhan_step x a)"
proof (cases x)
  case Again
  then show ?thesis using subscribe_symbols_inv [OF assms, of "da_security_ids a"]
    by (simp add: dhan_step_def resubscribe_all_def keeps_segments_def segment_for_def sent_frames)
next
  case (Connect b me)
  then show ?thesis using assms
    by (auto simp: dhan_step_def dhan_connect_def keeps_segments_def segments_inv_def segment_for_def frames_of_def
        dest: set_instrument_tuples)
next
  case (Shut me)
  then show ?thesis using assms
    by (auto simp: dhan_step_def dhan_stop_def Let_def keeps_segments_def segments_inv_def segment_for_def frames_of_def
        split: option.splits)
next
  case (Told c)
  then show ?thesis using assms
    by (simp add: dhan_step_def disconnect_probe_def count_def keeps_segments_def segments_inv_def segment_for_def frames_of_def)
qed (use assms subscribe_inv [OF assms] in \<open>simp_all add: dhan_step_def dhan_request_stop_def keeps_segments_def segments_inv_def
       segment_for_def frames_of_def\<close>)

lemma dhan_run_inv: "segments_inv a \<Longrightarrow> segments_inv (fold dhan_step xs a) \<and> keeps_segments a (fold dhan_step xs a)"
proof (induction xs arbitrary: a)
  case Nil
  then show ?case by (simp add: keeps_segments_def)
next
  case (Cons x xs)
  then show ?case using dhan_step_inv [OF Cons.prems, of x] keeps_segments_trans [of a "dhan_step x a"] by simp
qed

declare option.case_cong [cong del]

lemma fresh_adapter_inv: "new_dhan_adapter ci tok seg l ls m = Inr a \<Longrightarrow> segments_inv a"
  by (auto simp: new_dhan_adapter_def segments_inv_def frames_of_def split: if_splits)

lemma one_frame_each:
  "distinct ids \<Longrightarrow> sid \<in> set ids \<Longrightarrow>
    filter (\<lambda>f. fst (snd f) = sid) (instrument_tuples ids a) = [(segment_for sid a, sid, mode_for sid a)]"
proof -
  assume a: "distinct ids" "sid \<in> set ids"
  have "filter (\<lambda>x. x = sid) xs = [sid]" if "distinct xs" "sid \<in> set xs" for xs
    using that by (induction xs) (auto simp: filter_empty_conv)
  from this [of "sort ids"] a show ?thesis by (simp add: instrument_tuples_def filter_map comp_def)
qed

text \<open>An instrument never changes its segment.  However an adapter has been used when an instrument is on it, and whatever is
  asked, refused, closed and connected afterwards, the instrument stays subscribed and every frame sent for it names the
  segment it had; and the next connection asks for it exactly once, on that segment and in the mode last asked for.
\<close>

theorem instrument_keeps_its_segment:
  assumes "new_dhan_adapter ci tok seg l ls m = Inr a0" "a = fold dhan_step xs a0" "sid \<in> set (da_security_ids a)"
    and "b = fold dhan_step ys a"
  shows "sid \<in> set (da_security_ids b)
    \<and> list_all (\<lambda>f. fst (snd f) = sid \<longrightarrow> fst f = segment_for sid a) (frames_of b)
    \<and> filter (\<lambda>f. fst (snd f) = sid) (frames_of (dhan_step (Connect True me) b)) = [(segment_for sid a, sid, mode_for sid b)]"
proof -
  have a: "segments_inv a" using dhan_run_inv [OF fresh_adapter_inv [OF assms(1)]] assms(2) by simp
  have b: "segments_inv b" "keeps_segments a b" using dhan_run_inv [OF a] assms(4) by simp_all
  then have s: "sid \<in> set (da_security_ids b)" "segment_for sid b = segment_for sid a"
    using assms(3) by (simp_all add: keeps_segments_def)
  then have "filter (\<lambda>f. fst (snd f) = sid) (frames_of (dhan_step (Connect True me) b)) = [(segment_for sid a, sid, mode_for sid b)]"
    using one_frame_each [of "da_security_ids b" sid b] b(1) by (auto simp: dhan_step_def dhan_connect_def frames_of_def segments_inv_def)
  then show ?thesis using b s by (auto simp: segments_inv_def list_all_iff)
qed

section \<open>The way out\<close>

lemma owner_count [simp]: "da_owner_thread (count f a) = da_owner_thread a"
  by (simp add: count_def)

lemma owner_to_tick: "da_owner_thread (snd (to_tick py now d a)) = da_owner_thread a"
proof (cases "top_of_book (py_conversions.truncate py) d")
  case (Pair bid ask)
  then show ?thesis by (simp add: to_tick_def Let_def split: option.split sum.split)
qed

lemma owner_normalise: "da_owner_thread (snd (normalise py now payload a)) = da_owner_thread a"
  by (simp add: normalise_def Let_def owner_to_tick split: json.split)

lemma dhan_loop_owner:
  assumes "\<forall>t s. da_owner_thread (fst (snd (cb t s))) = da_owner_thread (fst s)"
  shows "da_owner_thread (fst (snd (dhan_loop py cb xs s))) = da_owner_thread (fst s)"
proof (induction xs arbitrary: s)
  case (Cons x xs)
  have f: "da_owner_thread (fst (snd (dhan_frame py now payload cb s))) = da_owner_thread (fst s)" for now payload
    using owner_normalise [of py now payload "fst s"] assms by (auto simp: dhan_frame_def split: prod.splits sum.splits option.splits)
  show ?case
  proof (cases x)
    case (Some np)
    obtain now payload where np: "np = (now, payload)" by fastforce
    obtain r s1 where r: "dhan_frame py now payload cb s = (r, s1)" by (rule prod.exhaust)
    then show ?thesis using Some np f [of now payload] Cons.IH [of s1] by (auto split: sum.splits)
  qed simp
qed simp

text \<open>
  The thread that runs the feed closes its socket on every way out.  Once start has connected, whether its loop ends
  because it was asked to, because the SDK raised or because the subscriber raised, no socket, owner or raised flag is left;
  provided the subscriber does not take over the loop.
\<close>

theorem start_closes_its_socket:
  assumes "\<And>t s. da_owner_thread (fst (snd (cb t s))) = da_owner_thread (fst s)"
    and "da_security_ids a \<noteq> []"
  shows "case snd (dhan_start py True me cb frames (a, h)) of
      (b, _) \<Rightarrow> da_feed b = None \<and> da_owner_thread b = None \<and> \<not> da_running b"
proof -
  obtain a1 where c: "dhan_connect True me a = (Inr (), a1)" "da_owner_thread a1 = Some me"
    using assms(2) by (simp add: dhan_connect_def)
  obtain r b g where l: "dhan_loop py cb frames (a1, h) = (r, b, g)" using prod_cases3 by blast
  have o: "da_owner_thread b = Some me" using dhan_loop_owner [of cb py frames "(a1, h)"] assms(1) l c(2) by simp
  have "dhan_start py True me cb frames (a, h) = (r, (snd (dhan_stop me (b\<lparr>da_running := False\<rparr>)))\<lparr>da_owner_thread := None\<rparr>, g)"
    using c(1) l by (simp add: dhan_start_def)
  then show ?thesis using o by (simp add: dhan_stop_def Let_def split: option.split)
qed

section \<open>A tape\<close>

record recorded_adapter =
  ra_ticks :: "tick list"
  ra_subscribed :: "string list"
  ra_running :: bool
  ra_last_seen :: "(string, datetime) dict"
  ra_requested_segments :: "(string, int) dict"
  ra_requested_modes :: "(string, int) dict"
  ra_duplicate_count :: nat
  ra_out_of_order_count :: nat
  ra_delivered_count :: nat

definition new_recorded :: "tick list \<Rightarrow> recorded_adapter" where
  "new_recorded ticks =
     \<lparr>ra_ticks = ticks, ra_subscribed = [], ra_running = False, ra_last_seen = [], ra_requested_segments = [],
      ra_requested_modes = [], ra_duplicate_count = 0, ra_out_of_order_count = 0, ra_delivered_count = 0\<rparr>"

definition recorded_subscribe :: "string list \<Rightarrow> int option \<Rightarrow> int option \<Rightarrow> recorded_adapter \<Rightarrow> recorded_adapter" where
  "recorded_subscribe ids segment mode a =
     a\<lparr>ra_subscribed := fold List.insert ids (ra_subscribed a),
       ra_requested_segments :=
         (case segment of None \<Rightarrow> ra_requested_segments a | Some s \<Rightarrow> fold (\<lambda>i. dict_set i s) ids (ra_requested_segments a)),
       ra_requested_modes :=
         (case mode of None \<Rightarrow> ra_requested_modes a | Some m \<Rightarrow> fold (\<lambda>i. dict_set i m) ids (ra_requested_modes a))\<rparr>"

definition recorded_stop :: "recorded_adapter \<Rightarrow> recorded_adapter" where
  "recorded_stop a = a\<lparr>ra_running := False\<rparr>"

definition stale_tick :: "tick \<Rightarrow> recorded_adapter \<Rightarrow> bool \<times> recorded_adapter" where
  "stale_tick t a =
     (case dict_get (ra_last_seen a) (tk_security_id t) of
        None \<Rightarrow> (False, a)
      | Some previous \<Rightarrow>
          if instant (tk_exchange_time t) = instant previous then (True, a\<lparr>ra_duplicate_count := ra_duplicate_count a + 1\<rparr>)
          else if tk_exchange_time t < previous then (True, a\<lparr>ra_out_of_order_count := ra_out_of_order_count a + 1\<rparr>)
          else (False, a))"

fun replay ::
  "(tick \<Rightarrow> (unit, recorded_adapter \<times> 'h) act) \<Rightarrow> tick list \<Rightarrow> (unit, recorded_adapter \<times> 'h) act" where
  "replay cb [] s = (Inr (), (fst s)\<lparr>ra_running := False\<rparr>, snd s)"
| "replay cb (t # ts) s =
     (if \<not> ra_running (fst s) then (Inr (), (fst s)\<lparr>ra_running := False\<rparr>, snd s)
      else if tk_security_id t \<notin> set (ra_subscribed (fst s)) then replay cb ts s
      else case stale_tick t (fst s) of
        (True, a) \<Rightarrow> replay cb ts (a, snd s)
      | (False, a) \<Rightarrow>
          (case cb t (a\<lparr>ra_last_seen := dict_set (tk_security_id t) (tk_exchange_time t) (ra_last_seen a),
                       ra_delivered_count := ra_delivered_count a + 1\<rparr>, snd s) of
             (Inl e, s1) \<Rightarrow> (Inl e, s1)
           | (Inr _, s1) \<Rightarrow> replay cb ts s1))"

definition start_recorded :: "(tick \<Rightarrow> (unit, recorded_adapter \<times> 'h) act) \<Rightarrow> (unit, recorded_adapter \<times> 'h) act" where
  "start_recorded cb s = replay cb (ra_ticks (fst s)) ((fst s)\<lparr>ra_running := True\<rparr>, snd s)"

text \<open>A subscriber that keeps what it is given, and lowers the flag or raises when it likes.\<close>

definition keeping ::
  "(tick list \<Rightarrow> bool) \<Rightarrow> (tick list \<Rightarrow> exn option) \<Rightarrow> tick \<Rightarrow> (unit, recorded_adapter \<times> tick list) act" where
  "keeping enough fails t s =
     (let got = snd s @ [t] in
      (case fails got of None \<Rightarrow> Inr () | Some e \<Rightarrow> Inl e, if enough got then recorded_stop (fst s) else fst s, got))"

definition in_time_order :: "tick list \<Rightarrow> bool" where
  "in_time_order ts =
     sorted_wrt (\<lambda>a b. tk_security_id a = tk_security_id b \<longrightarrow> instant (tk_exchange_time a) < instant (tk_exchange_time b)) ts"

definition replay_inv :: "recorded_adapter \<times> tick list \<Rightarrow> bool" where
  "replay_inv s =
     (in_time_order (snd s) \<and> ra_delivered_count (fst s) = length (snd s)
      \<and> (\<forall>t \<in> set (snd s). tk_security_id t \<in> set (ra_subscribed (fst s))
          \<and> opt_holds (\<lambda>l. instant (tk_exchange_time t) \<le> instant l) (dict_get (ra_last_seen (fst s)) (tk_security_id t))))"

lemma replay_keeps: "replay_inv s \<Longrightarrow> replay_inv (snd (replay (keeping enough fails) ts s))"
proof (induction ts arbitrary: s)
  case Nil
  then show ?case by (simp add: replay_inv_def)
next
  case (Cons t ts)
  obtain old a where st: "stale_tick t (fst s) = (old, a)" by fastforce
  then have same: "ra_last_seen a = ra_last_seen (fst s)" "ra_subscribed a = ra_subscribed (fst s)"
    "ra_delivered_count a = ra_delivered_count (fst s)"
    by (auto simp: stale_tick_def split: option.splits if_splits)
  show ?case
  proof (cases "ra_running (fst s) \<and> tk_security_id t \<in> set (ra_subscribed (fst s)) \<and> \<not> old")
    case True
    let ?s = "(a\<lparr>ra_last_seen := dict_set (tk_security_id t) (tk_exchange_time t) (ra_last_seen a),
                ra_delivered_count := ra_delivered_count a + 1\<rparr>, snd s)"
    have later: "opt_holds (\<lambda>l. instant l < instant (tk_exchange_time t)) (dict_get (ra_last_seen (fst s)) (tk_security_id t))
        \<or> dict_get (ra_last_seen (fst s)) (tk_security_id t) = None"
      using True st by (auto simp: stale_tick_def opt_holds_def less_datetime_def split: option.splits if_splits)
    have "replay_inv (snd (keeping enough fails t ?s))"
      using Cons.prems later True same
      by (auto simp: replay_inv_def keeping_def Let_def recorded_stop_def in_time_order_def sorted_wrt_append opt_holds_def
          split: option.splits)
    then show ?thesis using Cons.IH True st by (simp split: sum.split prod.split) (metis snd_conv)
  next
    case False
    have "replay_inv (a, snd s)" "replay_inv ((fst s)\<lparr>ra_running := False\<rparr>, snd s)"
      using Cons.prems same by (simp_all add: replay_inv_def)
    then show ?thesis using Cons False st by auto
  qed
qed

text \<open>
  A replay never goes back in time.  Whatever the tape holds and whenever the subscriber stops or raises, the ticks
  delivered belong to subscribed instruments, their number is the counter, and for each instrument their exchange times
  strictly increase.
\<close>

theorem replay_goes_forward:
  "case snd (start_recorded (keeping enough fails) (recorded_subscribe ids sg m (new_recorded ticks), [])) of
     (a, got) \<Rightarrow> in_time_order got \<and> ra_delivered_count a = length got \<and> {t \<in> set got. tk_security_id t \<notin> set (ra_subscribed a)} = {}"
proof -
  have "replay_inv ((recorded_subscribe ids sg m (new_recorded ticks))\<lparr>ra_running := True\<rparr>, [])"
    by (simp add: replay_inv_def in_time_order_def recorded_subscribe_def new_recorded_def)
  from replay_keeps [OF this, of enough fails ticks] show ?thesis
    by (auto simp: start_recorded_def replay_inv_def recorded_subscribe_def new_recorded_def)
qed

section \<open>Examples and departures\<close>

definition example_conversions :: feed_conversions where
  "example_conversions = \<lparr>py_shown = (\<lambda>_. []), py_float = (\<lambda>_. None), py_int = (\<lambda>_. None), py_datetime = (\<lambda>_. None)\<rparr>"

text \<open>05:38:48 UTC on 6 August 2026, which the SDK renders 11:08:48.\<close>

definition captured_moment :: datetime where
  "captured_moment = DT (20671 * day_us + time_of 5 38 48) (Some utc)"

lemma exchange_time_is_recovered_witness:
  "reconstruct_exchange_time example_conversions (JStr (hms_text (dt_time (astimezone ist captured_moment))))
     (dt_add captured_moment second) = Inr (Some captured_moment)"
  using exchange_time_is_recovered [of captured_moment "dt_add captured_moment second" example_conversions]
  by (simp add: captured_moment_def instant_def dt_diff_def dt_add_def day_us_def second_def minute_def hour_def time_of_def
      utc_def astimezone_def)

definition example_adapter :: dhan_adapter where
  "example_adapter =
     \<lparr>da_exchange_segment = 2, da_instrument_label = ''UNKNOWN'', da_instrument_labels = [], da_feed_mode = 15,
      da_security_ids = [], da_segments = [], da_modes = [], da_feed = None, da_running = False, da_owner_thread = None,
      da_counters = no_counts, da_last_disconnect_code = None\<rparr>"

lemma new_example_adapter: "new_dhan_adapter ''id'' ''token'' 2 ''UNKNOWN'' [] 15 = Inr example_adapter"
  by (simp add: new_dhan_adapter_def feed_modes_def example_adapter_def)

definition index_adapter :: dhan_adapter where
  "index_adapter = fold dhan_step [Ask [''13''] (Some 0) None] example_adapter"

lemma instrument_keeps_its_segment_witness:
  "filter (\<lambda>f. fst (snd f) = ''13'')
     (frames_of (dhan_step (Connect True 1) (fold dhan_step [Ask [''13''] (Some 2) None, Ask [''13'', ''43492''] None (Some 21)] index_adapter)))
   = [(0, ''13'', 21)]"
proof -
  have "''13'' \<in> set (da_security_ids index_adapter)" "segment_for ''13'' index_adapter = 0"
    by (simp_all add: index_adapter_def dhan_step_def dhan_subscribe_def opt_holds_def segment_for_def example_adapter_def
        subscribe_symbols_def Let_def)
  moreover have "mode_for ''13'' (fold dhan_step [Ask [''13''] (Some 2) None, Ask [''13'', ''43492''] None (Some 21)] index_adapter) = 21"
    by (simp add: index_adapter_def dhan_step_def dhan_subscribe_def opt_holds_def segment_for_def example_adapter_def
        subscribe_symbols_def Let_def feed_modes_def mode_for_def)
  ultimately show ?thesis
    using instrument_keeps_its_segment [OF new_example_adapter, where a = index_adapter and sid = "''13''" and me = 1
        and xs = "[Ask [''13''] (Some 0) None]" and ys = "[Ask [''13''] (Some 2) None, Ask [''13'', ''43492''] None (Some 21)]"]
    by (simp add: index_adapter_def)
qed

lemma start_closes_its_socket_witness:
  "case snd (dhan_start example_conversions True 1 (\<lambda>t s. (Inl ValueError, s)) [None] (index_adapter, [] :: tick list)) of
      (b, _) \<Rightarrow> da_feed b = None \<and> da_owner_thread b = None \<and> \<not> da_running b"
  by (rule start_closes_its_socket)
     (simp_all add: index_adapter_def dhan_step_def dhan_subscribe_def opt_holds_def example_adapter_def subscribe_symbols_def Let_def)

text \<open>
  Three departures from the comments.  A numeric exchange time in milliseconds makes normalise raise; the mode of an
  instrument already subscribed changes in the adapter and not on the socket; and a reason code stays after the disconnection
  it belongs to, so a later drop that carries none is still reported with it.
\<close>

lemma normalise_can_raise:
  "normalise example_conversions captured_moment
     (JObj [(''LTP'', JNum 100), (''security_id'', JStr ''13''), (''LTT'', JNum 1785994728000)]) example_adapter
   = (Inl ValueError, example_adapter)"
  by (simp add: normalise_def to_tick_def as_bool_def as_float_def as_str_def is_never_traded_def get_or_null_def
      reconstruct_exchange_time_def from_timestamp_def Let_def non_tick_types_def)

lemma mode_change_sends_nothing:
  assumes "sid \<in> set (da_security_ids a)" "m \<in> set feed_modes"
  shows "mode_for sid (snd (dhan_subscribe [sid] None (Some m) a)) = m"
    "da_feed (snd (dhan_subscribe [sid] None (Some m) a)) = da_feed a"
  using assms by (simp_all add: dhan_subscribe_def opt_holds_def Let_def subscribe_symbols_def mode_for_def split: option.split)

lemma reason_outlives_its_disconnection:
  "token_expired (fold dhan_step [Told 807, Shut 1, Connect True 1, Told 0] index_adapter)"
  by (simp add: token_expired_def dhan_step_def disconnect_probe_def count_def dhan_stop_def dhan_connect_def Let_def
      split: option.split)

end
