(* ===== verification/Option_Chain.thy ===== *)
theory Option_Chain
  imports Conversions Effects
begin

text \<open>
  common/market\_data/option\_chain.py: the cache and the throttle in front of the
  broker's option chain.  The clock, the fetch and the sleep are the state's
  world: a fetch takes a time and may raise, a sleep lasts at least what was asked.
  One lock makes a call of the service one step.
\<close>

record chain_key =
  ck_security_id :: int
  ck_segment :: string
  ck_expiry :: string

record chain_snapshot =
  sn_key :: chain_key
  sn_payload :: "(string, json) dict"
  sn_snapshot_at :: datetime
  sn_received_at :: datetime
  sn_received_monotonic :: rat

definition age_seconds :: "rat \<Rightarrow> chain_snapshot \<Rightarrow> rat" where
  "age_seconds now sn = now - sn_received_monotonic sn"

definition is_fresh :: "rat \<Rightarrow> rat \<Rightarrow> chain_snapshot \<Rightarrow> bool" where
  "is_fresh now ttl sn = (age_seconds now sn < ttl)"

definition is_stale :: "rat \<Rightarrow> rat \<Rightarrow> chain_snapshot \<Rightarrow> bool" where
  "is_stale now staleness sn = (staleness \<le> age_seconds now sn)"

record chain_stats =
  cs_requests :: nat
  cs_api_calls :: nat
  cs_cache_hits :: nat
  cs_throttle_waits :: nat
  cs_throttle_wait_seconds :: rat
  cs_failures :: nat
  cs_per_key_api_calls :: "(chain_key, nat) dict"

definition no_chain_stats :: chain_stats where
  "no_chain_stats =
     \<lparr>cs_requests = 0, cs_api_calls = 0, cs_cache_hits = 0, cs_throttle_waits = 0, cs_throttle_wait_seconds = 0,
      cs_failures = 0, cs_per_key_api_calls = []\<rparr>"

definition dedup_ratio :: "chain_stats \<Rightarrow> rat" where
  "dedup_ratio s = (if cs_requests s = 0 then 0 else of_nat (cs_cache_hits s) / of_nat (cs_requests s))"

text \<open>
  The world of a service: the monotonic clock and the calls of the fetcher so far, each with its key and the readings at
  its two ends.  The fetcher is its outcome and duration at a reading.
\<close>

record chain_service =
  cv_now :: rat
  cv_calls :: "(chain_key \<times> rat \<times> rat) list"
  cv_cache :: "(chain_key, chain_snapshot) dict"
  cv_last_call_at :: "(chain_key, rat) dict"
  cv_stats :: chain_stats

record chain_config =
  cc_fetcher :: "chain_key \<Rightarrow> rat \<Rightarrow> (string, json) dict result \<times> rat"
  cc_sleep :: "rat \<Rightarrow> rat"
  cc_wall_clock :: "rat \<Rightarrow> datetime"
  cc_iso :: "string \<Rightarrow> datetime option"
  cc_shown :: "json \<Rightarrow> string"
  cc_ttl :: rat
  cc_throttle :: rat
  cc_staleness :: rat

definition new_chain_config :: "chain_config \<Rightarrow> chain_config result" where
  "new_chain_config c = (if cc_throttle c < 0 \<or> cc_ttl c < 0 then Inl ValueError else Inr c)"

definition new_chain_service :: "rat \<Rightarrow> chain_service" where
  "new_chain_service now =
     \<lparr>cv_now = now, cv_calls = [], cv_cache = [], cv_last_call_at = [], cv_stats = no_chain_stats\<rparr>"

text \<open>The broker's own timestamp in a response; a number is an epoch, up to the year 9999.\<close>

definition time_of_field :: "chain_config \<Rightarrow> json \<Rightarrow> datetime option result" where
  "time_of_field c raw =
     (case raw of
        JNum q \<Rightarrow>
          if q \<le> 0 then Inr None
          else if 253402300800 \<le> q then Inl ValueError
          else Inr (Some (DT (round_int (q * 1000000)) (Some utc)))
      | _ \<Rightarrow>
          (case cc_iso c (case raw of JStr s \<Rightarrow> s | _ \<Rightarrow> cc_shown c raw) of
             None \<Rightarrow> Inr None
           | Some d \<Rightarrow> Inr (Some (if utcoffset d = None then DT (wall d) (Some utc) else d))))"

fun first_time :: "chain_config \<Rightarrow> (string, json) dict \<Rightarrow> string list \<Rightarrow> datetime option result" where
  "first_time c payload [] = Inr None"
| "first_time c payload (f # fs) =
     (case dict_get payload f of
        None \<Rightarrow> first_time c payload fs
      | Some JNull \<Rightarrow> first_time c payload fs
      | Some raw \<Rightarrow>
          (case time_of_field c raw of
             Inl e \<Rightarrow> Inl e
           | Inr None \<Rightarrow> first_time c payload fs
           | Inr (Some d) \<Rightarrow> Inr (Some d)))"

definition snapshot_time :: "chain_config \<Rightarrow> (string, json) dict \<Rightarrow> datetime option result" where
  "snapshot_time c payload = first_time c payload [''timestamp'', ''snapshotTime'', ''snapshot_time'', ''lastUpdated'']"

definition count_chain :: "(chain_stats \<Rightarrow> chain_stats) \<Rightarrow> chain_service \<Rightarrow> chain_service" where
  "count_chain f s = s\<lparr>cv_stats := f (cv_stats s)\<rparr>"

definition wait_for :: "chain_config \<Rightarrow> chain_key \<Rightarrow> chain_service \<Rightarrow> rat" where
  "wait_for c k s =
     (case dict_get (cv_last_call_at s) k of None \<Rightarrow> 0 | Some last_at \<Rightarrow> max 0 (cc_throttle c - (cv_now s - last_at)))"

definition await_throttle :: "chain_config \<Rightarrow> chain_key \<Rightarrow> chain_service \<Rightarrow> chain_service" where
  "await_throttle c k s =
     (let wait = wait_for c k s in
      if wait \<le> 0 then s
      else
        let s1 = count_chain (\<lambda>t. t\<lparr>cs_throttle_waits := cs_throttle_waits t + 1,
                                   cs_throttle_wait_seconds := cs_throttle_wait_seconds t + wait\<rparr>) s
        in s1\<lparr>cv_now := cv_now s1 + cc_sleep c wait\<rparr>)"

text \<open>The call of the fetcher, and the reading after it that every branch records.\<close>

definition fetch :: "chain_config \<Rightarrow> chain_key \<Rightarrow> ((string, json) dict, chain_service) act" where
  "fetch c k s =
     (case cc_fetcher c k (cv_now s) of
        (r, took) \<Rightarrow>
          (r, s\<lparr>cv_now := cv_now s + took, cv_calls := cv_calls s @ [(k, cv_now s, cv_now s + took)],
               cv_last_call_at := dict_set k (cv_now s + took) (cv_last_call_at s)\<rparr>))"

definition get_chain :: "chain_config \<Rightarrow> chain_key \<Rightarrow> bool \<Rightarrow> (chain_snapshot, chain_service) act" where
  "get_chain c k allow_stale s =
     (let s1 = count_chain (\<lambda>t. t\<lparr>cs_requests := cs_requests t + 1\<rparr>) s;
          cached = dict_get (cv_cache s1) k
      in if opt_holds (is_fresh (cv_now s1) (cc_ttl c)) cached
         then (Inr (the cached), count_chain (\<lambda>t. t\<lparr>cs_cache_hits := cs_cache_hits t + 1\<rparr>) s1)
         else
           case fetch c k (await_throttle c k s1) of
             (Inl e, s2) \<Rightarrow>
               let s3 = count_chain (\<lambda>t. t\<lparr>cs_failures := cs_failures t + 1\<rparr>) s2 in
               (case cached of
                  Some sn \<Rightarrow> if allow_stale then (Inr sn, s3) else (Inl OptionChainError, s3)
                | None \<Rightarrow> (Inl OptionChainError, s3))
           | (Inr payload, s2) \<Rightarrow>
               let s3 = count_chain (\<lambda>t. t\<lparr>cs_api_calls := cs_api_calls t + 1,
                          cs_per_key_api_calls := dict_set k
                            (case dict_get (cs_per_key_api_calls t) k of None \<Rightarrow> 1 | Some n \<Rightarrow> n + 1)
                            (cs_per_key_api_calls t)\<rparr>) s2;
                   received_at = cc_wall_clock c (cv_now s3)
               in case snapshot_time c payload of
                    Inl e \<Rightarrow> (Inl e, s3)
                  | Inr found \<Rightarrow>
                      let sn = \<lparr>sn_key = k, sn_payload = payload,
                                sn_snapshot_at = (case found of None \<Rightarrow> received_at | Some d \<Rightarrow> d),
                                sn_received_at = received_at, sn_received_monotonic = cv_now s3\<rparr>
                      in (Inr sn, s3\<lparr>cv_cache := dict_set k sn (cv_cache s3)\<rparr>))"

definition cached_chain :: "chain_key \<Rightarrow> chain_service \<Rightarrow> chain_snapshot option" where
  "cached_chain k s = dict_get (cv_cache s) k"

definition seconds_until_allowed :: "chain_config \<Rightarrow> chain_key \<Rightarrow> chain_service \<Rightarrow> rat" where
  "seconds_until_allowed c k s = wait_for c k s"

definition invalidate :: "chain_service \<Rightarrow> chain_service" where
  "invalidate s = s\<lparr>cv_cache := []\<rparr>"

section \<open>The broker's limit\<close>

text \<open>A world in which time does not run backwards.\<close>

definition chain_world :: "chain_config \<Rightarrow> bool" where
  "chain_world c = ((\<forall>k now. 0 \<le> snd (cc_fetcher c k now)) \<and> (\<forall>w. w \<le> cc_sleep c w))"

datatype chain_op = Get chain_key bool | Invalidate | Elapse rat

definition chain_step :: "chain_config \<Rightarrow> chain_op \<Rightarrow> chain_service \<Rightarrow> chain_service" where
  "chain_step c x s =
     (case x of Get k b \<Rightarrow> snd (get_chain c k b s) | Invalidate \<Rightarrow> invalidate s
      | Elapse t \<Rightarrow> s\<lparr>cv_now := cv_now s + max 0 t\<rparr>)"

definition calls_of :: "chain_key \<Rightarrow> chain_service \<Rightarrow> (rat \<times> rat) list" where
  "calls_of k s = map snd (filter (\<lambda>x. fst x = k) (cv_calls s))"

definition spaced :: "rat \<Rightarrow> (rat \<times> rat) list \<Rightarrow> bool" where
  "spaced d xs = sorted_wrt (\<lambda>a b. snd a + d \<le> fst b) xs"

text \<open>The last call recorded for a key is the end of its last call, and no call ends after now.\<close>

definition key_inv :: "rat \<Rightarrow> rat \<Rightarrow> rat option \<Rightarrow> (rat \<times> rat) list \<Rightarrow> bool" where
  "key_inv d now last_at xs =
     (spaced d xs \<and> (\<forall>x \<in> set xs. fst x \<le> snd x \<and> snd x \<le> now)
      \<and> (case last_at of None \<Rightarrow> xs = [] | Some t \<Rightarrow> t \<le> now \<and> (\<forall>x \<in> set xs. snd x \<le> t)))"

definition chain_inv :: "chain_config \<Rightarrow> chain_service \<Rightarrow> bool" where
  "chain_inv c s = (\<forall>k. key_inv (cc_throttle c) (cv_now s) (dict_get (cv_last_call_at s) k) (calls_of k s))"

lemma key_inv_later: "key_inv d now l xs \<Longrightarrow> now \<le> now' \<Longrightarrow> key_inv d now' l xs"
  by (auto simp: key_inv_def split: option.splits)

lemma key_inv_called:
  "key_inv d now l xs \<Longrightarrow> 0 \<le> took \<Longrightarrow> (\<forall>t. l = Some t \<longrightarrow> t + d \<le> now)
    \<Longrightarrow> key_inv d (now + took) (Some (now + took)) (xs @ [(now, now + took)])"
  by (cases l) (fastforce simp: key_inv_def spaced_def sorted_wrt_append)+

lemma chain_inv_later:
  "chain_inv c s \<Longrightarrow> cv_now s \<le> cv_now s' \<Longrightarrow> cv_calls s' = cv_calls s \<Longrightarrow> cv_last_call_at s' = cv_last_call_at s \<Longrightarrow> chain_inv c s'"
  by (auto simp: chain_inv_def calls_of_def intro: key_inv_later)

lemma await_throttle_inv:
  assumes "chain_world c" "chain_inv c s" "0 \<le> cc_throttle c"
  shows "chain_inv c (await_throttle c k s)
    \<and> (\<forall>t. dict_get (cv_last_call_at (await_throttle c k s)) k = Some t \<longrightarrow> t + cc_throttle c \<le> cv_now (await_throttle c k s))"
proof -
  have w: "wait_for c k s \<le> cc_sleep c (wait_for c k s)" using assms(1) by (simp add: chain_world_def)
  have later: "cv_now s \<le> cv_now (await_throttle c k s)" "cv_calls (await_throttle c k s) = cv_calls s"
    "cv_last_call_at (await_throttle c k s) = cv_last_call_at s"
    using w by (auto simp: await_throttle_def Let_def count_chain_def)
  moreover have "t + cc_throttle c \<le> cv_now (await_throttle c k s)" if "dict_get (cv_last_call_at s) k = Some t" for t
    using that w by (auto simp: await_throttle_def Let_def count_chain_def wait_for_def max_def split: if_splits)
  ultimately show ?thesis using chain_inv_later [OF assms(2) later] by simp
qed

lemma fetch_inv:
  assumes "chain_world c" "chain_inv c s" "\<forall>t. dict_get (cv_last_call_at s) k = Some t \<longrightarrow> t + cc_throttle c \<le> cv_now s"
  shows "chain_inv c (snd (fetch c k s))"
proof -
  obtain r took where f: "cc_fetcher c k (cv_now s) = (r, took)" by fastforce
  then have t: "0 \<le> took" using assms(1) by (metis chain_world_def snd_conv)
  have calls: "calls_of j (snd (fetch c k s)) = calls_of j s @ (if j = k then [(cv_now s, cv_now s + took)] else [])" for j
    by (simp add: calls_of_def fetch_def f)
  show ?thesis unfolding chain_inv_def
  proof
    fix j
    have "key_inv (cc_throttle c) (cv_now s) (dict_get (cv_last_call_at s) j) (calls_of j s)"
      using assms(2) by (simp add: chain_inv_def)
    then show "key_inv (cc_throttle c) (cv_now (snd (fetch c k s))) (dict_get (cv_last_call_at (snd (fetch c k s))) j)
        (calls_of j (snd (fetch c k s)))"
      using key_inv_called [of "cc_throttle c" "cv_now s" "dict_get (cv_last_call_at s) k" "calls_of k s" took] assms(3) t
        key_inv_later [of "cc_throttle c" "cv_now s" "dict_get (cv_last_call_at s) j" "calls_of j s" "cv_now s + took"]
      by (cases "j = k") (simp_all add: calls, simp_all add: fetch_def f)
  qed
qed

lemma get_chain_inv:
  assumes "chain_world c" "chain_inv c s" "0 \<le> cc_throttle c"
  shows "chain_inv c (snd (get_chain c k b s))"
proof -
  let ?s = "count_chain (\<lambda>t. t\<lparr>cs_requests := cs_requests t + 1\<rparr>) s"
  have same: "chain_inv c s' = chain_inv c s''" if "cv_now s' = cv_now s''" "cv_calls s' = cv_calls s''"
    "cv_last_call_at s' = cv_last_call_at s''" for s' s'' using that by (simp add: chain_inv_def calls_of_def)
  have i: "chain_inv c ?s" using assms(2) same [of ?s s] by (simp add: count_chain_def)
  obtain r s2 where f: "fetch c k (await_throttle c k ?s) = (r, s2)" by fastforce
  have s2: "chain_inv c s2"
    using fetch_inv [OF assms(1), of "await_throttle c k ?s" k] await_throttle_inv [OF assms(1) i assms(3), of k] f by simp
  have "cv_now s3 = cv_now s2 \<and> cv_calls s3 = cv_calls s2 \<and> cv_last_call_at s3 = cv_last_call_at s2"
    if "s3 = snd (get_chain c k b s)" "\<not> opt_holds (is_fresh (cv_now ?s) (cc_ttl c)) (dict_get (cv_cache ?s) k)" for s3
    using that f by (auto simp: get_chain_def Let_def count_chain_def split: sum.split option.split)
  then show ?thesis using s2 same [of "snd (get_chain c k b s)" s2] i same [of "snd (get_chain c k b s)" ?s]
    by (cases "opt_holds (is_fresh (cv_now ?s) (cc_ttl c)) (dict_get (cv_cache ?s) k)")
       (auto simp: get_chain_def Let_def count_chain_def)
qed

lemma chain_run_inv:
  "chain_world c \<Longrightarrow> 0 \<le> cc_throttle c \<Longrightarrow> chain_inv c s \<Longrightarrow> chain_inv c (fold (chain_step c) xs s)"
proof (induction xs arbitrary: s)
  case (Cons x xs)
  have "chain_inv c (chain_step c x s)"
    using get_chain_inv [OF Cons.prems(1,3,2)] chain_inv_later [OF Cons.prems(3)]
    by (cases x) (simp_all add: chain_step_def invalidate_def)
  then show ?case using Cons by simp
qed simp

lemma chain_inv_new: "chain_inv c (new_chain_service now)"
  by (simp add: chain_inv_def key_inv_def new_chain_service_def calls_of_def spaced_def)

text \<open>C30: the broker's limit is kept per request.  Whatever is asked, invalidated or waited for, and whether the calls succeed
  or raise, two calls of the fetcher for one key are never closer, from the end of the first to the start of the second,
  than the throttle.
\<close>

theorem throttle_spaces_calls:
  assumes "new_chain_config c = Inr c" "chain_world c"
  shows "spaced (cc_throttle c) (calls_of k (fold (chain_step c) xs (new_chain_service now)))"
proof -
  have "0 \<le> cc_throttle c" using assms(1) by (simp add: new_chain_config_def split: if_splits)
  from chain_run_inv [OF assms(2) this chain_inv_new] show ?thesis by (simp add: chain_inv_def key_inv_def)
qed

section \<open>What a caller is handed\<close>

definition cache_ok :: "chain_service \<Rightarrow> bool" where
  "cache_ok s = (\<forall>(k, sn) \<in> set (cv_cache s). sn_key sn = k \<and> sn_received_monotonic sn \<le> cv_now s)"

text \<open>
  A snapshot is never presented as younger than it is.  What a call returns belongs to the key asked for, and is younger
  than the time to live, or was fetched by this very call, or is handed out because this call's fetch failed and the caller
  accepts that.
\<close>

theorem served_snapshot_is_honest:
  assumes "get_chain c k b s = (Inr sn, s1)" "cache_ok s"
  shows "sn_key sn = k \<and>
    (age_seconds (cv_now s1) sn < cc_ttl c \<or> sn_received_monotonic sn = cv_now s1
     \<or> b \<and> cs_failures (cv_stats s1) = cs_failures (cv_stats s) + 1 \<and> dict_get (cv_cache s) k = Some sn)"
proof -
  have "sn_key sn' = k" if "dict_get (cv_cache s) k = Some sn'" for sn'
    using assms(2) map_of_SomeD [OF that] by (auto simp: cache_ok_def)
  then show ?thesis using assms(1)
    by (auto simp: get_chain_def Let_def count_chain_def fetch_def await_throttle_def is_fresh_def opt_holds_def
        split: if_splits option.splits sum.splits prod.splits)
qed

section \<open>Examples\<close>

text \<open>A broker that answers in a tenth of a second, until the tenth second, and a sleep that lasts as asked.\<close>

definition example_chain :: chain_config where
  "example_chain =
     \<lparr>cc_fetcher = (\<lambda>k now. (if now < 10 then Inr [(''oc'', JObj [])] else Inl OSError, 1 / 10)), cc_sleep = (\<lambda>w. w),
      cc_wall_clock = (\<lambda>now. DT (round_int (now * 1000000)) (Some utc)), cc_iso = (\<lambda>_. None), cc_shown = (\<lambda>_. []),
      cc_ttl = 5 / 2, cc_throttle = 3, cc_staleness = 30\<rparr>"

definition nifty_chain :: chain_key where
  "nifty_chain = \<lparr>ck_security_id = 13, ck_segment = ''IDX_I'', ck_expiry = ''2026-08-06''\<rparr>"

lemma throttle_spaces_calls_witness:
  "spaced 3 (calls_of nifty_chain (fold (chain_step example_chain) [Get nifty_chain True, Invalidate, Get nifty_chain True]
     (new_chain_service 0)))"
  using throttle_spaces_calls [of example_chain nifty_chain "[Get nifty_chain True, Invalidate, Get nifty_chain True]" 0]
  by (simp add: example_chain_def new_chain_config_def chain_world_def)

definition after_one :: chain_service where
  "after_one = snd (get_chain example_chain nifty_chain True (new_chain_service 0))"

lemma served_snapshot_is_honest_witness:
  "case get_chain example_chain nifty_chain True (after_one\<lparr>cv_now := 20\<rparr>) of
     (Inr sn, s1) \<Rightarrow> sn_key sn = nifty_chain \<and> age_seconds (cv_now s1) sn = 20 \<and> cs_failures (cv_stats s1) = 1
   | _ \<Rightarrow> False"
proof -
  obtain sn s1 where g: "get_chain example_chain nifty_chain True (after_one\<lparr>cv_now := 20\<rparr>) = (Inr sn, s1)"
    "age_seconds (cv_now s1) sn = 20" "cs_failures (cv_stats s1) = 1"
    by (simp add: after_one_def get_chain_def example_chain_def new_chain_service_def no_chain_stats_def Let_def count_chain_def
        is_fresh_def age_seconds_def await_throttle_def wait_for_def fetch_def snapshot_time_def)
  have "cache_ok (after_one\<lparr>cv_now := 20\<rparr>)"
    by (simp add: cache_ok_def after_one_def get_chain_def example_chain_def new_chain_service_def no_chain_stats_def Let_def
        count_chain_def await_throttle_def wait_for_def fetch_def snapshot_time_def)
  from served_snapshot_is_honest [OF g(1) this] g show ?thesis by simp
qed

text \<open>
  The throttle is per key: two different requests follow one another without a wait, so it does not limit the group to one
  call every three seconds.
\<close>

lemma keys_are_throttled_apart:
  "map (\<lambda>(_, a, b). (a, b)) (cv_calls (fold (chain_step example_chain)
      [Get nifty_chain True, Get (nifty_chain\<lparr>ck_expiry := ''2026-08-13''\<rparr>) True] (new_chain_service 0)))
    = [(0, 1 / 10), (1 / 10, 1 / 5)]"
  by (simp add: chain_step_def nifty_chain_def get_chain_def example_chain_def new_chain_service_def no_chain_stats_def Let_def
      count_chain_def is_fresh_def age_seconds_def await_throttle_def wait_for_def fetch_def snapshot_time_def)

end
