(* ===== verification/Strike_Selection.thy ===== *)
theory Strike_Selection
  imports Scrip_Master Engine_Models Paper_Broker
begin

text \<open>
  common/engine/selection.py: the strike for a spot price and a moneyness, the
  two resolvers of a strike into a contract, and the selector the engine calls.
\<close>

definition nearest_atm_strike :: "rat \<Rightarrow> int \<Rightarrow> int \<Rightarrow> int result" where
  "nearest_atm_strike spot strike_step offset =
     (if strike_step \<le> 0 then Inl ValueError
      else Inr (round_int (spot / of_int strike_step) * strike_step + offset * strike_step))"

definition strike_offset :: "option_type \<Rightarrow> moneyness \<Rightarrow> int \<Rightarrow> int" where
  "strike_offset ot m steps =
     (if m = ATM \<or> steps = 0 then 0
      else if ot = CE then (if m = OTM then steps else - steps)
      else (if m = OTM then - steps else steps))"

definition resolve_strike :: "rat \<Rightarrow> int \<Rightarrow> option_type \<Rightarrow> moneyness \<Rightarrow> int \<Rightarrow> int result" where
  "resolve_strike spot strike_step ot m steps = nearest_atm_strike spot strike_step (strike_offset ot m steps)"

text \<open>A resolver: synthetic contracts, or the rows of the loaded instrument master.\<close>

datatype resolver =
    Simulated string int string
  | Listed scrip_master string

definition option_type_text :: "option_type \<Rightarrow> string" where
  "option_type_text ot = (case ot of CE \<Rightarrow> ''CE'' | PE \<Rightarrow> ''PE'')"

definition strike_text :: "int \<Rightarrow> string" where
  "strike_text n = (if n < 0 then ''-'' @ nat_digits (nat (- n)) else nat_digits (nat n))"

definition new_listed_resolver :: "scrip_master \<Rightarrow> string option \<Rightarrow> day \<Rightarrow> resolver result" where
  "new_listed_resolver m expiry today =
     (if given expiry then Inr (Listed m (the expiry)) else bindE (nearest_expiry today m) (\<lambda>e. Inr (Listed m e)))"

definition contract_of_listed :: "option_row \<Rightarrow> option_contract" where
  "contract_of_listed r =
     \<lparr>oc_symbol = ow_symbol r, oc_security_id = ow_security_id r, oc_strike = ow_strike r, oc_option_type = ow_option_type r,
      oc_expiry = ow_expiry r, oc_lot_size = ow_lot_size r\<rparr>"

definition resolve :: "int \<Rightarrow> option_type \<Rightarrow> string option \<Rightarrow> resolver \<Rightarrow> option_contract result" where
  "resolve strike ot expiry r =
     (case r of
        Simulated underlying lot_size default_expiry \<Rightarrow>
          let e = or_given expiry default_expiry in
          Inr \<lparr>oc_symbol = underlying @ '' '' @ e @ '' '' @ strike_text strike @ '' '' @ option_type_text ot,
               oc_security_id = ''SIM:'' @ underlying @ '':'' @ e @ '':'' @ strike_text strike @ '':'' @ option_type_text ot,
               oc_strike = of_int strike, oc_option_type = ot, oc_expiry = e, oc_lot_size = lot_size\<rparr>
      | Listed m fixed \<Rightarrow>
          (case master_get (of_int strike) ot (or_given expiry fixed) m of
             None \<Rightarrow> Inl ContractNotListed
           | Some row \<Rightarrow> Inr (contract_of_listed row)))"

definition instrument_rules_of :: "resolver \<Rightarrow> string \<Rightarrow> instrument_rules option" where
  "instrument_rules_of r sid =
     (case r of
        Simulated _ _ _ \<Rightarrow> None
      | Listed m _ \<Rightarrow>
          map_option (\<lambda>row. no_rules\<lparr>ir_lot_size := Some (ow_lot_size row), ir_tick_size := ow_tick_size row\<rparr>)
            (by_security_id sid m))"

record option_selector =
  sel_resolver :: resolver
  sel_strike_step :: int
  sel_default_moneyness :: moneyness
  sel_default_steps :: int
  sel_expiry :: "string option"

definition select ::
  "rat \<Rightarrow> option_type \<Rightarrow> moneyness option \<Rightarrow> int option \<Rightarrow> option_selector \<Rightarrow> option_contract result" where
  "select spot ot m steps s =
     bindE (resolve_strike spot (sel_strike_step s) ot
              (case m of None \<Rightarrow> sel_default_moneyness s | Some x \<Rightarrow> x)
              (case steps of None \<Rightarrow> sel_default_steps s | Some n \<Rightarrow> n)) (\<lambda>strike.
     resolve strike ot (sel_expiry s) (sel_resolver s))"

section \<open>Which side of the money\<close>

lemma atm_near: "0 < step \<Longrightarrow> 2 * \<bar>of_int (round_int (spot / of_int step) * step) - spot\<bar> \<le> (of_int step :: rat)"
  using atm_band_centre [of step spot] by (simp add: field_simps)

text \<open>The strike is on the strike grid and on the side of the money asked for.  At the money it is within half a step of the
  spot price; otherwise, with n steps, it is between n minus a half and n plus a half steps away, below the spot for an
  in-the-money call or out-of-the-money put, above it for the two others.
\<close>

theorem strike_is_on_the_side_asked:
  assumes "0 < step" "0 \<le> n"
  shows "case resolve_strike spot step ot m n of
      Inl _ \<Rightarrow> False
    | Inr k \<Rightarrow> k mod step = 0 \<and>
        (let d = (if (ot = CE) = (m = OTM) then of_int k - spot else spot - of_int k);
             away = (if m = ATM then 0 else of_int (n * step))
         in (if m = ATM then \<bar>of_int k - spot\<bar> \<le> of_int step / 2 else \<bar>d - away\<bar> \<le> of_int step / 2))"
proof -
  let ?a = "round_int (spot / of_int step) * step"
  have a: "\<bar>of_int ?a - spot\<bar> \<le> of_int step / 2" using atm_band_centre [OF assms(1), of spot] .
  have k: "resolve_strike spot step ot m n = Inr (?a + strike_offset ot m n * step)"
    using assms(1) by (simp add: resolve_strike_def nearest_atm_strike_def)
  have g: "(?a + strike_offset ot m n * step) mod step = 0" by simp
  have o: "of_int (?a + strike_offset ot m n * step) = of_int ?a + of_int (strike_offset ot m n * step)" by simp
  show ?thesis
  proof (cases m)
    case ATM
    then show ?thesis using a k g by (simp add: strike_offset_def Let_def)
  next
    case ITM
    then show ?thesis using a k g by (cases ot) (auto simp: strike_offset_def Let_def abs_minus_commute)
  next
    case OTM
    then show ?thesis using a k g by (cases ot) (auto simp: strike_offset_def Let_def abs_minus_commute)
  qed
qed

lemma strike_is_on_the_side_asked_witness:
  "case resolve_strike 24987 50 CE ITM 2 of
     Inl _ \<Rightarrow> False | Inr k \<Rightarrow> k mod 50 = 0 \<and> \<bar>24987 - of_int k - (100 :: rat)\<bar> \<le> 25"
  using strike_is_on_the_side_asked [where step = 50 and n = 2 and spot = 24987 and ot = CE and m = ITM] by (simp add: Let_def split: sum.splits)

text \<open>What the selector hands the engine is a row of the master with the strike it resolved, or ContractNotListed.\<close>

lemma select_listed:
  assumes "sel_resolver s = Listed m e" "resolve_strike spot (sel_strike_step s) ot (sel_default_moneyness s) (sel_default_steps s) = Inr k"
    and "\<not> given (sel_expiry s)"
  shows "select spot ot None None s = (case master_get (of_int k) ot e m of None \<Rightarrow> Inl ContractNotListed
    | Some row \<Rightarrow> Inr (contract_of_listed row))"
  using assms by (simp add: select_def resolve_def or_given_def)

end
