(* ===== verification/Indicators.thy ===== *)
theory Indicators
  imports Candles Effects
begin

text \<open>
  common/indicators: the stateful indicators, fed one closed candle at a time,
  the crossover gate of ema.py and the batch form of SuperTrend.  What update
  returns is the state after it; numbers are rationals.
\<close>

text \<open>True range and Wilder's smoothing, which four of the indicators write out alike.\<close>

definition true_range :: "rat option \<Rightarrow> ohlc \<Rightarrow> rat" where
  "true_range prev_close c =
     (case prev_close of
        None \<Rightarrow> oh_high c - oh_low c
      | Some p \<Rightarrow> max (oh_high c - oh_low c) (max \<bar>oh_high c - p\<bar> \<bar>oh_low c - p\<bar>))"

definition wilder :: "int \<Rightarrow> rat option \<Rightarrow> rat \<Rightarrow> rat" where
  "wilder period prev v = (case prev of None \<Rightarrow> v | Some p \<Rightarrow> p + 1 / of_int period * (v - p))"

section \<open>EMA\<close>

record ema =
  em_period :: int
  em_value :: "rat option"
  em_count :: nat

definition new_ema :: "int \<Rightarrow> ema result" where
  "new_ema period = (if period < 1 then Inl ValueError else Inr \<lparr>em_period = period, em_value = None, em_count = 0\<rparr>)"

definition reset_ema :: "ema \<Rightarrow> ema" where
  "reset_ema e = e\<lparr>em_value := None, em_count := 0\<rparr>"

definition ema_is_ready :: "ema \<Rightarrow> bool" where
  "ema_is_ready e = (em_period e \<le> int (em_count e))"

definition ema_alpha :: "int \<Rightarrow> rat" where
  "ema_alpha period = 2 / (of_int period + 1)"

definition update_ema :: "ohlc \<Rightarrow> ema \<Rightarrow> ema" where
  "update_ema c e =
     e\<lparr>em_value := Some (case em_value e of None \<Rightarrow> oh_close c | Some v \<Rightarrow> v + ema_alpha (em_period e) * (oh_close c - v)),
       em_count := em_count e + 1\<rparr>"

definition ema_state :: "ema \<Rightarrow> rat result" where
  "ema_state e = (case em_value e of None \<Rightarrow> Inl RuntimeError | Some v \<Rightarrow> Inr v)"

section \<open>The crossover gate\<close>

record crossover =
  cx_minimum_separation :: rat
  cx_confirmation_candles :: int
  cx_confirmed_side :: "int option"
  cx_candidate_side :: "int option"
  cx_candidate_count :: int
  cx_initialized :: bool

definition new_crossover :: "rat \<Rightarrow> int \<Rightarrow> crossover result" where
  "new_crossover minimum_separation confirmation_candles =
     (if minimum_separation < 0 then Inl ValueError
      else if confirmation_candles < 1 then Inl ValueError
      else Inr \<lparr>cx_minimum_separation = minimum_separation, cx_confirmation_candles = confirmation_candles,
                cx_confirmed_side = None, cx_candidate_side = None, cx_candidate_count = 0, cx_initialized = False\<rparr>)"

definition reset_crossover :: "crossover \<Rightarrow> crossover" where
  "reset_crossover c =
     c\<lparr>cx_confirmed_side := None, cx_candidate_side := None, cx_candidate_count := 0, cx_initialized := False\<rparr>"

definition raw_side :: "rat \<Rightarrow> rat \<Rightarrow> int option" where
  "raw_side minimum_separation spread =
     (if minimum_separation < spread then Some 1 else if spread < - minimum_separation then Some (- 1) else None)"

definition update_crossover :: "rat \<Rightarrow> crossover \<Rightarrow> int option \<times> crossover" where
  "update_crossover spread c =
     (let raw = raw_side (cx_minimum_separation c) spread in
      if \<not> cx_initialized c then (None, c\<lparr>cx_initialized := True, cx_confirmed_side := raw\<rparr>)
      else if raw = None \<or> raw = cx_confirmed_side c then (None, c\<lparr>cx_candidate_side := None, cx_candidate_count := 0\<rparr>)
      else
        let c1 = (if raw \<noteq> cx_candidate_side c then c\<lparr>cx_candidate_side := raw, cx_candidate_count := 1\<rparr>
                  else c\<lparr>cx_candidate_count := cx_candidate_count c + 1\<rparr>)
        in if cx_candidate_count c1 < cx_confirmation_candles c1 then (None, c1)
           else (raw, c1\<lparr>cx_confirmed_side := raw, cx_candidate_side := None, cx_candidate_count := 0\<rparr>))"

definition confirmed_label :: "crossover \<Rightarrow> string" where
  "confirmed_label c =
     (if cx_confirmed_side c = Some 1 then ''bullish'' else if cx_confirmed_side c = Some (- 1) then ''bearish''
      else ''unconfirmed'')"

definition candidate_label :: "crossover \<Rightarrow> string" where
  "candidate_label c =
     (if cx_candidate_side c = Some 1 then ''bullish'' else if cx_candidate_side c = Some (- 1) then ''bearish'' else ''none'')"

section \<open>ATR, RSI and VWAP\<close>

record atr =
  at_period :: int
  at_prev_close :: "rat option"
  at_atr :: "rat option"
  at_count :: nat

definition new_atr :: "int \<Rightarrow> atr result" where
  "new_atr period =
     (if period < 1 then Inl ValueError
      else Inr \<lparr>at_period = period, at_prev_close = None, at_atr = None, at_count = 0\<rparr>)"

definition update_atr :: "ohlc \<Rightarrow> atr \<Rightarrow> atr" where
  "update_atr c a =
     a\<lparr>at_atr := Some (wilder (at_period a) (at_atr a) (true_range (at_prev_close a) c)),
       at_prev_close := Some (oh_close c), at_count := at_count a + 1\<rparr>"

definition atr_state :: "atr \<Rightarrow> rat result" where
  "atr_state a = (case at_atr a of None \<Rightarrow> Inl RuntimeError | Some v \<Rightarrow> Inr v)"

record rsi =
  rs_period :: int
  rs_prev_close :: "rat option"
  rs_averages :: "(rat \<times> rat) option"
  rs_count :: nat
  rs_seed_gains :: "rat list"
  rs_seed_losses :: "rat list"

definition new_rsi :: "int \<Rightarrow> rsi result" where
  "new_rsi period =
     (if period < 1 then Inl ValueError
      else Inr \<lparr>rs_period = period, rs_prev_close = None, rs_averages = None, rs_count = 0, rs_seed_gains = [],
                rs_seed_losses = []\<rparr>)"

text \<open>The two averages are set together; without them update gives a neutral 50 and state raises.\<close>

definition update_rsi :: "ohlc \<Rightarrow> rsi \<Rightarrow> rsi" where
  "update_rsi c r =
     (case rs_prev_close r of
        None \<Rightarrow> r\<lparr>rs_prev_close := Some (oh_close c), rs_count := rs_count r + 1\<rparr>
      | Some p \<Rightarrow>
          let change = oh_close c - p; gain = max change 0; loss = max (- change) 0;
              r1 = (case rs_averages r of
                      None \<Rightarrow>
                        (let gains = deque_append (nat (rs_period r)) (rs_seed_gains r) gain;
                             losses = deque_append (nat (rs_period r)) (rs_seed_losses r) loss
                         in r\<lparr>rs_seed_gains := gains, rs_seed_losses := losses,
                              rs_averages := (if int (length gains) = rs_period r
                                              then Some (sum_list gains / of_int (rs_period r), sum_list losses / of_int (rs_period r))
                                              else None)\<rparr>)
                    | Some (g, l) \<Rightarrow>
                        r\<lparr>rs_averages := Some (wilder (rs_period r) (Some g) gain, wilder (rs_period r) (Some l) loss)\<rparr>)
          in r1\<lparr>rs_prev_close := Some (oh_close c), rs_count := rs_count r + 1\<rparr>)"

definition rsi_state :: "rsi \<Rightarrow> rat result" where
  "rsi_state r =
     (case rs_averages r of
        None \<Rightarrow> Inl RuntimeError
      | Some (g, l) \<Rightarrow> Inr (if l = 0 then 100 else 100 - 100 / (1 + g / l)))"

definition rsi_value :: "rsi \<Rightarrow> rat" where
  "rsi_value r = (case rsi_state r of Inl _ \<Rightarrow> 50 | Inr v \<Rightarrow> v)"

record vwap =
  vw_cum_pv :: rat
  vw_cum_vol :: rat
  vw_count :: nat

definition new_vwap :: vwap where
  "new_vwap = \<lparr>vw_cum_pv = 0, vw_cum_vol = 0, vw_count = 0\<rparr>"

definition update_vwap :: "ohlc \<Rightarrow> vwap \<Rightarrow> vwap" where
  "update_vwap c v =
     (let volume = (case oh_volume c of None \<Rightarrow> 0 | Some x \<Rightarrow> x); typical_price = (oh_high c + oh_low c + oh_close c) / 3 in
      v\<lparr>vw_cum_pv := vw_cum_pv v + typical_price * volume, vw_cum_vol := vw_cum_vol v + volume, vw_count := vw_count v + 1\<rparr>)"

definition vwap_state :: "vwap \<Rightarrow> rat result" where
  "vwap_state v = (if vw_cum_vol v \<le> 0 then Inl RuntimeError else Inr (vw_cum_pv v / vw_cum_vol v))"

section \<open>ADX\<close>

record adx =
  ax_period :: int
  ax_count :: nat
  ax_prev :: "ohlc option"
  ax_smoothed_tr :: "rat option"
  ax_smoothed_plus_dm :: "rat option"
  ax_smoothed_minus_dm :: "rat option"
  ax_adx :: "rat option"

record adx_state =
  as_adx :: rat
  as_plus_di :: rat
  as_minus_di :: rat

definition new_adx :: "int \<Rightarrow> adx result" where
  "new_adx period =
     (if period < 1 then Inl ValueError
      else Inr \<lparr>ax_period = period, ax_count = 0, ax_prev = None, ax_smoothed_tr = None, ax_smoothed_plus_dm = None,
                ax_smoothed_minus_dm = None, ax_adx = None\<rparr>)"

definition directional_moves :: "ohlc option \<Rightarrow> ohlc \<Rightarrow> rat \<times> rat" where
  "directional_moves prev c =
     (case prev of
        None \<Rightarrow> (0, 0)
      | Some p \<Rightarrow>
          let up = oh_high c - oh_high p; down = oh_low p - oh_low c in
          (if down < up \<and> 0 < up then up else 0, if up < down \<and> 0 < down then down else 0))"

definition indices_of :: "rat \<Rightarrow> rat \<Rightarrow> rat \<Rightarrow> rat \<times> rat" where
  "indices_of tr plus_dm minus_dm = (if tr \<noteq> 0 then (100 * plus_dm / tr, 100 * minus_dm / tr) else (0, 0))"

definition update_adx :: "ohlc \<Rightarrow> adx \<Rightarrow> adx_state \<times> adx" where
  "update_adx c a =
     (case directional_moves (ax_prev a) c of
        (plus_dm, minus_dm) \<Rightarrow>
          let str = wilder (ax_period a) (ax_smoothed_tr a) (true_range (map_option oh_close (ax_prev a)) c);
              sp = wilder (ax_period a) (ax_smoothed_plus_dm a) plus_dm;
              sm = wilder (ax_period a) (ax_smoothed_minus_dm a) minus_dm
          in case indices_of str sp sm of
               (plus_di, minus_di) \<Rightarrow>
                 let di_sum = plus_di + minus_di;
                     dx = (if di_sum \<noteq> 0 then 100 * \<bar>plus_di - minus_di\<bar> / di_sum else 0);
                     x = wilder (ax_period a) (ax_adx a) dx
                 in (\<lparr>as_adx = x, as_plus_di = plus_di, as_minus_di = minus_di\<rparr>,
                     a\<lparr>ax_smoothed_tr := Some str, ax_smoothed_plus_dm := Some sp, ax_smoothed_minus_dm := Some sm,
                       ax_adx := Some x, ax_prev := Some c, ax_count := ax_count a + 1\<rparr>))"

definition adx_state_of :: "adx \<Rightarrow> adx_state result" where
  "adx_state_of a =
     (case ax_adx a of
        None \<Rightarrow> Inl RuntimeError
      | Some x \<Rightarrow>
          (case (if (case ax_smoothed_tr a of None \<Rightarrow> False | Some t \<Rightarrow> t \<noteq> 0)
                 then indices_of (the (ax_smoothed_tr a))
                        (case ax_smoothed_plus_dm a of None \<Rightarrow> 0 | Some v \<Rightarrow> v)
                        (case ax_smoothed_minus_dm a of None \<Rightarrow> 0 | Some v \<Rightarrow> v)
                 else (0, 0)) of
             (plus_di, minus_di) \<Rightarrow> Inr \<lparr>as_adx = x, as_plus_di = plus_di, as_minus_di = minus_di\<rparr>))"

section \<open>SuperTrend\<close>

record supertrend =
  su_period :: int
  su_multiplier :: rat
  su_count :: nat
  su_prev_close :: "rat option"
  su_atr :: "rat option"
  su_final_upper :: "rat option"
  su_final_lower :: "rat option"
  su_trend :: "int option"
  su_line :: "rat option"
  su_flipped :: bool

definition up_trend :: int where "up_trend = 1"
definition down_trend :: int where "down_trend = - 1"

definition new_supertrend :: "int \<Rightarrow> rat \<Rightarrow> supertrend result" where
  "new_supertrend period multiplier =
     (if period < 1 then Inl ValueError
      else Inr \<lparr>su_period = period, su_multiplier = multiplier, su_count = 0, su_prev_close = None, su_atr = None,
                su_final_upper = None, su_final_lower = None, su_trend = None, su_line = None, su_flipped = False\<rparr>)"

record supertrend_state =
  ss_trend :: int
  ss_line :: rat
  ss_flipped :: bool

definition supertrend_state_of :: "supertrend \<Rightarrow> supertrend_state result" where
  "supertrend_state_of s =
     (case (su_trend s, su_line s) of
        (Some t, Some l) \<Rightarrow> Inr \<lparr>ss_trend = t, ss_line = l, ss_flipped = su_flipped s\<rparr>
      | _ \<Rightarrow> Inl RuntimeError)"

definition update_supertrend :: "ohlc \<Rightarrow> (supertrend_state, supertrend) act" where
  "update_supertrend c s =
     (let atr = wilder (su_period s) (su_atr s) (true_range (su_prev_close s) c);
          hl2 = (oh_high c + oh_low c) / 2;
          upper_basic = hl2 + su_multiplier s * atr; lower_basic = hl2 - su_multiplier s * atr;
          s1 = s\<lparr>su_atr := Some atr\<rparr>;
          finish = (\<lambda>final_upper final_lower trend.
            let s2 = s1\<lparr>su_final_upper := Some final_upper, su_final_lower := Some final_lower, su_trend := Some trend,
                        su_line := Some (if trend = up_trend then final_lower else final_upper),
                        su_flipped := (su_trend s \<noteq> None \<and> su_trend s \<noteq> Some trend), su_prev_close := Some (oh_close c),
                        su_count := su_count s + 1\<rparr>
            in (supertrend_state_of s2, s2))
      in if su_count s = 0
         then finish upper_basic lower_basic (if lower_basic \<le> oh_close c then up_trend else down_trend)
         else
           (case (su_final_upper s, su_final_lower s, su_prev_close s) of
              (Some fu, Some fl, Some pc) \<Rightarrow>
                let final_upper = (if upper_basic < fu \<or> fu < pc then upper_basic else fu);
                    final_lower = (if fl < lower_basic \<or> pc < fl then lower_basic else fl)
                in finish final_upper final_lower
                     (if su_trend s = Some up_trend then (if oh_close c < final_lower then down_trend else up_trend)
                      else (if final_upper < oh_close c then up_trend else down_trend))
            | _ \<Rightarrow> (Inl RuntimeError, s1)))"

text \<open>
  The batch form: columns of the frame, then one loop over the rows that reads the row before.  The exponentially weighted
  mean of pandas is a parameter.
\<close>

fun shifted :: "rat list \<Rightarrow> rat option list" where
  "shifted xs = None # map Some (butlast xs)"

definition wilder_atr :: "(rat \<Rightarrow> rat list \<Rightarrow> rat list) \<Rightarrow> int \<Rightarrow> ohlc list \<Rightarrow> rat list" where
  "wilder_atr ewm period cs = ewm (1 / of_int period) (map2 true_range (shifted (map oh_close cs)) cs)"

definition band_row :: "(rat \<times> rat \<times> int \<times> rat) \<times> rat \<Rightarrow> rat \<times> rat \<times> rat \<Rightarrow> rat \<times> rat \<times> int \<times> rat" where
  "band_row prev row =
     (case (prev, row) of
        (((fu, fl, trend, _), pc), (ub, lb, cl)) \<Rightarrow>
          let final_upper = (if ub < fu \<or> fu < pc then ub else fu);
              final_lower = (if fl < lb \<or> pc < fl then lb else fl);
              trend1 = (if trend = up_trend then (if cl < final_lower then down_trend else up_trend)
                        else (if final_upper < cl then up_trend else down_trend))
          in (final_upper, final_lower, trend1, if trend1 = up_trend then final_lower else final_upper))"

definition first_row :: "rat \<times> rat \<times> rat \<Rightarrow> rat \<times> rat \<times> int \<times> rat" where
  "first_row row =
     (case row of
        (ub, lb, cl) \<Rightarrow>
          let trend = (if lb \<le> cl then up_trend else down_trend) in (ub, lb, trend, if trend = up_trend then lb else ub))"

fun band_rows :: "(rat \<times> rat \<times> int \<times> rat) \<times> rat \<Rightarrow> (rat \<times> rat \<times> rat) list \<Rightarrow> (rat \<times> rat \<times> int \<times> rat) list" where
  "band_rows prev [] = []"
| "band_rows prev (row # rows) = band_row prev row # band_rows (band_row prev row, snd (snd row)) rows"

definition supertrend_batch :: "(rat \<Rightarrow> rat list \<Rightarrow> rat list) \<Rightarrow> int \<Rightarrow> rat \<Rightarrow> ohlc list \<Rightarrow> (int \<times> rat) list" where
  "supertrend_batch ewm period multiplier cs =
     (let rows = map2 (\<lambda>c a. let hl2 = (oh_high c + oh_low c) / 2 in
                         (hl2 + multiplier * a, hl2 - multiplier * a, oh_close c)) cs (wilder_atr ewm period cs)
      in case rows of
           [] \<Rightarrow> []
         | r # rs \<Rightarrow> map (\<lambda>(_, _, trend, line). (trend, line)) (first_row r # band_rows (first_row r, snd (snd r)) rs))"

section \<open>Smoothing stays between its inputs\<close>

lemma smooth_lower: "lo \<le> x \<Longrightarrow> lo \<le> y \<Longrightarrow> 0 \<le> a \<Longrightarrow> a \<le> 1 \<Longrightarrow> lo \<le> x + a * (y - x)" for a :: rat
proof -
  assume h: "lo \<le> x" "lo \<le> y" "0 \<le> a" "a \<le> 1"
  have "(1 - a) * lo + a * lo \<le> (1 - a) * x + a * y" using h by (intro add_mono mult_left_mono) simp_all
  then show ?thesis by (simp add: algebra_simps)
qed

lemma smooth_upper: "x \<le> hi \<Longrightarrow> y \<le> hi \<Longrightarrow> 0 \<le> a \<Longrightarrow> a \<le> 1 \<Longrightarrow> x + a * (y - x) \<le> hi" for a :: rat
  using smooth_lower [of "- hi" "- x" "- y" a] by (simp add: algebra_simps)

lemma period_share: "1 \<le> p \<Longrightarrow> 0 \<le> 1 / (of_int p :: rat) \<and> 1 / (of_int p :: rat) \<le> 1"
  by (simp add: divide_le_eq_1)

lemma wilder_lower:
  "1 \<le> p \<Longrightarrow> opt_holds (\<lambda>x. lo \<le> x) prev \<or> prev = None \<Longrightarrow> lo \<le> v \<Longrightarrow> lo \<le> wilder p prev v"
  using period_share [of p] smooth_lower [of lo _ v "1 / of_int p"] by (cases prev) (simp_all add: wilder_def)

lemma wilder_upper:
  "1 \<le> p \<Longrightarrow> opt_holds (\<lambda>x. x \<le> hi) prev \<or> prev = None \<Longrightarrow> v \<le> hi \<Longrightarrow> wilder p prev v \<le> hi"
  using period_share [of p] smooth_upper [of _ hi v "1 / of_int p"] by (cases prev) (simp_all add: wilder_def)

lemma wilder_mono:
  assumes "1 \<le> p" "v \<le> w" "(prev = None \<and> prev' = None) \<or> (\<exists>x y. prev = Some x \<and> prev' = Some y \<and> x \<le> y)"
  shows "wilder p prev v \<le> wilder p prev' w"
proof (cases prev)
  case (Some x)
  then obtain y where y: "prev' = Some y" "x \<le> y" using assms(3) by auto
  have "0 \<le> (y - x) + 1 / of_int p * ((w - v) - (y - x))"
    using smooth_lower [of 0 "y - x" "w - v" "1 / of_int p"] y assms(2) period_share [OF assms(1)] by simp
  then show ?thesis using Some y by (simp add: wilder_def algebra_simps add_divide_distrib diff_divide_distrib)
qed (use assms in \<open>auto simp: wilder_def\<close>)

text \<open>A bar as the market makes it.\<close>

definition bar_ok :: "ohlc \<Rightarrow> bool" where
  "bar_ok c = (oh_low c \<le> oh_close c \<and> oh_close c \<le> oh_high c \<and> opt_holds (\<lambda>v. 0 \<le> v) (oh_volume c))"

definition bars_between :: "rat \<Rightarrow> rat \<Rightarrow> ohlc list \<Rightarrow> bool" where
  "bars_between lo hi cs = list_all (\<lambda>c. bar_ok c \<and> lo \<le> oh_low c \<and> oh_high c \<le> hi) cs"

lemma true_range_nonneg: "bar_ok c \<Longrightarrow> 0 \<le> true_range pc c"
  by (auto simp: bar_ok_def true_range_def max_def split: option.split)

definition ema_inv :: "int \<Rightarrow> rat \<Rightarrow> rat \<Rightarrow> ema \<Rightarrow> bool" where
  "ema_inv p lo hi e = (em_period e = p \<and> opt_holds (\<lambda>v. lo \<le> v \<and> v \<le> hi) (em_value e))"

lemma ema_alpha_share: "1 \<le> p \<Longrightarrow> 0 \<le> ema_alpha p \<and> ema_alpha p \<le> 1"
  by (simp add: ema_alpha_def divide_le_eq_1)

lemma update_ema_inv:
  assumes "1 \<le> p" "lo \<le> oh_close c" "oh_close c \<le> hi" "em_period e = p" "em_value e = None \<or> ema_inv p lo hi e"
  shows "ema_inv p lo hi (update_ema c e)"
  using assms ema_alpha_share [of p] smooth_lower [of lo _ "oh_close c" "ema_alpha p"] smooth_upper [of _ hi "oh_close c" "ema_alpha p"]
  by (cases "em_value e") (auto simp: ema_inv_def update_ema_def)

lemma bars_betweenD:
  "bars_between lo hi (c # cs) \<Longrightarrow> bar_ok c \<and> lo \<le> oh_low c \<and> oh_high c \<le> hi \<and> bars_between lo hi cs"
  by (simp add: bars_between_def)

lemma fold_ema_inv:
  "1 \<le> p \<Longrightarrow> bars_between lo hi cs \<Longrightarrow> ema_inv p lo hi e \<Longrightarrow> ema_inv p lo hi (fold update_ema cs e)"
proof (induction cs arbitrary: e)
  case (Cons c cs)
  have "lo \<le> oh_close c" "oh_close c \<le> hi" using bars_betweenD [OF Cons.prems(2)] by (auto simp: bar_ok_def)
  then have "ema_inv p lo hi (update_ema c e)" using update_ema_inv [of p lo c hi e] Cons.prems by (simp add: ema_inv_def)
  then show ?case using Cons.IH Cons.prems(1) bars_betweenD [OF Cons.prems(2)] by simp
qed simp

lemma ema_between:
  assumes "new_ema p = Inr e" "cs \<noteq> []" "bars_between lo hi cs"
  shows "\<exists>v. ema_state (fold update_ema cs e) = Inr v \<and> lo \<le> v \<and> v \<le> hi"
proof -
  obtain c ds where cs: "cs = c # ds" using assms(2) by (cases cs) auto
  have p: "1 \<le> p" "em_period e = p" "em_value e = None" using assms(1) by (auto simp: new_ema_def split: if_splits)
  have "lo \<le> oh_close c" "oh_close c \<le> hi" using bars_betweenD [OF assms(3) [unfolded cs]] by (auto simp: bar_ok_def)
  then have "ema_inv p lo hi (update_ema c e)" using update_ema_inv p by simp
  from fold_ema_inv [OF p(1) _ this, of ds] bars_betweenD [OF assms(3) [unfolded cs]] cs have "ema_inv p lo hi (fold update_ema cs e)" by simp
  then show ?thesis by (auto simp: ema_inv_def ema_state_def opt_holds_def split: option.splits)
qed

definition atr_inv :: "int \<Rightarrow> atr \<Rightarrow> bool" where
  "atr_inv p a = (at_period a = p \<and> (at_atr a = None \<or> opt_holds (\<lambda>v. 0 \<le> v) (at_atr a)))"

lemma fold_atr_inv: "1 \<le> p \<Longrightarrow> list_all bar_ok cs \<Longrightarrow> atr_inv p a \<Longrightarrow> atr_inv p (fold update_atr cs a)"
proof (induction cs arbitrary: a)
  case (Cons c cs)
  have "atr_inv p (update_atr c a)"
    using Cons.prems true_range_nonneg wilder_lower [of p 0 "at_atr a"] by (auto simp: atr_inv_def update_atr_def)
  then show ?case using Cons by simp
qed simp

lemma fold_atr_ready: "cs \<noteq> [] \<Longrightarrow> at_atr (fold update_atr cs a) \<noteq> None"
  by (induction cs rule: rev_induct) (simp_all add: update_atr_def)

lemma atr_nonneg:
  assumes "new_atr p = Inr a" "cs \<noteq> []" "list_all bar_ok cs"
  shows "\<exists>v. atr_state (fold update_atr cs a) = Inr v \<and> 0 \<le> v"
proof -
  have "1 \<le> p" "atr_inv p a" using assms(1) by (auto simp: new_atr_def atr_inv_def split: if_splits)
  from fold_atr_inv [OF this(1) assms(3) this(2)] fold_atr_ready [OF assms(2), of a]
  show ?thesis by (auto simp: atr_inv_def atr_state_def opt_holds_def)
qed

definition rsi_inv :: "rsi \<Rightarrow> bool" where
  "rsi_inv r =
     (1 \<le> rs_period r \<and> list_all (\<lambda>x. 0 \<le> x) (rs_seed_gains r) \<and> list_all (\<lambda>x. 0 \<le> x) (rs_seed_losses r)
      \<and> (rs_averages r = None \<or> opt_holds (\<lambda>(g, l). 0 \<le> g \<and> 0 \<le> l) (rs_averages r)))"

lemma deque_append_all: "list_all P xs \<Longrightarrow> P x \<Longrightarrow> list_all P (deque_append n xs x)"
  using set_deque_append [of n xs x] by (auto simp: list_all_iff)

lemma all_nonneg_sum: "list_all (\<lambda>x. 0 \<le> x) xs \<Longrightarrow> 0 \<le> sum_list (xs :: rat list)"
  by (simp add: list_all_iff sum_list_nonneg)

lemma update_rsi_inv:
  assumes "rsi_inv r"
  shows "rsi_inv (update_rsi c r)"
proof (cases "rs_prev_close r")
  case (Some p)
  define gain loss where "gain = max (oh_close c - p) 0" and "loss = max (p - oh_close c) 0"
  have gl: "0 \<le> gain" "0 \<le> loss" by (simp_all add: gain_def loss_def)
  show ?thesis
  proof (cases "rs_averages r")
    case None
    let ?g = "deque_append (nat (rs_period r)) (rs_seed_gains r) gain"
    let ?l = "deque_append (nat (rs_period r)) (rs_seed_losses r) loss"
    have "list_all (\<lambda>x. 0 \<le> x) ?g" "list_all (\<lambda>x. 0 \<le> x) ?l"
      using assms gl by (auto simp: rsi_inv_def intro: deque_append_all)
    moreover from this have "0 \<le> sum_list ?g" "0 \<le> sum_list ?l" by (auto intro: all_nonneg_sum)
    ultimately show ?thesis using Some None assms
      by (simp add: update_rsi_def Let_def rsi_inv_def gain_def [symmetric] loss_def [symmetric])
  next
    case (Some a)
    obtain g l where a: "a = (g, l)" by fastforce
    have "1 \<le> rs_period r" "0 \<le> g" "0 \<le> l" using assms Some a by (simp_all add: rsi_inv_def)
    then have "0 \<le> wilder (rs_period r) (Some g) gain" "0 \<le> wilder (rs_period r) (Some l) loss"
      using wilder_lower gl by simp_all
    then show ?thesis using \<open>rs_prev_close r = Some p\<close> Some a assms
      by (simp add: update_rsi_def Let_def rsi_inv_def gain_def [symmetric] loss_def [symmetric])
  qed
qed (use assms in \<open>simp add: update_rsi_def rsi_inv_def\<close>)

lemma rsi_between:
  assumes "new_rsi p = Inr r"
  shows "0 \<le> rsi_value (fold update_rsi cs r) \<and> rsi_value (fold update_rsi cs r) \<le> 100"
proof -
  have "rsi_inv r" using assms by (auto simp: new_rsi_def rsi_inv_def split: if_splits)
  then have "rsi_inv (fold update_rsi cs r)" by (induction cs arbitrary: r) (simp_all add: update_rsi_inv)
  moreover have "0 \<le> 100 - 100 / (1 + g / l) \<and> 100 - 100 / (1 + g / l) \<le> 100" if "0 \<le> g" "0 \<le> l" for g l :: rat
  proof -
    have "1 \<le> 1 + g / l" using that by simp
    then show ?thesis by (simp add: divide_le_eq)
  qed
  ultimately show ?thesis by (auto simp: rsi_inv_def rsi_value_def rsi_state_def opt_holds_def split: option.splits)
qed

definition vwap_inv :: "rat \<Rightarrow> rat \<Rightarrow> vwap \<Rightarrow> bool" where
  "vwap_inv lo hi v = (0 \<le> vw_cum_vol v \<and> lo * vw_cum_vol v \<le> vw_cum_pv v \<and> vw_cum_pv v \<le> hi * vw_cum_vol v)"

lemma vwap_between:
  assumes "bars_between lo hi cs"
  shows "case vwap_state (fold update_vwap cs new_vwap) of Inl _ \<Rightarrow> list_all (\<lambda>c. oh_volume c = None \<or> oh_volume c = Some 0) cs
    | Inr v \<Rightarrow> lo \<le> v \<and> v \<le> hi"
proof -
  have step: "vwap_inv lo hi (update_vwap c v)" if "bar_ok c" "lo \<le> oh_low c" "oh_high c \<le> hi" "vwap_inv lo hi v" for c v
  proof -
    let ?t = "(oh_high c + oh_low c + oh_close c) / 3" and ?v = "case oh_volume c of None \<Rightarrow> 0 | Some x \<Rightarrow> x"
    have "lo \<le> ?t" "?t \<le> hi" "0 \<le> ?v" using that by (auto simp: bar_ok_def opt_holds_def split: option.splits)
    then have "lo * ?v \<le> ?t * ?v" "?t * ?v \<le> hi * ?v"
      using mult_right_mono [of lo ?t ?v] mult_right_mono [of ?t hi ?v] by simp_all
    moreover have "vw_cum_pv (update_vwap c v) = vw_cum_pv v + ?t * ?v" "vw_cum_vol (update_vwap c v) = vw_cum_vol v + ?v"
      by (simp_all add: update_vwap_def Let_def)
    ultimately show ?thesis using that(4) \<open>0 \<le> ?v\<close> unfolding vwap_inv_def by (simp only: distrib_left, intro conjI, linarith+)
  qed
  have vol: "vw_cum_vol (fold update_vwap cs v) \<ge> vw_cum_vol v \<and>
      (vw_cum_vol (fold update_vwap cs v) = vw_cum_vol v \<longrightarrow> list_all (\<lambda>c. oh_volume c = None \<or> oh_volume c = Some 0) cs)"
    if "bars_between lo hi cs" for v
    using that
  proof (induction cs arbitrary: v)
    case (Cons c cs)
    have "0 \<le> (case oh_volume c of None \<Rightarrow> 0 | Some x \<Rightarrow> x)"
      using bars_betweenD [OF Cons.prems] by (auto simp: bar_ok_def opt_holds_def split: option.splits)
    then show ?case using Cons.IH [of "update_vwap c v"] bars_betweenD [OF Cons.prems]
      by (cases "oh_volume c") (auto simp: update_vwap_def Let_def bar_ok_def)
  qed simp
  have "vwap_inv lo hi v \<Longrightarrow> vwap_inv lo hi (fold update_vwap cs v)" for v
    using assms by (induction cs arbitrary: v) (simp_all add: step bars_between_def)
  from this [of new_vwap] have "vwap_inv lo hi (fold update_vwap cs new_vwap)" by (simp add: vwap_inv_def new_vwap_def)
  then show ?thesis using vol [OF assms, of new_vwap]
    by (auto simp: vwap_inv_def vwap_state_def new_vwap_def pos_le_divide_eq pos_divide_le_eq)
qed

text \<open>Directional movement never exceeds the true range, so Wilder's indices are percentages.\<close>

lemma moves_bounded:
  assumes "bar_ok c" "opt_holds bar_ok prev \<or> prev = None" "directional_moves prev c = (pd, md)"
  shows "0 \<le> pd \<and> pd \<le> true_range (map_option oh_close prev) c \<and> 0 \<le> md \<and> md \<le> true_range (map_option oh_close prev) c"
proof (cases prev)
  case None
  then show ?thesis using assms true_range_nonneg [of c] by (auto simp: directional_moves_def)
next
  case (Some p)
  have "oh_low p \<le> oh_close p" "oh_close p \<le> oh_high p" using assms(2) Some by (simp_all add: bar_ok_def)
  then have "oh_high c - oh_high p \<le> true_range (Some (oh_close p)) c" "oh_low p - oh_low c \<le> true_range (Some (oh_close p)) c"
    by (auto simp: true_range_def max_def)
  then show ?thesis using assms(3) Some true_range_nonneg [OF assms(1), of "Some (oh_close p)"]
    by (auto simp: directional_moves_def Let_def split: if_splits)
qed

definition adx_inv :: "adx \<Rightarrow> bool" where
  "adx_inv a =
     (1 \<le> ax_period a
      \<and> (ax_prev a = None \<and> ax_smoothed_tr a = None \<and> ax_smoothed_plus_dm a = None \<and> ax_smoothed_minus_dm a = None
          \<and> ax_adx a = None
         \<or> (\<exists>p tr sp sm x. ax_prev a = Some p \<and> ax_smoothed_tr a = Some tr \<and> ax_smoothed_plus_dm a = Some sp
              \<and> ax_smoothed_minus_dm a = Some sm \<and> ax_adx a = Some x
              \<and> bar_ok p \<and> 0 \<le> sp \<and> sp \<le> tr \<and> 0 \<le> sm \<and> sm \<le> tr \<and> 0 \<le> x \<and> x \<le> 100)))"

lemma adx_inv_cases:
  assumes "adx_inv a"
  obtains (fresh) "ax_prev a = None" "ax_smoothed_tr a = None" "ax_smoothed_plus_dm a = None" "ax_smoothed_minus_dm a = None"
      "ax_adx a = None"
  | (running) p tr sp sm x where "ax_prev a = Some p" "ax_smoothed_tr a = Some tr" "ax_smoothed_plus_dm a = Some sp"
      "ax_smoothed_minus_dm a = Some sm" "ax_adx a = Some x" "bar_ok p" "0 \<le> sp" "sp \<le> tr" "0 \<le> sm" "sm \<le> tr" "0 \<le> x" "x \<le> 100"
  using assms unfolding adx_inv_def by (elim conjE disjE exE) metis+

lemma adx_prev_ok: "adx_inv a \<Longrightarrow> opt_holds bar_ok (ax_prev a) \<or> ax_prev a = None"
  by (erule adx_inv_cases) simp_all

lemma adx_value_ok:
  "adx_inv a \<Longrightarrow> opt_holds (\<lambda>x. 0 \<le> x) (ax_adx a) \<or> ax_adx a = None"
  "adx_inv a \<Longrightarrow> opt_holds (\<lambda>x. x \<le> 100) (ax_adx a) \<or> ax_adx a = None"
  by (erule adx_inv_cases, simp_all)+

definition percentages :: "adx_state \<Rightarrow> bool" where
  "percentages r =
     (0 \<le> as_adx r \<and> as_adx r \<le> 100 \<and> 0 \<le> as_plus_di r \<and> as_plus_di r \<le> 100 \<and> 0 \<le> as_minus_di r \<and> as_minus_di r \<le> 100)"

lemma indices_bounded:
  assumes "0 \<le> sp" "sp \<le> tr" "0 \<le> sm" "sm \<le> tr" "indices_of tr sp sm = (p, m)"
  shows "0 \<le> p \<and> p \<le> 100 \<and> 0 \<le> m \<and> m \<le> 100"
  using assms by (auto simp: indices_of_def divide_le_eq zero_le_divide_iff split: if_splits)

lemma update_adx_inv:
  assumes "adx_inv a" "bar_ok c" "update_adx c a = (r, b)"
  shows "adx_inv b \<and> percentages r \<and> adx_state_of b = Inr r"
proof -
  obtain pd md where dm: "directional_moves (ax_prev a) c = (pd, md)" by fastforce
  define tr where "tr = true_range (map_option oh_close (ax_prev a)) c"
  define str sp sm where "str = wilder (ax_period a) (ax_smoothed_tr a) tr"
    and "sp = wilder (ax_period a) (ax_smoothed_plus_dm a) pd" and "sm = wilder (ax_period a) (ax_smoothed_minus_dm a) md"
  have P: "1 \<le> ax_period a" using assms(1) by (simp add: adx_inv_def)
  have m: "0 \<le> pd" "pd \<le> tr" "0 \<le> md" "md \<le> tr"
    using moves_bounded [OF assms(2) adx_prev_ok [OF assms(1)] dm] by (simp_all add: tr_def)
  have s: "0 \<le> sp \<and> sp \<le> str \<and> 0 \<le> sm \<and> sm \<le> str"
    using assms(1)
  proof (cases rule: adx_inv_cases)
    case fresh
    then show ?thesis using m by (simp add: sp_def sm_def str_def wilder_def)
  next
    case running
    then show ?thesis using m wilder_lower [OF P, of 0] wilder_mono [OF P] by (simp add: sp_def sm_def str_def)
  qed
  obtain p n where i: "indices_of str sp sm = (p, n)" by fastforce
  have pn: "0 \<le> p" "p \<le> 100" "0 \<le> n" "n \<le> 100" using indices_bounded [OF _ _ _ _ i] s by auto
  define dx where "dx = (if p + n \<noteq> 0 then 100 * \<bar>p - n\<bar> / (p + n) else 0)"
  have "\<bar>p - n\<bar> \<le> p + n" using pn by arith
  then have "100 * \<bar>p - n\<bar> \<le> 100 * (p + n)" by simp
  then have dx: "0 \<le> dx" "dx \<le> 100" using pn by (auto simp: dx_def divide_le_eq zero_le_divide_iff)
  define x where "x = wilder (ax_period a) (ax_adx a) dx"
  have x: "0 \<le> x" "x \<le> 100"
    using wilder_lower [OF P adx_value_ok(1) [OF assms(1)] dx(1)] wilder_upper [OF P adx_value_ok(2) [OF assms(1)] dx(2)]
    by (simp_all add: x_def)
  have u: "r = \<lparr>as_adx = x, as_plus_di = p, as_minus_di = n\<rparr>"
    "b = a\<lparr>ax_smoothed_tr := Some str, ax_smoothed_plus_dm := Some sp, ax_smoothed_minus_dm := Some sm, ax_adx := Some x,
           ax_prev := Some c, ax_count := ax_count a + 1\<rparr>"
    using assms(3) dm i by (simp_all add: update_adx_def Let_def str_def sp_def sm_def tr_def dx_def x_def)
  have "adx_state_of b = Inr r" using u i by (auto simp: adx_state_of_def indices_of_def)
  then show ?thesis using u P s x pn assms(2) by (simp add: adx_inv_def percentages_def)
qed

lemma adx_between:
  assumes "new_adx p = Inr a" "cs \<noteq> []" "list_all bar_ok cs"
  shows "\<exists>r. adx_state_of (fold (\<lambda>c a. snd (update_adx c a)) cs a) = Inr r \<and> percentages r"
proof -
  have "adx_inv a" using assms(1) by (auto simp: new_adx_def adx_inv_def split: if_splits)
  then have "adx_inv (fold (\<lambda>c a. snd (update_adx c a)) cs a)
      \<and> (cs \<noteq> [] \<longrightarrow> (\<exists>r. adx_state_of (fold (\<lambda>c a. snd (update_adx c a)) cs a) = Inr r \<and> percentages r))"
    using assms(3)
  proof (induction cs rule: rev_induct)
    case (snoc c cs)
    let ?a = "fold (\<lambda>c a. snd (update_adx c a)) cs a"
    have "adx_inv ?a" using snoc by simp
    then show ?case using update_adx_inv [of ?a c "fst (update_adx c ?a)" "snd (update_adx c ?a)"] snoc.prems by auto
  qed simp
  then show ?thesis using assms(2) by simp
qed

text \<open>C32: the indicators stay where their scales say.  After any non-empty run of bars whose closes lie between their lows and
  highs, the moving average is between the lowest low and the highest high, so is the volume-weighted price once there is
  volume, the average range is not negative, and RSI, ADX and both directional indices are percentages.
\<close>

theorem indicators_stay_on_scale:
  assumes "new_ema p1 = Inr e" "new_atr p2 = Inr a" "new_rsi p3 = Inr r" "new_adx p4 = Inr x"
    and "cs \<noteq> []" "bars_between lo hi cs"
  shows "(case ema_state (fold update_ema cs e) of Inl _ \<Rightarrow> False | Inr v \<Rightarrow> lo \<le> v \<and> v \<le> hi)
    \<and> (case vwap_state (fold update_vwap cs new_vwap) of
         Inl _ \<Rightarrow> list_all (\<lambda>c. oh_volume c = None \<or> oh_volume c = Some 0) cs | Inr v \<Rightarrow> lo \<le> v \<and> v \<le> hi)
    \<and> (case atr_state (fold update_atr cs a) of Inl _ \<Rightarrow> False | Inr v \<Rightarrow> 0 \<le> v)
    \<and> 0 \<le> rsi_value (fold update_rsi cs r) \<and> rsi_value (fold update_rsi cs r) \<le> 100
    \<and> (case adx_state_of (fold (\<lambda>c a. snd (update_adx c a)) cs x) of Inl _ \<Rightarrow> False | Inr s \<Rightarrow> percentages s)"
proof -
  have ok: "list_all bar_ok cs" using assms(6) by (simp add: bars_between_def list_all_iff)
  show ?thesis
    using ema_between [OF assms(1,5,6)] vwap_between [OF assms(6)] atr_nonneg [OF assms(2,5) ok] rsi_between [OF assms(3)]
      adx_between [OF assms(4,5) ok] by auto
qed

section \<open>SuperTrend, bar by bar and in one batch\<close>

text \<open>The documented recursion of pandas' ewm with adjust=False: the first value, then a weighted step.\<close>

definition ewm_documented :: "(rat \<Rightarrow> rat list \<Rightarrow> rat list) \<Rightarrow> bool" where
  "ewm_documented ewm =
     (\<forall>a xs. length (ewm a xs) = length xs \<and> (xs \<noteq> [] \<longrightarrow> ewm a xs ! 0 = xs ! 0)
        \<and> (\<forall>t. Suc t < length xs \<longrightarrow> ewm a xs ! Suc t = (1 - a) * ewm a xs ! t + a * xs ! Suc t))"

definition smooth :: "rat \<Rightarrow> rat option \<Rightarrow> rat \<Rightarrow> rat" where
  "smooth a prev x = (case prev of None \<Rightarrow> x | Some p \<Rightarrow> p + a * (x - p))"

fun smoothed :: "rat \<Rightarrow> rat option \<Rightarrow> rat list \<Rightarrow> rat list" where
  "smoothed a prev [] = []"
| "smoothed a prev (x # xs) = smooth a prev x # smoothed a (Some (smooth a prev x)) xs"

lemma length_smoothed [simp]: "length (smoothed a prev xs) = length xs"
  by (induction xs arbitrary: prev) simp_all

lemma smoothed_0: "xs \<noteq> [] \<Longrightarrow> smoothed a prev xs ! 0 = smooth a prev (xs ! 0)"
  by (cases xs) simp_all

lemma smoothed_Suc:
  "Suc t < length xs \<Longrightarrow> smoothed a prev xs ! Suc t = smooth a (Some (smoothed a prev xs ! t)) (xs ! Suc t)"
proof (induction xs arbitrary: prev t)
  case (Cons x xs)
  then show ?case
  proof (cases t)
    case 0
    then show ?thesis using Cons.prems smoothed_0 [of xs] by simp
  next
    case (Suc u)
    then show ?thesis using Cons.IH [of u "Some (smooth a prev x)"] Cons.prems by simp
  qed
qed simp

lemma ewm_smoothed: "ewm_documented ewm \<Longrightarrow> ewm a xs = smoothed a None xs"
proof (rule nth_equalityI)
  assume d: "ewm_documented ewm"
  then show "length (ewm a xs) = length (smoothed a None xs)" by (simp add: ewm_documented_def)
  fix t assume "t < length (ewm a xs)"
  then have "t < length xs" using d by (simp add: ewm_documented_def)
  then show "ewm a xs ! t = smoothed a None xs ! t"
  proof (induction t)
    case 0
    then show ?case using d smoothed_0 [of xs a None] by (auto simp: ewm_documented_def smooth_def)
  next
    case (Suc t)
    then have "ewm a xs ! Suc t = (1 - a) * ewm a xs ! t + a * xs ! Suc t" using d by (simp add: ewm_documented_def)
    then show ?case using Suc smoothed_Suc [of t xs a None] by (simp add: smooth_def algebra_simps)
  qed
qed

fun ranges :: "rat option \<Rightarrow> ohlc list \<Rightarrow> rat list" where
  "ranges pc [] = []"
| "ranges pc (c # cs) = true_range pc c # ranges (Some (oh_close c)) cs"

lemma ranges_shifted: "map2 true_range (pc # map Some (butlast (map oh_close cs))) cs = ranges pc cs"
proof (induction cs arbitrary: pc)
  case (Cons c cs)
  then show ?case by (cases cs) simp_all
qed simp

lemma wilder_atr_smoothed: "ewm_documented ewm \<Longrightarrow> wilder_atr ewm p cs = smoothed (1 / of_int p) None (ranges None cs)"
  by (simp add: wilder_atr_def ewm_smoothed ranges_shifted)

definition band_inputs :: "rat \<Rightarrow> ohlc list \<Rightarrow> rat list \<Rightarrow> (rat \<times> rat \<times> rat) list" where
  "band_inputs m cs as = map2 (\<lambda>c a. let hl2 = (oh_high c + oh_low c) / 2 in (hl2 + m * a, hl2 - m * a, oh_close c)) cs as"

text \<open>What update returns, bar after bar.\<close>

fun supertrend_run :: "ohlc list \<Rightarrow> supertrend \<Rightarrow> supertrend_state result list" where
  "supertrend_run [] s = []"
| "supertrend_run (c # cs) s = (case update_supertrend c s of (r, s1) \<Rightarrow> r # supertrend_run cs s1)"

definition reading_of :: "supertrend_state result \<Rightarrow> (int \<times> rat) option" where
  "reading_of r = (case r of Inl _ \<Rightarrow> None | Inr x \<Rightarrow> Some (ss_trend x, ss_line x))"

definition follows_row :: "int \<Rightarrow> rat \<Rightarrow> rat \<Rightarrow> rat \<Rightarrow> rat \<times> rat \<times> int \<times> rat \<Rightarrow> supertrend \<Rightarrow> bool" where
  "follows_row p m atr pc row s =
     (case row of (fu, fl, t, l) \<Rightarrow>
        su_period s = p \<and> su_multiplier s = m \<and> su_count s \<noteq> 0 \<and> su_prev_close s = Some pc \<and> su_atr s = Some atr
        \<and> su_final_upper s = Some fu \<and> su_final_lower s = Some fl \<and> su_trend s = Some t)"

lemma supertrend_step:
  assumes "follows_row p m atr pc row s" "update_supertrend c s = (r, s1)"
    and "atr1 = smooth (1 / of_int p) (Some atr) (true_range (Some pc) c)"
    and "row1 = band_row (row, pc) ((oh_high c + oh_low c) / 2 + m * atr1, (oh_high c + oh_low c) / 2 - m * atr1, oh_close c)"
  shows "follows_row p m atr1 (oh_close c) row1 s1 \<and> reading_of r = Some (case row1 of (_, _, t, l) \<Rightarrow> (t, l))"
proof -
  obtain fu fl t l where row: "row = (fu, fl, t, l)" using prod_cases4 by blast
  have st: "su_period s = p" "su_multiplier s = m" "(su_count s = 0) = False" "su_prev_close s = Some pc"
    "su_final_upper s = Some fu" "su_final_lower s = Some fl" "su_trend s = Some t" "su_atr s = Some atr"
    using assms(1) row by (simp_all add: follows_row_def)
  have w: "wilder p (Some atr) (true_range (Some pc) c) = atr1" using assms(3) by (simp add: smooth_def wilder_def)
  define ub lb where "ub = (oh_high c + oh_low c) / 2 + m * atr1" and "lb = (oh_high c + oh_low c) / 2 - m * atr1"
  define fu1 fl1 where "fu1 = (if ub < fu \<or> fu < pc then ub else fu)" and "fl1 = (if fl < lb \<or> pc < fl then lb else fl)"
  define t1 where "t1 = (if t = up_trend then (if oh_close c < fl1 then down_trend else up_trend)
                        else (if fu1 < oh_close c then up_trend else down_trend))"
  define s2 where "s2 = s\<lparr>su_atr := Some atr1, su_final_upper := Some fu1, su_final_lower := Some fl1, su_trend := Some t1,
      su_line := Some (if t1 = up_trend then fl1 else fu1), su_flipped := (Some t \<noteq> None \<and> Some t \<noteq> Some t1),
      su_prev_close := Some (oh_close c), su_count := su_count s + 1\<rparr>"
  have row1: "row1 = (fu1, fl1, t1, if t1 = up_trend then fl1 else fu1)"
    unfolding assms(4) ub_def [symmetric] lb_def [symmetric] row band_row_def Let_def prod.case
      fu1_def [symmetric] fl1_def [symmetric] t1_def [symmetric] ..
  have "update_supertrend c s = (supertrend_state_of s2, s2)"
    unfolding update_supertrend_def Let_def st w ub_def [symmetric] lb_def [symmetric] if_False prod.case option.case
      fu1_def [symmetric] fl1_def [symmetric] option.inject t1_def [symmetric] s2_def by simp
  then have "r = supertrend_state_of s2" "s1 = s2" using assms(2) by simp_all
  then show ?thesis using st by (simp add: row1 follows_row_def s2_def supertrend_state_of_def reading_of_def)
qed

lemma supertrend_rows:
  "follows_row p m atr pc row s \<Longrightarrow>
    map reading_of (supertrend_run cs s)
      = map (\<lambda>(_, _, t, l). Some (t, l))
          (band_rows (row, pc) (band_inputs m cs (smoothed (1 / of_int p) (Some atr) (ranges (Some pc) cs))))"
proof (induction cs arbitrary: atr pc row s)
  case (Cons c cs)
  obtain r s1 where u: "update_supertrend c s = (r, s1)" by fastforce
  from supertrend_step [OF Cons.prems u refl refl] Cons.IH u show ?case
    by (simp add: Let_def band_inputs_def split: prod.splits)
qed (simp add: band_inputs_def)

text \<open>C33: the two forms of SuperTrend give the same answer.  For every series of bars the trend and the line the indicator
  publishes bar by bar are the two columns of the batch computation over the whole series, and no update raises.
\<close>

theorem supertrend_forms_agree:
  assumes "new_supertrend period multiplier = Inr s" "ewm_documented ewm"
  shows "map reading_of (supertrend_run cs s) = map Some (supertrend_batch ewm period multiplier cs)"
proof (cases cs)
  case (Cons c ds)
  let ?a = "true_range None c"
  let ?in = "((oh_high c + oh_low c) / 2 + multiplier * ?a, (oh_high c + oh_low c) / 2 - multiplier * ?a, oh_close c)"
  obtain r s1 where u: "update_supertrend c s = (r, s1)" by fastforce
  have f: "follows_row period multiplier ?a (oh_close c) (first_row ?in) s1"
    "reading_of r = Some (case first_row ?in of (_, _, t, l) \<Rightarrow> (t, l))"
    using assms(1) u
    by (auto simp: new_supertrend_def update_supertrend_def Let_def wilder_def follows_row_def first_row_def supertrend_state_of_def
        reading_of_def split: if_splits)
  have "smooth (1 / of_int period) None ?a = ?a" by (simp add: smooth_def)
  then show ?thesis using supertrend_rows [OF f(1), of ds] f(2) u Cons
    by (simp add: supertrend_batch_def wilder_atr_smoothed [OF assms(2)] band_inputs_def Let_def case_prod_unfold comp_def)
qed (simp add: supertrend_batch_def Let_def)

section \<open>When a crossover is confirmed\<close>

text \<open>The reference, on the spreads fed so far with the newest first: the confirmed side changes with a long enough streak.\<close>

definition streak :: "rat \<Rightarrow> int option \<Rightarrow> rat list \<Rightarrow> nat" where
  "streak m s xs = length (takeWhile (\<lambda>x. raw_side m x = s) xs)"

definition crosses :: "rat \<Rightarrow> int \<Rightarrow> int option \<Rightarrow> rat \<Rightarrow> rat list \<Rightarrow> bool" where
  "crosses m n confirmed x xs =
     (raw_side m x \<noteq> None \<and> raw_side m x \<noteq> confirmed \<and> n \<le> int (streak m (raw_side m x) (x # xs)))"

fun confirmed_side :: "rat \<Rightarrow> int \<Rightarrow> rat list \<Rightarrow> int option" where
  "confirmed_side m n [] = None"
| "confirmed_side m n (x # xs) =
     (if xs = [] \<or> crosses m n (confirmed_side m n xs) x xs then raw_side m x else confirmed_side m n xs)"

definition crossover_inv :: "rat \<Rightarrow> int \<Rightarrow> rat list \<Rightarrow> crossover \<Rightarrow> bool" where
  "crossover_inv m n h c =
     (cx_minimum_separation c = m \<and> cx_confirmation_candles c = n \<and> cx_initialized c = (h \<noteq> [])
      \<and> (h = [] \<longrightarrow> cx_candidate_side c = None)
      \<and> (h \<noteq> [] \<longrightarrow> cx_confirmed_side c = confirmed_side m n h
          \<and> (\<forall>s. Some s \<noteq> confirmed_side m n h \<longrightarrow>
               int (streak m (Some s) h) = (if cx_candidate_side c = Some s then cx_candidate_count c else 0))))"

lemma streak_simps [simp]:
  "streak m s [] = 0" "streak m s (x # h) = (if raw_side m x = s then 1 + streak m s h else 0)"
  by (simp_all add: streak_def)

lemma crossover_step:
  assumes "crossover_inv m n h c" "1 \<le> n"
  shows "crossover_inv m n (x # h) (snd (update_crossover x c))"
    "fst (update_crossover x c) = (if h \<noteq> [] \<and> crosses m n (confirmed_side m n h) x h then raw_side m x else None)"
proof -
  have st: "cx_minimum_separation c = m" "cx_confirmation_candles c = n" "cx_initialized c = (h \<noteq> [])"
    using assms(1) by (simp_all add: crossover_inv_def)
  have both: "crossover_inv m n (x # h) (snd (update_crossover x c))
    \<and> fst (update_crossover x c) = (if h \<noteq> [] \<and> crosses m n (confirmed_side m n h) x h then raw_side m x else None)"
  proof (cases "h = []")
    case True
    then show ?thesis using st assms(1) by (simp add: update_crossover_def Let_def crossover_inv_def)
  next
    case False
    have cs: "cx_confirmed_side c = confirmed_side m n h" and
      cand: "Some s \<noteq> confirmed_side m n h \<Longrightarrow> int (streak m (Some s) h) = (if cx_candidate_side c = Some s then cx_candidate_count c else 0)" for s
      using assms(1) False by (auto simp: crossover_inv_def)
    show ?thesis
    proof (cases "raw_side m x = None \<or> raw_side m x = confirmed_side m n h")
      case True
      then show ?thesis using False st cs
        by (auto simp: update_crossover_def Let_def crossover_inv_def crosses_def)
    next
      case moved: False
      then obtain s where s: "raw_side m x = Some s" "Some s \<noteq> confirmed_side m n h" by auto
      have k: "int (streak m (Some s) (x # h)) = (if cx_candidate_side c = Some s then cx_candidate_count c + 1 else 1)"
        using cand [OF s(2)] s by simp
      define m1 where "m1 = (if cx_candidate_side c = Some s then cx_candidate_count c + 1 else 1)"
      have cr: "crosses m n (confirmed_side m n h) x h = (n \<le> m1)" using s k by (simp add: crosses_def m1_def)
      have u: "fst (update_crossover x c) = (if n \<le> m1 then Some s else None)"
        "cx_minimum_separation (snd (update_crossover x c)) = m" "cx_confirmation_candles (snd (update_crossover x c)) = n"
        "cx_initialized (snd (update_crossover x c))"
        "cx_confirmed_side (snd (update_crossover x c)) = (if n \<le> m1 then Some s else confirmed_side m n h)"
        "cx_candidate_side (snd (update_crossover x c)) = (if n \<le> m1 then None else Some s)"
        "cx_candidate_count (snd (update_crossover x c)) = (if n \<le> m1 then 0 else m1)"
        using s cs st False by (simp_all add: update_crossover_def Let_def m1_def)
      have "Some r = raw_side m x \<longleftrightarrow> r = s" for r using s by auto
      then show ?thesis using s cr u k False by (simp add: crossover_inv_def m1_def [symmetric])
    qed
  qed
  from both show "crossover_inv m n (x # h) (snd (update_crossover x c))"
    "fst (update_crossover x c) = (if h \<noteq> [] \<and> crosses m n (confirmed_side m n h) x h then raw_side m x else None)" by simp_all
qed

definition feed_crossover :: "rat list \<Rightarrow> crossover \<Rightarrow> crossover" where
  "feed_crossover xs c = fold (\<lambda>x c. snd (update_crossover x c)) xs c"

lemma feed_crossover_inv:
  "crossover_inv m n h c \<Longrightarrow> 1 \<le> n \<Longrightarrow> crossover_inv m n (rev xs @ h) (feed_crossover xs c)"
proof (induction xs arbitrary: h c)
  case (Cons x xs)
  from Cons.IH [OF crossover_step(1) [OF Cons.prems, of x] Cons.prems(2)] show ?case by (simp add: feed_crossover_def)
qed (simp add: feed_crossover_def)

lemma new_crossover_inv: "new_crossover m n = Inr c \<Longrightarrow> crossover_inv m n [] c \<and> 1 \<le> n"
  by (auto simp: new_crossover_def crossover_inv_def split: if_splits)

lemma crossover_signal:
  assumes "new_crossover m n = Inr c"
  shows "fst (update_crossover x (feed_crossover xs c))
    = (if xs \<noteq> [] \<and> crosses m n (confirmed_side m n (rev xs)) x (rev xs) then raw_side m x else None)"
proof -
  have i: "crossover_inv m n (rev xs) (feed_crossover xs c)" "1 \<le> n"
    using new_crossover_inv [OF assms] feed_crossover_inv [of m n "[]" c xs] by simp_all
  show ?thesis using crossover_step(2) [OF i, of x] by simp
qed

section \<open>Examples\<close>

definition example_bar :: "rat \<Rightarrow> rat \<Rightarrow> rat \<Rightarrow> ohlc" where
  "example_bar h l c =
     \<lparr>oh_high = h, oh_low = l, oh_close = c, oh_open = Some l, oh_volume = Some 10, oh_start = None, oh_spans_gap = False\<rparr>"

definition example_bars :: "ohlc list" where
  "example_bars = [example_bar 110 100 105, example_bar 120 104 118, example_bar 119 96 97]"

definition some_ema :: ema where "some_ema = \<lparr>em_period = 2, em_value = None, em_count = 0\<rparr>"

lemma indicators_stay_on_scale_witness:
  "(case ema_state (fold update_ema example_bars some_ema) of Inl _ \<Rightarrow> False | Inr v \<Rightarrow> 96 \<le> v \<and> v \<le> 120)"
proof -
  have "new_ema 2 = Inr some_ema" by (simp add: new_ema_def some_ema_def)
  moreover obtain a r x where "new_atr 2 = Inr a" "new_rsi 2 = Inr r" "new_adx 2 = Inr x"
    by (simp add: new_atr_def new_rsi_def new_adx_def)
  moreover have "bars_between 96 120 example_bars" by (simp add: bars_between_def example_bars_def example_bar_def bar_ok_def)
  moreover have "example_bars \<noteq> []" by (simp add: example_bars_def)
  ultimately show ?thesis using indicators_stay_on_scale [of 2 some_ema 2 a 2 r 2 x example_bars 96 120] by blast
qed

lemma smoothed_documented: "ewm_documented (\<lambda>a xs. smoothed a None xs)"
  by (simp add: ewm_documented_def smoothed_0 smoothed_Suc smooth_def algebra_simps)

lemma supertrend_forms_agree_witness:
  "case new_supertrend 2 3 of
     Inl _ \<Rightarrow> False
   | Inr s \<Rightarrow> map reading_of (supertrend_run example_bars s)
       = map Some (supertrend_batch (\<lambda>a xs. smoothed a None xs) 2 3 example_bars)"
proof -
  obtain s where s: "new_supertrend 2 3 = Inr s" by (simp add: new_supertrend_def)
  from supertrend_forms_agree [OF s smoothed_documented, of example_bars] s show ?thesis by simp
qed

end
