(* ===== verification/Risk_Managers.thy ===== *)
theory Risk_Managers
  imports Conversions Session
begin

text \<open>
  common/engine/risk.py and risk\_managers.py: the parsing of a threshold that may be switched off, the registry, and the one
  registered per-position risk manager, a hard stop in rupees per lot.  A configuration is a JSON value.
\<close>

definition disabled_tokens :: "string list" where
  "disabled_tokens = [[], ''none'', ''null'', ''off'', ''disabled'', ''na'', ''-'']"

definition opt_float :: "py_conversions \<Rightarrow> json \<Rightarrow> rat option result" where
  "opt_float py v =
     (if v = JNull then Inr None
      else if (case v of JStr s \<Rightarrow> lower (strip s) \<in> set disabled_tokens | _ \<Rightarrow> False) then Inr None
      else case as_float py v of None \<Rightarrow> Inl (conversion_error v) | Some q \<Rightarrow> Inr (Some q))"

record hard_stop =
  hs_stop_per_lot :: "rat option"
  hs_lots :: int
  hs_armed_stop :: "rat option"

definition new_hard_stop :: "py_conversions \<Rightarrow> json \<Rightarrow> hard_stop result" where
  "new_hard_stop py cfg =
     (let params = (case cfg of JObj d \<Rightarrow> d | _ \<Rightarrow> []) in
      bindE (opt_float py (case dict_get params ''catastrophic_stop_rupees_per_lot'' of None \<Rightarrow> JNull | Some v \<Rightarrow> v)) (\<lambda>stop.
      if opt_holds (\<lambda>q. q \<le> 0) stop then Inl ValueError
      else Inr \<lparr>hs_stop_per_lot = stop, hs_lots = 0, hs_armed_stop = None\<rparr>))"

definition hard_stop_reset :: "hard_stop \<Rightarrow> hard_stop" where
  "hard_stop_reset h = h\<lparr>hs_lots := 0, hs_armed_stop := None\<rparr>"

definition hard_stop_new_position :: "int \<Rightarrow> rat \<Rightarrow> hard_stop \<Rightarrow> hard_stop" where
  "hard_stop_new_position lots entry_price h =
     h\<lparr>hs_lots := lots, hs_armed_stop := map_option (\<lambda>s. s * of_int lots) (hs_stop_per_lot h)\<rparr>"

definition hard_stop_on_pnl :: "rat \<Rightarrow> hard_stop \<Rightarrow> exit_reason option \<times> hard_stop" where
  "hard_stop_on_pnl pnl h =
     (case hs_armed_stop h of
        None \<Rightarrow> (None, h)
      | Some armed \<Rightarrow> (if pnl \<le> - armed then Some STOP_LOSS else None, h))"

definition hard_stop_state :: "hard_stop \<Rightarrow> int \<times> rat option \<times> rat option" where
  "hard_stop_state h = (hs_lots h, hs_stop_per_lot h, hs_armed_stop h)"

text \<open>The registry has the one name.\<close>

definition get_risk_manager :: "py_conversions \<Rightarrow> string \<Rightarrow> json \<Rightarrow> hard_stop result" where
  "get_risk_manager py name cfg = (if lower name = ''hard_stop'' then new_hard_stop py cfg else Inl KeyError)"

text \<open>
  Armed for a position, the stop fires exactly when the loss reaches the configured rupees for each of its lots, on every
  tick until the next position; switched off, it never fires.
\<close>

lemma hard_stop_fires:
  "fst (hard_stop_on_pnl pnl (hard_stop_new_position lots price h)) =
     (if opt_holds (\<lambda>s. pnl \<le> - (s * of_int lots)) (hs_stop_per_lot h) then Some STOP_LOSS else None)"
  "snd (hard_stop_on_pnl pnl h) = h"
  by (simp_all add: hard_stop_on_pnl_def hard_stop_new_position_def opt_holds_def split: option.split)

lemma disabled_hard_stop:
  "new_hard_stop py (JObj [(''catastrophic_stop_rupees_per_lot'', JStr ''none'')]) = Inr \<lparr>hs_stop_per_lot = None, hs_lots = 0, hs_armed_stop = None\<rparr>"
  by (simp add: new_hard_stop_def opt_float_def disabled_tokens_def lower_def lower_char_def strip_def is_space_def Let_def)

end
