(* ===== verification/Ema_Strategy.thy ===== *)
theory Ema_Strategy
  imports Engine Gateway Exit_Rules Indicators Risk_Managers
begin

text \<open>
  strategies/intraday\_options/ema\_cross\_9\_21\_buy/strategy.py: the deployed
  strategy, as the record of operations the engine drives.  An exit signal's
  reason is its rule's label, and the columns written on a closed trade are
  apply\_to\_trade of the exit rule.
\<close>

record ema_strategy =
  ec_ema_fast :: ema
  ec_ema_slow :: ema
  ec_crossover :: crossover
  ec_lots_per_trade :: int
  ec_exit :: combined
  ec_risk_manager :: hard_stop
  ec_prev_premium_candle :: "ohlc option"
  ec_last_position :: "open_position option"
  ec_candles_seen :: nat

text \<open>An explicit keyword argument, else the parameter, else the default.\<close>

definition pick :: "(string, json) dict \<Rightarrow> (string, json) dict \<Rightarrow> string \<Rightarrow> (json \<Rightarrow> 'a option) \<Rightarrow> 'a \<Rightarrow> 'a result" where
  "pick explicit params key convert fallback =
     (case dict_get explicit key of
        None \<Rightarrow> param params key convert fallback
      | Some JNull \<Rightarrow> param params key convert fallback
      | Some v \<Rightarrow> param explicit key convert fallback)"

definition new_ema_strategy ::
  "py_conversions \<Rightarrow> (string, json) dict \<Rightarrow> (string, json) dict \<Rightarrow> ema_strategy result" where
  "new_ema_strategy py explicit p =
     bindE (pick explicit p ''ema_fast'' (as_int py) 9) (\<lambda>fast.
     bindE (pick explicit p ''ema_slow'' (as_int py) 21) (\<lambda>slow.
     bindE (check (fast < slow) ValueError) (\<lambda>_.
     bindE (new_ema fast) (\<lambda>ema_fast.
     bindE (new_ema slow) (\<lambda>ema_slow.
     bindE (pick explicit p ''minimum_separation'' (as_float py) 0) (\<lambda>min_sep.
     bindE (pick explicit p ''confirmation_candles'' (as_int py) 1) (\<lambda>confirm.
     bindE (new_crossover min_sep confirm) (\<lambda>crossover.
     bindE (pick explicit p ''lots_per_trade'' (as_int py) 1) (\<lambda>lots.
     bindE (check (1 \<le> lots) ValueError) (\<lambda>_.
     bindE (pick explicit p ''trail_percentage'' (as_float py) 8) (\<lambda>trail_pct.
     bindE (pick explicit p ''activation_minimum_favourable_move_percentage'' (as_float py) 4) (\<lambda>activation_pct.
     bindE (new_combined py
              [(''trail_percentage'', JNum trail_pct),
               (''activation'', JObj [(''enabled'', JBool True),
                                      (''minimum_favourable_move_percentage'', JNum activation_pct)])]) (\<lambda>exit.
     bindE (pick explicit p ''risk_manager_name'' (\<lambda>v. Some (as_str py v)) ''hard_stop'') (\<lambda>risk_name.
     bindE (pick explicit p ''risk_manager_params'' (\<lambda>v. if as_bool v then (case v of JObj d \<Rightarrow> Some d | _ \<Rightarrow> None) else Some []) [])
       (\<lambda>risk_params.
     bindE (get_risk_manager py risk_name (JObj risk_params)) (\<lambda>risk.
     Inr \<lparr>ec_ema_fast = ema_fast, ec_ema_slow = ema_slow, ec_crossover = crossover, ec_lots_per_trade = lots, ec_exit = exit,
          ec_risk_manager = risk, ec_prev_premium_candle = None, ec_last_position = None, ec_candles_seen = 0\<rparr>))))))))))))))))"

definition reset_exit_state :: "ema_strategy \<Rightarrow> ema_strategy" where
  "reset_exit_state s = s\<lparr>ec_exit := combined_reset (ec_exit s), ec_prev_premium_candle := None, ec_last_position := None\<rparr>"

definition ema_strategy_reset :: "(unit, ema_strategy) act" where
  "ema_strategy_reset s =
     (Inr (), reset_exit_state (s\<lparr>ec_crossover := reset_crossover (ec_crossover s), ec_candles_seen := 0\<rparr>))"

definition on_warmup_complete :: "bool \<Rightarrow> ema_strategy \<Rightarrow> ema_strategy" where
  "on_warmup_complete context_trusted s =
     (if \<not> context_trusted then s\<lparr>ec_crossover := reset_crossover (ec_crossover s)\<rparr> else s)"

definition entry_signal :: "ema_strategy \<Rightarrow> int \<Rightarrow> datetime \<Rightarrow> strategy_signal" where
  "entry_signal s turned timestamp =
     \<lparr>sgl_action = ENTER, sgl_timestamp = timestamp, sgl_option_type = Some (if turned = 1 then CE else PE), sgl_side = BUY,
      sgl_option_selection = None,
      sgl_reason = ''fresh intraday '' @ (if turned = 1 then ''bullish'' else ''bearish'') @ '' EMA''
        @ int_text (em_period (ec_ema_fast s)) @ ''/'' @ int_text (em_period (ec_ema_slow s)) @ '' crossover'',
      sgl_exit_reason = None\<rparr>"

definition ema_on_candle :: "ohlc \<Rightarrow> datetime \<Rightarrow> (strategy_signal option, ema_strategy) act" where
  "ema_on_candle candle timestamp s =
     (let s1 = s\<lparr>ec_candles_seen := ec_candles_seen s + 1, ec_ema_fast := update_ema candle (ec_ema_fast s),
                 ec_ema_slow := update_ema candle (ec_ema_slow s)\<rparr>
      in if \<not> ema_is_ready (ec_ema_slow s1) then (Inr None, s1)
         else case (ema_state (ec_ema_fast s1), ema_state (ec_ema_slow s1)) of
           (Inr fast, Inr slow) \<Rightarrow>
             (case update_crossover (fast - slow) (ec_crossover s1) of
                (None, x) \<Rightarrow> (Inr None, s1\<lparr>ec_crossover := x\<rparr>)
              | (Some turned, x) \<Rightarrow> (Inr (Some (entry_signal s1 turned timestamp)), s1\<lparr>ec_crossover := x\<rparr>))
         | (Inl e, _) \<Rightarrow> (Inl e, s1)
         | (_, Inl e) \<Rightarrow> (Inl e, s1))"

definition premium_input :: "open_position \<Rightarrow> ohlc \<Rightarrow> datetime \<Rightarrow> ema_strategy \<Rightarrow> exit_input" where
  "premium_input p candle timestamp s =
     \<lparr>ei_position = p, ei_candle = candle,
      ei_history = (case ec_prev_premium_candle s of None \<Rightarrow> [] | Some c \<Rightarrow> [c]), ei_indicators = [],
      ei_timestamp = Some timestamp\<rparr>"

definition ema_on_option_candle :: "ohlc \<Rightarrow> datetime \<Rightarrow> (strategy_signal option, ema_strategy) act" where
  "ema_on_option_candle candle timestamp s =
     (case ec_last_position s of
        None \<Rightarrow> (Inr None, s)
      | Some p \<Rightarrow>
          (case combined_exit (premium_input p candle timestamp s) (ec_exit s) of
             (Inl e, x) \<Rightarrow> (Inl e, s\<lparr>ec_exit := x\<rparr>)
           | (Inr fired, x) \<Rightarrow>
               let s1 = s\<lparr>ec_exit := x, ec_prev_premium_candle := Some candle\<rparr>
               in if \<not> fired then (Inr None, s1)
                  else (Inr (Some \<lparr>sgl_action = EXIT, sgl_timestamp = timestamp, sgl_option_type = None, sgl_side = BUY,
                                   sgl_option_selection = None, sgl_reason = ''premium exit ('' @ cc_label x @ '')'',
                                   sgl_exit_reason = Some (cc_exit_reason x)\<rparr>), s1)))"

definition ema_on_option_candle_gap :: "(unit, ema_strategy) act" where
  "ema_on_option_candle_gap s = (Inr (), s\<lparr>ec_exit := combined_gap (ec_exit s), ec_prev_premium_candle := None\<rparr>)"

definition ema_on_position_tick :: "open_position \<Rightarrow> tick \<Rightarrow> (strategy_signal option, ema_strategy) act" where
  "ema_on_position_tick p t s = (Inr None, s\<lparr>ec_last_position := Some p\<rparr>)"

definition ema_on_position_closed :: "trade \<Rightarrow> (unit, ema_strategy) act" where
  "ema_on_position_closed t s = (Inr (), reset_exit_state s)"

definition columns_of_closed :: "trade \<Rightarrow> ema_strategy \<Rightarrow> exit_columns" where
  "columns_of_closed t s = apply_to_trade (ec_exit s) t"

definition ema_operations :: "ema_strategy strategy" where
  "ema_operations =
     \<lparr>so_on_candle = ema_on_candle, so_reset = ema_strategy_reset, so_on_position_tick = ema_on_position_tick,
      so_on_position_closed = ema_on_position_closed, so_exit_state_snapshot = (\<lambda>s. combined_snapshot (ec_exit s)),
      so_restore_exit_state = (\<lambda>d s. (Inr (), s\<lparr>ec_exit := combined_restore d (ec_exit s)\<rparr>)), so_needs_option_candles = True,
      so_on_option_candle = ema_on_option_candle, so_on_option_candle_gap = ema_on_option_candle_gap,
      so_on_candle_gap = (\<lambda>c t s. (Inr (), s)), so_option_selection = \<lparr>os_moneyness = ATM, os_steps = 0\<rparr>,
      so_risk_reset = (\<lambda>s. s\<lparr>ec_risk_manager := hard_stop_reset (ec_risk_manager s)\<rparr>),
      so_risk_new_position = (\<lambda>lots price s. s\<lparr>ec_risk_manager := hard_stop_new_position lots price (ec_risk_manager s)\<rparr>),
      so_risk_on_pnl = (\<lambda>pnl s. map_prod id (\<lambda>h. s\<lparr>ec_risk_manager := h\<rparr>) (hard_stop_on_pnl pnl (ec_risk_manager s))),
      so_risk_stop_price = (\<lambda>_. None), so_risk_target_price = (\<lambda>_. None)\<rparr>"

section \<open>When it enters\<close>

text \<open>The reference: the spread of the two averages after each prefix of the bars that is as long as the slow period.\<close>

definition ema_after :: "int \<Rightarrow> ohlc list \<Rightarrow> rat" where
  "ema_after p cs = fold (\<lambda>c v. v + ema_alpha p * (oh_close c - v)) (tl cs) (oh_close (hd cs))"

definition spread_after :: "int \<Rightarrow> int \<Rightarrow> ohlc list \<Rightarrow> rat" where
  "spread_after fast slow cs = ema_after fast cs - ema_after slow cs"

definition spreads :: "int \<Rightarrow> int \<Rightarrow> ohlc list \<Rightarrow> rat list" where
  "spreads fast slow cs = map (\<lambda>k. spread_after fast slow (take k cs)) [nat slow ..< Suc (length cs)]"

lemma ema_after_snoc: "cs \<noteq> [] \<Longrightarrow> ema_after p (cs @ [c]) = ema_after p cs + ema_alpha p * (oh_close c - ema_after p cs)"
  by (cases cs) (simp_all add: ema_after_def)

lemma spreads_snoc:
  "spreads fast slow (cs @ [c])
    = spreads fast slow cs @ (if slow \<le> int (length cs) + 1 then [spread_after fast slow (cs @ [c])] else [])"
proof (cases "nat slow \<le> Suc (length cs)")
  case True
  have "spreads fast slow (cs @ [c]) = map (\<lambda>k. spread_after fast slow (take k (cs @ [c]))) ([nat slow ..< Suc (length cs)] @ [Suc (length cs)])"
    using True by (simp add: spreads_def upt_Suc_append)
  also have "\<dots> = spreads fast slow cs @ [spread_after fast slow (cs @ [c])]"
    using True by (auto simp: spreads_def)
  finally show ?thesis using True by simp
qed (simp add: spreads_def)

definition fed_ema :: "int \<Rightarrow> ohlc list \<Rightarrow> ema \<Rightarrow> bool" where
  "fed_ema p cs e =
     (em_period e = p \<and> em_count e = length cs \<and> em_value e = (if cs = [] then None else Some (ema_after p cs)))"

lemma fed_ema_step: "fed_ema p cs e \<Longrightarrow> fed_ema p (cs @ [c]) (update_ema c e)"
  by (cases "cs = []") (simp_all add: fed_ema_def update_ema_def ema_after_snoc, simp add: ema_after_def)

definition strategy_inv :: "ema_strategy \<Rightarrow> ohlc list \<Rightarrow> ema_strategy \<Rightarrow> bool" where
  "strategy_inv s0 cs s =
     (let fast = em_period (ec_ema_fast s0); slow = em_period (ec_ema_slow s0); m = cx_minimum_separation (ec_crossover s0);
          n = cx_confirmation_candles (ec_crossover s0)
      in 1 \<le> slow \<and> 1 \<le> n \<and> fed_ema fast cs (ec_ema_fast s) \<and> fed_ema slow cs (ec_ema_slow s)
         \<and> crossover_inv m n (rev (spreads fast slow cs)) (ec_crossover s))"

text \<open>What the next bar brings, by the reference.\<close>

definition expected_entry :: "ema_strategy \<Rightarrow> ohlc list \<Rightarrow> ohlc \<Rightarrow> datetime \<Rightarrow> strategy_signal option" where
  "expected_entry s0 cs c timestamp =
     (let fast = em_period (ec_ema_fast s0); slow = em_period (ec_ema_slow s0); m = cx_minimum_separation (ec_crossover s0);
          n = cx_confirmation_candles (ec_crossover s0); h = rev (spreads fast slow cs); x = spread_after fast slow (cs @ [c])
      in if slow \<le> int (length cs) + 1 \<and> h \<noteq> [] \<and> crosses m n (confirmed_side m n h) x h
         then Some (entry_signal s0 (the (raw_side m x)) timestamp) else None)"

lemma entry_signal_cong:
  "em_period (ec_ema_fast s) = em_period (ec_ema_fast t) \<Longrightarrow> em_period (ec_ema_slow s) = em_period (ec_ema_slow t) \<Longrightarrow>
    entry_signal s k ts = entry_signal t k ts"
  by (simp add: entry_signal_def)

lemma ema_on_candle_step:
  assumes "strategy_inv s0 cs s"
  shows "fst (ema_on_candle c t s) = Inr (expected_entry s0 cs c t) \<and> strategy_inv s0 (cs @ [c]) (snd (ema_on_candle c t s))"
proof -
  define fast slow where "fast = em_period (ec_ema_fast s0)" and "slow = em_period (ec_ema_slow s0)"
  define m n where "m = cx_minimum_separation (ec_crossover s0)" and "n = cx_confirmation_candles (ec_crossover s0)"
  define h where "h = rev (spreads fast slow cs)"
  define x where "x = spread_after fast slow (cs @ [c])"
  have i: "1 \<le> slow" "1 \<le> n" "fed_ema fast cs (ec_ema_fast s)" "fed_ema slow cs (ec_ema_slow s)" "crossover_inv m n h (ec_crossover s)"
    using assms by (simp_all add: strategy_inv_def Let_def fast_def slow_def m_def n_def h_def)
  have f: "fed_ema fast (cs @ [c]) (update_ema c (ec_ema_fast s))" "fed_ema slow (cs @ [c]) (update_ema c (ec_ema_slow s))"
    using fed_ema_step i(3,4) by blast+
  have p: "em_period (ec_ema_fast s) = fast" "em_period (ec_ema_slow s) = slow"
    "em_period (update_ema c (ec_ema_fast s)) = fast" "em_period (update_ema c (ec_ema_slow s)) = slow"
    using i(3,4) f by (simp_all add: fed_ema_def)
  have ready: "ema_is_ready (update_ema c (ec_ema_slow s)) = (slow \<le> int (length cs) + 1)" using f(2) by (simp add: fed_ema_def ema_is_ready_def add.commute)
  have v: "ema_state (update_ema c (ec_ema_fast s)) = Inr (ema_after fast (cs @ [c]))"
    "ema_state (update_ema c (ec_ema_slow s)) = Inr (ema_after slow (cs @ [c]))" using f by (simp_all add: fed_ema_def ema_state_def)
  have x: "ema_after fast (cs @ [c]) - ema_after slow (cs @ [c]) = x" by (simp add: x_def spread_after_def)
  have sp: "rev (spreads fast slow (cs @ [c])) = (if slow \<le> int (length cs) + 1 then x # h else h)"
    by (simp add: spreads_snoc h_def x_def)
  have e: "expected_entry s0 cs c t = (if slow \<le> int (length cs) + 1 \<and> h \<noteq> [] \<and> crosses m n (confirmed_side m n h) x h
      then Some (entry_signal s0 (the (raw_side m x)) t) else None)"
    by (simp add: expected_entry_def Let_def fast_def slow_def m_def n_def h_def x_def)
  have inv: "strategy_inv s0 (cs @ [c]) u = (fed_ema fast (cs @ [c]) (ec_ema_fast u) \<and> fed_ema slow (cs @ [c]) (ec_ema_slow u)
      \<and> crossover_inv m n (if slow \<le> int (length cs) + 1 then x # h else h) (ec_crossover u))" for u
    using i(1,2) by (simp add: strategy_inv_def Let_def fast_def [symmetric] slow_def [symmetric] m_def [symmetric] n_def [symmetric] sp)
  show ?thesis
  proof (cases "slow \<le> int (length cs) + 1")
    case False
    then show ?thesis using f i(5) by (simp add: ema_on_candle_def Let_def ready e inv)
  next
    case True
    obtain r y where u: "update_crossover x (ec_crossover s) = (r, y)" by fastforce
    have y: "crossover_inv m n (x # h) y" "r = (if h \<noteq> [] \<and> crosses m n (confirmed_side m n h) x h then raw_side m x else None)"
      using crossover_step [OF i(5,2), of x] u by simp_all
    have g: "entry_signal (s\<lparr>ec_candles_seen := k, ec_ema_fast := update_ema c (ec_ema_fast s), ec_ema_slow := update_ema c (ec_ema_slow s)\<rparr>) q t
        = entry_signal s0 q t" for k q
      using p by (intro entry_signal_cong) (simp_all add: fast_def slow_def)
    show ?thesis
    proof (cases "h \<noteq> [] \<and> crosses m n (confirmed_side m n h) x h")
      case turned: True
      then obtain q where q: "raw_side m x = Some q" by (auto simp: crosses_def)
      then show ?thesis using True turned f y u by (simp add: ema_on_candle_def Let_def ready e inv v x g)
    next
      case still: False
      then have "r = None" using y(2) by (simp only: if_False)
      then show ?thesis using True still f y u by (auto simp add: ema_on_candle_def Let_def ready e inv v x)
    qed
  qed
qed

definition fed :: "(ohlc \<times> datetime) list \<Rightarrow> ema_strategy \<Rightarrow> ema_strategy" where
  "fed cs s = fold (\<lambda>(c, t) s. snd (ema_on_candle c t s)) cs s"

lemma fed_inv: "strategy_inv s0 ds s \<Longrightarrow> strategy_inv s0 (ds @ map fst cs) (fed cs s)"
proof (induction cs arbitrary: ds s)
  case (Cons a cs)
  obtain c t where a: "a = (c, t)" by fastforce
  from Cons.IH [OF conjunct2 [OF ema_on_candle_step [OF Cons.prems, of c t]]] show ?case by (simp add: fed_def a)
qed (simp add: fed_def)

lemma new_ema_strategy_fresh:
  assumes "new_ema_strategy py explicit p = Inr s"
  shows "strategy_inv s [] s"
proof -
  obtain fast slow ef es m n x where h: "new_ema fast = Inr ef" "new_ema slow = Inr es" "new_crossover m n = Inr x"
    "ec_ema_fast s = ef" "ec_ema_slow s = es" "ec_crossover s = x"
    using assms by (auto simp: new_ema_strategy_def bindE_Inr)
  have "1 \<le> slow" "es = \<lparr>em_period = slow, em_value = None, em_count = 0\<rparr>" "ef = \<lparr>em_period = fast, em_value = None, em_count = 0\<rparr>"
    using h(1,2) by (auto simp: new_ema_def split: if_splits)
  moreover have "cx_minimum_separation x = m" "cx_confirmation_candles x = n" using h(3) by (auto simp: new_crossover_def split: if_splits)
  ultimately show ?thesis using new_crossover_inv [OF h(3)] h(4-6)
    by (simp add: strategy_inv_def Let_def fed_ema_def spreads_def)
qed

lemma entry_signals:
  assumes "new_ema_strategy py explicit p = Inr s"
  shows "fst (ema_on_candle c t (fed cs s)) = Inr (expected_entry s (map fst cs) c t)"
  using ema_on_candle_step [OF fed_inv [OF new_ema_strategy_fresh [OF assms], of cs], of c t] by simp

text \<open>C34: the strategy enters exactly on a confirmed crossover.  Fed any bars since it was built, it answers the next one with a
  signal to buy a call or a put precisely when the slow average is ready and the spread of the averages, computed from the
  closes, has stayed on a side other than the last confirmed one for as many bars as the confirmation asks, the first spread
  only setting the side; it never raises.
\<close>

theorem entry_is_a_confirmed_cross:
  assumes "new_ema_strategy py explicit p = Inr s"
  shows "fst (so_on_candle ema_operations c t (fed cs s)) = Inr (expected_entry s (map fst cs) c t)"
  using entry_signals [OF assms] by (simp add: ema_operations_def)

section \<open>One trade after another\<close>

text \<open>What reaches the strategy about its position: ticks, premium bars and gaps in them.\<close>

datatype premium_op = Marked open_position tick | Premium ohlc datetime | Skipped

definition premium_step :: "premium_op \<Rightarrow> (strategy_signal option, ema_strategy) act" where
  "premium_step x s =
     (case x of
        Marked p t \<Rightarrow> ema_on_position_tick p t s
      | Premium c ts \<Rightarrow> ema_on_option_candle c ts s
      | Skipped \<Rightarrow> (case ema_on_option_candle_gap s of (_, s1) \<Rightarrow> (Inr None, s1)))"

fun answers :: "premium_op list \<Rightarrow> ema_strategy \<Rightarrow> strategy_signal option result list" where
  "answers [] s = []"
| "answers (x # xs) s = (case premium_step x s of (r, s1) \<Rightarrow> r # answers xs s1)"

definition exit_alike :: "ema_strategy \<Rightarrow> ema_strategy \<Rightarrow> bool" where
  "exit_alike s t =
     (plain_combined (ec_exit s) = plain_combined (ec_exit t) \<and> ec_prev_premium_candle s = ec_prev_premium_candle t
      \<and> ec_last_position s = ec_last_position t)"

lemma combined_alike:
  assumes "plain_combined c = plain_combined d" "combined_exit v c = (r, x)" "combined_exit v d = (q, y)"
  shows "q = r" "plain_combined y = plain_combined x" "r = Inr True \<Longrightarrow> cc_label y = cc_label x \<and> cc_exit_reason y = cc_exit_reason x"
proof -
  show "q = r" "plain_combined y = plain_combined x" using combined_exit_essence [OF assms(1), of v] assms(2,3) by simp_all
  assume r: "r = Inr True"
  obtain a b l e where d: "d = c\<lparr>cc_momentum_fired := a, cc_trail_fired := b, cc_label := l, cc_exit_reason := e\<rparr>"
    using assms(1) by (cases c; cases d) (simp add: plain_combined_def)
  obtain f u where t: "best_close_exit v (cc_trail c) = (f, u)" by fastforce
  show "cc_label y = cc_label x \<and> cc_exit_reason y = cc_exit_reason x"
    using r assms(2,3) unfolding d
    by (cases f; cases "cc_suppress_momentum c") (auto simp: combined_exit_def Let_def t combined_named_def split: if_splits)
qed

lemma combined_gap_alike:
  "plain_combined c = plain_combined d \<Longrightarrow> plain_combined (combined_gap c) = plain_combined (combined_gap d)"
  by (cases c; cases d) (simp add: plain_combined_def combined_gap_def)

lemma premium_step_alike:
  assumes "exit_alike s t" "premium_step x s = (r, s1)" "premium_step x t = (q, t1)"
  shows "q = r \<and> exit_alike s1 t1"
proof (cases x)
  case (Premium c ts)
  show ?thesis
  proof (cases "ec_last_position s")
    case None
    then show ?thesis using assms Premium by (simp add: premium_step_def ema_on_option_candle_def exit_alike_def)
  next
    case (Some p)
    let ?v = "premium_input p c ts s"
    have v: "premium_input p c ts t = ?v" "ec_last_position t = Some p"
      using assms(1) Some by (simp_all add: exit_alike_def premium_input_def)
    obtain a u where a: "combined_exit ?v (ec_exit s) = (a, u)" by fastforce
    obtain b w where b: "combined_exit ?v (ec_exit t) = (b, w)" by fastforce
    have al: "b = a" "plain_combined w = plain_combined u" "a = Inr True \<Longrightarrow> cc_label w = cc_label u \<and> cc_exit_reason w = cc_exit_reason u"
      using combined_alike [OF _ a b] assms(1) by (simp_all add: exit_alike_def)
    show ?thesis using assms Premium Some v a b al
      by (cases a) (auto simp: premium_step_def ema_on_option_candle_def exit_alike_def Let_def split: if_splits)
  qed
next
  case (Marked p t)
  then show ?thesis using assms by (auto simp: premium_step_def ema_on_position_tick_def exit_alike_def)
next
  case Skipped
  have "plain_combined (ec_exit s) = plain_combined (ec_exit t)" using assms(1) by (simp add: exit_alike_def)
  then have "plain_combined (combined_gap (ec_exit s)) = plain_combined (combined_gap (ec_exit t))" by (rule combined_gap_alike)
  then show ?thesis using assms Skipped by (auto simp: premium_step_def ema_on_option_candle_gap_def exit_alike_def)
qed

lemma answers_alike: "exit_alike s t \<Longrightarrow> answers xs s = answers xs t"
proof (induction xs arbitrary: s t)
  case (Cons x xs)
  obtain r s1 where s: "premium_step x s = (r, s1)" by fastforce
  obtain q t1 where t: "premium_step x t = (q, t1)" by fastforce
  show ?case using premium_step_alike [OF Cons.prems s t] Cons.IH [of s1 t1] s t by simp
qed simp

text \<open>The configuration of the exit rule, which nothing changes.\<close>

definition exit_settings :: "ema_strategy \<Rightarrow> combined" where
  "exit_settings s = plain_combined (combined_reset (ec_exit s))"

lemma combined_exit_settings:
  "plain_combined (combined_reset (snd (combined_exit v c))) = plain_combined (combined_reset c)"
proof -
  obtain r u where t: "best_close_exit v (cc_trail c) = (r, u)" by fastforce
  have u: "u\<lparr>bc_extreme := None, bc_activated := False\<rparr> = (cc_trail c)\<lparr>bc_extreme := None, bc_activated := False\<rparr>"
    using t by (auto simp: best_close_exit_def retraced_def Let_def split: if_splits)
  have n: "plain_combined (combined_reset (combined_named k e)) = plain_combined (combined_reset e)" for k e
    by (simp add: combined_named_def plain_combined_def combined_reset_def)
  show ?thesis by (cases r; cases "cc_suppress_momentum c")
      (simp_all add: combined_exit_def Let_def t n, simp_all add: plain_combined_def combined_reset_def u)
qed

lemma premium_step_settings: "exit_settings (snd (premium_step x s)) = exit_settings s"
proof (cases x)
  case (Premium c ts)
  then show ?thesis using combined_exit_settings [of "premium_input (the (ec_last_position s)) c ts s" "ec_exit s"]
    by (auto simp: premium_step_def ema_on_option_candle_def exit_settings_def Let_def split: option.splits prod.splits sum.splits)
qed (simp_all add: premium_step_def ema_on_position_tick_def ema_on_option_candle_gap_def exit_settings_def plain_combined_def
       combined_gap_def combined_reset_def)

lemma premium_steps_settings: "exit_settings (fold (\<lambda>x s. snd (premium_step x s)) xs s) = exit_settings s"
  by (induction xs arbitrary: s) (simp_all add: premium_step_settings)

lemma ema_on_candle_exit: "ec_exit (snd (ema_on_candle c t s)) = ec_exit s"
  by (simp add: ema_on_candle_def Let_def split: sum.split prod.split option.split)

lemma fed_exit: "ec_exit (fed cs s) = ec_exit s"
  by (induction cs arbitrary: s) (auto simp: fed_def ema_on_candle_exit)

lemma new_combined_fresh: "new_combined py d = Inr c \<Longrightarrow> plain_combined (combined_reset c) = plain_combined c"
  by (auto simp: new_combined_def new_best_close_def Let_def bindE_Inr plain_combined_def combined_reset_def)

lemma fresh_exit:
  assumes "new_ema_strategy py explicit p = Inr s"
  shows "ec_prev_premium_candle s = None \<and> ec_last_position s = None \<and> plain_combined (ec_exit s) = exit_settings s"
proof -
  obtain d c where "new_combined py d = Inr c" "ec_exit s = c" "ec_prev_premium_candle s = None" "ec_last_position s = None"
    using assms by (auto simp: new_ema_strategy_def bindE_Inr)
  then show ?thesis using new_combined_fresh by (simp add: exit_settings_def)
qed

lemma answers_after_close:
  assumes "new_ema_strategy py explicit p = Inr s" "s1 = fold (\<lambda>x s. snd (premium_step x s)) xs (fed cs s)"
  shows "answers ys (snd (ema_on_position_closed trade s1)) = answers ys s"
proof (rule answers_alike)
  have "exit_settings s1 = exit_settings s" using assms(2) premium_steps_settings by (simp add: exit_settings_def fed_exit)
  then show "exit_alike (snd (ema_on_position_closed trade s1)) s"
    using fresh_exit [OF assms(1)] by (simp add: exit_alike_def ema_on_position_closed_def reset_exit_state_def exit_settings_def)
qed

text \<open>C35: a trade inherits nothing from the one before.  Whatever bars, ticks and gaps a trade has seen, once it is closed the
  strategy answers everything it is shown about the next position as the freshly built strategy would.
\<close>

theorem trades_inherit_nothing:
  assumes "new_ema_strategy py explicit p = Inr s" "s1 = fold (\<lambda>x s. snd (premium_step x s)) xs (fed cs s)"
  shows "answers ys (snd (so_on_position_closed ema_operations trade s1)) = answers ys s"
  using answers_after_close [OF assms] by (simp add: ema_operations_def)

section \<open>Examples\<close>

definition quick_params :: "(string, json) dict" where
  "quick_params = [(''ema_fast'', JNum 1), (''ema_slow'', JNum 2)]"

definition quick_strategy :: ema_strategy where
  "quick_strategy =
     \<lparr>ec_ema_fast = \<lparr>em_period = 1, em_value = None, em_count = 0\<rparr>, ec_ema_slow = \<lparr>em_period = 2, em_value = None, em_count = 0\<rparr>,
      ec_crossover = \<lparr>cx_minimum_separation = 0, cx_confirmation_candles = 1, cx_confirmed_side = None, cx_candidate_side = None,
                      cx_candidate_count = 0, cx_initialized = False\<rparr>,
      ec_lots_per_trade = 1,
      ec_exit = \<lparr>cc_trail = \<lparr>bc_by_side = True, bc_percentage = True, bc_trail_points = 20, bc_trail_percentage = 8,
                              bc_activation_enabled = True, bc_min_move = 4, bc_extreme = None, bc_activated = False\<rparr>,
                  cc_momentum_fired = False, cc_trail_fired = False, cc_highest_close = None, cc_lowest_close = None,
                  cc_suppress_momentum = False, cc_label = combined_label, cc_exit_reason = STRATEGY_EXIT\<rparr>,
      ec_risk_manager = \<lparr>hs_stop_per_lot = None, hs_lots = 0, hs_armed_stop = None\<rparr>,
      ec_prev_premium_candle = None, ec_last_position = None, ec_candles_seen = 0\<rparr>"

lemma quick_texts:
  "lower ''side'' = ''side''" "upper ''PERCENTAGE'' = ''PERCENTAGE''" "lower ''hard_stop'' = ''hard_stop''"
  by (simp_all add: lower_def lower_char_def upper_def upper_char_def)

lemma quick_combined:
  "new_combined plain_conversions [(''trail_percentage'', JNum 8),
     (''activation'', JObj [(''enabled'', JBool True), (''minimum_favourable_move_percentage'', JNum 4)])]
   = Inr (ec_exit quick_strategy)"
  by (simp add: new_combined_def new_best_close_def basis_param_def activation_param_def param_def as_bool_def as_str_def
      as_float_def quick_texts quick_strategy_def Let_def)

lemma new_quick_strategy: "new_ema_strategy plain_conversions [] quick_params = Inr quick_strategy"
  by (simp add: new_ema_strategy_def pick_def param_def quick_params_def as_int_def truncated_def new_ema_def new_crossover_def
      quick_combined get_risk_manager_def quick_texts new_hard_stop_def opt_float_def Let_def)
     (simp add: quick_strategy_def)

definition two_bars :: "(ohlc \<times> datetime) list" where
  "two_bars = map (\<lambda>c. (example_bar c c c, DT 0 (Some utc))) [10, 8]"

lemma entry_is_a_confirmed_cross_witness:
  "case fst (so_on_candle ema_operations (example_bar 20 20 20) (DT 0 (Some utc)) (fed two_bars quick_strategy)) of
     Inr (Some g) \<Rightarrow> sgl_option_type g = Some CE | _ \<Rightarrow> False"
proof -
  have "expected_entry quick_strategy (map fst two_bars) (example_bar 20 20 20) (DT 0 (Some utc)) \<noteq> None
      \<and> sgl_option_type (the (expected_entry quick_strategy (map fst two_bars) (example_bar 20 20 20) (DT 0 (Some utc)))) = Some CE"
    by (simp add: expected_entry_def Let_def quick_strategy_def two_bars_def spreads_def spread_after_def ema_after_def ema_alpha_def
        example_bar_def crosses_def raw_side_def entry_signal_def upt_rec numeral_2_eq_2)
  then show ?thesis
    using entry_is_a_confirmed_cross [OF new_quick_strategy, of "example_bar 20 20 20" "DT 0 (Some utc)" two_bars]
    by (auto simp del: not_None_eq split: option.split)
qed

definition call_leg :: open_position where
  "call_leg = new_open_position
     \<lparr>oc_symbol = ''NIFTY CE'', oc_security_id = ''7'', oc_strike = 25000, oc_option_type = CE, oc_expiry = ''2026-08-06'', oc_lot_size = 75\<rparr>
     BUY 1 100 (DT 0 (Some utc))"

definition call_tick :: tick where
  "call_tick =
     \<lparr>tk_security_id = ''7'', tk_instrument = ''NIFTY'', tk_last_price = 100, tk_exchange_time = DT 0 (Some utc),
      tk_received_at = DT 0 (Some utc), tk_last_quantity = 0, tk_bid_price = None, tk_ask_price = None, tk_sequence = None\<rparr>"

definition call_trade :: trade where
  "call_trade =
     \<lparr>tr_contract = op_contract call_leg, tr_side = BUY, tr_lots = 1, tr_quantity = 75, tr_entry_price = 100, tr_exit_price = 90,
      tr_entry_time = DT 0 (Some utc), tr_exit_time = DT minute (Some utc), tr_exit_reason = SQUARE_OFF, tr_gross_pnl = - 750,
      tr_charges = 0, tr_charges_breakdown = [], tr_mfe = 0, tr_mae = - 750, tr_entry_regime = None, tr_exit_regime = None,
      tr_session_tags = [], tr_entry_regime_features = []\<rparr>"

lemma trades_inherit_nothing_witness:
  "answers [Marked call_leg call_tick, Premium (example_bar 120 90 95) (DT 0 (Some utc))]
     (snd (so_on_position_closed ema_operations call_trade
        (fold (\<lambda>x s. snd (premium_step x s)) [Marked call_leg call_tick, Premium (example_bar 90 80 85) (DT 0 (Some utc)), Skipped]
           (fed two_bars quick_strategy))))
   = answers [Marked call_leg call_tick, Premium (example_bar 120 90 95) (DT 0 (Some utc))] quick_strategy"
  by (rule trades_inherit_nothing [OF new_quick_strategy refl])

end
