(* ===== verification/Regime.thy ===== *)
theory Regime
  imports Indicators Engine_Models Conversions Session
begin

text \<open>
  common/engine/regime.py: the market-regime classifiers over the closed bars of the underlying, and the tagger of trades.
  The JSON text of the diagnostics is left out; their dictionary is not.
\<close>

datatype regime_label = TRENDING_UP | TRENDING_DOWN | SIDEWAYS | VOLATILE | LOW_VOLATILITY | UNCLASSIFIED

definition regime_text :: "regime_label \<Rightarrow> string" where
  "regime_text l =
     (case l of TRENDING_UP \<Rightarrow> ''TRENDING_UP'' | TRENDING_DOWN \<Rightarrow> ''TRENDING_DOWN'' | SIDEWAYS \<Rightarrow> ''SIDEWAYS''
      | VOLATILE \<Rightarrow> ''VOLATILE'' | LOW_VOLATILITY \<Rightarrow> ''LOW_VOLATILITY'' | UNCLASSIFIED \<Rightarrow> ''UNCLASSIFIED'')"

record adx_atr =
  rg_adx_period :: int
  rg_atr_period :: int
  rg_atr_avg_window :: int
  rg_adx_trend_min :: rat
  rg_vol_high :: rat
  rg_vol_low :: rat
  rg_volatile_first :: bool
  rg_min_atr_samples :: int
  rg_adx :: adx
  rg_atr :: atr
  rg_atr_hist :: "rat list"

definition new_adx_atr :: "py_conversions \<Rightarrow> (string, json) dict \<Rightarrow> adx_atr result" where
  "new_adx_atr py p =
     bindE (param p ''adx_period'' (as_int py) 14) (\<lambda>adx_period.
     bindE (param p ''atr_period'' (as_int py) 14) (\<lambda>atr_period.
     bindE (param p ''atr_avg_window'' (as_int py) 20) (\<lambda>window.
     bindE (param p ''adx_trend_min'' (as_float py) 25) (\<lambda>trend_min.
     bindE (param p ''vol_high'' (as_float py) (13 / 10)) (\<lambda>vol_high.
     bindE (param p ''vol_low'' (as_float py) (7 / 10)) (\<lambda>vol_low.
     bindE (new_adx adx_period) (\<lambda>adx.
     bindE (new_atr atr_period) (\<lambda>atr.
     bindE (check (0 \<le> window) ValueError) (\<lambda>_.
     Inr \<lparr>rg_adx_period = adx_period, rg_atr_period = atr_period, rg_atr_avg_window = window, rg_adx_trend_min = trend_min,
          rg_vol_high = vol_high, rg_vol_low = vol_low,
          rg_volatile_first = (case dict_get p ''volatile_first'' of None \<Rightarrow> True | Some v \<Rightarrow> as_bool v),
          rg_min_atr_samples = max 5 (window div 2), rg_adx = adx, rg_atr = atr, rg_atr_hist = []\<rparr>)))))))))"

definition reset_adx_atr :: "adx_atr \<Rightarrow> adx_atr result" where
  "reset_adx_atr g =
     bindE (new_adx (rg_adx_period g)) (\<lambda>adx. bindE (new_atr (rg_atr_period g)) (\<lambda>atr.
     Inr (g\<lparr>rg_adx := adx, rg_atr := atr, rg_atr_hist := []\<rparr>)))"

definition observe_adx_atr :: "ohlc \<Rightarrow> adx_atr \<Rightarrow> adx_atr result" where
  "observe_adx_atr c g =
     (let atr = update_atr c (rg_atr g) in
      bindE (atr_state atr) (\<lambda>v.
      Inr (g\<lparr>rg_adx := snd (update_adx c (rg_adx g)), rg_atr := atr,
             rg_atr_hist := deque_append (nat (rg_atr_avg_window g)) (rg_atr_hist g) v\<rparr>)))"

definition regime_is_ready :: "adx_atr \<Rightarrow> bool" where
  "regime_is_ready g = (ax_adx (rg_adx g) \<noteq> None \<and> rg_min_atr_samples g \<le> int (length (rg_atr_hist g)))"

definition regime_snapshot :: "adx_atr \<Rightarrow> (rat \<times> adx_state) result" where
  "regime_snapshot g =
     bindE (atr_state (rg_atr g)) (\<lambda>atr.
     let avg = (if rg_atr_hist g = [] then atr else sum_list (rg_atr_hist g) / of_nat (length (rg_atr_hist g))) in
     bindE (adx_state_of (rg_adx g)) (\<lambda>s. Inr (if 0 < avg then atr / avg else 1, s)))"

definition trend_label :: "adx_state \<Rightarrow> regime_label" where
  "trend_label s = (if as_minus_di s \<le> as_plus_di s then TRENDING_UP else TRENDING_DOWN)"

definition classify :: "adx_atr \<Rightarrow> regime_label result" where
  "classify g =
     (if \<not> regime_is_ready g then Inr UNCLASSIFIED
      else bindE (regime_snapshot g) (\<lambda>(vol_ratio, s).
        let trending = rg_adx_trend_min g \<le> as_adx s; volatile = rg_vol_high g \<le> vol_ratio;
            calm = (if vol_ratio \<le> rg_vol_low g then LOW_VOLATILITY else SIDEWAYS)
        in Inr (if rg_volatile_first g
                then (if volatile then VOLATILE else if trending then trend_label s else calm)
                else (if trending then trend_label s else if volatile then VOLATILE else calm))))"

definition diagnostics :: "adx_atr \<Rightarrow> (string, rat) dict result" where
  "diagnostics g =
     (if \<not> regime_is_ready g then Inr []
      else bindE (regime_snapshot g) (\<lambda>(vol_ratio, s).
        Inr [(''adx'', py_round 4 (as_adx s)), (''plus_di'', py_round 4 (as_plus_di s)),
             (''minus_di'', py_round 4 (as_minus_di s)), (''vol_ratio'', py_round 4 vol_ratio)]))"

text \<open>The tagger over one of the two registered classifiers.\<close>

datatype classifier = Null_Classifier | Adx_Atr adx_atr

record regime_tagger =
  rt_classifier :: classifier
  rt_gap_pct :: rat

definition tagger_reset :: "regime_tagger \<Rightarrow> regime_tagger result" where
  "tagger_reset t =
     (case rt_classifier t of
        Null_Classifier \<Rightarrow> Inr t
      | Adx_Atr g \<Rightarrow> bindE (reset_adx_atr g) (\<lambda>g1. Inr (t\<lparr>rt_classifier := Adx_Atr g1\<rparr>)))"

definition tagger_observe :: "ohlc \<Rightarrow> regime_tagger \<Rightarrow> regime_tagger result" where
  "tagger_observe c t =
     (case rt_classifier t of
        Null_Classifier \<Rightarrow> Inr t
      | Adx_Atr g \<Rightarrow> bindE (observe_adx_atr c g) (\<lambda>g1. Inr (t\<lparr>rt_classifier := Adx_Atr g1\<rparr>)))"

definition current_regime :: "regime_tagger \<Rightarrow> string result" where
  "current_regime t =
     (case rt_classifier t of
        Null_Classifier \<Rightarrow> Inr (regime_text UNCLASSIFIED)
      | Adx_Atr g \<Rightarrow> bindE (classify g) (\<lambda>l. Inr (regime_text l)))"

definition is_expiry_day :: "option_contract option \<Rightarrow> datetime \<Rightarrow> bool" where
  "is_expiry_day contract ts =
     (case contract of
        None \<Rightarrow> False
      | Some c \<Rightarrow> oc_expiry c \<noteq> [] \<and> take 10 (oc_expiry c) = date_isoformat (dt_date ts))"

definition is_gap_day :: "rat option \<Rightarrow> rat option \<Rightarrow> regime_tagger \<Rightarrow> bool" where
  "is_gap_day today_open prev_close t =
     (case (today_open, prev_close) of
        (Some o1, Some p) \<Rightarrow> o1 \<noteq> 0 \<and> p \<noteq> 0 \<and> 0 < p \<and> rt_gap_pct t \<le> \<bar>o1 - p\<bar> / p
      | _ \<Rightarrow> False)"

definition session_tags :: "option_contract option \<Rightarrow> datetime \<Rightarrow> rat option \<Rightarrow> rat option \<Rightarrow> regime_tagger \<Rightarrow> string" where
  "session_tags contract ts today_open prev_close t =
     (let e = is_expiry_day contract ts; g = is_gap_day today_open prev_close t in
      (if e then ''EXPIRY_DAY'' else []) @ (if e \<and> g then '','' else []) @ (if g then ''GAP_DAY'' else []))"

definition build_regime_tagger :: "py_conversions \<Rightarrow> bool \<Rightarrow> (string, json) dict \<Rightarrow> regime_tagger result" where
  "build_regime_tagger py enabled params =
     (if \<not> enabled then Inr \<lparr>rt_classifier = Null_Classifier, rt_gap_pct = 7 / 1000\<rparr>
      else
        let key = lower (case dict_get params ''regime_classifier'' of None \<Rightarrow> ''null'' | Some v \<Rightarrow> as_str py v) in
        bindE (if key = ''null'' then Inr Null_Classifier
               else if key = ''adx_atr'' then bindE (new_adx_atr py params) (\<lambda>g. Inr (Adx_Atr g)) else Inl KeyError) (\<lambda>c.
        bindE (param params ''regime_gap_pct'' (as_float py) (7 / 1000)) (\<lambda>gap.
        Inr \<lparr>rt_classifier = c, rt_gap_pct = gap\<rparr>)))"

fun observe_all :: "ohlc list \<Rightarrow> adx_atr \<Rightarrow> adx_atr result" where
  "observe_all [] g = Inr g"
| "observe_all (c # cs) g = bindE (observe_adx_atr c g) (\<lambda>g1. observe_all cs g1)"

definition regime_inv :: "adx_atr \<Rightarrow> bool" where
  "regime_inv g =
     ((ax_adx (rg_adx g) = None) = (at_atr (rg_atr g) = None) \<and> 5 \<le> rg_min_atr_samples g \<and> 0 \<le> rg_atr_avg_window g
      \<and> int (length (rg_atr_hist g)) \<le> rg_atr_avg_window g)"

lemma observe_step:
  assumes "regime_inv g"
  shows "\<exists>g1. observe_adx_atr c g = Inr g1 \<and> regime_inv g1 \<and> rg_atr_avg_window g1 = rg_atr_avg_window g"
proof -
  obtain r b where u: "update_adx c (rg_adx g) = (r, b)" by fastforce
  then have b: "ax_adx b \<noteq> None" by (auto simp: update_adx_def Let_def split: prod.splits)
  have "length (deque_append (nat (rg_atr_avg_window g)) (rg_atr_hist g) v) \<le> nat (rg_atr_avg_window g)" for v
    using assms by (intro length_deque_append) (simp add: regime_inv_def le_nat_iff)
  then have "int (length (deque_append (nat (rg_atr_avg_window g)) (rg_atr_hist g) v)) \<le> rg_atr_avg_window g" for v
    using assms by (simp add: regime_inv_def le_nat_iff)
  then show ?thesis using assms u b
    by (simp add: observe_adx_atr_def Let_def atr_state_def update_atr_def regime_inv_def)
qed

lemma observe_all_inv:
  "regime_inv g \<Longrightarrow> \<exists>g1. observe_all cs g = Inr g1 \<and> regime_inv g1 \<and> rg_atr_avg_window g1 = rg_atr_avg_window g"
proof (induction cs arbitrary: g)
  case (Cons c cs)
  from observe_step [OF Cons.prems, of c] Cons.IH show ?case by fastforce
qed simp

text \<open>
  The classifier never raises, whatever bars it is shown; and with an averaging window of fewer than five bars it is never
  ready and says UNCLASSIFIED for ever, which the configuration accepts.
\<close>

lemma classifier_returns:
  assumes "new_adx_atr py p = Inr g"
  shows "\<exists>g1 l. observe_all cs g = Inr g1 \<and> classify g1 = Inr l \<and> (5 \<le> rg_atr_avg_window g \<or> l = UNCLASSIFIED)"
proof -
  have "regime_inv g"
    using assms by (auto simp: new_adx_atr_def bindE_Inr regime_inv_def new_adx_def new_atr_def split: if_splits)
  from observe_all_inv [OF this] obtain g1 where
    g1: "observe_all cs g = Inr g1" "regime_inv g1" "rg_atr_avg_window g1 = rg_atr_avg_window g" by blast
  show ?thesis
  proof (cases "regime_is_ready g1")
    case True
    then obtain x a where "ax_adx (rg_adx g1) = Some x" "at_atr (rg_atr g1) = Some a"
      using g1(2) by (auto simp: regime_is_ready_def regime_inv_def)
    then have "\<exists>q. regime_snapshot g1 = Inr q"
      by (simp add: regime_snapshot_def atr_state_def adx_state_of_def Let_def split: prod.split)
    moreover have "5 \<le> rg_atr_avg_window g" using True g1(2,3) by (simp add: regime_is_ready_def regime_inv_def)
    ultimately show ?thesis using g1(1) True by (auto simp: classify_def Let_def split: prod.split)
  qed (use g1 in \<open>simp add: classify_def\<close>)
qed

end
