(* ===== verification/Warmup.thy ===== *)
theory Warmup
  imports Session Candles Effects
begin

text \<open>
  common/warmup: what history a strategy needs (requirements.py), the candle
  buckets of a session (session\_buckets.py) and the manager that replays
  history and says how far it may be trusted (manager.py).  The fetch is a
  parameter, the sink an operation over a state of its own; the detail text of
  a result is left out.
\<close>

section \<open>Requirements\<close>

datatype indicator_scope = SESSION_SPANNING | SESSION_LOCAL

record warmup_requirement =
  wq_min_bars :: int
  wq_scope :: indicator_scope
  wq_requires_volume :: bool
  wq_continuity_required :: bool

record strategy_warmup_spec =
  ws_min_bars :: int
  ws_requires_volume :: bool
  ws_has_session_local :: bool
  ws_continuity_required :: bool

datatype warm_status = WARMED | PARTIAL | COLD_START | SKIPPED_EMPTY | SKIPPED_SESSION_LOCAL | SKIPPED_VOLUME

definition spec_is_empty :: "strategy_warmup_spec \<Rightarrow> bool" where
  "spec_is_empty spec = (ws_min_bars spec \<le> 0)"

definition entry_blocked_by :: "strategy_warmup_spec \<Rightarrow> warm_status \<Rightarrow> bool" where
  "entry_blocked_by spec status = (if \<not> ws_continuity_required spec then False else status \<noteq> WARMED)"

definition from_indicators :: "warmup_requirement list \<Rightarrow> strategy_warmup_spec" where
  "from_indicators reqs =
     (let spanning = filter (\<lambda>r. wq_scope r = SESSION_SPANNING) reqs in
      \<lparr>ws_min_bars = (case map wq_min_bars spanning of [] \<Rightarrow> 0 | b # bs \<Rightarrow> fold max bs b),
       ws_requires_volume = list_ex wq_requires_volume spanning,
       ws_has_session_local = list_ex (\<lambda>r. wq_scope r = SESSION_LOCAL) reqs,
       ws_continuity_required = list_ex wq_continuity_required reqs\<rparr>)"

definition validate_warmup_config :: "strategy_warmup_spec option result \<Rightarrow> bool \<Rightarrow> bool \<Rightarrow> unit result" where
  "validate_warmup_config spec warmup_enabled manager_supplied =
     (case spec of
        Inl _ \<Rightarrow> Inr ()
      | Inr None \<Rightarrow> Inr ()
      | Inr (Some s) \<Rightarrow>
          if \<not> ws_continuity_required s then Inr ()
          else if warmup_enabled \<and> manager_supplied then Inr ()
          else Inl InvalidWarmupConfig)"

section \<open>The buckets of a session\<close>

definition session_bucket_offsets :: "market_session \<Rightarrow> int \<Rightarrow> int list result" where
  "session_bucket_offsets s interval_minutes =
     (if interval_minutes \<le> 0 then Inl ValueError
      else
        let interval_seconds = interval_minutes * 60;
            start_seconds = ms_start s div second; end_seconds = ms_square_off s div second;
            first_start = ((start_seconds + interval_seconds - 1) div interval_seconds) * interval_seconds;
            latest_start = end_seconds - interval_seconds
        in if latest_start < first_start then Inr []
           else Inr (map (\<lambda>k. first_start + int k * interval_seconds)
                       [0..<nat ((latest_start - first_start) div interval_seconds + 1)]))"

definition session_bucket_count :: "market_session \<Rightarrow> int \<Rightarrow> int result" where
  "session_bucket_count s interval_minutes = bindE (session_bucket_offsets s interval_minutes) (\<lambda>os. Inr (int (length os)))"

definition session_bucket_starts :: "market_session \<Rightarrow> day \<Rightarrow> int \<Rightarrow> datetime list result" where
  "session_bucket_starts s d interval_minutes =
     bindE (is_trading_day s (combine d 0 (ms_tz s))) (\<lambda>trading.
     if \<not> trading then Inr []
     else bindE (session_bucket_offsets s interval_minutes) (\<lambda>os.
       Inr (map (\<lambda>offset. dt_add (combine d 0 (ms_tz s)) (offset * second)) os)))"

definition is_applicable_session_bucket :: "market_session \<Rightarrow> datetime \<Rightarrow> datetime \<Rightarrow> int \<Rightarrow> bool result" where
  "is_applicable_session_bucket s start_at end_at interval_minutes =
     bindE (local_date_in start_at (ms_tz s)) (\<lambda>d.
     let expected_end = dt_add start_at (interval_minutes * minute) in
     if instant end_at \<noteq> instant expected_end \<or> aware end_at \<noteq> aware expected_end then Inr False
     else bindE (session_bucket_starts s d interval_minutes) (\<lambda>bs. Inr (instant start_at \<in> set (map instant bs))))"

section \<open>The manager\<close>

record warmup_source =
  wo_security_id :: string
  wo_exchange_segment :: string
  wo_instrument_type :: string

type_synonym fetch_fn = "warmup_source \<Rightarrow> market_session \<Rightarrow> int \<Rightarrow> int \<Rightarrow> datetime option \<Rightarrow> candle list result"

record warmup_manager =
  wm_fetch_fn :: fetch_fn
  wm_max_lookback_sessions :: int

record warmup_result =
  wr_status :: warm_status
  wr_candles_replayed :: nat

definition result_warmed :: "warmup_result \<Rightarrow> bool" where
  "result_warmed r = (wr_status r = WARMED \<or> wr_status r = PARTIAL)"

definition new_warmup_manager :: "fetch_fn \<Rightarrow> int \<Rightarrow> warmup_manager" where
  "new_warmup_manager fetch_fn max_lookback_sessions =
     \<lparr>wm_fetch_fn = fetch_fn, wm_max_lookback_sessions = max 1 max_lookback_sessions\<rparr>"

definition lookback_sessions :: "warmup_manager \<Rightarrow> strategy_warmup_spec \<Rightarrow> market_session \<Rightarrow> int \<Rightarrow> int result" where
  "lookback_sessions m spec s timeframe_minutes =
     bindE (session_bucket_count s timeframe_minutes) (\<lambda>per_session.
     if per_session = 0 then Inr (wm_max_lookback_sessions m)
     else Inr (min (max 1 ((ws_min_bars spec + per_session - 1) div per_session)) (wm_max_lookback_sessions m)))"

definition required_latest_boundary :: "market_session \<Rightarrow> int \<Rightarrow> datetime \<Rightarrow> (day \<times> datetime) result" where
  "required_latest_boundary s timeframe_minutes now =
     bindE (local_date_in now (ms_tz s)) (\<lambda>today.
     bindE (floor_to_interval now (timeframe_minutes * 60)) (\<lambda>current_bucket.
     let candidate = dt_add current_bucket (- (timeframe_minutes * minute));
         prior =
           bindE (prior_trading_day s today 1) (\<lambda>prior_day.
           bindE (session_bucket_starts s prior_day timeframe_minutes) (\<lambda>prior_buckets.
           if prior_buckets = [] then Inl IndexError else Inr (prior_day, last prior_buckets)))
     in
     bindE (is_trading_day s now) (\<lambda>trading.
     if \<not> trading then prior
     else
       bindE (session_bucket_starts s today timeframe_minutes) (\<lambda>day_buckets.
       if day_buckets \<noteq> [] \<and> hd day_buckets \<le> candidate
       then Inr (today, if last day_buckets < candidate then last day_buckets else candidate)
       else prior))))"

text \<open>Walks back at most as many further sessions as the manager may look back.\<close>

fun walk_buckets :: "market_session \<Rightarrow> int \<Rightarrow> int \<Rightarrow> nat \<Rightarrow> day \<Rightarrow> datetime list \<Rightarrow> datetime list option result" where
  "walk_buckets s timeframe_minutes min_bars 0 d accumulated =
     Inr (if int (length accumulated) < min_bars then None else Some accumulated)"
| "walk_buckets s timeframe_minutes min_bars (Suc budget) d accumulated =
     (if int (length accumulated) < min_bars then
        bindE (prior_trading_day s d 1) (\<lambda>d1.
        bindE (session_bucket_starts s d1 timeframe_minutes) (\<lambda>bs.
        walk_buckets s timeframe_minutes min_bars budget d1 (bs @ accumulated)))
      else Inr (Some accumulated))"

definition expected_recent_buckets ::
  "warmup_manager \<Rightarrow> strategy_warmup_spec \<Rightarrow> market_session \<Rightarrow> int \<Rightarrow> datetime \<Rightarrow> datetime list option result" where
  "expected_recent_buckets m spec s timeframe_minutes now =
     bindE (required_latest_boundary s timeframe_minutes now) (\<lambda>(required_day, required_latest).
     bindE (session_bucket_starts s required_day timeframe_minutes) (\<lambda>bs.
     bindE (walk_buckets s timeframe_minutes (ws_min_bars spec) (nat (wm_max_lookback_sessions m)) required_day
              (filter (\<lambda>b. b \<le> required_latest) bs)) (\<lambda>found.
     Inr (map_option (\<lambda>acc. drop (length acc - nat (ws_min_bars spec)) acc) found))))"

fun starts_by_day :: "market_session \<Rightarrow> candle list \<Rightarrow> (day, datetime list) dict \<Rightarrow> (day, datetime list) dict result" where
  "starts_by_day s [] by_day = Inr by_day"
| "starts_by_day s (c # cs) by_day =
     bindE (local_date_in (cd_start_at c) (ms_tz s)) (\<lambda>d.
     starts_by_day s cs
       (dict_set d ((case dict_get by_day d of None \<Rightarrow> [] | Some xs \<Rightarrow> xs) @ [cd_start_at c]) by_day))"

fun uneven :: "int \<Rightarrow> datetime list \<Rightarrow> bool" where
  "uneven interval (a # b # xs) = (dt_diff b a \<noteq> interval \<or> uneven interval (b # xs))"
| "uneven interval _ = False"

definition has_internal_gaps :: "candle list \<Rightarrow> market_session \<Rightarrow> int \<Rightarrow> bool result" where
  "has_internal_gaps candles s timeframe_minutes =
     bindE (starts_by_day s candles []) (\<lambda>by_day.
     Inr (list_ex (\<lambda>(_, day_starts). uneven (timeframe_minutes * minute) (sort_key instant day_starts)) by_day))"

fun applicable_all :: "market_session \<Rightarrow> int \<Rightarrow> candle list \<Rightarrow> bool result" where
  "applicable_all s timeframe_minutes [] = Inr True"
| "applicable_all s timeframe_minutes (c # cs) =
     bindE (is_applicable_session_bucket s (cd_start_at c) (cd_end_at c) timeframe_minutes) (\<lambda>ok.
     bindE (applicable_all s timeframe_minutes cs) (\<lambda>oks. Inr (ok \<and> oks)))"

text \<open>The completeness verification, in the order of its checks.\<close>

definition verify :: "warmup_manager \<Rightarrow> strategy_warmup_spec \<Rightarrow> market_session \<Rightarrow> int \<Rightarrow> datetime \<Rightarrow> candle list \<Rightarrow> warm_status result" where
  "verify m spec s timeframe_minutes now candles =
     bindE (expected_recent_buckets m spec s timeframe_minutes now) (\<lambda>found.
     case found of
       None \<Rightarrow> Inr PARTIAL
     | Some expected \<Rightarrow>
         let starts = map cd_start_at candles; at_starts = map instant starts in
         bindE (applicable_all s timeframe_minutes candles) (\<lambda>applicable.
         if \<not> applicable then Inr PARTIAL
         else if at_starts \<noteq> sort at_starts \<or> \<not> distinct at_starts then Inr PARTIAL
         else
           bindE (has_internal_gaps candles s timeframe_minutes) (\<lambda>gaps.
           if gaps then Inr PARTIAL
           else if expected = [] then Inl IndexError
           else
             let raw_recent = filter (\<lambda>b. hd expected \<le> b \<and> b \<le> last expected) starts in
             Inr (if set (map instant raw_recent) \<noteq> set (map instant expected) then PARTIAL else WARMED))))"

fun replay_candles :: "(candle \<Rightarrow> (unit, 's) act) \<Rightarrow> nat \<Rightarrow> candle list \<Rightarrow> 's \<Rightarrow> bool \<times> nat \<times> 's" where
  "replay_candles sink replayed [] st = (True, replayed, st)"
| "replay_candles sink replayed (c # cs) st =
     (case sink c st of
        (Inl _, st1) \<Rightarrow> (False, replayed, st1)
      | (Inr _, st1) \<Rightarrow> replay_candles sink (replayed + 1) cs st1)"

definition warm ::
  "warmup_manager \<Rightarrow> (candle \<Rightarrow> (unit, 's) act) \<Rightarrow> warmup_source \<Rightarrow> strategy_warmup_spec option \<Rightarrow> market_session \<Rightarrow> int
   \<Rightarrow> datetime option \<Rightarrow> (warmup_result, 's) act" where
  "warm m sink source spec_option s timeframe_minutes now st =
     (case spec_option of
        None \<Rightarrow> (Inr \<lparr>wr_status = SKIPPED_EMPTY, wr_candles_replayed = 0\<rparr>, st)
      | Some spec \<Rightarrow>
          if spec_is_empty spec then (Inr \<lparr>wr_status = SKIPPED_EMPTY, wr_candles_replayed = 0\<rparr>, st)
          else if ws_has_session_local spec then (Inr \<lparr>wr_status = SKIPPED_SESSION_LOCAL, wr_candles_replayed = 0\<rparr>, st)
          else if ws_requires_volume spec then (Inr \<lparr>wr_status = SKIPPED_VOLUME, wr_candles_replayed = 0\<rparr>, st)
          else case lookback_sessions m spec s timeframe_minutes of
            Inl e \<Rightarrow> (Inl e, st)
          | Inr lookback \<Rightarrow>
              (case wm_fetch_fn m source s timeframe_minutes lookback now of
                 Inl _ \<Rightarrow> (Inr \<lparr>wr_status = COLD_START, wr_candles_replayed = 0\<rparr>, st)
               | Inr candles \<Rightarrow>
                   if candles = [] then (Inr \<lparr>wr_status = COLD_START, wr_candles_replayed = 0\<rparr>, st)
                   else case replay_candles sink 0 candles st of
                     (False, replayed, st1) \<Rightarrow> (Inr \<lparr>wr_status = PARTIAL, wr_candles_replayed = replayed\<rparr>, st1)
                   | (True, replayed, st1) \<Rightarrow>
                       (case now of
                          None \<Rightarrow> (Inr \<lparr>wr_status = PARTIAL, wr_candles_replayed = replayed\<rparr>, st1)
                        | Some n \<Rightarrow>
                            (bindE (verify m spec s timeframe_minutes n candles) (\<lambda>status.
                             Inr \<lparr>wr_status = status, wr_candles_replayed = replayed\<rparr>), st1))))"

section \<open>The grid of a session\<close>

text \<open>
  The reference: the instant starts a bucket of the session when, on the session's clock, it is a whole number of intervals
  after midnight of a trading day and the interval it starts lies within the session.
\<close>

definition day_at :: "market_session \<Rightarrow> int \<Rightarrow> day" where
  "day_at s i = (i + ms_tz s) div day_us"

definition bucket_at :: "market_session \<Rightarrow> int \<Rightarrow> int \<Rightarrow> bool" where
  "bucket_at s tf i =
     (let t = (i + ms_tz s) mod day_us in
      trading_day s (day_at s i) \<and> t mod (tf * minute) = 0 \<and> ms_start s \<le> t \<and> t + tf * minute \<le> ms_square_off s)"

definition whole_session :: "market_session \<Rightarrow> bool" where
  "whole_session s =
     (0 \<le> ms_start s \<and> ms_square_off s < day_us \<and> ms_start s mod second = 0 \<and> ms_square_off s mod second = 0)"

lemma field_bounds: "field b x = Some k \<Longrightarrow> 0 \<le> k \<and> k < int b"
  by (auto simp: field_def split: if_splits)

lemma time_of_whole:
  assumes "0 \<le> h" "h < 24" "0 \<le> m" "m < 60" "0 \<le> c" "c < 60"
  shows "0 \<le> time_of h m c \<and> time_of h m c < day_us \<and> time_of h m c mod second = 0"
proof -
  have "time_of h m c = (h * 3600 + m * 60 + c) * second"
    by (simp add: time_of_def hour_def minute_def second_def algebra_simps)
  then show ?thesis using assms by (simp add: second_def day_us_def)
qed

lemma parse_hhmm_whole: "parse_hhmm v = Inr t \<Longrightarrow> 0 \<le> t \<and> t < day_us \<and> t mod second = 0"
  by (auto simp: parse_hhmm_def dest!: field_bounds intro!: time_of_whole[THEN conjunct1] time_of_whole[THEN conjunct2, THEN conjunct1]
      time_of_whole[THEN conjunct2, THEN conjunct2] split: list.splits option.splits)

lemma new_session_whole: "new_market_session cfg = Inr s \<Longrightarrow> whole_session s"
  by (auto simp: new_market_session_def whole_session_def bindE_Inr dest!: parse_hhmm_whole)

lemma int_le_div_iff: "0 < n \<Longrightarrow> k \<le> x div n \<longleftrightarrow> k * n \<le> x" for k x n :: int
proof
  assume n: "0 < n" and "k \<le> x div n"
  then have "k * n \<le> (x div n) * n" by (simp add: mult_right_mono)
  also have "\<dots> \<le> x" using n by (simp add: minus_mod_eq_div_mult [symmetric])
  finally show "k * n \<le> x" .
next
  assume n: "0 < n" and "k * n \<le> x"
  then have "k * n div n \<le> x div n" by (intro zdiv_mono1)
  then show "k \<le> x div n" using n by simp
qed

lemma offsets_spec:
  assumes "0 < tf"
  shows "\<exists>os. session_bucket_offsets s tf = Inr os \<and> sorted_wrt (<) os
    \<and> set os = {x. x mod (tf * 60) = 0 \<and> ms_start s div second \<le> x \<and> x + tf * 60 \<le> ms_square_off s div second}"
proof -
  define n where "n = tf * 60"
  define a where "a = ms_start s div second"
  define b where "b = ms_square_off s div second - n"
  define f where "f = ((a + n - 1) div n) * n"
  have n: "0 < n" using assms by (simp add: n_def)
  have fm: "f mod n = 0" by (simp add: f_def)
  have dm: "(a + n - 1) div n * n + (a + n - 1) mod n = a + n - 1" by (rule div_mult_mod_eq)
  have mb: "0 \<le> (a + n - 1) mod n" "(a + n - 1) mod n < n" using n by simp_all
  have fa: "a \<le> f" "f < a + n" using dm mb unfolding f_def by linarith+
  have above: "\<exists>k. x = f + int k * n" if "x mod n = 0" "a \<le> x" for x
  proof -
    have d: "n dvd x - f" using that(1) fm by (simp add: mod_0_imp_dvd)
    then obtain j where j: "x - f = n * j" by blast
    have "- n < n * j" using j that(2) fa by linarith
    then have "- 1 < j" using n by (metis mult_less_cancel_left_pos mult_minus1_right)
    then show ?thesis using j by (intro exI [of _ "nat j"]) (simp add: algebra_simps)
  qed
  show ?thesis
  proof (cases "b < f")
    case True
    have "x < f" if "a \<le> x" "x + n \<le> ms_square_off s div second" "x mod n = 0" for x
      using that True by (simp add: b_def)
    moreover have "f \<le> x" if "a \<le> x" "x mod n = 0" for x using above [OF that(2,1)] n by auto
    ultimately have "{x. x mod n = 0 \<and> a \<le> x \<and> x + n \<le> ms_square_off s div second} = {}" by force
    then show ?thesis using True assms
      by (intro exI [of _ "[]"]) (simp add: session_bucket_offsets_def Let_def n_def a_def b_def f_def)
  next
    case False
    define k where "k = nat ((b - f) div n + 1)"
    define os where "os = map (\<lambda>j. f + int j * n) [0..<k]"
    have ret: "session_bucket_offsets s tf = Inr os"
      using False assms by (simp add: session_bucket_offsets_def Let_def n_def a_def b_def f_def os_def k_def)
    have sorted: "sorted_wrt (<) os"
      using n by (simp add: os_def sorted_wrt_map sorted_wrt_upt strict_mono_def [symmetric] sorted_wrt_iff_nth_less)
    have jk: "j < k \<longleftrightarrow> f + int j * n \<le> b" for j
    proof -
      have "j < k \<longleftrightarrow> int j \<le> (b - f) div n" by (auto simp: k_def)
      also have "\<dots> \<longleftrightarrow> int j * n \<le> b - f" using n by (rule int_le_div_iff)
      finally show ?thesis by auto
    qed
    have e1: "x \<in> set os \<longleftrightarrow> (\<exists>j. x = f + int j * n) \<and> x \<le> b" for x
    proof -
      have "x \<in> set os \<longleftrightarrow> (\<exists>j. j < k \<and> x = f + int j * n)" unfolding os_def set_map set_upt by fastforce
      then show ?thesis using jk by metis
    qed
    have e2: "(\<exists>j. x = f + int j * n) \<longleftrightarrow> x mod n = 0 \<and> a \<le> x" for x
    proof
      assume "\<exists>j. x = f + int j * n"
      then obtain j where x: "x = f + int j * n" by blast
      have "0 \<le> int j * n" using n by simp
      then have "a \<le> x" using fa x by linarith
      then show "x mod n = 0 \<and> a \<le> x" using fm x by simp
    next
      assume h: "x mod n = 0 \<and> a \<le> x"
      show "\<exists>j. x = f + int j * n" by (rule above) (use h in simp_all)
    qed
    have e3: "x \<le> b \<longleftrightarrow> x + n \<le> ms_square_off s div second" for x by (auto simp: b_def)
    have "set os = {x. x mod n = 0 \<and> a \<le> x \<and> x + n \<le> ms_square_off s div second}"
      by (intro set_eqI) (simp only: e1 e2 e3 mem_Collect_eq conj_assoc)
    then show ?thesis using ret sorted unfolding n_def [symmetric] a_def [symmetric] by (intro exI [of _ os]) simp
  qed
qed

lemma bucket_day_time:
  assumes "whole_session s" "0 < tf" "bucket_at s tf i"
  shows "(i + ms_tz s) mod day_us + tf * minute < day_us" "i + tf * minute + ms_tz s < (day_at s i + 1) * day_us"
proof -
  show a: "(i + ms_tz s) mod day_us + tf * minute < day_us"
    using assms by (simp add: bucket_at_def whole_session_def Let_def)
  have "day_at s i * day_us + (i + ms_tz s) mod day_us = i + ms_tz s"
    unfolding day_at_def by (rule div_mult_mod_eq)
  then show "i + tf * minute + ms_tz s < (day_at s i + 1) * day_us" using a by (simp add: algebra_simps)
qed

lemma instant_combine: "instant (combine d t z) = d * day_us + t - z"
  by (simp add: combine_def instant_def)

lemma instant_combine_add: "instant (dt_add (combine d 0 z) x) = d * day_us + x - z"
  by (simp add: instant_combine)

lemma starts_spec:
  assumes "whole_session s" "0 < tf"
  shows "\<exists>bs. session_bucket_starts s d tf = Inr bs \<and> sorted_wrt (<) (map instant bs)
    \<and> instant ` set bs = {i. bucket_at s tf i \<and> day_at s i = d} \<and> (\<forall>b\<in>set bs. utcoffset b = Some (ms_tz s))"
proof (cases "trading_day s d")
  case False
  then have "session_bucket_starts s d tf = Inr []" by (simp add: session_bucket_starts_def is_trading_day_probe)
  moreover have "{i. bucket_at s tf i \<and> day_at s i = d} = {}" using False by (auto simp: bucket_at_def Let_def)
  ultimately show ?thesis by simp
next
  case True
  from offsets_spec [OF assms(2), of s] obtain os where os: "session_bucket_offsets s tf = Inr os" "sorted_wrt (<) os"
    "set os = {x. x mod (tf * 60) = 0 \<and> ms_start s div second \<le> x \<and> x + tf * 60 \<le> ms_square_off s div second}" by blast
  define bs where "bs = map (\<lambda>x. dt_add (combine d 0 (ms_tz s)) (x * second)) os"
  have i: "map instant bs = map (\<lambda>x. d * day_us + x * second - ms_tz s) os"
    unfolding bs_def map_map o_def instant_combine_add ..
  have "sorted_wrt (<) (map instant bs)" unfolding i sorted_wrt_map
    using os(2) by (rule sorted_wrt_mono_rel [rotated]) (simp add: second_def)
  moreover have "instant ` set bs = {i. bucket_at s tf i \<and> day_at s i = d}"
  proof -
    have ws: "0 \<le> ms_start s" "ms_square_off s < day_us" "ms_start s = (ms_start s div second) * second"
      "ms_square_off s = (ms_square_off s div second) * second"
      using assms(1) by (simp_all add: whole_session_def minus_mod_eq_div_mult [symmetric])
    have m: "tf * minute = (tf * 60) * second" by (simp add: minute_def second_def)
    have mult: "(x * second) mod (tf * minute) = 0 \<longleftrightarrow> x mod (tf * 60) = 0" for x
      unfolding m mult_mod_left [symmetric] by (simp add: second_def)
    show ?thesis
    proof (intro set_eqI iffI)
      fix i assume "i \<in> instant ` set bs"
      then obtain x where x: "x \<in> set os" "i = d * day_us + x * second - ms_tz s"
        by (auto simp: bs_def instant_combine algebra_simps)
      have o1: "x mod (tf * 60) = 0" "ms_start s div second \<le> x" "x + tf * 60 \<le> ms_square_off s div second"
        using x(1) os(3) by auto
      have lo: "ms_start s \<le> x * second" using o1(2) ws(3) by (metis mult_right_mono second_def zero_le_numeral)
      have hi: "x * second + tf * minute \<le> ms_square_off s" using o1(3) ws(4) unfolding m
        by (metis distrib_right mult_right_mono second_def zero_le_numeral)
      have t: "0 \<le> x * second" "x * second < day_us" using lo hi ws(1,2) assms(2) by (auto simp: minute_def)
      have L: "i + ms_tz s = d * day_us + x * second" using x(2) by simp
      have "(i + ms_tz s) div day_us = d" "(i + ms_tz s) mod day_us = x * second"
        unfolding L using t by (simp_all add: day_us_def)
      then show "i \<in> {i. bucket_at s tf i \<and> day_at s i = d}"
        using True lo hi o1(1) mult [of x] by (simp add: bucket_at_def day_at_def Let_def)
    next
      fix i assume i: "i \<in> {i. bucket_at s tf i \<and> day_at s i = d}"
      define t where "t = (i + ms_tz s) mod day_us"
      have b: "t mod (tf * minute) = 0" "ms_start s \<le> t" "t + tf * minute \<le> ms_square_off s" "d * day_us + t = i + ms_tz s"
        using i by (auto simp: bucket_at_def day_at_def Let_def t_def)
      from b(1) obtain q where "t = (tf * minute) * q" by blast
      then obtain x where x: "t = x * second" unfolding m by (metis mult.assoc mult.commute)
      have "x mod (tf * 60) = 0" using b(1) mult [of x] x by simp
      moreover have "ms_start s div second \<le> x" using b(2) ws(3) x by (simp add: second_def)
      moreover have "x + tf * 60 \<le> ms_square_off s div second" using b(3) ws(4) x unfolding m by (simp add: second_def)
      ultimately have "x \<in> set os" using os(3) by simp
      moreover have "i = instant (dt_add (combine d 0 (ms_tz s)) (x * second))" using b(4) x unfolding instant_combine_add by linarith
      ultimately show "i \<in> instant ` set bs" unfolding bs_def set_map image_image by blast
    qed
  qed
  moreover have "session_bucket_starts s d tf = Inr bs"
    using True os(1) by (simp add: session_bucket_starts_def is_trading_day_probe bs_def)
  ultimately show ?thesis by (intro exI [of _ bs]) (auto simp: bs_def dt_add_def combine_def)
qed

lemma day_at_earlier:
  assumes "whole_session s" "0 < tf" "bucket_at s tf i" "day_at s i < day_at s n"
  shows "i + tf * minute \<le> n"
proof -
  have "(day_at s i + 1) * day_us \<le> day_at s n * day_us" using assms(4) by (simp add: day_us_def)
  moreover have "day_at s n * day_us \<le> n + ms_tz s"
    by (simp add: day_at_def minus_mod_eq_div_mult [symmetric] day_us_def)
  ultimately show ?thesis using bucket_day_time(2) [OF assms(1-3)] by linarith
qed

lemma day_at_mono: "i \<le> j \<Longrightarrow> day_at s i \<le> day_at s j"
  by (simp add: day_at_def zdiv_mono1 day_us_def)

lemma day_at_astimezone: "dt_date (astimezone (ms_tz s) m) = day_at s (instant m)"
  by (simp add: dt_date_def astimezone_def day_at_def)

text \<open>The last trading day before a day, or the end of the walk: no trading day is skipped.\<close>

lemma prior_day_skips_none:
  assumes "prior_trading_day s d 1 = Inr r"
  shows "r < d" "\<And>x. r < x \<Longrightarrow> x < d \<Longrightarrow> \<not> trading_day s x"
proof -
  from walk_back_spec [of 1 s "nat (1 * 5 + 14)" d] obtain k where
    k: "r = d - int k" "trading_day s r \<and> trading_days_from s r k = 1 \<or> k = 19 \<and> trading_days_from s r k < 1"
    using assms unfolding prior_trading_day_def by auto
  then have k0: "k \<noteq> 0" by (cases k) (auto simp: trading_days_from_def)
  then show "r < d" using k by simp
  have up: "[0..<k] = 0 # [1..<k]" using k0 by (simp add: upt_conv_Cons)
  have "filter (trading_day s) (map (\<lambda>i. r + int i) [1..<k]) = []"
    using k(2) unfolding trading_days_from_def up by (auto simp: filter_map split: if_splits)
  then have none: "\<not> trading_day s (r + int i)" if "0 < i" "i < k" for i using that by (auto simp: filter_empty_conv)
  show "\<not> trading_day s x" if "r < x" "x < d" for x
    using none [of "nat (x - r)"] that k(1) by simp
qed

text \<open>A list of bucket starts that are all the session has from a day on, up to a limit.\<close>

definition covers :: "market_session \<Rightarrow> int \<Rightarrow> int \<Rightarrow> day \<Rightarrow> datetime list \<Rightarrow> bool" where
  "covers s tf limit d bs =
     (sorted_wrt (<) (map instant bs) \<and> instant ` set bs = {i. bucket_at s tf i \<and> d \<le> day_at s i \<and> i \<le> limit}
      \<and> (\<forall>i. bucket_at s tf i \<longrightarrow> day_at s i < d \<longrightarrow> i \<le> limit))"

lemma covers_step:
  assumes "whole_session s" "0 < tf" "covers s tf limit d acc" "prior_trading_day s d 1 = Inr d1"
  shows "\<exists>bs. session_bucket_starts s d1 tf = Inr bs \<and> covers s tf limit d1 (bs @ acc)"
proof -
  from starts_spec [OF assms(1,2), of d1] obtain bs where bs: "session_bucket_starts s d1 tf = Inr bs"
    "sorted_wrt (<) (map instant bs)" "instant ` set bs = {i. bucket_at s tf i \<and> day_at s i = d1}" by blast
  note p = prior_day_skips_none [OF assms(4)]
  have c: "sorted_wrt (<) (map instant acc)" "instant ` set acc = {i. bucket_at s tf i \<and> d \<le> day_at s i \<and> i \<le> limit}"
    "\<And>i. bucket_at s tf i \<Longrightarrow> day_at s i < d \<Longrightarrow> i \<le> limit"
    using assms(3) by (auto simp: covers_def)
  have days: "d1 \<le> day_at s i \<longleftrightarrow> day_at s i = d1 \<or> d \<le> day_at s i" if "bucket_at s tf i" for i
  proof -
    have "\<not> (d1 < day_at s i \<and> day_at s i < d)" using p(2) that by (auto simp: bucket_at_def Let_def)
    then show ?thesis using p(1) by arith
  qed
  have "instant ` set (bs @ acc) = {i. bucket_at s tf i \<and> d1 \<le> day_at s i \<and> i \<le> limit}"
    unfolding set_append image_Un bs(3) c(2) using days c(3) p(1) by auto
  moreover have "x < y" if "x \<in> instant ` set bs" "y \<in> instant ` set acc" for x y
  proof (rule ccontr)
    assume "\<not> x < y"
    then have "day_at s y \<le> day_at s x" by (intro day_at_mono) simp
    then show False using that p(1) unfolding bs(3) c(2) by auto
  qed
  then have "sorted_wrt (<) (map instant (bs @ acc))" using bs(2) c(1) by (auto simp: sorted_wrt_append)
  ultimately have "covers s tf limit d1 (bs @ acc)" using c(3) p(1) by (auto simp: covers_def)
  then show ?thesis using bs(1) by blast
qed

lemma walk_covers:
  assumes "whole_session s" "0 < tf" "covers s tf limit d acc" "walk_buckets s tf n budget d acc = Inr (Some out)"
  shows "\<exists>d1. covers s tf limit d1 out \<and> n \<le> int (length out)"
  using assms(3,4)
proof (induction budget arbitrary: d acc)
  case 0
  then show ?case by (auto split: if_splits)
next
  case (Suc budget)
  show ?case
  proof (cases "int (length acc) < n")
    case True
    then obtain d1 bs where d1: "prior_trading_day s d 1 = Inr d1" "session_bucket_starts s d1 tf = Inr bs"
      "walk_buckets s tf n budget d1 (bs @ acc) = Inr (Some out)"
      using Suc.prems(2) by (auto simp: bindE_Inr)
    then show ?thesis using covers_step [OF assms(1,2) Suc.prems(1) d1(1)] Suc.IH [of d1 "bs @ acc"] by auto
  next
    case False
    then show ?thesis using Suc.prems by auto
  qed
qed

lemma floor_on_grid:
  assumes "wall m = d * day_us + t" "0 \<le> t" "t < day_us" "t mod (tf * minute) = 0" "0 < tf"
  shows "floor_to_interval m (tf * 60) = Inr m"
proof -
  obtain q where q: "t = (tf * minute) * q" using assms(4) by blast
  have w: "tf * minute = (tf * 60) * second" by (simp add: minute_def second_def)
  have d: "dt_date m = d" using assms(1-3) by (simp add: dt_date_def)
  have "t div second = (tf * 60) * q" unfolding q w by (simp add: second_def)
  then have "t div second div (tf * 60) * (tf * 60) * second = t" using assms(5) by (simp add: q w algebra_simps second_def minute_def)
  then show ?thesis using assms d by (cases m) (simp add: floor_to_interval_def Let_def)
qed

lemma completed_iff:
  assumes "whole_session s" "0 < tf" "bucket_at s tf i" "utcoffset now = Some (ms_tz s)" "floor_to_interval now (tf * 60) = Inr f"
  shows "i + tf * minute \<le> instant now \<longleftrightarrow> i \<le> instant f - tf * minute"
proof
  define m where "m = DT (i + tf * minute + ms_tz s) (Some (ms_tz s))"
  define t where "t = (i + ms_tz s) mod day_us + tf * minute"
  have dm: "day_at s i * day_us + (i + ms_tz s) mod day_us = i + ms_tz s"
    unfolding day_at_def by (rule div_mult_mod_eq)
  have w: "wall m = day_at s i * day_us + t" using dm by (simp add: m_def t_def)
  have "0 \<le> (i + ms_tz s) mod day_us" by (simp add: day_us_def)
  then have t: "0 \<le> t" "t < day_us" using bucket_day_time(1) [OF assms(1-3)] assms(2) by (auto simp: t_def minute_def)
  have "t mod (tf * minute) = 0" using assms(3) by (simp add: t_def bucket_at_def Let_def)
  then have fm: "floor_to_interval m (tf * 60) = Inr m" using floor_on_grid [OF w t _ assms(2)] by simp
  have inst: "wall now = instant now + ms_tz s" "wall f = instant f + ms_tz s"
    using assms(4) floor_to_interval_Inr(2) [OF assms(5)] by (simp_all add: instant_def)
  {
    assume "i + tf * minute \<le> instant now"
    then have "wall m \<le> wall now" using inst by (simp add: m_def)
    then have "wall m \<le> wall f" by (rule floor_to_interval_mono [OF fm assms(5)])
    then show "i \<le> instant f - tf * minute" using inst by (simp add: m_def)
  }
  assume "i \<le> instant f - tf * minute"
  then show "i + tf * minute \<le> instant now" using inst floor_to_interval_Inr(3) [OF assms(5)] by linarith
qed

lemma increasing_ends:
  assumes "sorted_wrt (<) (map instant bs)" "b \<in> set bs"
  shows "instant (hd bs) \<le> instant b" "instant b \<le> instant (last bs)"
proof -
  from assms show "instant (hd bs) \<le> instant b" by (cases bs) auto
  from assms show "instant b \<le> instant (last bs)" by (induction bs) (auto intro: less_imp_le)
qed

lemma boundary_covers:
  assumes "whole_session s" "0 < tf" "utcoffset now = Some (ms_tz s)"
    and "required_latest_boundary s tf now = Inr (rd, rl)" "session_bucket_starts s rd tf = Inr bs"
  shows "covers s tf (instant now - tf * minute) rd (filter (\<lambda>b. b \<le> rl) bs)"
proof -
  define today where "today = day_at s (instant now)"
  have aw: "aware now" using assms(3) by (simp add: aware_def)
  obtain f where f: "floor_to_interval now (tf * 60) = Inr f" using floor_to_interval_returns [of "tf * 60" now] assms(2) by auto
  define cand where "cand = dt_add f (- (tf * minute))"
  have compl: "i \<le> instant now - tf * minute \<longleftrightarrow> i \<le> instant cand" if "bucket_at s tf i" for i
    using completed_iff [OF assms(1,2) that assms(3) f] by (auto simp: cand_def)
  have earlier: "i \<le> instant now - tf * minute" if "bucket_at s tf i" "day_at s i < today" for i
    using day_at_earlier [OF assms(1,2) that(1)] that(2) by (force simp: today_def)
  have later: "day_at s i \<le> today" if "i \<le> instant now - tf * minute" for i
    using day_at_mono [of i "instant now" s] that assms(2) by (simp add: today_def minute_def)
  from starts_spec [OF assms(1,2), of rd] assms(5) have bs: "sorted_wrt (<) (map instant bs)"
    "instant ` set bs = {i. bucket_at s tf i \<and> day_at s i = rd}" by auto
  have sorted: "sorted_wrt (<) (map instant (filter P bs))" for P
    using bs(1) by (simp add: sorted_wrt_map sorted_wrt_filter)
  from starts_spec [OF assms(1,2), of today] obtain ts where ts: "session_bucket_starts s today tf = Inr ts"
    "sorted_wrt (<) (map instant ts)" "instant ` set ts = {i. bucket_at s tf i \<and> day_at s i = today}" by blast
  have trading: "is_trading_day s now = Inr (trading_day s today)" "local_date_in now (ms_tz s) = Inr today"
    using aw by (simp_all add: is_trading_day_def local_of_def day_at_astimezone today_def)
  show ?thesis
  proof (cases "trading_day s today \<and> ts \<noteq> [] \<and> hd ts \<le> cand")
    case True
    then have r: "rd = today" "rl = (if last ts < cand then last ts else cand)"
      using assms(4) trading ts(1) f by (auto simp: required_latest_boundary_def Let_def cand_def)
    have bt: "bs = ts" using r(1) assms(5) ts(1) by simp
    have "instant b \<le> instant (last ts)" if "b \<in> set ts" for b using increasing_ends(2) ts(2) that by blast
    then have le: "b \<le> rl \<longleftrightarrow> instant b \<le> instant cand" if "b \<in> set ts" for b
      using that unfolding r(2) by (auto simp: datetime_order intro: order.trans less_imp_le)
    have "instant ` set (filter (\<lambda>b. b \<le> rl) bs) = {i. bucket_at s tf i \<and> rd \<le> day_at s i \<and> i \<le> instant now - tf * minute}"
      unfolding bt r(1) using ts(3) le compl later by (auto simp: image_iff set_eq_iff) (metis order.antisym)+
    then show ?thesis using sorted earlier r(1) by (auto simp: covers_def)
  next
    case False
    then have "bindE (prior_trading_day s today 1) (\<lambda>d. bindE (session_bucket_starts s d tf) (\<lambda>bs.
        if bs = [] then Inl IndexError else Inr (d, last bs))) = Inr (rd, rl)"
      using assms(4) trading ts(1) f by (auto simp: required_latest_boundary_def Let_def cand_def split: if_splits)
    then have r: "prior_trading_day s today 1 = Inr rd" "bs \<noteq> []" "rl = last bs"
      using assms(5) by (auto simp: bindE_Inr split: if_splits)
    note p = prior_day_skips_none [OF r(1)]
    have "b \<le> rl" if "b \<in> set bs" for b using increasing_ends(2) [OF bs(1) that] r(3) by (simp add: datetime_order)
    then have all: "filter (\<lambda>b. b \<le> rl) bs = bs" by (simp add: filter_True)
    have none: "\<not> (bucket_at s tf i \<and> day_at s i = today \<and> i \<le> instant now - tf * minute)" for i
    proof
      assume h: "bucket_at s tf i \<and> day_at s i = today \<and> i \<le> instant now - tf * minute"
      then have "i \<in> instant ` set ts" using ts(3) by simp
      then obtain b where b: "b \<in> set ts" "i = instant b" by blast
      then have "hd ts \<le> cand" using increasing_ends(1) [OF ts(2) b(1)] compl [of i] h by (auto simp: datetime_order)
      moreover have "trading_day s today" using h by (auto simp: bucket_at_def Let_def)
      ultimately show False using False b(1) by auto
    qed
    have "day_at s i = rd" if "bucket_at s tf i" "rd \<le> day_at s i" "i \<le> instant now - tf * minute" for i
    proof -
      have "trading_day s (day_at s i)" using that(1) by (simp add: bucket_at_def Let_def)
      then have "\<not> (rd < day_at s i \<and> day_at s i < today)" using p(2) by blast
      moreover have "day_at s i \<noteq> today" using none [of i] that by blast
      ultimately show ?thesis using later [OF that(3)] that(2) by arith
    qed
    then have "instant ` set bs = {i. bucket_at s tf i \<and> rd \<le> day_at s i \<and> i \<le> instant now - tf * minute}"
      unfolding bs(2) using earlier p(1) by auto
    then show ?thesis using bs(1) earlier p(1) unfolding all by (auto simp: covers_def)
  qed
qed

text \<open>The last entries of what covers the session up to the moment are all completed buckets from the first of them on.\<close>

lemma covers_drop:
  assumes "covers s tf limit d out" "k < length out" "E = drop k out"
  shows "sorted_wrt (<) (map instant E)"
    "instant ` set E = {i. bucket_at s tf i \<and> i \<le> limit \<and> instant (hd E) \<le> i}"
proof -
  have c: "sorted_wrt (<) (map instant out)" "instant ` set out = {i. bucket_at s tf i \<and> d \<le> day_at s i \<and> i \<le> limit}"
    using assms(1) by (auto simp: covers_def)
  have ne: "E \<noteq> []" using assms(2,3) by simp
  then have hd: "hd E \<in> set out" using hd_in_set [of E] set_drop_subset [of k out] assms(3) by blast
  have "sorted_wrt (<) (map instant (take k out @ E))" using c(1) by (simp only: assms(3) append_take_drop_id)
  then have sp: "sorted_wrt (<) (map instant E)" "\<And>x y. x \<in> set (take k out) \<Longrightarrow> y \<in> set E \<Longrightarrow> instant x < instant y"
    by (auto simp: sorted_wrt_append)
  show "sorted_wrt (<) (map instant E)" by (rule sp(1))
  show "instant ` set E = {i. bucket_at s tf i \<and> i \<le> limit \<and> instant (hd E) \<le> i}"
  proof (intro set_eqI iffI)
    fix i assume "i \<in> instant ` set E"
    moreover have "set E \<subseteq> set out" by (simp add: assms(3) set_drop_subset)
    ultimately have "i \<in> instant ` set out" "i \<in> instant ` set E" by blast+
    then show "i \<in> {i. bucket_at s tf i \<and> i \<le> limit \<and> instant (hd E) \<le> i}"
      using increasing_ends(1) [OF sp(1)] unfolding c(2) by auto
  next
    fix i assume i: "i \<in> {i. bucket_at s tf i \<and> i \<le> limit \<and> instant (hd E) \<le> i}"
    have "instant (hd E) \<in> instant ` set out" using hd by blast
    then have "d \<le> day_at s (instant (hd E))" unfolding c(2) by simp
    also have "\<dots> \<le> day_at s i" using i by (intro day_at_mono) simp
    finally have "i \<in> instant ` set out" using i unfolding c(2) by simp
    then obtain b where b: "b \<in> set out" "i = instant b" by blast
    have "b \<notin> set (take k out)" using sp(2) [of b "hd E"] ne i b(2) by auto
    moreover have "set out = set (take k out) \<union> set E" by (metis assms(3) append_take_drop_id set_append)
    ultimately have "b \<in> set E" using b(1) by blast
    then show "i \<in> instant ` set E" using b(2) by blast
  qed
qed

lemma expected_latest:
  assumes "whole_session s" "0 < tf" "utcoffset now = Some (ms_tz s)" "0 < ws_min_bars spec"
    and "expected_recent_buckets m spec s tf now = Inr (Some E)"
  shows "int (length E) = ws_min_bars spec" "sorted_wrt (<) (map instant E)"
    "instant ` set E = {i. bucket_at s tf i \<and> i + tf * minute \<le> instant now \<and> instant (hd E) \<le> i}"
proof -
  obtain rd rl bs out where o: "required_latest_boundary s tf now = Inr (rd, rl)" "session_bucket_starts s rd tf = Inr bs"
    "walk_buckets s tf (ws_min_bars spec) (nat (wm_max_lookback_sessions m)) rd (filter (\<lambda>b. b \<le> rl) bs) = Inr (Some out)"
    "E = drop (length out - nat (ws_min_bars spec)) out"
    using assms(5) by (auto simp: expected_recent_buckets_def bindE_Inr split: prod.splits)
  from walk_covers [OF assms(1,2) boundary_covers [OF assms(1-3) o(1,2)] o(3)] obtain d where
    d: "covers s tf (instant now - tf * minute) d out" "ws_min_bars spec \<le> int (length out)" by blast
  have k: "length out - nat (ws_min_bars spec) < length out" using assms(4) d(2) by (simp add: diff_less)
  show "int (length E) = ws_min_bars spec" using d(2) assms(4) by (simp add: o(4))
  note c = covers_drop [OF d(1) k o(4)]
  show "sorted_wrt (<) (map instant E)" by (rule c(1))
  show "instant ` set E = {i. bucket_at s tf i \<and> i + tf * minute \<le> instant now \<and> instant (hd E) \<le> i}"
    unfolding c(2) by (auto simp: algebra_simps)
qed

section \<open>What the verification establishes\<close>

lemma applicable_bucket:
  assumes "whole_session s" "0 < tf" "is_applicable_session_bucket s a b tf = Inr True"
  shows "aware a \<and> bucket_at s tf (instant a) \<and> instant b = instant a + tf * minute"
proof -
  have aw: "aware a" using assms(3) by (cases "aware a") (auto simp: is_applicable_session_bucket_def)
  from starts_spec [OF assms(1,2), of "dt_date (astimezone (ms_tz s) a)"] assms(3) aw show ?thesis
    by (auto simp: is_applicable_session_bucket_def Let_def split: if_splits)
qed

lemma applicable_all_buckets:
  assumes "whole_session s" "0 < tf" "applicable_all s tf cs = Inr True" "c \<in> set cs"
  shows "aware (cd_start_at c) \<and> bucket_at s tf (instant (cd_start_at c))
    \<and> instant (cd_end_at c) = instant (cd_start_at c) + tf * minute"
  using assms(3,4) by (induction cs) (auto simp: bindE_Inr dest: applicable_bucket [OF assms(1,2)])

definition starts_on :: "market_session \<Rightarrow> day \<Rightarrow> candle list \<Rightarrow> datetime list" where
  "starts_on s d cs = filter (\<lambda>b. day_at s (instant b) = d) (map cd_start_at cs)"

lemma starts_by_day_spec:
  assumes "starts_by_day s cs acc = Inr out"
  shows "dict_get out d = (if starts_on s d cs = [] then dict_get acc d
    else Some ((case dict_get acc d of None \<Rightarrow> [] | Some xs \<Rightarrow> xs) @ starts_on s d cs))"
  using assms
proof (induction cs arbitrary: acc)
  case (Cons c cs)
  then show ?case
    by (auto simp: bindE_Inr local_date_Inr day_at_astimezone starts_on_def split: if_splits option.splits)
qed (simp add: starts_on_def)

lemma even_steps:
  assumes "\<not> uneven k xs" "x \<in> set xs" "y \<in> set xs" "0 < k" "instant x \<le> i" "i \<le> instant y" "(i - instant x) mod k = 0"
  shows "i \<in> instant ` set xs"
proof -
  have steps: "xs = [] \<or> map instant xs = map (\<lambda>j. instant (hd xs) + int j * k) [0..<length xs]"
    using assms(1)
  proof (induction k xs rule: uneven.induct)
    case (1 interval a b xs)
    then have "map instant (b # xs) = map (\<lambda>j. instant b + int j * interval) [0..<length (b # xs)]"
      "instant b = instant a + interval" by (auto simp: dt_diff_def)
    then show ?case
      by (simp add: upt_conv_Cons map_Suc_upt [symmetric] algebra_simps del: upt_Suc)
  qed simp_all
  then have set: "instant ` set xs = (\<lambda>j. instant (hd xs) + int j * k) ` {..<length xs}"
    using assms(2) by (metis atLeast0LessThan atLeastLessThan_upt empty_iff empty_set set_map)
  obtain p where p: "instant x = instant (hd xs) + int p * k" using set assms(2) by blast
  obtain q where q: "instant y = instant (hd xs) + int q * k" "q < length xs" using set assms(3) by blast
  obtain r where "i - instant x = k * r" using assms(7) by blast
  then have r: "i = instant (hd xs) + (int p + r) * k" using p by (simp add: algebra_simps)
  have "0 \<le> k * r" using \<open>i - instant x = k * r\<close> assms(5) by linarith
  then have r0: "0 \<le> r" using assms(4) by (simp add: zero_le_mult_iff)
  have "(int p + r) * k \<le> int q * k" using r q(1) assms(6) by linarith
  then have "int p + r \<le> int q" using assms(4) by simp
  then have "nat (int p + r) < length xs" using q(2) by linarith
  moreover have "i = instant (hd xs) + int (nat (int p + r)) * k" using r r0 by simp
  ultimately show ?thesis unfolding set by blast
qed

lemma no_gaps:
  assumes "whole_session s" "0 < tf" "has_internal_gaps cs s tf = Inr False" "c \<in> set cs" "c' \<in> set cs"
    and "bucket_at s tf (instant (cd_start_at c))" "bucket_at s tf i" "day_at s i = day_at s (instant (cd_start_at c))"
    and "day_at s (instant (cd_start_at c')) = day_at s i"
    and "instant (cd_start_at c) \<le> i" "i \<le> instant (cd_start_at c')"
  shows "i \<in> instant ` set (map cd_start_at cs)"
proof -
  obtain out where out: "starts_by_day s cs [] = Inr out"
    "\<not> list_ex (\<lambda>(_, ds). uneven (tf * minute) (sort_key instant ds)) out"
    using assms(3) by (auto simp: has_internal_gaps_def bindE_Inr)
  define xs where "xs = starts_on s (day_at s i) cs"
  have mem: "cd_start_at c \<in> set xs" "cd_start_at c' \<in> set xs" using assms(4,5,8,9) by (auto simp: xs_def starts_on_def)
  then have "dict_get out (day_at s i) = Some xs" using starts_by_day_spec [OF out(1), of "day_at s i"] by (auto simp: xs_def)
  then have "(day_at s i, xs) \<in> set out" by (rule map_of_SomeD)
  then have ev: "\<not> uneven (tf * minute) (sort_key instant xs)" using out(2) by (auto simp: list_ex_iff)
  have "(i - instant (cd_start_at c)) mod (tf * minute) = 0"
  proof -
    have "(i + ms_tz s) mod (tf * minute) = ((day_at s i * day_us) + (i + ms_tz s) mod day_us) mod (tf * minute)"
      "(instant (cd_start_at c) + ms_tz s) mod (tf * minute)
        = ((day_at s i * day_us) + (instant (cd_start_at c) + ms_tz s) mod day_us) mod (tf * minute)"
      by (simp_all add: assms(8) day_at_def div_mult_mod_eq) (metis assms(8) day_at_def div_mult_mod_eq)
    moreover have "((i + ms_tz s) mod day_us) mod (tf * minute) = 0"
      "((instant (cd_start_at c) + ms_tz s) mod day_us) mod (tf * minute) = 0"
      using assms(6,7) by (simp_all add: bucket_at_def Let_def)
    ultimately have "(i + ms_tz s) mod (tf * minute) = (instant (cd_start_at c) + ms_tz s) mod (tf * minute)"
      by (metis mod_add_right_eq)
    then have "(i + ms_tz s - (instant (cd_start_at c) + ms_tz s)) mod (tf * minute) = 0" by (metis mod_eq_dvd_iff dvd_imp_mod_0)
    then show ?thesis by simp
  qed
  then have "i \<in> instant ` set (sort_key instant xs)"
    using even_steps [OF ev, of "cd_start_at c" "cd_start_at c'" i] mem assms(2,10,11) by (simp add: minute_def)
  then show ?thesis by (auto simp: xs_def starts_on_def)
qed

definition complete_history ::
  "market_session \<Rightarrow> int \<Rightarrow> strategy_warmup_spec \<Rightarrow> datetime \<Rightarrow> candle list \<Rightarrow> bool" where
  "complete_history s tf spec now candles =
     (let starts = map (\<lambda>c. instant (cd_start_at c)) candles in
      (\<forall>c\<in>set candles. bucket_at s tf (instant (cd_start_at c))
         \<and> instant (cd_end_at c) = instant (cd_start_at c) + tf * minute)
      \<and> sorted_wrt (<) starts
      \<and> (\<forall>a\<in>set starts. \<forall>b\<in>set starts. \<forall>i. day_at s a = day_at s b \<longrightarrow> a \<le> i \<longrightarrow> i \<le> b \<longrightarrow> bucket_at s tf i \<longrightarrow> i \<in> set starts)
      \<and> (\<exists>w. let recent = {i. bucket_at s tf i \<and> i + tf * minute \<le> instant now \<and> w \<le> i} in
           recent \<subseteq> set starts \<and> int (card recent) = ws_min_bars spec))"

lemma verify_warmed:
  assumes "whole_session s" "0 < tf" "utcoffset now = Some (ms_tz s)" "0 < ws_min_bars spec"
    and "verify m spec s tf now candles = Inr WARMED"
  shows "complete_history s tf spec now candles"
proof -
  define starts where "starts = map (\<lambda>c. instant (cd_start_at c)) candles"
  have st: "map instant (map cd_start_at candles) = starts" by (simp add: starts_def)
  obtain E where E: "expected_recent_buckets m spec s tf now = Inr (Some E)" "applicable_all s tf candles = Inr True"
    "starts = sort starts" "distinct starts" "has_internal_gaps candles s tf = Inr False" "E \<noteq> []"
    "set (map instant (filter (\<lambda>b. hd E \<le> b \<and> b \<le> last E) (map cd_start_at candles))) = set (map instant E)"
    using assms(5) unfolding verify_def Let_def st
    by (auto simp: bindE_Inr split: option.splits if_splits)
  note a = applicable_all_buckets [OF assms(1,2) E(2)]
  note e = expected_latest [OF assms(1-4) E(1)]
  have sub: "set (map instant E) \<subseteq> set starts" unfolding E(7) [symmetric] by (auto simp: starts_def)
  have "sorted starts" using E(3) sorted_sort by metis
  then have inc: "sorted_wrt (<) starts" using E(4) by (simp add: strict_sorted_iff)
  have card: "card (set (map instant E)) = length E"
    using e(2) strict_sorted_iff [of "map instant E"] by (metis distinct_card length_map)
  have filled: "i \<in> set starts"
    if h: "x \<in> set starts" "y \<in> set starts" "day_at s x = day_at s y" "x \<le> i" "i \<le> y" "bucket_at s tf i" for x y i
  proof -
    obtain c c' where c: "c \<in> set candles" "x = instant (cd_start_at c)" "c' \<in> set candles" "y = instant (cd_start_at c')"
      using h(1,2) by (auto simp: starts_def)
    have "day_at s x \<le> day_at s i" "day_at s i \<le> day_at s y" using h(4,5) by (simp_all add: day_at_mono)
    then have "day_at s i = day_at s x" using h(3) by simp
    then have "i \<in> instant ` set (map cd_start_at candles)"
      using no_gaps [OF assms(1,2) E(5) c(1,3), of i] a [OF c(1)] h c(2,4) by simp
    then show ?thesis by (auto simp: starts_def)
  qed
  have recent: "{i. bucket_at s tf i \<and> i + tf * minute \<le> instant now \<and> instant (hd E) \<le> i} = set (map instant E)"
    using e(3) by simp
  have "set (map instant E) \<subseteq> set starts \<and> int (card (set (map instant E))) = ws_min_bars spec"
    using sub card e(1) by simp
  then have "\<exists>w. {i. bucket_at s tf i \<and> i + tf * minute \<le> instant now \<and> w \<le> i} \<subseteq> set starts
      \<and> int (card {i. bucket_at s tf i \<and> i + tf * minute \<le> instant now \<and> w \<le> i}) = ws_min_bars spec"
    by (intro exI [of _ "instant (hd E)"]) (simp only: recent)
  then show ?thesis using a inc filled unfolding complete_history_def Let_def starts_def [symmetric] by blast
qed

lemma replay_candles_all:
  "replay_candles sink n cs st = (True, k, st1) \<Longrightarrow> k = n + length cs \<and> st1 = fold (\<lambda>c st. snd (sink c st)) cs st"
proof (induction cs arbitrary: n st)
  case (Cons c cs)
  then show ?case by (fastforce split: prod.splits sum.splits)
qed simp

lemma warm_warmed:
  assumes "warm m sink source (Some spec) s tf (Some now) st = (Inr r, st1)" "wr_status r = WARMED"
  shows "\<exists>lookback candles. lookback_sessions m spec s tf = Inr lookback
    \<and> wm_fetch_fn m source s tf lookback (Some now) = Inr candles
    \<and> replay_candles sink 0 candles st = (True, wr_candles_replayed r, st1)
    \<and> verify m spec s tf now candles = Inr WARMED \<and> 0 < ws_min_bars spec"
proof -
  obtain lookback where l: "lookback_sessions m spec s tf = Inr lookback" "0 < ws_min_bars spec"
    using assms by (auto simp: warm_def spec_is_empty_def split: if_splits sum.splits)
  obtain candles where c: "wm_fetch_fn m source s tf lookback (Some now) = Inr candles"
    using assms l by (auto simp: warm_def spec_is_empty_def split: if_splits sum.splits)
  obtain b k st2 where rp: "replay_candles sink 0 candles st = (b, k, st2)" by (cases "replay_candles sink 0 candles st")
  show ?thesis using assms l c rp
    by (cases b) (auto simp: warm_def spec_is_empty_def bindE_Inr split: if_splits)
qed

text \<open>C36: when the manager says WARMED, every candle the fetch returned has been shown to the strategy in order, every one
  exactly fills a bucket of the session's grid, they increase strictly and leave out no bucket between two of one day, and
  the required number of most recent completed buckets at that moment, across weekends and holidays, are all among them.
\<close>

theorem warmed_history_is_complete:
  assumes "new_market_session cfg = Inr s" "0 < tf" "utcoffset now = Some (ms_tz s)"
    and "warm m sink source (Some spec) s tf (Some now) st = (Inr r, st1)" "wr_status r = WARMED"
  shows "\<exists>lookback candles. wm_fetch_fn m source s tf lookback (Some now) = Inr candles
    \<and> wr_candles_replayed r = length candles \<and> st1 = fold (\<lambda>c st. snd (sink c st)) candles st
    \<and> complete_history s tf spec now candles"
proof -
  from warm_warmed [OF assms(4,5)] obtain lookback candles where w: "wm_fetch_fn m source s tf lookback (Some now) = Inr candles"
    "replay_candles sink 0 candles st = (True, wr_candles_replayed r, st1)"
    "verify m spec s tf now candles = Inr WARMED" "0 < ws_min_bars spec" by blast
  show ?thesis
    using w(1) replay_candles_all [OF w(2)] verify_warmed [OF new_session_whole [OF assms(1)] assms(2,3) w(4,3)]
    by (intro exI [of _ lookback] exI [of _ candles]) simp
qed

definition day_session :: market_session where
  "day_session =
     \<lparr>ms_tz = ist, ms_start = time_of 9 15 0, ms_end = time_of 15 0 0, ms_square_off = time_of 15 20 0, ms_holidays = []\<rparr>"

definition hour_candle :: "int \<Rightarrow> candle" where
  "hour_candle h =
     \<lparr>cd_security_id = ''13'', cd_instrument = ''NIFTY'', cd_open = 10, cd_high = 12, cd_low = 9, cd_close = 11, cd_volume = 0,
      cd_start_at = combine 20668 (time_of h 0 0) ist, cd_end_at = combine 20668 (time_of (h + 1) 0 0) ist, cd_tick_count = 0,
      cd_last_tick_at = None, cd_spans_gap = False\<rparr>"

definition one_bar_spec :: strategy_warmup_spec where
  "one_bar_spec = \<lparr>ws_min_bars = 1, ws_requires_volume = False, ws_has_session_local = False, ws_continuity_required = True\<rparr>"

definition index_source :: warmup_source where
  "index_source = \<lparr>wo_security_id = ''13'', wo_exchange_segment = ''IDX_I'', wo_instrument_type = ''INDEX''\<rparr>"

definition fixed_manager :: "candle list \<Rightarrow> warmup_manager" where
  "fixed_manager cs = new_warmup_manager (\<lambda>_ _ _ _ _. Inr cs) 1"

definition count_sink :: "candle \<Rightarrow> (unit, nat) act" where
  "count_sink c n = (Inr (), n + 1)"

lemma warmed_history_is_complete_witness:
  "complete_history day_session 60 one_bar_spec (combine 20668 (time_of 12 30 0) ist) [hour_candle 10, hour_candle 11]"
proof -
  have h: "new_market_session \<lparr>sc_timezone = ist, sc_start_time = ''09:15'', sc_end_time = ''15:00'', sc_square_off_time = ''15:20'',
      sc_holidays = []\<rparr> = Inr day_session"
    "(0::int) < 60" "utcoffset (combine 20668 (time_of 12 30 0) ist) = Some (ms_tz day_session)"
    "warm (fixed_manager [hour_candle 10, hour_candle 11]) count_sink index_source (Some one_bar_spec) day_session 60
       (Some (combine 20668 (time_of 12 30 0) ist)) 0 = (Inr \<lparr>wr_status = WARMED, wr_candles_replayed = 2\<rparr>, 2)"
    "wr_status \<lparr>wr_status = WARMED, wr_candles_replayed = 2\<rparr> = WARMED"
    by code_simp+
  from warmed_history_is_complete [OF h] show ?thesis by (auto simp: fixed_manager_def new_warmup_manager_def)
qed

text \<open>A candle that is still forming, even one of the future, is no obstacle: only what comes up to the last required bucket is compared.\<close>

lemma forming_candle_is_trusted:
  "warm (fixed_manager [hour_candle 11, hour_candle 12, hour_candle 13]) count_sink index_source (Some one_bar_spec) day_session 60
     (Some (combine 20668 (time_of 12 30 0) ist)) 0 = (Inr \<lparr>wr_status = WARMED, wr_candles_replayed = 3\<rparr>, 3)"
  by code_simp

text \<open>A timeframe no bucket of which fits the session raises, where the caller expects a cold start.\<close>

lemma unfit_timeframe_raises:
  "warm (fixed_manager [hour_candle 11]) count_sink index_source (Some one_bar_spec) day_session 400
     (Some (combine 20668 (time_of 12 30 0) ist)) 0 = (Inl IndexError, 1)"
  by code_simp

end
