(* ===== verification/Warmup_History.thy ===== *)
theory Warmup_History
  imports Warmup Chart_Builder Scrip_Master Engine_Models
begin

text \<open>
  Where warm-up history comes from: the REST client of
  common/market\_data/dhan\_historical.py with its retries, and the parsing,
  aggregation and fetching of common/warmup/historical.py.  The HTTP call and
  the sleep are operations of a world; a response is its status and the JSON of
  its body, None for a body that is not JSON.
\<close>

section \<open>The client\<close>

record http_response =
  hr_status :: int
  hr_body :: "json option"

datatype http_outcome = Http_Error | Other_Error exn | Responded http_response

record historical_client =
  hc_client_id :: string
  hc_access_token :: string
  hc_max_attempts :: int
  hc_initial_backoff :: rat
  hc_backoff_multiplier :: rat

record 'w client_run =
  cr_request_count :: nat
  cr_world :: 'w

definition new_historical_client :: "string \<Rightarrow> string \<Rightarrow> int \<Rightarrow> rat \<Rightarrow> rat \<Rightarrow> historical_client result" where
  "new_historical_client client_id access_token max_attempts initial_backoff backoff_multiplier =
     bindE (check (client_id \<noteq> [] \<and> access_token \<noteq> []) ValueError) (\<lambda>_.
     Inr \<lparr>hc_client_id = client_id, hc_access_token = access_token, hc_max_attempts = max 1 max_attempts,
          hc_initial_backoff = initial_backoff, hc_backoff_multiplier = backoff_multiplier\<rparr>)"

definition safe_json :: "http_response \<Rightarrow> (string, json) dict" where
  "safe_json r = (case hr_body r of Some (JObj d) \<Rightarrow> d | _ \<Rightarrow> [])"

definition permanent_rejection_statuses :: "int list" where
  "permanent_rejection_statuses = [400, 401, 403]"

definition classify_response :: "http_response \<Rightarrow> (string, json) dict result" where
  "classify_response r =
     (if hr_status r = 200 then Inr (safe_json r)
      else if hr_status r \<in> set permanent_rejection_statuses then Inl HistoricalDataRejectedError
      else Inl HistoricalDataTransientError)"

definition strftime_seconds :: "datetime \<Rightarrow> string" where
  "strftime_seconds d =
     date_isoformat (dt_date d) @ '' '' @ pad_nat 2 (nat (dt_time d div hour)) @ '':''
       @ pad_nat 2 (nat (dt_time d mod hour div minute)) @ '':'' @ pad_nat 2 (nat (dt_time d mod minute div second))"

definition intraday_body :: "historical_client \<Rightarrow> warmup_source \<Rightarrow> datetime \<Rightarrow> datetime \<Rightarrow> int \<Rightarrow> (string, json) dict" where
  "intraday_body c source from_at to_at interval_minutes =
     [(''securityId'', JStr (wo_security_id source)), (''exchangeSegment'', JStr (wo_exchange_segment source)),
      (''instrument'', JStr (wo_instrument_type source)), (''interval'', JNum (of_int interval_minutes)),
      (''fromDate'', JStr (strftime_seconds from_at)), (''toDate'', JStr (strftime_seconds to_at)),
      (''dhanClientId'', JStr (hc_client_id c))]"

definition backoff_delay :: "historical_client \<Rightarrow> nat \<Rightarrow> rat" where
  "backoff_delay c k = hc_initial_backoff c * hc_backoff_multiplier c ^ (k - 1)"

text \<open>One attempt after another, the first argument counting those left after this one.\<close>

fun fetch_attempts ::
  "nat \<Rightarrow> historical_client \<Rightarrow> ('w \<Rightarrow> http_outcome \<times> 'w) \<Rightarrow> (rat \<Rightarrow> 'w \<Rightarrow> 'w) \<Rightarrow> nat
   \<Rightarrow> ((string, json) dict, 'w client_run) act" where
  "fetch_attempts left c post sleep attempt_no run =
     (case post (cr_world run) of
        (outcome, w) \<Rightarrow>
          let run1 = run\<lparr>cr_request_count := cr_request_count run + 1, cr_world := w\<rparr>;
              answer = (case outcome of
                          Http_Error \<Rightarrow> Inl HistoricalDataTransientError | Other_Error e \<Rightarrow> Inl e
                        | Responded r \<Rightarrow> classify_response r)
          in case answer of
               Inr body \<Rightarrow> (Inr body, run1)
             | Inl e \<Rightarrow>
                 if e \<noteq> HistoricalDataTransientError then (Inl e, run1)
                 else (case left of
                         0 \<Rightarrow> (Inl e, run1)
                       | Suc left1 \<Rightarrow>
                           fetch_attempts left1 c post sleep (attempt_no + 1)
                             (run1\<lparr>cr_world := sleep (backoff_delay c attempt_no) (cr_world run1)\<rparr>)))"

declare fetch_attempts.simps [simp del]

definition fetch_intraday ::
  "historical_client \<Rightarrow> ((string, json) dict \<Rightarrow> 'w \<Rightarrow> http_outcome \<times> 'w) \<Rightarrow> (rat \<Rightarrow> 'w \<Rightarrow> 'w) \<Rightarrow> warmup_source \<Rightarrow> datetime
   \<Rightarrow> datetime \<Rightarrow> int \<Rightarrow> ((string, json) dict, 'w client_run) act" where
  "fetch_intraday c post sleep source from_at to_at interval_minutes =
     fetch_attempts (nat (hc_max_attempts c) - 1) c (post (intraday_body c source from_at to_at interval_minutes)) sleep 1"

section \<open>Reading a response\<close>

definition get_or :: "(string, json) dict \<Rightarrow> string \<Rightarrow> json" where
  "get_or d key = (case dict_get d key of None \<Rightarrow> JArr [] | Some v \<Rightarrow> if as_bool v then v else JArr [])"

text \<open>len and subscription of a decoded value that ought to be an array.\<close>

definition column_len :: "json \<Rightarrow> nat result" where
  "column_len v =
     (case v of JArr xs \<Rightarrow> Inr (length xs) | JStr s \<Rightarrow> Inr (length s) | JObj kvs \<Rightarrow> Inr (length kvs) | _ \<Rightarrow> Inl TypeError)"

definition column_item :: "json \<Rightarrow> nat \<Rightarrow> json result" where
  "column_item v i =
     (case v of
        JArr xs \<Rightarrow> if i < length xs then Inr (xs ! i) else Inl IndexError
      | JStr s \<Rightarrow> if i < length s then Inr (JStr [s ! i]) else Inl IndexError
      | JObj _ \<Rightarrow> Inl KeyError
      | _ \<Rightarrow> Inl TypeError)"

definition float_of :: "py_conversions \<Rightarrow> json \<Rightarrow> rat result" where
  "float_of py v = (case as_float py v of None \<Rightarrow> Inl (conversion_error v) | Some q \<Rightarrow> Inr q)"

definition fromtimestamp :: "rat \<Rightarrow> tz \<Rightarrow> datetime result" where
  "fromtimestamp q z =
     (if q < - 9223372036854775808 \<or> 9223372036854775808 \<le> q then Inl OverflowError
      else if q < - 62135596800 \<or> 253402300800 \<le> q then Inl ValueError
      else Inr (DT (round_int (q * 1000000) + z) (Some z)))"

definition parse_row :: "py_conversions \<Rightarrow> tz \<Rightarrow> json \<Rightarrow> json \<Rightarrow> json \<Rightarrow> json \<Rightarrow> json \<Rightarrow> json \<Rightarrow> nat \<Rightarrow> candle result" where
  "parse_row py z stamps volumes opens highs lows closes i =
     bindE (bindE (column_item stamps i) (float_of py)) (\<lambda>stamp.
     bindE (fromtimestamp stamp z) (\<lambda>start.
     bindE (column_len volumes) (\<lambda>nv.
     bindE (if i < nv then bindE (column_item volumes i) (float_of py) else Inr 0) (\<lambda>volume.
     bindE (bindE (column_item opens i) (float_of py)) (\<lambda>op.
     bindE (bindE (column_item highs i) (float_of py)) (\<lambda>hi.
     bindE (bindE (column_item lows i) (float_of py)) (\<lambda>lo.
     bindE (bindE (column_item closes i) (float_of py)) (\<lambda>cl.
     new_candle
       \<lparr>cd_security_id = [], cd_instrument = [], cd_open = op, cd_high = hi, cd_low = lo, cd_close = cl,
        cd_volume = round_int volume, cd_start_at = start, cd_end_at = dt_add start minute, cd_tick_count = 0,
        cd_last_tick_at = None, cd_spans_gap = False\<rparr>))))))))"

fun parse_rows :: "(nat \<Rightarrow> candle result) \<Rightarrow> nat list \<Rightarrow> candle list result" where
  "parse_rows row [] = Inr []"
| "parse_rows row (i # is) =
     (case row i of
        Inl e \<Rightarrow> if e = TypeError \<or> e = ValueError then parse_rows row is else Inl e
      | Inr c \<Rightarrow> bindE (parse_rows row is) (\<lambda>cs. Inr (c # cs)))"

definition parse_intraday_response :: "py_conversions \<Rightarrow> json \<Rightarrow> tz \<Rightarrow> candle list result" where
  "parse_intraday_response py resp z =
     (case resp of
        JObj d \<Rightarrow>
          let block = (case dict_get d ''data'' of Some (JObj b) \<Rightarrow> b | _ \<Rightarrow> d) in
          if dict_get block ''close'' = None then Inl ValueError
          else if dict_get block ''timestamp'' = None \<and> dict_get block ''start_Time'' = None then Inl ValueError
          else
            let stamps = get_or block (if dict_get block ''timestamp'' \<noteq> None then ''timestamp'' else ''start_Time'');
                opens = get_or block ''open''; highs = get_or block ''high''; lows = get_or block ''low'';
                closes = get_or block ''close''; volumes = get_or block ''volume''
            in bindE (column_len opens) (\<lambda>n1. bindE (column_len highs) (\<lambda>n2. bindE (column_len lows) (\<lambda>n3.
               bindE (column_len closes) (\<lambda>n4. bindE (column_len stamps) (\<lambda>n5.
               bindE (parse_rows (parse_row py z stamps volumes opens highs lows closes)
                        [0..<min n1 (min n2 (min n3 (min n4 n5)))]) (\<lambda>candles.
               Inr (sort_key (\<lambda>c. instant (cd_start_at c)) candles)))))))
      | _ \<Rightarrow> Inl ValueError)"

section \<open>Aggregation\<close>

record warm_bucket =
  wb_start_at :: datetime
  wb_open :: money
  wb_high :: money
  wb_low :: money
  wb_close :: money
  wb_volume :: int

definition open_bucket :: "datetime \<Rightarrow> candle \<Rightarrow> warm_bucket" where
  "open_bucket key c =
     \<lparr>wb_start_at = key, wb_open = cd_open c, wb_high = cd_high c, wb_low = cd_low c, wb_close = cd_close c,
      wb_volume = cd_volume c\<rparr>"

definition absorb_candle :: "candle \<Rightarrow> warm_bucket \<Rightarrow> warm_bucket" where
  "absorb_candle c b =
     b\<lparr>wb_high := max (wb_high b) (cd_high c), wb_low := min (wb_low b) (cd_low c), wb_close := cd_close c,
       wb_volume := wb_volume b + cd_volume c\<rparr>"

text \<open>The dictionary of buckets is keyed by the instant, as datetimes hash and compare.\<close>

fun fill_buckets :: "int \<Rightarrow> candle list \<Rightarrow> (int, warm_bucket) dict \<Rightarrow> (int, warm_bucket) dict result" where
  "fill_buckets interval_seconds [] buckets = Inr buckets"
| "fill_buckets interval_seconds (c # cs) buckets =
     bindE (floor_to_interval (cd_start_at c) interval_seconds) (\<lambda>key.
     fill_buckets interval_seconds cs
       (dict_set (instant key)
          (case dict_get buckets (instant key) of None \<Rightarrow> open_bucket key c | Some b \<Rightarrow> absorb_candle c b) buckets))"

definition bucket_candle :: "int \<Rightarrow> string \<Rightarrow> string \<Rightarrow> warm_bucket \<Rightarrow> candle result" where
  "bucket_candle interval_minutes security_id instrument b =
     new_candle
       \<lparr>cd_security_id = security_id, cd_instrument = (if instrument = [] then security_id else instrument), cd_open = wb_open b,
        cd_high = wb_high b, cd_low = wb_low b, cd_close = wb_close b, cd_volume = wb_volume b, cd_start_at = wb_start_at b,
        cd_end_at = dt_add (wb_start_at b) (interval_minutes * minute), cd_tick_count = 0, cd_last_tick_at = None,
        cd_spans_gap = False\<rparr>"

fun freeze_buckets :: "int \<Rightarrow> string \<Rightarrow> string \<Rightarrow> warm_bucket list \<Rightarrow> candle list result" where
  "freeze_buckets interval_minutes security_id instrument [] = Inr []"
| "freeze_buckets interval_minutes security_id instrument (b # bs) =
     bindE (bucket_candle interval_minutes security_id instrument b) (\<lambda>c.
     bindE (freeze_buckets interval_minutes security_id instrument bs) (\<lambda>cs. Inr (c # cs)))"

definition aggregate_candles :: "candle list \<Rightarrow> int \<Rightarrow> string \<Rightarrow> string \<Rightarrow> candle list result" where
  "aggregate_candles candles interval_minutes security_id instrument =
     (if interval_minutes \<le> 0 then Inl ValueError
      else
        bindE (fill_buckets (interval_minutes * 60) candles []) (\<lambda>buckets.
        freeze_buckets interval_minutes security_id instrument (map snd (sort_key fst buckets))))"

section \<open>Fetching\<close>

definition source_from_underlying :: "index_meta \<Rightarrow> warmup_source" where
  "source_from_underlying meta =
     \<lparr>wo_security_id = im_security_id meta, wo_exchange_segment = im_segment meta, wo_instrument_type = ''INDEX''\<rparr>"

definition source_from_option :: "option_contract \<Rightarrow> string \<Rightarrow> warmup_source" where
  "source_from_option contract fno_segment =
     \<lparr>wo_security_id = oc_security_id contract, wo_exchange_segment = fno_segment, wo_instrument_type = ''OPTIDX''\<rparr>"

fun keep_applicable :: "market_session \<Rightarrow> int \<Rightarrow> datetime \<Rightarrow> candle list \<Rightarrow> candle list result" where
  "keep_applicable s timeframe_minutes current_bucket [] = Inr []"
| "keep_applicable s timeframe_minutes current_bucket (c # cs) =
     bindE (is_applicable_session_bucket s (cd_start_at c) (cd_end_at c) timeframe_minutes) (\<lambda>ok.
     bindE (keep_applicable s timeframe_minutes current_bucket cs) (\<lambda>rest.
     Inr (if ok \<and> cd_start_at c < current_bucket then c # rest else rest)))"

definition fetch_warmup_candles_range ::
  "py_conversions \<Rightarrow> (warmup_source \<Rightarrow> datetime \<Rightarrow> datetime \<Rightarrow> int \<Rightarrow> ((string, json) dict, 'w) act) \<Rightarrow> warmup_source \<Rightarrow> market_session
   \<Rightarrow> int \<Rightarrow> int \<Rightarrow> datetime \<Rightarrow> string \<Rightarrow> (candle list, 'w) act" where
  "fetch_warmup_candles_range py fetch source s timeframe_minutes sessions current underlying_label w =
     (case is_trading_day s current of
        Inl e \<Rightarrow> (Inl e, w)
      | Inr False \<Rightarrow> (Inr [], w)
      | Inr True \<Rightarrow>
          (case prior_trading_day s (dt_date (astimezone (ms_tz s) current)) (max 1 sessions) of
             Inl e \<Rightarrow> (Inl e, w)
           | Inr from_day \<Rightarrow>
               (case fetch source (combine from_day 0 (ms_tz s)) current 1 w of
                  (Inl e, w1) \<Rightarrow> (Inl e, w1)
                | (Inr resp, w1) \<Rightarrow>
                    (bindE (parse_intraday_response py (JObj resp) (ms_tz s)) (\<lambda>one_min.
                     bindE (aggregate_candles one_min timeframe_minutes (wo_security_id source)
                              (if underlying_label = [] then wo_security_id source else underlying_label)) (\<lambda>aggregated.
                     bindE (floor_to_interval current (timeframe_minutes * 60)) (\<lambda>current_bucket.
                     keep_applicable s timeframe_minutes current_bucket aggregated))), w1))))"

section \<open>Nested runs\<close>

lemma runs_map: "runs k (map f xs) = map (map f) (runs (\<lambda>x. k (f x)) xs)"
proof (induction xs rule: rev_induct)
  case (snoc x xs)
  have ne: "g \<noteq> []" if "g \<in> set (runs (\<lambda>x. k (f x)) xs)" for g using that by (rule runs_nonempty)
  show ?case
  proof (cases "runs (\<lambda>x. k (f x)) xs" rule: rev_cases)
    case Nil
    then show ?thesis using snoc by (simp add: extend_runs_def)
  next
    case (snoc gs g)
    then have "g \<noteq> []" using ne by simp
    then show ?thesis using \<open>runs k (map f xs) = _\<close> snoc by (simp add: extend_runs_def hd_map butlast_append)
  qed
qed simp

lemma runs_cong: "(\<And>x. x \<in> set xs \<Longrightarrow> k x = l x) \<Longrightarrow> runs k xs = runs l xs"
proof (induction xs rule: rev_induct)
  case (snoc x xs)
  then have same: "runs k xs = runs l xs" by simp
  have "hd (last (runs l xs)) \<in> set xs" if "runs l xs \<noteq> []"
    using that runs_spec [of l xs] runs_nonempty [of "last (runs l xs)" l xs] by (metis UN_I hd_in_set last_in_set set_concat)
  then show ?case using snoc.prems same by (auto simp: extend_runs_def)
qed simp

lemma runs_last_changed:
  assumes "k y = k x"
  shows "runs k (ys @ [y]) = butlast (runs k (ys @ [x])) @ [butlast (last (runs k (ys @ [x]))) @ [y]]"
  using assms by (auto simp: extend_runs_def butlast_append)

text \<open>Runs of a coarser key are the runs, joined, of the runs of a finer one.\<close>

lemma runs_of_runs:
  assumes "\<And>x y. x \<in> set xs \<Longrightarrow> y \<in> set xs \<Longrightarrow> k1 x = k1 y \<Longrightarrow> k2 x = k2 y"
  shows "runs k2 xs = map concat (runs (\<lambda>g. k2 (hd g)) (runs k1 xs))"
  using assms
proof (induction xs rule: rev_induct)
  case (snoc x xs)
  define gs where "gs = runs k1 xs"
  define H where "H = runs (\<lambda>g. k2 (hd g)) gs"
  have IH: "runs k2 xs = map concat H" using snoc by (simp add: gs_def H_def)
  have gne: "g \<noteq> []" if "g \<in> set gs" for g using that unfolding gs_def by (rule runs_nonempty)
  have Hc: "concat H = gs" "\<And>h. h \<in> set H \<Longrightarrow> h \<noteq> []"
    using runs_spec [of "\<lambda>g. k2 (hd g)" gs] runs_nonempty [of _ "\<lambda>g. k2 (hd g)" gs] by (auto simp: H_def)
  show ?case
  proof (cases "xs = []")
    case True
    then show ?thesis by (simp add: extend_runs_def)
  next
    case False
    then obtain H' h where H: "H = H' @ [h]" unfolding H_def gs_def by (metis append_butlast_last_id runs_eq_Nil)
    then have h: "h \<noteq> []" using Hc(2) by simp
    have hin: "hd h \<in> set gs" using Hc(1) H h by auto
    have hd_concat: "hd (concat h) = hd (hd h)" using gne [OF hin] h by (cases h) auto
    obtain gs' g where g: "gs = gs' @ [g]" using False unfolding gs_def by (metis append_butlast_last_id runs_eq_Nil)
    have "(\<lambda>g. k2 (hd g)) ` set h = {k2 (hd (hd h))}"
      using runs_spec [of "\<lambda>g. k2 (hd g)" gs] H unfolding H_def [symmetric] by (auto simp: one_key_def)
    then have key: "k2 (hd (last h)) = k2 (hd (hd h))" using last_in_set [OF h] by blast
    have lh: "last h = g" using Hc(1) H h g by (metis append_is_Nil_conv concat.simps concat_append last_append last_snoc append_Nil2)
    have L: "runs k2 (xs @ [x]) = (if k2 (hd (hd h)) = k2 x then map concat H' @ [concat h @ [x]] else map concat H @ [[x]])"
      by (simp add: IH H extend_runs_def hd_concat)
    show ?thesis
    proof (cases "k1 (hd g) = k1 x")
      case True
      then have "runs k1 (xs @ [x]) = gs' @ [g @ [x]]" using g by (simp add: gs_def [symmetric] extend_runs_def)
      moreover have "k2 (hd (g @ [x])) = k2 (hd g)" using gne [of g] g by simp
      ultimately have R: "runs (\<lambda>g. k2 (hd g)) (runs k1 (xs @ [x])) = butlast H @ [butlast (last H) @ [g @ [x]]]"
        using runs_last_changed [of "\<lambda>g. k2 (hd g)" "g @ [x]" g gs'] unfolding H_def g by simp
      have "hd g \<in> set xs" using gne [of g] g runs_spec [of k1 xs] unfolding gs_def [symmetric] by (cases g) auto
      then have "k2 (hd g) = k2 x" using snoc.prems [of "hd g" x] True by simp
      then have "k2 (hd (hd h)) = k2 x" using key lh by simp
      moreover have "concat h = concat (butlast h) @ g" using h lh by (metis append_butlast_last_id concat.simps concat_append append_Nil2)
      ultimately show ?thesis unfolding L R by (simp add: H)
    next
      case False
      then have "runs k1 (xs @ [x]) = gs @ [[x]]" using g by (simp add: gs_def [symmetric] extend_runs_def)
      then show ?thesis unfolding L by (simp add: H_def [symmetric] H extend_runs_def)
    qed
  qed
qed simp

lemma runs_increasing:
  assumes "sorted (map k xs)"
  shows "sorted_wrt (<) (map (\<lambda>g. k (hd g)) (runs k xs))"
  using assms
proof (induction xs rule: rev_induct)
  case (snoc x xs)
  have le: "k (hd g) \<le> k x" if "g \<in> set (runs k xs)" for g
  proof -
    have "hd g \<in> set xs" using that runs_nonempty [OF that] runs_spec [of k xs] by (metis UN_I hd_in_set set_concat)
    then show ?thesis using snoc.prems by (auto simp: sorted_append)
  qed
  have IH: "sorted_wrt (<) (map (\<lambda>g. k (hd g)) (runs k xs))" using snoc by (simp add: sorted_append)
  show ?case
  proof (cases "runs k xs" rule: rev_cases)
    case Nil
    then show ?thesis by (simp add: extend_runs_def)
  next
    case (snoc gs g)
    then have "g \<noteq> []" using runs_nonempty [of g k xs] by simp
    show ?thesis
    proof (cases "k (hd g) = k x")
      case True
      then show ?thesis using IH snoc \<open>g \<noteq> []\<close> by (simp add: extend_runs_def)
    next
      case False
      then have "k (hd g) < k x" using le [of g] snoc by simp
      then show ?thesis using IH snoc False by (auto simp: extend_runs_def sorted_wrt_append intro: less_trans)
    qed
  qed
qed simp

section \<open>Aggregation builds the runs of candles\<close>

definition warm_floor :: "int \<Rightarrow> candle \<Rightarrow> datetime" where
  "warm_floor n c = (case floor_to_interval (cd_start_at c) (n * 60) of Inr f \<Rightarrow> f | Inl _ \<Rightarrow> cd_start_at c)"

definition warm_key :: "int \<Rightarrow> candle \<Rightarrow> int" where
  "warm_key n c = instant (warm_floor n c)"

interpretation warm_bars: bar_accumulator "warm_key n" "\<lambda>c. open_bucket (warm_floor n c) c" absorb_candle "\<lambda>b. instant (wb_start_at b)" for n
  by unfold_locales (simp_all add: open_bucket_def warm_key_def absorb_candle_def)

lemma warm_floor_Inr: "0 < n \<Longrightarrow> floor_to_interval (cd_start_at c) (n * 60) = Inr (warm_floor n c)"
  using floor_to_interval_returns [of "n * 60" "cd_start_at c"] by (auto simp: warm_floor_def)

lemma fill_buckets_snoc:
  "fill_buckets i (cs @ [c]) acc = bindE (fill_buckets i cs acc) (\<lambda>b. fill_buckets i [c] b)"
proof (induction cs arbitrary: acc)
  case (Cons d cs)
  then show ?case by (cases "floor_to_interval (cd_start_at d) i") simp_all
qed simp

lemma dict_set_fresh: "k \<notin> fst ` set d \<Longrightarrow> dict_set k v d = d @ [(k, v)]"
  by (induction d) auto

lemma dict_set_end: "k \<notin> fst ` set d \<Longrightarrow> dict_set k v (d @ [(k, w)]) = d @ [(k, v)]"
  by (induction d) auto

lemma dict_get_end: "k \<notin> fst ` set d \<Longrightarrow> dict_get (d @ [(k, w)]) k = Some w"
  by (induction d) auto

definition bucket_entry :: "int \<Rightarrow> candle list \<Rightarrow> int \<times> warm_bucket" where
  "bucket_entry n g = (warm_key n (hd g), warm_bars.bar_of n g)"

lemma fill_runs:
  assumes "0 < n" "sorted (map (warm_key n) cs)"
  shows "fill_buckets (n * 60) cs [] = Inr (map (bucket_entry n) (runs (warm_key n) cs))"
  using assms(2)
proof (induction cs rule: rev_induct)
  case (snoc c cs)
  define gs where "gs = runs (warm_key n) cs"
  have IH: "fill_buckets (n * 60) cs [] = Inr (map (bucket_entry n) gs)" using snoc by (simp add: gs_def sorted_append)
  have inc: "sorted_wrt (<) (map (\<lambda>g. warm_key n (hd g)) gs)"
    unfolding gs_def using snoc.prems by (intro runs_increasing) (simp add: sorted_append)
  have le: "warm_key n (hd g) \<le> warm_key n c" if "g \<in> set gs" for g
  proof -
    have "hd g \<in> set cs" using that runs_nonempty [of g] runs_spec [of "warm_key n" cs] unfolding gs_def
      by (metis UN_I hd_in_set set_concat)
    then show ?thesis using snoc.prems by (auto simp: sorted_append)
  qed
  have key: "floor_to_interval (cd_start_at c) (n * 60) = Inr (warm_floor n c)" by (rule warm_floor_Inr [OF assms(1)])
  show ?case
  proof (cases gs rule: rev_cases)
    case Nil
    then have "cs = []" by (simp add: gs_def)
    then show ?thesis using key by (simp add: extend_runs_def bucket_entry_def warm_key_def)
  next
    case (snoc hs g)
    have g: "g \<noteq> []" using runs_nonempty [of g "warm_key n" cs] snoc by (simp add: gs_def)
    have fresh: "warm_key n (hd g) \<notin> fst ` set (map (bucket_entry n) hs)"
      using inc snoc by (auto simp: bucket_entry_def sorted_wrt_append)
    show ?thesis
    proof (cases "warm_key n (hd g) = warm_key n c")
      case True
      have "fill_buckets (n * 60) [c] (map (bucket_entry n) hs @ [(warm_key n c, warm_bars.bar_of n g)])
          = Inr (map (bucket_entry n) hs @ [(warm_key n c, absorb_candle c (warm_bars.bar_of n g))])"
        using key fresh True by (simp add: dict_get_end dict_set_end warm_key_def [symmetric] del: map_of_append)
      then show ?thesis using IH snoc True g
        by (simp add: fill_buckets_snoc gs_def [symmetric] extend_runs_def bucket_entry_def)
    next
      case False
      then have "warm_key n (hd g) < warm_key n c" using le [of g] snoc by simp
      moreover have "warm_key n (hd h) < warm_key n (hd g)" if "h \<in> set hs" for h
        using inc snoc that by (auto simp: sorted_wrt_append)
      ultimately have fr: "warm_key n c \<notin> fst ` set (map (bucket_entry n) gs)"
        using snoc by (fastforce simp: bucket_entry_def)
      then have "dict_get (map (bucket_entry n) gs) (warm_key n c) = None" by (simp add: map_of_eq_None_iff)
      then have "fill_buckets (n * 60) [c] (map (bucket_entry n) gs)
          = Inr (map (bucket_entry n) gs @ [(warm_key n c, open_bucket (warm_floor n c) c)])"
        using key fr by (simp add: dict_set_fresh warm_key_def [symmetric])
      then show ?thesis using IH snoc False
        by (simp add: fill_buckets_snoc gs_def [symmetric] extend_runs_def bucket_entry_def)
    qed
  qed
qed simp

lemma freeze_buckets_all:
  assumes "list_all2 (\<lambda>g b. \<exists>c. bucket_candle n sid inst b = Inr c \<and> h c = f g) gs bs"
  shows "\<exists>out. freeze_buckets n sid inst bs = Inr out \<and> map h out = map f gs"
  using assms by (induction rule: list_all2_induct) auto

lemma sorted_heads:
  assumes "sorted (map k (concat gs))" "list_all (\<lambda>g. g \<noteq> []) gs"
  shows "sorted (map (\<lambda>g. k (hd g)) gs)"
  using assms
proof (induction gs)
  case (Cons g gs)
  have "k (hd g) \<le> k (hd h)" if "h \<in> set gs" for h
  proof -
    have "hd h \<in> set (concat gs)" "hd g \<in> set g" using that Cons.prems(2) by (auto simp: list_all_iff intro!: bexI [of _ h])
    then show ?thesis using Cons.prems(1) by (auto simp: sorted_append)
  qed
  then show ?case using Cons by (simp add: sorted_append)
qed simp

section \<open>Warm-up candles are the live builder's\<close>

definition shape :: "candle \<Rightarrow> datetime \<times> datetime \<times> money \<times> money \<times> money \<times> money" where
  "shape c = (cd_start_at c, cd_end_at c, cd_open c, cd_high c, cd_low c, cd_close c)"

text \<open>A minute candle with the prices it was built from.\<close>

definition minute_of :: "candle_builder \<Rightarrow> chart_tick list \<times> candle \<Rightarrow> bool" where
  "minute_of b p = (fst p \<noteq> [] \<and> (\<exists>gap. snd p = chart_candle b gap (fst p)))"

lemma floor_twice:
  assumes "floor_to_interval m 60 = Inr f" "0 < n"
  shows "floor_to_interval f (n * 60) = floor_to_interval m (n * 60)"
proof -
  define e where "e = (wall m - dt_date m * day_us) div second"
  have fw: "f = DT (dt_date m * day_us + (e div 60) * 60 * second) (utcoffset m)"
    using assms(1) by (simp add: floor_to_interval_def Let_def e_def)
  have t: "0 \<le> wall m - dt_date m * day_us" "wall m - dt_date m * day_us < day_us"
    using wall_date_time [of m] dt_time_bounds [of m] by simp_all
  have e: "0 \<le> e" "e < 86400" using t by (simp_all add: e_def second_def day_us_def)
  have "0 \<le> (e div 60) * 60 * second" "(e div 60) * 60 * second < day_us" using e by (simp_all add: second_def day_us_def)
  then have d: "dt_date f = dt_date m" by (simp add: fw dt_date_def day_us_def)
  have "(wall f - dt_date m * day_us) div second = (e div 60) * 60" by (simp add: fw second_def)
  moreover have "(e div 60) * 60 div (n * 60) = e div (n * 60)"
    using assms(2) by (simp add: mult.commute [of n 60] zdiv_zmult2_eq)
  ultimately show ?thesis using d by (simp add: floor_to_interval_def Let_def e_def [symmetric] fw)
qed

lemma minute_floor:
  assumes "minute_of b p" "cb_interval b = 1" "0 < n"
  shows "warm_floor n (snd p) = chart_floor n (hd (fst p))" "warm_key n (snd p) = chart_bucket n (hd (fst p))"
proof -
  have "cd_start_at (snd p) = chart_floor 1 (hd (fst p))" using assms(1,2) by (auto simp: minute_of_def chart_candle_def)
  then show w: "warm_floor n (snd p) = chart_floor n (hd (fst p))"
    using floor_twice [OF chart_floor_Inr [of 1 "hd (fst p)", simplified] assms(3)]
      chart_floor_Inr [OF assms(3), of "hd (fst p)"] by (simp add: warm_floor_def)
  show "warm_key n (snd p) = chart_bucket n (hd (fst p))" by (simp add: warm_key_def chart_bucket_def w)
qed

definition bucket_stands_for :: "int \<Rightarrow> chart_tick list \<Rightarrow> warm_bucket \<Rightarrow> bool" where
  "bucket_stands_for n g b =
     (wb_start_at b = chart_floor n (hd g) \<and> wb_open b = price_of (hd g) \<and> wb_high b = Max (price_of ` set g)
      \<and> wb_low b = Min (price_of ` set g) \<and> wb_close b = price_of (last g))"

lemma bar_of_minutes:
  assumes "ps \<noteq> []" "list_all (minute_of b) ps" "cb_interval b = 1" "0 < n"
  shows "bucket_stands_for n (concat (map fst ps)) (warm_bars.bar_of n (map snd ps))"
  using assms(1,2)
proof (induction ps rule: rev_induct)
  case (snoc p ps)
  have p: "minute_of b p" "fst p \<noteq> []" using snoc.prems(2) by (auto simp: minute_of_def)
  then obtain gap where c: "snd p = chart_candle b gap (fst p)" by (auto simp: minute_of_def)
  show ?case
  proof (cases "ps = []")
    case True
    have bar: "warm_bars.bar_of n (map snd (ps @ [p])) = open_bucket (warm_floor n (snd p)) (snd p)" using True by simp
    have cc: "concat (map fst (ps @ [p])) = fst p" using True by simp
    show ?thesis using minute_floor(1) [OF p(1) assms(3,4)] unfolding bar cc
      by (simp add: bucket_stands_for_def open_bucket_def c chart_candle_def)
  next
    case False
    then have IH: "bucket_stands_for n (concat (map fst ps)) (warm_bars.bar_of n (map snd ps))" using snoc by simp
    have ne: "concat (map fst ps) \<noteq> []" using False snoc.prems(2) by (cases ps) (auto simp: minute_of_def)
    have fin: "finite (price_of ` set (concat (map fst ps)))" "finite (price_of ` set (fst p))" by auto
    have ne2: "price_of ` set (concat (map fst ps)) \<noteq> {}" "price_of ` set (fst p) \<noteq> {}" using ne p(2) by auto
    have img: "price_of ` set (concat (map fst (ps @ [p]))) = price_of ` set (concat (map fst ps)) \<union> price_of ` set (fst p)"
      by (simp add: image_Un)
    have "warm_bars.bar_of n (map snd (ps @ [p])) = absorb_candle (snd p) (warm_bars.bar_of n (map snd ps))" using False by simp
    then show ?thesis using IH ne p(2) Max_Un [OF fin(1) ne2(1) fin(2) ne2(2)] Min_Un [OF fin(1) ne2(1) fin(2) ne2(2)]
      unfolding bucket_stands_for_def img by (simp add: absorb_candle_def c chart_candle_def)
  qed
qed simp

text \<open>The one-minute candles of a run of prices, each with its prices, and the coarser candles they add up to.\<close>

definition minute_pairs :: "candle_builder \<Rightarrow> chart_tick list \<Rightarrow> candle list \<Rightarrow> bool" where
  "minute_pairs b xs ms = list_all2 (\<lambda>g c. minute_of b (g, c)) (runs (chart_bucket 1) xs) ms"

lemma closed_are_minutes:
  assumes "list_all (\<lambda>g. g \<noteq> []) gs" "gs \<noteq> []"
  shows "list_all2 (\<lambda>g c. minute_of b (g, c)) gs (closed_candles b gs @ [chart_candle b gap (last gs)])"
  using assms
proof (induction gs rule: induct_list012)
  case (3 g h gs)
  then have "list_all2 (\<lambda>g c. minute_of b (g, c)) (h # gs) (closed_candles b (h # gs) @ [chart_candle b gap (last (h # gs))])"
    by simp
  then show ?case using 3(3) by (auto simp: closed_candles_def minute_of_def)
qed (auto simp: closed_candles_def minute_of_def)

lemma same_offset_floor:
  assumes "0 < n" "utcoffset (Chart_Builder.time_of x) = utcoffset (Chart_Builder.time_of y)" "chart_bucket 1 x = chart_bucket 1 y"
  shows "chart_bucket n x = chart_bucket n y"
proof -
  note f = chart_floor_Inr [of 1, simplified]
  have "utcoffset (chart_floor 1 x) = utcoffset (chart_floor 1 y)" using floor_to_interval_Inr(2) [OF f] assms(2) by metis
  then have "chart_floor 1 x = chart_floor 1 y"
    using assms(3) by (cases "chart_floor 1 x", cases "chart_floor 1 y") (simp add: chart_bucket_def instant_def split: option.splits)
  then have "chart_floor n x = chart_floor n y"
    using floor_twice [OF f assms(1), of x] floor_twice [OF f assms(1), of y] chart_floor_Inr [OF assms(1)] by (metis sum.inject(2))
  then show ?thesis by (simp add: chart_bucket_def)
qed

lemma bucket_candle_shape:
  assumes "bucket_stands_for n g b" "g \<noteq> []" "0 < n" "aware (chart_floor n (hd g))"
  shows "\<exists>c. bucket_candle n sid inst b = Inr c \<and> shape c = shape (chart_candle b2 gap g \<lparr>cd_start_at := chart_floor n (hd g),
      cd_end_at := candle_end (chart_floor n (hd g)) n\<rparr>)"
  using assms
  by (auto simp: bucket_candle_def bucket_stands_for_def new_candle_Inr candle_ok_def shape_def chart_candle_def candle_end_def
      minute_def)

lemma aggregate_minutes:
  assumes "chart_ticks_ok z xs" "minute_pairs b1 xs ms" "cb_interval b1 = 1" "cb_interval b2 = n" "0 < n"
  shows "\<exists>out. aggregate_candles ms n sid inst = Inr out
    \<and> map shape out = map (\<lambda>g. shape (chart_candle b2 False g)) (runs (chart_bucket n) xs)"
proof -
  define ps where "ps = zip (runs (chart_bucket 1) xs) ms"
  have len: "length (runs (chart_bucket 1) xs) = length ms" using assms(2) by (auto simp: minute_pairs_def dest: list_all2_lengthD)
  have ps: "map fst ps = runs (chart_bucket 1) xs" "map snd ps = ms" using len by (simp_all add: ps_def)
  have mp: "minute_of b1 p" if "p \<in> set ps" for p
    using that assms(2) by (cases p) (auto simp: ps_def minute_pairs_def list_all2_iff)
  have key: "warm_key n (snd p) = chart_bucket n (hd (fst p))" if "p \<in> set ps" for p
    using minute_floor(2) [OF mp [OF that] assms(3,5)] .
  define k where "k = (\<lambda>p :: chart_tick list \<times> candle. chart_bucket n (hd (fst p)))"
  have tick_in: "hd (fst p) \<in> set xs" if "p \<in> set ps" for p
  proof -
    have "fst p \<in> set (runs (chart_bucket 1) xs)" using that ps(1) by (metis image_eqI set_map)
    then show ?thesis using runs_nonempty runs_spec [of "chart_bucket 1" xs] by (metis UN_I hd_in_set set_concat)
  qed
  have zone: "utcoffset (Chart_Builder.time_of x) = Some z" if "x \<in> set xs" for x
    using assms(1) that by (simp add: chart_ticks_ok_def list_all_iff)
  have groups: "runs (warm_key n) ms = map (map snd) (runs k ps)"
    using runs_cong [of ps "\<lambda>p. warm_key n (snd p)" k] key runs_map [of "warm_key n" snd ps] ps(2) by (simp add: k_def)
  have "runs (chart_bucket n) xs = map concat (runs (\<lambda>g. chart_bucket n (hd g)) (runs (chart_bucket 1) xs))"
    using same_offset_floor [OF assms(5)] zone by (intro runs_of_runs) simp
  then have outer: "runs (chart_bucket n) xs = map (\<lambda>G. concat (map fst G)) (runs k ps)"
    unfolding ps(1) [symmetric] runs_map k_def by simp
  have "sorted (map (chart_bucket n) xs)"
    using assms(1) zone chart_bucket_mono [OF assms(5)] unfolding chart_ticks_ok_def sorted_map
    by (auto elim!: sorted_wrt_mono_rel [rotated])
  then have "sorted (map (chart_bucket n) (concat (runs (chart_bucket 1) xs)))" using runs_spec [of "chart_bucket 1" xs] by simp
  then have "sorted (map (\<lambda>g. chart_bucket n (hd g)) (map fst ps))"
    unfolding ps(1) by (rule sorted_heads) (use runs_nonempty in \<open>auto simp: list_all_iff\<close>)
  moreover have "map (warm_key n) ms = map (\<lambda>g. chart_bucket n (hd g)) (map fst ps)"
    unfolding ps(2) [symmetric] using key by simp
  ultimately have sorted_keys: "sorted (map (warm_key n) ms)" by simp
  have "fill_buckets (n * 60) ms [] = Inr (map (bucket_entry n) (runs (warm_key n) ms))" by (rule fill_runs [OF assms(5) sorted_keys])
  moreover have "sort_key fst (map (bucket_entry n) (runs (warm_key n) ms)) = map (bucket_entry n) (runs (warm_key n) ms)"
    using runs_increasing [OF sorted_keys]
    by (intro sort_key_id_if_sorted) (auto simp: sorted_wrt_map bucket_entry_def o_def elim!: sorted_wrt_mono_rel [rotated])
  ultimately have agg: "aggregate_candles ms n sid inst = freeze_buckets n sid inst (map (warm_bars.bar_of n) (runs (warm_key n) ms))"
    using assms(5) by (simp add: aggregate_candles_def bucket_entry_def o_def)
  have "\<exists>c. bucket_candle n sid inst (warm_bars.bar_of n (map snd G)) = Inr c
      \<and> shape c = shape (chart_candle b2 False (concat (map fst G)))" if G: "G \<in> set (runs k ps)" for G
  proof -
    have ne: "G \<noteq> []" using G by (rule runs_nonempty)
    have sub: "set G \<subseteq> set ps" using G runs_spec [of k ps] by (metis Sup_upper image_eqI set_concat)
    then have all: "list_all (minute_of b1) G" using mp by (auto simp: list_all_iff)
    have cne: "concat (map fst G) \<noteq> []" "hd (concat (map fst G)) = hd (fst (hd G))"
      using ne all by (cases G; auto simp: minute_of_def)+
    have "hd (concat (map fst G)) \<in> set xs" using cne(2) tick_in sub ne by (cases G) auto
    then have "aware (chart_floor n (hd (concat (map fst G))))" using chart_floor_aware [OF assms(5)] zone by blast
    from bucket_candle_shape [OF bar_of_minutes [OF ne all assms(3,5)] cne(1) assms(5) this, of sid inst b2 False]
    show ?thesis using assms(4) by (simp add: shape_def chart_candle_def)
  qed
  then have "list_all2 (\<lambda>G b. \<exists>c. bucket_candle n sid inst b = Inr c \<and> shape c = shape (chart_candle b2 False (concat (map fst G))))
      (runs k ps) (map (warm_bars.bar_of n) (runs (warm_key n) ms))"
    unfolding groups by (simp add: list_all2_conv_all_nth)
  from freeze_buckets_all [OF this] show ?thesis unfolding agg outer by (simp add: o_def)
qed

lemma closed_shapes:
  "gs \<noteq> [] \<Longrightarrow> map shape (closed_candles b gs @ [chart_candle b False (last gs)]) = map (\<lambda>g. shape (chart_candle b False g)) gs"
proof (induction gs rule: induct_list012)
  case (3 g h gs)
  then show ?case by (simp add: closed_candles_def shape_def chart_candle_def)
qed (simp_all add: closed_candles_def)

text \<open>C37: the prices of a day, built into one-minute candles and those aggregated for the warm-up, give the very candles the
  engine's own builder makes of the prices: as many, over the same intervals, with the same open, high, low and close.
\<close>

theorem warm_candles_are_live_candles:
  assumes "chart_ticks_ok z xs" "xs \<noteq> []"
    and "new_candle_builder 1 s1 i1 = Inr b1" "build xs b1 = (cs1, e1, c1)" "flush_builder c1 = (Inr (Some m), d1)"
    and "new_candle_builder n s2 i2 = Inr b2" "build xs b2 = (cs2, e2, c2)" "flush_builder c2 = (Inr (Some l), d2)"
  shows "\<exists>out. aggregate_candles (cs1 @ [m]) n sid inst = Inr out \<and> map shape out = map shape (cs2 @ [l])"
proof -
  have b: "cb_interval b1 = 1" "cb_interval b2 = n" "0 < n" using assms(3,6) by (auto simp: new_candle_builder_def split: if_splits)
  let ?g = "runs (chart_bucket 1) xs" and ?h = "runs (chart_bucket n) xs"
  have one: "cs1 = closed_candles b1 ?g" "m = chart_candle b1 False (last ?g)"
    using builder_candles_are_runs [OF assms(3,1)] assms(2,4,5) by auto
  have big: "cs2 = closed_candles b2 ?h" "l = chart_candle b2 False (last ?h)"
    using builder_candles_are_runs [OF assms(6,1)] assms(2,7,8) by auto
  have "list_all (\<lambda>g. g \<noteq> []) ?g" using runs_nonempty by (auto simp: list_all_iff)
  then have "minute_pairs b1 xs (cs1 @ [m])" unfolding minute_pairs_def one using assms(2) by (intro closed_are_minutes) simp_all
  from aggregate_minutes [OF assms(1) this b, of sid inst]
  show ?thesis using closed_shapes [of ?h b2] assms(2) unfolding big by simp
qed

lemma chart_example_builds:
  assumes "new_candle_builder n ''13'' [] = Inr b"
  shows "\<exists>cs c m. build chart_example b = (cs, None, c) \<and> flush_builder c = (Inr (Some m), b)"
proof -
  have "chart_ticks_ok ist chart_example" by (simp add: chart_ticks_ok_def chart_example_def at_ist_def time_units)
  from builder_candles_are_runs [OF assms this] show ?thesis by (auto simp: chart_example_def)
qed

lemma warm_candles_are_live_candles_witness:
  "\<exists>b1 b5 cs1 c1 m cs5 c5 l out. new_candle_builder 1 ''13'' [] = Inr b1 \<and> new_candle_builder 5 ''13'' [] = Inr b5
     \<and> build chart_example b1 = (cs1, None, c1) \<and> flush_builder c1 = (Inr (Some m), b1)
     \<and> build chart_example b5 = (cs5, None, c5) \<and> flush_builder c5 = (Inr (Some l), b5)
     \<and> aggregate_candles (cs1 @ [m]) 5 ''13'' ''NIFTY'' = Inr out \<and> map shape out = map shape (cs5 @ [l])"
proof -
  have ok: "chart_ticks_ok ist chart_example" "chart_example \<noteq> []"
    by (simp_all add: chart_ticks_ok_def chart_example_def at_ist_def time_units)
  obtain b1 b5 where b: "new_candle_builder 1 ''13'' [] = Inr b1" "new_candle_builder 5 ''13'' [] = Inr b5"
    by (simp add: new_candle_builder_def)
  from chart_example_builds [OF b(1)] obtain cs1 c1 m where r1: "build chart_example b1 = (cs1, None, c1)"
    "flush_builder c1 = (Inr (Some m), b1)" by blast
  from chart_example_builds [OF b(2)] obtain cs5 c5 l where r5: "build chart_example b5 = (cs5, None, c5)"
    "flush_builder c5 = (Inr (Some l), b5)" by blast
  from warm_candles_are_live_candles [OF ok b(1) r1 b(2) r5, of "''13''" "''NIFTY''"] b r1 r5 show ?thesis by blast
qed

section \<open>Retries\<close>

text \<open>
  The client against a script of outcomes: it makes as many requests as it takes to get an answer that is not transient, at
  most the allowed number, and sleeps between two of them for delays that grow geometrically.
\<close>

definition script_post :: "http_outcome list \<times> rat list \<Rightarrow> http_outcome \<times> (http_outcome list \<times> rat list)" where
  "script_post w = (hd (fst w), (tl (fst w), snd w))"

definition script_sleep :: "rat \<Rightarrow> http_outcome list \<times> rat list \<Rightarrow> http_outcome list \<times> rat list" where
  "script_sleep d w = (fst w, snd w @ [d])"

definition answer_of :: "http_outcome \<Rightarrow> (string, json) dict result" where
  "answer_of o1 =
     (case o1 of Http_Error \<Rightarrow> Inl HistoricalDataTransientError | Other_Error e \<Rightarrow> Inl e | Responded r \<Rightarrow> classify_response r)"

definition transient :: "http_outcome \<Rightarrow> bool" where
  "transient o1 = (answer_of o1 = Inl HistoricalDataTransientError)"

lemma script_attempts:
  assumes "left < length os" "k = length (takeWhile transient os)"
  shows "fetch_attempts left c script_post script_sleep a \<lparr>cr_request_count = n, cr_world = (os, ds)\<rparr>
    = (let used = min (Suc k) (Suc left) in
       (answer_of (os ! (used - 1)),
        \<lparr>cr_request_count = n + used, cr_world = (drop used os, ds @ map (backoff_delay c) [a..<a + used - 1])\<rparr>))"
  using assms
proof (induction left arbitrary: os k a n ds)
  case 0
  then obtain o1 rest1 where os: "os = o1 # rest1" by (cases os) auto
  show ?case
    by (subst fetch_attempts.simps)
       (auto simp: os script_post_def answer_of_def [symmetric] Let_def split: sum.split)
next
  case (Suc left)
  then obtain o1 rest1 where os: "os = o1 # rest1" "left < length rest1" by (cases os) auto
  show ?case
  proof (cases "transient o1")
    case False
    then show ?thesis using Suc.prems
      by (subst fetch_attempts.simps)
         (auto simp: os(1) script_post_def answer_of_def [symmetric] transient_def Let_def split: sum.split)
  next
    case True
    define k1 where "k1 = length (takeWhile transient rest1)"
    have k: "k = Suc k1" using Suc.prems True by (simp add: os(1) k1_def)
    have "fetch_attempts (Suc left) c script_post script_sleep a \<lparr>cr_request_count = n, cr_world = (os, ds)\<rparr>
        = fetch_attempts left c script_post script_sleep (a + 1)
            \<lparr>cr_request_count = n + 1, cr_world = (rest1, ds @ [backoff_delay c a])\<rparr>"
      using True by (subst fetch_attempts.simps)
        (simp add: os(1) script_post_def script_sleep_def answer_of_def [symmetric] transient_def Let_def)
    also have "\<dots> = (let used = min (Suc k1) (Suc left) in
        (answer_of (rest1 ! (used - 1)),
         \<lparr>cr_request_count = n + 1 + used, cr_world = (drop used rest1, (ds @ [backoff_delay c a])
            @ map (backoff_delay c) [a + 1..<a + 1 + used - 1])\<rparr>))"
      by (rule Suc.IH [OF os(2) k1_def])
    also have "\<dots> = (let used = min (Suc k) (Suc (Suc left)) in
        (answer_of (os ! (used - 1)),
         \<lparr>cr_request_count = n + used, cr_world = (drop used os, ds @ map (backoff_delay c) [a..<a + used - 1])\<rparr>))"
      by (simp add: k os(1) Let_def min_def upt_conv_Cons)
    finally show ?thesis .
  qed
qed

text \<open>The tokens are checked when the client is built, and whatever is asked of it is asked at least once and at most as often as allowed.\<close>

lemma retries_are_bounded:
  assumes "new_historical_client cid tok m b f = Inr c" "nat m \<le> length os" "os \<noteq> []"
  shows "\<exists>r run. fetch_intraday c (\<lambda>_. script_post) script_sleep src from_at to_at i
      \<lparr>cr_request_count = 0, cr_world = (os, [])\<rparr> = (r, run)
    \<and> 1 \<le> cr_request_count run \<and> int (cr_request_count run) \<le> max 1 m
    \<and> snd (cr_world run) = map (\<lambda>j. b * f ^ j) [0..<cr_request_count run - 1]
    \<and> (r = Inl HistoricalDataTransientError \<longrightarrow> int (cr_request_count run) = max 1 m)"
proof -
  have c: "hc_max_attempts c = max 1 m" "hc_initial_backoff c = b" "hc_backoff_multiplier c = f"
    using assms(1) by (auto simp: new_historical_client_def)
  define left where "left = nat (max 1 m) - 1"
  have l: "left < length os" using assms(2,3) by (cases os) (auto simp: left_def)
  define k where "k = length (takeWhile transient os)"
  define used where "used = min (Suc k) (Suc left)"
  have r: "fetch_intraday c (\<lambda>_. script_post) script_sleep src from_at to_at i \<lparr>cr_request_count = 0, cr_world = (os, [])\<rparr>
      = (answer_of (os ! (used - 1)),
         \<lparr>cr_request_count = used, cr_world = (drop used os, map (backoff_delay c) [1..<used])\<rparr>)"
    using script_attempts [OF l k_def, of c 1 0 "[]"] by (simp add: fetch_intraday_def c left_def used_def Let_def)
  have "map (backoff_delay c) [1..<used] = map (\<lambda>j. b * f ^ j) [0..<used - 1]"
    by (rule nth_equalityI) (simp_all add: backoff_delay_def c)
  moreover have "used = Suc left" if "answer_of (os ! (used - 1)) = Inl HistoricalDataTransientError"
  proof (rule ccontr)
    assume "used \<noteq> Suc left"
    then have u: "used = Suc k" "k < Suc left" by (auto simp: used_def)
    then have "k < length os" using l by simp
    then have "\<not> transient (os ! k)" unfolding k_def by (rule nth_length_takeWhile)
    then show False using that u by (simp add: transient_def)
  qed
  ultimately show ?thesis unfolding r by (auto simp: used_def left_def)
qed

text \<open>A row whose timestamp is out of the calendar's range is skipped; one whose timestamp is out of the platform's range aborts the parse.\<close>

lemma one_bad_stamp_aborts:
  assumes "bindE (column_item stamps i) (float_of py) = Inr q"
  shows "9223372036854775808 \<le> q \<Longrightarrow>
      parse_rows (parse_row py z stamps volumes opens highs lows closes) (i # is) = Inl OverflowError"
    "253402300800 \<le> q \<Longrightarrow> q < 9223372036854775808 \<Longrightarrow>
      parse_rows (parse_row py z stamps volumes opens highs lows closes) (i # is)
        = parse_rows (parse_row py z stamps volumes opens highs lows closes) is"
  by (simp_all add: parse_row_def assms fromtimestamp_def)

end
