(* ===== verification/Engine_Warmup.thy ===== *)
theory Engine_Warmup
  imports Engine_Safety Warmup
begin

text \<open>
  common/engine/engine.py, run and its warm-up: what happens between the start
  of the day and the first live tick.  What a run needs beside the engine's
  environment is a record here: the strategy's answer to warmup\_spec, the
  injected manager and source, the provider of today's candles and the strategy's
  hook for the end of the warm-up.
\<close>

section \<open>The warm-up of a run\<close>

record ('s, 'w) warm_setup =
  wu_spec :: "'s \<Rightarrow> strategy_warmup_spec option result"
  wu_manager :: "warmup_manager option"
  wu_source :: "warmup_source option"
  wu_history :: "(candle list, 'w) act option"
  wu_on_complete :: "bool \<Rightarrow> (unit, 's) act"

text \<open>The signal of a replayed candle is discarded.\<close>

definition warm_sink :: "('s, 'w) engine_env \<Rightarrow> candle \<Rightarrow> (unit, ('s, 'w) engine) act" where
  "warm_sink env c =
     andDo (modify (\<lambda>e. e\<lparr>en_world := ee_regime_observe env (to_ohlc c) (en_world e)\<rparr>))
       (andThen (on_strategy (so_on_candle (ee_strategy env) (to_ohlc c) (cd_start_at c))) (\<lambda>_. ret ()))"

fun replay_history :: "('s, 'w) engine_env \<Rightarrow> candle list \<Rightarrow> (unit, ('s, 'w) engine) act" where
  "replay_history env [] = ret ()"
| "replay_history env (c # cs) = andDo (warm_sink env c) (replay_history env cs)"

definition warm_from_history ::
  "('s, 'w) engine_env \<Rightarrow> ('s, 'w) warm_setup \<Rightarrow> datetime \<Rightarrow> (bool, ('s, 'w) engine) act" where
  "warm_from_history env u now e =
     (case wu_history u of
        None \<Rightarrow> (Inr False, e)
      | Some provider \<Rightarrow>
          (case on_world provider e of
             (Inl _, e1) \<Rightarrow> (Inr False, e1)
           | (Inr candles, e1) \<Rightarrow>
               if candles = [] then (Inr False, e1)
               else
                 andDo (replay_history env candles)
                   (andThen (lift_result (floor_to_interval now (ee_interval env * 60))) (\<lambda>current_bucket.
                    ret (current_bucket \<le> cd_end_at (last candles)))) e1))"

text \<open>What a warm-up returns is whether the context it replayed is trusted.\<close>

definition warm_up :: "('s, 'w) engine_env \<Rightarrow> ('s, 'w) warm_setup \<Rightarrow> datetime \<Rightarrow> (bool, ('s, 'w) engine) act" where
  "warm_up env u now =
     reading (\<lambda>e.
       case wu_spec u (en_strategy e) of
         Inl _ \<Rightarrow> andThen (block_entries env Warmup_Failed) (\<lambda>_. ret False)
       | Inr spec_option \<Rightarrow>
           (case (wu_manager u, wu_source u, spec_option) of
              (Some m, Some source, Some spec) \<Rightarrow>
                andThen (warm m (warm_sink env) source (Some spec) (ee_session env) (ee_interval env) (Some now)) (\<lambda>r.
                andThen (if entry_blocked_by spec (wr_status r) then block_entries env Warmup_Failed else ret ()) (\<lambda>_.
                ret (wr_status r = WARMED)))
            | _ \<Rightarrow> warm_from_history env u now))"

definition run_engine ::
  "('s, 'w) engine_env \<Rightarrow> ('s, 'w) warm_setup \<Rightarrow> datetime \<Rightarrow> datetime \<Rightarrow> engine_event list \<Rightarrow> (unit, ('s, 'w) engine) act" where
  "run_engine env u now stopped_at evs =
     andDo (start_day env)
       (andThen (warm_up env u now) (\<lambda>context_trusted.
        andDo (on_strategy (wu_on_complete u context_trusted)) (drive env stopped_at evs)))"

section \<open>The book before the first tick\<close>

definition idle :: "position_manager \<Rightarrow> ('s, 'w) engine \<Rightarrow> bool" where
  "idle pm e = (en_positions e = pm \<and> en_pending e = None)"

lemma idle_frames [keep_rules]:
  "keeps (idle pm) (on_strategy m)" "keeps (idle pm) (on_world n)" "keeps (idle pm) (upd_feed f)"
  "keeps (idle pm) (notify env ev)" "keeps (idle pm) (upd_risk g)"
  by (auto simp: tri_def on_strategy_def on_world_def upd_feed_def notify_def upd_risk_def modify_def idle_def split: prod.splits sum.splits)

lemma idle_modify [keep_rules]: "(\<And>e. idle pm e \<Longrightarrow> idle pm (f e)) \<Longrightarrow> keeps (idle pm) (modify f)"
  by (rule tri_modify)

lemma block_entries_idle [keep_rules]: "keeps (idle pm) (block_entries env reason)"
  unfolding block_entries_def by (intro keep_rules) (simp add: idle_def)

lemma warm_sink_idle [keep_rules]: "keeps (idle pm) (warm_sink env c)"
  unfolding warm_sink_def by (intro keep_rules) (simp add: idle_def)

lemma replay_history_idle [keep_rules]: "keeps (idle pm) (replay_history env cs)"
  by (induction cs) (auto intro!: keep_rules)

lemma replay_idle: "replay_candles (warm_sink env) n cs e = (b, k, e1) \<Longrightarrow> idle pm e \<Longrightarrow> idle pm e1"
proof (induction cs arbitrary: n e)
  case (Cons c cs)
  obtain r e2 where c: "warm_sink env c e = (r, e2)" by fastforce
  from keepsD [OF warm_sink_idle Cons.prems(2) c] Cons c show ?case by (cases r) auto
qed simp

lemma warm_idle: "keeps (idle pm) (warm m (warm_sink env) source spec s tf now)"
proof (rule triI)
  fix e r e1
  assume "idle pm e" "warm m (warm_sink env) source spec s tf now e = (r, e1)"
  then have "idle pm e1"
    by (auto simp: warm_def dest: replay_idle split: option.splits if_splits sum.splits prod.splits bool.splits)
  then show "case r of Inl _ \<Rightarrow> idle pm e1 | Inr _ \<Rightarrow> idle pm e1" by (cases r) simp_all
qed

lemma warm_from_history_idle: "keeps (idle pm) (warm_from_history env u now)"
proof (cases "wu_history u")
  case (Some provider)
  show ?thesis
  proof (rule triI)
    fix e r e1
    assume h: "idle pm e" "warm_from_history env u now e = (r, e1)"
    obtain x e2 where x: "on_world provider e = (x, e2)" by fastforce
    have i: "idle pm e2" using keepsD [OF idle_frames(2) h(1) x] .
    have k: "keeps (idle pm) (andDo (replay_history env cs)
        (andThen (lift_result (floor_to_interval now (ee_interval env * 60))) (\<lambda>b. ret (b \<le> cd_end_at (last cs)))))" for cs
      by (intro keep_rules)
    have "idle pm e1" using h(2) x i keepsD [OF k i]
      by (auto simp: warm_from_history_def Some split: sum.splits if_splits)
    then show "case r of Inl _ \<Rightarrow> idle pm e1 | Inr _ \<Rightarrow> idle pm e1" by (cases r) simp_all
  qed
qed (auto simp: tri_def warm_from_history_def)

lemma warm_up_idle: "keeps (idle pm) (warm_up env u now)"
  unfolding warm_up_def
  by (auto intro!: keep_forms warm_idle warm_from_history_idle block_entries_idle split: sum.split option.split)

text \<open>Without a position to recover, the day starts with the book it had and nothing pending.\<close>

lemma start_day_idle:
  fixes env :: "('s, 'w) engine_env"
  assumes "ee_recover_position env = None"
  shows "tri (\<lambda>e. en_positions e = pm) (start_day env) (\<lambda>_. idle pm) (\<lambda>e. en_positions e = pm)"
proof (rule triI)
  fix e r e'
  assume h: "en_positions e = pm" "start_day env e = (r, e')"
  define clean where "clean = (\<lambda>e :: ('s, 'w) engine. e\<lparr>en_candles := reset_builder (en_candles e),
     en_world := ee_regime_reset env (en_world e), en_spot := None, en_pending := None, en_pending_side := None,
     en_squared_off := False, en_entry_blocked := None, en_last_processed_candle_end := None,
     en_daily_guard := map_option reset_guard (en_daily_guard e)\<rparr>)"
  define forget where "forget = (\<lambda>e :: ('s, 'w) engine. case en_option_candles e of
     None \<Rightarrow> e
   | Some b \<Rightarrow> e\<lparr>en_option_candles := Some (reset_builder b), en_option_candle_contract_id := None,
                  en_last_option_tick_ts := None, en_premium_gap_logged := False\<rparr>)"
  have rest: "keeps (idle pm) (andDo (restore_daily_risk env) (andDo (modify forget)
      (andDo (upd_feed (subscribe (ee_underlying_id env))) (adopt_recovered_position env))))"
  proof -
    have "keeps (idle pm) (restore_daily_risk env)"
    proof (rule triI)
      fix e1 :: "('s, 'w) engine" and r1 e2
      assume i: "idle pm e1" "restore_daily_risk env e1 = (r1, e2)"
      have w: "idle pm (e1\<lparr>en_world := w\<rparr>)" "idle pm (e1\<lparr>en_world := w, en_daily_guard := g\<rparr>)" for w g
        using i(1) by (simp_all add: idle_def)
      have "idle pm e2" using i keepsD [OF block_entries_idle w(1)] w
        by (auto simp: restore_daily_risk_def on_world_def split: option.splits prod.splits sum.splits)
      then show "case r1 of Inl _ \<Rightarrow> idle pm e2 | Inr _ \<Rightarrow> idle pm e2" by (cases r1) simp_all
    qed
    moreover have "keeps (idle pm) (adopt_recovered_position env)"
      by (simp add: tri_def adopt_recovered_position_def assms)
    moreover have "keeps (idle pm) (modify forget)"
      by (rule idle_modify) (simp add: idle_def forget_def split: option.split)
    ultimately show ?thesis by - (intro keep_forms(3) idle_frames; assumption)
  qed
  obtain r1 e1 where 1: "on_strategy (so_reset (ee_strategy env)) e = (r1, e1)" by fastforce
  have p1: "en_positions e1 = pm" using 1 h(1) by (auto simp: on_strategy_def split: prod.splits)
  show "case r of Inl _ \<Rightarrow> en_positions e' = pm | Inr _ \<Rightarrow> idle pm e'"
  proof (cases r1)
    case (Inl x)
    then show ?thesis using h(2) 1 p1 by (auto simp: start_day_def act_run)
  next
    case (Inr x)
    define e2 where "e2 = clean (e1\<lparr>en_strategy := so_risk_reset (ee_strategy env) (en_strategy e1)\<rparr>)"
    have "idle pm e2" by (simp add: e2_def clean_def idle_def p1)
    moreover have "andDo (restore_daily_risk env) (andDo (modify forget)
      (andDo (upd_feed (subscribe (ee_underlying_id env))) (adopt_recovered_position env))) e2 = (r, e')"
      using h(2) 1 Inr unfolding start_day_def clean_def [symmetric] forget_def [symmetric]
      by (simp add: act_run upd_risk_def e2_def)
    ultimately have "idle pm e'" using keepsD [OF rest] by blast
    then show ?thesis by (cases r) (simp_all add: idle_def)
  qed
qed

section \<open>No trade before a whole history\<close>

text \<open>An empty book whose entries are shut stays as it is.\<close>

lemma shut_empty_step:
  "book_step env b b' \<Longrightarrow> entries_shut b \<and> pm_positions (bk_manager b) = [] \<Longrightarrow>
    entries_shut b' \<and> pm_positions (bk_manager b') = [] \<and> pm_trades (bk_manager b') = pm_trades (bk_manager b)"
proof -
  assume st: "book_step env b b'" and h: "entries_shut b \<and> pm_positions (bk_manager b) = []"
  have "entries_shut b' \<and> only_leaves [] b'"
    by (rule shut_step [OF st]) (use h in \<open>simp add: only_leaves_def\<close>)
  moreover have "pm_trades (bk_manager b') = pm_trades (bk_manager b)" using st h
  proof (induction rule: book_step.induct)
    case (opened b c s ts price regime features stop target w p pm w1)
    then show ?case by (simp add: entries_shut_def)
  next
    case (left pid price ts reason regime tags b w t pm w1)
    then show ?case using close_leg_book [OF left(1)] by auto
  qed simp_all
  ultimately show ?thesis by (simp add: only_leaves_def)
qed

lemma shut_empty_steps:
  "book_steps env b b' \<Longrightarrow> entries_shut b \<Longrightarrow> pm_positions (bk_manager b) = [] \<Longrightarrow>
    pm_positions (bk_manager b') = [] \<and> pm_trades (bk_manager b') = pm_trades (bk_manager b)"
proof -
  assume "book_steps env b b'" "entries_shut b" "pm_positions (bk_manager b) = []"
  then have "entries_shut b' \<and> pm_positions (bk_manager b') = [] \<and> pm_trades (bk_manager b') = pm_trades (bk_manager b)"
    by (induction rule: rtranclp_induct) (use shut_empty_step in metis)+
  then show ?thesis by simp
qed

lemma shut_drive:
  assumes "idle pm e" "pm_positions pm = []" "en_entry_blocked e \<noteq> None" "drive env now evs e = (r, e')"
  shows "pm_positions (en_positions e') = [] \<and> pm_trades (en_positions e') = pm_trades pm"
proof -
  have "keyed (en_positions e)" using assms(1,2) by (simp add: idle_def keyed_def filed_def)
  from shut_empty_steps [OF drive_book [OF this assms(4)]] show ?thesis
    using assms(1-3) by (simp add: idle_def entries_shut_def)
qed

lemma block_entries_blocks: "block_entries env reason e = (Inr (), e1) \<Longrightarrow> en_entry_blocked e1 \<noteq> None"
  by (auto simp: block_entries_def act_run notify_def split: if_splits)

lemma block_entries_returns: "fst (block_entries env reason e) = Inr ()"
  by (simp add: block_entries_def act_run notify_def)

lemma on_strategy_frame:
  "on_strategy m e = (r, e1) \<Longrightarrow> en_entry_blocked e1 = en_entry_blocked e"
  by (auto simp: on_strategy_def split: prod.splits)

text \<open>What a run that did something must have gone through.\<close>

lemma run_engine_cases:
  assumes "ee_recover_position env = None" "pm_positions (en_positions e) = []"
    and "run_engine env u now stopped_at evs e = (r, e')"
    and "pm_positions (en_positions e') \<noteq> [] \<or> pm_trades (en_positions e') \<noteq> pm_trades (en_positions e)"
  obtains e1 b e2 e3 where "start_day env e = (Inr (), e1)" "warm_up env u now e1 = (Inr b, e2)"
    "on_strategy (wu_on_complete u b) e2 = (Inr (), e3)" "drive env stopped_at evs e3 = (r, e')"
    "en_entry_blocked e2 = None" "idle (en_positions e) e2"
proof -
  let ?pm = "en_positions e"
  obtain r1 e1 where 1: "start_day env e = (r1, e1)" by fastforce
  from tri_run [OF start_day_idle [OF assms(1)] refl 1]
  have s: "case r1 of Inl _ \<Rightarrow> en_positions e1 = ?pm | Inr _ \<Rightarrow> idle ?pm e1" .
  obtain r2 e2 where 2: "warm_up env u now e1 = (r2, e2)" by fastforce
  have r1: "r1 = Inr ()" using s assms(2-4) 1 by (cases r1) (auto simp: run_engine_def act_run)
  then have i1: "idle ?pm e1" using s by simp
  have i2: "idle ?pm e2" by (rule keepsD [OF warm_up_idle i1 2])
  obtain b where b: "r2 = Inr b"
    using i2 assms(2-4) 1 2 r1 by (cases r2) (auto simp: run_engine_def act_run idle_def)
  obtain r3 e3 where 3: "on_strategy (wu_on_complete u b) e2 = (r3, e3)" by fastforce
  have i3: "idle ?pm e3" by (rule keepsD [OF idle_frames(1) i2 3])
  have r3: "r3 = Inr ()"
    using i3 assms(2-4) 1 2 3 r1 b by (cases r3) (auto simp: run_engine_def act_run idle_def)
  have 4: "drive env stopped_at evs e3 = (r, e')" using assms(3) 1 2 3 r1 b r3 by (simp add: run_engine_def act_run)
  have "en_entry_blocked e3 = None" using shut_drive [OF i3 assms(2) _ 4] assms(4) by blast
  then have "en_entry_blocked e2 = None" using on_strategy_frame [OF 3] by simp
  with that 1 2 3 4 r1 b r3 i2 show ?thesis by blast
qed

lemma andThen_Inr:
  "andThen m f s = (Inr b, s2) \<longleftrightarrow> (\<exists>x s1. m s = (Inr x, s1) \<and> f x s1 = (Inr b, s2))"
  by (auto simp: andThen_def split: prod.splits sum.splits)

lemma warm_up_through_the_manager:
  assumes "wu_spec u = (\<lambda>_. Inr (Some spec))" "wu_manager u = Some m" "wu_source u = Some source"
    and "warm_up env u now e1 = (Inr b, e2)"
  shows "\<exists>wr e4. warm m (warm_sink env) source (Some spec) (ee_session env) (ee_interval env) (Some now) e1 = (Inr wr, e4)
    \<and> (if entry_blocked_by spec (wr_status wr) then block_entries env Warmup_Failed else ret ()) e4 = (Inr (), e2)
    \<and> b = (wr_status wr = WARMED)"
proof -
  have "andThen (warm m (warm_sink env) source (Some spec) (ee_session env) (ee_interval env) (Some now)) (\<lambda>r.
        andThen (if entry_blocked_by spec (wr_status r) then block_entries env Warmup_Failed else ret ()) (\<lambda>_.
        ret (wr_status r = WARMED))) e1 = (Inr b, e2)"
    using assms(4) by (simp add: warm_up_def assms(1-3) reading_def del: if_split)
  then obtain wr e4 y e5 where
    "warm m (warm_sink env) source (Some spec) (ee_session env) (ee_interval env) (Some now) e1 = (Inr wr, e4)"
    "(if entry_blocked_by spec (wr_status wr) then block_entries env Warmup_Failed else ret ()) e4 = (Inr y, e5)"
    "ret (wr_status wr = WARMED) e5 = (Inr b, e2)"
    unfolding andThen_Inr by blast
  then show ?thesis by (intro exI [of _ wr] exI [of _ e4]) (simp add: ret_def)
qed

text \<open>A strategy that cannot say what it needs does not trade either.\<close>

lemma unknown_requirement_never_trades:
  assumes "wu_spec u = (\<lambda>_. Inl x)" "ee_recover_position env = None" "pm_positions (en_positions e) = []"
    and "run_engine env u now stopped_at evs e = (r, e')"
  shows "pm_positions (en_positions e') = [] \<and> pm_trades (en_positions e') = pm_trades (en_positions e)"
proof (rule ccontr)
  assume "\<not> ?thesis"
  then obtain e1 b e2 where "warm_up env u now e1 = (Inr b, e2)" "en_entry_blocked e2 = None"
    using run_engine_cases [OF assms(2-4)] by metis
  then show False
    by (auto simp: warm_up_def assms(1) act_run dest!: block_entries_blocks split: prod.splits sum.splits)
qed

section \<open>A scripted warm run\<close>

text \<open>
  The scripted strategy is shown the candle from 9:15 before the first tick, and buys a call on
  the next.
\<close>

definition five_minutes :: candle where
  "five_minutes =
     \<lparr>cd_security_id = ''13'', cd_instrument = ''NIFTY'', cd_open = 10, cd_high = 12, cd_low = 9, cd_close = 11, cd_volume = 0,
      cd_start_at = at_ist 9 15 0, cd_end_at = at_ist 9 20 0, cd_tick_count = 0, cd_last_tick_at = None, cd_spans_gap = False\<rparr>"

definition warm_demo :: "candle list \<Rightarrow> (strategy_signal option list, in_memory_gateway) warm_setup" where
  "warm_demo cs =
     \<lparr>wu_spec = (\<lambda>_. Inr (Some one_bar_spec)), wu_manager = Some (fixed_manager cs), wu_source = Some index_source,
      wu_history = None, wu_on_complete = (\<lambda>_. ret ())\<rparr>"

definition warm_ticks :: "engine_event list" where
  "warm_ticks =
     map Tick_Arrives
       [tick_at ''13'' 23510 (at_ist 9 21 0), tick_at ''13'' 23520 (at_ist 9 26 0), tick_at ''42'' 120 (at_ist 9 26 5)]"

definition warm_demo_start :: "(strategy_signal option list, in_memory_gateway) engine" where
  "warm_demo_start = demo_engine [None, Some buy_call] (Some loss_cap)"

lemma warm_demo_trades:
  "length (pm_positions (en_positions (snd (run_engine demo_env (warm_demo [five_minutes]) (at_ist 9 20 30) (at_ist 9 27 0)
      warm_ticks warm_demo_start)))) = 1"
  by code_simp

text \<open>C38: a strategy whose signals need an unbroken history never trades without it.  When a run that
  starts flat ends with a position or a trade, the source had returned candles that are a complete history at the
  moment of the warm-up, the strategy had been shown every one of them before the first tick,
  and it was told that the context is trusted.
\<close>

theorem trades_only_on_whole_history:
  assumes "new_market_session cfg = Inr (ee_session env)" "0 < ee_interval env" "utcoffset now = Some (ms_tz (ee_session env))"
    and "wu_spec u = (\<lambda>_. Inr (Some spec))" "ws_continuity_required spec"
    and "wu_manager u = Some m" "wu_source u = Some source"
    and "ee_recover_position env = None" "pm_positions (en_positions e) = []"
    and "run_engine env u now stopped_at evs e = (r, e')"
    and "pm_positions (en_positions e') \<noteq> [] \<or> pm_trades (en_positions e') \<noteq> pm_trades (en_positions e)"
  shows "\<exists>lookback candles e1 e2 e3.
      start_day env e = (Inr (), e1)
    \<and> wm_fetch_fn m source (ee_session env) (ee_interval env) lookback (Some now) = Inr candles
    \<and> complete_history (ee_session env) (ee_interval env) spec now candles
    \<and> replay_candles (warm_sink env) 0 candles e1 = (True, length candles, e2)
    \<and> on_strategy (wu_on_complete u True) e2 = (Inr (), e3)
    \<and> drive env stopped_at evs e3 = (r, e')"
proof -
  obtain e1 b e2 e3 where
    run: "start_day env e = (Inr (), e1)" "warm_up env u now e1 = (Inr b, e2)"
      "on_strategy (wu_on_complete u b) e2 = (Inr (), e3)" "drive env stopped_at evs e3 = (r, e')"
    and open_: "en_entry_blocked e2 = None"
    by (rule run_engine_cases [OF assms(8-11)], rule that, assumption+)
  from warm_up_through_the_manager [OF assms(4,6,7) run(2)] obtain wr e4 where
    w: "warm m (warm_sink env) source (Some spec) (ee_session env) (ee_interval env) (Some now) e1 = (Inr wr, e4)"
    and post: "(if entry_blocked_by spec (wr_status wr) then block_entries env Warmup_Failed else ret ()) e4 = (Inr (), e2)"
    and b: "b = (wr_status wr = WARMED)" by blast
  have "\<not> entry_blocked_by spec (wr_status wr)"
  proof
    assume "entry_blocked_by spec (wr_status wr)"
    then have "block_entries env Warmup_Failed e4 = (Inr (), e2)" using post by simp
    from block_entries_blocks [OF this] open_ show False by simp
  qed
  then have st: "wr_status wr = WARMED" "e4 = e2" using assms(5) post by (auto simp: entry_blocked_by_def act_run)
  from warm_warmed [OF w st(1)] obtain lookback candles where c:
    "wm_fetch_fn m source (ee_session env) (ee_interval env) lookback (Some now) = Inr candles"
    "replay_candles (warm_sink env) 0 candles e1 = (True, wr_candles_replayed wr, e4)"
    "verify m spec (ee_session env) (ee_interval env) now candles = Inr WARMED" "0 < ws_min_bars spec" by blast
  have "complete_history (ee_session env) (ee_interval env) spec now candles"
    by (rule verify_warmed [OF new_session_whole [OF assms(1)] assms(2,3) c(4,3)])
  moreover have "wr_candles_replayed wr = length candles" using replay_candles_all [OF c(2)] by simp
  moreover have "b = True" using b st(1) by simp
  ultimately show ?thesis using run(1,3,4) c(1,2) st(2) by metis
qed

lemma trades_only_on_whole_history_witness:
  "\<exists>lookback candles e1 e2 e3.
      start_day demo_env warm_demo_start = (Inr (), e1)
    \<and> wm_fetch_fn (fixed_manager [five_minutes]) index_source demo_session 5 lookback (Some (at_ist 9 20 30)) = Inr candles
    \<and> complete_history demo_session 5 one_bar_spec (at_ist 9 20 30) candles
    \<and> replay_candles (warm_sink demo_env) 0 candles e1 = (True, length candles, e2)
    \<and> on_strategy (wu_on_complete (warm_demo [five_minutes]) True) e2 = (Inr (), e3)
    \<and> drive demo_env (at_ist 9 27 0) warm_ticks e3
        = run_engine demo_env (warm_demo [five_minutes]) (at_ist 9 20 30) (at_ist 9 27 0) warm_ticks warm_demo_start"
proof -
  have h: "new_market_session \<lparr>sc_timezone = ist, sc_start_time = ''09:15'', sc_end_time = ''15:00'', sc_square_off_time = ''15:15'',
      sc_holidays = []\<rparr> = Inr (ee_session demo_env)"
    "0 < ee_interval demo_env" "utcoffset (at_ist 9 20 30) = Some (ms_tz (ee_session demo_env))"
    by code_simp+
  have u: "wu_spec (warm_demo [five_minutes]) = (\<lambda>_. Inr (Some one_bar_spec))" "ws_continuity_required one_bar_spec"
    "wu_manager (warm_demo [five_minutes]) = Some (fixed_manager [five_minutes])"
    "wu_source (warm_demo [five_minutes]) = Some index_source" "ee_recover_position demo_env = None"
    "pm_positions (en_positions warm_demo_start) = []"
    by (simp_all add: warm_demo_def one_bar_spec_def demo_env_def warm_demo_start_def demo_engine_def new_position_manager_def)
  have "ee_interval demo_env = 5" by (simp add: demo_env_def)
  moreover have "pm_positions (en_positions (snd (run_engine demo_env (warm_demo [five_minutes]) (at_ist 9 20 30) (at_ist 9 27 0)
      warm_ticks warm_demo_start))) \<noteq> []"
    using warm_demo_trades by auto
  ultimately show ?thesis
    using trades_only_on_whole_history [OF h u prod.collapse [symmetric]] by (simp add: demo_env_simps(3))
qed

text \<open>
  The fallback's replay is not guarded: a candle on which the strategy raises ends the run before its
  first tick, where the comment promises a cold start.
\<close>

lemma fallback_failure_ends_the_run:
  assumes "wu_spec u = (\<lambda>_. Inr spec)" "wu_manager u = None" "wu_history u = Some (ret [c])"
    and "start_day env e = (Inr (), e1)" "warm_sink env c e1 = (Inl x, e2)"
  shows "run_engine env u now stopped_at evs e = (Inl x, e2)"
proof -
  have "on_world (ret [c]) e1 = (Inr [c], e1)" by (simp add: on_world_def ret_def)
  then have "warm_up env u now e1 = (Inl x, e2)"
    using assms(5) by (simp add: warm_up_def assms(1-3) warm_from_history_def act_run)
  then show ?thesis using assms(4) by (simp add: run_engine_def act_run)
qed

end
