(* ===== verification/Hub_Tick_Feed.thy ===== *)
theory Hub_Tick_Feed
  imports Engine_Safety Feed_Queues
begin

text \<open>
  common/engine/hub\_feed.py: the tick source of a worker process, which reads the
  hub's tick channel, and the callbacks that runtimes/intraday\_options/engine\_worker.py
  wires it to its engine with.  What a turn of its loop meets is a wake: the
  wall clock, whether a signal handler asked for a square-off since the turn before,
  and what the queue gave within the poll time.  Message texts are fixed.
\<close>

section \<open>The loop\<close>

record wake =
  wk_now :: datetime
  wk_signalled :: bool
  wk_item :: "feed_item option"

record 'c hub_client =
  hc_signal :: "'c \<Rightarrow> 'c"
  hc_on_poll :: "(datetime \<Rightarrow> (unit, 'c) act) option"
  hc_should_stop :: "('c \<Rightarrow> bool) option"
  hc_on_square_off :: "(unit, 'c) act option"
  hc_on_tick_dropped :: "(nat \<Rightarrow> (unit, 'c) act) option"
  hc_observers :: "(tick \<Rightarrow> (unit, 'c) act) list"
  hc_on_tick :: "tick \<Rightarrow> (unit, 'c) act"
  hc_running :: "'c \<Rightarrow> bool"
  hc_set_running :: "bool \<Rightarrow> 'c \<Rightarrow> 'c"

record hub_tick_feed =
  ht_poll :: rat
  ht_idle_timeout :: "rat option"
  ht_idle_seconds :: rat
  ht_stopped_by_sentinel :: bool
  ht_stopped_by_idle_timeout :: bool
  ht_stopped_by_request :: bool
  ht_ticks_received :: nat
  ht_ticks_dropped_upstream :: nat

definition new_hub_tick_feed :: "rat \<Rightarrow> rat option \<Rightarrow> hub_tick_feed" where
  "new_hub_tick_feed poll_seconds idle_timeout_seconds =
     \<lparr>ht_poll = poll_seconds, ht_idle_timeout = idle_timeout_seconds, ht_idle_seconds = 0, ht_stopped_by_sentinel = False,
      ht_stopped_by_idle_timeout = False, ht_stopped_by_request = False, ht_ticks_received = 0, ht_ticks_dropped_upstream = 0\<rparr>"

definition optionally :: "(unit, 'c) act option \<Rightarrow> (unit, 'c) act" where
  "optionally callback = (case callback of None \<Rightarrow> ret () | Some m \<Rightarrow> m)"

fun show_observers :: "(tick \<Rightarrow> (unit, 'c) act) list \<Rightarrow> tick \<Rightarrow> (unit, 'c) act" where
  "show_observers [] t = ret ()"
| "show_observers (ob # obs) t = andDo (ob t) (show_observers obs t)"

definition emit_tick :: "'c hub_client \<Rightarrow> tick \<Rightarrow> (unit, 'c) act" where
  "emit_tick cl t = andDo (show_observers (hc_observers cl) t) (hc_on_tick cl t)"

text \<open>
  What the loop does with an item: the operation it runs, the counters it leaves and
  whether it goes on.  A candle on the tick channel is no tick: the first attribute read of it raises.
\<close>

definition item_action :: "'c hub_client \<Rightarrow> feed_item \<Rightarrow> hub_tick_feed \<Rightarrow> (unit, 'c) act \<times> hub_tick_feed \<times> bool" where
  "item_action cl item h0 =
     (let h = h0\<lparr>ht_idle_seconds := 0\<rparr> in
      case item of
        Shutdown_Sentinel \<Rightarrow> (optionally (hc_on_square_off cl), h\<lparr>ht_stopped_by_sentinel := True\<rparr>, False)
      | Drop_Notice n \<Rightarrow>
          (optionally (map_option (\<lambda>f. f n) (hc_on_tick_dropped cl)),
           h\<lparr>ht_ticks_dropped_upstream := max (ht_ticks_dropped_upstream h) n\<rparr>, True)
      | Tick_Item t \<Rightarrow> (emit_tick cl t, h\<lparr>ht_ticks_received := ht_ticks_received h + 1\<rparr>, True)
      | Candle_Item c \<Rightarrow> (lift_result (Inl AttributeError), h\<lparr>ht_ticks_received := ht_ticks_received h + 1\<rparr>, True))"

text \<open>The loop returns None while it is still waiting at the end of the wakes given.\<close>

fun hub_loop ::
  "'c hub_client \<Rightarrow> wake list \<Rightarrow> hub_tick_feed \<times> 'c \<Rightarrow> unit result option \<times> hub_tick_feed \<times> 'c" where
  "hub_loop cl [] (h, c) = (if hc_running cl c then (None, h, c) else (Some (Inr ()), h, c))"
| "hub_loop cl (wk # wks) (h, c) =
     (if \<not> hc_running cl c then (Some (Inr ()), h, c)
      else
        case optionally (map_option (\<lambda>f. f (wk_now wk)) (hc_on_poll cl)) (if wk_signalled wk then hc_signal cl c else c) of
          (Inl x, c1) \<Rightarrow> (Some (Inl x), h, c1)
        | (Inr _, c1) \<Rightarrow>
            if opt_holds (\<lambda>f. f c1) (hc_should_stop cl) then (Some (Inr ()), h\<lparr>ht_stopped_by_request := True\<rparr>, c1)
            else
              (case wk_item wk of
                 None \<Rightarrow>
                   let h1 = h\<lparr>ht_idle_seconds := ht_idle_seconds h + ht_poll h\<rparr> in
                   if opt_holds (\<lambda>limit. limit \<le> ht_idle_seconds h1) (ht_idle_timeout h1)
                   then (Some (Inr ()), h1\<lparr>ht_stopped_by_idle_timeout := True\<rparr>, c1)
                   else hub_loop cl wks (h1, c1)
               | Some item \<Rightarrow>
                   (case item_action cl item h of
                      (m, h1, goes_on) \<Rightarrow>
                        (case m c1 of
                           (Inl x, c2) \<Rightarrow> (Some (Inl x), h1, c2)
                         | (Inr _, c2) \<Rightarrow> if goes_on then hub_loop cl wks (h1, c2) else (Some (Inr ()), h1, c2)))))"

text \<open>The whole run: the flag goes up, and down again however the loop ends.\<close>

definition run_hub_feed ::
  "'c hub_client \<Rightarrow> wake list \<Rightarrow> hub_tick_feed \<times> 'c \<Rightarrow> unit result option \<times> hub_tick_feed \<times> 'c" where
  "run_hub_feed cl wks =
     (\<lambda>(h, c). case hub_loop cl wks (h\<lparr>ht_idle_seconds := 0\<rparr>, hc_set_running cl True c) of
        (None, h1, c1) \<Rightarrow> (None, h1, c1)
      | (Some r, h1, c1) \<Rightarrow> (Some r, h1, hc_set_running cl False c1))"

section \<open>The wiring of a worker\<close>

record 'w worker_wiring =
  ww_trading_date :: day
  ww_read_request :: "(bool, 'w) act"
  ww_record_quote :: "tick \<Rightarrow> (unit, 'w) act"

text \<open>The wall clock speaks only for its own day.\<close>

definition wall_clock_square_off ::
  "('s, 'w) engine_env \<Rightarrow> 'w worker_wiring \<Rightarrow> datetime \<Rightarrow> (unit, ('s, 'w) engine) act" where
  "wall_clock_square_off env ww now =
     reading (\<lambda>e.
       if en_square_off_requested e then ret ()
       else if dt_date now \<noteq> ww_trading_date ww then ret ()
       else andThen (on_world (ee_due env now)) (\<lambda>is_due. if is_due then request_square_off else ret ()))"

definition operator_requested_square_off :: "'w worker_wiring \<Rightarrow> (unit, ('s, 'w) engine) act" where
  "operator_requested_square_off ww =
     reading (\<lambda>e.
       if en_square_off_requested e then ret ()
       else andThen (on_world (ww_read_request ww)) (\<lambda>present. if present then request_square_off else ret ()))"

definition combined_poll ::
  "('s, 'w) engine_env \<Rightarrow> 'w worker_wiring \<Rightarrow> datetime \<Rightarrow> (unit, ('s, 'w) engine) act" where
  "combined_poll env ww now = andDo (wall_clock_square_off env ww now) (operator_requested_square_off ww)"

definition on_tick_dropped :: "('s, 'w) engine_env \<Rightarrow> nat \<Rightarrow> (unit, ('s, 'w) engine) act" where
  "on_tick_dropped env n = block_entries env (Reported ''the hub dropped ticks for this worker'')"

definition engine_client :: "('s, 'w) engine_env \<Rightarrow> 'w worker_wiring \<Rightarrow> ('s, 'w) engine hub_client" where
  "engine_client env ww =
     \<lparr>hc_signal = (\<lambda>e. e\<lparr>en_square_off_requested := True\<rparr>),
      hc_on_poll = Some (combined_poll env ww),
      hc_should_stop = Some en_square_off_requested,
      hc_on_square_off = Some request_square_off,
      hc_on_tick_dropped = Some (on_tick_dropped env),
      hc_observers = [\<lambda>t. on_world (ww_record_quote ww t)],
      hc_on_tick = on_tick env,
      hc_running = (\<lambda>e. fd_running (en_feed e)),
      hc_set_running = (\<lambda>b e. e\<lparr>en_feed := (en_feed e)\<lparr>fd_running := b\<rparr>\<rparr>)\<rparr>"

text \<open>The engine's run around this feed, as it is around any: None while the feed has not returned.\<close>

definition drive_from_hub ::
  "('s, 'w) engine_env \<Rightarrow> 'w worker_wiring \<Rightarrow> datetime \<Rightarrow> wake list \<Rightarrow> hub_tick_feed \<times> ('s, 'w) engine
    \<Rightarrow> unit result option \<times> hub_tick_feed \<times> ('s, 'w) engine" where
  "drive_from_hub env ww stopped_at wks st =
     (case run_hub_feed (engine_client env ww) wks st of
        (None, h, e) \<Rightarrow> (None, h, e)
      | (Some r, h, e) \<Rightarrow>
          (case attempt (lift_result r)
                  (\<lambda>x. andDo (notify env ''engine_error'') (andDo (handle_square_off env stopped_at) (lift_result (Inl x)))) e of
             (r1, e1) \<Rightarrow>
               (case finish env stopped_at e1 of
                  (Inl y, e2) \<Rightarrow> (Some (Inl y), h, e2)
                | (Inr _, e2) \<Rightarrow> (Some r1, h, e2))))"

section \<open>What the loop keeps\<close>

text \<open>An assertion on the client that each of its operations keeps is kept by the loop.\<close>

definition client_keeps :: "('c \<Rightarrow> bool) \<Rightarrow> 'c hub_client \<Rightarrow> bool" where
  "client_keeps P cl =
     ((\<forall>c. P c \<longrightarrow> P (hc_signal cl c)) \<and> (\<forall>now. keeps P (optionally (map_option (\<lambda>f. f now) (hc_on_poll cl))))
      \<and> keeps P (optionally (hc_on_square_off cl))
      \<and> (\<forall>n. keeps P (optionally (map_option (\<lambda>f. f n) (hc_on_tick_dropped cl))))
      \<and> (\<forall>ob\<in>set (hc_observers cl). \<forall>t. keeps P (ob t)) \<and> (\<forall>t. keeps P (hc_on_tick cl t))
      \<and> (\<forall>b c. P c \<longrightarrow> P (hc_set_running cl b c)))"

lemma show_observers_keeps: "(\<forall>ob\<in>set obs. \<forall>t. keeps P (ob t)) \<Longrightarrow> keeps P (show_observers obs t)"
  by (induction obs) (auto intro!: keep_rules)

lemma item_action_keeps: "client_keeps P cl \<Longrightarrow> item_action cl item h = (m, h1, b) \<Longrightarrow> keeps P m"
  by (cases item)
     (auto simp: item_action_def client_keeps_def emit_tick_def Let_def intro!: keep_rules show_observers_keeps)

lemma hub_loop_keeps:
  assumes "client_keeps P cl" "P c" "hub_loop cl wks (h, c) = (r, h', c')"
  shows "P c'"
  using assms(2,3)
proof (induction wks arbitrary: h c)
  case Nil
  then show ?case by (auto split: if_splits)
next
  case (Cons wk wks)
  let ?poll = "optionally (map_option (\<lambda>f. f (wk_now wk)) (hc_on_poll cl))"
  let ?c0 = "if wk_signalled wk then hc_signal cl c else c"
  obtain x c1 where p: "?poll ?c0 = (x, c1)" by fastforce
  have k: "keeps P ?poll" "P ?c0" using assms(1) Cons.prems(1) by (auto simp: client_keeps_def)
  have c1: "P c1" by (rule keepsD [OF k p])
  show ?case
  proof (cases "wk_item wk")
    case None
    then show ?thesis using Cons.prems p c1 Cons.IH [OF c1]
      by (auto simp: Let_def split: if_splits sum.splits)
  next
    case (Some item)
    obtain m h1 b where a: "item_action cl item h = (m, h1, b)" by (metis surj_pair)
    obtain y c2 where m: "m c1 = (y, c2)" by fastforce
    have c2: "P c2" by (rule keepsD [OF item_action_keeps [OF assms(1) a] c1 m])
    show ?thesis using Cons.prems p c1 c2 Cons.IH [OF c2] Some a m
      by (auto split: if_splits sum.splits)
  qed
qed

lemma run_hub_feed_keeps:
  assumes "client_keeps P cl" "P c" "run_hub_feed cl wks (h, c) = (r, h', c')"
  shows "P c'"
proof -
  obtain r1 h1 c1 where l: "hub_loop cl wks (h\<lparr>ht_idle_seconds := 0\<rparr>, hc_set_running cl True c) = (r1, h1, c1)"
    by (metis surj_pair)
  have "P (hc_set_running cl True c)" using assms(1,2) by (simp add: client_keeps_def)
  from hub_loop_keeps [OF assms(1) this l] have "P c1" .
  then show ?thesis using assms(1,3) l by (auto simp: run_hub_feed_def client_keeps_def split: option.splits)
qed

text \<open>Waiting composes: what follows runs from the state the loop waits in.\<close>

lemma hub_loop_append:
  "hub_loop cl xs (h, c) = (None, h1, c1) \<Longrightarrow> hub_loop cl (xs @ ys) (h, c) = hub_loop cl ys (h1, c1)"
proof (induction xs arbitrary: h c)
  case Nil
  then show ?case by (simp split: if_splits)
next
  case (Cons wk xs)
  obtain x c2 where p: "optionally (map_option (\<lambda>f. f (wk_now wk)) (hc_on_poll cl)) (if wk_signalled wk then hc_signal cl c else c) = (x, c2)"
    by fastforce
  show ?case
  proof (cases "wk_item wk")
    case None
    then show ?thesis using Cons p by (auto simp: Let_def split: if_splits sum.splits)
  next
    case (Some item)
    obtain m h2 b where a: "item_action cl item h = (m, h2, b)" by (metis surj_pair)
    obtain y c3 where m: "m c2 = (y, c3)" by fastforce
    show ?thesis using Cons p Some a m by (auto split: if_splits sum.splits)
  qed
qed

lemma run_hub_feed_append:
  "run_hub_feed cl xs st = (None, h1, c1) \<Longrightarrow>
    run_hub_feed cl (xs @ ys) st = (case hub_loop cl ys (h1, c1) of
        (None, h2, c2) \<Rightarrow> (None, h2, c2)
      | (Some r, h2, c2) \<Rightarrow> (Some r, h2, hc_set_running cl False c2))"
  by (cases st) (auto simp: run_hub_feed_def hub_loop_append split: prod.splits option.splits)

lemma waiting_runs: "hub_loop cl xs (h, c) = (None, h1, c1) \<Longrightarrow> hc_running cl c1"
proof (induction xs arbitrary: h c)
  case (Cons wk xs)
  obtain x c2 where p: "optionally (map_option (\<lambda>f. f (wk_now wk)) (hc_on_poll cl)) (if wk_signalled wk then hc_signal cl c else c) = (x, c2)"
    by fastforce
  show ?case
  proof (cases "wk_item wk")
    case None
    then show ?thesis using Cons p by (auto simp: Let_def split: if_splits sum.splits)
  next
    case (Some item)
    obtain m h2 b where a: "item_action cl item h = (m, h2, b)" by (metis surj_pair)
    obtain y c3 where m: "m c2 = (y, c3)" by fastforce
    show ?thesis using Cons p Some a m by (auto split: if_splits sum.splits)
  qed
qed (auto split: if_splits)

lemma run_waiting_runs: "run_hub_feed cl xs st = (None, h1, c1) \<Longrightarrow> hc_running cl c1"
  by (cases st) (auto simp: run_hub_feed_def dest: waiting_runs split: prod.splits option.splits)

section \<open>The engine behind the feed\<close>

lemma engine_client_walks: "client_keeps (on_the_book (reached env b0)) (engine_client env ww)"
proof -
  have ask: "walks env b0 request_square_off" unfolding request_square_off_def by (rule keeps_modify) simp
  have wall: "walks env b0 (wall_clock_square_off env ww now)" for now
    unfolding wall_clock_square_off_def by (intro keep_engine ask; assumption)
  have operator: "walks env b0 (operator_requested_square_off ww)"
    unfolding operator_requested_square_off_def by (intro keep_engine ask; assumption)
  have poll: "walks env b0 (combined_poll env ww now)" for now
    unfolding combined_poll_def by (intro keep_rules wall operator)
  have quote: "walks env b0 (on_world m)" for m :: "(unit, 'b) act" by (rule book_frames) assumption
  show ?thesis using ask poll quote on_tick_walks block_entries_walks
    by (auto simp: client_keeps_def engine_client_def optionally_def on_tick_dropped_def on_the_book_def)
qed

lemma finish_walks: "walks env b0 (finish env now)"
  unfolding finish_def by (intro keep_engine keeps_modify; simp)

lemma drive_from_hub_walks:
  assumes "on_the_book (reached env b0) e" "drive_from_hub env ww stopped_at wks (h, e) = (r, h', e')"
  shows "on_the_book (reached env b0) e'"
proof -
  obtain r1 h1 e1 where f: "run_hub_feed (engine_client env ww) wks (h, e) = (r1, h1, e1)" by (metis surj_pair)
  have e1: "on_the_book (reached env b0) e1" by (rule run_hub_feed_keeps [OF engine_client_walks assms(1) f])
  show ?thesis
  proof (cases r1)
    case None
    then show ?thesis using assms(2) f e1 by (simp add: drive_from_hub_def)
  next
    case (Some x)
    let ?after = "attempt (lift_result x)
      (\<lambda>y. andDo (notify env ''engine_error'') (andDo (handle_square_off env stopped_at) (lift_result (Inl y))))"
    have k: "walks env b0 ?after" by (intro keep_engine; assumption)
    obtain y e2 where a: "?after e1 = (y, e2)" by fastforce
    obtain z e3 where z: "finish env stopped_at e2 = (z, e3)" by fastforce
    have "on_the_book (reached env b0) e3" by (rule keepsD [OF finish_walks keepsD [OF k e1 a] z])
    moreover have "e' = e3" using assms(2) f Some a z by (simp add: drive_from_hub_def split: sum.splits)
    ultimately show ?thesis by simp
  qed
qed

lemma drive_from_hub_book:
  assumes "keyed (en_positions e)" "drive_from_hub env ww stopped_at wks (h, e) = (r, h', e')"
  shows "book_steps env (book_of e) (book_of e')"
proof -
  have "on_the_book (reached env (book_of e)) e" using assms(1) by (simp add: on_the_book_def reached_def)
  from drive_from_hub_walks [OF this assms(2)] show ?thesis by (simp add: on_the_book_def reached_def)
qed

section \<open>A shutdown needs no tick\<close>

lemma engine_client_simps:
  "hc_on_poll (engine_client env ww) = Some (combined_poll env ww)"
  "hc_should_stop (engine_client env ww) = Some en_square_off_requested"
  "hc_running (engine_client env ww) = (\<lambda>e. fd_running (en_feed e))"
  "hc_on_tick_dropped (engine_client env ww) = Some (on_tick_dropped env)"
  "hc_set_running (engine_client env ww) = (\<lambda>b e. e\<lparr>en_feed := (en_feed e)\<lparr>fd_running := b\<rparr>\<rparr>)"
  by (simp_all add: engine_client_def)

lemma poll_asks:
  assumes "en_square_off_requested e
      \<or> (dt_date now = ww_trading_date ww \<and> ee_due env now (en_world e) = (Inr True, w))"
  shows "\<exists>e1. combined_poll env ww now e = (Inr (), e1) \<and> en_square_off_requested e1 \<and> book_of e1 = book_of e"
proof (cases "en_square_off_requested e")
  case True
  then show ?thesis by (simp add: combined_poll_def wall_clock_square_off_def operator_requested_square_off_def act_run)
next
  case False
  then show ?thesis using assms
    by (simp add: combined_poll_def wall_clock_square_off_def operator_requested_square_off_def act_run on_world_def
        request_square_off_def)
qed

lemma finish_flattens:
  assumes "keyed (en_positions e)" "\<not> en_squared_off e" "en_square_off_requested e" "finish env now e = (Inr (), e')"
  shows "pm_positions (en_positions e') = [] \<and> en_squared_off e'
    \<and> (\<exists>ts. pm_trades (en_positions e') = pm_trades (en_positions e) @ ts
        \<and> map (\<lambda>t. oc_security_id (tr_contract t)) ts = contract_ids (positions_of (en_positions e))
        \<and> list_all (\<lambda>t. tr_exit_reason t = SQUARE_OFF) ts)"
proof -
  define e1 where "e1 = e\<lparr>en_stopped_by_request := True\<rparr>"
  have h: "handle_square_off env now e1 = (Inr (), e')" using assms(3,4) by (simp add: finish_def act_run e1_def)
  have "reached env (book_of e) (book_of e1)" using assms(1) by (simp add: reached_def e1_def)
  from tri_run [OF handle_square_off_flattens [OF this] _ h] show ?thesis
    using assms(2) by (simp add: on_the_book_def squared_def squaring_def e1_def)
qed

text \<open>C39: a square-off never waits for a tick.  Whenever the feed of a worker waits on its queue and, at its next turn, a
  square-off has been requested, a signal arrives, or the wall clock of the trading day reaches a time at which the
  authority says square-off is due, the feed returns at that turn before it reads anything more, and unless the
  square-off raises, the engine ends flat: every open position has become a trade with the reason SQUARE\_OFF.
\<close>

theorem shutdown_needs_no_tick:
  assumes "keyed (en_positions e0)"
    and "run_hub_feed (engine_client env ww) pre (h0, e0) = (None, h, e)" "\<not> en_squared_off e"
    and "en_square_off_requested e \<or> wk_signalled wk
      \<or> (dt_date (wk_now wk) = ww_trading_date ww \<and> ee_due env (wk_now wk) (en_world e) = (Inr True, w))"
    and "drive_from_hub env ww stopped_at (pre @ wk # post) (h0, e0) = (r, h', e')"
  shows "h' = h\<lparr>ht_stopped_by_request := True\<rparr> \<and> r \<noteq> None
    \<and> (r = Some (Inr ()) \<longrightarrow> pm_positions (en_positions e') = [] \<and> en_squared_off e'
        \<and> (\<exists>ts. pm_trades (en_positions e') = pm_trades (en_positions e) @ ts
            \<and> map (\<lambda>t. oc_security_id (tr_contract t)) ts = contract_ids (positions_of (en_positions e))
            \<and> list_all (\<lambda>t. tr_exit_reason t = SQUARE_OFF) ts))"
proof -
  let ?cl = "engine_client env ww"
  have "on_the_book (reached env (book_of e0)) e"
    by (rule run_hub_feed_keeps [OF engine_client_walks _ assms(2)]) (simp add: on_the_book_def reached_def assms(1))
  then have keyed: "keyed (en_positions e)" by (auto simp: on_the_book_def dest: reached_keyed)
  have running: "fd_running (en_feed e)" using run_waiting_runs [OF assms(2)] by (simp add: engine_client_def)
  define ea where "ea = (if wk_signalled wk then e\<lparr>en_square_off_requested := True\<rparr> else e)"
  have "en_square_off_requested ea
      \<or> (dt_date (wk_now wk) = ww_trading_date ww \<and> ee_due env (wk_now wk) (en_world ea) = (Inr True, w))"
    using assms(4) by (auto simp: ea_def)
  from poll_asks [OF this] obtain eb where eb: "combined_poll env ww (wk_now wk) ea = (Inr (), eb)"
    "en_square_off_requested eb" "book_of eb = book_of ea" by blast
  have loop: "hub_loop ?cl (wk # post) (h, e) = (Some (Inr ()), h\<lparr>ht_stopped_by_request := True\<rparr>, eb)"
  proof -
    have "(if wk_signalled wk then hc_signal ?cl e else e) = ea" by (simp add: ea_def engine_client_def)
    then show ?thesis using running eb(1,2) by (simp add: engine_client_simps optionally_def del: if_split)
  qed
  define ec where "ec = eb\<lparr>en_feed := (en_feed eb)\<lparr>fd_running := False\<rparr>\<rparr>"
  have run: "run_hub_feed ?cl (pre @ wk # post) (h0, e0) = (Some (Inr ()), h\<lparr>ht_stopped_by_request := True\<rparr>, ec)"
    unfolding run_hub_feed_append [OF assms(2)] loop by (simp add: engine_client_def ec_def)
  obtain x ed where fin: "finish env stopped_at ec = (x, ed)" by fastforce
  have end_: "h' = h\<lparr>ht_stopped_by_request := True\<rparr>" "r = Some x" "e' = ed"
    using assms(5) run fin by (auto simp: drive_from_hub_def act_run split: sum.splits)
  have "book_of ec = book_of e" by (simp add: ec_def eb(3) ea_def)
  then have "en_positions ec = en_positions e" "en_squared_off ec = en_squared_off e"
    by (simp_all add: book_of_def)
  moreover have "en_square_off_requested ec" using eb(2) by (simp add: ec_def)
  ultimately show ?thesis using finish_flattens [of ec env stopped_at e'] fin end_ keyed assms(3) by auto
qed

definition quiet_at :: "datetime \<Rightarrow> wake" where
  "quiet_at now = \<lparr>wk_now = now, wk_signalled = False, wk_item = None\<rparr>"

definition demo_wiring :: "in_memory_gateway worker_wiring" where
  "demo_wiring = \<lparr>ww_trading_date = 0, ww_read_request = ret False, ww_record_quote = (\<lambda>_. ret ())\<rparr>"

definition silent_wakes :: "wake list" where
  "silent_wakes = [quiet_at (at_ist 15 14 0), quiet_at (at_ist 15 15 1)]"

definition silent_day :: "unit result option \<times> hub_tick_feed \<times> (strategy_signal option list, in_memory_gateway) engine" where
  "silent_day = drive_from_hub demo_env demo_wiring (at_ist 15 15 1) silent_wakes
     (new_hub_tick_feed (1 / 2) None, demo_holding)"

lemma silent_day_returns: "fst silent_day = Some (Inr ())"
  by code_simp

lemma silent_prefix_waits:
  "(\<lambda>(r, h, e). r = None \<and> \<not> en_squared_off e \<and> ht_ticks_received h = 0) (run_hub_feed (engine_client demo_env demo_wiring) [quiet_at (at_ist 15 14 0)]
     (new_hub_tick_feed (1 / 2) None, demo_holding))"
  by code_simp

lemma shutdown_needs_no_tick_witness:
  "pm_positions (en_positions (snd (snd silent_day))) = []
    \<and> ht_stopped_by_request (fst (snd silent_day)) \<and> ht_ticks_received (fst (snd silent_day)) = 0"
proof -
  obtain r0 h e where w: "run_hub_feed (engine_client demo_env demo_wiring) [quiet_at (at_ist 15 14 0)]
      (new_hub_tick_feed (1 / 2) None, demo_holding) = (r0, h, e)" by (metis surj_pair)
  have pre: "run_hub_feed (engine_client demo_env demo_wiring) [quiet_at (at_ist 15 14 0)]
      (new_hub_tick_feed (1 / 2) None, demo_holding) = (None, h, e)" "\<not> en_squared_off e" "ht_ticks_received h = 0"
    using silent_prefix_waits by (simp_all add: w)
  have due: "dt_date (wk_now (quiet_at (at_ist 15 15 1))) = ww_trading_date demo_wiring"
    "ee_due demo_env (wk_now (quiet_at (at_ist 15 15 1))) w = (Inr True, w)" for w
    using demo_due [of w] by (simp_all add: quiet_at_def demo_wiring_def at_ist_def dt_date_def time_units demo_tick_def tick_at_def)
  have run: "drive_from_hub demo_env demo_wiring (at_ist 15 15 1) ([quiet_at (at_ist 15 14 0)] @ [quiet_at (at_ist 15 15 1)])
      (new_hub_tick_feed (1 / 2) None, demo_holding) = (fst silent_day, fst (snd silent_day), snd (snd silent_day))"
    by (simp add: silent_day_def silent_wakes_def)
  from shutdown_needs_no_tick [OF demo_keyed(2) pre(1,2) disjI2 [OF disjI2 [OF conjI [OF due]]] run] silent_day_returns pre(3)
  show ?thesis by simp
qed

section \<open>A lost tick shuts entries\<close>

lemma poll_frame: "combined_poll env ww now e = (x, e1) \<Longrightarrow> book_of e1 = book_of e"
  by (auto simp: combined_poll_def wall_clock_square_off_def operator_requested_square_off_def act_run on_world_def
      request_square_off_def split: if_splits prod.splits sum.splits)

text \<open>
  From the turn that reads a drop notice on, with nothing queued, no position is opened for the rest of the run,
  whatever ticks follow.
\<close>

lemma no_entry_after_a_drop_notice:
  assumes "keyed (en_positions e)" "en_pending e = None" "wk_item wk = Some (Drop_Notice n)"
    and "hub_loop (engine_client env ww) [wk] (h, e) = (None, h1, e1)"
    and "hub_loop (engine_client env ww) wks (h1, e1) = (r, h2, e2)"
  shows "set (map fst (pm_positions (en_positions e2))) \<subseteq> set (map fst (pm_positions (en_positions e)))
    \<and> en_pending e2 = None \<and> n \<le> ht_ticks_dropped_upstream h1"
proof -
  let ?cl = "engine_client env ww"
  let ?e0 = "if wk_signalled wk then hc_signal ?cl e else e"
  obtain x ea where p: "combined_poll env ww (wk_now wk) ?e0 = (x, ea)" by fastforce
  have "book_of ?e0 = book_of e" by (simp add: engine_client_def)
  with poll_frame [OF p] have ea: "book_of ea = book_of e" by simp
  obtain y where b: "block_entries env (Reported ''the hub dropped ticks for this worker'') ea = (y, e1)"
    and n: "n \<le> ht_ticks_dropped_upstream h1"
    using assms(3,4) p
    by (auto simp: engine_client_simps optionally_def item_action_def on_tick_dropped_def simp del: if_split
        split: sum.splits prod.splits if_split_asm)
  have e1: "book_of e1 = (book_of ea)\<lparr>bk_blocked := bk_blocked (book_of e1)\<rparr>" "en_entry_blocked e1 \<noteq> None"
    using b by (auto simp: block_entries_def act_run notify_def split: if_splits)
  have "entries_shut (book_of e1)" "only_leaves (map fst (pm_positions (en_positions e))) (book_of e1)"
    "keyed (en_positions e1)"
    using e1 ea assms(1,2) by (simp_all add: entries_shut_def only_leaves_def book_of_def)
  moreover have "on_the_book (reached env (book_of e1)) e2" if "keyed (en_positions e1)"
    by (rule hub_loop_keeps [OF engine_client_walks _ assms(5)]) (simp add: on_the_book_def reached_def that)
  ultimately have "entries_shut (book_of e2) \<and> only_leaves (map fst (pm_positions (en_positions e))) (book_of e2)"
    by (auto simp: on_the_book_def reached_def dest!: shut_steps [where ks = "map fst (pm_positions (en_positions e))"])
  then show ?thesis using n by (simp add: entries_shut_def only_leaves_def)
qed

text \<open>
  An entry that was queued before the block is not refused: its first tick inside the window fills it.
\<close>

lemma queued_entry_survives_the_block:
  assumes "en_entry_blocked e = Some reason" "en_pending e = Some c" "en_pending_side e = Some s"
    and "pm_positions (en_positions e) = []" "tk_security_id t = oc_security_id c"
    and "can_enter (ee_session env) (tk_exchange_time t) = Inr True"
  shows "fill_pending env t e = andDo (open_entry env c s (tk_last_price t) (tk_exchange_time t))
    (modify (\<lambda>e. e\<lparr>en_pending := None, en_pending_side := None\<rparr>)) e"
  using assms(2-6) by (simp add: fill_pending_def reading_def has_position_def andThen_def lift_result_def)

end
