(* ===== verification/Notifications.thy ===== *)
theory Notifications
  imports Effects Models
begin

text \<open>
  common/notifications/base.py: the wrapper that keeps delivery failures and
  slow channels away from trading code.  The channel and the callback for
  failures are operations of a world.  The drain thread's work is two steps, it
  takes an event and it has delivered it; a call of the sender is one step, so
  the drain thread moves between the calls of a sender and not inside one.  The
  window is in microseconds; the rendering of an event is left out.
\<close>

section \<open>Events and channels\<close>

record notification_event =
  ne_event_type :: string
  ne_message :: string
  ne_runtime_id :: string
  ne_strategy_id :: "string option"
  ne_execution_mode :: "execution_mode option"
  ne_occurred_at :: datetime
  ne_correlation_id :: "string option"
  ne_required_action :: "string option"

datatype delivery_failure = Send_Raised exn | Returned_False

record 'w notification_channel =
  ch_send :: "notification_event \<Rightarrow> (bool, 'w) act"
  ch_on_failure :: "(notification_event \<Rightarrow> delivery_failure \<Rightarrow> (unit, 'w) act) option"

type_synonym alarm_identity = "string \<times> string option \<times> string \<times> string"

record aggregation_state =
  as_window_start :: datetime
  as_suppressed_count :: nat

record safe_notifier =
  sn_deferred :: bool
  sn_max_queue :: int
  sn_window :: int
  sn_failure_count :: nat
  sn_success_count :: nat
  sn_last_failure :: "delivery_failure option"
  sn_suppressed_count :: nat
  sn_dropped_count :: nat
  sn_recent :: "(alarm_identity, aggregation_state) dict"
  sn_pending_failures :: "(notification_event \<times> delivery_failure) list"
  sn_queue :: "notification_event list"
  sn_stop :: bool
  sn_in_flight :: "notification_event option"
  sn_drain_ended :: bool

definition new_safe_notifier :: "bool \<Rightarrow> int \<Rightarrow> int \<Rightarrow> safe_notifier" where
  "new_safe_notifier deferred max_queue window =
     \<lparr>sn_deferred = deferred, sn_max_queue = max_queue, sn_window = window, sn_failure_count = 0, sn_success_count = 0,
      sn_last_failure = None, sn_suppressed_count = 0, sn_dropped_count = 0, sn_recent = [], sn_pending_failures = [],
      sn_queue = [], sn_stop = False, sn_in_flight = None, sn_drain_ended = False\<rparr>"

section \<open>Aggregation\<close>

definition alarm_key :: "notification_event \<Rightarrow> alarm_identity" where
  "alarm_key ev = (ne_runtime_id ev, ne_strategy_id ev, ne_event_type ev, ne_message ev)"

definition evict_stale :: "datetime \<Rightarrow> safe_notifier \<Rightarrow> safe_notifier" where
  "evict_stale now sn =
     sn\<lparr>sn_recent := filter (\<lambda>(_, v). \<not> as_window_start v < dt_add now (- (sn_window sn * 2))) (sn_recent sn)\<rparr>"

definition opened_window :: "datetime \<Rightarrow> notification_event \<Rightarrow> nat \<Rightarrow> notification_event" where
  "opened_window now ev suppressed_before =
     (if suppressed_before = 0 then ev
      else ev\<lparr>ne_message := ne_message ev @ '' (repeated '' @ nat_digits suppressed_before @ ''x since last notice)'',
              ne_occurred_at := now\<rparr>)"

definition aggregate :: "datetime \<Rightarrow> notification_event \<Rightarrow> safe_notifier \<Rightarrow> notification_event option \<times> safe_notifier" where
  "aggregate now ev sn0 =
     (let sn = evict_stale now sn0; key = alarm_key ev;
          open_window = (\<lambda>before. (Some (opened_window now ev before),
            sn\<lparr>sn_recent := dict_set key \<lparr>as_window_start = now, as_suppressed_count = 0\<rparr> (sn_recent sn)\<rparr>))
      in case dict_get (sn_recent sn) key of
           None \<Rightarrow> open_window 0
         | Some st \<Rightarrow>
             if dt_diff now (as_window_start st) < sn_window sn
             then (None, sn\<lparr>sn_recent := dict_set key (st\<lparr>as_suppressed_count := as_suppressed_count st + 1\<rparr>) (sn_recent sn),
                            sn_suppressed_count := sn_suppressed_count sn + 1\<rparr>)
             else open_window (as_suppressed_count st))"

section \<open>Delivery\<close>

text \<open>What the callback raises is ignored.\<close>

definition hand_over :: "'w notification_channel \<Rightarrow> notification_event \<Rightarrow> delivery_failure \<Rightarrow> 'w \<Rightarrow> 'w" where
  "hand_over ch ev reason w = (case ch_on_failure ch of None \<Rightarrow> w | Some callback \<Rightarrow> snd (callback ev reason w))"

definition count_failure :: "delivery_failure \<Rightarrow> safe_notifier \<Rightarrow> safe_notifier" where
  "count_failure reason sn = sn\<lparr>sn_failure_count := sn_failure_count sn + 1, sn_last_failure := Some reason\<rparr>"

definition count_success :: "safe_notifier \<Rightarrow> safe_notifier" where
  "count_success sn = sn\<lparr>sn_success_count := sn_success_count sn + 1\<rparr>"

text \<open>One call of the channel: None when it delivered.\<close>

definition failure_of :: "bool result \<Rightarrow> delivery_failure option" where
  "failure_of r = (case r of Inl x \<Rightarrow> Some (Send_Raised x) | Inr True \<Rightarrow> None | Inr False \<Rightarrow> Some Returned_False)"

definition deliver_now :: "'w notification_channel \<Rightarrow> notification_event \<Rightarrow> safe_notifier \<times> 'w \<Rightarrow> bool \<times> safe_notifier \<times> 'w" where
  "deliver_now ch ev =
     (\<lambda>(sn, w). case ch_send ch ev w of (r, w1) \<Rightarrow>
        (case failure_of r of
           None \<Rightarrow> (True, count_success sn, w1)
         | Some reason \<Rightarrow> (False, count_failure reason sn, hand_over ch ev reason w1)))"

definition queue_is_full :: "safe_notifier \<Rightarrow> bool" where
  "queue_is_full sn = (0 < sn_max_queue sn \<and> sn_max_queue sn \<le> int (length (sn_queue sn)))"

definition enqueue :: "notification_event \<Rightarrow> safe_notifier \<Rightarrow> safe_notifier" where
  "enqueue ev sn =
     (if queue_is_full sn
      then sn\<lparr>sn_queue := tl (sn_queue sn) @ [ev], sn_dropped_count := sn_dropped_count sn + 1\<rparr>
      else sn\<lparr>sn_queue := sn_queue sn @ [ev]\<rparr>)"

definition pump_failures :: "'w notification_channel \<Rightarrow> safe_notifier \<times> 'w \<Rightarrow> safe_notifier \<times> 'w" where
  "pump_failures ch =
     (\<lambda>(sn, w). (sn\<lparr>sn_pending_failures := []\<rparr>, fold (\<lambda>(ev, reason). hand_over ch ev reason) (sn_pending_failures sn) w))"

definition send_event :: "'w notification_channel \<Rightarrow> datetime \<Rightarrow> notification_event \<Rightarrow> safe_notifier \<times> 'w \<Rightarrow> bool \<times> safe_notifier \<times> 'w" where
  "send_event ch now ev =
     (\<lambda>(sn, w). case aggregate now ev sn of
        (None, sn1) \<Rightarrow> (False, sn1, w)
      | (Some effective, sn1) \<Rightarrow>
          if sn_deferred sn1 then (True, pump_failures ch (enqueue effective sn1, w))
          else deliver_now ch effective (sn1, w))"

section \<open>The drain thread\<close>

definition drain_take :: "safe_notifier \<Rightarrow> safe_notifier" where
  "drain_take sn =
     (if \<not> sn_deferred sn \<or> sn_drain_ended sn \<or> sn_in_flight sn \<noteq> None then sn
      else case sn_queue sn of
        [] \<Rightarrow> if sn_stop sn then sn\<lparr>sn_drain_ended := True\<rparr> else sn
      | ev # rest_of_queue \<Rightarrow> sn\<lparr>sn_queue := rest_of_queue, sn_in_flight := Some ev\<rparr>)"

definition drain_deliver :: "'w notification_channel \<Rightarrow> safe_notifier \<times> 'w \<Rightarrow> safe_notifier \<times> 'w" where
  "drain_deliver ch =
     (\<lambda>(sn, w). case sn_in_flight sn of
        None \<Rightarrow> (sn, w)
      | Some ev \<Rightarrow>
          (case ch_send ch ev w of (r, w1) \<Rightarrow>
             ((case failure_of r of
                 None \<Rightarrow> count_success sn
               | Some reason \<Rightarrow>
                   (count_failure reason sn)\<lparr>sn_pending_failures := sn_pending_failures sn @ [(ev, reason)]\<rparr>)
              \<lparr>sn_in_flight := None\<rparr>, w1)))"

text \<open>Closing asks the drain thread to stop, waits for it within a timeout, and flushes the failures.\<close>

definition stop_draining :: "safe_notifier \<Rightarrow> safe_notifier" where
  "stop_draining sn = (if sn_deferred sn then sn\<lparr>sn_stop := True\<rparr> else sn)"

definition flush_failures :: "'w notification_channel \<Rightarrow> safe_notifier \<times> 'w \<Rightarrow> safe_notifier \<times> 'w" where
  "flush_failures ch = (\<lambda>(sn, w). if sn_deferred sn then pump_failures ch (sn, w) else (sn, w))"

datatype notifier_call =
    Sends datetime notification_event | Drain_Takes | Drain_Delivers | Close_Begins | Close_Ends

fun notifier_step :: "'w notification_channel \<Rightarrow> notifier_call \<Rightarrow> safe_notifier \<times> 'w \<Rightarrow> safe_notifier \<times> 'w" where
  "notifier_step ch (Sends now ev) st = snd (send_event ch now ev st)"
| "notifier_step ch Drain_Takes (sn, w) = (drain_take sn, w)"
| "notifier_step ch Drain_Delivers st = drain_deliver ch st"
| "notifier_step ch Close_Begins (sn, w) = (stop_draining sn, w)"
| "notifier_step ch Close_Ends st = flush_failures ch st"

definition notifier_run :: "'w notification_channel \<Rightarrow> notifier_call list \<Rightarrow> safe_notifier \<times> 'w \<Rightarrow> safe_notifier \<times> 'w" where
  "notifier_run ch steps st = fold (notifier_step ch) steps st"

section \<open>Every alarm is accounted for\<close>

text \<open>Where an event may be: waiting in the queue, or with the drain thread.\<close>

definition undelivered :: "safe_notifier \<Rightarrow> nat" where
  "undelivered sn = length (sn_queue sn) + (if sn_in_flight sn = None then 0 else 1)"

definition accounted :: "safe_notifier \<Rightarrow> nat" where
  "accounted sn = sn_suppressed_count sn + sn_dropped_count sn + sn_success_count sn + sn_failure_count sn + undelivered sn"

definition sends :: "notifier_call list \<Rightarrow> nat" where
  "sends steps = length (filter (\<lambda>s. case s of Sends _ _ \<Rightarrow> True | _ \<Rightarrow> False) steps)"

lemma sends_Cons: "sends (s # ss) = (case s of Sends _ _ \<Rightarrow> 1 | _ \<Rightarrow> 0) + sends ss"
  by (simp add: sends_def split: notifier_call.split)

lemma counting [simp]:
  "accounted (count_failure reason sn) = accounted sn + 1" "accounted (count_success sn) = accounted sn + 1"
  "accounted (sn\<lparr>sn_pending_failures := p\<rparr>) = accounted sn" "accounted (sn\<lparr>sn_recent := d\<rparr>) = accounted sn"
  "accounted (sn\<lparr>sn_stop := b\<rparr>) = accounted sn" "accounted (sn\<lparr>sn_drain_ended := b\<rparr>) = accounted sn"
  by (simp_all add: accounted_def count_failure_def count_success_def undelivered_def)

lemma aggregate_accounts:
  "aggregate now ev sn = (None, sn1) \<Longrightarrow> accounted sn1 = accounted sn + 1"
  "aggregate now ev sn = (Some ev1, sn1) \<Longrightarrow> accounted sn1 = accounted sn"
  by (auto simp: aggregate_def evict_stale_def Let_def accounted_def undelivered_def split: option.splits if_splits)

lemma enqueue_accounts: "accounted (enqueue ev sn) = accounted sn + 1"
  by (cases "sn_queue sn") (auto simp: enqueue_def queue_is_full_def accounted_def undelivered_def)

lemma step_accounts:
  "accounted (fst (notifier_step ch s st)) = accounted (fst st) + (case s of Sends _ _ \<Rightarrow> 1 | _ \<Rightarrow> 0)"
proof (cases st)
  case (Pair sn w)
  show ?thesis
  proof (cases s)
    case (Sends now ev)
    then show ?thesis using Pair aggregate_accounts [of now ev sn]
      by (auto simp: send_event_def pump_failures_def enqueue_accounts deliver_now_def split: prod.splits option.splits)
  next
    case Drain_Takes
    then show ?thesis using Pair by (auto simp: drain_take_def accounted_def undelivered_def split: list.splits)
  next
    case Drain_Delivers
    have "accounted (x\<lparr>sn_in_flight := None\<rparr>) + 1 = accounted x" if "sn_in_flight x \<noteq> None" for x
      using that by (simp add: accounted_def undelivered_def)
    note flight = this [of "count_success sn"] this [of "(count_failure r sn)\<lparr>sn_pending_failures := p\<rparr>" for r p]
    have same: "sn_in_flight (count_success sn) = sn_in_flight sn" "sn_in_flight (count_failure r sn) = sn_in_flight sn" for r
      by (simp_all add: count_success_def count_failure_def)
    show ?thesis using Drain_Delivers Pair flight
      by (auto simp: drain_deliver_def same split: prod.splits option.splits)
  next
    case Close_Begins
    then show ?thesis using Pair by (simp add: stop_draining_def)
  next
    case Close_Ends
    then show ?thesis using Pair by (simp add: flush_failures_def pump_failures_def)
  qed
qed

lemma run_accounts: "accounted (fst (notifier_run ch steps st)) = accounted (fst st) + sends steps"
proof (induction steps arbitrary: st)
  case (Cons s ss)
  then show ?case using step_accounts [of ch s st] by (simp add: notifier_run_def sends_Cons)
qed (simp add: notifier_run_def sends_def)

section \<open>Every failure reaches the callback\<close>

text \<open>
  A world that keeps what the callback was given: the callback notes its arguments whether or
  not it then raises, and the channel leaves the notes alone.
\<close>

definition notes_failures :: "('w \<Rightarrow> (notification_event \<times> delivery_failure) list) \<Rightarrow> 'w notification_channel \<Rightarrow> bool" where
  "notes_failures noted ch =
     ((\<forall>ev w. noted (snd (ch_send ch ev w)) = noted w)
      \<and> (\<exists>callback. ch_on_failure ch = Some callback
          \<and> (\<forall>ev reason w. noted (snd (callback ev reason w)) = noted w @ [(ev, reason)])))"

lemma hand_over_notes: "notes_failures noted ch \<Longrightarrow> noted (hand_over ch ev reason w) = noted w @ [(ev, reason)]"
  by (auto simp: notes_failures_def hand_over_def)

lemma send_notes: "notes_failures noted ch \<Longrightarrow> ch_send ch ev w = (r, w1) \<Longrightarrow> noted w1 = noted w"
  unfolding notes_failures_def by (metis snd_conv)

lemma pump_notes:
  assumes "notes_failures noted ch"
  shows "noted (snd (pump_failures ch (sn, w))) = noted w @ sn_pending_failures sn"
proof -
  have "noted (fold (\<lambda>(ev, reason). hand_over ch ev reason) ps w) = noted w @ ps" for ps
    by (induction ps arbitrary: w) (auto simp: hand_over_notes [OF assms])
  then show ?thesis by (simp add: pump_failures_def)
qed

text \<open>The failures counted since the notes began: those handed over, then those pending.\<close>

definition reported :: "('w \<Rightarrow> (notification_event \<times> delivery_failure) list) \<Rightarrow> safe_notifier \<times> 'w \<Rightarrow> bool" where
  "reported noted = (\<lambda>(sn, w). sn_failure_count sn = length (noted w @ sn_pending_failures sn)
     \<and> sn_last_failure sn = (if noted w @ sn_pending_failures sn = [] then None
          else Some (snd (last (noted w @ sn_pending_failures sn))))
     \<and> (\<not> sn_deferred sn \<longrightarrow> sn_pending_failures sn = [] \<and> sn_in_flight sn = None))"

lemma reported_parts:
  "reported noted (sn, w) \<Longrightarrow> sn_failure_count sn = length (noted w) + length (sn_pending_failures sn)"
  by (simp add: reported_def)

lemma aggregate_frame:
  "aggregate now ev sn = (r, sn1) \<Longrightarrow> sn_failure_count sn1 = sn_failure_count sn \<and> sn_last_failure sn1 = sn_last_failure sn
     \<and> sn_pending_failures sn1 = sn_pending_failures sn \<and> sn_deferred sn1 = sn_deferred sn \<and> sn_in_flight sn1 = sn_in_flight sn"
  by (auto simp: aggregate_def evict_stale_def Let_def split: option.splits if_splits)

lemma reported_pump:
  "notes_failures noted ch \<Longrightarrow> reported noted (sn, w) \<Longrightarrow> reported noted (pump_failures ch (sn, w))"
  using pump_notes [of noted ch sn w] by (simp add: reported_def pump_failures_def)

lemma reported_step:
  assumes "notes_failures noted ch" "reported noted st"
  shows "reported noted (notifier_step ch s st)"
proof (cases st)
  case (Pair sn w)
  show ?thesis
  proof (cases s)
    case (Sends now ev)
    obtain r sn1 where a: "aggregate now ev sn = (r, sn1)" by fastforce
    note f = aggregate_frame [OF a]
    have i1: "reported noted (sn1, w)" using assms(2) f by (simp add: Pair reported_def)
    show ?thesis
    proof (cases r)
      case None
      then show ?thesis using i1 a by (simp add: Sends Pair send_event_def)
    next
      case (Some ev1)
      show ?thesis
      proof (cases "sn_deferred sn1")
        case True
        have "reported noted (enqueue ev1 sn1, w)" using i1 True by (simp add: reported_def enqueue_def)
        from reported_pump [OF assms(1) this] show ?thesis using True Some a by (simp add: Sends Pair send_event_def)
      next
        case False
        obtain x w1 where x: "ch_send ch ev1 w = (x, w1)" by fastforce
        have n: "noted w1 = noted w" by (rule send_notes [OF assms(1) x])
        show ?thesis using False Some a i1 x n hand_over_notes [OF assms(1)]
          by (cases "failure_of x")
             (simp_all add: Sends Pair send_event_def deliver_now_def reported_def count_success_def count_failure_def)
      qed
    qed
  next
    case Drain_Delivers
    show ?thesis
    proof (cases "sn_in_flight sn")
      case None
      then show ?thesis using assms(2) by (simp add: Drain_Delivers Pair drain_deliver_def)
    next
      case (Some ev)
      obtain x w1 where x: "ch_send ch ev w = (x, w1)" by fastforce
      have n: "noted w1 = noted w" by (rule send_notes [OF assms(1) x])
      show ?thesis using Some assms(2) x n
        by (cases "failure_of x")
           (auto simp: Drain_Delivers Pair drain_deliver_def reported_def count_success_def count_failure_def)
    qed
  next
    case Drain_Takes
    then show ?thesis using assms(2) by (auto simp: Pair drain_take_def reported_def split: list.split)
  next
    case Close_Begins
    then show ?thesis using assms(2) by (simp add: Pair stop_draining_def reported_def)
  next
    case Close_Ends
    then show ?thesis using assms(2) reported_pump [OF assms(1), of sn w] by (simp add: Pair flush_failures_def)
  qed
qed

lemma reported_run: "notes_failures noted ch \<Longrightarrow> reported noted st \<Longrightarrow> reported noted (notifier_run ch steps st)"
  by (induction steps arbitrary: st) (simp_all add: notifier_run_def reported_step)

section \<open>Alarms are spaced\<close>

text \<open>The alarms a run let through, with the time of each.\<close>

fun accepted :: "'w notification_channel \<Rightarrow> notifier_call list \<Rightarrow> safe_notifier \<times> 'w \<Rightarrow> (datetime \<times> alarm_identity) list" where
  "accepted ch [] st = []"
| "accepted ch (s # ss) st =
     (case s of
        Sends now ev \<Rightarrow> if fst (aggregate now ev (fst st)) = None then [] else [(now, alarm_key ev)]
      | _ \<Rightarrow> []) @ accepted ch ss (notifier_step ch s st)"

definition send_times :: "notifier_call list \<Rightarrow> int list" where
  "send_times steps = concat (map (\<lambda>s. case s of Sends now _ \<Rightarrow> [instant now] | _ \<Rightarrow> []) steps)"

text \<open>An alarm let through is remembered, or older than two windows.\<close>

definition remembered :: "safe_notifier \<Rightarrow> int \<Rightarrow> datetime \<times> alarm_identity \<Rightarrow> bool" where
  "remembered sn now = (\<lambda>(t, k).
     (\<exists>v. dict_get (sn_recent sn) k = Some v \<and> instant t \<le> instant (as_window_start v)) \<or> instant t + sn_window sn * 2 < now)"

definition window_apart :: "int \<Rightarrow> datetime \<times> alarm_identity \<Rightarrow> datetime \<times> alarm_identity \<Rightarrow> bool" where
  "window_apart window a b = (snd a = snd b \<longrightarrow> window \<le> dt_diff (fst b) (fst a))"

lemma dict_get_filter:
  "distinct (map fst d) \<Longrightarrow> dict_get (filter (\<lambda>(_, v). P v) d) k = (case dict_get d k of None \<Rightarrow> None | Some v \<Rightarrow> if P v then Some v else None)"
  by (induction d) (auto split: option.splits simp: map_of_eq_None_iff image_iff intro: rev_image_eqI)

lemma evict_get:
  assumes "distinct (map fst (sn_recent sn))"
  shows "dict_get (sn_recent (evict_stale now sn)) k = (case dict_get (sn_recent sn) k of None \<Rightarrow> None
    | Some v \<Rightarrow> if instant (as_window_start v) < instant now - sn_window sn * 2 then None else Some v)"
  using dict_get_filter [OF assms, of "\<lambda>v. \<not> as_window_start v < dt_add now (- (sn_window sn * 2))" k]
  by (simp add: evict_stale_def less_datetime_def split: option.split)

lemma evict_frame: "sn_window (evict_stale now sn) = sn_window sn"
  by (simp add: evict_stale_def)

lemma evict_distinct: "distinct (map fst (sn_recent sn)) \<Longrightarrow> distinct (map fst (sn_recent (evict_stale now sn)))"
  by (simp add: evict_stale_def distinct_map_filter)

lemma evict_remembers:
  assumes "distinct (map fst (sn_recent sn))" "remembered sn lo a" "lo \<le> instant now"
  shows "remembered (evict_stale now sn) (instant now) a"
  using assms(2,3) by (auto simp: remembered_def evict_get [OF assms(1)] evict_frame split: prod.splits)

lemma aggregate_spaces:
  assumes "distinct (map fst (sn_recent sn))" "0 \<le> sn_window sn" "remembered sn lo a" "lo \<le> instant now"
    and "aggregate now ev sn = (r, sn1)"
  shows "remembered sn1 (instant now) a \<and> (r \<noteq> None \<longrightarrow> window_apart (sn_window sn) a (now, alarm_key ev))"
proof -
  obtain t k where a: "a = (t, k)" by (cases a)
  define e where "e = evict_stale now sn"
  have we: "sn_window e = sn_window sn" by (simp add: e_def evict_frame)
  have re: "remembered e (instant now) (t, k)" using evict_remembers [OF assms(1,3,4)] by (simp add: a e_def)
  show ?thesis
  proof (cases "dict_get (sn_recent e) (alarm_key ev)")
    case None
    then have sn1: "sn1 = e\<lparr>sn_recent := dict_set (alarm_key ev) \<lparr>as_window_start = now, as_suppressed_count = 0\<rparr> (sn_recent e)\<rparr>"
      using assms(5) by (simp add: aggregate_def e_def [symmetric] Let_def)
    show ?thesis using re None assms(2) by (auto simp: a sn1 remembered_def window_apart_def we dt_diff_def)
  next
    case (Some v)
    show ?thesis
    proof (cases "dt_diff now (as_window_start v) < sn_window sn")
      case True
      then have "r = None" "sn1 = e\<lparr>sn_recent := dict_set (alarm_key ev) (v\<lparr>as_suppressed_count := as_suppressed_count v + 1\<rparr>) (sn_recent e),
          sn_suppressed_count := sn_suppressed_count e + 1\<rparr>"
        using assms(5) Some by (simp_all add: aggregate_def e_def [symmetric] Let_def we)
      then show ?thesis using re Some by (auto simp: a remembered_def we)
    next
      case False
      then have sn1: "sn1 = e\<lparr>sn_recent := dict_set (alarm_key ev) \<lparr>as_window_start = now, as_suppressed_count = 0\<rparr> (sn_recent e)\<rparr>"
        using assms(5) Some by (simp add: aggregate_def e_def [symmetric] Let_def we)
      have v: "sn_window sn \<le> instant now - instant (as_window_start v)" using False by (simp add: dt_diff_def)
      show ?thesis using re Some v assms(2) by (auto simp: a sn1 remembered_def window_apart_def we dt_diff_def)
    qed
  qed
qed

lemma aggregate_keeps:
  assumes "distinct (map fst (sn_recent sn))" "aggregate now ev sn = (r, sn1)"
  shows "distinct (map fst (sn_recent sn1)) \<and> sn_window sn1 = sn_window sn
    \<and> (r \<noteq> None \<longrightarrow> remembered sn1 (instant now) (now, alarm_key ev))"
proof -
  define e where "e = evict_stale now sn"
  have "distinct (map fst (sn_recent e))" "sn_window e = sn_window sn"
    using evict_distinct [OF assms(1)] by (simp_all add: e_def evict_frame)
  then show ?thesis using assms(2)
    by (auto simp: aggregate_def e_def [symmetric] Let_def remembered_def split: option.splits if_splits)
qed

lemma step_recent:
  "(case s of Sends now ev \<Rightarrow> False | _ \<Rightarrow> True) \<Longrightarrow>
    sn_recent (fst (notifier_step ch s st)) = sn_recent (fst st) \<and> sn_window (fst (notifier_step ch s st)) = sn_window (fst st)"
  by (cases st; cases s)
     (auto simp: drain_take_def drain_deliver_def stop_draining_def flush_failures_def pump_failures_def count_success_def
       count_failure_def split: list.split option.split prod.split)

lemma send_recent:
  assumes "aggregate now ev sn = (r, sn1)"
  shows "sn_recent (fst (notifier_step ch (Sends now ev) (sn, w))) = sn_recent sn1
    \<and> sn_window (fst (notifier_step ch (Sends now ev) (sn, w))) = sn_window sn1"
  by (cases r)
     (auto simp: assms send_event_def pump_failures_def enqueue_def deliver_now_def count_success_def count_failure_def
       split: prod.split option.split)

lemma remembered_same:
  "sn_recent x = sn_recent y \<Longrightarrow> sn_window x = sn_window y \<Longrightarrow> remembered x = remembered y"
  by (intro ext) (simp add: remembered_def split: prod.split)

lemma accepted_spaced:
  assumes "distinct (map fst (sn_recent (fst st)))" "0 \<le> sn_window (fst st)" "sorted (lo # send_times steps)"
    and "list_all (remembered (fst st) lo) past"
  shows "sorted_wrt (window_apart (sn_window (fst st))) (accepted ch steps st)
    \<and> list_all (\<lambda>a. list_all (window_apart (sn_window (fst st)) a) (accepted ch steps st)) past"
  using assms
proof (induction steps arbitrary: st lo past)
  case (Cons s ss)
  obtain sn w where st: "st = (sn, w)" by fastforce
  have quiet: ?case if other: "case s of Sends now ev \<Rightarrow> False | _ \<Rightarrow> True"
  proof -
    define st1 where "st1 = notifier_step ch s st"
    note f = step_recent [OF other, of ch st, folded st1_def]
    have "remembered (fst st1) = remembered (fst st)" using f by (intro remembered_same) simp_all
    moreover have "accepted ch (s # ss) st = accepted ch ss st1" "send_times (s # ss) = send_times ss"
      using other by (cases s; simp add: st1_def send_times_def)+
    ultimately show ?thesis using Cons.IH [of st1 lo past] Cons.prems f by simp
  qed
  show ?case
  proof (cases s)
    case (Sends now ev)
    obtain r sn1 where a: "aggregate now ev sn = (r, sn1)" by fastforce
    define st1 where "st1 = notifier_step ch s st"
    define new where "new = (if r = None then [] else [(now, alarm_key ev)])"
    have k: "distinct (map fst (sn_recent sn1))" "sn_window sn1 = sn_window sn"
        "r \<noteq> None \<Longrightarrow> remembered sn1 (instant now) (now, alarm_key ev)"
      using aggregate_keeps [OF _ a] Cons.prems(1) by (simp_all add: st)
    have f: "sn_recent (fst st1) = sn_recent sn1" "sn_window (fst st1) = sn_window sn1"
      using send_recent [OF a, of ch w] by (simp_all add: st1_def st Sends)
    have lo: "lo \<le> instant now" using Cons.prems(3) by (simp add: Sends send_times_def)
    have p: "remembered sn1 (instant now) x \<and> (r \<noteq> None \<longrightarrow> window_apart (sn_window sn) x (now, alarm_key ev))" if "x \<in> set past" for x
      using aggregate_spaces [OF _ _ _ lo a] Cons.prems(1,2,4) that by (simp add: st list_all_iff)
    have past1: "list_all (remembered (fst st1) (instant now)) (past @ new)"
      using p k(3) remembered_same [OF f] by (simp add: new_def list_all_iff)
    have "sorted (instant now # send_times ss)" using Cons.prems(3) by (simp add: Sends send_times_def)
    from Cons.IH [OF _ _ this past1] have ih: "sorted_wrt (window_apart (sn_window sn)) (accepted ch ss st1)"
        "list_all (\<lambda>a. list_all (window_apart (sn_window sn) a) (accepted ch ss st1)) (past @ new)"
      using k(1,2) f Cons.prems(2) by (simp_all add: st)
    have acc: "accepted ch (s # ss) st = new @ accepted ch ss st1"
      by (simp add: Sends st a new_def st1_def)
    show ?thesis unfolding acc using ih p by (auto simp: st new_def list_all_iff)
  qed (use quiet in simp_all)
qed (simp add: list_all_iff)

text \<open>C40: no alarm disappears without a trace, whatever the channel does, whenever the drain thread moves and however often
  the notifier is closed: every event sent was suppressed as a repeat, dropped from a full queue, delivered, counted as a
  failure, or is still waiting.  The callback for failures has been given, in order and each once, every failure that was
  counted and is not pending, and the last failure is the latest of them.
\<close>

theorem every_alarm_is_accounted_for:
  assumes "notes_failures noted ch" "noted w0 = []"
    and "notifier_run ch steps (new_safe_notifier deferred max_queue window, w0) = (sn, w)"
  shows "sends steps = sn_suppressed_count sn + sn_dropped_count sn + sn_success_count sn + sn_failure_count sn
        + length (sn_queue sn) + (if sn_in_flight sn = None then 0 else 1)
    \<and> (let failures = noted w @ sn_pending_failures sn in
       sn_failure_count sn = length failures
       \<and> sn_last_failure sn = (if failures = [] then None else Some (snd (last failures))))"
proof -
  have "reported noted (new_safe_notifier deferred max_queue window, w0)"
    using assms(2) by (simp add: reported_def new_safe_notifier_def)
  from reported_run [OF assms(1) this, of steps] have "reported noted (sn, w)" using assms(3) by simp
  moreover have "accounted sn = sends steps"
    using run_accounts [of ch steps "(new_safe_notifier deferred max_queue window, w0)"] assms(3)
    by (simp add: accounted_def undelivered_def new_safe_notifier_def)
  ultimately show ?thesis by (simp add: reported_def accounted_def undelivered_def Let_def)
qed

text \<open>A channel that fails on every other event, with a callback that keeps a list and then raises.\<close>

definition flaky :: "(bool \<times> (notification_event \<times> delivery_failure) list) notification_channel" where
  "flaky = \<lparr>ch_send = (\<lambda>_ (up, notes). (Inr up, (\<not> up, notes))),
     ch_on_failure = Some (\<lambda>ev reason (up, notes). (Inl IntegrityError, (up, notes @ [(ev, reason)])))\<rparr>"

definition alarm :: "string \<Rightarrow> notification_event" where
  "alarm text_shown = \<lparr>ne_event_type = ''feed'', ne_message = text_shown, ne_runtime_id = ''io'', ne_strategy_id = None,
     ne_execution_mode = Some PAPER, ne_occurred_at = DT 0 (Some 0), ne_correlation_id = None, ne_required_action = None\<rparr>"

definition alarm_steps :: "notifier_call list" where
  "alarm_steps =
     [Sends (DT 0 (Some 0)) (alarm ''stale''), Sends (DT 5 (Some 0)) (alarm ''stale''), Sends (DT 6 (Some 0)) (alarm ''lost''),
      Drain_Takes, Drain_Delivers, Sends (DT 7 (Some 0)) (alarm ''up''), Drain_Takes, Drain_Delivers, Sends (DT 8 (Some 0)) (alarm ''a''),
      Sends (DT 9 (Some 0)) (alarm ''b''), Close_Begins, Drain_Takes, Close_Ends]"

definition alarm_run :: "safe_notifier \<times> bool \<times> (notification_event \<times> delivery_failure) list" where
  "alarm_run = notifier_run flaky alarm_steps (new_safe_notifier True 2 60, True, [])"

lemma alarm_counts:
  "(\<lambda>(sn, w). sn_suppressed_count sn = 1 \<and> sn_dropped_count sn = 1 \<and> sn_success_count sn = 1 \<and> sn_failure_count sn = 1
     \<and> length (sn_queue sn) = 1 \<and> sn_in_flight sn \<noteq> None \<and> map snd (snd w) = [Returned_False]) alarm_run"
  by code_simp

lemma every_alarm_is_accounted_for_witness:
  "sends alarm_steps = 6 \<and> sn_last_failure (fst alarm_run) = Some Returned_False"
proof -
  have n: "notes_failures snd flaky" by (auto simp: notes_failures_def flaky_def split: prod.split)
  have "notifier_run flaky alarm_steps (new_safe_notifier True 2 60, True, []) = (fst alarm_run, snd alarm_run)"
    by (simp add: alarm_run_def)
  from every_alarm_is_accounted_for [OF n _ this] alarm_counts show ?thesis
    by (auto simp: Let_def split_beta split: if_splits)
qed

text \<open>Two alarms let through that say the same are at least a window apart, as long as the clock does not go back.\<close>

lemma alarms_are_spaced:
  assumes "0 \<le> window" "sorted (send_times steps)"
  shows "sorted_wrt (window_apart window) (accepted ch steps (new_safe_notifier deferred max_queue window, w))"
proof (cases "send_times steps")
  case Nil
  then show ?thesis
    using accepted_spaced [of "(new_safe_notifier deferred max_queue window, w)" 0 steps "[]" ch] assms(1)
    by (simp add: new_safe_notifier_def)
next
  case (Cons t ts)
  then show ?thesis
    using accepted_spaced [of "(new_safe_notifier deferred max_queue window, w)" t steps "[]" ch] assms
    by (simp add: new_safe_notifier_def)
qed

text \<open>
  A repeat that comes more than two windows after the last alarm let through does not say how many were
  suppressed: what was counted is forgotten with the window.
\<close>

lemma late_repeat_forgets_the_count:
  assumes "distinct (map fst (sn_recent sn))" "dict_get (sn_recent sn) (alarm_key ev) = Some v"
    and "sn_window sn * 2 < dt_diff now (as_window_start v)"
  shows "fst (aggregate now ev sn) = Some ev"
proof -
  have "dict_get (sn_recent (evict_stale now sn)) (alarm_key ev) = None"
    using assms by (simp add: evict_get dt_diff_def)
  then show ?thesis by (simp add: aggregate_def Let_def opened_window_def)
qed

text \<open>Without a callback, closing discards the failures that were pending.\<close>

lemma no_callback_discards:
  "ch_on_failure ch = None \<Longrightarrow> pump_failures ch (sn, w) = (sn\<lparr>sn_pending_failures := []\<rparr>, w)"
proof -
  assume "ch_on_failure ch = None"
  then have "fold (\<lambda>(ev, reason). hand_over ch ev reason) ps w = w" for ps
    by (induction ps) (auto simp: hand_over_def)
  then show ?thesis by (simp add: pump_failures_def)
qed

end
