(* ===== verification/Spec2Isabelle.thy ===== *)
theory Spec2Isabelle
  imports Gateway Daily_Guard Square_Off Chart_Builder Engine_Safety Recovery Exit_Properties Scrip_Master Reconnect Dhan_Feed Option_Chain Strike_Selection Ema_Strategy Regime Warmup_History Engine_Warmup Hub_Tick_Feed Notifications
begin

text \<open>
  The execution core of algo_trading: an intraday options runtime that reads a
  live feed, runs a strategy per worker process, executes its signals against
  a deterministic paper broker and keeps every step in a SQLite database so
  that a restarted worker resumes where the dead one stopped.

  \<^bold>\<open>How the program's parts interact.\<close>  A feed adapter
  (common/market\_data) delivers ticks; a reconnecting wrapper
  (common/feed/reconnect.py) keeps it alive within a budget; the hub
  (common/feed/hub.py) turns ticks into candles once per instrument and fans
  both out to the workers over bounded queues.  A worker runs one trading engine
  (common/engine/engine.py) over the tick channel (common/engine/hub\_feed.py), which first warms its strategy up from history
  (common/warmup), then routes each tick and candle: the strategy
  (strategies/.../ema\_cross\_9\_21\_buy over common/indicators and common/exit)
  decides, the selector (common/engine/selection.py over
  common/market\_data/option\_chain.py and scrip\_master.py) picks the contract, the position
  manager (common/engine/positions.py) owns the open position and the execution
  gateway (common/engine/gateway.py) takes each leg through the order lifecycle
  (common/execution/lifecycle.py) to the broker (common/broker/paper.py) and
  the repository (common/execution/repository.py).  The square-off
  authority (common/engine/square\_off.py) and the daily guard
  (common/engine/daily\_guard.py) close entries and flatten the book; recovery
  (runtimes/intraday\_options/engine\_worker.py) rebuilds the day after a crash.

  \<^bold>\<open>The theories, by layer.\<close>
  \<^item> Prelude (rounding, decimal rendering, bounded deques, insertion-ordered
    dictionaries), Errors (an exception is its class; a fallible function
    returns exn + value), Effects (operations that change a state and may
    raise, with sequencing, handlers and triples), Timeutils
    (common/utils/timeutils.py and the datetime arithmetic), Conversions (str,
    float, int and bool of decoded JSON), Tables (rows with an AUTOINCREMENT
    key, constraint violations, transactions).
  \<^item> Models (common/models), Correlation (common/execution/correlation.py),
    Costs and Quotes (common/broker/costs.py, quotes.py), Engine\_Models
    (common/engine/models.py), State\_Payload
    (common/engine/state\_payload.py): the values.  Their records have the
    fields of the code's classes, and the constructors' checks are functions
    that return the exception.
  \<^item> Broker\_Contract and Paper\_Broker (common/broker): the protocol as a
    locale and the simulator as its instance; validation, latency, adverse
    pricing, partial fills, resting limit orders and settlement.  The lemmas
    show the price every market fill is owed and how it is rounded against the order, and
    that a retried correlation identifier never makes a second order.
  \<^item> Repository: every write of the operational database, on rows with the
    constraints of common/persistence/migrations.  Shown: the position book and
    the realised profit are the sums and the cash of the recorded fills.
  \<^item> Lifecycle, Signal\_Record and Gateway: one signal to a persisted position, over a
    broker parameter.  The handler is also given as a step relation whose steps are
    the single transactions and broker calls it makes (a rejection is two of them),
    with a crash allowed between any two, so that the order in which the broker and
    the database move can be stated at every crash point.  Signal\_Record says what a
    handled signal leaves in each table; Gateway that a leg is never suppressed
    against one of its own process, from whatever database the process starts on, and
    that a leg it reports traded.
  \<^item> Positions, Daily\_Guard, Session, Square\_Off: the engine's book, its
    circuit breaker, the trading clock and the authority that ends a day.
  \<^item> Candles, Candle\_Runs, Chart\_Builder (common/candles): the aggregator of
    the hub and the builder of a chart, and their common specification, the
    maximal runs of ticks of one interval.
  \<^item> Exits, Exit\_Config, Exit\_Rules, Exit\_Properties (common/exit): the rules,
    the composite, the factory over the configuration, and what a rule owes
    its owner: restoring a snapshot gives back the rule.
  \<^item> Engine, Engine\_Book, Engine\_Safety (common/engine/engine.py): the handlers
    over an environment record of the injected collaborators; the book machine,
    an inductive step relation that states what a run may do to the book; the
    simulation of the first by the second, and the invariants of the second.
  \<^item> Recovery (runtimes/intraday\_options/engine\_worker.py): what a new process
    rebuilds, and what it writes when it cannot; that it rebuilds the very leg that
    opened the position, and when a guard seeded from the database halts.
  \<^item> Feed\_Queues, Feed\_Hub, Reconnect, Dhan\_Feed (common/feed, common/market\_data):
    the bounded channels, the hub, reconnection and the adapters.  The hub's lemmas are
    about every state it reaches by registrations, starts, ticks, requests (served or
    refused), gaps and reads.
  \<^item> Scrip\_Master, Option\_Chain, Strike\_Selection: from an underlying's price to
    a tradable contract.
  \<^item> Indicators, Risk\_Managers, Ema\_Strategy, Regime: the numbers a strategy
    reads, and the deployed strategy as an instance of the engine's strategy
    operations.
  \<^item> Warmup, Warmup\_History: the manager that replays history into a strategy
    and says how far it can be trusted, and the REST client and parsers the
    history comes from.
  \<^item> Engine\_Warmup (common/engine/engine.py, run and its warm-up): the run from the start of the
    day; that a strategy which needs an unbroken history trades only after it has been
    shown one.
  \<^item> Hub\_Tick\_Feed (common/engine/hub\_feed.py and the wiring of
    runtimes/intraday\_options/engine\_worker.py): the loop over a worker's tick channel as a
    list of wakes, with the engine behind it; that a shutdown needs no tick, and that a lost tick shuts entries.
  \<^item> Notifications (common/notifications/base.py): aggregation, deferred delivery and
    the hand-over of failures; that every alarm is accounted for, and that repeats are spaced.

  Interfaces are locales (the broker protocol, the square-off authority, the exit
  rule's contract, the execution gateway) interpreted on the model's own
  definitions in the theory of the provider.

  \<^bold>\<open>How state and effects are modelled.\<close>  A class with
  state is a record of its fields; a method is a function from the record to the
  record, with the exception it raises in a sum type next to the state it had
  reached when it raised.  Injected collaborators (a broker, a fetch, a sleep, a
  callback, the strategy in the engine) are arguments, and what the code relies on them
  for is a named hypothesis or a locale.  A handler of the engine is one
  step: the event loop runs handlers one after the other on one thread.  Where the code does share
  between threads, a step is one operation under the class's lock, and
  the interleaving is the list of steps.

  \<^bold>\<open>Abstractions.\<close>
  \<^item> Floats are exact rationals.  Theorems state what the formulas compute, not
    the last bit of IEEE arithmetic; infinities and NaN do not occur, so the
    checks for them have nothing to refuse.
  \<^item> A time zone is a fixed offset (the program is configured with Asia/Kolkata,
    which has one); a datetime is microseconds and an offset, None for a naive
    one.
  \<^item> All clock readings inside one call are one argument now, unless the call
    sleeps or waits, where the clock is part of the world.
  \<^item> Text for people (log lines, messages, reasons that carry numbers) is left out
    or is the tag it starts with.  JSON is its decoded value.
  \<^item> A dictionary is an association list in insertion order, a set a list without
    order, an HTTP response its status and decoded body.
  \<^item> What an adapter does while its start runs is a session: the ticks it
    delivers, the stops that arrive, how it ends.

  \<^bold>\<open>Bounds and fuel.\<close>  Recursions are structural or
  have a measure, with these exceptions, where a loop is bounded by a number the
  code itself bounds it by.  Walking back over trading sessions
  (Warmup) takes at most five calendar days for each session plus fourteen, the code's
  own limit.  Walking the buckets of past sessions stops after the largest
  lookback asked for.  A fetch is retried up to its maximum number of
  attempts (Warmup\_History).  Reconnection is a recursion on the list
  of sessions the adapter has to offer; that list is arbitrary, and the theorem that a dead feed fails
  closed shows where the loop ends on it.  The loop of a worker's tick feed is a
  recursion on the wakes it meets, and says so when it is still waiting at their end.  Every replay is a recursion on the events replayed.

  \<^bold>\<open>Not modelled, and why.\<close>
  \<^item> Authentication (common/authentication), process control, logging, retention, the
    connections and the migration runner of common/persistence, configuration
    loading: calls into HTTP, the operating system, SQLite, YAML and
    pydantic, with no trading decision of their own.  The constraints that the
    migrations declare are in Tables and Repository.
  \<^item> Health reports, reporting, dashboards and scripts: read-only renderings.
  \<^item> The text of a notification and the channels that deliver it; the engine's and the
    gateway's notifications are operations of their worlds.
  \<^item> The supervisor and the worker processes: spawning, heartbeats and joins.
  \<^item> The live broker, which this version of the program refuses to build, and the
    fixture strategies of the tests.
\<close>

end
